(* ===== verification/Prelude.thy ===== *)
theory Prelude
  imports Main "HOL-Library.Word" "HOL-Library.Signed_Division"
begin

text \<open>
  Shared vocabulary of the development: the fixed-width integers of
  \<^verbatim>\<open>ext4_utils.h\<close>, the outcome type of C functions that may leave by
  \<^verbatim>\<open>longjmp\<close>, byte buffers with little-endian accessors, the rounding macros, and
  the generic lemmas on words, lists and outcomes that the component theories use.

  The collections \<open>outcome_simps\<close> (inversion of a computation that returned),
  \<open>unat_simps\<close> (reading machine arithmetic as natural numbers) and \<open>buf_simps\<close>
  (reads after writes in a byte buffer) are extended by the components.
\<close>

unbundle bit_operations_syntax

named_theorems outcome_simps
named_theorems unat_simps
named_theorems buf_simps

section \<open>Fixed-width integers\<close>

text \<open>
  The typedefs of \<^verbatim>\<open>ext4_utils.h\<close>. A signed C value of width w is kept as a
  \<open>w word\<close> and read with \<open>sint\<close>.
\<close>

type_synonym u8 = "8 word"
type_synonym u16 = "16 word"
type_synonym u32 = "32 word"
type_synonym u64 = "64 word"
type_synonym s64 = "64 word"
type_synonym bytes = "8 word list"

section \<open>Outcomes\<close>

text \<open>
  A C function returns a value, leaves through \<^verbatim>\<open>longjmp(setjmp_env, EXIT_FAILURE)\<close>
  (the \<^verbatim>\<open>error\<close> and \<^verbatim>\<open>critical_error\<close> macros), performs an access the C standard
  leaves undefined (a NULL or dangling pointer, an index outside its buffer, a failed
  \<^verbatim>\<open>assert\<close>), or does not return.
\<close>

datatype fault = Longjmp | Undefined | Diverges

type_synonym 'a res = "fault + 'a"

fun bnd :: "'a res \<Rightarrow> ('a \<Rightarrow> 'b res) \<Rightarrow> 'b res" where
  "bnd (Inl e) f = Inl e"
| "bnd (Inr x) f = f x"

text \<open>\<open>error()\<close>: print, then longjmp unless the \<^verbatim>\<open>force\<close> flag is set.\<close>

definition error_then :: "bool \<Rightarrow> 'a \<Rightarrow> 'a res" where
  "error_then force x = (if force then Inr x else Inl Longjmp)"

lemma bnd_eq_Inr [outcome_simps]: "bnd m f = Inr y \<longleftrightarrow> (\<exists>x. m = Inr x \<and> f x = Inr y)"
  by (cases m) auto

lemma bnd_eq_Inl [outcome_simps]:
  "bnd m f = Inl e \<longleftrightarrow> m = Inl e \<or> (\<exists>x. m = Inr x \<and> f x = Inl e)"
  by (cases m) auto

lemma error_then_eq_Inr [outcome_simps]: "error_then fc x = Inr y \<longleftrightarrow> fc \<and> x = y"
  by (auto simp: error_then_def)

lemma error_then_True [simp]: "error_then True x = Inr x"
  by (simp add: error_then_def)

lemma error_then_False [simp]: "error_then False x = Inl Longjmp"
  by (simp add: error_then_def)

lemma bnd_cong [fundef_cong]:
  "m = m' \<Longrightarrow> (\<And>x. m' = Inr x \<Longrightarrow> f x = g x) \<Longrightarrow> bnd m f = bnd m' g"
  by (cases m') auto

lemma bnd_assoc: "bnd (bnd m f) g = bnd m (\<lambda>x. bnd (f x) g)"
  by (cases m) auto

text \<open>A counted loop whose body may leave: the iterations of a \<^verbatim>\<open>for\<close> over a list.\<close>

fun for_each :: "('x \<Rightarrow> 's \<Rightarrow> 's res) \<Rightarrow> 'x list \<Rightarrow> 's \<Rightarrow> 's res" where
  "for_each f [] s = Inr s"
| "for_each f (x # xs) s = bnd (f x s) (for_each f xs)"

lemma for_each_append: "for_each f (xs @ ys) s = bnd (for_each f xs s) (for_each f ys)"
proof (induction xs arbitrary: s)
  case (Cons x xs)
  then show ?case by (cases "f x s") simp_all
qed simp

text \<open>An invariant indexed by the iterations done.\<close>

lemma for_each_invariant:
  assumes "P [] s"
    and "\<And>done x rest s. xs = done @ x # rest \<Longrightarrow> P done s \<Longrightarrow> \<exists>s'. f x s = Inr s' \<and> P (done @ [x]) s'"
  shows "\<exists>s'. for_each f xs s = Inr s' \<and> P xs s'"
proof -
  have "\<exists>s'. for_each f ys s = Inr s' \<and> P ys s'" if "xs = ys @ zs" for ys zs
    using that
  proof (induction ys arbitrary: zs rule: rev_induct)
    case (snoc y ys)
    then obtain s1 where "for_each f ys s = Inr s1" "P ys s1" by force
    then show ?case using assms(2) [of ys y zs s1] snoc.prems by (auto simp: for_each_append)
  qed (simp add: assms(1))
  then show ?thesis by simp
qed

section \<open>Words\<close>

lemma xor_right_cancel [simp]: "x XOR z = y XOR z \<longleftrightarrow> x = (y :: 'a::len word)"
  by (metis xor.right_neutral xor.assoc xor_self_eq)

lemma xor_left_cancel [simp]: "z XOR x = z XOR y \<longleftrightarrow> x = (y :: 'a::len word)"
  by (metis xor.left_neutral xor.assoc xor_self_eq)

lemma xor_eq_0_iff: "x XOR y = 0 \<longleftrightarrow> x = (y :: 'a::len word)"
  using xor_right_cancel [of x y y] by simp

lemma xor_eq_swap:
  fixes x y z w :: "'a::len word"
  assumes eq: "x XOR y = z XOR w"
  shows "x XOR z = y XOR w"
proof (rule bit_eqI)
  fix n
  show "bit (x XOR z) n \<longleftrightarrow> bit (y XOR w) n"
    using arg_cong [OF eq, of "\<lambda>v. bit v n"] by (auto simp: bit_xor_iff)
qed

lemma unat_ucast_upcast [unat_simps]:
  fixes x :: "'a::len word"
  assumes "LENGTH('a) \<le> LENGTH('b)"
  shows "unat (ucast x :: 'b::len word) = unat x"
proof -
  have "unat x < 2 ^ LENGTH('b)"
    using assms unsigned_less [of x] by (meson le_trans not_less power_increasing one_le_numeral)
  then show ?thesis by (simp add: unsigned_ucast_eq take_bit_nat_eq_self)
qed

lemma ucast_up_eq_iff:
  fixes x y :: "'a::len word"
  assumes "LENGTH('a) \<le> LENGTH('b)"
  shows "(ucast x :: 'b::len word) = ucast y \<longleftrightarrow> x = y"
  using assms by (metis unat_ucast_upcast word_unat_eq_iff)

lemma unat_u32: "unat (w :: u32) < 2 ^ 32"
  using unsigned_less [of w] by simp

lemma unat_u64: "unat (w :: u64) < 2 ^ 64"
  using unsigned_less [of w] by simp

lemma unat_of_nat_u32: "j < 2 ^ 32 \<Longrightarrow> unat (of_nat j :: u32) = j"
  by (simp add: unat_of_nat take_bit_nat_eq_self_iff)

lemma unat_add_le: "unat (a :: u32) + unat b < 2 ^ 32 \<Longrightarrow> unat (a + b) = unat a + unat b"
  using unat_add_lem [of a b] by simp

lemma unat_mult_small: "unat (a :: u32) * unat b < 2 ^ 32 \<Longrightarrow> unat (a * b) = unat a * unat b"
  using unat_mult_lem [of a b] by simp

lemma all_less_two: "(\<forall>g < (2 :: nat). P g) \<longleftrightarrow> P 0 \<and> P 1"
  by (auto simp: less_2_cases_iff)

lemma unat_add_of_nat:
  fixes b :: u32
  assumes "unat b + k < 2 ^ 32"
  shows "unat (b + of_nat k) = unat b + k"
proof -
  have "unat (of_nat k :: u32) = k" using assms by (simp add: unat_of_nat)
  then show ?thesis using assms unat_add_lem [of b "of_nat k"] by simp
qed

lemma sint_nonneg_unat:
  fixes w :: "'a::len word"
  assumes "0 \<le> sint w"
  shows "sint w = int (unat w)"
proof -
  have "sint w < 2 ^ LENGTH('a)"
    using sint_lt [of w] by (rule less_le_trans) (simp add: power_increasing)
  with assms have "uint w = sint w" by (simp add: uint_sint take_bit_int_eq_self)
  then show ?thesis by simp
qed

lemma sint_small:
  fixes w :: "'a::len word"
  assumes "unat w < 2 ^ (LENGTH('a) - 1)"
  shows "sint w = int (unat w)"
proof -
  have "uint w < 2 ^ (LENGTH('a) - 1)"
    using assms by (metis of_nat_less_iff of_nat_numeral of_nat_power uint_nat)
  then show ?thesis by (simp add: sint_uint signed_take_bit_int_eq_self order_trans [OF _ uint_ge_0])
qed

lemma unat_and_not_mask:
  fixes x :: "'a::len word"
  shows "unat (x AND NOT (mask n)) = unat x div 2 ^ n * 2 ^ n"
proof -
  have "x AND NOT (mask n) = push_bit n (drop_bit n x)"
    by (rule bit_eqI) (auto simp: bit_simps not_less dest!: le_Suc_ex)
  moreover have "unat x div 2 ^ n * 2 ^ n < 2 ^ LENGTH('a)"
    by (rule le_less_trans [OF div_times_less_eq_dividend unsigned_less])
  moreover have "unat (push_bit n (drop_bit n x)) = take_bit LENGTH('a) (push_bit n (unat (drop_bit n x)))"
    by (rule unsigned_push_bit_eq)
  moreover have "unat (drop_bit n x) = drop_bit n (unat x)" by (rule unat_drop_bit_eq)
  ultimately show ?thesis
    by (simp add: push_bit_eq_mult drop_bit_eq_div take_bit_nat_eq_self)
qed

section \<open>Rounding macros\<close>

text \<open>\<^verbatim>\<open>DIV_ROUND_UP\<close> and \<^verbatim>\<open>ALIGN\<close> of \<^verbatim>\<open>ext4_utils.h\<close>, at the width of the call.\<close>

definition DIV_ROUND_UP :: "'a::len word \<Rightarrow> 'a word \<Rightarrow> 'a word" where
  "DIV_ROUND_UP x y = (x + y - 1) div y"

definition ALIGN :: "'a::len word \<Rightarrow> 'a word \<Rightarrow> 'a word" where
  "ALIGN x y = y * DIV_ROUND_UP x y"

lemma unat_DIV_ROUND_UP [unat_simps]:
  fixes x y :: "'a::len word"
  assumes "0 < unat y" and "unat x + unat y \<le> 2 ^ LENGTH('a)"
  shows "unat (DIV_ROUND_UP x y) = (unat x + unat y - 1) div unat y"
proof -
  have eq: "x + y - 1 = x + (y - 1)" by simp
  have y1: "unat (y - 1) = unat y - 1"
    using assms(1) by (simp add: unat_minus_one unat_gt_0)
  have "unat x + unat (y - 1) < 2 ^ LENGTH('a)"
    using assms y1 by simp
  then have "unat (x + (y - 1)) = unat x + (unat y - 1)"
    using y1 by (metis unat_add_lem)
  with assms(1) show ?thesis
    unfolding DIV_ROUND_UP_def eq by (simp add: unat_div)
qed

lemma ceiling_div_bounds:
  fixes a b :: nat
  assumes "0 < b"
  shows "a \<le> b * ((a + b - 1) div b)" and "b * ((a + b - 1) div b) < a + b"
proof -
  have m: "(a + b - 1) mod b < b" using assms by simp
  have eq: "b * ((a + b - 1) div b) + (a + b - 1) mod b = a + b - 1" by simp
  from m eq assms show "a \<le> b * ((a + b - 1) div b)" by linarith
  from m eq assms show "b * ((a + b - 1) div b) < a + b" by linarith
qed

lemma unat_ALIGN [unat_simps]:
  fixes x y :: "'a::len word"
  assumes "0 < unat y" and "unat x + unat y \<le> 2 ^ LENGTH('a)"
  shows "unat (ALIGN x y) = unat y * ((unat x + unat y - 1) div unat y)"
proof -
  have "unat y * unat (DIV_ROUND_UP x y) < 2 ^ LENGTH('a)"
    using ceiling_div_bounds(2) [OF assms(1), of "unat x"] assms by (simp add: unat_DIV_ROUND_UP)
  then have "unat (ALIGN x y) = unat y * unat (DIV_ROUND_UP x y)"
    unfolding ALIGN_def by (simp add: unat_mult_lem [THEN iffD1])
  then show ?thesis using assms by (simp add: unat_DIV_ROUND_UP)
qed

end
