(* ===== verification/Bytes.thy ===== *)
theory Bytes
  imports Prelude
begin

text \<open>
  Byte buffers: the casts and struct overlays of the code on a little-endian machine, as
  loads and stores of 16- and 32-bit values at byte offsets, with \<^const>\<open>Undefined\<close> for
  an access outside the buffer.
\<close>

section \<open>Little-endian values\<close>

definition le16 :: "bytes \<Rightarrow> nat \<Rightarrow> u16" where
  "le16 bs i = ucast (bs ! i) OR push_bit 8 (ucast (bs ! (i + 1)))"

definition le16_bytes :: "u16 \<Rightarrow> bytes" where
  "le16_bytes w = [ucast w, ucast (drop_bit 8 w)]"

definition le32_bytes :: "u32 \<Rightarrow> bytes" where
  "le32_bytes w = [ucast w, ucast (drop_bit 8 w), ucast (drop_bit 16 w), ucast (drop_bit 24 w)]"

definition le32 :: "bytes \<Rightarrow> nat \<Rightarrow> u32" where
  "le32 bs i = ucast (bs ! i) OR push_bit 8 (ucast (bs ! (i + 1)))
     OR push_bit 16 (ucast (bs ! (i + 2))) OR push_bit 24 (ucast (bs ! (i + 3)))"

text \<open>\<^verbatim>\<open>memcpy(&dst[at], src, n)\<close> inside a buffer.\<close>

definition blit :: "bytes \<Rightarrow> nat \<Rightarrow> bytes \<Rightarrow> bytes" where
  "blit dst at src = take at dst @ src @ drop (at + length src) dst"

section \<open>Bits of assembled values\<close>

lemma not_bit_byte: "8 \<le> k \<Longrightarrow> \<not> bit (b :: u8) k"
  using bit_imp_le_length [of b k] by auto

lemma byte_cases: "n < (32::nat) \<Longrightarrow> (n < 8 \<Longrightarrow> P) \<Longrightarrow> (8 \<le> n \<Longrightarrow> n < 16 \<Longrightarrow> P) \<Longrightarrow>
    (16 \<le> n \<Longrightarrow> n < 24 \<Longrightarrow> P) \<Longrightarrow> (24 \<le> n \<Longrightarrow> n < 32 \<Longrightarrow> P) \<Longrightarrow> P"
  by linarith

lemmas word_bits = bit_or_iff bit_and_iff bit_push_bit_iff bit_drop_bit_eq bit_ucast_iff not_bit_byte

lemma bit_le32:
  "n < 8 \<Longrightarrow> bit (le32 bs i) n = bit (bs ! i) n"
  "8 \<le> n \<Longrightarrow> n < 16 \<Longrightarrow> bit (le32 bs i) n = bit (bs ! (i + 1)) (n - 8)"
  "16 \<le> n \<Longrightarrow> n < 24 \<Longrightarrow> bit (le32 bs i) n = bit (bs ! (i + 2)) (n - 16)"
  "24 \<le> n \<Longrightarrow> n < 32 \<Longrightarrow> bit (le32 bs i) n = bit (bs ! (i + 3)) (n - 24)"
  by (simp_all add: le32_def word_bits less_imp_diff_less)

lemma le32_bytes_le32: "le32_bytes (le32 bs i) = [bs ! i, bs ! (i + 1), bs ! (i + 2), bs ! (i + 3)]"
  unfolding le32_bytes_def list.inject
  by (intro conjI refl bit_word_eqI) (simp_all add: bit_ucast_iff bit_drop_bit_eq bit_le32)

lemma le16_bytes_le16: "le16_bytes (le16 bs i) = [bs ! i, bs ! (i + 1)]"
  unfolding le16_bytes_def le16_def list.inject
  by (intro conjI refl bit_word_eqI) (simp_all add: word_bits)

section \<open>Copies\<close>

lemma length_blit: "at + length src \<le> length dst \<Longrightarrow> length (blit dst at src) = length dst"
  by (simp add: blit_def)

lemma nth_le32_bytes:
  "le32_bytes w ! 0 = ucast w" "le32_bytes w ! Suc 0 = ucast (drop_bit 8 w)"
  "le32_bytes w ! Suc (Suc 0) = ucast (drop_bit 16 w)" "le32_bytes w ! 3 = ucast (drop_bit 24 w)"
  by (simp_all add: le32_bytes_def)

lemma le32_le32_bytes: "le32 (le32_bytes w) 0 = w"
proof (rule bit_word_eqI)
  fix n assume "n < LENGTH(32)"
  then have "n < 32" by simp
  then show "bit (le32 (le32_bytes w) 0) n = bit w n"
    by (rule byte_cases) (auto simp: bit_le32 nth_le32_bytes bit_ucast_iff bit_drop_bit_eq)
qed

lemma le16_le16_bytes: "le16 (le16_bytes w) 0 = w"
  by (rule bit_word_eqI)
    (auto simp: le16_def le16_bytes_def bit_or_iff bit_push_bit_iff bit_ucast_iff bit_drop_bit_eq)

lemma length_le_bytes [simp]: "length (le16_bytes v) = 2" "length (le32_bytes w) = 4"
  by (simp_all add: le16_bytes_def le32_bytes_def)

section \<open>Checked accesses\<close>

definition get8 :: "bytes \<Rightarrow> nat \<Rightarrow> u8 res" where
  "get8 b off = (if off < length b then Inr (b ! off) else Inl Undefined)"

definition get16 :: "bytes \<Rightarrow> nat \<Rightarrow> u16 res" where
  "get16 b off = (if off + 2 \<le> length b then Inr (le16 b off) else Inl Undefined)"

definition get32 :: "bytes \<Rightarrow> nat \<Rightarrow> u32 res" where
  "get32 b off = (if off + 4 \<le> length b then Inr (le32 b off) else Inl Undefined)"

definition put_bytes :: "bytes \<Rightarrow> nat \<Rightarrow> bytes \<Rightarrow> bytes res" where
  "put_bytes b off src = (if off + length src \<le> length b then Inr (blit b off src) else Inl Undefined)"

definition put8 :: "bytes \<Rightarrow> nat \<Rightarrow> u8 \<Rightarrow> bytes res" where
  "put8 b off v = put_bytes b off [v]"

definition put16 :: "bytes \<Rightarrow> nat \<Rightarrow> u16 \<Rightarrow> bytes res" where
  "put16 b off v = put_bytes b off (le16_bytes v)"

definition put32 :: "bytes \<Rightarrow> nat \<Rightarrow> u32 \<Rightarrow> bytes res" where
  "put32 b off v = put_bytes b off (le32_bytes v)"

lemma nth_blit:
  assumes "at + length src \<le> length dst" and "i < length dst"
  shows "blit dst at src ! i = (if i < at then dst ! i else if i < at + length src then src ! (i - at) else dst ! i)"
  using assms by (auto simp: blit_def nth_append min_def)

lemma blit_inside: "at + length src \<le> length dst \<Longrightarrow> take (length src) (drop at (blit dst at src)) = src"
  by (simp add: blit_def)

lemma le32_cong: "(\<And>k. k < 4 \<Longrightarrow> a ! (i + k) = b ! (j + k)) \<Longrightarrow> le32 a i = le32 b j"
  using le32_def [of a i] le32_def [of b j] by (metis add_0_right less_numeral_extra(1) one_less_numeral_iff
      numeral_less_iff semiring_norm(76-81) zero_less_numeral)

lemma le32_blit_same: "at + 4 \<le> length dst \<Longrightarrow> le32 (blit dst at (le32_bytes w)) at = w"
proof -
  assume a: "at + 4 \<le> length dst"
  have "le32 (blit dst at (le32_bytes w)) at = le32 (le32_bytes w) 0"
    using a by (intro le32_cong) (simp add: nth_blit)
  then show ?thesis by (simp add: le32_le32_bytes)
qed

lemma le32_blit_other:
  "at + length src \<le> length dst \<Longrightarrow> i + 4 \<le> length dst \<Longrightarrow> i + 4 \<le> at \<or> at + length src \<le> i \<Longrightarrow>
    le32 (blit dst at src) i = le32 dst i"
  by (intro le32_cong) (auto simp: nth_blit)

section \<open>Byte reads after byte writes\<close>

lemma le16_cong: "(\<And>k. k < 2 \<Longrightarrow> a ! (i + k) = b ! (j + k)) \<Longrightarrow> le16 a i = le16 b j"
proof -
  assume e: "\<And>k. k < 2 \<Longrightarrow> a ! (i + k) = b ! (j + k)"
  show ?thesis using e [of 0] e [of 1] by (simp add: le16_def)
qed

lemma le16_blit_same: "at + 2 \<le> length dst \<Longrightarrow> le16 (blit dst at (le16_bytes w)) at = w"
proof -
  assume a: "at + 2 \<le> length dst"
  have "le16 (blit dst at (le16_bytes w)) at = le16 (le16_bytes w) 0"
    using a by (intro le16_cong) (simp add: nth_blit)
  then show ?thesis by (simp add: le16_le16_bytes)
qed

lemma le16_blit_other:
  "at + length src \<le> length dst \<Longrightarrow> i + 2 \<le> length dst \<Longrightarrow> i + 2 \<le> at \<or> at + length src \<le> i \<Longrightarrow>
    le16 (blit dst at src) i = le16 dst i"
  by (intro le16_cong) (auto simp: nth_blit)

lemma le32_inside: "at + length src \<le> length dst \<Longrightarrow> i + 4 \<le> length src \<Longrightarrow>
    le32 (blit dst at src) (at + i) = le32 src i"
  by (intro le32_cong) (auto simp: nth_blit)

lemma le16_inside: "at + length src \<le> length dst \<Longrightarrow> i + 2 \<le> length src \<Longrightarrow>
    le16 (blit dst at src) (at + i) = le16 src i"
  by (intro le16_cong) (auto simp: nth_blit)

lemma blit_blit_adjacent:
  "at + length x + length y \<le> length b \<Longrightarrow> blit (blit b at x) (at + length x) y = blit b at (x @ y)"
  by (simp add: blit_def ac_simps)

lemma blit_drop: "k \<le> at \<Longrightarrow> at + length src \<le> length b \<Longrightarrow> drop k (blit b at src) = blit (drop k b) (at - k) src"
  by (simp add: blit_def drop_take)

end
