(* ===== verification/Stores.thy ===== *)
theory Stores
  imports Bytes
begin

text \<open>
  Sequences of stores into a buffer, the way the code fills in a packed structure field by field, and
  what the fields hold afterwards.
\<close>

section \<open>Sequences of stores\<close>

fun put_all :: "(nat \<times> bytes) list \<Rightarrow> bytes \<Rightarrow> bytes res" where
  "put_all [] b = Inr b"
| "put_all ((off, src) # sts) b = bnd (put_bytes b off src) (put_all sts)"

section \<open>Reading fields back\<close>

definition clear_of :: "nat \<Rightarrow> nat \<Rightarrow> nat \<times> bytes \<Rightarrow> bool" where
  "clear_of off n st \<longleftrightarrow> off + n \<le> fst st \<or> fst st + length (snd st) \<le> off"

lemma put_all_length: "put_all sts b = Inr b' \<Longrightarrow> length b' = length b"
  by (induction sts b rule: put_all.induct)
    (auto simp: outcome_simps put_bytes_def length_blit split: if_splits)

lemma put_all_ok: "list_all (\<lambda>(off, src). off + length src \<le> length b) sts \<Longrightarrow> \<exists>b'. put_all sts b = Inr b'"
  by (induction sts b rule: put_all.induct) (simp_all add: put_bytes_def length_blit)

lemma put_all_append: "put_all (xs @ ys) b = bnd (put_all xs b) (put_all ys)"
  by (induction xs b rule: put_all.induct) (auto simp: bnd_assoc intro: bnd_cong)

lemma put_all_keep:
  "put_all sts b = Inr b' \<Longrightarrow> list_all (clear_of off n) sts \<Longrightarrow> off + n \<le> length b \<Longrightarrow>
   take n (drop off b') = take n (drop off b)"
proof (induction sts b rule: put_all.induct)
  case (2 at src sts b)
  obtain b1 where b1: "put_bytes b at src = Inr b1" "put_all sts b1 = Inr b'" using 2(2) by (auto simp: outcome_simps)
  have r: "at + length src \<le> length b" "b1 = blit b at src" using b1(1) by (auto simp: put_bytes_def split: if_splits)
  have "take n (drop off b') = take n (drop off b1)" using 2 b1 r by (simp add: length_blit)
  also have "\<dots> = take n (drop off b)"
  proof (rule nth_equalityI)
    show "length (take n (drop off b1)) = length (take n (drop off b))" using r by (simp add: length_blit)
    fix i assume "i < length (take n (drop off b1))"
    then show "take n (drop off b1) ! i = take n (drop off b) ! i"
      using 2(3,4) r by (auto simp: nth_blit clear_of_def length_blit)
  qed
  finally show ?case .
qed simp

text \<open>The store at position \<open>i\<close> is what the buffer holds in the end, if later stores stay clear of it.\<close>

lemma put_all_read:
  assumes run: "put_all sts b = Inr b'" and i: "i < length sts" "sts ! i = (off, src)"
    and cl: "list_all (clear_of off (length src)) (drop (Suc i) sts)"
  shows "take (length src) (drop off b') = src" and "off + length src \<le> length b'"
proof -
  have sp: "sts = take i sts @ (off, src) # drop (Suc i) sts" using i by (metis id_take_nth_drop)
  have "put_all (take i sts @ (off, src) # drop (Suc i) sts) b = Inr b'" using run sp by simp
  then obtain b1 b2 where b: "put_all (take i sts) b = Inr b1" "put_bytes b1 off src = Inr b2" "put_all (drop (Suc i) sts) b2 = Inr b'"
    by (auto simp: put_all_append outcome_simps)
  have r: "off + length src \<le> length b1" "b2 = blit b1 off src" using b(2) by (auto simp: put_bytes_def split: if_splits)
  have l: "length b2 = length b1" using r by (simp add: length_blit)
  show "take (length src) (drop off b') = src"
    using put_all_keep [OF b(3) cl] l r blit_inside [OF r(1)] by simp
  show "off + length src \<le> length b'" using put_all_length [OF b(3)] l r by simp
qed

lemma le32_of_take: "take 4 (drop off b) = le32_bytes v \<Longrightarrow> off + 4 \<le> length b \<Longrightarrow> le32 b off = v"
proof -
  assume t: "take 4 (drop off b) = le32_bytes v" and l: "off + 4 \<le> length b"
  have "le32 b off = le32 (take 4 (drop off b)) 0" using l by (intro le32_cong) simp
  then show ?thesis using t by (simp add: le32_le32_bytes)
qed

lemma le16_of_take: "take 2 (drop off b) = le16_bytes v \<Longrightarrow> off + 2 \<le> length b \<Longrightarrow> le16 b off = v"
proof -
  assume t: "take 2 (drop off b) = le16_bytes v" and l: "off + 2 \<le> length b"
  have "le16 b off = le16 (take 2 (drop off b)) 0" using l by (intro le16_cong) simp
  then show ?thesis using t by (simp add: le16_le16_bytes)
qed

lemma put_all_le32:
  assumes "put_all sts b = Inr b'" and "i < length sts" "sts ! i = (off, le32_bytes v)"
    and "list_all (clear_of off 4) (drop (Suc i) sts)"
  shows "le32 b' off = v"
  using put_all_read [OF assms(1-3)] assms(4) by (intro le32_of_take) simp_all

lemma put_all_le16:
  assumes "put_all sts b = Inr b'" and "i < length sts" "sts ! i = (off, le16_bytes v)"
    and "list_all (clear_of off 2) (drop (Suc i) sts)"
  shows "le16 b' off = v"
  using put_all_read [OF assms(1-3)] assms(4) by (intro le16_of_take) simp_all

end
