(* ===== verification/Crc16.thy ===== *)
theory Crc16
  imports Prelude
begin

text \<open>
  The checksum of block group descriptors, \<^verbatim>\<open>ext4_utils/crc16.c\<close>: the table
  \<^verbatim>\<open>crc16_tab\<close> and \<^verbatim>\<open>ext4_crc16\<close>, a bit-serial reference definition of the same
  code (reflected polynomial 0xA001), and the proof that the table-driven loop computes it.
\<close>

definition crc16_tab :: "u16 list" where
  "crc16_tab = [
    0x0000, 0xC0C1, 0xC181, 0x0140, 0xC301, 0x03C0, 0x0280, 0xC241,
    0xC601, 0x06C0, 0x0780, 0xC741, 0x0500, 0xC5C1, 0xC481, 0x0440,
    0xCC01, 0x0CC0, 0x0D80, 0xCD41, 0x0F00, 0xCFC1, 0xCE81, 0x0E40,
    0x0A00, 0xCAC1, 0xCB81, 0x0B40, 0xC901, 0x09C0, 0x0880, 0xC841,
    0xD801, 0x18C0, 0x1980, 0xD941, 0x1B00, 0xDBC1, 0xDA81, 0x1A40,
    0x1E00, 0xDEC1, 0xDF81, 0x1F40, 0xDD01, 0x1DC0, 0x1C80, 0xDC41,
    0x1400, 0xD4C1, 0xD581, 0x1540, 0xD701, 0x17C0, 0x1680, 0xD641,
    0xD201, 0x12C0, 0x1380, 0xD341, 0x1100, 0xD1C1, 0xD081, 0x1040,
    0xF001, 0x30C0, 0x3180, 0xF141, 0x3300, 0xF3C1, 0xF281, 0x3240,
    0x3600, 0xF6C1, 0xF781, 0x3740, 0xF501, 0x35C0, 0x3480, 0xF441,
    0x3C00, 0xFCC1, 0xFD81, 0x3D40, 0xFF01, 0x3FC0, 0x3E80, 0xFE41,
    0xFA01, 0x3AC0, 0x3B80, 0xFB41, 0x3900, 0xF9C1, 0xF881, 0x3840,
    0x2800, 0xE8C1, 0xE981, 0x2940, 0xEB01, 0x2BC0, 0x2A80, 0xEA41,
    0xEE01, 0x2EC0, 0x2F80, 0xEF41, 0x2D00, 0xEDC1, 0xEC81, 0x2C40,
    0xE401, 0x24C0, 0x2580, 0xE541, 0x2700, 0xE7C1, 0xE681, 0x2640,
    0x2200, 0xE2C1, 0xE381, 0x2340, 0xE101, 0x21C0, 0x2080, 0xE041,
    0xA001, 0x60C0, 0x6180, 0xA141, 0x6300, 0xA3C1, 0xA281, 0x6240,
    0x6600, 0xA6C1, 0xA781, 0x6740, 0xA501, 0x65C0, 0x6480, 0xA441,
    0x6C00, 0xACC1, 0xAD81, 0x6D40, 0xAF01, 0x6FC0, 0x6E80, 0xAE41,
    0xAA01, 0x6AC0, 0x6B80, 0xAB41, 0x6900, 0xA9C1, 0xA881, 0x6840,
    0x7800, 0xB8C1, 0xB981, 0x7940, 0xBB01, 0x7BC0, 0x7A80, 0xBA41,
    0xBE01, 0x7EC0, 0x7F80, 0xBF41, 0x7D00, 0xBDC1, 0xBC81, 0x7C40,
    0xB401, 0x74C0, 0x7580, 0xB541, 0x7700, 0xB7C1, 0xB681, 0x7640,
    0x7200, 0xB2C1, 0xB381, 0x7340, 0xB101, 0x71C0, 0x7080, 0xB041,
    0x5000, 0x90C1, 0x9181, 0x5140, 0x9301, 0x53C0, 0x5280, 0x9241,
    0x9601, 0x56C0, 0x5780, 0x9741, 0x5500, 0x95C1, 0x9481, 0x5440,
    0x9C01, 0x5CC0, 0x5D80, 0x9D41, 0x5F00, 0x9FC1, 0x9E81, 0x5E40,
    0x5A00, 0x9AC1, 0x9B81, 0x5B40, 0x9901, 0x59C0, 0x5880, 0x9841,
    0x8801, 0x48C0, 0x4980, 0x8941, 0x4B00, 0x8BC1, 0x8A81, 0x4A40,
    0x4E00, 0x8EC1, 0x8F81, 0x4F40, 0x8D01, 0x4DC0, 0x4C80, 0x8C41,
    0x4400, 0x84C1, 0x8581, 0x4540, 0x8701, 0x47C0, 0x4680, 0x8641,
    0x8201, 0x42C0, 0x4380, 0x8341, 0x4100, 0x81C1, 0x8081, 0x4040]"

text \<open>
  The loop of \<^verbatim>\<open>ext4_crc16\<close>: \<^verbatim>\<open>p\<close> walks over \<^verbatim>\<open>buf\<close> while \<^verbatim>\<open>size--\<close> is not
  zero; a size larger than the buffer (or negative) reads past its end.
\<close>

fun ext4_crc16_loop :: "u16 \<Rightarrow> bytes \<Rightarrow> int \<Rightarrow> u16 res" where
  "ext4_crc16_loop crc p sz =
     (if sz = 0 then Inr crc
      else case p of
             [] \<Rightarrow> Inl Undefined
           | b # p' \<Rightarrow>
               ext4_crc16_loop
                 (crc16_tab ! unat ((crc XOR ucast b) AND 0xFF) XOR drop_bit 8 crc)
                 p' (sz - 1))"

definition ext4_crc16 :: "u16 \<Rightarrow> bytes \<Rightarrow> int \<Rightarrow> u16 res" where
  "ext4_crc16 crc_in buf sz = ext4_crc16_loop crc_in buf sz"

declare ext4_crc16_loop.simps [simp del]

section \<open>Bit-serial reference\<close>

definition crc_bit :: "u16 \<Rightarrow> u16" where
  "crc_bit x = drop_bit 1 x XOR (if bit x 0 then 0xA001 else 0)"

definition crc_byte :: "u16 \<Rightarrow> u16" where
  "crc_byte x = (crc_bit ^^ 8) x"

definition crc_step :: "u16 \<Rightarrow> u8 \<Rightarrow> u16" where
  "crc_step crc b = crc_byte (crc XOR ucast b)"

text \<open>
  The reference on integers, where the simplifier computes with binary numerals: the
  table is checked entry by entry against it.
\<close>

definition crc_bit_int :: "int \<Rightarrow> int" where
  "crc_bit_int x = drop_bit 1 x XOR (if odd x then 0xA001 else 0)"

lemma crc_bit_int_numeral:
  "crc_bit_int 0 = 0"
  "crc_bit_int 1 = 0xA001"
  "crc_bit_int (numeral (num.Bit0 n)) = numeral n"
  "crc_bit_int (numeral (num.Bit1 n)) = numeral n XOR 0xA001"
  by (simp_all add: crc_bit_int_def)

definition crc_byte_int :: "int \<Rightarrow> int" where
  "crc_byte_int x = crc_bit_int (crc_bit_int (crc_bit_int (crc_bit_int
     (crc_bit_int (crc_bit_int (crc_bit_int (crc_bit_int x)))))))"

lemma uint_crc_bit: "uint (crc_bit x) = crc_bit_int (uint x)"
proof -
  have "take_bit 16 (uint x) = uint x" by (rule bintr_uint) simp
  then show ?thesis
    by (simp add: crc_bit_def crc_bit_int_def unsigned_xor_eq unsigned_drop_bit_eq
        bit_0 flip: bit_uint_iff [of x 0, simplified])
qed

lemma uint_crc_byte: "uint (crc_byte x) = crc_byte_int (uint x)"
  by (simp add: crc_byte_def crc_byte_int_def numeral_eq_Suc uint_crc_bit)

lemma crc16_tab_int:
  "crc16_tab = map (\<lambda>i. word_of_int (crc_byte_int i)) (0 # 1 # [2..255])"
  by (simp add: crc16_tab_def crc_byte_int_def crc_bit_int_numeral upto_rec_numeral)

lemma crc16_tab_entries: "i < 256 \<Longrightarrow> crc16_tab ! i = crc_byte (of_nat i)"
proof -
  assume i: "i < 256"
  have up: "0 # 1 # [2..255] = [0..255::int]"
    by (simp add: upto_rec1 [of 0] upto_rec1 [of 1])
  have "crc16_tab ! i = word_of_int (crc_byte_int (int i))"
    using i by (simp only: crc16_tab_int up) (simp add: nth_upto)
  also have "int i = uint (of_nat i :: u16)"
    using i by (simp add: uint_nat unat_of_nat)
  finally show ?thesis by (simp flip: uint_crc_byte)
qed

lemma crc_bit_xor: "crc_bit (x XOR y) = crc_bit x XOR crc_bit y"
  by (simp add: crc_bit_def bit_xor_iff drop_bit_xor ac_simps)

lemma crc_bit_funpow_xor: "(crc_bit ^^ n) (x XOR y) = (crc_bit ^^ n) x XOR (crc_bit ^^ n) y"
  by (induction n) (simp_all add: crc_bit_xor)

lemma crc_bit_funpow_shift:
  "(\<And>i. i < n \<Longrightarrow> \<not> bit x i) \<Longrightarrow> (crc_bit ^^ n) x = drop_bit n x"
proof (induction n)
  case 0
  then show ?case by simp
next
  case (Suc n)
  then have "(crc_bit ^^ n) x = drop_bit n x" and "\<not> bit x n" by simp_all
  then show ?case by (simp add: crc_bit_def [of "drop_bit n x"] bit_drop_bit_eq)
qed

lemma crc_byte_split: "crc_byte x = crc_byte (x AND 0xFF) XOR drop_bit 8 x"
proof -
  have m: "(0xFF :: u16) = mask 8" by (simp add: mask_eq_exp_minus_1)
  let ?h = "x AND NOT (mask 8)"
  have low: "\<not> bit ?h i" if "i < 8" for i
    using that by (simp add: bit_and_iff bit_not_iff bit_mask_iff)
  have high: "drop_bit 8 ?h = drop_bit 8 x"
    by (rule bit_eqI) (auto simp: bit_drop_bit_eq bit_and_iff bit_not_iff bit_mask_iff
        dest: bit_imp_le_length)
  have "x = (x AND mask 8) XOR ?h"
    by (rule bit_eqI) (auto simp: bit_xor_iff bit_and_iff bit_not_iff)
  then have "crc_byte x = crc_byte (x AND mask 8) XOR (crc_bit ^^ 8) ?h"
    unfolding crc_byte_def by (metis crc_bit_funpow_xor)
  also have "(crc_bit ^^ 8) ?h = drop_bit 8 x"
    using crc_bit_funpow_shift [OF low] high by simp
  finally show ?thesis unfolding m .
qed

lemma crc16_tab_step:
  "crc16_tab ! unat ((crc XOR ucast b) AND 0xFF) XOR drop_bit 8 crc = crc_step crc b"
proof -
  let ?x = "crc XOR ucast (b :: u8) :: u16"
  have "?x AND 0xFF \<le> 0xFF" by (rule word_and_le1)
  then have "unat (?x AND 0xFF) < 256" by (simp add: word_le_nat_alt)
  then have "crc16_tab ! unat (?x AND 0xFF) = crc_byte (?x AND 0xFF)"
    by (simp add: crc16_tab_entries)
  moreover have "drop_bit 8 ?x = drop_bit 8 crc"
    by (rule bit_eqI) (auto simp: bit_drop_bit_eq bit_xor_iff bit_ucast_iff dest: bit_imp_le_length)
  ultimately show ?thesis
    by (simp add: crc_step_def crc_byte_split [of ?x])
qed

lemma ext4_crc16_loop_foldl:
  "n \<le> length p \<Longrightarrow> ext4_crc16_loop crc p (int n) = Inr (foldl crc_step crc (take n p))"
proof (induction p arbitrary: crc n)
  case Nil
  then show ?case by (simp add: ext4_crc16_loop.simps)
next
  case (Cons b p)
  show ?case
  proof (cases n)
    case 0
    then show ?thesis by (simp add: ext4_crc16_loop.simps)
  next
    case (Suc m)
    with Cons.prems have "m \<le> length p" by simp
    then have "ext4_crc16_loop (crc_step crc b) p (int m) = Inr (foldl crc_step (crc_step crc b) (take m p))"
      by (rule Cons.IH)
    with Suc show ?thesis
      by (subst ext4_crc16_loop.simps) (simp add: crc16_tab_step)
  qed
qed

section \<open>Error detection\<close>

lemma crc_bit_inj: "crc_bit x = crc_bit y \<Longrightarrow> x = y"
proof -
  assume eq: "crc_bit x = crc_bit y"
  have top: "bit (crc_bit z) 15 \<longleftrightarrow> bit z 0" for z
    by (auto simp: crc_bit_def bit_xor_iff bit_drop_bit_eq dest: bit_imp_le_length)
  from eq top have low: "bit x 0 = bit y 0" by metis
  with eq have "drop_bit 1 x = drop_bit 1 y" by (simp add: crc_bit_def split: if_splits)
  then have "bit x (Suc n) = bit y (Suc n)" for n
    by (metis bit_drop_bit_eq comp_apply plus_1_eq_Suc)
  with low show "x = y"
    by (intro bit_eqI) (metis not0_implies_Suc)
qed

lemma crc_byte_inj: "crc_byte x = crc_byte y \<Longrightarrow> x = y"
proof -
  have "(crc_bit ^^ n) x = (crc_bit ^^ n) y \<Longrightarrow> x = y" for n
    by (induction n) (auto dest: crc_bit_inj)
  then show "crc_byte x = crc_byte y \<Longrightarrow> x = y" by (simp add: crc_byte_def)
qed

lemma crc_step_inj_crc: "crc_step c b = crc_step d b \<Longrightarrow> c = d"
  unfolding crc_step_def by (drule crc_byte_inj) simp

lemma crc_step_inj_byte: "crc_step c a = crc_step c b \<Longrightarrow> a = b"
  unfolding crc_step_def
  by (drule crc_byte_inj) (simp add: ucast_up_eq_iff)

lemma foldl_crc_step_inj: "foldl crc_step c bs = foldl crc_step d bs \<Longrightarrow> c = d"
  by (induction bs arbitrary: c d) (auto dest: crc_step_inj_crc)

lemma crc_byte_shifted: "crc_byte (push_bit 8 (ucast (y :: u8))) = ucast y"
proof -
  have "(crc_bit ^^ 8) (push_bit 8 (ucast y :: u16)) = drop_bit 8 (push_bit 8 (ucast y))"
    by (rule crc_bit_funpow_shift) (simp add: bit_push_bit_iff)
  also have "\<dots> = ucast y"
  proof (rule bit_word_eqI)
    fix n assume "n < LENGTH(16)"
    show "bit (drop_bit 8 (push_bit 8 (ucast y :: u16))) n = bit (ucast y :: u16) n"
      using bit_imp_le_length [of y n] by (auto simp: bit_drop_bit_eq bit_push_bit_iff bit_ucast_iff)
  qed
  finally show ?thesis by (simp add: crc_byte_def)
qed

lemma crc_byte_of_byte_inj: "crc_byte (ucast (x :: u8)) = ucast (y :: u8) \<Longrightarrow> x = 0 \<and> y = 0"
proof -
  assume "crc_byte (ucast x) = ucast y"
  then have eq: "(ucast x :: u16) = push_bit 8 (ucast y)"
    by (simp add: crc_byte_inj crc_byte_shifted)
  have bits: "bit (ucast x :: u16) n = bit (push_bit 8 (ucast y :: u16)) n" for n
    by (simp add: eq)
  have x: "x = 0"
  proof (rule bit_word_eqI)
    fix n assume "n < LENGTH(8)"
    then show "bit x n = bit (0 :: u8) n"
      using bits [of n] by (simp add: bit_ucast_iff bit_push_bit_iff)
  qed
  have "y = 0"
  proof (rule bit_word_eqI)
    fix n assume "n < LENGTH(8)"
    then show "bit y n = bit (0 :: u8) n"
      using bits [of "8 + n"] by (simp add: x bit_ucast_iff bit_push_bit_iff)
  qed
  with x show ?thesis by simp
qed

lemma crc_step_pair_inj:
  assumes "crc_step (crc_step c a1) a2 = crc_step (crc_step c b1) b2"
  shows "a1 = b1 \<and> a2 = b2"
proof -
  from assms have "crc_step c a1 XOR ucast a2 = crc_step c b1 XOR ucast b2"
    unfolding crc_step_def [of "crc_step c a1"] crc_step_def [of "crc_step c b1"]
    by (rule crc_byte_inj)
  then have "crc_step c a1 XOR crc_step c b1 = ucast a2 XOR ucast b2"
    by (rule xor_eq_swap)
  moreover have "crc_step c a1 XOR crc_step c b1 = crc_byte (ucast (a1 XOR b1))"
    unfolding crc_step_def crc_byte_def crc_bit_funpow_xor [symmetric]
    by (simp add: unsigned_xor_eq xor.assoc xor.left_commute)
  ultimately have "crc_byte (ucast (a1 XOR b1)) = ucast (a2 XOR b2)"
    by (simp add: unsigned_xor_eq)
  then have "a1 XOR b1 = 0 \<and> a2 XOR b2 = 0"
    by (rule crc_byte_of_byte_inj)
  then show ?thesis by (simp add: xor_eq_0_iff)
qed

section \<open>Properties\<close>

text \<open>
  C26. The table-driven \<open>ext4_crc16\<close> computes, for every initial value and buffer, the
  bit-serial CRC-16 (reflected polynomial 0xA001) of the first \<open>sz\<close> bytes; a size that is
  negative or larger than the buffer reads outside it.
\<close>

theorem ext4_crc16_bit_serial:
  "ext4_crc16 crc buf sz =
     (if 0 \<le> sz \<and> sz \<le> int (length buf)
      then Inr (foldl crc_step crc (take (nat sz) buf)) else Inl Undefined)"
proof (cases "0 \<le> sz \<and> sz \<le> int (length buf)")
  case True
  then have "nat sz \<le> length buf" by linarith
  with True show ?thesis
    using ext4_crc16_loop_foldl [of "nat sz" buf crc] by (simp add: ext4_crc16_def)
next
  case False
  then have "ext4_crc16_loop crc buf sz = Inl Undefined"
  proof (induction buf arbitrary: crc sz)
    case Nil
    then show ?case by (subst ext4_crc16_loop.simps) auto
  next
    case (Cons b buf)
    then show ?case by (subst ext4_crc16_loop.simps) auto
  qed
  with False show ?thesis by (simp add: ext4_crc16_def)
qed

text \<open>
  C32. Two buffers of equal length that differ in at most two adjacent bytes (any error burst
  of up to 16 bits within them) have different checksums.
\<close>

theorem ext4_crc16_detects_bursts:
  assumes "(a1, a2) \<noteq> (b1, b2)"
  shows "ext4_crc16 crc (pre @ [a1, a2] @ post) (int (length pre + 2 + length post))
       \<noteq> ext4_crc16 crc (pre @ [b1, b2] @ post) (int (length pre + 2 + length post))"
proof
  let ?n = "length pre + 2 + length post"
  assume "ext4_crc16 crc (pre @ [a1, a2] @ post) (int ?n) = ext4_crc16 crc (pre @ [b1, b2] @ post) (int ?n)"
  then have "foldl crc_step crc (pre @ [a1, a2] @ post) = foldl crc_step crc (pre @ [b1, b2] @ post)"
    unfolding ext4_crc16_def
    by (subst (asm) (1 2) ext4_crc16_loop_foldl) simp_all
  then have "a1 = b1 \<and> a2 = b2"
    by (auto dest!: foldl_crc_step_inj crc_step_pair_inj)
  with assms show False by simp
qed

theorem ext4_crc16_detects_bursts_witness:
  "ext4_crc16 0xFFFF ([7] @ [1, 2] @ [9]) (int (length [7::u8] + 2 + length [9::u8]))
     \<noteq> ext4_crc16 0xFFFF ([7] @ [1, 3] @ [9]) (int (length [7::u8] + 2 + length [9::u8]))"
  by (rule ext4_crc16_detects_bursts) simp

end
