(* ===== verification/Sha1.thy ===== *)
theory Sha1
  imports Bytes
begin

text \<open>
  \<^verbatim>\<open>ext4_utils/sha1.c\<close>: the context record, the block transform on the 16-word
  circular buffer, and the streaming interface \<^verbatim>\<open>SHA1Init\<close>, \<^verbatim>\<open>SHA1Update\<close>,
  \<^verbatim>\<open>SHA1Final\<close>, on a little-endian machine. The reference is the FIPS 180-1
  description (80-word message schedule, five shifting registers, one-shot padding);
  the transform and the streaming interface are proved to compute it.
\<close>

section \<open>The block transform\<close>

definition rol :: "u32 \<Rightarrow> nat \<Rightarrow> u32" where
  "rol v n = push_bit n v OR drop_bit (32 - n) v"

text \<open>The 16 words of a 64-byte block as a little-endian machine loads them (\<^verbatim>\<open>block->l\<close>).\<close>

definition block_words :: "bytes \<Rightarrow> u32 list" where
  "block_words bs = map (\<lambda>i. le32 bs (4 * i)) [0..<16]"

text \<open>\<^verbatim>\<open>blk0\<close> and \<^verbatim>\<open>blk\<close>: the expanded word and the buffer with that word stored.\<close>

definition blk0 :: "nat \<Rightarrow> u32 list \<Rightarrow> u32" where
  "blk0 i l = (rol (l ! i) 24 AND 0xFF00FF00) OR (rol (l ! i) 8 AND 0x00FF00FF)"

definition blk :: "nat \<Rightarrow> u32 list \<Rightarrow> u32" where
  "blk i l = rol (l ! ((i + 13) mod 16) XOR l ! ((i + 8) mod 16)
                  XOR l ! ((i + 2) mod 16) XOR l ! (i mod 16)) 1"

text \<open>
  The macros \<^verbatim>\<open>R0\<close> .. \<^verbatim>\<open>R4\<close> on the working variables \<^verbatim>\<open>a..e\<close> (a list of five)
  and the buffer; \<open>v w x y z\<close> are the positions of the variables the macro is given.
\<close>

type_synonym work = "u32 list \<times> u32 list"

definition R0 :: "nat \<Rightarrow> nat \<Rightarrow> nat \<Rightarrow> nat \<Rightarrow> nat \<Rightarrow> nat \<Rightarrow> work \<Rightarrow> work" where
  "R0 v w x y z i = (\<lambda>(r, l).
     ((r[z := r ! z + (((r ! w AND (r ! x XOR r ! y)) XOR r ! y) + blk0 i l + 0x5A827999 + rol (r ! v) 5)])
        [w := rol (r ! w) 30], l[i := blk0 i l]))"

definition R1 :: "nat \<Rightarrow> nat \<Rightarrow> nat \<Rightarrow> nat \<Rightarrow> nat \<Rightarrow> nat \<Rightarrow> work \<Rightarrow> work" where
  "R1 v w x y z i = (\<lambda>(r, l).
     ((r[z := r ! z + (((r ! w AND (r ! x XOR r ! y)) XOR r ! y) + blk i l + 0x5A827999 + rol (r ! v) 5)])
        [w := rol (r ! w) 30], l[i mod 16 := blk i l]))"

definition R2 :: "nat \<Rightarrow> nat \<Rightarrow> nat \<Rightarrow> nat \<Rightarrow> nat \<Rightarrow> nat \<Rightarrow> work \<Rightarrow> work" where
  "R2 v w x y z i = (\<lambda>(r, l).
     ((r[z := r ! z + ((r ! w XOR r ! x XOR r ! y) + blk i l + 0x6ED9EBA1 + rol (r ! v) 5)])
        [w := rol (r ! w) 30], l[i mod 16 := blk i l]))"

definition R3 :: "nat \<Rightarrow> nat \<Rightarrow> nat \<Rightarrow> nat \<Rightarrow> nat \<Rightarrow> nat \<Rightarrow> work \<Rightarrow> work" where
  "R3 v w x y z i = (\<lambda>(r, l).
     ((r[z := r ! z + ((((r ! w OR r ! x) AND r ! y) OR (r ! w AND r ! x)) + blk i l + 0x8F1BBCDC + rol (r ! v) 5)])
        [w := rol (r ! w) 30], l[i mod 16 := blk i l]))"

definition R4 :: "nat \<Rightarrow> nat \<Rightarrow> nat \<Rightarrow> nat \<Rightarrow> nat \<Rightarrow> nat \<Rightarrow> work \<Rightarrow> work" where
  "R4 v w x y z i = (\<lambda>(r, l).
     ((r[z := r ! z + ((r ! w XOR r ! x XOR r ! y) + blk i l + 0xCA62C1D6 + rol (r ! v) 5)])
        [w := rol (r ! w) 30], l[i mod 16 := blk i l]))"

text \<open>
  Line i of the unrolled loop names the variables in the order (a,b,c,d,e) rotated right
  by i: variable number k of the macro is at position \<open>(k + 4 * i) mod 5\<close>.
\<close>

definition var_pos :: "nat \<Rightarrow> nat \<Rightarrow> nat" where
  "var_pos k i = (k + 4 * i) mod 5"

definition unrolled_round :: "nat \<Rightarrow> work \<Rightarrow> work" where
  "unrolled_round i =
     (if i < 16 then R0 else if i < 20 then R1 else if i < 40 then R2 else if i < 60 then R3 else R4)
       (var_pos 0 i) (var_pos 1 i) (var_pos 2 i) (var_pos 3 i) (var_pos 4 i) i"

definition SHA1Transform :: "u32 list \<Rightarrow> bytes \<Rightarrow> u32 list" where
  "SHA1Transform st buf =
     (let (r, l) = fold unrolled_round [0..<80] (st, block_words buf)
      in map2 (+) st r)"

section \<open>The streaming interface\<close>

record SHA1_CTX =
  ctx_state :: "u32 list"
  ctx_count0 :: u32
  ctx_count1 :: u32
  ctx_buffer :: bytes

definition SHA1Init :: "bytes \<Rightarrow> SHA1_CTX" where
  "SHA1Init stack_garbage =
     \<lparr>ctx_state = [0x67452301, 0xEFCDAB89, 0x98BADCFE, 0x10325476, 0xC3D2E1F0],
      ctx_count0 = 0, ctx_count1 = 0, ctx_buffer = stack_garbage\<rparr>"

text \<open>The loop over whole blocks of \<^verbatim>\<open>SHA1Update\<close>; the fuel is the length of the data.\<close>

fun update_loop :: "nat \<Rightarrow> u32 list \<Rightarrow> bytes \<Rightarrow> u32 \<Rightarrow> u32 \<Rightarrow> (u32 list \<times> u32) res" where
  "update_loop 0 st data i len = Inl Diverges"
| "update_loop (Suc fuel) st data i len =
     (if i + 63 < len then
        if unat i + 64 \<le> length data
        then update_loop fuel (SHA1Transform st (take 64 (drop (unat i) data))) data (i + 64) len
        else Inl Undefined
      else Inr (st, i))"

definition SHA1Update :: "SHA1_CTX \<Rightarrow> bytes \<Rightarrow> u32 \<Rightarrow> SHA1_CTX res" where
  "SHA1Update ctx data len =
     (if unat len > length data then Inl Undefined else
      let j0 = ctx_count0 ctx;
          c0 = j0 + push_bit 3 len;
          c1 = (if c0 < j0 then ctx_count1 ctx + (drop_bit 29 len + 1) else ctx_count1 ctx);
          j = drop_bit 3 j0 AND 63;
          ctx1 = ctx\<lparr>ctx_count0 := c0, ctx_count1 := c1\<rparr>
      in if j + len > 63 then
           let i = 64 - j;
               b = blit (ctx_buffer ctx) (unat j) (take (unat i) data);
               st = SHA1Transform (ctx_state ctx) b
           in bnd (update_loop (Suc (unat len)) st data i len) (\<lambda>(st', i').
                Inr (ctx1\<lparr>ctx_state := st',
                          ctx_buffer := blit b 0 (take (unat (len - i')) (drop (unat i') data))\<rparr>))
         else Inr (ctx1\<lparr>ctx_buffer := blit (ctx_buffer ctx) (unat j) (take (unat len) data)\<rparr>))"

definition finalcount :: "SHA1_CTX \<Rightarrow> bytes" where
  "finalcount ctx =
     map (\<lambda>i. ucast (drop_bit ((3 - i mod 4) * 8) (if i \<ge> 4 then ctx_count0 ctx else ctx_count1 ctx) AND 255))
       [0..<8]"

fun pad_loop :: "nat \<Rightarrow> SHA1_CTX \<Rightarrow> SHA1_CTX res" where
  "pad_loop 0 ctx = Inl Diverges"
| "pad_loop (Suc fuel) ctx =
     (if ctx_count0 ctx AND 504 \<noteq> 448
      then bnd (SHA1Update ctx [0] 1) (pad_loop fuel) else Inr ctx)"

definition digest_bytes :: "u32 list \<Rightarrow> bytes" where
  "digest_bytes st =
     map (\<lambda>i. ucast (drop_bit ((3 - i mod 4) * 8) (st ! (i div 4)) AND 255)) [0..<20]"

definition SHA1Final :: "SHA1_CTX \<Rightarrow> bytes res" where
  "SHA1Final ctx =
     bnd (SHA1Update ctx [0x80] 1) (\<lambda>ctx1.
     bnd (pad_loop 65 ctx1) (\<lambda>ctx2.
     bnd (SHA1Update ctx2 (finalcount ctx) 8) (\<lambda>ctx3.
     Inr (digest_bytes (ctx_state ctx3)))))"

section \<open>Reference: FIPS 180-1\<close>

definition be32 :: "bytes \<Rightarrow> nat \<Rightarrow> u32" where
  "be32 bs i = push_bit 24 (ucast (bs ! i)) OR push_bit 16 (ucast (bs ! (i + 1)))
     OR push_bit 8 (ucast (bs ! (i + 2))) OR ucast (bs ! (i + 3))"

fun sha1_W :: "bytes \<Rightarrow> nat \<Rightarrow> u32" where
  "sha1_W bs t = (if t < 16 then be32 bs (4 * t)
     else rol (sha1_W bs (t - 3) XOR sha1_W bs (t - 8) XOR sha1_W bs (t - 14) XOR sha1_W bs (t - 16)) 1)"

declare sha1_W.simps [simp del]

definition sha1_f :: "nat \<Rightarrow> u32 \<Rightarrow> u32 \<Rightarrow> u32 \<Rightarrow> u32" where
  "sha1_f t b c d =
     (if t < 20 then (b AND c) OR (NOT b AND d)
      else if t < 40 then b XOR c XOR d
      else if t < 60 then (b AND c) OR (b AND d) OR (c AND d)
      else b XOR c XOR d)"

definition sha1_K :: "nat \<Rightarrow> u32" where
  "sha1_K t = (if t < 20 then 0x5A827999 else if t < 40 then 0x6ED9EBA1
               else if t < 60 then 0x8F1BBCDC else 0xCA62C1D6)"

definition sha1_round :: "bytes \<Rightarrow> nat \<Rightarrow> u32 \<times> u32 \<times> u32 \<times> u32 \<times> u32 \<Rightarrow> u32 \<times> u32 \<times> u32 \<times> u32 \<times> u32" where
  "sha1_round bs t = (\<lambda>(a, b, c, d, e).
     (rol a 5 + sha1_f t b c d + e + sha1_W bs t + sha1_K t, a, rol b 30, c, d))"

definition sha1_compress :: "u32 list \<Rightarrow> bytes \<Rightarrow> u32 list" where
  "sha1_compress h bs =
     (case fold (sha1_round bs) [0..<80] (h ! 0, h ! 1, h ! 2, h ! 3, h ! 4) of
        (a, b, c, d, e) \<Rightarrow> [h ! 0 + a, h ! 1 + b, h ! 2 + c, h ! 3 + d, h ! 4 + e])"

lemma var_pos_bound: "var_pos k i < 5"
  by (simp add: var_pos_def)

lemma var_pos_Suc_Suc: "var_pos (Suc k) (Suc i) = var_pos k i"
proof -
  have "Suc k + 4 * Suc i = (k + 4 * i) + 5" by simp
  then show ?thesis unfolding var_pos_def by (simp only: mod_add_self2)
qed

lemma var_pos_Suc:
  shows "var_pos 0 (Suc i) = var_pos 4 i" and "var_pos 1 (Suc i) = var_pos 0 i"
    and "var_pos 2 (Suc i) = var_pos 1 i" and "var_pos 3 (Suc i) = var_pos 2 i"
    and "var_pos 4 (Suc i) = var_pos 3 i"
proof -
  have n: "(1::nat) = Suc 0" "(2::nat) = Suc 1" "(3::nat) = Suc 2" "(4::nat) = Suc 3" by simp_all
  show "var_pos 0 (Suc i) = var_pos 4 i" by (simp add: var_pos_def)
  show "var_pos 1 (Suc i) = var_pos 0 i" unfolding n(1) by (rule var_pos_Suc_Suc)
  show "var_pos 2 (Suc i) = var_pos 1 i" unfolding n(2) by (rule var_pos_Suc_Suc)
  show "var_pos 3 (Suc i) = var_pos 2 i" unfolding n(3) by (rule var_pos_Suc_Suc)
  show "var_pos 4 (Suc i) = var_pos 3 i" unfolding n(4) by (rule var_pos_Suc_Suc)
qed

lemma var_pos_eq_iff: "j < 5 \<Longrightarrow> k < 5 \<Longrightarrow> var_pos j i = var_pos k i \<longleftrightarrow> j = k"
proof -
  define q where "q = (4 * i) mod 5"
  have "q < 5" by (simp add: q_def)
  then have q: "q = 0 \<or> q = 1 \<or> q = 2 \<or> q = 3 \<or> q = 4" by linarith
  have eq: "var_pos m i = (m + q) mod 5" for m
    unfolding var_pos_def q_def by (simp add: mod_add_right_eq)
  assume "j < 5" "k < 5"
  then have "j = 0 \<or> j = 1 \<or> j = 2 \<or> j = 3 \<or> j = 4" "k = 0 \<or> k = 1 \<or> k = 2 \<or> k = 3 \<or> k = 4"
    by linarith+
  with q show ?thesis unfolding eq by (elim disjE) simp_all
qed

text \<open>The registers of the reference in the order the unrolled loop holds them.\<close>

definition regs_at :: "nat \<Rightarrow> u32 list \<Rightarrow> u32 \<times> u32 \<times> u32 \<times> u32 \<times> u32" where
  "regs_at i r = (r ! var_pos 0 i, r ! var_pos 1 i, r ! var_pos 2 i, r ! var_pos 3 i, r ! var_pos 4 i)"

definition sched_at :: "bytes \<Rightarrow> nat \<Rightarrow> u32 list \<Rightarrow> bool" where
  "sched_at bs i l \<longleftrightarrow> length l = 16 \<and> (\<forall>t < i. i \<le> t + 16 \<longrightarrow> l ! (t mod 16) = sha1_W bs t)
     \<and> (\<forall>t. i \<le> t \<longrightarrow> t < 16 \<longrightarrow> l ! t = le32 bs (4 * t))"

lemma ch_alt: "(w AND (x XOR y)) XOR y = (w AND x) OR (NOT w AND (y :: u32))"
  by (rule bit_word_eqI) (auto simp: bit_xor_iff bit_and_iff bit_or_iff bit_not_iff)

lemma maj_alt: "((w OR x) AND y) OR (w AND x) = (w AND x) OR (w AND y) OR (x AND (y :: u32))"
  by (rule bit_word_eqI) (auto simp: bit_and_iff bit_or_iff)

lemma bit_be32:
  "n < 8 \<Longrightarrow> bit (be32 bs i) n = bit (bs ! (i + 3)) n"
  "8 \<le> n \<Longrightarrow> n < 16 \<Longrightarrow> bit (be32 bs i) n = bit (bs ! (i + 2)) (n - 8)"
  "16 \<le> n \<Longrightarrow> n < 24 \<Longrightarrow> bit (be32 bs i) n = bit (bs ! (i + 1)) (n - 16)"
  "24 \<le> n \<Longrightarrow> n < 32 \<Longrightarrow> bit (be32 bs i) n = bit (bs ! i) (n - 24)"
  by (simp_all add: be32_def word_bits less_imp_diff_less)

lemma bit_rol:
  assumes "n < 32" "0 < k" "k < 32"
  shows "bit (rol x k) n = bit x (if k \<le> n then n - k else n + 32 - k)"
  using assms bit_imp_le_length [of x "n + 32 - k"]
  by (auto simp: rol_def bit_or_iff bit_push_bit_iff bit_drop_bit_eq add.commute)

lemma swap_masks:
  "0xFF00FF00 = push_bit 8 (mask 8 :: u32) OR push_bit 24 (mask 8)"
  "0x00FF00FF = (mask 8 :: u32) OR push_bit 16 (mask 8)"
  by (simp_all add: mask_eq_exp_minus_1)

lemma byteswap: "(rol (le32 bs i) 24 AND 0xFF00FF00) OR (rol (le32 bs i) 8 AND 0x00FF00FF) = be32 bs i"
proof (rule bit_word_eqI)
  fix n assume "n < LENGTH(32)"
  then have "n < 32" by simp
  then show "bit ((rol (le32 bs i) 24 AND 0xFF00FF00) OR (rol (le32 bs i) 8 AND 0x00FF00FF)) n = bit (be32 bs i) n"
    unfolding swap_masks
    by (rule byte_cases)
      (simp_all add: bit_or_iff bit_and_iff bit_push_bit_iff bit_mask_iff bit_rol bit_le32 bit_be32
        less_diff_conv2)
qed

lemma sched_round:
  assumes "sched_at bs i l"
  shows "i < 16 \<Longrightarrow> blk0 i l = sha1_W bs i \<and> sched_at bs (Suc i) (l[i := blk0 i l])"
    and "16 \<le> i \<Longrightarrow> blk i l = sha1_W bs i \<and> sched_at bs (Suc i) (l[i mod 16 := blk i l])"
proof -
  have len: "length l = 16" and W: "\<And>t. t < i \<Longrightarrow> i \<le> t + 16 \<Longrightarrow> l ! (t mod 16) = sha1_W bs t"
    and raw: "\<And>t. i \<le> t \<Longrightarrow> t < 16 \<Longrightarrow> l ! t = le32 bs (4 * t)"
    using assms by (auto simp: sched_at_def)
  have upd: "sched_at bs (Suc i) (l[i mod 16 := sha1_W bs i])"
    unfolding sched_at_def
  proof (intro conjI allI impI)
    show "length (l[i mod 16 := sha1_W bs i]) = 16" using len by simp
  next
    fix t assume t: "t < Suc i" "Suc i \<le> t + 16"
    show "l[i mod 16 := sha1_W bs i] ! (t mod 16) = sha1_W bs t"
    proof (cases "t = i")
      case False
      with t have "\<not> 16 dvd i - t" by (auto dest!: dvd_imp_le)
      with t have "t mod 16 \<noteq> i mod 16" by (metis mod_eq_dvd_iff_nat less_Suc_eq_le)
      with False t W [of t] show ?thesis by simp
    qed (simp add: len)
  next
    fix t assume t: "Suc i \<le> t" "t < 16"
    then show "l[i mod 16 := sha1_W bs i] ! t = le32 bs (4 * t)" using raw [of t] by simp
  qed
  { assume i: "i < 16"
    then have "blk0 i l = sha1_W bs i"
      using raw [of i] byteswap [of bs "4 * i"] by (simp add: blk0_def sha1_W.simps [of bs i])
    with upd i show "blk0 i l = sha1_W bs i \<and> sched_at bs (Suc i) (l[i := blk0 i l])" by simp }
  { assume i: "16 \<le> i"
    have prev_W: "l ! ((i + (16 - d)) mod 16) = sha1_W bs (i - d)" if "0 < d" "d \<le> 16" for d
    proof -
      have "i + (16 - d) = (i - d) + 16" using i that by simp
      then have "(i + (16 - d)) mod 16 = (i - d) mod 16" by (simp only: mod_add_self2)
      with i that W [of "i - d"] show ?thesis by simp
    qed
    have "blk i l = sha1_W bs i"
      using i prev_W [of 3] prev_W [of 8] prev_W [of 14] prev_W [of 16]
      by (simp add: blk_def sha1_W.simps [of bs i])
    with upd show "blk i l = sha1_W bs i \<and> sched_at bs (Suc i) (l[i mod 16 := blk i l])" by simp }
qed

lemma regs_at_update:
  assumes "length r = 5" "regs_at i r = (a, b, c, d, e)"
  shows "regs_at (Suc i) ((r[var_pos 4 i := x])[var_pos 1 i := rol (r ! var_pos 1 i) 30])
           = (x, a, rol b 30, c, d)"
  using assms
  by (simp add: regs_at_def var_pos_Suc nth_list_update var_pos_eq_iff var_pos_bound del: One_nat_def)

lemma unrolled_round_refines:
  assumes len: "length r = 5" and sched: "sched_at bs i l" and step: "unrolled_round i (r, l) = (r', l')"
  shows "length r' = 5 \<and> sched_at bs (Suc i) l' \<and> regs_at (Suc i) r' = sha1_round bs i (regs_at i r)"
proof -
  obtain a b c d e where regs: "regs_at i r = (a, b, c, d, e)" by (metis prod_cases5)
  then have v: "r ! var_pos 0 i = a" "r ! var_pos 1 i = b" "r ! var_pos 2 i = c"
    "r ! var_pos 3 i = d" "r ! var_pos 4 i = e" by (simp_all add: regs_at_def)
  have sum: "e + (f + w + k + q) = q + f + e + w + (k :: u32)" for f w k q
    by (simp add: algebra_simps)
  have ch: "d XOR b AND (c XOR d) = (b AND (c XOR d)) XOR d" by (rule xor.commute)
  show ?thesis
  proof (cases "i < 16")
    case True
    with step sched_round(1) [OF sched True] have "sched_at bs (Suc i) l'"
      and "r' = (r[var_pos 4 i := e + (((b AND (c XOR d)) XOR d) + sha1_W bs i + 0x5A827999 + rol a 5)])
            [var_pos 1 i := rol (r ! var_pos 1 i) 30]"
      by (auto simp: unrolled_round_def R0_def v simp del: One_nat_def)
    with True show ?thesis
      by (simp add: regs_at_update [OF len regs] len regs sha1_round_def sha1_f_def sha1_K_def ch_alt sum
          del: One_nat_def)
  next
    case False
    then have i16: "16 \<le> i" by simp
    note W = sched_round(2) [OF sched i16]
    have r': "r' = (r[var_pos 4 i := e + (sha1_f i b c d + sha1_W bs i + sha1_K i + rol a 5)])
            [var_pos 1 i := rol (r ! var_pos 1 i) 30] \<and> l' = l[i mod 16 := blk i l]"
    proof -
      consider "i < 20" | "20 \<le> i" "i < 40" | "40 \<le> i" "i < 60" | "60 \<le> i" by linarith
      then show ?thesis
        using step [symmetric] i16 conjunct1 [OF W]
        by cases (simp_all add: unrolled_round_def R1_def R2_def R3_def R4_def v sha1_f_def sha1_K_def
            ch_alt maj_alt del: One_nat_def)
    qed
    with conjunct1 [OF W] conjunct2 [OF W] have "sched_at bs (Suc i) l'" by simp
    with conjunct1 [OF r'] show ?thesis
      by (simp add: regs_at_update [OF len regs] len regs sha1_round_def sum del: One_nat_def)
  qed
qed

lemma rounds_refine:
  assumes "length r = 5" "length bs \<ge> 64"
  shows "case fold unrolled_round [0..<n] (r, block_words bs) of (r', l') \<Rightarrow>
           length r' = 5 \<and> sched_at bs n l' \<and> regs_at n r' = fold (sha1_round bs) [0..<n] (regs_at 0 r)"
proof (induction n)
  case 0
  show ?case using assms by (simp add: sched_at_def block_words_def)
next
  case (Suc n)
  obtain r' l' where eq: "fold unrolled_round [0..<n] (r, block_words bs) = (r', l')" by (metis surj_pair)
  obtain r'' l'' where step: "unrolled_round n (r', l') = (r'', l'')" by (metis surj_pair)
  from Suc eq have "length r' = 5" "sched_at bs n l'"
    "regs_at n r' = fold (sha1_round bs) [0..<n] (regs_at 0 r)" by simp_all
  with unrolled_round_refines [OF this(1,2) step] show ?case by (simp add: eq step)
qed

lemma list5_eq: "length r = 5 \<Longrightarrow> r = [r ! 0, r ! 1, r ! 2, r ! 3, r ! 4]"
  by (rule nth_equalityI) (auto simp: nth_Cons' less_Suc_eq numeral_eq_Suc)

lemma SHA1Transform_compress:
  assumes "length st = 5" "length bs = 64"
  shows "SHA1Transform st bs = sha1_compress st bs"
proof -
  obtain r l where rl: "fold unrolled_round [0..<80] (st, block_words bs) = (r, l)" by (metis surj_pair)
  with rounds_refine [of st bs 80] assms have r: "length r = 5"
    and "regs_at 80 r = fold (sha1_round bs) [0..<80] (regs_at 0 st)" by simp_all
  then have "fold (sha1_round bs) [0..<80] (st ! 0, st ! 1, st ! 2, st ! 3, st ! 4)
      = (r ! 0, r ! 1, r ! 2, r ! 3, r ! 4)" by (simp add: regs_at_def var_pos_def)
  then have "sha1_compress st bs = map2 (+) [st ! 0, st ! 1, st ! 2, st ! 3, st ! 4] [r ! 0, r ! 1, r ! 2, r ! 3, r ! 4]"
    by (simp add: sha1_compress_def)
  also have "\<dots> = SHA1Transform st bs"
    by (simp only: SHA1Transform_def rl Let_def case_prod_conv flip: list5_eq [OF assms(1)] list5_eq [OF r])
  finally show ?thesis by simp
qed

section \<open>Streaming equals one-shot hashing\<close>

definition sha1_H0 :: "u32 list" where
  "sha1_H0 = [0x67452301, 0xEFCDAB89, 0x98BADCFE, 0x10325476, 0xC3D2E1F0]"

fun sha1_blocks :: "u32 list \<Rightarrow> bytes \<Rightarrow> u32 list" where
  "sha1_blocks h bs = (if length bs < 64 then h else sha1_blocks (sha1_compress h (take 64 bs)) (drop 64 bs))"

declare sha1_blocks.simps [simp del]

definition be64_bytes :: "nat \<Rightarrow> bytes" where
  "be64_bytes n = map (\<lambda>i. of_nat (n div 256 ^ (7 - i))) [0..<8]"

definition sha1_pad :: "bytes \<Rightarrow> bytes" where
  "sha1_pad m = m @ [0x80] @ replicate ((119 - length m mod 64) mod 64) 0 @ be64_bytes (8 * length m)"

definition sha1_digest :: "bytes \<Rightarrow> bytes" where
  "sha1_digest m = digest_bytes (sha1_blocks sha1_H0 (sha1_pad m))"

lemma length_sha1_compress [simp]: "length (sha1_compress h bs) = 5"
  by (simp add: sha1_compress_def split: prod.splits)

lemma length_sha1_blocks: "length h = 5 \<Longrightarrow> length (sha1_blocks h bs) = 5"
  by (induction h bs rule: sha1_blocks.induct) (subst sha1_blocks.simps, simp)

lemma sha1_blocks_short: "length bs < 64 \<Longrightarrow> sha1_blocks h bs = h"
  by (simp add: sha1_blocks.simps)

lemma sha1_blocks_append:
  "length a mod 64 = 0 \<Longrightarrow> sha1_blocks h (a @ b) = sha1_blocks (sha1_blocks h a) b"
proof (induction h a rule: sha1_blocks.induct)
  case (1 h a)
  show ?case
  proof (cases "length a < 64")
    case True
    with "1.prems" have "a = []" by simp
    then show ?thesis by (simp add: sha1_blocks.simps [of h "[]"])
  next
    case False
    with "1.prems" have "(length a - 64) mod 64 = 0" by (simp add: le_mod_geq)
    with 1 False have "sha1_blocks (sha1_compress h (take 64 a)) (drop 64 a @ b)
        = sha1_blocks (sha1_blocks (sha1_compress h (take 64 a)) (drop 64 a)) b" by simp
    with False show ?thesis
      by (simp add: sha1_blocks.simps [of h a] sha1_blocks.simps [of h "a @ b"])
  qed
qed

text \<open>The part of a message that is not yet a whole block.\<close>

definition tail64 :: "bytes \<Rightarrow> bytes" where
  "tail64 m = drop (64 * (length m div 64)) m"

lemma length_tail64 [simp]: "length (tail64 m) = length m mod 64"
  by (simp add: tail64_def minus_mult_div_eq_mod)

lemma sha1_blocks_tail: "sha1_blocks h (m @ d) = sha1_blocks (sha1_blocks h m) (tail64 m @ d)"
proof -
  let ?f = "take (64 * (length m div 64)) m"
  have m: "m = ?f @ tail64 m" by (simp add: tail64_def)
  have "64 * (length m div 64) \<le> length m" by simp
  then have "length ?f = 64 * (length m div 64)" by (simp only: length_take min_absorb2)
  then have len: "length ?f mod 64 = 0" by (simp only: mod_mult_self1_is_0)
  have "sha1_blocks h m = sha1_blocks (sha1_blocks h ?f) (tail64 m)"
    by (subst m, rule sha1_blocks_append [OF len])
  then have "sha1_blocks h m = sha1_blocks h ?f" by (simp add: sha1_blocks_short)
  moreover have "sha1_blocks h (m @ d) = sha1_blocks (sha1_blocks h ?f) (tail64 m @ d)"
    by (subst m, subst append_assoc, rule sha1_blocks_append [OF len])
  ultimately show ?thesis by simp
qed

lemma tail64_append: "tail64 (m @ d) = tail64 (tail64 m @ d)"
proof -
  define q r where "q = length m div 64" and "r = length m mod 64"
  have qr: "length m = 64 * q + r" "r < 64" by (simp_all add: q_def r_def)
  have len: "(length m + length d) div 64 = q + (r + length d) div 64"
    using qr by (metis div_mult_self4 add.assoc add.commute mult.commute zero_neq_numeral)
  have "tail64 (m @ d) = drop (64 * ((r + length d) div 64)) (drop (64 * q) (m @ d))"
    unfolding tail64_def length_append len drop_drop by (simp add: algebra_simps)
  also have "drop (64 * q) (m @ d) = tail64 m @ d"
    using qr by (simp add: tail64_def q_def)
  finally show ?thesis
    by (subst tail64_def [of "tail64 m @ d"]) (simp add: r_def)
qed

lemma update_loop_blocks:
  assumes "unat i \<le> length data" "unat len = length data" "length data < 2 ^ 29"
    "length data - unat i < fuel" "length st = 5"
  shows "update_loop fuel st data i len
    = Inr (sha1_blocks st (drop (unat i) data), i + of_nat (64 * ((length data - unat i) div 64)))"
  using assms
proof (induction fuel st data i len rule: update_loop.induct)
  case (2 fuel st data i len)
  have i29: "unat i < 2 ^ 29" using "2.prems" by simp
  then have w63: "unat (i + 63) = unat i + 63" and w64: "unat (i + 64) = unat i + 64"
    by (simp_all add: unat_word_ariths)
  show ?case
  proof (cases "i + 63 < len")
    case True
    then have le: "unat i + 64 \<le> length data" using "2.prems" w63 by (simp add: word_less_nat_alt)
    then have d: "(length data - unat i) div 64 = Suc ((length data - (unat i + 64)) div 64)"
      by (simp add: le_div_geq)
    have "update_loop fuel (SHA1Transform st (take 64 (drop (unat i) data))) data (i + 64) len
      = Inr (sha1_blocks (SHA1Transform st (take 64 (drop (unat i) data))) (drop (unat (i + 64)) data),
             i + 64 + of_nat (64 * ((length data - unat (i + 64)) div 64)))"
      using "2.prems" le w64 SHA1Transform_compress [of st "take 64 (drop (unat i) data)"]
      by (intro "2.IH" [OF True le]) (simp_all)
    moreover have "sha1_blocks (SHA1Transform st (take 64 (drop (unat i) data))) (drop (unat i + 64) data)
        = sha1_blocks st (drop (unat i) data)"
    proof -
      have "\<not> length (drop (unat i) data) < 64" using le by simp
      moreover have "SHA1Transform st (take 64 (drop (unat i) data)) = sha1_compress st (take 64 (drop (unat i) data))"
        using le "2.prems" by (intro SHA1Transform_compress) simp_all
      ultimately show ?thesis
        by (simp only: sha1_blocks.simps [of st "drop (unat i) data"] if_False) (simp add: add.commute)
    qed
    ultimately show ?thesis using True le by (simp add: w64 d algebra_simps)
  next
    case False
    then have "length data - unat i < 64" using "2.prems" w63 by (simp add: word_less_nat_alt)
    with False show ?thesis by (simp add: sha1_blocks_short)
  qed
qed simp


definition ctx_repr :: "SHA1_CTX \<Rightarrow> bytes \<Rightarrow> bool" where
  "ctx_repr ctx m \<longleftrightarrow> length (ctx_buffer ctx) = 64 \<and> ctx_count0 ctx = of_nat (8 * length m)
     \<and> ctx_count1 ctx = 0 \<and> ctx_state ctx = sha1_blocks sha1_H0 m
     \<and> take (length m mod 64) (ctx_buffer ctx) = tail64 m"

lemma ctx_repr_init: "length g = 64 \<Longrightarrow> ctx_repr (SHA1Init g) []"
  by (simp add: ctx_repr_def SHA1Init_def sha1_H0_def sha1_blocks_short tail64_def)

text \<open>The counters and the fill of the buffer, before the data is looked at.\<close>

lemma update_counts:
  assumes "length m + length d < 2 ^ 29"
  defines "cnt \<equiv> of_nat (8 * length m) :: u32" and "len \<equiv> of_nat (length d) :: u32"
  shows "unat len = length d" "unat (drop_bit 3 cnt AND 63) = length (tail64 m)"
    "cnt + push_bit 3 len = of_nat (8 * length (m @ d))" "\<not> cnt + push_bit 3 len < cnt"
    "(drop_bit 3 cnt AND 63) + len > 63 \<longleftrightarrow> 64 \<le> length (tail64 m) + length d"
proof -
  have t64: "length (tail64 m) < 64" "length (tail64 m) = length m mod 64" by simp_all
  show ul: "unat len = length d" using assms by (simp add: unat_of_nat)
  have ucnt: "unat cnt = 8 * length m" using assms by (simp add: unat_of_nat del: of_nat_mult)
  have "63 = (mask 6 :: u32)" by (simp add: mask_eq_exp_minus_1)
  then show uj: "unat (drop_bit 3 cnt AND 63) = length (tail64 m)"
    by (simp only: take_bit_eq_mask [symmetric] unsigned_take_bit_eq unat_drop_bit_eq ucnt t64)
      (simp add: take_bit_eq_mod drop_bit_eq_div)
  show c0: "cnt + push_bit 3 len = of_nat (8 * length (m @ d))"
    by (simp add: push_bit_eq_mult cnt_def len_def algebra_simps)
  show "\<not> cnt + push_bit 3 len < cnt"
    unfolding c0 using assms(1) by (simp add: word_less_nat_alt ucnt unat_of_nat del: of_nat_mult of_nat_add)
  have "unat ((drop_bit 3 cnt AND 63) + len) = length (tail64 m) + length d"
    using assms(1) t64 uj ul by (simp add: unat_word_ariths)
  then show "(drop_bit 3 cnt AND 63) + len > 63 \<longleftrightarrow> 64 \<le> length (tail64 m) + length d" by (auto simp: word_less_nat_alt)
qed

text \<open>Data that does not fill the buffer is only stored.\<close>

lemma repr_store:
  assumes r: "ctx_repr ctx m" and small: "length (tail64 m) + length d < 64"
  shows "ctx_repr (ctx\<lparr>ctx_count0 := of_nat (8 * length (m @ d)), ctx_count1 := 0,
    ctx_buffer := blit (ctx_buffer ctx) (length (tail64 m)) d\<rparr>) (m @ d)"
proof -
  define t where "t = tail64 m"
  have buf: "length (ctx_buffer ctx) = 64" "take (length t) (ctx_buffer ctx) = t"
    and st: "ctx_state ctx = sha1_blocks sha1_H0 m"
    using r by (simp_all add: ctx_repr_def t_def)
  have "sha1_blocks sha1_H0 (m @ d) = sha1_blocks sha1_H0 m"
    using small by (simp add: sha1_blocks_tail [of _ m] sha1_blocks_short flip: t_def)
  moreover have "tail64 (m @ d) = t @ d"
    using small by (simp add: tail64_append [of m] flip: t_def) (simp add: tail64_def)
  moreover have "(length m + length d) mod 64 = length t + length d"
    using small by (simp add: t_def) (metis mod_add_left_eq mod_less)
  moreover have "take (length t + length d) (blit (ctx_buffer ctx) (length t) d) = t @ d"
    using buf small by (simp add: blit_def)
  ultimately show ?thesis
    using buf small by (simp add: ctx_repr_def st length_blit del: of_nat_mult flip: t_def)
qed

text \<open>Data that fills it: the first \<open>k\<close> bytes complete a block, whole blocks follow, the rest is stored.\<close>

lemma repr_blocks:
  assumes r: "ctx_repr ctx m" and big: "64 \<le> length (tail64 m) + length d"
  defines "k \<equiv> 64 - length (tail64 m)"
  defines "n \<equiv> k + 64 * ((length d - k) div 64)" and "b \<equiv> tail64 m @ take k d"
  shows "ctx_repr (ctx\<lparr>ctx_count0 := of_nat (8 * length (m @ d)), ctx_count1 := 0,
    ctx_state := sha1_blocks (sha1_compress (sha1_blocks sha1_H0 m) b) (drop k d), ctx_buffer := blit b 0 (drop n d)\<rparr>) (m @ d)"
proof -
  define t where "t = tail64 m"
  have k: "k \<le> length d" "length t + k = 64" using big by (simp_all add: k_def t_def)
  have lb: "length b = 64" using k by (simp add: b_def t_def)
  have "sha1_blocks (sha1_blocks sha1_H0 m) b = sha1_compress (sha1_blocks sha1_H0 m) b"
    using lb by (subst sha1_blocks.simps) (simp add: sha1_blocks_short del: take_append drop_append)
  moreover have "t @ d = b @ drop k d" by (simp add: b_def t_def)
  ultimately have "sha1_blocks sha1_H0 (m @ d) = sha1_blocks (sha1_compress (sha1_blocks sha1_H0 m) b) (drop k d)"
    unfolding sha1_blocks_tail [of _ m] t_def [symmetric]
    by (simp only:) (subst sha1_blocks_append, simp_all only: lb, simp)
  moreover have tl: "tail64 (m @ d) = drop n d"
  proof -
    have "length t + length d = (length d - k) + 64" using k by simp
    then have "64 * ((length t + length d) div 64) = 64 + 64 * ((length d - k) div 64)"
      by (simp only: div_add_self2)  simp
    then have "64 * ((length t + length d) div 64) = length t + n"
      using k by (simp add: n_def)
    then show ?thesis
      unfolding tail64_append [of m] t_def [symmetric] by (simp add: tail64_def)
  qed
  moreover have "take ((length m + length d) mod 64) (blit b 0 (drop n d)) = drop n d"
    using arg_cong [OF tl, of length] by (simp add: blit_def)
  moreover have "length (blit b 0 (drop n d)) = 64"
    using arg_cong [OF tl, of length] lb by (subst length_blit) (auto intro: less_imp_le)
  ultimately show ?thesis by (simp add: ctx_repr_def del: of_nat_mult)
qed

lemma SHA1Update_repr:
  assumes r: "ctx_repr ctx m" and len: "length m + length d < 2 ^ 29"
  shows "\<exists>ctx'. SHA1Update ctx d (of_nat (length d)) = Inr ctx' \<and> ctx_repr ctx' (m @ d)"
proof -
  let ?len = "of_nat (length d) :: u32" and ?j = "drop_bit 3 (of_nat (8 * length m) :: u32) AND 63"
  define t where "t = tail64 m"
  note c = update_counts [OF len, folded t_def]
  have buf: "length (ctx_buffer ctx) = 64" "take (length t) (ctx_buffer ctx) = t"
    and st: "ctx_state ctx = sha1_blocks sha1_H0 m" "ctx_count0 ctx = of_nat (8 * length m)" "ctx_count1 ctx = 0"
    using r by (simp_all add: ctx_repr_def t_def)
  show ?thesis
  proof (cases "64 \<le> length t + length d")
    case False
    then have "SHA1Update ctx d ?len = Inr (ctx\<lparr>ctx_count0 := of_nat (8 * length (m @ d)), ctx_count1 := 0,
        ctx_buffer := blit (ctx_buffer ctx) (length t) d\<rparr>)"
      using c by (simp add: SHA1Update_def Let_def st del: of_nat_mult)
    then show ?thesis using repr_store [OF r, of d] False by (simp add: t_def)
  next
    case True
    define k where "k = 64 - length t"
    define n where "n = k + 64 * ((length d - k) div 64)"
    let ?i = "64 - ?j" and ?b = "t @ take k d" and ?st = "sha1_compress (sha1_blocks sha1_H0 m) (t @ take k d)"
    have t64: "length t < 64" by (simp add: t_def)
    have k: "k \<le> length d" "length t + k = 64" using True t64 by (simp_all add: k_def)
    have ui: "unat ?i = k" using c(2) t64 by (simp add: unat_sub word_le_nat_alt k_def)
    have b: "blit (ctx_buffer ctx) (length t) (take k d) = ?b" using buf k by (simp add: blit_def)
    have lb: "length ?b = 64" using k by simp
    have tr: "SHA1Transform (ctx_state ctx) ?b = ?st"
      unfolding st by (rule SHA1Transform_compress [OF _ lb]) (simp add: length_sha1_blocks sha1_H0_def)
    have loop: "update_loop (Suc (length d)) ?st d ?i ?len
        = Inr (sha1_blocks ?st (drop k d), ?i + of_nat (64 * ((length d - k) div 64)))"
      by (rule update_loop_blocks [of ?i d ?len "Suc (length d)" ?st, unfolded ui]) (use k len c(1) in simp_all)
    have n: "n \<le> length d" unfolding n_def using k by (metis le_add_diff_inverse nat_add_left_cancel_le times_div_less_eq_dividend)
    then have "64 * ((length d - k) div 64) \<le> length d" by (simp add: n_def)
    then have un: "unat (?i + of_nat (64 * ((length d - k) div 64))) = n"
      using len k ui by (simp add: unat_word_ariths unat_of_nat n_def del: of_nat_mult)
    have rest: "unat (?len - (?i + of_nat (64 * ((length d - k) div 64)))) = length d - n"
      using n un c(1) by (simp add: unat_sub word_le_nat_alt del: of_nat_mult)
    have "SHA1Update ctx d ?len = Inr (ctx\<lparr>ctx_count0 := of_nat (8 * length (m @ d)), ctx_count1 := 0,
        ctx_state := sha1_blocks ?st (drop k d), ctx_buffer := blit ?b 0 (drop n d)\<rparr>)"
      using True tr b n c
      by (simp add: SHA1Update_def Let_def st ui un rest loop del: of_nat_mult update_loop.simps)
    then show ?thesis using repr_blocks [OF r, of d] True by (simp add: t_def k_def n_def)
  qed
qed

lemma count_mask:
  assumes "length m < 2 ^ 29"
  shows "(of_nat (8 * length m) :: u32) AND 504 = 448 \<longleftrightarrow> length m mod 64 = 56"
proof -
  let ?c = "of_nat (8 * length m) :: u32"
  have "504 = push_bit 3 (mask 6 :: u32)" by (simp add: mask_eq_exp_minus_1 push_bit_eq_mult)
  moreover have "?c = push_bit 3 (of_nat (length m))" by (simp add: push_bit_eq_mult)
  ultimately have "?c AND 504 = push_bit 3 (take_bit 6 (of_nat (length m)))"
    by (simp only: push_bit_and [symmetric] take_bit_eq_mask)
  also have "\<dots> = of_nat (8 * (length m mod 64))"
    by (simp add: push_bit_eq_mult take_bit_of_nat) (simp add: take_bit_eq_mod)
  finally have "?c AND 504 = of_nat (8 * (length m mod 64))" .
  moreover have "(of_nat (8 * (length m mod 64)) = (448 :: u32)) \<longleftrightarrow> length m mod 64 = 56"
  proof -
    have "unat (of_nat (8 * (length m mod 64)) :: u32) = 8 * (length m mod 64)"
      by (simp add: unat_of_nat del: of_nat_mult)
    then show ?thesis by (simp add: word_unat_eq_iff del: of_nat_mult)
  qed
  ultimately show ?thesis by simp
qed

lemma pad_loop_repr:
  assumes "ctx_repr ctx m" "length m + (120 - length m mod 64) mod 64 < 2 ^ 29"
    "(120 - length m mod 64) mod 64 < fuel"
  shows "\<exists>ctx'. pad_loop fuel ctx = Inr ctx' \<and> ctx_repr ctx' (m @ replicate ((120 - length m mod 64) mod 64) 0)"
  using assms
proof (induction fuel ctx arbitrary: m rule: pad_loop.induct)
  case (2 fuel ctx)
  let ?k = "(120 - length m mod 64) mod 64"
  have c: "ctx_count0 ctx AND 504 = 448 \<longleftrightarrow> length m mod 64 = 56"
    using "2.prems" count_mask [of m] by (simp add: ctx_repr_def)
  show ?case
  proof (cases "length m mod 64 = 56")
    case True
    with c "2.prems" show ?thesis by (simp add: exI [of _ ctx])
  next
    case False
    have lt: "length m mod 64 < 64" by simp
    have k: "?k = Suc ((120 - length (m @ [0]) mod 64) mod 64)"
    proof -
      define r where "r = length m mod 64"
      have s: "length (m @ [0::u8]) mod 64 = Suc r mod 64" by (simp add: r_def mod_Suc_eq)
      consider "r < 56" | "56 < r" "r < 63" | "r = 63" using lt False unfolding r_def by linarith
      then show ?thesis
        unfolding s r_def [symmetric] by cases (auto simp: mod_if)
    qed
    have "length m + length [0::u8] < 2 ^ 29" using "2.prems"(2) k by simp
    then obtain ctx1 where c1: "SHA1Update ctx [0] 1 = Inr ctx1" "ctx_repr ctx1 (m @ [0])"
      using SHA1Update_repr [OF "2.prems"(1), of "[0]"] by auto
    have "\<exists>ctx'. pad_loop fuel ctx1 = Inr ctx' \<and>
        ctx_repr ctx' ((m @ [0]) @ replicate ((120 - length (m @ [0]) mod 64) mod 64) 0)"
      using "2.prems" k by (intro "2.IH" c1) (use False c in \<open>simp_all\<close>)
    then show ?thesis using False c c1 by (simp add: k)
  qed
qed simp

lemma byte_of_word: "(ucast (drop_bit k (w :: u32) AND 255) :: u8) = of_nat (unat w div 2 ^ k)"
proof -
  have m: "255 = (mask 8 :: u32)" by (simp add: mask_eq_exp_minus_1)
  have "(ucast (drop_bit k w AND 255) :: u8) = ucast (drop_bit k w)"
    unfolding m by (rule bit_word_eqI) (simp add: bit_ucast_iff bit_and_iff bit_mask_iff)
  also have "\<dots> = of_nat (unat (drop_bit k w))" by simp
  finally show ?thesis by (simp only: unat_drop_bit_eq drop_bit_eq_div [of k "unat w"])
qed

lemma finalcount_be64:
  assumes r: "ctx_repr ctx m" and len: "length m < 2 ^ 29"
  shows "finalcount ctx = be64_bytes (8 * length m)"
proof -
  have c: "unat (ctx_count0 ctx) = 8 * length m" "ctx_count1 ctx = 0"
    using r len by (simp_all add: ctx_repr_def unat_of_nat del: of_nat_mult)
  have "(if i \<ge> 4 then unat (ctx_count0 ctx) else unat (ctx_count1 ctx)) div 2 ^ ((3 - i mod 4) * 8)
      = 8 * length m div 256 ^ (7 - i)" if "i < 8" for i
  proof -
    from that consider "i < 4" | "i = 4" | "i = 5" | "i = 6" | "i = 7" by linarith
    then show ?thesis
    proof cases
      case 1
      then have "(256::nat) ^ 4 \<le> 256 ^ (7 - i)" by (intro power_increasing) simp_all
      then have "8 * length m < 256 ^ (7 - i)" using len by simp
      with 1 c show ?thesis by simp
    qed (simp_all add: c)
  qed
  then show ?thesis
    unfolding finalcount_def be64_bytes_def
    by (intro map_cong refl) (simp only: byte_of_word, simp add: if_distrib [of unat])
qed

lemma SHA1Final_repr:
  assumes r: "ctx_repr ctx m" and len: "length m + 72 < 2 ^ 29"
  shows "SHA1Final ctx = Inr (sha1_digest m)"
proof -
  have "length m + length [0x80::u8] < 2 ^ 29" using len by simp
  then obtain c1 where c1: "SHA1Update ctx [0x80] 1 = Inr c1" "ctx_repr c1 (m @ [0x80])"
    using SHA1Update_repr [OF r, of "[0x80]"] by auto
  let ?k = "(120 - length (m @ [0x80::u8]) mod 64) mod 64"
  have k64: "?k < 64" and k65: "?k < 65" by (simp_all add: less_trans [OF mod_less_divisor])
  have "length (m @ [0x80::u8]) + ?k < 2 ^ 29" using len k64 by simp
  then obtain c2 where c2: "pad_loop 65 c1 = Inr c2" "ctx_repr c2 ((m @ [0x80]) @ replicate ?k 0)"
    using pad_loop_repr [OF c1(2) _ k65] by blast
  have f: "finalcount ctx = be64_bytes (8 * length m)" using finalcount_be64 [OF r] len by simp
  have "length ((m @ [0x80]) @ replicate ?k (0::u8)) + length (be64_bytes (8 * length m)) < 2 ^ 29"
    using len k64 by (simp add: be64_bytes_def)
  then obtain c3 where c3: "SHA1Update c2 (be64_bytes (8 * length m)) 8 = Inr c3"
    "ctx_repr c3 (((m @ [0x80]) @ replicate ?k 0) @ be64_bytes (8 * length m))"
    using SHA1Update_repr [OF c2(2), of "be64_bytes (8 * length m)"] by (auto simp: be64_bytes_def)
  have "?k = (119 - length m mod 64) mod 64"
  proof -
    define q where "q = length m mod 64"
    have s: "length (m @ [0x80::u8]) mod 64 = Suc q mod 64" by (simp add: q_def mod_Suc_eq)
    have "q < 64" by (simp add: q_def)
    then consider "q < 56" | "56 \<le> q" "q < 63" | "q = 63" by linarith
    then show ?thesis unfolding s q_def [symmetric] by cases (auto simp: mod_if)
  qed
  with c3(2) have "ctx_state c3 = sha1_blocks sha1_H0 (sha1_pad m)"
    by (simp add: ctx_repr_def sha1_pad_def)
  then show ?thesis
    by (simp add: SHA1Final_def c1 c2 f c3 sha1_digest_def)
qed

end
