(* ===== verification/Uuid.thy ===== *)
theory Uuid
  imports Sha1
begin

text \<open>
  \<^verbatim>\<open>ext4_utils/uuid.c\<close>: the SHA-1 of a namespace and a name, and the file system UUID
  made from its first 16 bytes through the overlaid \<^verbatim>\<open>struct uuid\<close> on a
  little-endian machine. C strings are byte lists without their terminating NUL.
\<close>

record uuid =
  time_low :: u32
  time_mid :: u16
  time_hi_and_version :: u16
  clk_seq_hi_res :: u8
  clk_seq_low :: u8
  node0_1 :: u16
  node2_5 :: u32

text \<open>\<^verbatim>\<open>memcpy\<close> into and out of the packed struct.\<close>

definition uuid_load :: "bytes \<Rightarrow> uuid" where
  "uuid_load bs = \<lparr>time_low = le32 bs 0, time_mid = le16 bs 4, time_hi_and_version = le16 bs 6,
     clk_seq_hi_res = bs ! 8, clk_seq_low = bs ! 9, node0_1 = le16 bs 10, node2_5 = le32 bs 12\<rparr>"

definition uuid_store :: "uuid \<Rightarrow> bytes" where
  "uuid_store u = le32_bytes (time_low u) @ le16_bytes (time_mid u) @ le16_bytes (time_hi_and_version u)
     @ [clk_seq_hi_res u, clk_seq_low u] @ le16_bytes (node0_1 u) @ le32_bytes (node2_5 u)"

definition ntohl :: "u32 \<Rightarrow> u32" where
  "ntohl w = (rol w 24 AND 0xFF00FF00) OR (rol w 8 AND 0x00FF00FF)"

definition ntohs :: "u16 \<Rightarrow> u16" where
  "ntohs w = push_bit 8 w OR drop_bit 8 w"

text \<open>
  \<^verbatim>\<open>sha1_hash\<close>; the first argument is the content of the uninitialised buffer of the
  context on the stack.
\<close>

definition sha1_hash :: "bytes \<Rightarrow> bytes \<Rightarrow> bytes \<Rightarrow> bytes res" where
  "sha1_hash stack namesp name =
     bnd (SHA1Update (SHA1Init stack) namesp (of_nat (length namesp))) (\<lambda>ctx1.
     bnd (SHA1Update ctx1 name (of_nat (length name))) (\<lambda>ctx2.
     SHA1Final ctx2))"

definition generate_uuid :: "bytes \<Rightarrow> bytes \<Rightarrow> bytes \<Rightarrow> bytes res" where
  "generate_uuid stack namesp name =
     bnd (sha1_hash stack namesp name) (\<lambda>sha1.
     let u0 = uuid_load (take 16 sha1);
         u1 = u0\<lparr>time_low := ntohl (time_low u0), time_mid := ntohs (time_mid u0),
                 time_hi_and_version :=
                   (ntohs (time_hi_and_version u0) AND 0x0FFF) OR push_bit 12 5,
                 clk_seq_hi_res := (clk_seq_hi_res u0 AND NOT (push_bit 6 1)) OR push_bit 7 1\<rparr>
     in Inr (uuid_store u1))"

section \<open>Byte layout\<close>

lemma ntohl_le32: "le32_bytes (ntohl (le32 bs i)) = [bs ! (i + 3), bs ! (i + 2), bs ! (i + 1), bs ! i]"
  unfolding ntohl_def byteswap le32_bytes_def list.inject
  by (intro conjI refl bit_word_eqI) (simp_all add: bit_ucast_iff bit_drop_bit_eq bit_be32)

lemma bit_ntohs_le16:
  "n < 8 \<Longrightarrow> bit (ntohs (le16 bs i)) n = bit (bs ! (i + 1)) n"
  "8 \<le> n \<Longrightarrow> n < 16 \<Longrightarrow> bit (ntohs (le16 bs i)) n = bit (bs ! i) (n - 8)"
  by (simp_all add: ntohs_def le16_def word_bits less_imp_diff_less)

lemma ntohs_le16: "le16_bytes (ntohs (le16 bs i)) = [bs ! (i + 1), bs ! i]"
  unfolding le16_bytes_def list.inject
  by (intro conjI refl bit_word_eqI) (simp_all add: bit_ucast_iff bit_drop_bit_eq bit_ntohs_le16)

lemma version_bytes:
  "le16_bytes ((ntohs (le16 bs i) AND 0x0FFF) OR 0x5000) = [bs ! (i + 1), (bs ! i AND 0x0F) OR 0x50]"
proof -
  have m: "0x0FFF = (mask 12 :: u16)" "0x5000 = push_bit 12 (1 :: u16) OR push_bit 14 1"
    "0x0F = (mask 4 :: u8)" "0x50 = push_bit 4 (1 :: u8) OR push_bit 6 1"
    by (simp_all add: mask_eq_exp_minus_1 push_bit_eq_mult)
  show ?thesis
    unfolding m le16_bytes_def list.inject
    by (intro conjI refl bit_word_eqI;
        simp only: bit_ucast_iff bit_drop_bit_eq bit_or_iff bit_and_iff bit_mask_iff bit_push_bit_iff
          bit_1_iff o_apply)
      (auto simp: bit_ntohs_le16)
qed

lemma length_sha1_digest [simp]: "length (sha1_digest m) = 20"
  by (simp add: sha1_digest_def digest_bytes_def)

lemma sha1_hash_digest:
  assumes "length stack = 64" and "length namesp + length name + 72 < 2 ^ 29"
  shows "sha1_hash stack namesp name = Inr (sha1_digest (namesp @ name))"
proof -
  obtain c1 where c1: "SHA1Update (SHA1Init stack) namesp (of_nat (length namesp)) = Inr c1"
    "ctx_repr c1 namesp"
    using SHA1Update_repr [OF ctx_repr_init [OF assms(1)], of namesp] assms(2) by auto
  obtain c2 where "SHA1Update c1 name (of_nat (length name)) = Inr c2" "ctx_repr c2 (namesp @ name)"
    using SHA1Update_repr [OF c1(2), of name] assms(2) by auto
  with c1 SHA1Final_repr assms(2) show ?thesis by (simp add: sha1_hash_def)
qed

section \<open>Properties\<close>

text \<open>
  C25. Hashing the namespace and the name in two \<open>SHA1Update\<close> calls and finishing with
  \<open>SHA1Final\<close> (circular message buffer, unrolled rounds, byte-wise padding) returns the
  FIPS 180-1 digest of their concatenation, whatever the uninitialised context buffer held.
\<close>

theorem sha1_hash_is_sha1:
  assumes "length stack = 64" and "length namesp + length name + 72 < 2 ^ 29"
  shows "sha1_hash stack namesp name = Inr (sha1_digest (namesp @ name))"
  using assms by (rule sha1_hash_digest)

theorem sha1_hash_is_sha1_witness:
  "sha1_hash (replicate 64 7) [0x61, 0x62] [0x63] = Inr (sha1_digest ([0x61, 0x62] @ [0x63]))"
  by (rule sha1_hash_is_sha1) simp_all

text \<open>
  The UUID is the first 16 digest bytes with the three leading fields byte-swapped, the
  version nibble 5 in the high half of byte 7 and the variant bits 10 on top of byte 8. (RFC
  4122 puts the version in byte 6: the fields are left in host order.)
\<close>

theorem generate_uuid_layout:
  assumes "length stack = 64" and "length namesp + length name + 72 < 2 ^ 29"
  shows "generate_uuid stack namesp name =
    (let d = sha1_digest (namesp @ name) in
     Inr ([d ! 3, d ! 2, d ! 1, d ! 0, d ! 5, d ! 4, d ! 7, (d ! 6 AND 0x0F) OR 0x50,
           (d ! 8 AND 0xBF) OR 0x80] @ map ((!) d) [9, 10, 11, 12, 13, 14, 15]))"
proof -
  have m: "- 65 = (191 :: u8)" by simp
  show ?thesis
  unfolding generate_uuid_def sha1_hash_digest [OF assms]
  by (simp add: m numeral_2_eq_2 Let_def uuid_load_def uuid_store_def ntohl_le32 le32_bytes_le32 le16_bytes_le16
      ntohs_le16 version_bytes push_bit_eq_mult)
qed

theorem generate_uuid_layout_witness:
  "generate_uuid (replicate 64 0) [0x61] [] =
    (let d = sha1_digest ([0x61] @ []) in
     Inr ([d ! 3, d ! 2, d ! 1, d ! 0, d ! 5, d ! 4, d ! 7, (d ! 6 AND 0x0F) OR 0x50,
           (d ! 8 AND 0xBF) OR 0x80] @ map ((!) d) [9, 10, 11, 12, 13, 14, 15]))"
  by (rule generate_uuid_layout) simp_all

end
