(* ===== verification/Ext4_Types.thy ===== *)
theory Ext4_Types
  imports Bytes
begin

text \<open>
  The data of \<^verbatim>\<open>ext4_utils\<close>: the globals \<^verbatim>\<open>info\<close> and \<^verbatim>\<open>aux_info\<close> of
  \<^verbatim>\<open>ext4_utils.h\<close>, the block group and region structures of \<^verbatim>\<open>allocate.c\<close>, the
  byte layout of the on-disk structures of \<^verbatim>\<open>ext4.h\<close>, \<^verbatim>\<open>ext4_extents.h\<close> and
  \<^verbatim>\<open>xattr.h\<close>, and the state that the image builder threads through its calls.

  On-disk structures are byte buffers, because the code overlays several structures on the same
  memory (extent headers on \<^verbatim>\<open>i_block\<close>, extended attributes behind an inode): a field is
  the byte offset the compiler gives it. Heap objects are named by the number of the allocation
  that created them, so two allocations never share a name.
\<close>

section \<open>Constants\<close>

abbreviation (input) EXT4_ALLOCATE_FAILED :: u32 where "EXT4_ALLOCATE_FAILED \<equiv> 0xFFFFFFFF"
abbreviation (input) EXT4_BG_INODE_UNINIT :: u16 where "EXT4_BG_INODE_UNINIT \<equiv> 1"
abbreviation (input) EXT4_NDIR_BLOCKS :: u32 where "EXT4_NDIR_BLOCKS \<equiv> 12"
abbreviation (input) EXT4_EXT_MAGIC :: u16 where "EXT4_EXT_MAGIC \<equiv> 0xF30A"
abbreviation (input) EXT4_EXTENTS_FL :: u32 where "EXT4_EXTENTS_FL \<equiv> 0x00080000"
abbreviation (input) EXT4_NOATIME_FL :: u32 where "EXT4_NOATIME_FL \<equiv> 0x00000080"
abbreviation (input) EXT4_XATTR_MAGIC :: u32 where "EXT4_XATTR_MAGIC \<equiv> 0xEA020000"
abbreviation (input) EXT4_SUPER_MAGIC :: u16 where "EXT4_SUPER_MAGIC \<equiv> 0xEF53"
abbreviation (input) EXT4_VALID_FS :: u16 where "EXT4_VALID_FS \<equiv> 1"

section \<open>Filesystem parameters\<close>

record fs_info =
  info_len :: s64
  block_size :: u32
  blocks_per_group :: u32
  inodes_per_group :: u32
  inode_size :: u32
  info_inodes :: u32
  journal_blocks :: u32
  feat_ro_compat :: u16
  feat_compat :: u16
  feat_incompat :: u16
  bg_desc_reserve_blocks :: u32
  label :: bytes
  no_journal :: u8

section \<open>Block groups\<close>

text \<open>
  \<^verbatim>\<open>block_bitmap\<close> and \<^verbatim>\<open>inode_bitmap\<close> point into the one buffer
  \<^verbatim>\<open>bitmaps\<close>, at offset 0 and at offset \<^verbatim>\<open>block_size\<close>.
\<close>

record block_group_info =
  bgi_first_block :: u32
  bgi_header_blocks :: u32
  bgi_data_blocks_used :: u32
  bgi_has_superblock :: bool
  bgi_bitmaps :: bytes
  bgi_inode_table :: "bytes option"
  bgi_free_blocks :: u32
  bgi_first_free_block :: u32
  bgi_free_inodes :: u32
  bgi_first_free_inode :: u32
  bgi_flags :: u16
  bgi_used_dirs :: u16

text \<open>An inode pointer: the block group whose table holds it and its byte offset there.\<close>

type_synonym inode_ptr = "nat \<times> nat"

record fs_aux_info =
  sb :: bytes
  backup_sb :: "bytes option list"
  bg_desc :: bytes
  bgs :: "block_group_info list"
  xattrs :: "(inode_ptr \<times> nat) list"
  first_data_block :: u32
  len_blocks :: u64
  inode_table_blocks :: u32
  groups :: u32
  bg_desc_blocks :: u32
  default_i_flags :: u32
  blocks_per_ind :: u32
  blocks_per_dind :: u32
  blocks_per_tind :: u32

section \<open>Regions and allocations\<close>

record region =
  reg_block :: u32
  reg_len :: u32
  reg_bg :: u32
  reg_next :: "nat option"
  reg_prev :: "nat option"

record region_list =
  rl_first :: "nat option"
  rl_last :: "nat option"
  rl_iter :: "nat option"
  rl_partial_iter :: u32

record block_allocation =
  al_list :: region_list
  al_oob_list :: region_list

section \<open>Builder state\<close>

text \<open>
  Calls into libsparse, in order. A data chunk names the buffer it was queued with: libsparse
  keeps the pointer and reads it when the image is written.
\<close>

datatype sparse_src =
    Bitmaps_Of nat
  | Inode_Table_Of nat
  | Sb_Buf
  | Backup_Sb_Of nat
  | Bg_Desc_Buf
  | Heap_Buf nat nat

datatype sparse_call =
    Add_Data sparse_src u32 u32
  | Add_File bytes u64 u32 u32

text \<open>
  \<open>oom n\<close> tells that the n-th allocation returns NULL and \<open>sparse_err n\<close> that
  the n-th libsparse call reports an error: both are inputs of a run.
\<close>

record ext4_st =
  force :: bool
  info :: fs_info
  aux_info :: fs_aux_info
  regions :: "nat \<Rightarrow> region option"
  mem :: "nat \<Rightarrow> bytes option"
  sparse :: "sparse_call list"
  mallocs :: nat
  oom :: "nat \<Rightarrow> bool"
  sparse_err :: "nat \<Rightarrow> bool"

section \<open>Heap primitives\<close>

definition sparse_file_add :: "sparse_call \<Rightarrow> ext4_st \<Rightarrow> ext4_st" where
  "sparse_file_add c s = s\<lparr>sparse := sparse s @ [c]\<rparr>"

text \<open>\<^verbatim>\<open>malloc(sizeof(struct region))\<close> whose result is written without a test.\<close>

definition new_region :: "region \<Rightarrow> ext4_st \<Rightarrow> (nat \<times> ext4_st) res" where
  "new_region r s =
     (if oom s (mallocs s) then Inl Undefined
      else Inr (mallocs s, s\<lparr>regions := (regions s)(mallocs s \<mapsto> r), mallocs := mallocs s + 1\<rparr>))"

definition region_at :: "ext4_st \<Rightarrow> nat option \<Rightarrow> region res" where
  "region_at s p = (case p of None \<Rightarrow> Inl Undefined
     | Some a \<Rightarrow> (case regions s a of None \<Rightarrow> Inl Undefined | Some r \<Rightarrow> Inr r))"

definition region_upd :: "nat option \<Rightarrow> (region \<Rightarrow> region) \<Rightarrow> ext4_st \<Rightarrow> ext4_st res" where
  "region_upd p f s = (case p of None \<Rightarrow> Inl Undefined
     | Some a \<Rightarrow> (case regions s a of None \<Rightarrow> Inl Undefined
        | Some r \<Rightarrow> Inr (s\<lparr>regions := (regions s)(a \<mapsto> f r)\<rparr>)))"

definition region_free :: "nat option \<Rightarrow> ext4_st \<Rightarrow> ext4_st res" where
  "region_free p s = (case p of None \<Rightarrow> Inr s
     | Some a \<Rightarrow> (case regions s a of None \<Rightarrow> Inl Undefined
        | Some _ \<Rightarrow> Inr (s\<lparr>regions := (regions s)(a := None)\<rparr>)))"

text \<open>\<^verbatim>\<open>calloc\<close> of a data buffer: a zeroed buffer, or NULL.\<close>

definition calloc_buf :: "nat \<Rightarrow> ext4_st \<Rightarrow> nat option \<times> ext4_st" where
  "calloc_buf n s =
     (if oom s (mallocs s) then (None, s\<lparr>mallocs := mallocs s + 1\<rparr>)
      else (Some (mallocs s),
            s\<lparr>mem := (mem s)(mallocs s \<mapsto> replicate n 0), mallocs := mallocs s + 1\<rparr>))"

text \<open>An update of one block group, one heap buffer or one inode in place.\<close>

definition bg_at :: "ext4_st \<Rightarrow> u32 \<Rightarrow> block_group_info res" where
  "bg_at s i = (if unat i < length (bgs (aux_info s)) then Inr (bgs (aux_info s) ! unat i)
                else Inl Undefined)"

definition bg_put :: "u32 \<Rightarrow> block_group_info \<Rightarrow> ext4_st \<Rightarrow> ext4_st" where
  "bg_put i bg s = s\<lparr>aux_info := (aux_info s)\<lparr>bgs := (bgs (aux_info s))[unat i := bg]\<rparr>\<rparr>"

definition mem_upd :: "nat \<Rightarrow> (bytes \<Rightarrow> bytes res) \<Rightarrow> ext4_st \<Rightarrow> ext4_st res" where
  "mem_upd a f s = (case mem s a of None \<Rightarrow> Inl Undefined
     | Some b \<Rightarrow> bnd (f b) (\<lambda>b'. Inr (s\<lparr>mem := (mem s)(a \<mapsto> b')\<rparr>)))"

definition inode_table_of :: "ext4_st \<Rightarrow> nat \<Rightarrow> bytes res" where
  "inode_table_of s g =
     (if g < length (bgs (aux_info s))
      then (case bgi_inode_table (bgs (aux_info s) ! g) of None \<Rightarrow> Inl Undefined | Some t \<Rightarrow> Inr t)
      else Inl Undefined)"

definition inode_upd :: "inode_ptr \<Rightarrow> (bytes \<Rightarrow> nat \<Rightarrow> bytes res) \<Rightarrow> ext4_st \<Rightarrow> ext4_st res" where
  "inode_upd p f s =
     bnd (inode_table_of s (fst p)) (\<lambda>t.
     bnd (f t (snd p)) (\<lambda>t'.
     Inr (s\<lparr>aux_info := (aux_info s)\<lparr>bgs :=
            (bgs (aux_info s))[fst p := (bgs (aux_info s) ! fst p)\<lparr>bgi_inode_table := Some t'\<rparr>]\<rparr>\<rparr>)))"

section \<open>Inode fields\<close>

abbreviation (input) i_mode :: nat where "i_mode \<equiv> 0"
abbreviation (input) i_uid :: nat where "i_uid \<equiv> 2"
abbreviation (input) i_size_lo :: nat where "i_size_lo \<equiv> 4"
abbreviation (input) i_atime :: nat where "i_atime \<equiv> 8"
abbreviation (input) i_ctime :: nat where "i_ctime \<equiv> 12"
abbreviation (input) i_mtime :: nat where "i_mtime \<equiv> 16"
abbreviation (input) i_gid :: nat where "i_gid \<equiv> 24"
abbreviation (input) i_links_count :: nat where "i_links_count \<equiv> 26"
abbreviation (input) i_blocks_lo :: nat where "i_blocks_lo \<equiv> 28"
abbreviation (input) i_flags :: nat where "i_flags \<equiv> 32"
abbreviation (input) i_block :: nat where "i_block \<equiv> 40"
abbreviation (input) i_file_acl_lo :: nat where "i_file_acl_lo \<equiv> 104"
abbreviation (input) i_size_high :: nat where "i_size_high \<equiv> 108"
abbreviation (input) l_i_blocks_high :: nat where "l_i_blocks_high \<equiv> 116"
abbreviation (input) l_i_uid_high :: nat where "l_i_uid_high \<equiv> 120"
abbreviation (input) l_i_gid_high :: nat where "l_i_gid_high \<equiv> 122"
abbreviation (input) i_extra_isize :: nat where "i_extra_isize \<equiv> 128"
abbreviation (input) sizeof_ext4_inode :: nat where "sizeof_ext4_inode \<equiv> 156"

definition inode_get16 :: "ext4_st \<Rightarrow> inode_ptr \<Rightarrow> nat \<Rightarrow> u16 res" where
  "inode_get16 s p fld = bnd (inode_table_of s (fst p)) (\<lambda>t. get16 t (snd p + fld))"

definition inode_get32 :: "ext4_st \<Rightarrow> inode_ptr \<Rightarrow> nat \<Rightarrow> u32 res" where
  "inode_get32 s p fld = bnd (inode_table_of s (fst p)) (\<lambda>t. get32 t (snd p + fld))"

definition inode_put16 :: "inode_ptr \<Rightarrow> nat \<Rightarrow> u16 \<Rightarrow> ext4_st \<Rightarrow> ext4_st res" where
  "inode_put16 p fld v = inode_upd p (\<lambda>t off. put16 t (off + fld) v)"

definition inode_put32 :: "inode_ptr \<Rightarrow> nat \<Rightarrow> u32 \<Rightarrow> ext4_st \<Rightarrow> ext4_st res" where
  "inode_put32 p fld v = inode_upd p (\<lambda>t off. put32 t (off + fld) v)"

section \<open>Frame lemmas\<close>

lemma region_at_Some [outcome_simps]:
  "region_at s p = Inr r \<longleftrightarrow> (\<exists>a. p = Some a \<and> regions s a = Some r)"
  by (auto simp: region_at_def split: option.splits)

lemma region_upd_eq_Inr [outcome_simps]:
  "region_upd p f s = Inr s' \<longleftrightarrow>
     (\<exists>a r. p = Some a \<and> regions s a = Some r \<and> s' = s\<lparr>regions := (regions s)(a \<mapsto> f r)\<rparr>)"
  by (auto simp: region_upd_def split: option.splits)

lemma region_free_eq_Inr [outcome_simps]:
  "region_free p s = Inr s' \<longleftrightarrow>
     (case p of None \<Rightarrow> s' = s
      | Some a \<Rightarrow> regions s a \<noteq> None \<and> s' = s\<lparr>regions := (regions s)(a := None)\<rparr>)"
  by (auto simp: region_free_def split: option.splits)

lemma new_region_eq_Inr [outcome_simps]:
  "new_region r s = Inr (a, s') \<longleftrightarrow>
     \<not> oom s (mallocs s) \<and> a = mallocs s \<and>
     s' = s\<lparr>regions := (regions s)(mallocs s \<mapsto> r), mallocs := mallocs s + 1\<rparr>"
  by (auto simp: new_region_def)

lemma bg_at_eq_Inr [outcome_simps]:
  "bg_at s i = Inr bg \<longleftrightarrow> unat i < length (bgs (aux_info s)) \<and> bg = bgs (aux_info s) ! unat i"
  by (auto simp: bg_at_def)

lemma bg_put_simps [simp]:
  "aux_info (bg_put i bg s) = (aux_info s)\<lparr>bgs := (bgs (aux_info s))[unat i := bg]\<rparr>"
  "info (bg_put i bg s) = info s" "force (bg_put i bg s) = force s" "oom (bg_put i bg s) = oom s"
  "regions (bg_put i bg s) = regions s" "mem (bg_put i bg s) = mem s" "mallocs (bg_put i bg s) = mallocs s"
  "sparse (bg_put i bg s) = sparse s" "sparse_err (bg_put i bg s) = sparse_err s"
  by (simp_all add: bg_put_def)

lemma sparse_file_add_simps [simp]:
  "aux_info (sparse_file_add c s) = aux_info s" "info (sparse_file_add c s) = info s"
  "force (sparse_file_add c s) = force s" "oom (sparse_file_add c s) = oom s"
  "regions (sparse_file_add c s) = regions s" "mem (sparse_file_add c s) = mem s"
  "mallocs (sparse_file_add c s) = mallocs s" "sparse (sparse_file_add c s) = sparse s @ [c]"
  "sparse_err (sparse_file_add c s) = sparse_err s"
  by (simp_all add: sparse_file_add_def)

end
