(* ===== verification/Bitmap.thy ===== *)
theory Bitmap
  imports Ext4_Types
begin

text \<open>
  The bitmap primitives of \<^verbatim>\<open>allocate.c\<close>, \<^verbatim>\<open>ext4fixup.c\<close> and
  \<^verbatim>\<open>ext2simg.c\<close>, and the interface \<open>bit_set\<close> their clients rely on: a bitmap
  denotes a set of numbers below its capacity, a test reads membership, a set or clear operation
  inserts or removes one number and keeps the capacity. Ranges are set and cleared once, in the
  locale.
\<close>

section \<open>Operations\<close>

definition bit_mask :: "u32 \<Rightarrow> u8" where
  "bit_mask n = push_bit (unat (n mod 8)) 1"

definition bitmap_get_bit :: "bytes \<Rightarrow> u32 \<Rightarrow> bool res" where
  "bitmap_get_bit bitmap n =
     (if unat (n div 8) < length bitmap then Inr (bitmap ! unat (n div 8) AND bit_mask n \<noteq> 0)
      else Inl Undefined)"

text \<open>The boolean is the C result: the bit was already set.\<close>

definition bitmap_set_bit :: "bytes \<Rightarrow> u32 \<Rightarrow> (bool \<times> bytes) res" where
  "bitmap_set_bit bitmap n =
     (if unat (n div 8) < length bitmap then
        if bitmap ! unat (n div 8) AND bit_mask n \<noteq> 0 then Inr (True, bitmap)
        else Inr (False, bitmap[unat (n div 8) := bitmap ! unat (n div 8) OR bit_mask n])
      else Inl Undefined)"

definition bitmap_set_8_bits :: "bytes \<Rightarrow> u32 \<Rightarrow> (u8 \<times> bytes) res" where
  "bitmap_set_8_bits bitmap n =
     (if unat (n div 8) < length bitmap
      then Inr (bitmap ! unat (n div 8), bitmap[unat (n div 8) := 0xFF])
      else Inl Undefined)"

definition bitmap_clear_bit :: "bytes \<Rightarrow> u32 \<Rightarrow> bytes res" where
  "bitmap_clear_bit bitmap n =
     (if unat (n div 8) < length bitmap
      then Inr (bitmap[unat (n div 8) := bitmap ! unat (n div 8) AND NOT (bit_mask n)])
      else Inl Undefined)"

section \<open>The set a bitmap denotes\<close>

definition bits :: "bytes \<Rightarrow> nat set" where
  "bits bm = {n. n < 8 * length bm \<and> bit (bm ! (n div 8)) (n mod 8)}"

lemma bits_bound: "n \<in> bits bm \<Longrightarrow> n < 8 * length bm"
  by (simp add: bits_def)

lemma bits_zero [simp]: "bits (replicate n 0) = {}"
  by (auto simp: bits_def)

lemma unat_div8 [simp]: "unat (n div 8 :: u32) = unat n div 8"
  by (simp add: unat_div)

lemma unat_mod8 [simp]: "unat (n mod 8 :: u32) = unat n mod 8"
  by (simp add: unat_mod)

lemma bit_bit_mask: "bit (bit_mask n) k \<longleftrightarrow> k = unat n mod 8"
  by (auto simp: bit_mask_def bit_exp_iff possible_bit_def)

lemma and_bit_mask: "(x AND bit_mask n \<noteq> 0) = bit x (unat n mod 8)"
proof
  assume "x AND bit_mask n \<noteq> 0"
  then obtain k where "bit (x AND bit_mask n) k" using bit_word_eqI [of "x AND bit_mask n" 0] by auto
  then show "bit x (unat n mod 8)" by (auto simp: bit_and_iff bit_bit_mask)
next
  assume "bit x (unat n mod 8)"
  then have "bit (x AND bit_mask n) (unat n mod 8)" by (simp add: bit_and_iff bit_bit_mask)
  then show "x AND bit_mask n \<noteq> 0" by auto
qed

lemma bits_update:
  assumes "j < length bm"
  shows "bits (bm[j := v]) = {n \<in> bits bm. n div 8 \<noteq> j} \<union> {n. n div 8 = j \<and> bit v (n mod 8)}"
  using assms by (auto simp: bits_def nth_list_update)

lemma div8_bound: "(n div 8 < l) = (n < 8 * l)" for n l :: nat
  by linarith

lemma bitmap_get_bit_iff:
  "bitmap_get_bit bm n = (if unat n < 8 * length bm then Inr (unat n \<in> bits bm) else Inl Undefined)"
  by (simp add: bitmap_get_bit_def and_bit_mask bits_def div8_bound)

lemma bits_set:
  assumes "unat n < 8 * length bm"
  shows "bits (bm[unat n div 8 := bm ! (unat n div 8) OR bit_mask n]) = insert (unat n) (bits bm)"
proof -
  have l: "unat n div 8 < length bm" using assms by (simp add: div8_bound)
  have e: "m = unat n" if "m div 8 = unat n div 8" "m mod 8 = unat n mod 8" for m
    using that by (metis div_mult_mod_eq)
  show ?thesis
    unfolding bits_update [OF l]
    using assms l by (auto simp: bits_def bit_or_iff bit_bit_mask simp flip: div8_bound dest: e)
qed

lemma bits_clear:
  assumes "unat n < 8 * length bm"
  shows "bits (bm[unat n div 8 := bm ! (unat n div 8) AND NOT (bit_mask n)]) = bits bm - {unat n}"
proof -
  have l: "unat n div 8 < length bm" using assms by (simp add: div8_bound)
  have e: "m = unat n" if "m div 8 = unat n div 8" "m mod 8 = unat n mod 8" for m
    using that by (metis div_mult_mod_eq)
  have b: "bit (NOT (bit_mask n)) (m mod 8) \<longleftrightarrow> m mod 8 \<noteq> unat n mod 8" for m
    by (simp add: bit_not_iff bit_bit_mask possible_bit_def)
  show ?thesis
    unfolding bits_update [OF l]
    using assms l by (auto simp: bits_def bit_and_iff b simp flip: div8_bound dest: e)
qed

lemma bitmap_set_bit_iff:
  assumes "unat n < 8 * length bm"
  shows "\<exists>bm'. bitmap_set_bit bm n = Inr (unat n \<in> bits bm, bm') \<and>
           bits bm' = insert (unat n) (bits bm) \<and> length bm' = length bm"
  using assms bits_set [OF assms]
  by (auto simp: bitmap_set_bit_def and_bit_mask bits_def div8_bound)

lemma bitmap_clear_bit_iff:
  assumes "unat n < 8 * length bm"
  shows "\<exists>bm'. bitmap_clear_bit bm n = Inr bm' \<and> bits bm' = bits bm - {unat n} \<and> length bm' = length bm"
  using assms bits_clear [OF assms] by (auto simp: bitmap_clear_bit_def div8_bound)

lemma byte_range: "{n. n div 8 = j} = {8 * j..<8 * j + 8}" for j :: nat
  by auto

lemma bit_0xFF: "bit (255 :: u8) (k mod 8)"
proof -
  have "(0xFF :: u8) = mask 8" by (simp add: mask_eq_exp_minus_1)
  then show ?thesis by (simp only: bit_mask_iff) (simp add: possible_bit_def)
qed

lemma bitmap_set_8_bits_iff:
  assumes "unat n mod 8 = 0" and "unat n + 8 \<le> 8 * length bm"
  shows "\<exists>v bm'. bitmap_set_8_bits bm n = Inr (v, bm') \<and>
           (v = 0 \<longleftrightarrow> bits bm \<inter> {unat n..<unat n + 8} = {}) \<and>
           bits bm' = bits bm \<union> {unat n..<unat n + 8} \<and> length bm' = length bm"
proof -
  let ?j = "unat n div 8"
  have l: "?j < length bm" and nj: "unat n = 8 * ?j" using assms by auto
  have rng: "{unat n..<unat n + 8} = {m. m div 8 = ?j}"
    unfolding byte_range using nj by simp
  have z: "bm ! ?j = 0 \<longleftrightarrow> bits bm \<inter> {m. m div 8 = ?j} = {}"
  proof
    assume e: "bits bm \<inter> {m. m div 8 = ?j} = {}"
    show "bm ! ?j = 0"
    proof (rule bit_word_eqI)
      fix k assume "k < LENGTH(8)"
      then have k: "k < 8" by simp
      have "8 * ?j + k \<notin> bits bm" using e k by auto
      then show "bit (bm ! ?j) k = bit 0 k" using k l by (auto simp: bits_def)
    qed
  qed (auto simp: bits_def)
  show ?thesis
    unfolding rng using l z bit_0xFF by (auto simp: bitmap_set_8_bits_def bits_update)
qed

section \<open>Interface\<close>

text \<open>
  What a client of a bitmap relies on. \<open>mem\<close> is the set a bitmap denotes and
  \<open>cap\<close> its number of bits.
\<close>

locale bit_set =
  fixes mems :: "'b \<Rightarrow> nat set" and cap :: "'b \<Rightarrow> nat"
    and tst :: "'b \<Rightarrow> u32 \<Rightarrow> bool res"
    and ins :: "'b \<Rightarrow> u32 \<Rightarrow> (bool \<times> 'b) res"
    and del :: "'b \<Rightarrow> u32 \<Rightarrow> 'b res"
  assumes tst_law: "unat n < cap b \<Longrightarrow> tst b n = Inr (unat n \<in> mems b)"
    and ins_law: "unat n < cap b \<Longrightarrow> \<exists>b'. ins b n = Inr (unat n \<in> mems b, b') \<and>
                    mems b' = insert (unat n) (mems b) \<and> cap b' = cap b"
    and del_law: "unat n < cap b \<Longrightarrow> \<exists>b'. del b n = Inr b' \<and>
                    mems b' = mems b - {unat n} \<and> cap b' = cap b"
begin

text \<open>Set the bits of an ascending run, stopping at the first one already set.\<close>

fun ins_run :: "nat \<Rightarrow> 'b \<Rightarrow> u32 \<Rightarrow> (bool \<times> 'b) res" where
  "ins_run 0 b n = Inr (False, b)"
| "ins_run (Suc k) b n =
     bnd (ins b n) (\<lambda>(dup, b'). if dup then Inr (True, b') else ins_run k b' (n + 1))"

text \<open>Clear the bits of a descending run.\<close>

fun del_run :: "nat \<Rightarrow> 'b \<Rightarrow> u32 \<Rightarrow> 'b res" where
  "del_run 0 b n = Inr b"
| "del_run (Suc k) b n = bnd (del b n) (\<lambda>b'. del_run k b' (n - 1))"

lemma unat_Suc: "unat (n :: u32) + 1 < 2 ^ 32 \<Longrightarrow> unat (n + 1) = unat n + 1"
  using unat_add_lem [of n 1] by simp

lemma ins_run_spec:
  "unat n + k \<le> cap b \<Longrightarrow> unat n + k < 2 ^ 32 \<Longrightarrow>
   \<exists>b'. ins_run k b n = Inr (mems b \<inter> {unat n..<unat n + k} \<noteq> {}, b') \<and> cap b' = cap b \<and>
     (mems b \<inter> {unat n..<unat n + k} = {} \<longrightarrow> mems b' = mems b \<union> {unat n..<unat n + k})"
proof (induction k arbitrary: b n)
  case (Suc k)
  obtain b1 where i: "ins b n = Inr (unat n \<in> mems b, b1)"
    and m1: "mems b1 = insert (unat n) (mems b)" and c1: "cap b1 = cap b"
    using ins_law [of n b] Suc.prems by auto
  have u: "unat (n + 1) = unat n + 1" using Suc.prems by (intro unat_Suc) simp
  have r: "{unat n..<unat n + Suc k} = insert (unat n) {unat (n + 1)..<unat (n + 1) + k}"
    using u by auto
  show ?case
  proof (cases "unat n \<in> mems b")
    case True
    then show ?thesis using i c1 r by auto
  next
    case False
    obtain b2 where b2: "ins_run k b1 (n + 1) = Inr (mems b1 \<inter> {unat (n + 1)..<unat (n + 1) + k} \<noteq> {}, b2)"
      and c2: "cap b2 = cap b1"
      and m2: "mems b1 \<inter> {unat (n + 1)..<unat (n + 1) + k} = {} \<longrightarrow>
                 mems b2 = mems b1 \<union> {unat (n + 1)..<unat (n + 1) + k}"
      using Suc.IH [of "n + 1" b1] Suc.prems u c1 by auto
    have e: "mems b1 \<inter> {unat (n + 1)..<unat (n + 1) + k} = mems b \<inter> {unat n..<unat n + Suc k}"
      using False m1 u r by auto
    have "mems b1 \<union> {unat (n + 1)..<unat (n + 1) + k} = mems b \<union> {unat n..<unat n + Suc k}"
      using m1 r by auto
    with False i b2 c1 c2 m2 e show ?thesis by auto
  qed
qed simp

lemma del_run_spec:
  "unat n < cap b \<Longrightarrow> k \<le> unat n + 1 \<Longrightarrow>
   \<exists>b'. del_run k b n = Inr b' \<and> cap b' = cap b \<and> mems b' = mems b - {unat n + 1 - k..<unat n + 1}"
proof (induction k arbitrary: b n)
  case (Suc k)
  obtain b1 where d: "del b n = Inr b1" and m1: "mems b1 = mems b - {unat n}" and c1: "cap b1 = cap b"
    using del_law [of n b] Suc.prems by auto
  show ?case
  proof (cases k)
    case 0
    then show ?thesis using d m1 c1 by auto
  next
    case (Suc k')
    then have "0 < unat n" using Suc.prems by simp
    then have u: "unat (n - 1) = unat n - 1" by (simp add: unat_minus_one unat_gt_0)
    have ih: "unat (n - 1) < cap b1" "k \<le> unat (n - 1) + 1"
      using Suc.prems u c1 \<open>0 < unat n\<close> by simp_all
    obtain b2 where b2: "del_run k b1 (n - 1) = Inr b2" and c2: "cap b2 = cap b1"
      and m2: "mems b2 = mems b1 - {unat (n - 1) + 1 - k..<unat (n - 1) + 1}"
      using Suc.IH [of "n - 1" b1, OF ih] by blast
    have r: "unat (n - 1) + 1 = unat n" using u \<open>0 < unat n\<close> by simp
    have "mems b1 - {unat (n - 1) + 1 - k..<unat (n - 1) + 1} = mems b - {unat n + 1 - Suc k..<unat n + 1}"
      unfolding m1 r using \<open>0 < unat n\<close> Suc.prems(2) by auto
    with d b2 c1 c2 m2 show ?thesis by auto
  qed
qed simp

end

interpretation alloc_bits: bit_set bits "\<lambda>bm. 8 * length bm" bitmap_get_bit bitmap_set_bit bitmap_clear_bit
  by unfold_locales
    (simp_all add: bitmap_get_bit_iff, metis bitmap_set_bit_iff, metis bitmap_clear_bit_iff)

end
