(* ===== verification/Fs_Params.thy ===== *)
theory Fs_Params
  imports Ext4_Types
begin

text \<open>
  The derived filesystem parameters of \<^verbatim>\<open>ext4_utils.c\<close>: which block groups hold a
  backup superblock, the geometry that \<^verbatim>\<open>ext4_create_fs_aux_info\<close> computes from the
  basic parameters, the integer logarithm, the size of the output file and the size arguments
  of the command line.
\<close>

section \<open>Backup superblocks\<close>

text \<open>
  The loop of \<^verbatim>\<open>is_power_of\<close>: every iteration divides \<^verbatim>\<open>a\<close>, so \<^verbatim>\<open>a + 1\<close>
  iterations suffice for every base above 1.
\<close>

fun is_power_of_loop :: "nat \<Rightarrow> int \<Rightarrow> int \<Rightarrow> bool res" where
  "is_power_of_loop 0 a b = Inl Diverges"
| "is_power_of_loop (Suc fuel) a b =
     (if b < a then
        if b = 0 then Inl Undefined
        else if a smod b \<noteq> 0 then Inr False
        else is_power_of_loop fuel (a sdiv b) b
      else Inr (a = b))"

definition is_power_of :: "int \<Rightarrow> int \<Rightarrow> bool res" where
  "is_power_of a b = is_power_of_loop (Suc (nat a)) a b"

definition ext4_bg_has_super_block :: "fs_info \<Rightarrow> int \<Rightarrow> bool res" where
  "ext4_bg_has_super_block fi bg =
     (if feat_ro_compat fi AND 1 = 0 then Inr True
      else if bg = 0 \<or> bg = 1 then Inr True
      else bnd (is_power_of bg 3) (\<lambda>p3. if p3 then Inr True
      else bnd (is_power_of bg 5) (\<lambda>p5. if p5 then Inr True
      else is_power_of bg 7)))"

section \<open>Geometry\<close>

text \<open>
  \<^verbatim>\<open>ext4_create_fs_aux_info\<close>. \<^verbatim>\<open>info.len / info.block_size\<close> divides a signed
  64-bit by an unsigned 32-bit value, which is a signed division. A size or group size of zero
  divides by zero. The group descriptor is 32 bytes.
\<close>

definition fs_first_data_block :: "fs_info \<Rightarrow> u32" where
  "fs_first_data_block fi = (if 1024 < block_size fi then 0 else 1)"

definition fs_len_blocks :: "fs_info \<Rightarrow> u64" where
  "fs_len_blocks fi = word_of_int (sint (info_len fi) sdiv uint (block_size fi))"

definition fs_inode_table_blocks :: "fs_info \<Rightarrow> u32" where
  "fs_inode_table_blocks fi = DIV_ROUND_UP (inodes_per_group fi * inode_size fi) (block_size fi)"

definition fs_groups :: "fs_info \<Rightarrow> u32" where
  "fs_groups fi = ucast (DIV_ROUND_UP (fs_len_blocks fi - ucast (fs_first_data_block fi))
                           (ucast (blocks_per_group fi)))"

definition fs_bg_desc_blocks :: "fs_info \<Rightarrow> u32" where
  "fs_bg_desc_blocks fi = DIV_ROUND_UP (fs_groups fi * 32) (block_size fi)"

text \<open>A last group too short for its header is dropped from the filesystem.\<close>

definition fs_last_group_size :: "fs_info \<Rightarrow> u32" where
  "fs_last_group_size fi = ucast (fs_len_blocks fi mod ucast (blocks_per_group fi))"

definition fs_last_header_size :: "fs_info \<Rightarrow> bool \<Rightarrow> u32" where
  "fs_last_header_size fi has_sb = 2 + fs_inode_table_blocks fi +
     (if has_sb then 1 + fs_bg_desc_blocks fi + bg_desc_reserve_blocks fi else 0)"

definition fs_drop_last :: "fs_info \<Rightarrow> bool \<Rightarrow> bool" where
  "fs_drop_last fi has_sb \<longleftrightarrow> 0 < fs_last_group_size fi \<and>
     fs_last_group_size fi < fs_last_header_size fi has_sb"

definition ext4_create_fs_aux_info :: "ext4_st \<Rightarrow> ext4_st res" where
  "ext4_create_fs_aux_info s =
     (let fi = info s; ind = block_size fi div 4; dind = ind * ind in
      if block_size fi = 0 \<or> blocks_per_group fi = 0 then Inl Undefined else
      bnd (ext4_bg_has_super_block fi (sint (fs_groups fi - 1))) (\<lambda>has_sb.
      let grps = (if fs_drop_last fi has_sb then fs_groups fi - 1 else fs_groups fi) in
      if oom s (mallocs s) \<or> oom s (mallocs s + 2) then Inl Longjmp
      else Inr (s\<lparr>aux_info := (aux_info s)\<lparr>
             first_data_block := fs_first_data_block fi,
             len_blocks := (if fs_drop_last fi has_sb
                            then fs_len_blocks fi - ucast (fs_last_group_size fi)
                            else fs_len_blocks fi),
             inode_table_blocks := fs_inode_table_blocks fi,
             groups := grps,
             blocks_per_ind := ind, blocks_per_dind := dind, blocks_per_tind := dind * dind,
             bg_desc_blocks := fs_bg_desc_blocks fi,
             default_i_flags := EXT4_NOATIME_FL,
             sb := replicate (unat (block_size fi)) 0,
             backup_sb := (if oom s (mallocs s + 1) then [] else replicate (unat grps) None),
             bg_desc := replicate (unat (block_size fi) * unat (fs_bg_desc_blocks fi)) 0,
             xattrs := []\<rparr>,
           mallocs := mallocs s + 3\<rparr>)))"

text \<open>\<^verbatim>\<open>log_2\<close>: the number of right shifts until the value is not positive, less one.\<close>

function log_2_loop :: "int \<Rightarrow> int \<Rightarrow> int" where
  "log_2_loop i j = (if 0 < j then log_2_loop (i + 1) (j div 2) else i)"
  by pat_completeness auto
termination by (relation "measure (\<lambda>(i, j). nat j)") auto

definition log_2 :: "int \<Rightarrow> int" where
  "log_2 j = log_2_loop 0 j - 1"

section \<open>Sizes\<close>

text \<open>What \<^verbatim>\<open>fstat\<close> reports: the kind of file and, for a regular file, its size.\<close>

datatype file_kind = Regular u64 | Block_Device | Other_File

text \<open>
  \<^verbatim>\<open>ioctl(fd, BLKGETSIZE64, &size)\<close>: None when the call fails.
\<close>

definition get_block_device_size :: "u64 option \<Rightarrow> u64" where
  "get_block_device_size ioctl_result = (case ioctl_result of None \<Rightarrow> 0 | Some sz \<Rightarrow> sz)"

definition get_file_size :: "fs_info \<Rightarrow> file_kind option \<Rightarrow> u64 option \<Rightarrow> u64" where
  "get_file_size fi fstat_result ioctl_result =
     (case fstat_result of None \<Rightarrow> 0
      | Some kind \<Rightarrow>
        let reserve_len = (if sint (info_len fi) < 0 then - info_len fi else 0);
            computed_size =
              (case kind of Regular st_size \<Rightarrow> st_size - reserve_len
               | Block_Device \<Rightarrow> get_block_device_size ioctl_result - reserve_len
               | Other_File \<Rightarrow> 0) in
        if sint computed_size < 0 then 0 else computed_size)"


text \<open>
  \<^verbatim>\<open>strtoull(arg, &endptr, 10)\<close> in the C locale: white space, an optional sign, the
  longest run of digits, saturating at the largest value; with no digits the whole argument is
  left. The result is the value and the rest of the string (the terminating NUL is its end).
\<close>

definition is_space :: "u8 \<Rightarrow> bool" where
  "is_space c \<longleftrightarrow> c = 32 \<or> 9 \<le> c \<and> c \<le> 13"

definition is_digit :: "u8 \<Rightarrow> bool" where
  "is_digit c \<longleftrightarrow> 48 \<le> c \<and> c \<le> 57"

definition digits_value :: "bytes \<Rightarrow> nat" where
  "digits_value ds = foldl (\<lambda>acc d. 10 * acc + unat (d - 48)) 0 ds"

definition strtoull10 :: "bytes \<Rightarrow> u64 \<times> bytes" where
  "strtoull10 arg =
     (let a = dropWhile is_space arg;
          neg = (case a of c # _ \<Rightarrow> c = 45 | [] \<Rightarrow> False);
          b = (case a of c # r \<Rightarrow> if c = 45 \<or> c = 43 then r else a | [] \<Rightarrow> []);
          ds = takeWhile is_digit b;
          v = digits_value ds in
      if ds = [] then (0, arg)
      else (if 2 ^ 64 \<le> v then - 1 else if neg then - of_nat v else of_nat v,
            dropWhile is_digit b))"

definition parse_num :: "bytes \<Rightarrow> u64" where
  "parse_num arg =
     (let (num, endptr) = strtoull10 arg;
          c = (case endptr of [] \<Rightarrow> 0 | c # _ \<Rightarrow> c) in
      if c = 107 \<or> c = 75 then num * 1024
      else if c = 109 \<or> c = 77 then num * (1024 * 1024)
      else if c = 103 \<or> c = 71 then num * (1024 * 1024 * 1024)
      else num)"

section \<open>Which groups hold a superblock\<close>

definition power_of :: "int \<Rightarrow> int \<Rightarrow> bool" where
  "power_of a b = (\<exists>k > 0. a = b ^ k)"

text \<open>The sparse_super rule: groups 0, 1 and the powers of 3, 5 and 7.\<close>

definition holds_super :: "fs_info \<Rightarrow> int \<Rightarrow> bool" where
  "holds_super fi bg \<longleftrightarrow> \<not> bit (feat_ro_compat fi) 0 \<or> bg \<in> {0, 1} \<or>
     power_of bg 3 \<or> power_of bg 5 \<or> power_of bg 7"

lemma smod_pos: "0 < (a::int) \<Longrightarrow> 0 < b \<Longrightarrow> a smod b = a mod b"
  by (simp add: signed_modulo_int_def)

lemma sdiv_pos: "0 < (a::int) \<Longrightarrow> 0 < b \<Longrightarrow> a sdiv b = a div b"
  by (simp add: signed_divide_int_def)

lemma power_of_div:
  assumes "1 < b" and "b < a" and "a mod b = 0"
  shows "power_of (a div b) b = power_of a b"
proof
  assume "power_of (a div b) b"
  then obtain k where "k > 0" "a div b = b ^ k" by (auto simp: power_of_def)
  then have "a = b ^ Suc k" using assms by (metis dvd_div_mult_self mod_0_imp_dvd mult.commute power_Suc)
  then show "power_of a b" unfolding power_of_def by blast
next
  assume "power_of a b"
  then obtain k where k: "k > 0" "a = b ^ k" by (auto simp: power_of_def)
  then obtain j where j: "k = Suc j" by (cases k) auto
  have "0 < j" using k j assms by (cases j) auto
  moreover have "a div b = b ^ j" using k j assms by simp
  ultimately show "power_of (a div b) b" by (auto simp: power_of_def)
qed

lemma power_of_not_div: "1 < b \<Longrightarrow> a mod b \<noteq> 0 \<Longrightarrow> \<not> power_of a b"
  by (auto simp: power_of_def gr0_conv_Suc)

lemma power_of_le: "1 < b \<Longrightarrow> a \<le> b \<Longrightarrow> power_of a b = (a = b)"
  unfolding power_of_def
  by (metis less_numeral_extra(1) linorder_not_le nless_le one_less_numeral_iff power_one_right
      power_strict_increasing_iff self_le_power zero_less_one_class.zero_le_one order_less_imp_le less_le_trans nat_less_le
      le_neq_implies_less Suc_leI One_nat_def)

lemma is_power_of_loop_spec:
  "1 < b \<Longrightarrow> nat a < fuel \<Longrightarrow> is_power_of_loop fuel a b = Inr (power_of a b)"
proof (induction fuel a b rule: is_power_of_loop.induct)
  case (2 fuel a b)
  have "nat (a div b) < fuel" if "b < a"
  proof -
    have "a div b < a" using that 2 by (intro int_div_less_self) auto
    then show ?thesis using 2 that by linarith
  qed
  then show ?case
    using 2 by (auto simp: smod_pos sdiv_pos power_of_div power_of_not_div power_of_le)
qed simp

lemma is_power_of_spec: "1 < b \<Longrightarrow> is_power_of a b = Inr (power_of a b)"
  by (simp add: is_power_of_def is_power_of_loop_spec del: is_power_of_loop.simps)

lemma has_super_block_iff: "ext4_bg_has_super_block fi bg = Inr (holds_super fi bg)"
proof -
  have "(feat_ro_compat fi AND 1 = 0) = (\<not> bit (feat_ro_compat fi) 0)"
    by (simp add: and_one_eq bit_0 mod2_eq_if)
  then show ?thesis by (auto simp: ext4_bg_has_super_block_def is_power_of_spec holds_super_def)
qed

text \<open>C33. The groups with a superblock are all of them without the sparse_super feature, and
  otherwise 0, 1 and the powers of 3, 5 and 7.\<close>

theorem ext4_bg_has_super_block_spec:
  "ext4_bg_has_super_block fi bg =
     Inr (if bit (feat_ro_compat fi) 0
          then bg \<in> {0, 1} \<or> power_of bg 3 \<or> power_of bg 5 \<or> power_of bg 7 else True)"
  by (simp add: has_super_block_iff holds_super_def)

section \<open>The integer logarithm\<close>

lemma log_2_loop_pow:
  "0 < j \<Longrightarrow> \<exists>k. log_2_loop i j = i + 1 + int k \<and> 2 ^ k \<le> j \<and> j < 2 ^ (k + 1)"
proof (induction i j rule: log_2_loop.induct)
  case (1 i j)
  show ?case
  proof (cases "0 < j div 2")
    case True
    then obtain k where k: "log_2_loop (i + 1) (j div 2) = i + 1 + 1 + int k"
      "2 ^ k \<le> j div 2" "j div 2 < 2 ^ (k + 1)" using 1 by blast
    have "2 ^ Suc k \<le> j" "j < 2 ^ (Suc k + 1)" using k by auto
    moreover have "log_2_loop i j = i + 1 + int (Suc k)" using k 1 by simp
    ultimately show ?thesis by blast
  next
    case False
    then have "j = 1" using 1 by linarith
    then show ?thesis by (intro exI [of _ 0]) simp
  qed
qed

lemma log_2_spec: "0 < j \<Longrightarrow> 0 \<le> log_2 j \<and> 2 ^ nat (log_2 j) \<le> j \<and> j < 2 ^ (nat (log_2 j) + 1)"
  using log_2_loop_pow [of j 0] by (auto simp: log_2_def simp del: log_2_loop.simps)


section \<open>Every group has room for its header\<close>

definition group_header :: "fs_info \<Rightarrow> fs_aux_info \<Rightarrow> nat \<Rightarrow> nat" where
  "group_header fi a g = 2 + unat (inode_table_blocks a) +
     (if holds_super fi (int g)
      then 1 + unat (bg_desc_blocks a) + unat (bg_desc_reserve_blocks fi) else 0)"

lemma last_group_room:
  fixes L B g h G :: nat
  assumes G: "G = (L + B - 1) div B" and B: "0 < B" and h: "h \<le> B"
    and g: "g < (if 0 < L mod B \<and> L mod B < hl then G - 1 else G)"
    and last: "g = G - 1 \<Longrightarrow> h = hl"
  shows "g * B + h \<le> (if 0 < L mod B \<and> L mod B < hl then L - L mod B else L)"
proof -
  have L: "L = L div B * B + L mod B" by simp
  have m: "L mod B < B" using B by simp
  have full: "g * B + h \<le> L div B * B" if "g < L div B"
  proof -
    have "(g + 1) * B \<le> L div B * B" using that by (intro mult_le_mono1) simp
    then show ?thesis using h by simp
  qed
  have Gv: "G = (if L mod B = 0 then L div B else L div B + 1)"
  proof (cases "L mod B = 0")
    case True
    then have "L + B - 1 = L div B * B + (B - 1)" using L B by linarith
    then have "(L + B - 1) div B = L div B" using B
      by (metis add_0_right diff_less div_less div_mult_self3 less_numeral_extra(1) not_gr_zero)
    then show ?thesis using G True by simp
  next
    case False
    then have "L + B - 1 = (L div B + 1) * B + (L mod B - 1)" using L B by simp
    moreover have "L mod B - 1 < B" using m by simp
    ultimately have "(L + B - 1) div B = L div B + 1" using B by (metis add_0_right div_less div_mult_self3 not_gr_zero)
    then show ?thesis using G False by simp
  qed
  show ?thesis
  proof (cases "g < L div B")
    case True
    then have "g * B + h \<le> L - L mod B" using full by (simp add: minus_mod_eq_div_mult)
    then show ?thesis by auto
  next
    case False
    then have c: "g = L div B" "g = G - 1" "\<not> L mod B < hl"
      using g Gv by (auto split: if_splits)
    then have "L div B * B + hl \<le> L div B * B + L mod B" by (intro add_left_mono) simp
    then have "g * B + h \<le> L" using last c(1,2) by (metis L)
    then show ?thesis using c by simp
  qed
qed

text \<open>
  A filesystem size is sane for a group size when its group count is far from overflowing and
  the largest possible header fits in one group.
\<close>

definition sane_geometry :: "fs_info \<Rightarrow> fs_aux_info \<Rightarrow> bool" where
  "sane_geometry fi a \<longleftrightarrow> 0 \<le> sint (info_len fi) \<and> 1024 < unat (block_size fi) \<and>
     0 < unat (blocks_per_group fi) \<and>
     uint (info_len fi) div uint (block_size fi) \<le> 2 ^ 30 * uint (blocks_per_group fi) \<and>
     3 + unat (inode_table_blocks a) + unat (bg_desc_blocks a) + unat (bg_desc_reserve_blocks fi)
       \<le> unat (blocks_per_group fi)"

lemma unat_add3:
  fixes a b c :: u32
  assumes "unat a + unat b + unat c < 2 ^ 32"
  shows "unat (a + b + c) = unat a + unat b + unat c"
  using assms by (simp add: unat_word_ariths)

lemma sdiv_int_nat: "int n sdiv int m = int (n div m)"
  by (cases "n = 0"; cases "m = 0") (simp_all add: signed_divide_int_def zdiv_int)

lemma unat_div_len:
  fixes l :: s64 and b :: u32
  assumes "0 \<le> sint l"
  shows "unat (word_of_int (sint l sdiv uint b) :: u64) = unat l div unat b"
proof -
  have "sint l sdiv uint b = int (unat l div unat b)"
    using sint_nonneg_unat [OF assms] sdiv_int_nat [of "unat l" "unat b"] by simp
  moreover have "unat l div unat b < 2 ^ 64"
    using unsigned_less [of l] le_less_trans [OF div_le_dividend] by simp
  ultimately show ?thesis by (simp add: unat_of_nat del: of_nat_div)
qed

lemma unat_fs_groups:
  assumes "0 \<le> sint (info_len fi)" and "1024 < unat (block_size fi)" and "0 < unat (blocks_per_group fi)"
    and "unat (fs_len_blocks fi) \<le> 2 ^ 30 * unat (blocks_per_group fi)"
  shows "unat (fs_groups fi) =
    (unat (fs_len_blocks fi) + unat (blocks_per_group fi) - 1) div unat (blocks_per_group fi)"
    and "unat (fs_groups fi) \<le> 2 ^ 30"
proof -
  let ?B = "unat (blocks_per_group fi)" and ?L = "unat (fs_len_blocks fi)"
  have f0: "fs_first_data_block fi = 0"
    using assms(2) by (simp add: fs_first_data_block_def word_less_nat_alt)
  have B: "unat (ucast (blocks_per_group fi) :: u64) = ?B" by (simp add: unat_ucast_upcast)
  have Bl: "?B < 2 ^ 32" using unsigned_less [of "blocks_per_group fi"] by simp
  have "?L \<le> 2 ^ 30 * ?B" using assms by simp
  also have "\<dots> < 2 ^ 30 * 2 ^ 32" using Bl by simp
  finally have Ll: "?L + ?B \<le> 2 ^ 64" using Bl by simp
  have d: "unat (DIV_ROUND_UP (fs_len_blocks fi) (ucast (blocks_per_group fi))) = (?L + ?B - 1) div ?B"
    using unat_DIV_ROUND_UP [of "ucast (blocks_per_group fi)" "fs_len_blocks fi"] assms(3) B Ll by simp
  have "(?L + ?B - 1) div ?B \<le> (2 ^ 30 * ?B + (?B - 1)) div ?B" using assms(3,4) by (intro div_le_mono) simp
  also have "\<dots> = 2 ^ 30" using div_mult_self3 [of ?B "2 ^ 30" "?B - 1"] assms(3) by (simp add: add.commute del: div_mult_self3)
  finally have le: "(?L + ?B - 1) div ?B \<le> 2 ^ 30" .
  then show "unat (fs_groups fi) = (?L + ?B - 1) div ?B"
    using d by (simp add: fs_groups_def f0 unsigned_ucast_eq take_bit_nat_eq_self)
  then show "unat (fs_groups fi) \<le> 2 ^ 30" using le by simp
qed

lemma unat_last_header:
  assumes "3 + unat (fs_inode_table_blocks fi) + unat (fs_bg_desc_blocks fi) +
             unat (bg_desc_reserve_blocks fi) < 2 ^ 32"
  shows "unat (fs_last_header_size fi h) = 2 + unat (fs_inode_table_blocks fi) +
     (if h then 1 + unat (fs_bg_desc_blocks fi) + unat (bg_desc_reserve_blocks fi) else 0)"
  using assms by (simp add: fs_last_header_size_def unat_word_ariths)

definition last_super :: "fs_info \<Rightarrow> bool" where
  "last_super fi = holds_super fi (sint (fs_groups fi - 1))"

lemma aux_info_fields:
  assumes "ext4_create_fs_aux_info s = Inr s'"
  shows "first_data_block (aux_info s') = fs_first_data_block (info s)"
    and "inode_table_blocks (aux_info s') = fs_inode_table_blocks (info s)"
    and "bg_desc_blocks (aux_info s') = fs_bg_desc_blocks (info s)"
    and "groups (aux_info s') =
       (if fs_drop_last (info s) (last_super (info s)) then fs_groups (info s) - 1 else fs_groups (info s))"
    and "len_blocks (aux_info s') =
       (if fs_drop_last (info s) (last_super (info s))
        then fs_len_blocks (info s) - ucast (fs_last_group_size (info s)) else fs_len_blocks (info s))"
    and "blocks_per_tind (aux_info s') =
       (block_size (info s) div 4) * (block_size (info s) div 4) *
       ((block_size (info s) div 4) * (block_size (info s) div 4))"
    and "info s' = info s"
  using assms
  by (auto simp: ext4_create_fs_aux_info_def Let_def has_super_block_iff last_super_def split: if_splits)

lemma create_fs_aux_info_ok:
  "block_size (info s) \<noteq> 0 \<Longrightarrow> blocks_per_group (info s) \<noteq> 0 \<Longrightarrow>
   \<not> oom s (mallocs s) \<Longrightarrow> \<not> oom s (mallocs s + 2) \<Longrightarrow> \<exists>s'. ext4_create_fs_aux_info s = Inr s'"
  by (simp add: ext4_create_fs_aux_info_def Let_def has_super_block_iff)

lemma groups_fit:
  assumes run: "ext4_create_fs_aux_info s = Inr s'"
    and sane: "sane_geometry (info s) (aux_info s')"
    and g: "g < unat (groups (aux_info s'))"
  shows "g * unat (blocks_per_group (info s)) + group_header (info s) (aux_info s') g
           \<le> unat (len_blocks (aux_info s'))"
proof -
  let ?fi = "info s"
  let ?B = "unat (blocks_per_group ?fi)" and ?L = "unat (fs_len_blocks ?fi)" and ?G = "unat (fs_groups ?fi)"
  define h where "h = last_super ?fi"
  define d where "d = fs_drop_last ?fi h"
  note flds = aux_info_fields [OF run, folded h_def, folded d_def]
  note sn = sane [unfolded sane_geometry_def flds]
  have L: "?L = unat (info_len ?fi) div unat (block_size ?fi)"
    using sn unat_div_len by (simp add: fs_len_blocks_def)
  have Lb: "?L \<le> 2 ^ 30 * ?B"
  proof -
    have "int ?L \<le> 2 ^ 30 * int ?B" using sn L by (simp add: zdiv_int)
    then show ?thesis by (metis of_nat_le_iff of_nat_mult of_nat_numeral of_nat_power)
  qed
  note G = unat_fs_groups [OF _ _ _ Lb]
  have Gv: "?G = (?L + ?B - 1) div ?B" "?G \<le> 2 ^ 30" using G sn by auto
  have m: "unat (fs_last_group_size ?fi) = ?L mod ?B"
  proof -
    have "?L mod ?B < ?B" using sn by simp
    also have "\<dots> < 2 ^ 32" using unsigned_less [of "blocks_per_group ?fi"] by simp
    finally have "take_bit 32 (?L mod ?B) = ?L mod ?B" by (simp add: take_bit_nat_eq_self)
    moreover have "unat (ucast (blocks_per_group ?fi) :: u64) = ?B" by (simp add: unat_ucast_upcast)
    ultimately show ?thesis
      by (simp only: fs_last_group_size_def unsigned_ucast_eq unat_mod) simp
  qed
  have hl: "unat (fs_last_header_size ?fi h) = 2 + unat (fs_inode_table_blocks ?fi) +
     (if h then 1 + unat (fs_bg_desc_blocks ?fi) + unat (bg_desc_reserve_blocks ?fi) else 0)"
    using sn unat_u32 [of "blocks_per_group ?fi"] by (intro unat_last_header) linarith
  have d: "d \<longleftrightarrow> 0 < ?L mod ?B \<and> ?L mod ?B < unat (fs_last_header_size ?fi h)"
    by (simp add: d_def fs_drop_last_def word_less_nat_alt m)
  have G0: "0 < ?G"
  proof (rule ccontr)
    assume "\<not> 0 < ?G"
    then have "(?L + ?B - 1) div ?B = 0" using Gv by simp
    then have "?L = 0" using sn by (auto simp: div_eq_0_iff)
    then have "\<not> d" using d by simp
    then show False using g flds \<open>\<not> 0 < ?G\<close> by simp
  qed
  have G1: "unat (fs_groups ?fi - 1) = ?G - 1" using G0 by (simp add: unat_minus_one unat_gt_0)
  have len: "unat (len_blocks (aux_info s')) = (if d then ?L - ?L mod ?B else ?L)"
    using m by (simp add: flds unat_sub word_le_nat_alt unat_ucast_upcast)
  have "g * ?B + group_header ?fi (aux_info s') g \<le> (if d then ?L - ?L mod ?B else ?L)"
    unfolding d
  proof (rule last_group_room [OF Gv(1)])
    show "0 < ?B" using sn by simp
    show "group_header ?fi (aux_info s') g \<le> ?B" using sn by (simp add: group_header_def flds)
    show "g < (if 0 < ?L mod ?B \<and> ?L mod ?B < unat (fs_last_header_size ?fi h) then ?G - 1 else ?G)"
      using g G1 d by (auto simp: flds split: if_splits)
    assume "g = ?G - 1"
    then have "int g = sint (fs_groups ?fi - 1)" using G1 Gv(2) sint_small [of "fs_groups ?fi - 1"] by simp
    then show "group_header ?fi (aux_info s') g = unat (fs_last_header_size ?fi h)"
      using hl by (simp add: group_header_def flds h_def last_super_def)
  qed
  then show ?thesis using len by simp
qed

text \<open>C34. With blocks above 1 KiB, every block group that the computed geometry keeps has room for
  its superblock, descriptors, bitmaps and inode table before the end of the filesystem.\<close>

theorem aux_info_groups_fit:
  assumes run: "ext4_create_fs_aux_info s = Inr s'"
    and sane: "sane_geometry (info s) (aux_info s')"
    and g: "g < unat (groups (aux_info s'))"
  shows "g * unat (blocks_per_group (info s)) + group_header (info s) (aux_info s') g
           \<le> unat (len_blocks (aux_info s'))"
  by (rule groups_fit [OF assms])

text \<open>A state with the default parameters of a filesystem of 40000 4 KiB blocks.\<close>

definition sample_fs_info :: fs_info where
  "sample_fs_info = \<lparr>info_len = 163840000, block_size = 4096, blocks_per_group = 32768,
     inodes_per_group = 8192, inode_size = 256, info_inodes = 16384, journal_blocks = 1024,
     feat_ro_compat = 1, feat_compat = 0, feat_incompat = 0, bg_desc_reserve_blocks = 7,
     label = [], no_journal = 0\<rparr>"

definition empty_aux :: fs_aux_info where
  "empty_aux = \<lparr>sb = [], backup_sb = [], bg_desc = [], bgs = [], xattrs = [], first_data_block = 0,
     len_blocks = 0, inode_table_blocks = 0, groups = 0, bg_desc_blocks = 0, default_i_flags = 0,
     blocks_per_ind = 0, blocks_per_dind = 0, blocks_per_tind = 0\<rparr>"

definition start_st :: "fs_info \<Rightarrow> ext4_st" where
  "start_st fi = \<lparr>force = False, info = fi, aux_info = empty_aux, regions = (\<lambda>_. None),
     mem = (\<lambda>_. None), sparse = [], mallocs = 0, oom = (\<lambda>_. False), sparse_err = (\<lambda>_. False)\<rparr>"

lemma start_st_simps [simp]:
  "info (start_st fi) = fi" "force (start_st fi) = False" "mallocs (start_st fi) = 0"
  "oom (start_st fi) n = False" "regions (start_st fi) = (\<lambda>_. None)" "sparse_err (start_st fi) n = False"
  "aux_info (start_st fi) = empty_aux" "sparse (start_st fi) = []" "mem (start_st fi) = (\<lambda>_. None)"
  by (simp_all add: start_st_def)

lemma sample_geometry:
  "fs_len_blocks sample_fs_info = 40000" "fs_first_data_block sample_fs_info = 0"
  "fs_inode_table_blocks sample_fs_info = 512" "fs_groups sample_fs_info = 2"
  "fs_bg_desc_blocks sample_fs_info = 1" "fs_last_group_size sample_fs_info = 7232"
  by (simp_all add: fs_len_blocks_def fs_first_data_block_def fs_inode_table_blocks_def fs_groups_def
      fs_bg_desc_blocks_def fs_last_group_size_def sample_fs_info_def DIV_ROUND_UP_def signed_divide_int_def)

theorem aux_info_groups_fit_witness:
  "\<exists>s'. ext4_create_fs_aux_info (start_st sample_fs_info) = Inr s' \<and>
     groups (aux_info s') = 2 \<and> sane_geometry sample_fs_info (aux_info s') \<and>
     1 * 32768 + group_header sample_fs_info (aux_info s') 1 \<le> unat (len_blocks (aux_info s'))"
proof -
  have nz: "block_size sample_fs_info \<noteq> 0" "blocks_per_group sample_fs_info \<noteq> 0"
    by (simp_all add: sample_fs_info_def)
  obtain s' where r: "ext4_create_fs_aux_info (start_st sample_fs_info) = Inr s'"
    using create_fs_aux_info_ok [of "start_st sample_fs_info"] nz by auto
  have d: "\<not> fs_drop_last sample_fs_info h" for h
    by (cases h) (simp_all add: fs_drop_last_def fs_last_header_size_def sample_geometry,
        simp_all add: sample_fs_info_def)
  note f = aux_info_fields [OF r, simplified d sample_geometry start_st_simps if_False]
  have s: "sane_geometry sample_fs_info (aux_info s')"
    unfolding sane_geometry_def f by (simp add: sample_fs_info_def)
  have "1 * unat (blocks_per_group (info (start_st sample_fs_info))) +
     group_header (info (start_st sample_fs_info)) (aux_info s') 1 \<le> unat (len_blocks (aux_info s'))"
    using s f by (intro aux_info_groups_fit [OF r]) simp_all
  then have "1 * 32768 + group_header sample_fs_info (aux_info s') 1 \<le> unat (len_blocks (aux_info s'))"
    by (simp add: sample_fs_info_def)
  with r s f show ?thesis by auto
qed

section \<open>Defects of the geometry\<close>

text \<open>
  The triply indirect capacity is computed as the square of the doubly indirect one and
  wraps to zero for every supported block size, where ext4 would use 2^24 (1 KiB blocks) to
  2^30 (4 KiB blocks).
\<close>

theorem blocks_per_tind_wraps:
  assumes "ext4_create_fs_aux_info s = Inr s'" and "block_size (info s) \<in> {1024, 2048, 4096}"
  shows "blocks_per_tind (aux_info s') = 0"
  using assms(2) by (auto simp: aux_info_fields(6) [OF assms(1)])

theorem blocks_per_tind_wraps_witness:
  "\<exists>s'. ext4_create_fs_aux_info (start_st sample_fs_info) = Inr s' \<and> blocks_per_tind (aux_info s') = 0"
proof -
  have nz: "block_size sample_fs_info = 4096" "blocks_per_group sample_fs_info = 32768"
    by (simp_all add: sample_fs_info_def)
  obtain s' where r: "ext4_create_fs_aux_info (start_st sample_fs_info) = Inr s'"
    using create_fs_aux_info_ok [of "start_st sample_fs_info"] nz by auto
  then show ?thesis using blocks_per_tind_wraps [OF r] nz by auto
qed

text \<open>The parameters of a filesystem of two complete groups of 1 KiB blocks: 1 + 2 * 8192 blocks.\<close>

definition one_k_fs_info :: fs_info where
  "one_k_fs_info = sample_fs_info\<lparr>info_len := 16385 * 1024, block_size := 1024, blocks_per_group := 8192,
     inodes_per_group := 2048\<rparr>"

text \<open>
  With 1 KiB blocks the size of the last group ignores that numbering starts at block 1: on
  a filesystem of exactly two complete groups the second group is taken for a group of one
  block and dropped, and blocks 8193 to 16383 of the remaining filesystem are in no group.
\<close>

theorem one_k_blocks_lose_last_group:
  "\<exists>s'. ext4_create_fs_aux_info (start_st one_k_fs_info) = Inr s' \<and>
     first_data_block (aux_info s') = 1 \<and> groups (aux_info s') = 1 \<and> len_blocks (aux_info s') = 16384"
proof -
  have nz: "block_size one_k_fs_info = 1024" "blocks_per_group one_k_fs_info = 8192"
    by (simp_all add: one_k_fs_info_def)
  obtain s' where r: "ext4_create_fs_aux_info (start_st one_k_fs_info) = Inr s'"
    using create_fs_aux_info_ok [of "start_st one_k_fs_info"] nz by auto
  have g: "fs_len_blocks one_k_fs_info = 16385" "fs_first_data_block one_k_fs_info = 1"
    "fs_inode_table_blocks one_k_fs_info = 512" "fs_groups one_k_fs_info = 2"
    "fs_bg_desc_blocks one_k_fs_info = 1" "fs_last_group_size one_k_fs_info = 1"
    by (simp_all add: fs_len_blocks_def fs_first_data_block_def fs_inode_table_blocks_def fs_groups_def
        fs_bg_desc_blocks_def fs_last_group_size_def one_k_fs_info_def sample_fs_info_def DIV_ROUND_UP_def
        signed_divide_int_def)
  have d: "fs_drop_last one_k_fs_info h" for h
    by (cases h) (simp_all add: fs_drop_last_def fs_last_header_size_def g,
        simp_all add: one_k_fs_info_def sample_fs_info_def)
  show ?thesis
    using r aux_info_fields [OF r, simplified d g start_st_simps if_True] by auto
qed

section \<open>Size arguments\<close>

text \<open>The decimal digits of a number, most significant first.\<close>

fun decimal :: "nat \<Rightarrow> bytes" where
  "decimal n = (if n < 10 then [of_nat (48 + n)] else decimal (n div 10) @ [of_nat (48 + n mod 10)])"

declare decimal.simps [simp del]

lemma digit_facts:
  assumes "k < 10"
  shows "is_digit (of_nat (48 + k))" and "unat (of_nat (48 + k) - 48 :: u8) = k"
proof -
  have u: "unat (of_nat (48 + k) :: u8) = 48 + k" using assms unat_of_nat [of "48 + k", where 'a = 8] by simp
  then show "is_digit (of_nat (48 + k))" using assms by (simp only: is_digit_def word_le_nat_alt) simp
  show "unat (of_nat (48 + k) - 48 :: u8) = k" using assms by (simp add: unat_of_nat)
qed

lemma digits_value_snoc: "digits_value (ds @ [d]) = 10 * digits_value ds + unat (d - 48)"
  by (simp add: digits_value_def)

lemma decimal_spec: "digits_value (decimal n) = n \<and> (\<forall>d \<in> set (decimal n). is_digit d) \<and> decimal n \<noteq> []"
proof (induction n rule: decimal.induct)
  case (1 n)
  show ?case
  proof (cases "n < 10")
    case True
    have "digits_value [of_nat (48 + n)] = n" using digit_facts(2) [OF True] by (simp add: digits_value_def)
    then show ?thesis using True digit_facts(1) [OF True] by (subst (1 2 3) decimal.simps) simp
  next
    case False
    have m: "n mod 10 < 10" by simp
    have "digits_value (decimal (n div 10) @ [of_nat (48 + n mod 10)]) = 10 * (n div 10) + n mod 10"
      using 1 [OF False] digit_facts(2) [OF m] by (simp only: digits_value_snoc)
    then show ?thesis
      using 1 False digit_facts(1) [OF m] by (subst (1 2 3) decimal.simps) simp
  qed
qed

lemma not_space_sign: "is_digit c \<Longrightarrow> \<not> is_space c \<and> c \<noteq> 45 \<and> c \<noteq> 43"
  by (auto simp: is_digit_def is_space_def word_le_nat_alt)

lemma strtoull10_decimal:
  assumes "r = [] \<or> \<not> is_digit (hd r)"
  shows "strtoull10 (decimal n @ r) = (if 2 ^ 64 \<le> n then - 1 else of_nat n, r)"
proof -
  note d = decimal_spec [of n]
  obtain c ds where c: "decimal n = c # ds" using d by (cases "decimal n") auto
  have "is_digit c" using d c by simp
  then have ns: "\<not> is_space c" "c \<noteq> 45" "c \<noteq> 43" using not_space_sign by auto
  have t: "takeWhile is_digit (c # ds @ r) = c # ds" "dropWhile is_digit (c # ds @ r) = r"
    using d c assms by (cases r; simp add: takeWhile_append2 dropWhile_append2)+
  show ?thesis
    using d c ns t by (simp add: strtoull10_def Let_def)
qed

text \<open>A decimal size with a k, m or g suffix is read back as that many kibi-, mebi- or
  gibibytes, modulo 2 to the 64.\<close>

theorem parse_num_decimal:
  assumes "n < 2 ^ 64" and "suffix = [] \<or> \<not> is_digit (hd suffix)"
  shows "parse_num (decimal n @ suffix) =
    of_nat (n * (if suffix = [] then 1 else if hd suffix \<in> {107, 75} then 1024
                 else if hd suffix \<in> {109, 77} then 1024 ^ 2
                 else if hd suffix \<in> {103, 71} then 1024 ^ 3 else 1))"
  using assms strtoull10_decimal [of suffix n] by (cases suffix) (auto simp: parse_num_def Let_def)

text \<open>The size \<^verbatim>\<open>512m\<close>.\<close>

theorem parse_num_decimal_witness:
  "decimal 512 = [53, 49, 50] \<and> \<not> is_digit 109 \<and> parse_num [53, 49, 50, 109] = 536870912"
  using parse_num_decimal [of 512 "[109]"] by (simp add: decimal.simps is_digit_def)

end
