(* ===== verification/Block_Group.thy ===== *)
theory Block_Group
  imports Bitmap Fs_Params
begin

text \<open>
  The block groups of \<^verbatim>\<open>allocate.c\<close>: reserving and freeing runs of blocks in the bitmap
  with the counters that go with it, setting the groups up, inode allocation and the lazily
  created inode tables. The invariant \<open>alloc_ok\<close> says that the free blocks of every
  group are one run, that its bitmap marks exactly the others, and the same of its inodes.
\<close>

section \<open>Reserving blocks\<close>

text \<open>
  The three loops of \<^verbatim>\<open>reserve_blocks\<close>: single bits up to a byte boundary, whole
  bytes, the remaining bits. \<open>Inl\<close> is the early return on a block already reserved, with
  the bitmap as the loop left it; \<open>Inr\<close> carries \<^verbatim>\<open>i\<close>, \<^verbatim>\<open>block\<close> and
  the bitmap to the next loop.
\<close>

type_synonym reserve_result = "(bytes + u32 \<times> u32 \<times> bytes) res"

function reserve_to_byte :: "u32 \<Rightarrow> bytes \<Rightarrow> u32 \<Rightarrow> u32 \<Rightarrow> reserve_result" where
  "reserve_to_byte num bm i block =
     (if i < num \<and> block mod 8 \<noteq> 0 then
        bnd (bitmap_set_bit bm block) (\<lambda>(dup, bm').
        if dup then Inr (Inl bm') else reserve_to_byte num bm' (i + 1) (block + 1))
      else Inr (Inr (i, block, bm)))"
  by pat_completeness auto

lemma inc_below: "i < num \<Longrightarrow> unat (i + 1 :: u32) = unat i + 1"
  using word_less_nat_alt [of i num] unat_u32 [of num] by (intro alloc_bits.unat_Suc) simp

termination reserve_to_byte
  by (relation "measure (\<lambda>(num, bm, i, block). unat num - unat i)")
    (auto simp: inc_below word_less_nat_alt)

definition zero_bytes :: "bytes \<Rightarrow> nat" where
  "zero_bytes bm = length (filter ((=) 0) bm)"

lemma zero_bytes_decreases:
  assumes "bitmap_set_8_bits bm block = Inr (0, bm')"
  shows "zero_bytes bm' < zero_bytes bm"
proof -
  let ?j = "unat block div 8"
  have l: "?j < length bm" "bm ! ?j = 0" "bm' = bm[?j := 0xFF]"
    using assms by (auto simp: bitmap_set_8_bits_def split: if_splits)
  have "filter ((=) 0) bm = filter ((=) 0) (take ?j bm) @ 0 # filter ((=) 0) (drop (Suc ?j) bm)"
    using l(2) by (subst id_take_nth_drop [OF l(1)]) simp
  moreover have "filter ((=) 0) bm' = filter ((=) 0) (take ?j bm) @ filter ((=) 0) (drop (Suc ?j) bm)"
    using l by (simp add: upd_conv_take_nth_drop)
  ultimately show ?thesis by (simp add: zero_bytes_def)
qed

function reserve_bytes :: "u32 \<Rightarrow> bytes \<Rightarrow> u32 \<Rightarrow> u32 \<Rightarrow> reserve_result" where
  "reserve_bytes num bm i block =
     (if i + 8 \<le> num AND NOT 7 then
        bnd (bitmap_set_8_bits bm block) (\<lambda>(old, bm').
        if old \<noteq> 0 then Inr (Inl bm') else reserve_bytes num bm' (i + 8) (block + 8))
      else Inr (Inr (i, block, bm)))"
  by pat_completeness auto
termination reserve_bytes
  by (relation "measure (\<lambda>(num, bm, i, block). zero_bytes bm)") (auto simp: zero_bytes_decreases)

function reserve_bits :: "u32 \<Rightarrow> bytes \<Rightarrow> u32 \<Rightarrow> u32 \<Rightarrow> reserve_result" where
  "reserve_bits num bm i block =
     (if i < num then
        bnd (bitmap_set_bit bm block) (\<lambda>(dup, bm').
        if dup then Inr (Inl bm') else reserve_bits num bm' (i + 1) (block + 1))
      else Inr (Inr (i, block, bm)))"
  by pat_completeness auto
termination reserve_bits
  by (relation "measure (\<lambda>(num, bm, i, block). unat num - unat i)")
    (auto simp: inc_below word_less_nat_alt)

declare reserve_to_byte.simps [simp del] reserve_bytes.simps [simp del] reserve_bits.simps [simp del]

text \<open>The next loop runs only when the previous one ended without a duplicate.\<close>

definition and_then_loop :: "reserve_result \<Rightarrow> (bytes \<Rightarrow> u32 \<Rightarrow> u32 \<Rightarrow> reserve_result) \<Rightarrow> reserve_result" where
  "and_then_loop r loop = bnd r (\<lambda>x. case x of Inl bm \<Rightarrow> Inr (Inl bm) | Inr (i, block, bm) \<Rightarrow> loop bm i block)"

definition reserve_blocks ::
    "bool \<Rightarrow> block_group_info \<Rightarrow> u32 \<Rightarrow> u32 \<Rightarrow> (int \<times> block_group_info) res" where
  "reserve_blocks fc bg start num =
     (if bgi_free_blocks bg < num then Inr (- 1, bg)
      else bnd (and_then_loop (and_then_loop
                  (reserve_to_byte num (bgi_bitmaps bg) 0 start)
                  (reserve_bytes num)) (reserve_bits num)) (\<lambda>x.
        case x of
          Inl bm \<Rightarrow> error_then fc (- 1, bg\<lparr>bgi_bitmaps := bm\<rparr>)
        | Inr (i, block, bm) \<Rightarrow> Inr (0, bg\<lparr>bgi_bitmaps := bm, bgi_free_blocks := bgi_free_blocks bg - num,
            bgi_first_free_block := (if start = bgi_first_free_block bg then start + num
                                     else bgi_first_free_block bg)\<rparr>)))"

section \<open>Freeing blocks\<close>

primrec free_bits :: "nat \<Rightarrow> bytes \<Rightarrow> u32 \<Rightarrow> bytes res" where
  "free_bits 0 bm block = Inr bm"
| "free_bits (Suc n) bm block = bnd (bitmap_clear_bit bm block) (\<lambda>bm'. free_bits n bm' (block - 1))"

definition free_blocks :: "block_group_info \<Rightarrow> u32 \<Rightarrow> block_group_info res" where
  "free_blocks bg num =
     bnd (free_bits (unat num) (bgi_bitmaps bg) (bgi_first_free_block bg - 1)) (\<lambda>bm.
     Inr (bg\<lparr>bgi_bitmaps := bm, bgi_free_blocks := bgi_free_blocks bg + num,
             bgi_first_free_block := bgi_first_free_block bg - num\<rparr>))"

section \<open>What the loops do\<close>

text \<open>A loop that reserves the next \<open>k\<close> blocks, or stops because one of them is reserved.\<close>

definition reserves :: "nat \<Rightarrow> bytes \<Rightarrow> u32 \<Rightarrow> u32 \<Rightarrow> reserve_result \<Rightarrow> bool" where
  "reserves k bm i block r \<longleftrightarrow>
     (if bits bm \<inter> {unat block..<unat block + k} = {} then
        \<exists>bm'. r = Inr (Inr (i + of_nat k, block + of_nat k, bm')) \<and> length bm' = length bm \<and>
              bits bm' = bits bm \<union> {unat block..<unat block + k}
      else \<exists>bm'. r = Inr (Inl bm') \<and> length bm' = length bm)"

lemma reserves_0: "reserves 0 bm i block (Inr (Inr (i, block, bm)))"
  by (simp add: reserves_def)

lemma reserves_then:
  assumes "reserves k bm i block r" and "unat block + k < 2 ^ 32"
    and "\<And>bm'. length bm' = length bm \<Longrightarrow> reserves m bm' (i + of_nat k) (block + of_nat k) (loop bm' (i + of_nat k) (block + of_nat k))"
  shows "reserves (k + m) bm i block (and_then_loop r loop)"
proof (cases "bits bm \<inter> {unat block..<unat block + k} = {}")
  case True
  then obtain bm' where r: "r = Inr (Inr (i + of_nat k, block + of_nat k, bm'))" and l: "length bm' = length bm"
    and b: "bits bm' = bits bm \<union> {unat block..<unat block + k}"
    using assms(1) by (auto simp: reserves_def)
  have u: "unat (block + of_nat k) = unat block + k" using assms(2) by (rule unat_add_of_nat)
  have rng: "{unat block..<unat block + (k + m)} = {unat block..<unat block + k} \<union> {unat block + k..<unat block + k + m}"
    by auto
  have i: "bits bm' \<inter> {unat block + k..<unat block + k + m} = bits bm \<inter> {unat block..<unat block + (k + m)}"
    using b True rng by auto
  have e: "and_then_loop r loop = loop bm' (i + of_nat k) (block + of_nat k)"
    by (simp add: r and_then_loop_def)
  have c: "bits bm' \<union> {unat block + k..<unat block + k + m} = bits bm \<union> {unat block..<unat block + (k + m)}"
    using b rng by auto
  have "reserves m bm' (i + of_nat k) (block + of_nat k) (and_then_loop r loop)"
    unfolding e using assms(3) [OF l] .
  then show ?thesis unfolding reserves_def u i c l by (simp only: add.assoc of_nat_add)
next
  case False
  then obtain bm' where r: "r = Inr (Inl bm')" and l: "length bm' = length bm"
    using assms(1) by (auto simp: reserves_def)
  have "bits bm \<inter> {unat block..<unat block + (k + m)} \<noteq> {}" using False by auto
  then show ?thesis using r l by (simp add: reserves_def and_then_loop_def)
qed


text \<open>One more bit: shared by the first and the last loop.\<close>

lemma reserves_bit:
  assumes "unat block < 8 * length bm" and "unat block + 1 < 2 ^ 32"
    and "\<And>bm'. length bm' = length bm \<Longrightarrow> reserves k bm' (i + 1) (block + 1) (f bm')"
  shows "reserves (Suc k) bm i block
    (bnd (bitmap_set_bit bm block) (\<lambda>(dup, bm'). if dup then Inr (Inl bm') else f bm'))"
proof -
  obtain bm1 where b: "bitmap_set_bit bm block = Inr (unat block \<in> bits bm, bm1)"
    and m: "bits bm1 = insert (unat block) (bits bm)" and l: "length bm1 = length bm"
    using bitmap_set_bit_iff [OF assms(1)] by auto
  define r :: reserve_result where
    "r = (if unat block \<in> bits bm then Inr (Inl bm1) else Inr (Inr (i + 1, block + 1, bm1)))"
  have "reserves 1 bm i block r" using m l by (auto simp: reserves_def r_def)
  then have "reserves (1 + k) bm i block (and_then_loop r (\<lambda>bm' i block. f bm'))"
    using assms by (intro reserves_then) simp_all
  moreover have "and_then_loop r (\<lambda>bm' i block. f bm') =
      bnd (bitmap_set_bit bm block) (\<lambda>(dup, bm'). if dup then Inr (Inl bm') else f bm')"
    by (simp add: and_then_loop_def r_def b)
  ultimately show ?thesis by simp
qed

lemma reserve_bits_spec:
  "unat i + k = unat num \<Longrightarrow> unat block + k \<le> 8 * length bm \<Longrightarrow> 8 * length bm < 2 ^ 32 \<Longrightarrow>
   reserves k bm i block (reserve_bits num bm i block)"
proof (induction k arbitrary: bm i block)
  case 0
  then show ?case by (subst reserve_bits.simps) (simp add: word_less_nat_alt reserves_0)
next
  case (Suc k)
  have lt: "i < num" using Suc.prems by (simp add: word_less_nat_alt)
  have u: "unat (block + 1) = unat block + 1" using Suc.prems by (intro alloc_bits.unat_Suc) simp
  have IH: "reserves k bm' (i + 1) (block + 1) (reserve_bits num bm' (i + 1) (block + 1))"
    if "length bm' = length bm" for bm'
    using Suc.IH [of "i + 1" "block + 1" bm'] Suc.prems inc_below [OF lt] u that by simp
  show ?case
    unfolding reserve_bits.simps [of num bm i block] if_P [OF lt]
    using Suc.prems IH by (intro reserves_bit) simp_all
qed

text \<open>The number of blocks up to the next byte boundary.\<close>

definition to_byte :: "u32 \<Rightarrow> nat" where
  "to_byte block = (if unat block mod 8 = 0 then 0 else 8 - unat block mod 8)"

lemma round_up_8: "n + (8 - n mod 8) = 8 * (n div 8 + 1)" for n :: nat
proof -
  have eq: "8 * q + r + (8 - r) = 8 * (q + 1)" if "r < 8" for q r :: nat using that by simp
  have "8 * (n div 8) + n mod 8 + (8 - n mod 8) = 8 * (n div 8 + 1)" by (rule eq) simp
  then show ?thesis unfolding mult_div_mod_eq .
qed

lemma to_byte_aligned: "(unat block + to_byte block) mod 8 = 0"
proof (cases "unat block mod 8 = 0")
  case False
  have "unat block + (8 - unat block mod 8) = 8 * (unat block div 8 + 1)"
    by (rule round_up_8)
  then show ?thesis using False by (simp only: to_byte_def) simp
qed (simp add: to_byte_def)

lemma reserve_to_byte_spec:
  "unat i \<le> unat num \<Longrightarrow> k = min (unat num - unat i) (to_byte block) \<Longrightarrow>
   unat block + k \<le> 8 * length bm \<Longrightarrow> 8 * length bm < 2 ^ 32 \<Longrightarrow>
   reserves k bm i block (reserve_to_byte num bm i block)"
proof (induction k arbitrary: bm i block)
  case 0
  have "unat block mod 8 = 0 \<or> unat num - unat i = 0" using 0 by (auto simp: to_byte_def min_def split: if_splits)
  then have "\<not> (i < num \<and> block mod 8 \<noteq> 0)" using 0
    by (auto simp: word_less_nat_alt word_unat_eq_iff)
  then show ?case by (subst reserve_to_byte.simps) (simp only: if_False reserves_0)
next
  case (Suc k)
  have lt: "i < num" and nz: "unat block mod 8 \<noteq> 0"
    using Suc.prems by (auto simp: word_less_nat_alt to_byte_def split: if_splits)
  have c: "i < num \<and> block mod 8 \<noteq> 0" using lt nz by (auto simp: word_unat_eq_iff)
  have u: "unat (block + 1) = unat block + 1" using Suc.prems by (intro alloc_bits.unat_Suc) simp
  have "to_byte (block + 1) = to_byte block - 1"
    using nz unfolding to_byte_def u by (simp add: mod_Suc)
  then have k: "k = min (unat num - unat (i + 1)) (to_byte (block + 1))"
    using Suc.prems inc_below [OF lt] by simp
  have IH: "reserves k bm' (i + 1) (block + 1) (reserve_to_byte num bm' (i + 1) (block + 1))"
    if "length bm' = length bm" for bm'
    using Suc.IH [of "i + 1" "block + 1" bm', OF _ k] Suc.prems inc_below [OF lt] u that lt
    by (simp add: word_less_nat_alt)
  show ?case
    unfolding reserve_to_byte.simps [of num bm i block] if_P [OF c]
    using Suc.prems IH by (intro reserves_bit) simp_all
qed


lemma unat_round_down: "unat (num AND NOT 7 :: u32) = 8 * (unat num div 8)"
proof -
  have seven: "(7 :: u32) = mask 3" by (simp add: mask_eq_exp_minus_1)
  have "num AND NOT 7 = push_bit 3 (drop_bit 3 num)"
    by (rule bit_word_eqI) (auto simp: seven bit_simps not_le)
  then have "unat (num AND NOT 7) = unat (push_bit 3 (drop_bit 3 num))" by (rule arg_cong)
  also have "\<dots> = take_bit 32 (8 * (unat num div 8))"
    unfolding unsigned_push_bit_eq unat_drop_bit_eq by (simp add: drop_bit_eq_div push_bit_eq_mult mult.commute)
  also have "\<dots> = 8 * (unat num div 8)"
    using unat_u32 [of num] by (intro take_bit_nat_eq_self) (simp add: le_less_trans [OF times_div_less_eq_dividend])
  finally show ?thesis .
qed

lemma reserves_byte:
  assumes "unat block mod 8 = 0" and "unat block + 8 \<le> 8 * length bm" and "8 * length bm < 2 ^ 32"
    and "\<And>bm'. length bm' = length bm \<Longrightarrow> reserves k bm' (i + 8) (block + 8) (f bm')"
  shows "reserves (8 + k) bm i block
    (bnd (bitmap_set_8_bits bm block) (\<lambda>(old, bm'). if old \<noteq> 0 then Inr (Inl bm') else f bm'))"
proof -
  obtain v bm1 where b: "bitmap_set_8_bits bm block = Inr (v, bm1)"
    and v: "v = 0 \<longleftrightarrow> bits bm \<inter> {unat block..<unat block + 8} = {}"
    and m: "bits bm1 = bits bm \<union> {unat block..<unat block + 8}" and l: "length bm1 = length bm"
    using bitmap_set_8_bits_iff [OF assms(1,2)] by blast
  define r :: reserve_result where
    "r = (if v \<noteq> 0 then Inr (Inl bm1) else Inr (Inr (i + 8, block + 8, bm1)))"
  have "reserves 8 bm i block r" using m l v by (simp add: reserves_def r_def)
  then have "reserves (8 + k) bm i block (and_then_loop r (\<lambda>bm' i block. f bm'))"
    using assms by (intro reserves_then) simp_all
  moreover have "and_then_loop r (\<lambda>bm' i block. f bm') =
      bnd (bitmap_set_8_bits bm block) (\<lambda>(old, bm'). if old \<noteq> 0 then Inr (Inl bm') else f bm')"
    by (simp add: and_then_loop_def r_def b)
  ultimately show ?thesis by simp
qed

lemma unat_add8: "unat (i :: u32) + 8 < 2 ^ 32 \<Longrightarrow> unat (i + 8) = unat i + 8"
  using unat_add_of_nat [of i 8] by simp

lemma reserve_bytes_spec:
  "k = (8 * (unat num div 8) - unat i) div 8 \<Longrightarrow> unat i + 8 < 2 ^ 32 \<Longrightarrow> unat num + 16 < 2 ^ 32 \<Longrightarrow>
   (k > 0 \<Longrightarrow> unat block mod 8 = 0) \<Longrightarrow> unat block + 8 * k \<le> 8 * length bm \<Longrightarrow> 8 * length bm < 2 ^ 32 \<Longrightarrow>
   reserves (8 * k) bm i block (reserve_bytes num bm i block)"
proof (induction k arbitrary: bm i block)
  case 0
  have c: "\<not> i + 8 \<le> num AND NOT 7"
    unfolding word_le_nat_alt unat_round_down unat_add8 [OF 0(2)] using 0(1) by linarith
  show ?case unfolding reserve_bytes.simps [of num bm i block] if_not_P [OF c] by (simp add: reserves_0)
next
  case (Suc k)
  have c: "i + 8 \<le> num AND NOT 7"
    unfolding word_le_nat_alt unat_round_down unat_add8 [OF Suc.prems(2)] using Suc.prems(1) by linarith
  have ui: "unat (i + 8) = unat i + 8" using Suc.prems by (simp add: unat_add8)
  have ub: "unat (block + 8) = unat block + 8" using Suc.prems by (intro unat_add8) simp
  have k: "k = (8 * (unat num div 8) - unat (i + 8)) div 8" using Suc.prems(1) ui by linarith
  have il: "unat (i + 8) + 8 < 2 ^ 32"
    using c [unfolded word_le_nat_alt unat_round_down ui] Suc.prems(3) ui
      times_div_less_eq_dividend [of 8 "unat num"] by linarith
  have IH: "reserves (8 * k) bm' (i + 8) (block + 8) (reserve_bytes num bm' (i + 8) (block + 8))"
    if "length bm' = length bm" for bm'
    using Suc.prems ub that by (intro Suc.IH k il) simp_all
  have "reserves (8 + 8 * k) bm i block (bnd (bitmap_set_8_bits bm block)
     (\<lambda>(old, bm'). if old \<noteq> 0 then Inr (Inl bm') else reserve_bytes num bm' (i + 8) (block + 8)))"
    using Suc.prems IH by (intro reserves_byte) simp_all
  then show ?case
    unfolding reserve_bytes.simps [of num bm i block] if_P [OF c] by simp
qed

text \<open>The three loops together reserve exactly \<open>num\<close> blocks.\<close>

lemma reserve_loops_spec:
  assumes "unat start + unat num \<le> 8 * length bm" and "8 * length bm + 16 < 2 ^ 32"
  shows "reserves (unat num) bm 0 start
    (and_then_loop (and_then_loop (reserve_to_byte num bm 0 start) (reserve_bytes num)) (reserve_bits num))"
proof -
  define k1 where "k1 = min (unat num) (to_byte start)"
  define k2 where "k2 = (8 * (unat num div 8) - k1) div 8"
  define k3 where "k3 = unat num - (k1 + 8 * k2)"
  have k18: "k1 < 8" by (auto simp: k1_def to_byte_def min_def)
  have "8 * k2 \<le> 8 * (unat num div 8) - k1" unfolding k2_def by (rule times_div_less_eq_dividend)
  moreover have "8 * (unat num div 8) \<le> unat num" by (rule times_div_less_eq_dividend)
  moreover have "k1 \<le> unat num" by (simp add: k1_def)
  ultimately have sum: "k1 + 8 * k2 + k3 = unat num" unfolding k3_def by linarith
  have u1: "unat (of_nat k1 :: u32) = k1" using k18 by (simp add: unat_of_nat)
  have ub: "unat (start + of_nat k1) = unat start + k1" using sum assms by (intro unat_add_of_nat) simp
  have al: "unat (start + of_nat k1) mod 8 = 0" if "k2 > 0"
  proof -
    have "8 \<le> unat num" using that by (simp add: k2_def)
    then have "k1 = to_byte start" using k18 by (auto simp: k1_def to_byte_def)
    then show ?thesis unfolding ub by (simp add: to_byte_aligned)
  qed
  have r1: "reserves k1 bm 0 start (reserve_to_byte num bm 0 start)"
    using sum assms by (intro reserve_to_byte_spec) (simp_all add: k1_def)
  have r2: "reserves (8 * k2) bm' (0 + of_nat k1) (start + of_nat k1)
      (reserve_bytes num bm' (0 + of_nat k1) (start + of_nat k1))" if "length bm' = length bm" for bm'
    using that assms sum al k18 u1 ub by (intro reserve_bytes_spec) (simp_all add: k2_def)
  have r12: "reserves (k1 + 8 * k2) bm 0 start
      (and_then_loop (reserve_to_byte num bm 0 start) (reserve_bytes num))"
    using sum assms by (intro reserves_then r1 r2) simp
  have u2: "unat (0 + of_nat (k1 + 8 * k2) :: u32) = k1 + 8 * k2"
    using sum assms by (subst unat_add_of_nat) simp_all
  have u3: "unat (start + of_nat (k1 + 8 * k2)) = unat start + (k1 + 8 * k2)"
    using sum assms by (subst unat_add_of_nat) simp_all
  have r3: "reserves k3 bm' (0 + of_nat (k1 + 8 * k2)) (start + of_nat (k1 + 8 * k2))
      (reserve_bits num bm' (0 + of_nat (k1 + 8 * k2)) (start + of_nat (k1 + 8 * k2)))"
    if "length bm' = length bm" for bm'
    using that assms sum u2 u3 by (intro reserve_bits_spec) simp_all
  have "reserves ((k1 + 8 * k2) + k3) bm 0 start (and_then_loop
      (and_then_loop (reserve_to_byte num bm 0 start) (reserve_bytes num)) (reserve_bits num))"
    using sum assms by (intro reserves_then r12 r3) simp_all
  then show ?thesis by (simp only: sum)
qed


section \<open>Reserving and freeing on the set of used blocks\<close>

lemma reserve_blocks_full: "bgi_free_blocks bg < num \<Longrightarrow> reserve_blocks fc bg start num = Inr (- 1, bg)"
  by (simp add: reserve_blocks_def)

lemma reserve_blocks_ok:
  assumes "num \<le> bgi_free_blocks bg" and "unat start + unat num \<le> 8 * length (bgi_bitmaps bg)"
    and "8 * length (bgi_bitmaps bg) + 16 < 2 ^ 32"
    and "bits (bgi_bitmaps bg) \<inter> {unat start..<unat start + unat num} = {}"
  obtains bm where "reserve_blocks fc bg start num = Inr (0, bg\<lparr>bgi_bitmaps := bm,
        bgi_free_blocks := bgi_free_blocks bg - num,
        bgi_first_free_block := (if start = bgi_first_free_block bg then start + num
                                 else bgi_first_free_block bg)\<rparr>)"
    and "bits bm = bits (bgi_bitmaps bg) \<union> {unat start..<unat start + unat num}"
    and "length bm = length (bgi_bitmaps bg)"
  using reserve_loops_spec [OF assms(2,3)] assms(1,4)
  by (auto simp: reserve_blocks_def reserves_def leD intro: that)

lemma reserve_blocks_dup:
  assumes "num \<le> bgi_free_blocks bg" and "unat start + unat num \<le> 8 * length (bgi_bitmaps bg)"
    and "8 * length (bgi_bitmaps bg) + 16 < 2 ^ 32"
    and "bits (bgi_bitmaps bg) \<inter> {unat start..<unat start + unat num} \<noteq> {}"
  obtains bm where "reserve_blocks fc bg start num = error_then fc (- 1, bg\<lparr>bgi_bitmaps := bm\<rparr>)"
    and "length bm = length (bgi_bitmaps bg)"
  using reserve_loops_spec [OF assms(2,3)] assms(1,4)
  by (auto simp: reserve_blocks_def reserves_def leD intro: that)

lemma free_bits_run: "free_bits k bm block = alloc_bits.del_run k bm block"
  by (induction k arbitrary: bm block) simp_all

lemma free_blocks_ok:
  assumes "unat num \<le> unat (bgi_first_free_block bg)"
    and "unat (bgi_first_free_block bg) \<le> 8 * length (bgi_bitmaps bg)"
  obtains bm where "free_blocks bg num = Inr (bg\<lparr>bgi_bitmaps := bm,
        bgi_free_blocks := bgi_free_blocks bg + num,
        bgi_first_free_block := bgi_first_free_block bg - num\<rparr>)"
    and "bits bm = bits (bgi_bitmaps bg) -
           {unat (bgi_first_free_block bg) - unat num..<unat (bgi_first_free_block bg)}"
    and "length bm = length (bgi_bitmaps bg)"
proof (cases "num = 0")
  case True
  then show ?thesis using that [of "bgi_bitmaps bg"] by (simp add: free_blocks_def)
next
  case False
  let ?f = "bgi_first_free_block bg"
  have f0: "0 < unat ?f" using False assms(1) by (simp add: unat_eq_zero [symmetric] del: unat_eq_zero)
  have u: "unat (?f - 1) = unat ?f - 1" using f0 by (simp add: unat_minus_one unat_gt_0)
  obtain bm where "free_bits (unat num) (bgi_bitmaps bg) (?f - 1) = Inr bm"
    "8 * length bm = 8 * length (bgi_bitmaps bg)"
    "bits bm = bits (bgi_bitmaps bg) - {unat (?f - 1) + 1 - unat num..<unat (?f - 1) + 1}"
    using alloc_bits.del_run_spec [of "?f - 1" "bgi_bitmaps bg" "unat num"] assms u f0
    unfolding free_bits_run by fastforce
  then show ?thesis using that [of bm] u f0 by (simp add: free_blocks_def)
qed

text \<open>
  C27. \<^verbatim>\<open>reserve_blocks\<close> on a request inside the bitmap: it refuses more blocks than are
  free; otherwise it marks exactly the blocks \<open>start ..< start + num\<close> if none of them was
  marked, with the free count and the first free block updated; if one was, it fails (and only
  returns when the force flag is set).
\<close>

theorem reserve_blocks_spec:
  assumes fits: "unat start + unat num \<le> 8 * length (bgi_bitmaps bg)"
    and small: "8 * length (bgi_bitmaps bg) + 16 < 2 ^ 32"
  shows "\<exists>bm. length bm = length (bgi_bitmaps bg) \<and>
    reserve_blocks fc bg start num =
      (if bgi_free_blocks bg < num then Inr (- 1, bg)
       else if bits (bgi_bitmaps bg) \<inter> {unat start..<unat start + unat num} = {} then
         Inr (0, bg\<lparr>bgi_bitmaps := bm, bgi_free_blocks := bgi_free_blocks bg - num,
           bgi_first_free_block := (if start = bgi_first_free_block bg then start + num
                                    else bgi_first_free_block bg)\<rparr>)
       else error_then fc (- 1, bg\<lparr>bgi_bitmaps := bm\<rparr>)) \<and>
    (num \<le> bgi_free_blocks bg \<and> bits (bgi_bitmaps bg) \<inter> {unat start..<unat start + unat num} = {} \<longrightarrow>
       bits bm = bits (bgi_bitmaps bg) \<union> {unat start..<unat start + unat num})"
proof (cases "bgi_free_blocks bg < num")
  case True
  then show ?thesis by (intro exI [of _ "bgi_bitmaps bg"]) (auto simp: reserve_blocks_full)
next
  case False
  then have le: "num \<le> bgi_free_blocks bg" by simp
  show ?thesis
  proof (cases "bits (bgi_bitmaps bg) \<inter> {unat start..<unat start + unat num} = {}")
    case True
    obtain bm where "reserve_blocks fc bg start num = Inr (0, bg\<lparr>bgi_bitmaps := bm,
        bgi_free_blocks := bgi_free_blocks bg - num,
        bgi_first_free_block := (if start = bgi_first_free_block bg then start + num
                                 else bgi_first_free_block bg)\<rparr>)"
      "bits bm = bits (bgi_bitmaps bg) \<union> {unat start..<unat start + unat num}"
      "length bm = length (bgi_bitmaps bg)"
      using reserve_blocks_ok [OF le fits small True] .
    then show ?thesis using True False by (intro exI [of _ bm]) (simp only: if_False if_True simp_thms)
  next
    case dup: False
    obtain bm where "reserve_blocks fc bg start num = error_then fc (- 1, bg\<lparr>bgi_bitmaps := bm\<rparr>)"
      "length bm = length (bgi_bitmaps bg)"
      using reserve_blocks_dup [OF le fits small dup] .
    then show ?thesis using dup False by (intro exI [of _ bm]) (simp only: if_False simp_thms)
  qed
qed


section \<open>Setting up the groups\<close>

text \<open>
  \<^verbatim>\<open>init_bg\<close>. A failed \<^verbatim>\<open>calloc\<close> of the bitmaps is not tested by the code: it is
  an empty buffer here, so the first access to it is undefined. The result of the second
  reservation is ignored by the code.
\<close>

definition bg_super_size :: "fs_info \<Rightarrow> fs_aux_info \<Rightarrow> bool \<Rightarrow> u32" where
  "bg_super_size fi a has_sb = (if has_sb then 1 + bg_desc_blocks a + bg_desc_reserve_blocks fi else 0)"

definition bg_start :: "fs_info \<Rightarrow> fs_aux_info \<Rightarrow> u32 \<Rightarrow> u32" where
  "bg_start fi a i = first_data_block a + i * blocks_per_group fi"

definition bg_overrun :: "fs_info \<Rightarrow> fs_aux_info \<Rightarrow> u32 \<Rightarrow> u32" where
  "bg_overrun fi a i = ucast (ucast (bg_start fi a i + blocks_per_group fi) - len_blocks a)"

definition blank_bg :: "fs_info \<Rightarrow> fs_aux_info \<Rightarrow> u32 \<Rightarrow> bool \<Rightarrow> bytes \<Rightarrow> block_group_info \<Rightarrow> block_group_info" where
  "blank_bg fi a i has_sb bm bg =
     bg\<lparr>bgi_has_superblock := has_sb, bgi_bitmaps := bm,
        bgi_header_blocks := 2 + inode_table_blocks a + bg_super_size fi a has_sb,
        bgi_first_block := bg_start fi a i, bgi_data_blocks_used := 0,
        bgi_free_blocks := blocks_per_group fi, bgi_first_free_block := 0,
        bgi_free_inodes := inodes_per_group fi, bgi_first_free_inode := 1,
        bgi_flags := EXT4_BG_INODE_UNINIT\<rparr>"

text \<open>The two reservations: the header, then the blocks past the end of the filesystem.\<close>

definition reserve_initial :: "bool \<Rightarrow> u32 \<Rightarrow> u32 \<Rightarrow> block_group_info \<Rightarrow> block_group_info res" where
  "reserve_initial fc bpg overrun bg =
     bnd (reserve_blocks fc bg (bgi_first_free_block bg) (bgi_header_blocks bg)) (\<lambda>(r, bg1).
     bnd (if r < 0 then error_then fc () else Inr ()) (\<lambda>_.
     if 0 < overrun then bnd (reserve_blocks fc bg1 (bpg - overrun) overrun) (\<lambda>(_, bg2). Inr bg2)
     else Inr bg1))"

definition init_bg :: "u32 \<Rightarrow> ext4_st \<Rightarrow> ext4_st res" where
  "init_bg i s =
     (let fi = info s; a = aux_info s;
          bm = (if oom s (mallocs s) then [] else replicate (2 * unat (block_size fi)) 0) in
      bnd (ext4_bg_has_super_block fi (sint i)) (\<lambda>has_sb.
      bnd (bg_at s i) (\<lambda>bg.
      bnd (reserve_initial (force s) (blocks_per_group fi) (bg_overrun fi a i)
             (blank_bg fi a i has_sb bm bg)) (\<lambda>bg'.
      Inr (bg_put i bg' (sparse_file_add
        (Add_Data (Bitmaps_Of (unat i)) (2 * block_size fi) (bg_start fi a i + bg_super_size fi a has_sb))
        (s\<lparr>mallocs := mallocs s + 1\<rparr>)))))))"

definition zero_bg :: block_group_info where
  "zero_bg = \<lparr>bgi_first_block = 0, bgi_header_blocks = 0, bgi_data_blocks_used = 0,
     bgi_has_superblock = False, bgi_bitmaps = [], bgi_inode_table = None, bgi_free_blocks = 0,
     bgi_first_free_block = 0, bgi_free_inodes = 0, bgi_first_free_inode = 0, bgi_flags = 0,
     bgi_used_dirs = 0\<rparr>"

definition block_allocator_init :: "ext4_st \<Rightarrow> ext4_st res" where
  "block_allocator_init s =
     (if oom s (mallocs s) then Inl Longjmp
      else for_each init_bg (map of_nat [0..<unat (groups (aux_info s))])
             (s\<lparr>aux_info := (aux_info s)\<lparr>bgs := replicate (unat (groups (aux_info s))) zero_bg\<rparr>,
                mallocs := mallocs s + 1\<rparr>))"

section \<open>Inodes\<close>

definition get_free_blocks :: "ext4_st \<Rightarrow> u32 \<Rightarrow> u32 res" where
  "get_free_blocks s bg = bnd (bg_at s bg) (\<lambda>b. Inr (bgi_free_blocks b))"

definition get_free_inodes :: "ext4_st \<Rightarrow> u32 \<Rightarrow> u32 res" where
  "get_free_inodes s bg = bnd (bg_at s bg) (\<lambda>b. Inr (bgi_free_inodes b))"

definition get_directories :: "ext4_st \<Rightarrow> u32 \<Rightarrow> u16 res" where
  "get_directories s bg = bnd (bg_at s bg) (\<lambda>b. Inr (bgi_used_dirs b))"

definition get_bg_flags :: "ext4_st \<Rightarrow> u32 \<Rightarrow> u16 res" where
  "get_bg_flags s bg = bnd (bg_at s bg) (\<lambda>b. Inr (bgi_flags b))"

text \<open>\<^verbatim>\<open>inode_bitmap[inode / 8] |= 1 << (inode % 8)\<close>, the inode bitmap starting at
  \<^verbatim>\<open>block_size\<close> in the buffer.\<close>

definition mark_inode :: "u32 \<Rightarrow> u32 \<Rightarrow> bytes \<Rightarrow> bytes res" where
  "mark_inode bs inode bm =
     (let j = unat bs + unat (inode div 8) in
      if j < length bm then Inr (bm[j := bm ! j OR bit_mask inode]) else Inl Undefined)"

definition reserve_inodes :: "u32 \<Rightarrow> u32 \<Rightarrow> ext4_st \<Rightarrow> (u32 \<times> ext4_st) res" where
  "reserve_inodes bg num s =
     bnd (bg_at s bg) (\<lambda>b.
     if bgi_free_inodes b < num then Inr (EXT4_ALLOCATE_FAILED, s)
     else bnd (for_each (\<lambda>i. mark_inode (block_size (info s)) (bgi_first_free_inode b + of_nat i - 1))
                 [0..<unat num] (bgi_bitmaps b)) (\<lambda>bm.
       Inr (bgi_first_free_inode b,
            bg_put bg (b\<lparr>bgi_bitmaps := bm, bgi_first_free_inode := bgi_first_free_inode b + num,
                         bgi_free_inodes := bgi_free_inodes b - num\<rparr>) s)))"

lemma reserve_inodes_env:
  "reserve_inodes bg n s = Inr (i, s') \<Longrightarrow> info s' = info s \<and> groups (aux_info s') = groups (aux_info s)"
  by (auto simp: reserve_inodes_def outcome_simps split: if_splits)

function allocate_inode_loop :: "u32 \<Rightarrow> ext4_st \<Rightarrow> (u32 \<times> ext4_st) res" where
  "allocate_inode_loop bg s =
     (if bg < groups (aux_info s) then
        bnd (reserve_inodes bg 1 s) (\<lambda>(inode, s').
        if inode \<noteq> EXT4_ALLOCATE_FAILED then Inr (bg * inodes_per_group (info s) + inode, s')
        else allocate_inode_loop (bg + 1) s')
      else Inr (EXT4_ALLOCATE_FAILED, s))"
  by pat_completeness auto
termination
  by (relation "measure (\<lambda>(bg, s). unat (groups (aux_info s)) - unat bg)")
    (auto simp: inc_below word_less_nat_alt dest!: reserve_inodes_env)

definition allocate_inode :: "ext4_st \<Rightarrow> (u32 \<times> ext4_st) res" where
  "allocate_inode = allocate_inode_loop 0"

text \<open>\<^verbatim>\<open>(inode - 1) / inodes_per_group\<close>, undefined for a group size of zero.\<close>

definition add_directory :: "u32 \<Rightarrow> ext4_st \<Rightarrow> ext4_st res" where
  "add_directory inode s =
     (if inodes_per_group (info s) = 0 then Inl Undefined
      else let bg = (inode - 1) div inodes_per_group (info s) in
        bnd (bg_at s bg) (\<lambda>b. Inr (bg_put bg (b\<lparr>bgi_used_dirs := bgi_used_dirs b + 1\<rparr>) s)))"

definition allocate_bg_inode_table :: "u32 \<Rightarrow> ext4_st \<Rightarrow> ext4_st res" where
  "allocate_bg_inode_table g s =
     bnd (bg_at s g) (\<lambda>bg.
     if bgi_inode_table bg \<noteq> None then Inr s
     else
       let fi = info s; a = aux_info s;
           block = bgi_first_block bg + 2 +
             (if bgi_has_superblock bg then bg_desc_blocks a + bg_desc_reserve_blocks fi + 1 else 0) in
       if oom s (mallocs s) then Inl Longjmp
       else Inr (bg_put g (bg\<lparr>
                bgi_inode_table := Some (replicate (unat (inode_table_blocks a) * unat (block_size fi)) 0),
                bgi_flags := bgi_flags bg AND NOT EXT4_BG_INODE_UNINIT\<rparr>)
              (sparse_file_add (Add_Data (Inode_Table_Of (unat g)) (inode_table_blocks a * block_size fi) block)
                (s\<lparr>mallocs := mallocs s + 1\<rparr>))))"

definition get_inode :: "u32 \<Rightarrow> ext4_st \<Rightarrow> (inode_ptr \<times> ext4_st) res" where
  "get_inode inode s =
     (let ipg = inodes_per_group (info s); n = inode - 1 in
      if ipg = 0 then Inl Undefined
      else bnd (allocate_bg_inode_table (n div ipg) s) (\<lambda>s'.
        Inr ((unat (n div ipg), unat (n mod ipg * inode_size (info s))), s')))"

section \<open>The group invariant\<close>

text \<open>
  The free blocks of a group are one contiguous run, from \<^verbatim>\<open>first_free_block\<close>, and the
  bitmap marks exactly the others.
\<close>

definition group_ok :: "nat \<Rightarrow> nat \<Rightarrow> block_group_info \<Rightarrow> bool" where
  "group_ok bs bpg bg \<longleftrightarrow> length (bgi_bitmaps bg) = 2 * bs \<and> bpg \<le> 8 * bs \<and> 16 * bs + 16 < 2 ^ 32 \<and>
     unat (bgi_first_block bg) + bpg < 2 ^ 32 - 1 \<and>
     unat (bgi_first_free_block bg) + unat (bgi_free_blocks bg) \<le> bpg \<and>
     bits (bgi_bitmaps bg) \<inter> {..<bpg} =
       {..<bpg} - {unat (bgi_first_free_block bg)..<unat (bgi_first_free_block bg) + unat (bgi_free_blocks bg)}"

text \<open>Block numbers of the filesystem that a group has handed out or never had free.\<close>

definition used_blocks :: "nat \<Rightarrow> block_group_info \<Rightarrow> nat set" where
  "used_blocks bpg bg = (+) (unat (bgi_first_block bg)) ` (bits (bgi_bitmaps bg) \<inter> {..<bpg})"

lemma reserve_first_free:
  assumes ok: "group_ok bs bpg bg" and len: "unat len \<le> unat (bgi_free_blocks bg)"
  obtains bm where
    "reserve_blocks fc bg (bgi_first_free_block bg) len =
       Inr (0, bg\<lparr>bgi_bitmaps := bm, bgi_free_blocks := bgi_free_blocks bg - len,
                  bgi_first_free_block := bgi_first_free_block bg + len\<rparr>)"
    and "bits bm = bits (bgi_bitmaps bg) \<union>
           {unat (bgi_first_free_block bg)..<unat (bgi_first_free_block bg) + unat len}"
    and "group_ok bs bpg (bg\<lparr>bgi_bitmaps := bm, bgi_free_blocks := bgi_free_blocks bg - len,
                  bgi_first_free_block := bgi_first_free_block bg + len\<rparr>)"
proof -
  let ?f = "unat (bgi_first_free_block bg)" and ?n = "unat (bgi_free_blocks bg)"
  have le: "len \<le> bgi_free_blocks bg" using len by (simp add: word_le_nat_alt)
  have fn: "?f + ?n \<le> bpg" "bpg \<le> 8 * bs" "length (bgi_bitmaps bg) = 2 * bs"
    using ok by (simp_all add: group_ok_def)
  have fits: "?f + unat len \<le> 8 * length (bgi_bitmaps bg)" using fn len by simp
  have small: "8 * length (bgi_bitmaps bg) + 16 < 2 ^ 32" using ok by (simp add: group_ok_def)
  have sub: "{?f..<?f + unat len} \<subseteq> {..<bpg}" using fn len by auto
  have e: "bits (bgi_bitmaps bg) \<inter> {..<bpg} = {..<bpg} - {?f..<?f + ?n}" using ok by (simp add: group_ok_def)
  have free: "bits (bgi_bitmaps bg) \<inter> {?f..<?f + unat len} = {}"
    using sub e len by fastforce
  obtain bm where r0: "reserve_blocks fc bg (bgi_first_free_block bg) len =
       Inr (0, bg\<lparr>bgi_bitmaps := bm, bgi_free_blocks := bgi_free_blocks bg - len,
                  bgi_first_free_block := (if bgi_first_free_block bg = bgi_first_free_block bg
                    then bgi_first_free_block bg + len else bgi_first_free_block bg)\<rparr>)"
    and b: "bits bm = bits (bgi_bitmaps bg) \<union> {?f..<?f + unat len}" and l: "length bm = length (bgi_bitmaps bg)"
    using reserve_blocks_ok [OF le fits small free] .
  have r: "reserve_blocks fc bg (bgi_first_free_block bg) len =
       Inr (0, bg\<lparr>bgi_bitmaps := bm, bgi_free_blocks := bgi_free_blocks bg - len,
                  bgi_first_free_block := bgi_first_free_block bg + len\<rparr>)"
    using r0 by simp
  have u: "unat (bgi_first_free_block bg + len) = ?f + unat len" "unat (bgi_free_blocks bg - len) = ?n - unat len"
    using ok len fits small le by (simp_all add: unat_add_le unat_sub)
  have "bits bm \<inter> {..<bpg} = ({..<bpg} - {?f..<?f + ?n}) \<union> {?f..<?f + unat len}"
    unfolding b Int_Un_distrib2 e using sub by auto
  also have "\<dots> = {..<bpg} - {?f + unat len..<?f + ?n}" using len fn by auto
  finally have "group_ok bs bpg (bg\<lparr>bgi_bitmaps := bm, bgi_free_blocks := bgi_free_blocks bg - len,
                  bgi_first_free_block := bgi_first_free_block bg + len\<rparr>)"
    using ok len u l by (simp add: group_ok_def)
  then show ?thesis using that r b by blast
qed

lemma free_blocks_group:
  assumes ok: "group_ok bs bpg bg" and num: "unat num \<le> unat (bgi_first_free_block bg)"
  obtains bm where
    "free_blocks bg num = Inr (bg\<lparr>bgi_bitmaps := bm, bgi_free_blocks := bgi_free_blocks bg + num,
                                  bgi_first_free_block := bgi_first_free_block bg - num\<rparr>)"
    and "bits bm = bits (bgi_bitmaps bg) -
           {unat (bgi_first_free_block bg) - unat num..<unat (bgi_first_free_block bg)}"
    and "group_ok bs bpg (bg\<lparr>bgi_bitmaps := bm, bgi_free_blocks := bgi_free_blocks bg + num,
                                  bgi_first_free_block := bgi_first_free_block bg - num\<rparr>)"
proof -
  let ?f = "unat (bgi_first_free_block bg)" and ?n = "unat (bgi_free_blocks bg)"
  have fl: "?f \<le> 8 * length (bgi_bitmaps bg)" using ok by (auto simp: group_ok_def)
  obtain bm where r: "free_blocks bg num = Inr (bg\<lparr>bgi_bitmaps := bm, bgi_free_blocks := bgi_free_blocks bg + num,
                                  bgi_first_free_block := bgi_first_free_block bg - num\<rparr>)"
    and b: "bits bm = bits (bgi_bitmaps bg) - {?f - unat num..<?f}" and l: "length bm = length (bgi_bitmaps bg)"
    using free_blocks_ok [OF num fl] .
  have e: "bits (bgi_bitmaps bg) \<inter> {..<bpg} = {..<bpg} - {?f..<?f + ?n}" using ok by (simp add: group_ok_def)
  have fb: "?f + ?n \<le> bpg" "bpg < 2 ^ 32" using ok by (auto simp: group_ok_def)
  have u: "unat (bgi_first_free_block bg - num) = ?f - unat num" "unat (bgi_free_blocks bg + num) = ?n + unat num"
    using num fb by (simp_all add: unat_add_le unat_sub word_le_nat_alt)
  have "bits bm \<inter> {..<bpg} = ({..<bpg} - {?f..<?f + ?n}) - {?f - unat num..<?f}"
    using b e by auto
  also have "\<dots> = {..<bpg} - {?f - unat num..<?f - unat num + (?n + unat num)}"
    using num by auto
  finally have "group_ok bs bpg (bg\<lparr>bgi_bitmaps := bm, bgi_free_blocks := bgi_free_blocks bg + num,
                                  bgi_first_free_block := bgi_first_free_block bg - num\<rparr>)"
    using ok num u l fb by (simp add: group_ok_def)
  then show ?thesis using that r b by blast
qed

section \<open>Initialisation\<close>

definition geometry_ok :: "fs_info \<Rightarrow> fs_aux_info \<Rightarrow> bool" where
  "geometry_ok fi a \<longleftrightarrow>
     (let bs = unat (block_size fi); bpg = unat (blocks_per_group fi) in
      bpg \<le> 8 * bs \<and> 16 * bs + 16 < 2 ^ 32 \<and> unat (len_blocks a) + bpg < 2 ^ 32 \<and>
      unat (inodes_per_group fi) \<le> 8 * bs \<and>
      unat (first_data_block a) + unat (groups a) * bpg < 2 ^ 32 - 1 \<and>
      (\<forall>g < unat (groups a). group_header fi a g \<le> bpg \<and>
         unat (first_data_block a) + g * bpg + group_header fi a g \<le> unat (len_blocks a)))"

text \<open>The blocks a new group starts with in use: its header and what lies past the end.\<close>

definition initial_blocks :: "fs_info \<Rightarrow> fs_aux_info \<Rightarrow> nat \<Rightarrow> nat set" where
  "initial_blocks fi a g =
     {..<group_header fi a g} \<union>
     {unat (len_blocks a) - (unat (first_data_block a) + g * unat (blocks_per_group fi))..<unat (blocks_per_group fi)}"

lemma geometryD:
  assumes "geometry_ok fi a" and "g < unat (groups a)"
  shows "2 \<le> unat (blocks_per_group fi)" and "g < 2 ^ 31"
    and "unat (first_data_block a) + g * unat (blocks_per_group fi) + unat (blocks_per_group fi) < 2 ^ 32 - 1"
proof -
  let ?B = "unat (blocks_per_group fi)"
  have h: "group_header fi a g \<le> ?B" using assms by (simp add: geometry_ok_def Let_def)
  then show b: "2 \<le> ?B" by (simp add: group_header_def split: if_splits)
  have "(g + 1) * ?B \<le> unat (groups a) * ?B" using assms(2) by (intro mult_le_mono1) simp
  moreover have "unat (first_data_block a) + unat (groups a) * ?B < 2 ^ 32 - 1"
    using assms by (simp add: geometry_ok_def Let_def)
  ultimately show l: "unat (first_data_block a) + g * ?B + ?B < 2 ^ 32 - 1" by simp
  have "g * 2 \<le> g * ?B" using b by (intro mult_le_mono2)
  then have "g * 2 < 2 ^ 32" using l by linarith
  then show "g < 2 ^ 31" by simp
qed


text \<open>The overrun is positive for the last group only: for the others it wraps to more than the
  group has free, and \<^verbatim>\<open>reserve_blocks\<close> refuses it.\<close>

lemma unat_overrun:
  fixes e :: u32 and l :: u64
  assumes "unat l < 2 ^ 32"
  shows "unat (ucast (ucast e - l) :: u32) =
    (if unat l \<le> unat e then unat e - unat l else 2 ^ 32 - (unat l - unat e))"
proof -
  have e: "unat (ucast e :: u64) = unat e" by (simp add: unat_ucast_upcast)
  show ?thesis
  proof (cases "unat l \<le> unat e")
    case True
    then have "unat (ucast e - l :: u64) = unat e - unat l" using e by (simp add: unat_sub word_le_nat_alt)
    then show ?thesis using True unat_u32 [of e] by (simp add: unsigned_ucast_eq take_bit_nat_eq_self)
  next
    case False
    then have "unat (ucast e - l :: u64) = 2 ^ 64 + unat e - unat l"
      using e by (simp add: unat_sub_if_size word_size)
    also have "\<dots> = (2 ^ 32 - 1) * 2 ^ 32 + (2 ^ 32 - (unat l - unat e))" using False assms by simp
    finally have "unat (ucast e - l :: u64) mod 2 ^ 32 = (2 ^ 32 - (unat l - unat e)) mod 2 ^ 32"
      by (simp only: mod_mult_self3)
    then show ?thesis using False by (simp add: unsigned_ucast_eq take_bit_eq_mod)
  qed
qed

lemma reserve_initial_ok:
  assumes ok: "group_ok bs (unat bpg) bg" and z: "bits (bgi_bitmaps bg) = {}"
    and f0: "bgi_first_free_block bg = 0" and fr: "bgi_free_blocks bg = bpg"
    and h: "unat (bgi_header_blocks bg) \<le> unat bpg"
    and o: "unat overrun \<le> unat bpg - unat (bgi_header_blocks bg) \<or> unat bpg < unat overrun"
  obtains bg' where "reserve_initial fc bpg overrun bg = Inr bg'" and "group_ok bs (unat bpg) bg'"
    and "bits (bgi_bitmaps bg') = {..<unat (bgi_header_blocks bg)} \<union>
           (if unat bpg < unat overrun then {} else {unat bpg - unat overrun..<unat bpg})"
    and "bgi_first_block bg' = bgi_first_block bg" and "bgi_free_inodes bg' = bgi_free_inodes bg"
    and "bgi_first_free_inode bg' = bgi_first_free_inode bg" and "bgi_data_blocks_used bg' = bgi_data_blocks_used bg"
    and "bgi_inode_table bg' = bgi_inode_table bg"
proof -
  let ?H = "bgi_header_blocks bg" and ?B = "unat bpg"
  obtain bm1 where r1: "reserve_blocks fc bg (bgi_first_free_block bg) ?H =
       Inr (0, bg\<lparr>bgi_bitmaps := bm1, bgi_free_blocks := bgi_free_blocks bg - ?H,
                  bgi_first_free_block := bgi_first_free_block bg + ?H\<rparr>)"
    and b1: "bits bm1 = bits (bgi_bitmaps bg) \<union>
           {unat (bgi_first_free_block bg)..<unat (bgi_first_free_block bg) + unat ?H}"
    and ok1: "group_ok bs ?B (bg\<lparr>bgi_bitmaps := bm1, bgi_free_blocks := bgi_free_blocks bg - ?H,
                  bgi_first_free_block := bgi_first_free_block bg + ?H\<rparr>)"
    using reserve_first_free [OF ok, of ?H] h fr by metis
  define bg1 where "bg1 = bg\<lparr>bgi_bitmaps := bm1, bgi_free_blocks := bpg - ?H, bgi_first_free_block := ?H\<rparr>"
  have bits1: "bits (bgi_bitmaps bg1) = {..<unat ?H}" using b1 z f0 by (auto simp: bg1_def)
  have ok1': "group_ok bs ?B bg1" using ok1 f0 fr by (simp add: bg1_def)
  have step: "reserve_initial fc bpg overrun bg =
      (if 0 < overrun then bnd (reserve_blocks fc bg1 (bpg - overrun) overrun) (\<lambda>(_, bg2). Inr bg2)
       else Inr bg1)"
    using r1 f0 fr by (simp add: reserve_initial_def bg1_def)
  have ufree: "unat (bgi_free_blocks bg1) = ?B - unat ?H" using h by (simp add: bg1_def unat_sub word_le_nat_alt)
  consider (none) "overrun = 0" | (wraps) "?B < unat overrun" | (last) "overrun \<noteq> 0" "unat overrun \<le> ?B - unat ?H"
    using o by auto
  then show ?thesis
  proof cases
    case none
    then show ?thesis using that [of bg1] step ok1' bits1 by (simp add: bg1_def)
  next
    case wraps
    then have "bgi_free_blocks bg1 < overrun" using ufree by (simp add: word_less_nat_alt)
    then have "reserve_initial fc bpg overrun bg = Inr bg1"
      using step by (simp add: reserve_blocks_full word_neq_0_conv [symmetric] del: word_neq_0_conv)
    then show ?thesis using that [of bg1] ok1' bits1 wraps by (simp add: bg1_def)
  next
    case last
    have us: "unat (bpg - overrun) = ?B - unat overrun" using last by (simp add: unat_sub word_le_nat_alt)
    have rng: "{unat (bpg - overrun)..<unat (bpg - overrun) + unat overrun} = {?B - unat overrun..<?B}"
      using us last by auto
    have le: "overrun \<le> bgi_free_blocks bg1" using ufree last by (simp add: word_le_nat_alt)
    have len: "length (bgi_bitmaps bg1) = 2 * bs" "?B \<le> 8 * bs" "16 * bs + 16 < 2 ^ 32" "unat (bgi_first_block bg1) + ?B < 2 ^ 32 - 1"
      using ok1' by (auto simp: group_ok_def)
    have fits: "unat (bpg - overrun) + unat overrun \<le> 8 * length (bgi_bitmaps bg1)"
      using us last len by auto
    have small: "8 * length (bgi_bitmaps bg1) + 16 < 2 ^ 32" using len by simp
    have disj: "bits (bgi_bitmaps bg1) \<inter> {unat (bpg - overrun)..<unat (bpg - overrun) + unat overrun} = {}"
      unfolding rng bits1 using last by auto
    obtain bm2 where r2: "reserve_blocks fc bg1 (bpg - overrun) overrun = Inr (0, bg1\<lparr>bgi_bitmaps := bm2,
        bgi_free_blocks := bgi_free_blocks bg1 - overrun,
        bgi_first_free_block := (if bpg - overrun = bgi_first_free_block bg1 then bpg - overrun + overrun
                                 else bgi_first_free_block bg1)\<rparr>)"
      and b2: "bits bm2 = bits (bgi_bitmaps bg1) \<union> {unat (bpg - overrun)..<unat (bpg - overrun) + unat overrun}"
      and l2: "length bm2 = length (bgi_bitmaps bg1)"
      using reserve_blocks_ok [OF le fits small disj] .
    define bg2 where "bg2 = bg1\<lparr>bgi_bitmaps := bm2, bgi_free_blocks := bgi_free_blocks bg1 - overrun,
        bgi_first_free_block := (if bpg - overrun = bgi_first_free_block bg1 then bpg - overrun + overrun
                                 else bgi_first_free_block bg1)\<rparr>"
    have u2: "unat (bgi_free_blocks bg2) = ?B - unat ?H - unat overrun"
      using le ufree by (simp add: bg2_def unat_sub)
    have f2: "unat (bgi_first_free_block bg2) = (if ?B - unat overrun = unat ?H then ?B else unat ?H)"
      using us by (auto simp: bg2_def bg1_def word_unat_eq_iff)
    have bits2: "bits (bgi_bitmaps bg2) = {..<unat ?H} \<union> {?B - unat overrun..<?B}"
      using b2 rng bits1 by (simp add: bg2_def)
    have "group_ok bs ?B bg2"
      unfolding group_ok_def bits2 u2 f2 using len l2 last h by (auto simp: bg2_def)
    moreover have "reserve_initial fc bpg overrun bg = Inr bg2"
      using step r2 last by (simp add: bg2_def word_neq_0_conv [symmetric] del: word_neq_0_conv)
    ultimately show ?thesis using that [of bg2] bits2 last h by (auto simp: bg2_def bg1_def)
  qed
qed


lemma unat_bg_header:
  assumes "group_header fi a g \<le> unat (blocks_per_group fi)"
  shows "unat (2 + inode_table_blocks a + bg_super_size fi a (holds_super fi (int g))) = group_header fi a g"
  using assms unat_u32 [of "blocks_per_group fi"]
  by (auto simp: bg_super_size_def group_header_def unat_word_ariths)

text \<open>The inodes of a group: the bitmap marks those below the first free one.\<close>

definition inode_ok :: "nat \<Rightarrow> nat \<Rightarrow> block_group_info \<Rightarrow> bool" where
  "inode_ok bs ipg bg \<longleftrightarrow> ipg \<le> 8 * bs \<and> length (bgi_bitmaps bg) = 2 * bs \<and>
     unat (bgi_first_free_inode bg) + unat (bgi_free_inodes bg) = ipg + 1 \<and> 1 \<le> unat (bgi_first_free_inode bg) \<and>
     bits (bgi_bitmaps bg) \<inter> {8 * bs..} = {8 * bs..<8 * bs + (unat (bgi_first_free_inode bg) - 1)}"

text \<open>The invariant of the allocator's state.\<close>

definition bg_ok :: "fs_info \<Rightarrow> fs_aux_info \<Rightarrow> nat \<Rightarrow> block_group_info \<Rightarrow> bool" where
  "bg_ok fi a g bg \<longleftrightarrow>
     group_ok (unat (block_size fi)) (unat (blocks_per_group fi)) bg \<and>
     inode_ok (unat (block_size fi)) (unat (inodes_per_group fi)) bg \<and>
     unat (bgi_first_block bg) = unat (first_data_block a) + g * unat (blocks_per_group fi)"

definition alloc_ok :: "ext4_st \<Rightarrow> bool" where
  "alloc_ok s \<longleftrightarrow> length (bgs (aux_info s)) = unat (groups (aux_info s)) \<and>
     (\<forall>g < unat (groups (aux_info s)). bg_ok (info s) (aux_info s) g (bgs (aux_info s) ! g))"

lemma bg_ok_bgs [simp]: "bg_ok fi (a\<lparr>bgs := x\<rparr>) g bg = bg_ok fi a g bg"
  by (simp add: bg_ok_def)

lemma init_bg_ok:
  assumes geo: "geometry_ok (info s) (aux_info s)" and g: "g < unat (groups (aux_info s))"
    and l: "length (bgs (aux_info s)) = unat (groups (aux_info s))" and m: "\<not> oom s (mallocs s)"
  obtains bg s1 where "init_bg (of_nat g) s = Inr (bg_put (of_nat g) bg s1)"
    and "aux_info s1 = aux_info s" and "info s1 = info s" and "oom s1 = oom s" and "regions s1 = regions s"
    and "bgi_data_blocks_used bg = 0" and "bg_ok (info s) (aux_info s) g bg"
    and "bits (bgi_bitmaps bg) = initial_blocks (info s) (aux_info s) g"
proof -
  let ?fi = "info s" and ?a = "aux_info s" and ?i = "of_nat g :: u32"
  let ?B = "unat (blocks_per_group ?fi)" and ?S = "unat (block_size ?fi)" and ?L = "unat (len_blocks ?a)"
  let ?h = "holds_super ?fi (int g)" and ?H = "group_header ?fi ?a g"
  note gd = geometryD [OF geo g]
  have geo': "?B \<le> 8 * ?S" "16 * ?S + 16 < 2 ^ 32" "?L + ?B < 2 ^ 32" "?H \<le> ?B"
     "unat (first_data_block ?a) + g * ?B + ?H \<le> ?L" "unat (inodes_per_group ?fi) \<le> 8 * ?S"
    using geo g by (simp_all add: geometry_ok_def Let_def)
  have ug: "unat ?i = g" using gd(2) by (simp add: unat_of_nat)
  have sg: "sint ?i = int g" using gd(2) ug sint_small [of ?i] by simp
  have us: "unat (bg_start ?fi ?a ?i) = unat (first_data_block ?a) + g * ?B"
    using gd(3) ug by (simp add: bg_start_def unat_add_le unat_mult_small)
  have ue: "unat (bg_start ?fi ?a ?i + blocks_per_group ?fi) = unat (bg_start ?fi ?a ?i) + ?B"
    using gd(3) us by (simp add: unat_add_le)
  have uo: "unat (bg_overrun ?fi ?a ?i) =
     (if ?L \<le> unat (bg_start ?fi ?a ?i) + ?B then unat (bg_start ?fi ?a ?i) + ?B - ?L
      else 2 ^ 32 - (?L - (unat (bg_start ?fi ?a ?i) + ?B)))"
    unfolding bg_overrun_def using geo'(3) by (subst unat_overrun) (simp_all add: ue)
  define bg0 where "bg0 = blank_bg ?fi ?a ?i ?h (replicate (2 * ?S) 0) (bgs ?a ! g)"
  have hd: "unat (bgi_header_blocks bg0) = ?H"
    using unat_bg_header [OF geo'(4)] by (simp add: bg0_def blank_bg_def)
  have ok0: "group_ok ?S ?B bg0" using geo' gd us by (auto simp: group_ok_def bg0_def blank_bg_def)
  have z: "bits (bgi_bitmaps bg0) = {}" "bgi_first_free_block bg0 = 0" "bgi_free_blocks bg0 = blocks_per_group ?fi"
    by (simp_all add: bg0_def blank_bg_def)
  have hle: "unat (bgi_header_blocks bg0) \<le> ?B" using hd geo'(4) by simp
  have over: "unat (bg_overrun ?fi ?a ?i) \<le> ?B - unat (bgi_header_blocks bg0) \<or> ?B < unat (bg_overrun ?fi ?a ?i)"
    unfolding hd uo using geo'(3-5) us by auto
  obtain bg where r: "reserve_initial (force s) (blocks_per_group ?fi) (bg_overrun ?fi ?a ?i) bg0 = Inr bg"
    and ok: "group_ok ?S ?B bg"
    and b: "bits (bgi_bitmaps bg) = {..<unat (bgi_header_blocks bg0)} \<union>
           (if ?B < unat (bg_overrun ?fi ?a ?i) then {} else {?B - unat (bg_overrun ?fi ?a ?i)..<?B})"
    and f: "bgi_first_block bg = bgi_first_block bg0" "bgi_free_inodes bg = bgi_free_inodes bg0"
      "bgi_first_free_inode bg = bgi_first_free_inode bg0"
      "bgi_data_blocks_used bg = bgi_data_blocks_used bg0" "bgi_inode_table bg = bgi_inode_table bg0"
    using reserve_initial_ok [OF ok0 z(1-3) hle over] .
  have b': "bits (bgi_bitmaps bg) = initial_blocks ?fi ?a g"
    unfolding b hd initial_blocks_def uo us using geo'(3,5) by auto
  have sub: "initial_blocks ?fi ?a g \<subseteq> {..<8 * ?S}" using geo' by (auto simp: initial_blocks_def)
  have "inode_ok ?S (unat (inodes_per_group ?fi)) bg"
    using ok f geo'(6) sub by (auto simp: inode_ok_def group_ok_def b' bg0_def blank_bg_def)
  then have bok: "bg_ok ?fi ?a g bg" using ok f us by (simp add: bg_ok_def bg0_def blank_bg_def)
  have run: "init_bg ?i s = Inr (bg_put ?i bg (sparse_file_add
        (Add_Data (Bitmaps_Of g) (2 * block_size ?fi) (bg_start ?fi ?a ?i + bg_super_size ?fi ?a ?h))
        (s\<lparr>mallocs := mallocs s + 1\<rparr>)))"
    using g l m r by (simp add: init_bg_def Let_def has_super_block_iff sg bg_at_def ug flip: bg0_def)
  show ?thesis using that [OF run] bok b' f(4) by (simp add: bg0_def blank_bg_def)
qed


text \<open>The state after the geometry of \<^const>\<open>sample_fs_info\<close> was computed: two groups.\<close>

definition sample_st :: ext4_st where
  "sample_st = (start_st sample_fs_info)\<lparr>aux_info := empty_aux\<lparr>len_blocks := 40000,
     inode_table_blocks := 512, groups := 2, bg_desc_blocks := 1\<rparr>\<rparr>"

lemma sample_geometry_ok:
  "geometry_ok (info sample_st) (aux_info sample_st)" "\<forall>n. \<not> oom sample_st n"
  "unat (groups (aux_info sample_st)) = 2" "unat (inodes_per_group (info sample_st)) = 8192"
  by (simp_all add: sample_st_def geometry_ok_def group_header_def holds_super_def empty_aux_def
      sample_fs_info_def all_less_two Let_def)

lemma block_allocator_init_all:
  assumes geo: "geometry_ok (info s) (aux_info s)" and no_oom: "\<forall>n. \<not> oom s n"
  shows "\<exists>s' x. block_allocator_init s = Inr s' \<and> alloc_ok s' \<and> info s' = info s \<and>
           aux_info s' = (aux_info s)\<lparr>bgs := x\<rparr> \<and> regions s' = regions s \<and> oom s' = oom s \<and>
           (\<forall>g < unat (groups (aux_info s)). bgi_data_blocks_used (bgs (aux_info s') ! g) = 0 \<and>
              bits (bgi_bitmaps (bgs (aux_info s') ! g)) = initial_blocks (info s) (aux_info s) g)"
proof -
  let ?G = "unat (groups (aux_info s))"
  define s0 where "s0 = s\<lparr>aux_info := (aux_info s)\<lparr>bgs := replicate ?G zero_bg\<rparr>, mallocs := mallocs s + 1\<rparr>"
  define P where "P = (\<lambda>(done :: u32 list) (t :: ext4_st). info t = info s \<and> oom t = oom s \<and> regions t = regions s \<and>
     (\<exists>bs. aux_info t = (aux_info s)\<lparr>bgs := bs\<rparr> \<and> length bs = ?G \<and>
       (\<forall>g < length done. bg_ok (info s) (aux_info s) g (bs ! g) \<and> bgi_data_blocks_used (bs ! g) = 0 \<and>
          bits (bgi_bitmaps (bs ! g)) = initial_blocks (info s) (aux_info s) g)))"
  have geo_bgs: "geometry_ok fi (a\<lparr>bgs := x\<rparr>) = geometry_ok fi a"
      "initial_blocks fi (a\<lparr>bgs := x\<rparr>) = initial_blocks fi a" for fi :: fs_info and a :: fs_aux_info and x
    by (simp_all add: geometry_ok_def initial_blocks_def group_header_def fun_eq_iff)
  have "\<exists>s'. for_each init_bg (map of_nat [0..<?G]) s0 = Inr s' \<and> P (map of_nat [0..<?G]) s'"
  proof (rule for_each_invariant)
    show "P [] s0" by (auto simp: P_def s0_def intro!: exI [of _ "replicate ?G zero_bg"])
  next
    fix ys :: "u32 list" and x rest t
    assume split: "map of_nat [0..<?G] = ys @ x # rest" and inv: "P ys t"
    let ?g = "length ys"
    have "length (map (of_nat :: nat \<Rightarrow> u32) [0..<?G]) = length (ys @ x # rest)" using split by simp
    then have g: "?g < ?G" by simp
    have "x = (ys @ x # rest) ! ?g" by simp
    also have "\<dots> = of_nat ?g" using split [symmetric] g by simp
    finally have x: "x = of_nat ?g" .
    obtain bs where t: "aux_info t = (aux_info s)\<lparr>bgs := bs\<rparr>" "length bs = ?G" "info t = info s" "oom t = oom s" "regions t = regions s"
      and old: "\<forall>g < ?g. bg_ok (info s) (aux_info s) g (bs ! g) \<and> bgi_data_blocks_used (bs ! g) = 0 \<and>
          bits (bgi_bitmaps (bs ! g)) = initial_blocks (info s) (aux_info s) g"
      using inv by (auto simp: P_def)
    obtain bg s1 where r: "init_bg (of_nat ?g) t = Inr (bg_put (of_nat ?g) bg s1)"
      and s1: "aux_info s1 = aux_info t" "info s1 = info t" "oom s1 = oom t" "regions s1 = regions t"
      and d: "bgi_data_blocks_used bg = 0"
      and ok: "bg_ok (info t) (aux_info t) ?g bg"
      and b: "bits (bgi_bitmaps bg) = initial_blocks (info t) (aux_info t) ?g"
      using init_bg_ok [of t ?g] geo no_oom t g by (auto simp: geo_bgs)
    have u: "unat (of_nat ?g :: u32) = ?g" using g unat_u32 [of "groups (aux_info s)"] by (simp add: unat_of_nat)
    have "P (ys @ [x]) (bg_put x bg s1)"
      using t s1 old ok b d g u by (auto simp: P_def x nth_list_update geo_bgs less_Suc_eq)
    then show "\<exists>s'. init_bg x t = Inr s' \<and> P (ys @ [x]) s'" using r x by blast
  qed
  then obtain s' where "for_each init_bg (map of_nat [0..<?G]) s0 = Inr s'" "P (map of_nat [0..<?G]) s'" by blast
  then show ?thesis
    using no_oom by (auto simp: block_allocator_init_def s0_def P_def alloc_ok_def)
qed


text \<open>
  C28. Building the block groups of a filesystem whose headers fit succeeds, and leaves every group
  with exactly its header blocks and the blocks past the end of the filesystem marked, the free
  blocks one contiguous run, and all inodes free.
\<close>

theorem block_allocator_init_ok:
  assumes geo: "geometry_ok (info s) (aux_info s)" and no_oom: "\<forall>n. \<not> oom s n"
  shows "\<exists>s' x. block_allocator_init s = Inr s' \<and> alloc_ok s' \<and> info s' = info s \<and>
           aux_info s' = (aux_info s)\<lparr>bgs := x\<rparr> \<and>
           (\<forall>g < unat (groups (aux_info s)).
              bits (bgi_bitmaps (bgs (aux_info s') ! g)) = initial_blocks (info s) (aux_info s) g)"
  using block_allocator_init_all [OF assms] by blast

theorem block_allocator_init_ok_witness:
  "\<exists>s'. block_allocator_init sample_st = Inr s' \<and> alloc_ok s' \<and>
     bits (bgi_bitmaps (bgs (aux_info s') ! 1)) = {..<523} \<union> {7232..<32768}"
proof -
  have "initial_blocks (info sample_st) (aux_info sample_st) 1 = {..<523} \<union> {7232..<32768}"
    by (simp add: initial_blocks_def group_header_def holds_super_def sample_st_def sample_fs_info_def empty_aux_def)
  then show ?thesis
    using block_allocator_init_ok [OF sample_geometry_ok(1,2)] sample_geometry_ok(3) by fastforce
qed

section \<open>Inode allocation\<close>

lemma mark_inode_ok:
  assumes "8 * unat bs + unat inode < 8 * length bm"
  shows "\<exists>bm'. mark_inode bs inode bm = Inr bm' \<and> length bm' = length bm \<and>
           bits bm' = insert (8 * unat bs + unat inode) (bits bm)"
proof -
  let ?j = "unat bs + unat inode div 8"
  have j: "?j < length bm" using assms by linarith
  have e: "m = 8 * unat bs + unat inode" if "m div 8 = ?j" "m mod 8 = unat inode mod 8" for m
    using that by (metis (no_types, lifting) add.assoc add_mult_distrib2 mult_div_mod_eq)
  have "bits (bm[?j := bm ! ?j OR bit_mask inode]) = insert (8 * unat bs + unat inode) (bits bm)"
    unfolding bits_update [OF j] using j assms
    by (auto simp: bits_def bit_or_iff bit_bit_mask simp flip: div8_bound dest: e)
  then show ?thesis using j by (simp add: mark_inode_def Let_def)
qed

lemma mark_inodes_ok:
  assumes "8 * unat bs + (unat first - 1) + n \<le> 8 * length bm" and "1 \<le> unat first" and "unat first + n < 2 ^ 32"
  shows "\<exists>bm'. for_each (\<lambda>i. mark_inode bs (first + of_nat i - 1)) [0..<n] bm = Inr bm' \<and>
           length bm' = length bm \<and>
           bits bm' = bits bm \<union> {8 * unat bs + (unat first - 1)..<8 * unat bs + (unat first - 1) + n}"
proof -
  define m where "m = 8 * unat bs + (unat first - 1)"
  define P where "P = (\<lambda>(ys :: nat list) bm'. length bm' = length bm \<and>
    bits bm' = bits bm \<union> {m..<m + length ys})"
  have "\<exists>bm'. for_each (\<lambda>i. mark_inode bs (first + of_nat i - 1)) [0..<n] bm = Inr bm' \<and> P [0..<n] bm'"
  proof (rule for_each_invariant)
    show "P [] bm" by (simp add: P_def)
  next
    fix ys x rest t assume split: "[0..<n] = ys @ x # rest" and inv: "P ys t"
    have x: "x = length ys" and lt: "x < n"
      using split by (metis add_0 length_append length_upt list.size(4) nth_append_length nth_upt
          add_Suc_right diff_zero less_add_Suc1)+
    have u1: "unat (first + of_nat x) = unat first + x" using assms(3) lt by (intro unat_add_of_nat) simp
    then have "first + of_nat x \<noteq> 0" using assms(2) by auto
    then have u: "unat (first + of_nat x - 1) = unat first - 1 + x" using u1 assms(2) by (simp add: unat_minus_one)
    have um: "8 * unat bs + unat (first + of_nat x - 1) = m + x" by (simp add: u m_def)
    have mx: "m + x < 8 * length t" using assms(1) lt inv by (simp add: P_def m_def)
    obtain t' where t': "mark_inode bs (first + of_nat x - 1) t = Inr t'" "length t' = length t"
      "bits t' = insert (m + x) (bits t)"
      using mark_inode_ok [of bs "first + of_nat x - 1" t, unfolded um, OF mx] by blast
    have "P (ys @ [x]) t'" using t' inv x by (auto simp: P_def)
    then show "\<exists>s'. mark_inode bs (first + of_nat x - 1) t = Inr s' \<and> P (ys @ [x]) s'"
      using t'(1) by blast
  qed
  then show ?thesis by (simp add: P_def m_def)
qed

text \<open>What inode allocation leaves alone: the block side of every group, and all but the groups.\<close>

definition block_side_same :: "nat \<Rightarrow> block_group_info \<Rightarrow> block_group_info \<Rightarrow> bool" where
  "block_side_same bpg bg bg' \<longleftrightarrow> bgi_first_block bg' = bgi_first_block bg \<and>
     bgi_free_blocks bg' = bgi_free_blocks bg \<and> bgi_data_blocks_used bg' = bgi_data_blocks_used bg \<and>
     bits (bgi_bitmaps bg') \<inter> {..<bpg} = bits (bgi_bitmaps bg) \<inter> {..<bpg}"

definition keeps_blocks :: "ext4_st \<Rightarrow> ext4_st \<Rightarrow> bool" where
  "keeps_blocks s s' \<longleftrightarrow> (\<exists>x. s' = s\<lparr>aux_info := (aux_info s)\<lparr>bgs := x\<rparr>\<rparr> \<and>
     list_all2 (block_side_same (unat (blocks_per_group (info s)))) (bgs (aux_info s)) x)"

lemma block_side_same_refl: "block_side_same n bg bg"
  by (simp add: block_side_same_def)

lemma keeps_blocks_refl [simp]: "keeps_blocks s s"
  unfolding keeps_blocks_def
  by (rule exI [of _ "bgs (aux_info s)"]) (simp add: list_all2_conv_all_nth block_side_same_def)

lemma keeps_blocks_put:
  assumes "block_side_same (unat (blocks_per_group (info s))) (bgs (aux_info s) ! unat i) bg"
  shows "keeps_blocks s (bg_put i bg s)"
proof -
  have "list_all2 (block_side_same (unat (blocks_per_group (info s)))) (bgs (aux_info s)) ((bgs (aux_info s))[unat i := bg])"
  proof (rule list_all2_all_nthI)
    fix n assume n: "n < length (bgs (aux_info s))"
    show "block_side_same (unat (blocks_per_group (info s))) (bgs (aux_info s) ! n) ((bgs (aux_info s))[unat i := bg] ! n)"
      using assms n by (cases "n = unat i") (simp_all add: block_side_same_refl)
  qed simp
  then show ?thesis unfolding keeps_blocks_def bg_put_def by blast
qed

lemma reserve_inodes_ok:
  assumes ok: "alloc_ok s" and g: "g < unat (groups (aux_info s))"
    and n: "unat num \<le> unat (bgi_free_inodes (bgs (aux_info s) ! g))"
  obtains bg where "reserve_inodes (of_nat g) num s =
      Inr (bgi_first_free_inode (bgs (aux_info s) ! g), bg_put (of_nat g) bg s)"
    and "bg_ok (info s) (aux_info s) g bg"
    and "bits (bgi_bitmaps bg) = bits (bgi_bitmaps (bgs (aux_info s) ! g)) \<union>
      {8 * unat (block_size (info s)) + (unat (bgi_first_free_inode (bgs (aux_info s) ! g)) - 1)..<
       8 * unat (block_size (info s)) + (unat (bgi_first_free_inode (bgs (aux_info s) ! g)) - 1) + unat num}"
    and "keeps_blocks s (bg_put (of_nat g) bg s)"
proof -
  let ?b = "bgs (aux_info s) ! g" and ?S = "unat (block_size (info s))" and ?I = "unat (inodes_per_group (info s))"
  let ?f = "bgi_first_free_inode ?b"
  have bok: "group_ok ?S (unat (blocks_per_group (info s))) ?b" "inode_ok ?S ?I ?b"
    "unat (bgi_first_block ?b) = unat (first_data_block (aux_info s)) + g * unat (blocks_per_group (info s))"
    and len: "length (bgs (aux_info s)) = unat (groups (aux_info s))"
    using ok g by (auto simp: alloc_ok_def bg_ok_def)
  have io: "?I \<le> 8 * ?S" "length (bgi_bitmaps ?b) = 2 * ?S" "unat ?f + unat (bgi_free_inodes ?b) = ?I + 1"
    "1 \<le> unat ?f" and ib: "bits (bgi_bitmaps ?b) \<inter> {8 * ?S..} = {8 * ?S..<8 * ?S + (unat ?f - 1)}"
    using bok(2) by (auto simp: inode_ok_def)
  have sm: "16 * ?S + 16 < 2 ^ 32" using bok(1) by (simp add: group_ok_def)
  have ug: "unat (of_nat g :: u32) = g" using g unat_u32 [of "groups (aux_info s)"] by (simp add: unat_of_nat)
  have pre: "8 * ?S + (unat ?f - 1) + unat num \<le> 8 * length (bgi_bitmaps ?b)" "unat ?f + unat num < 2 ^ 32"
    using io n sm by linarith+
  obtain bm where bm: "for_each (\<lambda>i. mark_inode (block_size (info s)) (?f + of_nat i - 1)) [0..<unat num] (bgi_bitmaps ?b) = Inr bm"
    and l: "length bm = length (bgi_bitmaps ?b)"
    and b: "bits bm = bits (bgi_bitmaps ?b) \<union> {8 * ?S + (unat ?f - 1)..<8 * ?S + (unat ?f - 1) + unat num}"
    using mark_inodes_ok [of "block_size (info s)" ?f "unat num" "bgi_bitmaps ?b", OF pre(1) io(4) pre(2)] by blast
  define bg where "bg = ?b\<lparr>bgi_bitmaps := bm, bgi_first_free_inode := ?f + num,
                         bgi_free_inodes := bgi_free_inodes ?b - num\<rparr>"
  have u: "unat (?f + num) = unat ?f + unat num" "unat (bgi_free_inodes ?b - num) = unat (bgi_free_inodes ?b) - unat num"
    using io n sm by (simp_all add: unat_add_le unat_sub word_le_nat_alt)
  have "bits bm \<inter> {8 * ?S..} = {8 * ?S..<8 * ?S + (unat ?f - 1 + unat num)}"
    unfolding b Int_Un_distrib2 ib by auto
  moreover have "unat ?f - 1 + unat num = unat (?f + num) - 1" using u io by simp
  ultimately have iok: "inode_ok ?S ?I bg" using io l u n by (simp add: inode_ok_def bg_def)
  have "unat (blocks_per_group (info s)) \<le> 8 * ?S" using bok(1) by (simp add: group_ok_def)
  then have "bits bm \<inter> {..<unat (blocks_per_group (info s))} =
      bits (bgi_bitmaps ?b) \<inter> {..<unat (blocks_per_group (info s))}" unfolding b by auto
  then have gok: "group_ok ?S (unat (blocks_per_group (info s))) bg"
    using bok(1) l by (simp add: group_ok_def bg_def)
  have "bg_ok (info s) (aux_info s) g bg" using iok gok bok(3) by (simp add: bg_ok_def bg_def)
  moreover have "reserve_inodes (of_nat g) num s = Inr (?f, bg_put (of_nat g) bg s)"
    using n g len bm ug by (simp add: reserve_inodes_def bg_at_def word_less_nat_alt bg_def)
  moreover have "keeps_blocks s (bg_put (of_nat g) bg s)"
    using \<open>bits bm \<inter> {..<unat (blocks_per_group (info s))} = _\<close>
    by (intro keeps_blocks_put) (simp add: ug block_side_same_def bg_def)
  ultimately show ?thesis using that [of bg] b by (simp add: bg_def)
qed

lemma alloc_ok_bg_put:
  assumes "alloc_ok s" and "bg_ok (info s) (aux_info s) g bg" and "g < unat (groups (aux_info s))"
  shows "alloc_ok (bg_put (of_nat g) bg s)"
proof -
  have "unat (of_nat g :: u32) = g"
    using assms(3) unat_u32 [of "groups (aux_info s)"] by (simp add: unat_of_nat)
  then show ?thesis using assms by (auto simp: alloc_ok_def nth_list_update)
qed


text \<open>The inode numbers in use: inode \<open>g * inodes_per_group + k + 1\<close> is bit \<open>k\<close>
  of group \<open>g\<close>.\<close>

definition group_inodes :: "fs_info \<Rightarrow> nat \<Rightarrow> block_group_info \<Rightarrow> nat set" where
  "group_inodes fi g bg = {g * unat (inodes_per_group fi) + k + 1 | k.
     k < unat (inodes_per_group fi) \<and> 8 * unat (block_size fi) + k \<in> bits (bgi_bitmaps bg)}"

definition used_inodes :: "ext4_st \<Rightarrow> nat set" where
  "used_inodes s = (\<Union>g < unat (groups (aux_info s)). group_inodes (info s) g (bgs (aux_info s) ! g))"

lemma group_inodes_range:
  "n \<in> group_inodes fi g bg \<Longrightarrow>
   g * unat (inodes_per_group fi) < n \<and> n \<le> g * unat (inodes_per_group fi) + unat (inodes_per_group fi)"
  by (auto simp: group_inodes_def)

lemma group_inodes_ok:
  assumes "inode_ok (unat (block_size fi)) (unat (inodes_per_group fi)) bg"
  shows "group_inodes fi g bg = {g * unat (inodes_per_group fi) + 1..<
           g * unat (inodes_per_group fi) + unat (bgi_first_free_inode bg)}"
proof -
  let ?S = "unat (block_size fi)" and ?f = "unat (bgi_first_free_inode bg)"
  have "8 * ?S + k \<in> bits (bgi_bitmaps bg) \<longleftrightarrow> k < ?f - 1" for k
  proof -
    have "8 * ?S + k \<in> bits (bgi_bitmaps bg) \<longleftrightarrow> 8 * ?S + k \<in> bits (bgi_bitmaps bg) \<inter> {8 * ?S..}" by simp
    also have "\<dots> \<longleftrightarrow> 8 * ?S + k \<in> {8 * ?S..<8 * ?S + (?f - 1)}" using assms by (simp only: inode_ok_def)
    also have "\<dots> \<longleftrightarrow> k < ?f - 1" unfolding atLeastLessThan_iff by linarith
    finally show ?thesis .
  qed
  moreover have "?f - 1 \<le> unat (inodes_per_group fi)" using assms unfolding inode_ok_def by linarith
  ultimately have "group_inodes fi g bg = {g * unat (inodes_per_group fi) + k + 1 | k. k < ?f - 1}"
    unfolding group_inodes_def by fastforce
  also have "\<dots> = {g * unat (inodes_per_group fi) + 1..<g * unat (inodes_per_group fi) + ?f}" (is "?A = ?B")
  proof
    show "?B \<subseteq> ?A"
    proof
      fix n assume "n \<in> ?B"
      then have "n = g * unat (inodes_per_group fi) + (n - (g * unat (inodes_per_group fi) + 1)) + 1"
        "n - (g * unat (inodes_per_group fi) + 1) < ?f - 1" by auto
      then show "n \<in> ?A" by blast
    qed
  qed auto
  finally show ?thesis .
qed

lemma used_inodes_bg_put:
  assumes "g < unat (groups (aux_info s))" and "length (bgs (aux_info s)) = unat (groups (aux_info s))"
  shows "used_inodes (bg_put (of_nat g) bg s) =
    (\<Union>h \<in> {..<unat (groups (aux_info s))} - {g}. group_inodes (info s) h (bgs (aux_info s) ! h)) \<union>
    group_inodes (info s) g bg"
proof -
  have "unat (of_nat g :: u32) = g"
    using assms(1) unat_u32 [of "groups (aux_info s)"] by (simp add: unat_of_nat)
  then have "used_inodes (bg_put (of_nat g) bg s) =
     (\<Union>h \<in> insert g ({..<unat (groups (aux_info s))} - {g}).
        group_inodes (info s) h (if g = h then bg else bgs (aux_info s) ! h))"
    unfolding used_inodes_def using assms by (simp add: nth_list_update insert_absorb)
  then show ?thesis by (auto split: if_splits)
qed

text \<open>An outcome of inode allocation: the table is full and nothing changed, or the number is one
  that was not in use and is the only new one.  The table is full when every number a group
  can have is in use.\<close>

definition inode_outcome :: "ext4_st \<Rightarrow> (u32 \<times> ext4_st) res \<Rightarrow> bool" where
  "inode_outcome s r \<longleftrightarrow> (\<exists>n s'. r = Inr (n, s') \<and> alloc_ok s' \<and> keeps_blocks s s' \<and>
     (if n = EXT4_ALLOCATE_FAILED
      then s' = s \<and> used_inodes s = {1..unat (groups (aux_info s)) * unat (inodes_per_group (info s))}
      else unat n \<in> {1..unat (groups (aux_info s)) * unat (inodes_per_group (info s))} - used_inodes s \<and>
           used_inodes s' = insert (unat n) (used_inodes s)))"

lemma reserve_one_inode:
  assumes ok: "alloc_ok s" and g: "g < unat (groups (aux_info s))"
    and small: "unat (groups (aux_info s)) * unat (inodes_per_group (info s)) < 2 ^ 32 - 1"
    and free: "bgi_free_inodes (bgs (aux_info s) ! g) \<noteq> 0"
  obtains s' where "reserve_inodes (of_nat g) 1 s = Inr (bgi_first_free_inode (bgs (aux_info s) ! g), s')"
    and "inode_outcome s (Inr (of_nat g * inodes_per_group (info s) + bgi_first_free_inode (bgs (aux_info s) ! g), s'))"
    and "bgi_first_free_inode (bgs (aux_info s) ! g) \<noteq> EXT4_ALLOCATE_FAILED"
proof -
  let ?b = "bgs (aux_info s) ! g" and ?I = "unat (inodes_per_group (info s))" and ?G = "unat (groups (aux_info s))"
  let ?f = "bgi_first_free_inode ?b" and ?S = "unat (block_size (info s))"
  have len: "length (bgs (aux_info s)) = ?G" using ok by (simp add: alloc_ok_def)
  have iok: "inode_ok ?S ?I ?b" using ok g by (simp add: alloc_ok_def bg_ok_def)
  have f: "1 \<le> unat ?f" "unat ?f \<le> ?I"
  proof -
    have "0 < unat (bgi_free_inodes ?b)" using free by (simp add: unat_gt_0)
    then show "1 \<le> unat ?f" "unat ?f \<le> ?I" using iok by (auto simp: inode_ok_def)
  qed
  have bnd: "g * ?I + ?I \<le> ?G * ?I" using mult_le_mono1 [of "g + 1" ?G ?I] g by simp
  have ug: "unat (of_nat g :: u32) = g" using g unat_u32 [of "groups (aux_info s)"] by (simp add: unat_of_nat)
  have un: "unat (of_nat g * inodes_per_group (info s) + ?f) = g * ?I + unat ?f"
  proof -
    have "unat (of_nat g * inodes_per_group (info s)) = g * ?I"
      using bnd small ug by (simp add: unat_mult_small)
    then show ?thesis using bnd small f by (simp add: unat_add_le)
  qed
  have one: "unat (1 :: u32) \<le> unat (bgi_free_inodes ?b)" using free by (simp add: unat_gt_0 Suc_le_eq)
  obtain bg where r: "reserve_inodes (of_nat g) 1 s = Inr (?f, bg_put (of_nat g) bg s)"
    and bok: "bg_ok (info s) (aux_info s) g bg"
    and b: "bits (bgi_bitmaps bg) = bits (bgi_bitmaps ?b) \<union> {8 * ?S + (unat ?f - 1)..<8 * ?S + (unat ?f - 1) + unat (1 :: u32)}"
    and keep: "keeps_blocks s (bg_put (of_nat g) bg s)"
    using reserve_inodes_ok [OF ok g one] .
  have new: "group_inodes (info s) g bg = insert (g * ?I + unat ?f) (group_inodes (info s) g ?b)"
  proof -
    obtain k where "unat ?f = Suc k" "k < ?I" using f by (cases "unat ?f") auto
    then show ?thesis unfolding group_inodes_def b by auto
  qed
  have fresh: "g * ?I + unat ?f \<notin> used_inodes s"
  proof
    assume "g * ?I + unat ?f \<in> used_inodes s"
    then obtain h where h: "h < ?G" "g * ?I + unat ?f \<in> group_inodes (info s) h (bgs (aux_info s) ! h)"
      by (auto simp: used_inodes_def)
    have "h = g"
    proof (rule ccontr)
      assume "h \<noteq> g"
      then consider "h + 1 \<le> g" | "g + 1 \<le> h" by linarith
      then show False
        using group_inodes_range [OF h(2)] f mult_le_mono1 [of "h + 1" g ?I] mult_le_mono1 [of "g + 1" h ?I]
        by cases auto
    qed
    then show False using h(2) group_inodes_ok [OF iok, of g] by simp
  qed
  have "used_inodes (bg_put (of_nat g) bg s) = insert (g * ?I + unat ?f) (used_inodes s)"
    unfolding used_inodes_bg_put [OF g len] new using g by (auto simp: used_inodes_def)
  moreover have "of_nat g * inodes_per_group (info s) + ?f \<noteq> EXT4_ALLOCATE_FAILED"
    using un bnd small f by (auto simp: word_unat_eq_iff)
  ultimately have "inode_outcome s (Inr (of_nat g * inodes_per_group (info s) + ?f, bg_put (of_nat g) bg s))"
    using alloc_ok_bg_put [OF ok bok g] fresh f bnd un keep by (simp add: inode_outcome_def)
  moreover have "?f \<noteq> EXT4_ALLOCATE_FAILED"
    using f bnd small by (auto simp: word_unat_eq_iff)
  ultimately show ?thesis using that r by blast
qed

text \<open>The numbers \<open>1..n * G\<close> are the union of the \<open>G\<close> stretches of \<open>n\<close>.\<close>

lemma stretches_cover: "(\<Union>g < G. {g * n + 1..<g * n + (n + 1)}) = {1..G * n :: nat}"
proof (induction G)
  case (Suc G)
  have "{1..Suc G * n} = {1..G * n} \<union> {G * n + 1..<G * n + (n + 1)}" by auto
  then show ?case using Suc by (simp add: lessThan_Suc Un_commute del: mult_Suc)
qed simp

lemma all_inodes_used:
  assumes "alloc_ok s" and "\<forall>g < unat (groups (aux_info s)). bgi_free_inodes (bgs (aux_info s) ! g) = 0"
  shows "used_inodes s = {1..unat (groups (aux_info s)) * unat (inodes_per_group (info s))}"
proof -
  let ?G = "unat (groups (aux_info s))" and ?I = "unat (inodes_per_group (info s))"
  have "group_inodes (info s) g (bgs (aux_info s) ! g) = {g * ?I + 1..<g * ?I + (?I + 1)}" if g: "g < ?G" for g
  proof -
    have iok: "inode_ok (unat (block_size (info s))) ?I (bgs (aux_info s) ! g)"
      using assms(1) g by (simp add: alloc_ok_def bg_ok_def)
    then have "unat (bgi_first_free_inode (bgs (aux_info s) ! g)) = ?I + 1"
      using assms(2) g by (simp add: inode_ok_def)
    then show ?thesis using group_inodes_ok [OF iok, of g] by simp
  qed
  then have "used_inodes s = (\<Union>g < ?G. {g * ?I + 1..<g * ?I + (?I + 1)})"
    unfolding used_inodes_def by (intro SUP_cong) auto
  then show ?thesis by (simp only: stretches_cover)
qed

lemma allocate_inode_loop_ok:
  "alloc_ok s \<Longrightarrow> unat (groups (aux_info s)) * unat (inodes_per_group (info s)) < 2 ^ 32 - 1 \<Longrightarrow>
   \<forall>g < unat bg. bgi_free_inodes (bgs (aux_info s) ! g) = 0 \<Longrightarrow>
   inode_outcome s (allocate_inode_loop bg s)"
proof (induction bg s rule: allocate_inode_loop.induct)
  case (1 bg s)
  show ?case
  proof (cases "bg < groups (aux_info s)")
    case True
    let ?g = "unat bg"
    have g: "?g < unat (groups (aux_info s))" using True by (simp add: word_less_nat_alt)
    show ?thesis
    proof (cases "bgi_free_inodes (bgs (aux_info s) ! ?g) = 0")
      case full: True
      have "reserve_inodes bg 1 s = Inr (EXT4_ALLOCATE_FAILED, s)"
        using full g 1(2) by (simp add: reserve_inodes_def bg_at_def alloc_ok_def)
      then have "allocate_inode_loop bg s = allocate_inode_loop (bg + 1) s"
        using True by (subst allocate_inode_loop.simps) simp
      moreover have "inode_outcome s (allocate_inode_loop (bg + 1) s)"
      proof -
        have "unat (bg + 1) = Suc ?g" using True by (simp add: inc_below)
        then show ?thesis
          using 1(1) [OF True] \<open>reserve_inodes bg 1 s = _\<close> 1(2,3,4) full by (simp add: less_Suc_eq)
      qed
      ultimately show ?thesis by simp
    next
      case False
      obtain s' where "reserve_inodes (of_nat ?g) 1 s = Inr (bgi_first_free_inode (bgs (aux_info s) ! ?g), s')"
        "inode_outcome s (Inr (of_nat ?g * inodes_per_group (info s) + bgi_first_free_inode (bgs (aux_info s) ! ?g), s'))"
        "bgi_first_free_inode (bgs (aux_info s) ! ?g) \<noteq> EXT4_ALLOCATE_FAILED"
        using reserve_one_inode [OF 1(2) g 1(3) False] .
      then show ?thesis using True by (subst allocate_inode_loop.simps) simp
    qed
  next
    case False
    then have "used_inodes s = {1..unat (groups (aux_info s)) * unat (inodes_per_group (info s))}"
      using 1(2,4) by (intro all_inodes_used) (simp_all add: word_less_nat_alt)
    then show ?thesis using False 1(2) by (subst allocate_inode_loop.simps) (simp add: inode_outcome_def)
  qed
qed

text \<open>
  C30. \<^verbatim>\<open>allocate_inode\<close> returns, keeps the allocator's invariant, and yields a valid inode
  number that was not in use and is marked from then on; it reports failure, changing nothing, only
  when every inode number of the filesystem is in use.
\<close>

theorem allocate_inode_fresh:
  assumes "alloc_ok s" and "unat (groups (aux_info s)) * unat (inodes_per_group (info s)) < 2 ^ 32 - 1"
  shows "\<exists>n s'. allocate_inode s = Inr (n, s') \<and> alloc_ok s' \<and>
    (if n = EXT4_ALLOCATE_FAILED
     then s' = s \<and> used_inodes s = {1..unat (groups (aux_info s)) * unat (inodes_per_group (info s))}
     else unat n \<in> {1..unat (groups (aux_info s)) * unat (inodes_per_group (info s))} - used_inodes s \<and>
          used_inodes s' = insert (unat n) (used_inodes s))"
proof -
  have "inode_outcome s (allocate_inode s)"
    using allocate_inode_loop_ok [OF assms, of 0] by (simp add: allocate_inode_def)
  then show ?thesis unfolding inode_outcome_def by (elim exE conjE) (intro exI conjI)
qed


theorem allocate_inode_fresh_witness:
  "\<exists>s n s'. block_allocator_init sample_st = Inr s \<and> alloc_ok s \<and> allocate_inode s = Inr (n, s') \<and> alloc_ok s' \<and>
     (if n = EXT4_ALLOCATE_FAILED then used_inodes s = {1..16384}
      else unat n \<in> {1..16384} - used_inodes s \<and> used_inodes s' = insert (unat n) (used_inodes s))"
proof -
  obtain s x where s: "block_allocator_init sample_st = Inr s" "alloc_ok s" "info s = info sample_st"
      "aux_info s = (aux_info sample_st)\<lparr>bgs := x\<rparr>"
    using block_allocator_init_all [OF sample_geometry_ok(1,2)] by blast
  have "unat (groups (aux_info s)) * unat (inodes_per_group (info s)) = 16384"
    using s(3,4) sample_geometry_ok(3,4) by simp
  then have sz: "unat (groups (aux_info s)) * unat (inodes_per_group (info s)) < 2 ^ 32 - 1"
    and e: "unat (groups (aux_info s)) * unat (inodes_per_group (info s)) = 16384" by simp_all
  obtain n s' where "allocate_inode s = Inr (n, s')" "alloc_ok s'"
    "if n = EXT4_ALLOCATE_FAILED then s' = s \<and> used_inodes s = {1..16384}
     else unat n \<in> {1..16384} - used_inodes s \<and> used_inodes s' = insert (unat n) (used_inodes s)"
    using allocate_inode_fresh [OF s(2) sz] unfolding e by blast
  then show ?thesis using s(1,2) by (intro exI [of _ s] exI [of _ n] exI [of _ s']) (auto split: if_splits)
qed


section \<open>Reserving and freeing are inverse\<close>

lemma bits_inject: "length a = length b \<Longrightarrow> bits a = bits b \<Longrightarrow> a = b"
proof (rule nth_equalityI)
  fix j assume l: "length a = length b" and e: "bits a = bits b" and j: "j < length a"
  show "a ! j = b ! j"
  proof (rule bit_word_eqI)
    fix k assume "k < LENGTH(8)"
    then have k: "k < 8" by simp
    have "bit (a ! j) k \<longleftrightarrow> 8 * j + k \<in> bits a" using j k by (simp add: bits_def)
    also have "\<dots> \<longleftrightarrow> bit (b ! j) k" using j k l by (simp add: e) (simp add: bits_def)
    finally show "bit (a ! j) k \<longleftrightarrow> bit (b ! j) k" .
  qed
qed

text \<open>Freeing the blocks just reserved from a group restores the group exactly, bitmap and
  counters.\<close>

theorem free_blocks_undoes_reserve:
  assumes ok: "group_ok bs bpg bg" and len: "unat len \<le> unat (bgi_free_blocks bg)"
  shows "bnd (reserve_blocks fc bg (bgi_first_free_block bg) len) (\<lambda>(r, bg'). free_blocks bg' len) = Inr bg"
proof -
  let ?f = "unat (bgi_first_free_block bg)"
  obtain bm where r: "reserve_blocks fc bg (bgi_first_free_block bg) len =
       Inr (0, bg\<lparr>bgi_bitmaps := bm, bgi_free_blocks := bgi_free_blocks bg - len,
                  bgi_first_free_block := bgi_first_free_block bg + len\<rparr>)"
    and b: "bits bm = bits (bgi_bitmaps bg) \<union> {?f..<?f + unat len}"
    and ok1: "group_ok bs bpg (bg\<lparr>bgi_bitmaps := bm, bgi_free_blocks := bgi_free_blocks bg - len,
                  bgi_first_free_block := bgi_first_free_block bg + len\<rparr>)"
    using reserve_first_free [OF ok len] .
  have fb: "?f + unat (bgi_free_blocks bg) \<le> bpg" "bpg < 2 ^ 32" using ok by (simp_all add: group_ok_def)
  have u: "unat (bgi_first_free_block bg + len) = ?f + unat len" using fb len by (simp add: unat_add_le)
  have disj: "bits (bgi_bitmaps bg) \<inter> {?f..<?f + unat len} = {}"
  proof -
    have "bits (bgi_bitmaps bg) \<inter> {..<bpg} = {..<bpg} - {?f..<?f + unat (bgi_free_blocks bg)}"
      using ok by (simp add: group_ok_def)
    moreover have "{?f..<?f + unat len} \<subseteq> {..<bpg} \<inter> {?f..<?f + unat (bgi_free_blocks bg)}"
      using fb len by auto
    ultimately show ?thesis by blast
  qed
  define bg1 where "bg1 = bg\<lparr>bgi_bitmaps := bm, bgi_free_blocks := bgi_free_blocks bg - len,
                  bgi_first_free_block := bgi_first_free_block bg + len\<rparr>"
  have f1: "unat (bgi_first_free_block bg1) = ?f + unat len" using u by (simp add: bg1_def)
  obtain bm' where fr: "free_blocks bg1 len = Inr (bg1\<lparr>bgi_bitmaps := bm', bgi_free_blocks := bgi_free_blocks bg1 + len,
                bgi_first_free_block := bgi_first_free_block bg1 - len\<rparr>)"
    and b1: "bits bm' = bits (bgi_bitmaps bg1) -
         {unat (bgi_first_free_block bg1) - unat len..<unat (bgi_first_free_block bg1)}"
    and ok2: "group_ok bs bpg (bg1\<lparr>bgi_bitmaps := bm', bgi_free_blocks := bgi_free_blocks bg1 + len,
                bgi_first_free_block := bgi_first_free_block bg1 - len\<rparr>)"
    using free_blocks_group [OF ok1 [folded bg1_def], of len] f1 le_add2 by metis
  have b': "bits bm' = bits bm - {?f..<?f + unat len}" using b1 f1 by (simp add: bg1_def)
  have l': "length bm' = 2 * bs" using ok2 by (simp add: group_ok_def)
  have "bits bm' = bits (bgi_bitmaps bg)" using b b' disj by auto
  then have "bm' = bgi_bitmaps bg" using l' ok by (intro bits_inject) (simp_all add: group_ok_def)
  then show ?thesis using r fr by (simp add: bg1_def)
qed

text \<open>A group with 29 free blocks from block 3 on, for a request across byte boundaries.\<close>

definition small_bg :: block_group_info where
  "small_bg = zero_bg\<lparr>bgi_bitmaps := [7, 0, 0, 0, 0, 0, 0, 0], bgi_free_blocks := 29, bgi_first_free_block := 3\<rparr>"

lemma bits_small_bg: "bits (bgi_bitmaps small_bg) = {..<3}"
proof -
  have "alloc_bits.ins_run 3 [0, 0, 0, 0, 0, 0, 0, 0] 0 = Inr (False, [7, 0, 0, 0, 0, 0, 0, 0])"
    by (simp add: numeral_3_eq_3 bitmap_set_bit_def bit_mask_def)
  moreover have "bits [0, 0, 0, 0, 0, 0, 0, 0] = {}" using bits_zero [of 8] by (simp add: numeral_eq_Suc)
  ultimately show ?thesis
    using alloc_bits.ins_run_spec [of 0 3 "[0, 0, 0, 0, 0, 0, 0, 0]"]
    by (auto simp: small_bg_def atLeast0LessThan)
qed

lemma small_bg_ok: "group_ok 4 32 small_bg"
  unfolding group_ok_def bits_small_bg by (auto simp: small_bg_def zero_bg_def)

theorem free_blocks_undoes_reserve_witness:
  "group_ok 4 32 small_bg \<and>
   bnd (reserve_blocks False small_bg 3 20) (\<lambda>(r, bg'). free_blocks bg' 20) = Inr small_bg"
  using free_blocks_undoes_reserve [OF small_bg_ok, of 20 False] small_bg_ok
  by (simp add: small_bg_def)

theorem reserve_blocks_spec_witness:
  "\<exists>bm. length bm = 8 \<and> reserve_blocks False small_bg 3 20 =
     Inr (0, small_bg\<lparr>bgi_bitmaps := bm, bgi_free_blocks := 9, bgi_first_free_block := 23\<rparr>) \<and>
     bits bm = {..<23}"
proof -
  have f: "length (bgi_bitmaps small_bg) = 8" "bgi_free_blocks small_bg = 29" "bgi_first_free_block small_bg = 3"
    by (simp_all add: small_bg_def)
  have b: "bits (bgi_bitmaps small_bg) \<inter> {3..<23} = {}" "bits (bgi_bitmaps small_bg) \<union> {3..<23} = {..<23}"
    unfolding bits_small_bg by auto
  show ?thesis using reserve_blocks_spec [of 3 20 small_bg False] by (simp add: f b)
qed

end
