(* ===== verification/Regions.thy ===== *)
theory Regions
  imports Block_Group
begin

text \<open>
  The allocator proper of \<^verbatim>\<open>allocate.c\<close>: taking runs of blocks from the groups, the
  linked regions an allocation consists of, and the operations its clients use to walk, split
  and release them. Regions live in an explicit heap, since the code links and unlinks them
  destructively; a walk along \<^verbatim>\<open>next\<close> is bounded by the number of heap objects, so a
  cyclic list is the outcome \<^const>\<open>Diverges\<close>.
\<close>

section \<open>Lists of regions\<close>

definition empty_list :: region_list where
  "empty_list = \<lparr>rl_first = None, rl_last = None, rl_iter = None, rl_partial_iter = 0\<rparr>"

text \<open>\<^verbatim>\<open>create_allocation\<close> writes through its \<^verbatim>\<open>malloc\<close> result untested.\<close>

definition create_allocation :: "ext4_st \<Rightarrow> (block_allocation \<times> ext4_st) res" where
  "create_allocation s =
     (if oom s (mallocs s) then Inl Undefined
      else Inr (\<lparr>al_list = empty_list, al_oob_list = empty_list\<rparr>, s\<lparr>mallocs := mallocs s + 1\<rparr>))"

definition region_list_remove :: "region_list \<Rightarrow> nat \<Rightarrow> ext4_st \<Rightarrow> (region_list \<times> ext4_st) res" where
  "region_list_remove rl reg s =
     bnd (region_at s (Some reg)) (\<lambda>r.
     bnd (if reg_prev r \<noteq> None then region_upd (reg_prev r) (\<lambda>p. p\<lparr>reg_next := reg_next r\<rparr>) s else Inr s) (\<lambda>s.
     bnd (region_at s (Some reg)) (\<lambda>r.
     bnd (if reg_next r \<noteq> None then region_upd (reg_next r) (\<lambda>n. n\<lparr>reg_prev := reg_prev r\<rparr>) s else Inr s) (\<lambda>s.
     bnd (region_at s (Some reg)) (\<lambda>r.
     let rl1 = (if rl_first rl = Some reg then rl\<lparr>rl_first := reg_next r\<rparr> else rl);
         rl2 = (if rl_last rl1 = Some reg then rl1\<lparr>rl_last := reg_prev r\<rparr> else rl1) in
     bnd (region_upd (Some reg) (\<lambda>r. r\<lparr>reg_next := None, reg_prev := None\<rparr>) s) (\<lambda>s.
     Inr (rl2, s)))))))"

definition region_list_append :: "region_list \<Rightarrow> nat \<Rightarrow> ext4_st \<Rightarrow> (region_list \<times> ext4_st) res" where
  "region_list_append rl reg s =
     (if rl_first rl = None then
        bnd (region_upd (Some reg) (\<lambda>r. r\<lparr>reg_prev := None\<rparr>) s) (\<lambda>s.
        bnd (region_upd (Some reg) (\<lambda>r. r\<lparr>reg_next := None\<rparr>) s) (\<lambda>s.
        Inr (\<lparr>rl_first = Some reg, rl_last = Some reg, rl_iter = Some reg, rl_partial_iter = 0\<rparr>, s)))
      else
        bnd (region_upd (rl_last rl) (\<lambda>l. l\<lparr>reg_next := Some reg\<rparr>) s) (\<lambda>s.
        bnd (region_upd (Some reg) (\<lambda>r. r\<lparr>reg_prev := rl_last rl\<rparr>) s) (\<lambda>s.
        bnd (region_upd (Some reg) (\<lambda>r. r\<lparr>reg_next := None\<rparr>) s) (\<lambda>s.
        Inr (rl\<lparr>rl_last := Some reg\<rparr>, s)))))"

definition mk_region :: "u32 \<Rightarrow> u32 \<Rightarrow> u32 \<Rightarrow> region" where
  "mk_region block len bg = \<lparr>reg_block = block, reg_len = len, reg_bg = bg, reg_next = None, reg_prev = None\<rparr>"

definition append_region ::
    "block_allocation \<Rightarrow> u32 \<Rightarrow> u32 \<Rightarrow> u32 \<Rightarrow> ext4_st \<Rightarrow> (block_allocation \<times> ext4_st) res" where
  "append_region alloc block len bg_num s =
     bnd (new_region (mk_region block len bg_num) s) (\<lambda>(reg, s).
     bnd (region_list_append (al_list alloc) reg s) (\<lambda>(rl, s).
     Inr (alloc\<lparr>al_list := rl\<rparr>, s)))"

section \<open>Giving blocks back\<close>

definition bg_free :: "u32 \<Rightarrow> u32 \<Rightarrow> ext4_st \<Rightarrow> ext4_st res" where
  "bg_free bg n s = bnd (bg_at s bg) (\<lambda>b. bnd (free_blocks b n) (\<lambda>b'. Inr (bg_put bg b' s)))"

text \<open>
  The loop of \<^verbatim>\<open>reduce_allocation\<close>. Removing a region never moves \<^verbatim>\<open>list.last\<close>
  off it (it is only reset when the list becomes empty), so a third iteration is always an
  access through a freed or NULL pointer.
\<close>

fun reduce_loop :: "nat \<Rightarrow> block_allocation \<Rightarrow> u32 \<Rightarrow> ext4_st \<Rightarrow> (block_allocation \<times> ext4_st) res" where
  "reduce_loop 0 alloc len s = Inl Diverges"
| "reduce_loop (Suc fuel) alloc len s =
     (if len = 0 then Inr (alloc, s)
      else
        bnd (region_at s (rl_last (al_list alloc))) (\<lambda>last_reg.
        if len < reg_len last_reg then
          bnd (bg_free (reg_bg last_reg) len s) (\<lambda>s.
          bnd (region_upd (rl_last (al_list alloc)) (\<lambda>r. r\<lparr>reg_len := reg_len r - len\<rparr>) s) (\<lambda>s.
          reduce_loop fuel alloc 0 s))
        else
          bnd (bg_free (reg_bg last_reg) (reg_len last_reg) s) (\<lambda>s.
          bnd (if reg_prev last_reg \<noteq> None
               then bnd (region_upd (reg_prev last_reg) (\<lambda>r. r\<lparr>reg_next := None\<rparr>) s) (\<lambda>s. Inr (alloc, s))
               else Inr (alloc\<lparr>al_list := empty_list\<rparr>, s)) (\<lambda>(alloc', s).
          bnd (region_free (rl_last (al_list alloc)) s) (\<lambda>s.
          reduce_loop fuel alloc' (len - reg_len last_reg) s)))))"

definition reduce_allocation :: "block_allocation \<Rightarrow> u32 \<Rightarrow> ext4_st \<Rightarrow> (block_allocation \<times> ext4_st) res" where
  "reduce_allocation = reduce_loop 4"

section \<open>Taking blocks from the groups\<close>

definition ext4_allocate_blocks_from_block_group :: "u32 \<Rightarrow> u32 \<Rightarrow> ext4_st \<Rightarrow> (u32 \<times> ext4_st) res" where
  "ext4_allocate_blocks_from_block_group len bg_num s =
     bnd (get_free_blocks s bg_num) (\<lambda>free.
     if free < len then Inr (EXT4_ALLOCATE_FAILED, s)
     else
       bnd (bg_at s bg_num) (\<lambda>bg.
       bnd (reserve_blocks (force s) bg (bgi_first_free_block bg) len) (\<lambda>(r, bg').
       if r < 0 then error_then (force s) (EXT4_ALLOCATE_FAILED, bg_put bg_num bg' s)
       else Inr (bgi_first_block bg + bgi_first_free_block bg,
                 bg_put bg_num (bg'\<lparr>bgi_data_blocks_used := bgi_data_blocks_used bg' + len\<rparr>) s))))"

text \<open>The loop over the groups \<^verbatim>\<open>i\<close> that the two functions below share: the first group
  that gives the blocks, with the block number.\<close>

fun try_groups :: "u32 \<Rightarrow> u32 list \<Rightarrow> ext4_st \<Rightarrow> ((u32 \<times> u32) option \<times> ext4_st) res" where
  "try_groups len [] s = Inr (None, s)"
| "try_groups len (i # is) s =
     bnd (ext4_allocate_blocks_from_block_group len i s) (\<lambda>(block, s).
     if block \<noteq> EXT4_ALLOCATE_FAILED then Inr (Some (block, i), s) else try_groups len is s)"

definition all_groups :: "ext4_st \<Rightarrow> u32 list" where
  "all_groups s = map of_nat [0..<unat (groups (aux_info s))]"

definition ext4_allocate_contiguous_blocks :: "u32 \<Rightarrow> ext4_st \<Rightarrow> (nat option \<times> ext4_st) res" where
  "ext4_allocate_contiguous_blocks len s =
     bnd (try_groups len (all_groups s) s) (\<lambda>(found, s).
     case found of None \<Rightarrow> Inr (None, s)
     | Some (block, i) \<Rightarrow> bnd (new_region (mk_region block len i) s) (\<lambda>(reg, s). Inr (Some reg, s)))"

definition allocate_block :: "ext4_st \<Rightarrow> (u32 \<times> ext4_st) res" where
  "allocate_block s =
     bnd (try_groups 1 (all_groups s) s) (\<lambda>(found, s).
     case found of None \<Rightarrow> Inr (EXT4_ALLOCATE_FAILED, s) | Some (block, i) \<Rightarrow> Inr (block, s))"

text \<open>The first group that never gave data blocks.\<close>

fun find_unused :: "u32 list \<Rightarrow> ext4_st \<Rightarrow> u32 option res" where
  "find_unused [] s = Inr None"
| "find_unused (i # is) s =
     bnd (bg_at s i) (\<lambda>bg. if bgi_data_blocks_used bg = 0 then Inr (Some i) else find_unused is s)"

definition ext4_allocate_partial :: "u32 \<Rightarrow> ext4_st \<Rightarrow> (nat option \<times> ext4_st) res" where
  "ext4_allocate_partial len s =
     bnd (find_unused (all_groups s) s) (\<lambda>found.
     case found of None \<Rightarrow> Inr (None, s)
     | Some i \<Rightarrow>
        bnd (get_free_blocks s i) (\<lambda>bg_len.
        if len \<le> bg_len then ext4_allocate_contiguous_blocks len s
        else
          bnd (ext4_allocate_blocks_from_block_group bg_len i s) (\<lambda>(block, s).
          if block = EXT4_ALLOCATE_FAILED then error_then (force s) (None, s)
          else bnd (new_region (mk_region block bg_len i) s) (\<lambda>(reg, s). Inr (Some reg, s)))))"

text \<open>
  The loop of \<^verbatim>\<open>ext4_allocate_multiple_contiguous_blocks\<close>. Every region it links has
  at least one block, except when the first unused group has no free block: then the same empty
  region is allocated again for ever. Hence \<^verbatim>\<open>len + 1\<close> iterations are enough for every run
  that ends.
\<close>

fun multiple_loop :: "nat \<Rightarrow> nat option \<Rightarrow> nat option \<Rightarrow> u32 \<Rightarrow> ext4_st \<Rightarrow> (nat option \<times> ext4_st) res" where
  "multiple_loop 0 first_reg prev_reg len s = Inl Diverges"
| "multiple_loop (Suc fuel) first_reg prev_reg len s =
     (if len = 0 then Inr (first_reg, s)
      else
        bnd (ext4_allocate_partial len s) (\<lambda>(reg, s).
        if reg = None then Inr (None, s)
        else
          bnd (if prev_reg \<noteq> None
               then bnd (region_upd prev_reg (\<lambda>r. r\<lparr>reg_next := reg\<rparr>) s) (\<lambda>s.
                    region_upd reg (\<lambda>r. r\<lparr>reg_prev := prev_reg\<rparr>) s)
               else Inr s) (\<lambda>s.
          bnd (region_at s reg) (\<lambda>r.
          multiple_loop fuel (if first_reg = None then reg else first_reg) reg (len - reg_len r) s))))"

definition ext4_allocate_multiple_contiguous_blocks :: "u32 \<Rightarrow> ext4_st \<Rightarrow> (nat option \<times> ext4_st) res" where
  "ext4_allocate_multiple_contiguous_blocks len = multiple_loop (Suc (unat len)) None None len"

definition do_allocate :: "u32 \<Rightarrow> ext4_st \<Rightarrow> (nat option \<times> ext4_st) res" where
  "do_allocate len s =
     bnd (ext4_allocate_contiguous_blocks len s) (\<lambda>(reg, s).
     if reg = None then ext4_allocate_multiple_contiguous_blocks len s else Inr (reg, s))"

text \<open>A NULL result is \<open>None\<close>. All three list pointers start at the first region.\<close>

definition allocate_blocks :: "u32 \<Rightarrow> ext4_st \<Rightarrow> (block_allocation option \<times> ext4_st) res" where
  "allocate_blocks len s =
     bnd (do_allocate len s) (\<lambda>(reg, s).
     if reg = None then Inr (None, s)
     else
       bnd (create_allocation s) (\<lambda>(alloc, s).
       Inr (Some (alloc\<lparr>al_list := \<lparr>rl_first = reg, rl_last = reg, rl_iter = reg, rl_partial_iter = 0\<rparr>\<rparr>), s)))"

section \<open>Walking an allocation\<close>

fun count_regions :: "nat \<Rightarrow> ext4_st \<Rightarrow> nat option \<Rightarrow> u32 \<Rightarrow> u32 res" where
  "count_regions fuel s None i = Inr i"
| "count_regions 0 s (Some a) i = Inl Diverges"
| "count_regions (Suc fuel) s (Some a) i =
     bnd (region_at s (Some a)) (\<lambda>r. count_regions fuel s (reg_next r) (i + 1))"

definition block_allocation_num_regions :: "block_allocation \<Rightarrow> ext4_st \<Rightarrow> u32 res" where
  "block_allocation_num_regions alloc s = count_regions (mallocs s) s (rl_first (al_list alloc)) 0"

fun sum_regions :: "nat \<Rightarrow> ext4_st \<Rightarrow> nat option \<Rightarrow> u32 \<Rightarrow> u32 res" where
  "sum_regions fuel s None i = Inr i"
| "sum_regions 0 s (Some a) i = Inl Diverges"
| "sum_regions (Suc fuel) s (Some a) i =
     bnd (region_at s (Some a)) (\<lambda>r. sum_regions fuel s (reg_next r) (i + reg_len r))"

definition block_allocation_len :: "block_allocation \<Rightarrow> ext4_st \<Rightarrow> u32 res" where
  "block_allocation_len alloc s = sum_regions (mallocs s) s (rl_first (al_list alloc)) 0"

fun find_block :: "nat \<Rightarrow> ext4_st \<Rightarrow> nat option \<Rightarrow> u32 \<Rightarrow> u32 res" where
  "find_block fuel s None block = Inr EXT4_ALLOCATE_FAILED"
| "find_block 0 s (Some a) block = Inl Diverges"
| "find_block (Suc fuel) s (Some a) block =
     bnd (region_at s (Some a)) (\<lambda>r.
     if block < reg_len r then Inr (reg_block r + block)
     else find_block fuel s (reg_next r) (block - reg_len r))"

definition list_block :: "region_list \<Rightarrow> u32 \<Rightarrow> ext4_st \<Rightarrow> u32 res" where
  "list_block rl block s = find_block (mallocs s) s (rl_iter rl) (block + rl_partial_iter rl)"

definition get_block :: "block_allocation \<Rightarrow> u32 \<Rightarrow> ext4_st \<Rightarrow> u32 res" where
  "get_block alloc = list_block (al_list alloc)"

definition get_oob_block :: "block_allocation \<Rightarrow> u32 \<Rightarrow> ext4_st \<Rightarrow> u32 res" where
  "get_oob_block alloc = list_block (al_oob_list alloc)"

definition get_region :: "block_allocation \<Rightarrow> ext4_st \<Rightarrow> (u32 \<times> u32) res" where
  "get_region alloc s =
     bnd (region_at s (rl_iter (al_list alloc))) (\<lambda>r.
     Inr (reg_block r, reg_len r - rl_partial_iter (al_list alloc)))"

definition get_next_region :: "block_allocation \<Rightarrow> ext4_st \<Rightarrow> block_allocation res" where
  "get_next_region alloc s =
     bnd (region_at s (rl_iter (al_list alloc))) (\<lambda>r.
     Inr (alloc\<lparr>al_list := (al_list alloc)\<lparr>rl_iter := reg_next r, rl_partial_iter := 0\<rparr>\<rparr>))"

definition last_region :: "block_allocation \<Rightarrow> bool" where
  "last_region alloc \<longleftrightarrow> rl_iter (al_list alloc) = None"

definition rewind_alloc :: "block_allocation \<Rightarrow> block_allocation" where
  "rewind_alloc alloc =
     alloc\<lparr>al_list := (al_list alloc)\<lparr>rl_iter := rl_first (al_list alloc), rl_partial_iter := 0\<rparr>\<rparr>"

section \<open>Splitting an allocation\<close>

fun skip_regions :: "nat \<Rightarrow> ext4_st \<Rightarrow> nat option \<Rightarrow> u32 \<Rightarrow> (nat option \<times> u32) res" where
  "skip_regions fuel s None len = Inr (None, len)"
| "skip_regions 0 s (Some a) len = Inl Diverges"
| "skip_regions (Suc fuel) s (Some a) len =
     bnd (region_at s (Some a)) (\<lambda>r.
     if reg_len r \<le> len then skip_regions fuel s (reg_next r) (len - reg_len r) else Inr (Some a, len))"

text \<open>
  \<^verbatim>\<open>do_split_allocation\<close>. The neighbour's \<^verbatim>\<open>prev\<close> and \<^verbatim>\<open>list.last\<close> are not
  updated; a split at a region boundary returns the region after it and leaves the iterator.
\<close>

definition do_split_allocation ::
    "block_allocation \<Rightarrow> u32 \<Rightarrow> ext4_st \<Rightarrow> (nat option \<times> block_allocation \<times> ext4_st) res" where
  "do_split_allocation alloc len s =
     bnd (skip_regions (mallocs s) s (rl_iter (al_list alloc)) len) (\<lambda>(reg, len).
     if reg = None \<and> 0 < len then Inr (None, alloc, s)
     else if 0 < len then
       bnd (region_at s reg) (\<lambda>r.
       bnd (new_region (r\<lparr>reg_block := reg_block r + len, reg_len := reg_len r - len, reg_prev := reg\<rparr>) s) (\<lambda>(new, s).
       bnd (region_upd reg (\<lambda>r. r\<lparr>reg_next := Some new, reg_len := len\<rparr>) s) (\<lambda>s.
       Inr (rl_iter (al_list alloc), alloc\<lparr>al_list := (al_list alloc)\<lparr>rl_iter := Some new\<rparr>\<rparr>, s))))
     else Inr (reg, alloc, s))"

definition split_allocation ::
    "block_allocation \<Rightarrow> u32 \<Rightarrow> ext4_st \<Rightarrow> (nat option \<times> block_allocation \<times> ext4_st) res" where
  "split_allocation alloc len s =
     bnd (do_split_allocation alloc (rl_partial_iter (al_list alloc)) s) (\<lambda>(_, alloc, s).
     bnd (do_split_allocation alloc len s) (\<lambda>(middle, alloc, s).
     Inr (middle, alloc\<lparr>al_list := (al_list alloc)\<lparr>rl_partial_iter := 0\<rparr>\<rparr>, s)))"

fun move_oob :: "nat \<Rightarrow> nat option \<Rightarrow> block_allocation \<Rightarrow> ext4_st \<Rightarrow> (block_allocation \<times> ext4_st) res" where
  "move_oob fuel None alloc s = Inr (alloc, s)"
| "move_oob 0 (Some oob) alloc s = Inl Diverges"
| "move_oob (Suc fuel) (Some oob) alloc s =
     (if Some oob = rl_iter (al_list alloc) then Inr (alloc, s)
      else
        bnd (region_at s (Some oob)) (\<lambda>r.
        bnd (region_list_remove (al_list alloc) oob s) (\<lambda>(rl, s).
        bnd (region_list_append (al_oob_list alloc) oob s) (\<lambda>(orl, s).
        move_oob fuel (reg_next r) (alloc\<lparr>al_list := rl, al_oob_list := orl\<rparr>) s))))"

text \<open>The C result 0 or -1, with the allocation the call leaves.\<close>

definition reserve_oob_blocks :: "block_allocation \<Rightarrow> u32 \<Rightarrow> ext4_st \<Rightarrow> (int \<times> block_allocation \<times> ext4_st) res" where
  "reserve_oob_blocks alloc blocks s =
     bnd (split_allocation alloc blocks s) (\<lambda>(oob, alloc, s).
     if oob = None then Inr (- 1, alloc, s)
     else bnd (move_oob (Suc (mallocs s)) oob alloc s) (\<lambda>(alloc, s). Inr (0, alloc, s)))"

text \<open>
  \<^verbatim>\<open>advance_list_ptr\<close>: \<^verbatim>\<open>blocks\<close> is a signed int, compared as unsigned with the
  region length. The iterator itself is never moved to another region.
\<close>

fun advance_loop :: "nat \<Rightarrow> ext4_st \<Rightarrow> nat option \<Rightarrow> u32 \<Rightarrow> u32 \<Rightarrow> (int \<times> u32) res" where
  "advance_loop fuel s None blocks partial = Inr (if 0 < sint blocks then - 1 else 0, partial)"
| "advance_loop 0 s (Some a) blocks partial =
     (if 0 < sint blocks then Inl Diverges else Inr (0, partial))"
| "advance_loop (Suc fuel) s (Some a) blocks partial =
     (if 0 < sint blocks then
        bnd (region_at s (Some a)) (\<lambda>r.
        if partial + blocks < reg_len r then Inr (0, partial + blocks)
        else advance_loop fuel s (reg_next r) (blocks - (reg_len r - partial)) 0)
      else Inr (0, partial))"

definition advance_list_ptr :: "region_list \<Rightarrow> u32 \<Rightarrow> ext4_st \<Rightarrow> (int \<times> region_list) res" where
  "advance_list_ptr rl blocks s =
     bnd (advance_loop (mallocs s) s (rl_iter rl) blocks (rl_partial_iter rl)) (\<lambda>(r, partial).
     Inr (r, rl\<lparr>rl_partial_iter := partial\<rparr>))"

definition advance_blocks :: "block_allocation \<Rightarrow> u32 \<Rightarrow> ext4_st \<Rightarrow> (int \<times> block_allocation) res" where
  "advance_blocks alloc blocks s =
     bnd (advance_list_ptr (al_list alloc) blocks s) (\<lambda>(r, rl). Inr (r, alloc\<lparr>al_list := rl\<rparr>))"

definition advance_oob_blocks :: "block_allocation \<Rightarrow> u32 \<Rightarrow> ext4_st \<Rightarrow> (int \<times> block_allocation) res" where
  "advance_oob_blocks alloc blocks s =
     bnd (advance_list_ptr (al_oob_list alloc) blocks s) (\<lambda>(r, rl). Inr (r, alloc\<lparr>al_oob_list := rl\<rparr>))"

text \<open>
  The loop of \<^verbatim>\<open>append_oob_allocation\<close>: appending a region clears its
  \<^verbatim>\<open>next\<close>, so the step to \<^verbatim>\<open>reg->next\<close> always ends it.
\<close>

fun append_all :: "nat \<Rightarrow> nat option \<Rightarrow> region_list \<Rightarrow> ext4_st \<Rightarrow> (region_list \<times> ext4_st) res" where
  "append_all fuel None rl s = Inr (rl, s)"
| "append_all 0 (Some a) rl s = Inl Diverges"
| "append_all (Suc fuel) (Some a) rl s =
     bnd (region_list_append rl a s) (\<lambda>(rl, s).
     bnd (region_at s (Some a)) (\<lambda>r. append_all fuel (reg_next r) rl s))"

definition append_oob_allocation :: "block_allocation \<Rightarrow> u32 \<Rightarrow> ext4_st \<Rightarrow> (int \<times> block_allocation \<times> ext4_st) res" where
  "append_oob_allocation alloc len s =
     bnd (do_allocate len s) (\<lambda>(reg, s).
     if reg = None then error_then (force s) (- 1, alloc, s)
     else bnd (append_all (mallocs s) reg (al_oob_list alloc) s) (\<lambda>(rl, s).
          Inr (0, alloc\<lparr>al_oob_list := rl\<rparr>, s)))"

section \<open>Releasing an allocation\<close>

fun free_regions :: "nat \<Rightarrow> nat option \<Rightarrow> ext4_st \<Rightarrow> ext4_st res" where
  "free_regions fuel None s = Inr s"
| "free_regions 0 (Some a) s = Inl Diverges"
| "free_regions (Suc fuel) (Some a) s =
     bnd (region_at s (Some a)) (\<lambda>r.
     bnd (region_free (Some a) s) (\<lambda>s. free_regions fuel (reg_next r) s))"

text \<open>
  An allocation is a value of the model, not an object of its heap, so the last \<^verbatim>\<open>free(alloc)\<close> has no
  counterpart: what is modelled is that the regions of both lists are freed.
\<close>

definition free_alloc :: "block_allocation \<Rightarrow> ext4_st \<Rightarrow> ext4_st res" where
  "free_alloc alloc s =
     bnd (free_regions (mallocs s) (rl_first (al_list alloc)) s) (\<lambda>s.
     free_regions (mallocs s) (rl_first (al_oob_list alloc)) s)"

end
