(* ===== verification/Allocation.thy ===== *)
theory Allocation
  imports Regions
begin

text \<open>
  What the allocator of \<^verbatim>\<open>allocate.c\<close> guarantees. \<open>took s s' B\<close> relates two states
  when exactly the free blocks \<open>B\<close> were marked; every allocating operation is shown to be a
  \<open>took\<close> step, and to build a well linked list of regions for the blocks it took. The
  interface \<open>fresh_source\<close> states once that a sequence of requests never hands the same
  number out twice; it is interpreted for blocks and for inodes. The last sections show where the
  code does not do what it means to.
\<close>

section \<open>Blocks in use\<close>

definition used_fs :: "ext4_st \<Rightarrow> nat set" where
  "used_fs s = (\<Union>g < unat (groups (aux_info s)). used_blocks (unat (blocks_per_group (info s))) (bgs (aux_info s) ! g))"

text \<open>What allocation leaves alone: everything but block bitmaps, block counters and the heap.\<close>

definition same_inodes :: "block_group_info \<Rightarrow> block_group_info \<Rightarrow> bool" where
  "same_inodes bg bg' \<longleftrightarrow> bgi_inode_table bg' = bgi_inode_table bg \<and> bgi_free_inodes bg' = bgi_free_inodes bg \<and>
     bgi_first_free_inode bg' = bgi_first_free_inode bg \<and> bgi_flags bg' = bgi_flags bg \<and>
     bgi_used_dirs bg' = bgi_used_dirs bg \<and> bgi_has_superblock bg' = bgi_has_superblock bg \<and>
     bgi_first_block bg' = bgi_first_block bg"

definition same_env :: "ext4_st \<Rightarrow> ext4_st \<Rightarrow> bool" where
  "same_env s s' \<longleftrightarrow> info s' = info s \<and> force s' = force s \<and> oom s' = oom s \<and> sparse_err s' = sparse_err s \<and>
     mem s' = mem s \<and> sparse s' = sparse s \<and> mallocs s \<le> mallocs s' \<and>
     (\<exists>x. aux_info s' = (aux_info s)\<lparr>bgs := x\<rparr> \<and> list_all2 same_inodes (bgs (aux_info s)) x)"

lemma same_inodes_refl [simp]: "same_inodes bg bg"
  by (simp add: same_inodes_def)

lemma same_env_refl [simp]: "same_env s s"
  by (auto simp: same_env_def list_all2_same intro!: exI [of _ "bgs (aux_info s)"])

lemma same_env_trans: "same_env s t \<Longrightarrow> same_env t u \<Longrightarrow> same_env s u"
proof -
  assume st: "same_env s t" and tu: "same_env t u"
  obtain x where x: "aux_info t = (aux_info s)\<lparr>bgs := x\<rparr>" "list_all2 same_inodes (bgs (aux_info s)) x"
    using st by (auto simp: same_env_def)
  obtain y where y: "aux_info u = (aux_info t)\<lparr>bgs := y\<rparr>" "list_all2 same_inodes x y"
    using tu x by (auto simp: same_env_def)
  have "list_all2 same_inodes (bgs (aux_info s)) y"
    using x(2) y(2) by (rule list_all2_trans [rotated]) (auto simp: same_inodes_def)
  then show ?thesis using st tu x y by (auto simp: same_env_def)
qed

lemma same_env_groups:
  "same_env s s' \<Longrightarrow> info s' = info s \<and> groups (aux_info s') = groups (aux_info s) \<and> force s' = force s \<and>
     oom s' = oom s \<and> mallocs s \<le> mallocs s'"
  by (auto simp: same_env_def)

lemma same_env_regions [simp]: "same_env s (s'\<lparr>regions := h\<rparr>) = same_env s s'"
  by (simp add: same_env_def)

text \<open>
  Every group that never gave data blocks can give two (one is not enough: an allocation that
  starts with a one-block region cannot be shortened by a block), and its count of data blocks stays
  \<open>k\<close> away from wrapping: the count is not lowered when blocks are given back, so a run of
  the builder needs one unit of \<open>k\<close> per file.
\<close>

definition live_bg :: "nat \<Rightarrow> block_group_info \<Rightarrow> bool" where
  "live_bg k bg \<longleftrightarrow> unat (bgi_data_blocks_used bg) + unat (bgi_free_blocks bg) + k < 2 ^ 32 \<and>
     (bgi_data_blocks_used bg = 0 \<longrightarrow> 2 \<le> unat (bgi_free_blocks bg))"

definition live :: "nat \<Rightarrow> ext4_st \<Rightarrow> bool" where
  "live k s \<longleftrightarrow> (\<forall>g < unat (groups (aux_info s)). live_bg k (bgs (aux_info s) ! g))"

text \<open>The heap of regions is not part of the allocator's state.\<close>

lemma heap_irrelevant [simp]:
  "alloc_ok (s\<lparr>regions := h\<rparr>) = alloc_ok s" "alloc_ok (s\<lparr>mallocs := n\<rparr>) = alloc_ok s"
  "used_fs (s\<lparr>regions := h\<rparr>) = used_fs s" "used_fs (s\<lparr>mallocs := n\<rparr>) = used_fs s"
  "live k (s\<lparr>regions := h\<rparr>) = live k s" "live k (s\<lparr>mallocs := n\<rparr>) = live k s"
  by (simp_all add: alloc_ok_def used_fs_def live_def)

definition heap_ok :: "ext4_st \<Rightarrow> bool" where
  "heap_ok s \<longleftrightarrow> (\<forall>a. regions s a \<noteq> None \<longrightarrow> a < mallocs s)"

text \<open>The blocks \<open>B\<close> were free in \<open>s\<close> and are the only ones newly in use in \<open>s'\<close>.\<close>

definition group_range :: "ext4_st \<Rightarrow> nat \<Rightarrow> nat set" where
  "group_range s g = {unat (first_data_block (aux_info s)) + g * unat (blocks_per_group (info s))..<
     unat (first_data_block (aux_info s)) + g * unat (blocks_per_group (info s)) + unat (blocks_per_group (info s))}"

definition took :: "ext4_st \<Rightarrow> ext4_st \<Rightarrow> nat set \<Rightarrow> bool" where
  "took s s' B \<longleftrightarrow> alloc_ok s' \<and> same_env s s' \<and> B \<inter> used_fs s = {} \<and> used_fs s' = used_fs s \<union> B \<and>
     (\<forall>k. live k s \<longrightarrow> live k s') \<and>
     (\<forall>g < unat (groups (aux_info s)). bgs (aux_info s') ! g \<noteq> bgs (aux_info s) ! g \<longrightarrow> B \<inter> group_range s g \<noteq> {})"

lemma group_range_env: "same_env s t \<Longrightarrow> group_range t g = group_range s g"
  by (auto simp: same_env_def group_range_def)

lemma took_trans:
  assumes st: "took s t A" and tu: "took t u B"
  shows "A \<inter> B = {} \<and> took s u (A \<union> B)"
proof -
  have env: "same_env s t" "same_env t u" using st tu by (simp_all add: took_def)
  have "(A \<union> B) \<inter> group_range s g \<noteq> {}"
    if g: "g < unat (groups (aux_info s))" and c: "bgs (aux_info u) ! g \<noteq> bgs (aux_info s) ! g" for g
  proof (cases "bgs (aux_info t) ! g = bgs (aux_info s) ! g")
    case True
    then have "B \<inter> group_range t g \<noteq> {}" using tu c g same_env_groups [OF env(1)] by (simp add: took_def)
    then show ?thesis using group_range_env [OF env(1)] by auto
  next
    case False
    then show ?thesis using st g by (auto simp: took_def)
  qed
  then show ?thesis using st tu same_env_trans [OF env] by (auto simp: took_def)
qed

lemma used_fs_bg_put:
  assumes g: "g < unat (groups (aux_info s))" and l: "length (bgs (aux_info s)) = unat (groups (aux_info s))"
  shows "used_fs (bg_put (of_nat g) bg s) =
    (\<Union>h \<in> {..<unat (groups (aux_info s))} - {g}. used_blocks (unat (blocks_per_group (info s))) (bgs (aux_info s) ! h)) \<union>
    used_blocks (unat (blocks_per_group (info s))) bg"
proof -
  have "unat (of_nat g :: u32) = g"
    using g unat_u32 [of "groups (aux_info s)"] by (simp add: unat_of_nat)
  then have "used_fs (bg_put (of_nat g) bg s) =
     (\<Union>h \<in> insert g ({..<unat (groups (aux_info s))} - {g}).
        used_blocks (unat (blocks_per_group (info s))) (if g = h then bg else bgs (aux_info s) ! h))"
    unfolding used_fs_def using assms by (simp add: nth_list_update insert_absorb)
  then show ?thesis by (auto split: if_splits)
qed

lemma used_fs_split:
  assumes g: "g < unat (groups (aux_info s))"
  shows "used_fs s =
    (\<Union>h \<in> {..<unat (groups (aux_info s))} - {g}. used_blocks (unat (blocks_per_group (info s))) (bgs (aux_info s) ! h)) \<union>
    used_blocks (unat (blocks_per_group (info s))) (bgs (aux_info s) ! g)"
  unfolding used_fs_def using g by auto

text \<open>Groups own disjoint ranges of block numbers.\<close>

lemma used_blocks_range:
  "n \<in> used_blocks B bg \<Longrightarrow> unat (bgi_first_block bg) \<le> n \<and> n < unat (bgi_first_block bg) + B"
  by (auto simp: used_blocks_def)

lemma other_group_blocks:
  assumes ok: "alloc_ok s" and g: "g < unat (groups (aux_info s))"
    and n: "unat (bgi_first_block (bgs (aux_info s) ! g)) \<le> n"
       "n < unat (bgi_first_block (bgs (aux_info s) ! g)) + unat (blocks_per_group (info s))"
  shows "n \<notin> (\<Union>h \<in> {..<unat (groups (aux_info s))} - {g}.
           used_blocks (unat (blocks_per_group (info s))) (bgs (aux_info s) ! h))"
proof
  let ?B = "unat (blocks_per_group (info s))"
  assume "n \<in> (\<Union>h \<in> {..<unat (groups (aux_info s))} - {g}. used_blocks ?B (bgs (aux_info s) ! h))"
  then obtain h where h: "h < unat (groups (aux_info s))" "h \<noteq> g" "n \<in> used_blocks ?B (bgs (aux_info s) ! h)" by auto
  have f: "unat (bgi_first_block (bgs (aux_info s) ! k)) = unat (first_data_block (aux_info s)) + k * ?B"
    if "k < unat (groups (aux_info s))" for k
    using ok that by (simp add: alloc_ok_def bg_ok_def)
  note r = used_blocks_range [OF h(3)] n f [OF g] f [OF h(1)]
  consider "h + 1 \<le> g" | "g + 1 \<le> h" using h(2) by linarith
  then show False
    using r mult_le_mono1 [of "h + 1" g ?B] mult_le_mono1 [of "g + 1" h ?B] by cases auto
qed

section \<open>Taking blocks from one group\<close>

definition free_in :: "ext4_st \<Rightarrow> nat \<Rightarrow> nat" where
  "free_in s g = unat (bgi_free_blocks (bgs (aux_info s) ! g))"

text \<open>A region is on top of its group when it is the last run taken from it: only such a region can
  be shortened by \<^verbatim>\<open>reduce_allocation\<close>.\<close>

definition topped :: "ext4_st \<Rightarrow> region \<Rightarrow> bool" where
  "topped s r \<longleftrightarrow> unat (reg_bg r) < unat (groups (aux_info s)) \<and>
     (let bg = bgs (aux_info s) ! unat (reg_bg r) in
      unat (reg_block r) + unat (reg_len r) = unat (bgi_first_block bg) + unat (bgi_first_free_block bg) \<and>
      unat (reg_len r) \<le> unat (bgi_first_free_block bg))"


text \<open>A group after \<open>len\<close> blocks were taken from its first free one on; \<open>bm\<close> is its new bitmap.\<close>

definition taken :: "u32 \<Rightarrow> bytes \<Rightarrow> block_group_info \<Rightarrow> block_group_info" where
  "taken len bm b = b\<lparr>bgi_bitmaps := bm, bgi_free_blocks := bgi_free_blocks b - len,
     bgi_first_free_block := bgi_first_free_block b + len, bgi_data_blocks_used := bgi_data_blocks_used b + len\<rparr>"

lemma taken_group:
  assumes bok: "bg_ok fi a g b" and len: "unat len \<le> unat (bgi_free_blocks b)"
    and bm: "bits bm = bits (bgi_bitmaps b) \<union> {unat (bgi_first_free_block b)..<unat (bgi_first_free_block b) + unat len}"
    and ok1: "group_ok (unat (block_size fi)) (unat (blocks_per_group fi)) (b\<lparr>bgi_bitmaps := bm,
       bgi_free_blocks := bgi_free_blocks b - len, bgi_first_free_block := bgi_first_free_block b + len\<rparr>)"
  defines "blk \<equiv> unat (bgi_first_block b) + unat (bgi_first_free_block b)"
  shows "bg_ok fi a g (taken len bm b)"
    and "used_blocks (unat (blocks_per_group fi)) (taken len bm b) =
           used_blocks (unat (blocks_per_group fi)) b \<union> {blk..<blk + unat len}"
    and "{blk..<blk + unat len} \<inter> used_blocks (unat (blocks_per_group fi)) b = {}"
proof -
  let ?S = "unat (block_size fi)" and ?B = "unat (blocks_per_group fi)" and ?f = "bgi_first_free_block b"
  have gok: "group_ok ?S ?B b" and iok: "inode_ok ?S (unat (inodes_per_group fi)) b" using bok by (simp_all add: bg_ok_def)
  have lim: "unat ?f + unat (bgi_free_blocks b) \<le> ?B" "?B \<le> 8 * ?S" using gok by (simp_all add: group_ok_def)
  have "bits bm \<inter> {8 * ?S..} = bits (bgi_bitmaps b) \<inter> {8 * ?S..}" unfolding bm using lim len by auto
  then have "inode_ok ?S (unat (inodes_per_group fi)) (taken len bm b)"
    using iok ok1 by (simp add: inode_ok_def taken_def group_ok_def)
  moreover have "group_ok ?S ?B (taken len bm b)" using ok1 by (simp add: group_ok_def taken_def)
  ultimately show "bg_ok fi a g (taken len bm b)" using bok by (simp add: bg_ok_def taken_def)
  have "bits bm \<inter> {..<?B} = (bits (bgi_bitmaps b) \<inter> {..<?B}) \<union> {unat ?f..<unat ?f + unat len}"
    unfolding bm using lim len by auto
  then show "used_blocks ?B (taken len bm b) = used_blocks ?B b \<union> {blk..<blk + unat len}" unfolding used_blocks_def
    by (simp add: taken_def image_Un blk_def image_add_atLeastLessThan ac_simps)
  have e: "bits (bgi_bitmaps b) \<inter> {..<?B} = {..<?B} - {unat ?f..<unat ?f + unat (bgi_free_blocks b)}"
    using gok by (simp add: group_ok_def)
  have "n \<notin> used_blocks ?B b" if "n \<in> {blk..<blk + unat len}" for n
    unfolding used_blocks_def e using that len by (auto simp: blk_def)
  then show "{blk..<blk + unat len} \<inter> used_blocks ?B b = {}" by blast
qed

lemma taken_live:
  assumes "live_bg k b" and len: "unat len \<le> unat (bgi_free_blocks b)" "0 < len"
  shows "live_bg k (taken len bm b)"
proof -
  have d: "unat (bgi_data_blocks_used b) + unat (bgi_free_blocks b) + k < 2 ^ 32" using assms(1) by (auto simp: live_bg_def)
  have u: "unat (bgi_data_blocks_used b + len) = unat (bgi_data_blocks_used b) + unat len"
    "unat (bgi_free_blocks b - len) = unat (bgi_free_blocks b) - unat len"
    using d len by (simp_all add: unat_add_le unat_sub word_le_nat_alt)
  have "0 < unat len" using len by (simp add: word_less_nat_alt)
  then have "bgi_data_blocks_used b + len \<noteq> 0" using u(1) by (metis add_eq_0_iff_both_eq_0 less_numeral_extra(3) unat_0)
  then show ?thesis using u d len by (simp add: live_bg_def taken_def)
qed

lemma took_group:
  assumes ok: "alloc_ok s" and g: "g < unat (groups (aux_info s))"
    and bok: "bg_ok (info s) (aux_info s) g bg" and new: "used_blocks (unat (blocks_per_group (info s))) bg =
      used_blocks (unat (blocks_per_group (info s))) (bgs (aux_info s) ! g) \<union> N"
    and fresh: "N \<inter> used_blocks (unat (blocks_per_group (info s))) (bgs (aux_info s) ! g) = {}"
    and rng: "N \<noteq> {}" "N \<subseteq> group_range s g"
    and same: "same_inodes (bgs (aux_info s) ! g) bg" and lv: "\<And>k. live_bg k (bgs (aux_info s) ! g) \<Longrightarrow> live_bg k bg"
  shows "took s (bg_put (of_nat g) bg s) N"
proof -
  have l: "length (bgs (aux_info s)) = unat (groups (aux_info s))" using ok by (simp add: alloc_ok_def)
  have ug: "unat (of_nat g :: u32) = g" using g unat_u32 [of "groups (aux_info s)"] by (simp add: unat_of_nat)
  have fb: "unat (bgi_first_block (bgs (aux_info s) ! g)) =
      unat (first_data_block (aux_info s)) + g * unat (blocks_per_group (info s))"
    using ok g by (simp add: alloc_ok_def bg_ok_def)
  have "n \<notin> used_fs s" if "n \<in> N" for n
  proof -
    have "unat (bgi_first_block (bgs (aux_info s) ! g)) \<le> n"
      "n < unat (bgi_first_block (bgs (aux_info s) ! g)) + unat (blocks_per_group (info s))"
      using that rng(2) fb by (auto simp: group_range_def)
    then show ?thesis unfolding used_fs_split [OF g] using other_group_blocks [OF ok g] that fresh by blast
  qed
  then have "N \<inter> used_fs s = {}" by blast
  moreover have "same_env s (bg_put (of_nat g) bg s)"
  proof -
    have "list_all2 same_inodes (bgs (aux_info s)) ((bgs (aux_info s))[g := bg])"
      using g l same by (intro list_all2_all_nthI) (auto simp: nth_list_update same_inodes_def)
    then show ?thesis by (auto simp: same_env_def ug)
  qed
  moreover have "used_fs (bg_put (of_nat g) bg s) = used_fs s \<union> N"
    unfolding used_fs_bg_put [OF g l] used_fs_split [OF g] new by blast
  moreover have "live k (bg_put (of_nat g) bg s)" if "live k s" for k
    using that lv g l by (auto simp: live_def ug nth_list_update)
  moreover have "N \<inter> group_range s h \<noteq> {}"
    if "h < unat (groups (aux_info s))" "(bgs (aux_info s))[g := bg] ! h \<noteq> bgs (aux_info s) ! h" for h
  proof -
    have "h = g" using that l by (cases "h = g") auto
    then show ?thesis using rng by blast
  qed
  ultimately show ?thesis using alloc_ok_bg_put [OF ok bok g] by (simp add: took_def ug)
qed

lemma take_from_group:
  assumes ok: "alloc_ok s" and g: "g < unat (groups (aux_info s))"
    and len: "unat len \<le> unat (bgi_free_blocks (bgs (aux_info s) ! g))" and pos: "0 < len"
  obtains blk s' where "ext4_allocate_blocks_from_block_group len (of_nat g) s = Inr (blk, s')"
    and "blk \<noteq> EXT4_ALLOCATE_FAILED" and "unat blk + unat len < 2 ^ 32"
    and "regions s' = regions s" and "mallocs s' = mallocs s"
    and "took s s' {unat blk..<unat blk + unat len}"
    and "topped s' (mk_region blk len (of_nat g))" and "free_in s' g = free_in s g - unat len"
proof -
  let ?b = "bgs (aux_info s) ! g" and ?S = "unat (block_size (info s))" and ?B = "unat (blocks_per_group (info s))"
  let ?f = "bgi_first_free_block ?b"
  have l: "length (bgs (aux_info s)) = unat (groups (aux_info s))" and bok: "bg_ok (info s) (aux_info s) g ?b"
    using ok g by (simp_all add: alloc_ok_def)
  have gok: "group_ok ?S ?B ?b" and fb: "unat (bgi_first_block ?b) = unat (first_data_block (aux_info s)) + g * ?B"
    using bok by (simp_all add: bg_ok_def)
  have ug: "unat (of_nat g :: u32) = g" using g unat_u32 [of "groups (aux_info s)"] by (simp add: unat_of_nat)
  have lim: "unat ?f + unat (bgi_free_blocks ?b) \<le> ?B" "unat (bgi_first_block ?b) + ?B < 2 ^ 32 - 1"
    using gok by (simp_all add: group_ok_def)
  have pos': "0 < unat len" using pos by (simp add: word_less_nat_alt)
  obtain bm where r: "reserve_blocks (force s) ?b ?f len =
       Inr (0, ?b\<lparr>bgi_bitmaps := bm, bgi_free_blocks := bgi_free_blocks ?b - len, bgi_first_free_block := ?f + len\<rparr>)"
    and b: "bits bm = bits (bgi_bitmaps ?b) \<union> {unat ?f..<unat ?f + unat len}"
    and ok1: "group_ok ?S ?B (?b\<lparr>bgi_bitmaps := bm, bgi_free_blocks := bgi_free_blocks ?b - len,
                  bgi_first_free_block := ?f + len\<rparr>)"
    using reserve_first_free [OF gok len] .
  define blk where "blk = bgi_first_block ?b + ?f"
  let ?s = "bg_put (of_nat g) (taken len bm ?b) s"
  have ub: "unat blk = unat (bgi_first_block ?b) + unat ?f" using lim by (simp add: blk_def unat_add_le)
  note t = taken_group [OF bok len b ok1, folded ub]
  have run: "ext4_allocate_blocks_from_block_group len (of_nat g) s = Inr (blk, ?s)"
    using g l r len
    by (simp add: ext4_allocate_blocks_from_block_group_def get_free_blocks_def bg_at_def ug blk_def taken_def word_less_nat_alt)
  have rng: "{unat blk..<unat blk + unat len} \<noteq> {}" "{unat blk..<unat blk + unat len} \<subseteq> group_range s g"
    using ub lim fb len pos' by (auto simp: group_range_def)
  have "same_inodes ?b (taken len bm ?b)" by (simp add: same_inodes_def taken_def)
  then have tk: "took s ?s {unat blk..<unat blk + unat len}"
    using took_group [OF ok g t rng] taken_live [OF _ len pos] by blast
  have "unat (?f + len) = unat ?f + unat len" using lim len by (simp add: unat_add_le)
  then have top: "topped ?s (mk_region blk len (of_nat g))" using g l ub by (simp add: topped_def mk_region_def ug taken_def)
  have "blk \<noteq> EXT4_ALLOCATE_FAILED" using ub lim by (auto simp: word_unat_eq_iff)
  moreover have "free_in ?s g = free_in s g - unat len"
    using g l len by (simp add: free_in_def ug taken_def unat_sub word_le_nat_alt)
  ultimately show ?thesis using that [OF run] tk top ub lim len by simp
qed

lemma take_from_group_full:
  assumes "alloc_ok s" and "g < unat (groups (aux_info s))"
    and "unat (bgi_free_blocks (bgs (aux_info s) ! g)) < unat len"
  shows "ext4_allocate_blocks_from_block_group len (of_nat g) s = Inr (EXT4_ALLOCATE_FAILED, s)"
proof -
  have "unat (of_nat g :: u32) = g"
    using assms(2) unat_u32 [of "groups (aux_info s)"] by (simp add: unat_of_nat)
  then show ?thesis
    using assms by (simp add: ext4_allocate_blocks_from_block_group_def get_free_blocks_def bg_at_def
        alloc_ok_def word_less_nat_alt)
qed

section \<open>Taking blocks from some group\<close>

lemma try_groups_ok:
  assumes ok: "alloc_ok s" and pos: "0 < len" and sub: "\<forall>g \<in> set gs. g < unat (groups (aux_info s))"
  shows "(\<forall>g \<in> set gs. free_in s g < unat len) \<and> try_groups len (map of_nat gs) s = Inr (None, s) \<or>
    (\<exists>blk g s'. try_groups len (map of_nat gs) s = Inr (Some (blk, of_nat g), s') \<and> g \<in> set gs \<and>
       unat blk + unat len < 2 ^ 32 \<and> blk \<noteq> EXT4_ALLOCATE_FAILED \<and> regions s' = regions s \<and> mallocs s' = mallocs s \<and>
       took s s' {unat blk..<unat blk + unat len} \<and> topped s' (mk_region blk len (of_nat g)))"
  using sub
proof (induction gs)
  case (Cons g gs)
  have g: "g < unat (groups (aux_info s))" using Cons.prems by simp
  show ?case
  proof (cases "free_in s g < unat len")
    case True
    then have "try_groups len (map of_nat (g # gs)) s = try_groups len (map of_nat gs) s"
      using take_from_group_full [OF ok g] by (simp add: free_in_def)
    then show ?thesis using Cons True by auto
  next
    case False
    then have le: "unat len \<le> unat (bgi_free_blocks (bgs (aux_info s) ! g))" by (simp add: free_in_def)
    obtain blk s' where "ext4_allocate_blocks_from_block_group len (of_nat g) s = Inr (blk, s')"
      "blk \<noteq> EXT4_ALLOCATE_FAILED" "unat blk + unat len < 2 ^ 32" "regions s' = regions s" "mallocs s' = mallocs s"
      "took s s' {unat blk..<unat blk + unat len}" "topped s' (mk_region blk len (of_nat g))"
      "free_in s' g = free_in s g - unat len"
      using take_from_group [OF ok g le pos] .
    then show ?thesis by auto
  qed
qed simp

lemma all_groups_map: "all_groups s = map of_nat [0..<unat (groups (aux_info s))]"
  by (simp add: all_groups_def)

lemmas try_all_groups = try_groups_ok [of s len "[0..<unat (groups (aux_info s))]" for s len,
  folded all_groups_map]

text \<open>A region that stands alone.\<close>

definition region_blocks :: "region \<Rightarrow> nat set" where
  "region_blocks r = {unat (reg_block r)..<unat (reg_block r) + unat (reg_len r)}"

definition fresh_region :: "ext4_st \<Rightarrow> ext4_st \<Rightarrow> region \<Rightarrow> bool" where
  "fresh_region s s' r \<longleftrightarrow> regions s' = (regions s)(mallocs s \<mapsto> r) \<and> mallocs s' = mallocs s + 1 \<and>
     reg_next r = None \<and> reg_prev r = None \<and> 0 < reg_len r \<and> unat (reg_block r) + unat (reg_len r) < 2 ^ 32 \<and>
     took s s' (region_blocks r) \<and> topped s' r"

lemma topped_irrelevant [simp]:
  "topped (s\<lparr>regions := h\<rparr>) r = topped s r" "topped (s\<lparr>mallocs := n\<rparr>) r = topped s r"
  by (simp_all add: topped_def)

lemma took_new_region:
  assumes "took s s1 B" and "mallocs s1 = mallocs s"
  shows "took s (s1\<lparr>regions := h, mallocs := mallocs s + 1\<rparr>) B"
  using assms by (simp add: took_def same_env_def)

lemma new_region_fresh:
  assumes "took s s1 {unat blk..<unat blk + unat len}" and "regions s1 = regions s" and "mallocs s1 = mallocs s"
    and "unat blk + unat len < 2 ^ 32" and "0 < len" and "\<not> oom s (mallocs s)"
    and "topped s1 (mk_region blk len i)"
  shows "\<exists>s'. new_region (mk_region blk len i) s1 = Inr (mallocs s, s') \<and> fresh_region s s' (mk_region blk len i)"
proof -
  have "oom s1 = oom s" using assms(1) by (simp add: took_def same_env_groups)
  then show ?thesis
    using assms(2-) took_new_region [OF assms(1,3)]
    by (simp add: new_region_def fresh_region_def region_blocks_def) (simp add: mk_region_def)
qed

lemma contiguous_ok:
  assumes ok: "alloc_ok s" and pos: "0 < len" and m: "\<not> oom s (mallocs s)"
  shows "(\<forall>g < unat (groups (aux_info s)). free_in s g < unat len) \<and>
       ext4_allocate_contiguous_blocks len s = Inr (None, s) \<or>
    (\<exists>s' r. ext4_allocate_contiguous_blocks len s = Inr (Some (mallocs s), s') \<and>
       fresh_region s s' r \<and> reg_len r = len)"
proof -
  have all: "\<forall>g \<in> set [0..<unat (groups (aux_info s))]. g < unat (groups (aux_info s))" by simp
  note t = try_groups_ok [OF ok pos all, folded all_groups_map]
  show ?thesis
    using t
  proof
    assume "(\<forall>g \<in> set [0..<unat (groups (aux_info s))]. free_in s g < unat len) \<and>
      try_groups len (all_groups s) s = Inr (None, s)"
    then show ?thesis by (simp add: ext4_allocate_contiguous_blocks_def)
  next
    assume "\<exists>blk g s'. try_groups len (all_groups s) s = Inr (Some (blk, of_nat g), s') \<and>
       g \<in> set [0..<unat (groups (aux_info s))] \<and> unat blk + unat len < 2 ^ 32 \<and> blk \<noteq> EXT4_ALLOCATE_FAILED \<and>
       regions s' = regions s \<and> mallocs s' = mallocs s \<and> took s s' {unat blk..<unat blk + unat len} \<and>
       topped s' (mk_region blk len (of_nat g))"
    then obtain blk g s1 where t: "try_groups len (all_groups s) s = Inr (Some (blk, of_nat g), s1)"
      and f: "took s s1 {unat blk..<unat blk + unat len}" "regions s1 = regions s" "mallocs s1 = mallocs s"
        "unat blk + unat len < 2 ^ 32" and tp: "topped s1 (mk_region blk len (of_nat g))" by auto
    obtain s' where "new_region (mk_region blk len (of_nat g)) s1 = Inr (mallocs s, s')"
      "fresh_region s s' (mk_region blk len (of_nat g))"
      using new_region_fresh [OF f pos m tp] by blast
    then show ?thesis
      using t by (auto simp: ext4_allocate_contiguous_blocks_def mk_region_def)
  qed
qed

text \<open>
  \<^verbatim>\<open>allocate_block\<close> hands out a block that was free, marks it and nothing else, and
  reports failure only when no group has a free block.
\<close>

theorem allocate_block_fresh:
  assumes ok: "alloc_ok s"
  shows "(\<forall>g < unat (groups (aux_info s)). free_in s g = 0) \<and> allocate_block s = Inr (EXT4_ALLOCATE_FAILED, s) \<or>
    (\<exists>blk s'. allocate_block s = Inr (blk, s') \<and> blk \<noteq> EXT4_ALLOCATE_FAILED \<and> alloc_ok s' \<and>
       unat blk \<notin> used_fs s \<and> used_fs s' = insert (unat blk) (used_fs s))"
proof -
  have all: "\<forall>g \<in> set [0..<unat (groups (aux_info s))]. g < unat (groups (aux_info s))" by simp
  have one: "(0 :: u32) < 1" by simp
  show ?thesis
    using try_groups_ok [OF ok one all, folded all_groups_map]
    by (elim disjE exE conjE) (auto simp: allocate_block_def took_def)
qed


section \<open>Allocations spread over groups\<close>

lemma find_unused_ok:
  assumes l: "length (bgs (aux_info s)) = unat (groups (aux_info s))" and sub: "\<forall>g \<in> set gs. g < unat (groups (aux_info s))"
  shows "find_unused (map of_nat gs) s = Inr None \<and> (\<forall>g \<in> set gs. bgi_data_blocks_used (bgs (aux_info s) ! g) \<noteq> 0) \<or>
    (\<exists>g \<in> set gs. find_unused (map of_nat gs) s = Inr (Some (of_nat g)) \<and> bgi_data_blocks_used (bgs (aux_info s) ! g) = 0)"
  using sub
proof (induction gs)
  case (Cons g gs)
  have "unat (of_nat g :: u32) = g"
    using Cons.prems unat_u32 [of "groups (aux_info s)"] by (simp add: unat_of_nat)
  then have "bg_at s (of_nat g) = Inr (bgs (aux_info s) ! g)" using Cons.prems l by (simp add: bg_at_def)
  then show ?case using Cons by auto
qed simp

lemma get_free_blocks_ok:
  "alloc_ok s \<Longrightarrow> g < unat (groups (aux_info s)) \<Longrightarrow>
   get_free_blocks s (of_nat g) = Inr (bgi_free_blocks (bgs (aux_info s) ! g))"
  using unat_u32 [of "groups (aux_info s)"]
  by (simp add: get_free_blocks_def bg_at_def alloc_ok_def unat_of_nat)

lemma partial_ok:
  assumes ok: "alloc_ok s" and lv: "live k s" and m: "\<not> oom s (mallocs s)" and pos: "0 < len"
  shows "ext4_allocate_partial len s = Inr (None, s) \<or>
    (\<exists>s' r. ext4_allocate_partial len s = Inr (Some (mallocs s), s') \<and> fresh_region s s' r \<and> reg_len r \<le> len \<and>
       (reg_len r = len \<or> free_in s' (unat (reg_bg r)) = 0 \<and> 2 \<le> unat (reg_len r)))"
proof -
  have all: "\<forall>g \<in> set [0..<unat (groups (aux_info s))]. g < unat (groups (aux_info s))" by simp
  have l: "length (bgs (aux_info s)) = unat (groups (aux_info s))" using ok by (simp add: alloc_ok_def)
  consider (none) "find_unused (all_groups s) s = Inr None"
    | (some) g where "g < unat (groups (aux_info s))" "find_unused (all_groups s) s = Inr (Some (of_nat g))"
        "bgi_data_blocks_used (bgs (aux_info s) ! g) = 0"
    using find_unused_ok [OF l all, folded all_groups_map] by auto
  then show ?thesis
  proof cases
    case none
    then show ?thesis by (simp add: ext4_allocate_partial_def)
  next
    case some
    let ?n = "bgi_free_blocks (bgs (aux_info s) ! g)"
    note fr = get_free_blocks_ok [OF ok some(1)]
    show ?thesis
    proof (cases "len \<le> ?n")
      case True
      then have run: "ext4_allocate_partial len s = ext4_allocate_contiguous_blocks len s"
        using some fr by (simp add: ext4_allocate_partial_def)
      have "\<not> free_in s g < unat len" using True by (simp add: free_in_def word_le_nat_alt)
      then show ?thesis
        using contiguous_ok [OF ok pos m] some(1) unfolding run by (auto intro: order_refl)
    next
      case False
      have n2: "2 \<le> unat ?n" using lv some by (auto simp: live_def live_bg_def)
      then have n0: "0 < ?n" by (simp add: word_less_nat_alt)
      obtain blk s1 where t: "ext4_allocate_blocks_from_block_group ?n (of_nat g) s = Inr (blk, s1)"
        "blk \<noteq> EXT4_ALLOCATE_FAILED" "unat blk + unat ?n < 2 ^ 32" "regions s1 = regions s" "mallocs s1 = mallocs s"
        "took s s1 {unat blk..<unat blk + unat ?n}" "topped s1 (mk_region blk ?n (of_nat g))"
        "free_in s1 g = free_in s g - unat ?n"
        using take_from_group [OF ok some(1) order_refl n0] .
      obtain s' where "new_region (mk_region blk ?n (of_nat g)) s1 = Inr (mallocs s, s')"
        "fresh_region s s' (mk_region blk ?n (of_nat g))"
        using new_region_fresh [OF t(6,4,5,3) n0 m t(7)] by blast
      moreover have "free_in s' (unat (of_nat g :: u32)) = 0"
        using t(8) some(1) unat_u32 [of "groups (aux_info s)"] calculation
        by (auto simp: free_in_def unat_of_nat outcome_simps)
      ultimately show ?thesis
        using some fr False t(1-6) n2 by (auto simp: ext4_allocate_partial_def mk_region_def)
    qed
  qed
qed

text \<open>A doubly linked list of regions: \<open>as\<close> are the nodes from \<open>p\<close> on and
  \<open>pv\<close> is what the first one names as its predecessor.\<close>

fun dchain :: "(nat \<Rightarrow> region option) \<Rightarrow> nat option \<Rightarrow> nat option \<Rightarrow> nat list \<Rightarrow> bool" where
  "dchain h pv p [] \<longleftrightarrow> p = None"
| "dchain h pv p (a # as) \<longleftrightarrow> p = Some a \<and>
     (\<exists>r. h a = Some r \<and> reg_prev r = pv \<and> dchain h (Some a) (reg_next r) as)"

definition region_list_of :: "(nat \<Rightarrow> region option) \<Rightarrow> nat list \<Rightarrow> region list" where
  "region_list_of h as = map (\<lambda>a. the (h a)) as"

definition blocks_of :: "region list \<Rightarrow> nat list" where
  "blocks_of rs = concat (map (\<lambda>r. [unat (reg_block r)..<unat (reg_block r) + unat (reg_len r)]) rs)"

lemma dchain_cong: "(\<And>a. a \<in> set as \<Longrightarrow> h a = h' a) \<Longrightarrow> dchain h pv p as = dchain h' pv p as"
  by (induction as arbitrary: pv p) auto

lemma region_list_of_cong: "(\<And>a. a \<in> set as \<Longrightarrow> h a = h' a) \<Longrightarrow> region_list_of h as = region_list_of h' as"
  by (simp add: region_list_of_def)

lemma length_blocks_of: "length (blocks_of rs) = sum_list (map (\<lambda>r. unat (reg_len r)) rs)"
  by (simp add: blocks_of_def length_concat comp_def)

lemma blocks_of_Cons: "blocks_of (r # rs) = [unat (reg_block r)..<unat (reg_block r) + unat (reg_len r)] @ blocks_of rs"
  by (simp add: blocks_of_def)

lemma set_region_upt: "set [unat (reg_block r)..<unat (reg_block r) + unat (reg_len r)] = region_blocks r"
  by (auto simp: region_blocks_def)

definition good_region :: "region \<Rightarrow> bool" where
  "good_region r \<longleftrightarrow> 0 < reg_len r \<and> unat (reg_block r) + unat (reg_len r) < 2 ^ 32"

text \<open>
  The result of allocating \<open>n\<close> blocks as a list of new regions \<open>as\<close>: well linked, as
  long as asked, without repetition, and taken from the free blocks.
\<close>

definition allocated :: "ext4_st \<Rightarrow> ext4_st \<Rightarrow> nat option \<Rightarrow> nat option \<Rightarrow> nat list \<Rightarrow> nat \<Rightarrow> bool" where
  "allocated s s' pv p as n \<longleftrightarrow> dchain (regions s') pv p as \<and> distinct as \<and> (\<forall>a \<in> set as. mallocs s \<le> a) \<and>
     (\<forall>r \<in> set (region_list_of (regions s') as). good_region r) \<and>
     length (blocks_of (region_list_of (regions s') as)) = n \<and>
     distinct (blocks_of (region_list_of (regions s') as)) \<and>
     took s s' (set (blocks_of (region_list_of (regions s') as)))"

lemma took_refl: "alloc_ok s \<Longrightarrow> took s s {}"
  by (simp add: took_def)

lemma fresh_region_took: "fresh_region s s' r \<Longrightarrow> took s s' (region_blocks r)"
  by (simp add: fresh_region_def)

text \<open>Linking a region behind its predecessor changes two nodes of the heap.\<close>

definition link :: "nat option \<Rightarrow> nat \<Rightarrow> (nat \<Rightarrow> region option) \<Rightarrow> nat \<Rightarrow> region option" where
  "link pv a h = (case pv of None \<Rightarrow> h
     | Some p \<Rightarrow> (h(p \<mapsto> (the (h p))\<lparr>reg_next := Some a\<rparr>))(a \<mapsto> (the (h a))\<lparr>reg_prev := pv\<rparr>))"


lemma took_irrelevant [simp]:
  "took (s\<lparr>regions := h\<rparr>) s' B = took s s' B" "took s (s'\<lparr>regions := h\<rparr>) B = took s s' B"
  by (simp_all add: took_def same_env_def group_range_def)

text \<open>One iteration of the loop, once the new region is there.\<close>

lemma multiple_loop_step:
  assumes part: "ext4_allocate_partial len s = Inr (Some (mallocs s), s1)"
    and rm: "regions s1 = (regions s)(mallocs s \<mapsto> r)"
    and pos: "0 < len" and hp: "heap_ok s" and pv: "\<forall>p. pv = Some p \<longrightarrow> regions s p \<noteq> None"
  shows "multiple_loop (Suc fuel) first pv len s =
    multiple_loop fuel (if first = None then Some (mallocs s) else first) (Some (mallocs s)) (len - reg_len r)
      (s1\<lparr>regions := link pv (mallocs s) (regions s1)\<rparr>)"
proof -
  have ne: "len \<noteq> 0" using pos by auto
  show ?thesis
  proof (cases pv)
    case None
    have "regions s1 (mallocs s) = Some r" by (simp add: rm)
    then show ?thesis using None part ne by (simp add: link_def region_at_def)
  next
    case (Some p)
    then obtain q where q: "regions s p = Some q" using pv by auto
    then have lt: "p < mallocs s" using hp by (auto simp: heap_ok_def)
    then have "p \<noteq> mallocs s" by simp
    then show ?thesis
      using Some part rm ne q by (simp add: link_def region_at_def region_upd_def fun_upd_twist)
  qed
qed

definition agrees :: "nat option \<Rightarrow> nat option \<Rightarrow> ext4_st \<Rightarrow> ext4_st \<Rightarrow> bool" where
  "agrees pv p s s' \<longleftrightarrow> (\<forall>a < mallocs s. regions s' a =
     (if pv = Some a then map_option (\<lambda>r. r\<lparr>reg_next := p\<rparr>) (regions s a) else regions s a))"

lemma allocated_Cons:
  assumes fr: "fresh_region s s1 r" and hp: "heap_ok s" and pv: "\<forall>p. pv = Some p \<longrightarrow> regions s p \<noteq> None"
    and s2: "s2 = s1\<lparr>regions := link pv (mallocs s) (regions s1)\<rparr>"
    and al: "allocated s2 s' (Some (mallocs s)) p as n" and ag: "agrees (Some (mallocs s)) p s2 s'"
  shows "allocated s s' pv (Some (mallocs s)) (mallocs s # as) (unat (reg_len r) + n)"
    and "agrees pv (Some (mallocs s)) s s'"
proof -
  let ?m = "mallocs s"
  have m1: "mallocs s2 = ?m + 1" and rm: "regions s1 = (regions s)(?m \<mapsto> r)"
    using fr s2 by (simp_all add: fresh_region_def)
  have ne: "pv \<noteq> Some ?m" using pv hp by (auto simp: heap_ok_def)
  have rs2: "regions s2 ?m = Some (r\<lparr>reg_prev := pv\<rparr>)"
    using rm s2 fr by (auto simp: link_def fresh_region_def split: option.splits)
  have rs': "regions s' ?m = Some (r\<lparr>reg_prev := pv, reg_next := p\<rparr>)"
    using ag rs2 m1 by (simp add: agrees_def)
  have rl: "region_list_of (regions s') (?m # as) = r\<lparr>reg_prev := pv, reg_next := p\<rparr> # region_list_of (regions s') as"
    by (simp add: region_list_of_def rs')
  have bl: "blocks_of (region_list_of (regions s') (?m # as)) =
      [unat (reg_block r)..<unat (reg_block r) + unat (reg_len r)] @ blocks_of (region_list_of (regions s') as)"
    unfolding rl by (simp add: blocks_of_Cons)
  have tk: "took s s2 (region_blocks r)" using fresh_region_took [OF fr] by (simp add: s2)
  have tk2: "took s2 s' (set (blocks_of (region_list_of (regions s') as)))" using al by (simp add: allocated_def)
  note tt = took_trans [OF tk tk2]
  have "set (blocks_of (region_list_of (regions s') (?m # as))) =
      region_blocks r \<union> set (blocks_of (region_list_of (regions s') as))"
    unfolding bl set_append set_region_upt by simp
  moreover have "distinct (blocks_of (region_list_of (regions s') (?m # as)))"
    unfolding bl distinct_append using al tt by (simp add: allocated_def region_blocks_def)
  moreover have "length (blocks_of (region_list_of (regions s') (?m # as))) = unat (reg_len r) + n"
    unfolding bl using al by (simp add: allocated_def)
  ultimately show "allocated s s' pv (Some ?m) (?m # as) (unat (reg_len r) + n)"
    unfolding allocated_def using al tt rs' m1 fr
    by (auto simp: allocated_def rl good_region_def fresh_region_def)
  show "agrees pv (Some ?m) s s'"
    unfolding agrees_def
  proof (intro allI impI)
    fix a assume a: "a < ?m"
    then have "regions s' a = regions s2 a" using ag m1 by (simp add: agrees_def)
    moreover have "regions s2 a = (if pv = Some a then map_option (\<lambda>r. r\<lparr>reg_next := Some ?m\<rparr>) (regions s a) else regions s a)"
      using a rm s2 pv by (auto simp: link_def split: option.splits)
    ultimately show "regions s' a =
        (if pv = Some a then map_option (\<lambda>r. r\<lparr>reg_next := Some ?m\<rparr>) (regions s a) else regions s a)" by simp
  qed
qed

lemma full_group_used:
  assumes ok: "alloc_ok s" and g: "g < unat (groups (aux_info s))" and z: "free_in s g = 0"
  shows "group_range s g \<subseteq> used_fs s"
proof -
  let ?B = "unat (blocks_per_group (info s))" and ?b = "bgs (aux_info s) ! g"
  have gok: "group_ok (unat (block_size (info s))) ?B ?b"
    and f: "unat (bgi_first_block ?b) = unat (first_data_block (aux_info s)) + g * ?B"
    using ok g by (simp_all add: alloc_ok_def bg_ok_def)
  have "bits (bgi_bitmaps ?b) \<inter> {..<?B} = {..<?B}" using gok z by (simp add: group_ok_def free_in_def)
  then have "used_blocks ?B ?b = group_range s g"
    unfolding used_blocks_def group_range_def f by (simp add: image_add_atLeastLessThan lessThan_atLeast0 ac_simps)
  then show ?thesis unfolding used_fs_def using g by blast
qed

lemma topped_took:
  assumes tp: "topped s r" and tk: "took s s' B" and ok: "alloc_ok s"
    and d: "B = {} \<or> free_in s (unat (reg_bg r)) = 0"
  shows "topped s' r"
proof -
  let ?g = "unat (reg_bg r)"
  have g: "?g < unat (groups (aux_info s))" using tp by (simp add: topped_def)
  have "B \<inter> group_range s ?g = {}"
    using d full_group_used [OF ok g] tk by (auto simp: took_def)
  then have "bgs (aux_info s') ! ?g = bgs (aux_info s) ! ?g" using tk g by (auto simp: took_def)
  moreover have "groups (aux_info s') = groups (aux_info s)" using tk by (simp add: took_def same_env_groups)
  ultimately show ?thesis using tp by (simp add: topped_def)
qed

lemma topped_links [simp]: "topped s (r\<lparr>reg_prev := a, reg_next := b\<rparr>) = topped s r"
  by (simp add: topped_def)

lemma multiple_loop_ok:
  assumes "unat len < fuel" "alloc_ok s" "live k s" "heap_ok s" "\<forall>n. \<not> oom s n"
    "\<forall>p. pv = Some p \<longrightarrow> (\<exists>r. regions s p = Some r \<and> reg_next r = None)"
  shows "(\<exists>s' B. multiple_loop fuel first pv len s = Inr (None, s') \<and> took s s' B \<and> heap_ok s') \<or>
    (\<exists>s' as p. multiple_loop fuel first pv len s = Inr (if first = None then p else first, s') \<and>
       allocated s s' pv p as (unat len) \<and> heap_ok s' \<and> agrees pv p s s' \<and>
       (\<forall>a bs. as = a # bs \<longrightarrow> topped s' (the (regions s' a)) \<and>
          (2 \<le> unat len \<longrightarrow> 2 \<le> unat (reg_len (the (regions s' a))))))"
  using assms
proof (induction fuel arbitrary: first pv len s)
  case (Suc fuel)
  have pvd: "\<forall>p. pv = Some p \<longrightarrow> regions s p \<noteq> None" using Suc.prems(6) by auto
  show ?case
  proof (cases "len = 0")
    case True
    have "agrees pv None s s" using Suc.prems(6) by (auto simp: agrees_def)
    moreover have "allocated s s pv None [] (unat len)"
      using True took_refl [OF Suc.prems(2)] by (simp add: allocated_def region_list_of_def blocks_of_def)
    ultimately show ?thesis
      using True Suc.prems(4) by (intro disjI2 exI [of _ s] exI [of _ "[]"] exI [of _ None]) simp
  next
    case False
    then have pos: "0 < len" by (simp add: word_neq_0_conv)
    have m: "\<not> oom s (mallocs s)" using Suc.prems(5) by simp
    show ?thesis
      using partial_ok [OF Suc.prems(2,3) m pos]
    proof
      assume "ext4_allocate_partial len s = Inr (None, s)"
      then show ?thesis using False took_refl [OF Suc.prems(2)] Suc.prems(4) by auto
    next
      assume "\<exists>s' r. ext4_allocate_partial len s = Inr (Some (mallocs s), s') \<and> fresh_region s s' r \<and> reg_len r \<le> len \<and>
        (reg_len r = len \<or> free_in s' (unat (reg_bg r)) = 0 \<and> 2 \<le> unat (reg_len r))"
      then obtain s1 r where part: "ext4_allocate_partial len s = Inr (Some (mallocs s), s1)"
        and fr: "fresh_region s s1 r" and le: "reg_len r \<le> len"
        and full: "reg_len r = len \<or> free_in s1 (unat (reg_bg r)) = 0 \<and> 2 \<le> unat (reg_len r)" by blast
      define s2 where "s2 = s1\<lparr>regions := link pv (mallocs s) (regions s1)\<rparr>"
      define first' where "first' = (if first = None then Some (mallocs s) else first)"
      have rm: "regions s1 = (regions s)(mallocs s \<mapsto> r)" using fr by (simp add: fresh_region_def)
      note step = multiple_loop_step [OF part rm pos Suc.prems(4) pvd, of fuel first, folded s2_def first'_def]
      have tk: "took s s2 (region_blocks r)" using fresh_region_took [OF fr] by (simp add: s2_def)
      have f1: "mallocs s1 = mallocs s + 1" "regions s1 = (regions s)(mallocs s \<mapsto> r)" "reg_next r = None" "0 < reg_len r"
        using fr by (simp_all add: fresh_region_def)
      have "\<not> (\<exists>p. pv = Some p \<and> \<not> p < mallocs s)" using pvd Suc.prems(4) by (auto simp: heap_ok_def)
      then have h2: "heap_ok s2"
        using Suc.prems(4) f1 by (auto simp: heap_ok_def s2_def link_def less_Suc_eq split: option.splits if_splits)
      have m2: "\<exists>q. regions s2 (mallocs s) = Some q \<and> reg_next q = None"
        using f1 by (auto simp: s2_def link_def split: option.splits)
      have u: "unat (len - reg_len r) = unat len - unat (reg_len r)" using le by (simp add: unat_sub)
      have "unat (len - reg_len r) < fuel"
        using Suc.prems(1) u f1(4) le by (simp add: word_less_nat_alt word_le_nat_alt)
      moreover have "alloc_ok s2" "live k s2" "\<forall>n. \<not> oom s2 n"
        using tk Suc.prems(3,5) by (auto simp: took_def same_env_groups)
      ultimately consider (fail) s' B where "multiple_loop fuel first' (Some (mallocs s)) (len - reg_len r) s2 = Inr (None, s')" "took s2 s' B" "heap_ok s'"
        | (ok) s' as p where "multiple_loop fuel first' (Some (mallocs s)) (len - reg_len r) s2 = Inr (if first' = None then p else first', s')"
            "allocated s2 s' (Some (mallocs s)) p as (unat (len - reg_len r))" "heap_ok s'" "agrees (Some (mallocs s)) p s2 s'"
        using Suc.IH [of "len - reg_len r" s2 "Some (mallocs s)" first'] h2 m2 by blast
      then show ?thesis
      proof cases
        case fail
        then show ?thesis using took_trans [OF tk fail(2)] step fail(3) by auto
      next
        case ok
        note c = allocated_Cons [OF fr Suc.prems(4) pvd s2_def ok(2,4)]
        have "took s2 s' (set (blocks_of (region_list_of (regions s') as)))" using ok(2) by (simp add: allocated_def)
        moreover have "set (blocks_of (region_list_of (regions s') as)) = {} \<or> free_in s2 (unat (reg_bg r)) = 0"
          using full ok(2) by (auto simp: allocated_def s2_def free_in_def)
        moreover have "topped s2 r" using fr by (simp add: fresh_region_def s2_def)
        moreover have "alloc_ok s2" using tk by (simp add: took_def)
        ultimately have "topped s' r" by (blast intro: topped_took)
        moreover have "regions s' (mallocs s) = Some (r\<lparr>reg_prev := pv, reg_next := p\<rparr>)"
        proof -
          have "regions s2 (mallocs s) = Some (r\<lparr>reg_prev := pv\<rparr>)"
            using fr by (auto simp: link_def fresh_region_def s2_def split: option.splits)
          then show ?thesis using ok(4) f1(1) by (simp add: agrees_def s2_def)
        qed
        ultimately have tp: "topped s' (the (regions s' (mallocs s)))"
          "2 \<le> unat len \<longrightarrow> 2 \<le> unat (reg_len (the (regions s' (mallocs s))))" using full by auto
        have "unat (reg_len r) + unat (len - reg_len r) = unat len" using u le by (simp add: word_le_nat_alt)
        then show ?thesis
          using c ok(1,3) step tp
          by (intro disjI2 exI [of _ s'] exI [of _ "mallocs s # as"] exI [of _ "Some (mallocs s)"])
            (simp add: first'_def split: if_splits)
      qed
    qed
  qed
qed simp


lemma allocated_single:
  assumes "fresh_region s s' r"
  shows "allocated s s' None (Some (mallocs s)) [mallocs s] (unat (reg_len r))"
  using assms fresh_region_took [OF assms]
  by (auto simp: allocated_def fresh_region_def region_list_of_def blocks_of_def good_region_def region_blocks_def)

lemma fresh_region_heap: "fresh_region s s' r \<Longrightarrow> heap_ok s \<Longrightarrow> heap_ok s'"
  by (auto simp: heap_ok_def fresh_region_def less_Suc_eq)

lemma do_allocate_cases:
  assumes ok: "alloc_ok s" and lv: "live k s" and hp: "heap_ok s" and m: "\<forall>n. \<not> oom s n" and pos: "0 < len"
  shows "(\<exists>s' B. do_allocate len s = Inr (None, s') \<and> took s s' B \<and> heap_ok s' \<and> (\<forall>g < unat (groups (aux_info s)). free_in s g < unat len)) \<or>
    (\<exists>s' a as. do_allocate len s = Inr (Some a, s') \<and> allocated s s' None (Some a) (a # as) (unat len) \<and>
       heap_ok s' \<and> (\<forall>b < mallocs s. regions s' b = regions s b) \<and> topped s' (the (regions s' a)) \<and>
       (2 \<le> unat len \<longrightarrow> 2 \<le> unat (reg_len (the (regions s' a)))))"
proof -
  have m0: "\<not> oom s (mallocs s)" using m by simp
  show ?thesis
    using contiguous_ok [OF ok pos m0]
  proof
    assume "\<exists>s' r. ext4_allocate_contiguous_blocks len s = Inr (Some (mallocs s), s') \<and> fresh_region s s' r \<and> reg_len r = len"
    then obtain s' r where c: "ext4_allocate_contiguous_blocks len s = Inr (Some (mallocs s), s')"
      and fr: "fresh_region s s' r" and l: "reg_len r = len" by blast
    have "do_allocate len s = Inr (Some (mallocs s), s')" using c by (simp add: do_allocate_def)
    moreover have "allocated s s' None (Some (mallocs s)) [mallocs s] (unat len)"
      using allocated_single [OF fr] l by simp
    moreover have "\<forall>b < mallocs s. regions s' b = regions s b" using fr by (simp add: fresh_region_def)
    moreover have "topped s' (the (regions s' (mallocs s)))" "reg_len (the (regions s' (mallocs s))) = len"
      using fr l by (simp_all add: fresh_region_def)
    ultimately show ?thesis using fresh_region_heap [OF fr hp] by blast
  next
    assume c: "(\<forall>g < unat (groups (aux_info s)). free_in s g < unat len) \<and> ext4_allocate_contiguous_blocks len s = Inr (None, s)"
    then have run: "do_allocate len s = multiple_loop (Suc (unat len)) None None len s"
      by (simp add: do_allocate_def ext4_allocate_multiple_contiguous_blocks_def)
    have "unat len < Suc (unat len)" by simp
    from multiple_loop_ok [OF this ok lv hp m, of None None]
    consider (fail) s' B where "multiple_loop (Suc (unat len)) None None len s = Inr (None, s')" "took s s' B" "heap_ok s'"
      | (ok) s' as p where "multiple_loop (Suc (unat len)) None None len s = Inr (p, s')"
          "allocated s s' None p as (unat len)" "heap_ok s'" "agrees None p s s'"
          "\<forall>a bs. as = a # bs \<longrightarrow> topped s' (the (regions s' a)) \<and>
            (2 \<le> unat len \<longrightarrow> 2 \<le> unat (reg_len (the (regions s' a))))" by auto
    then show ?thesis
    proof cases
      case fail
      then show ?thesis using c run by auto
    next
      case ok
      have "as \<noteq> []"
        using ok(2) pos by (auto simp: allocated_def region_list_of_def blocks_of_def word_less_nat_alt)
      then obtain a bs where "as = a # bs" by (cases as) auto
      moreover have "\<forall>b < mallocs s. regions s' b = regions s b" using ok(4) by (simp add: agrees_def)
      moreover have "p = Some a" using ok(2) calculation by (simp add: allocated_def)
      ultimately show ?thesis using ok run by auto
    qed
  qed
qed

section \<open>What an allocation is\<close>

text \<open>
  An allocation whose main list is the well linked list \<open>as\<close> and whose iterator is at its
  start.
\<close>

definition alloc_nodes :: "ext4_st \<Rightarrow> block_allocation \<Rightarrow> nat list \<Rightarrow> bool" where
  "alloc_nodes s alloc as \<longleftrightarrow> dchain (regions s) None (rl_first (al_list alloc)) as \<and>
     rl_iter (al_list alloc) = rl_first (al_list alloc) \<and> rl_partial_iter (al_list alloc) = 0 \<and>
     al_oob_list alloc = empty_list"

definition alloc_at :: "nat \<Rightarrow> block_allocation" where
  "alloc_at a = \<lparr>al_list = \<lparr>rl_first = Some a, rl_last = Some a, rl_iter = Some a, rl_partial_iter = 0\<rparr>,
     al_oob_list = empty_list\<rparr>"

lemma allocated_mallocs: "allocated s s' pv p as n \<Longrightarrow> allocated s (s'\<lparr>mallocs := Suc (mallocs s')\<rparr>) pv p as n"
  by (auto simp: allocated_def took_def same_env_def)

lemma allocate_blocks_cases:
  assumes ok: "alloc_ok s" and lv: "live k s" and hp: "heap_ok s" and m: "\<forall>n. \<not> oom s n" and pos: "0 < len"
  shows "(\<exists>s' B. allocate_blocks len s = Inr (None, s') \<and> took s s' B \<and> heap_ok s' \<and> (\<forall>g < unat (groups (aux_info s)). free_in s g < unat len)) \<or>
    (\<exists>s' a as. allocate_blocks len s = Inr (Some (alloc_at a), s') \<and> allocated s s' None (Some a) (a # as) (unat len) \<and>
       alloc_nodes s' (alloc_at a) (a # as) \<and> heap_ok s' \<and> (\<forall>b < mallocs s. regions s' b = regions s b) \<and>
       topped s' (the (regions s' a)) \<and>
       (2 \<le> unat len \<longrightarrow> 2 \<le> unat (reg_len (the (regions s' a)))))"
  using do_allocate_cases [OF assms]
proof
  assume "\<exists>s' B. do_allocate len s = Inr (None, s') \<and> took s s' B \<and> heap_ok s' \<and> (\<forall>g < unat (groups (aux_info s)). free_in s g < unat len)"
  then show ?thesis by (auto simp: allocate_blocks_def)
next
  assume "\<exists>s' a as. do_allocate len s = Inr (Some a, s') \<and> allocated s s' None (Some a) (a # as) (unat len) \<and>
       heap_ok s' \<and> (\<forall>b < mallocs s. regions s' b = regions s b) \<and> topped s' (the (regions s' a)) \<and>
       (2 \<le> unat len \<longrightarrow> 2 \<le> unat (reg_len (the (regions s' a))))"
  then obtain s1 a as where d: "do_allocate len s = Inr (Some a, s1)" and al: "allocated s s1 None (Some a) (a # as) (unat len)"
    and hp: "heap_ok s1" and fr: "\<forall>b < mallocs s. regions s1 b = regions s b"
    and tp: "topped s1 (the (regions s1 a))" "2 \<le> unat len \<longrightarrow> 2 \<le> unat (reg_len (the (regions s1 a)))" by blast
  have "took s s1 (set (blocks_of (region_list_of (regions s1) (a # as))))" using al by (simp add: allocated_def)
  then have "\<not> oom s1 (mallocs s1)" using m by (auto simp: took_def same_env_groups)
  then have "allocate_blocks len s = Inr (Some (alloc_at a), s1\<lparr>mallocs := Suc (mallocs s1)\<rparr>)"
    using d by (simp add: allocate_blocks_def create_allocation_def alloc_at_def)
  moreover have "alloc_nodes (s1\<lparr>mallocs := Suc (mallocs s1)\<rparr>) (alloc_at a) (a # as)"
    using al by (simp add: alloc_nodes_def allocated_def alloc_at_def)
  moreover have "heap_ok (s1\<lparr>mallocs := Suc (mallocs s1)\<rparr>)" using hp by (auto simp: heap_ok_def intro: less_SucI)
  ultimately show ?thesis using allocated_mallocs [OF al] fr tp by auto
qed

text \<open>
  C1. \<^verbatim>\<open>allocate_blocks\<close> always returns. It either yields a list of regions that
  together hold exactly \<open>len\<close> distinct blocks, all free before and the only ones newly
  marked after, or reports that no single group had \<open>len\<close> free blocks.
\<close>

theorem allocate_blocks_spec:
  assumes ok: "alloc_ok s" and lv: "live k s" and hp: "heap_ok s" and m: "\<forall>n. \<not> oom s n" and pos: "0 < len"
  shows "\<exists>res s'. allocate_blocks len s = Inr (res, s') \<and> alloc_ok s' \<and> live k s' \<and>
    (case res of
       None \<Rightarrow> used_fs s \<subseteq> used_fs s' \<and> (\<forall>g < unat (groups (aux_info s)). free_in s g < unat len)
     | Some alloc \<Rightarrow> \<exists>as bl. alloc_nodes s' alloc as \<and> bl = blocks_of (region_list_of (regions s') as) \<and>
         length bl = unat len \<and> distinct bl \<and> set bl \<inter> used_fs s = {} \<and> used_fs s' = used_fs s \<union> set bl)"
  using allocate_blocks_cases [OF assms] lv by (fastforce simp: allocated_def took_def)

section \<open>Walking\<close>

lemma dchain_unique: "dchain h pv p as \<Longrightarrow> dchain h pv' p bs \<Longrightarrow> as = bs"
proof (induction as arbitrary: pv pv' p bs)
  case Nil
  then show ?case by (cases bs) auto
next
  case (Cons a as)
  then show ?case by (cases bs) auto
qed

lemma dchain_append: "dchain h pv p (us @ vs) \<Longrightarrow> \<exists>pv' q. dchain h pv' q vs"
  by (induction us arbitrary: pv p) auto

lemma dchain_distinct: "dchain h pv p as \<Longrightarrow> distinct as"
proof (induction as arbitrary: pv p)
  case (Cons a as)
  have "a \<notin> set as"
  proof
    assume "a \<in> set as"
    then obtain us vs where e: "as = us @ a # vs" by (meson split_list)
    obtain r where "h a = Some r" and r: "dchain h (Some a) (reg_next r) as" using Cons.prems by auto
    then obtain pv' q where "dchain h pv' q (a # vs)" unfolding e using dchain_append by blast
    then have "a # vs = a # as" using dchain_unique [of h pv' "Some a" "a # vs" pv "a # as"] Cons.prems by simp
    then show False using e by simp
  qed
  then show ?case using Cons by auto
qed simp

lemma dchain_nodes: "dchain h pv p as \<Longrightarrow> a \<in> set as \<Longrightarrow> h a \<noteq> None"
  by (induction as arbitrary: pv p) auto

lemma dchain_fuel:
  assumes "dchain (regions s) pv p as" and "heap_ok s"
  shows "length as \<le> mallocs s"
proof -
  have "set as \<subseteq> {..<mallocs s}" using dchain_nodes [OF assms(1)] assms(2) by (auto simp: heap_ok_def)
  then have "card (set as) \<le> mallocs s" using card_mono [of "{..<mallocs s}"] by simp
  then show ?thesis using dchain_distinct [OF assms(1)] by (simp add: distinct_card)
qed

lemma region_list_of_simps [simp]:
  "region_list_of h [] = []" "region_list_of h (a # as) = the (h a) # region_list_of h as"
  by (simp_all add: region_list_of_def)

lemma count_regions_ok:
  "dchain (regions s) pv p as \<Longrightarrow> length as \<le> fuel \<Longrightarrow> count_regions fuel s p i = Inr (i + of_nat (length as))"
proof (induction as arbitrary: pv p i fuel)
  case (Cons a as)
  then show ?case by (cases fuel) (auto simp: region_at_def ac_simps)
qed simp

lemma sum_regions_ok:
  "dchain (regions s) pv p as \<Longrightarrow> length as \<le> fuel \<Longrightarrow>
   sum_regions fuel s p i = Inr (i + of_nat (length (blocks_of (region_list_of (regions s) as))))"
proof (induction as arbitrary: pv p i fuel)
  case (Cons a as)
  then show ?case by (cases fuel) (auto simp: region_at_def blocks_of_Cons ac_simps)
qed (simp add: blocks_of_def)

lemma find_block_ok:
  "dchain (regions s) pv p as \<Longrightarrow> length as \<le> fuel \<Longrightarrow>
   \<forall>r \<in> set (region_list_of (regions s) as). good_region r \<Longrightarrow>
   find_block fuel s p blk = Inr (if unat blk < length (blocks_of (region_list_of (regions s) as))
      then of_nat (blocks_of (region_list_of (regions s) as) ! unat blk) else EXT4_ALLOCATE_FAILED)"
proof (induction as arbitrary: pv p blk fuel)
  case (Cons a as)
  obtain r where r: "p = Some a" "regions s a = Some r" "dchain (regions s) (Some a) (reg_next r) as"
    using Cons.prems by auto
  obtain fuel' where f: "fuel = Suc fuel'" using Cons.prems(2) by (cases fuel) auto
  let ?bl = "blocks_of (region_list_of (regions s) as)"
  have bl: "blocks_of (region_list_of (regions s) (a # as)) = [unat (reg_block r)..<unat (reg_block r) + unat (reg_len r)] @ ?bl"
    using r by (simp add: blocks_of_Cons)
  have rec: "find_block fuel s p blk = (if blk < reg_len r then Inr (reg_block r + blk)
     else find_block fuel' s (reg_next r) (blk - reg_len r))" using r f by (simp add: region_at_def)
  show ?case
  proof (cases "blk < reg_len r")
    case True
    then have "unat blk < unat (reg_len r)" by (simp add: word_less_nat_alt)
    then show ?thesis unfolding rec bl using True by (simp add: nth_append)
  next
    case False
    then have u: "unat (blk - reg_len r) = unat blk - unat (reg_len r)" "unat (reg_len r) \<le> unat blk"
      by (simp_all add: unat_sub word_le_nat_alt word_less_nat_alt)
    have "find_block fuel' s (reg_next r) (blk - reg_len r) =
       Inr (if unat (blk - reg_len r) < length ?bl then of_nat (?bl ! unat (blk - reg_len r)) else EXT4_ALLOCATE_FAILED)"
      using Cons.prems f by (intro Cons.IH [OF r(3)]) auto
    then show ?thesis unfolding rec bl using False u by (auto simp: nth_append)
  qed
qed (simp add: blocks_of_def)

lemma get_block_nth:
  assumes al: "alloc_nodes s alloc as" and hp: "heap_ok s"
    and good: "\<forall>r \<in> set (region_list_of (regions s) as). good_region r"
  shows "get_block alloc i s = Inr (if unat i < length (blocks_of (region_list_of (regions s) as))
           then of_nat (blocks_of (region_list_of (regions s) as) ! unat i) else EXT4_ALLOCATE_FAILED)"
proof -
  have d: "dchain (regions s) None (rl_first (al_list alloc)) as" using al by (simp add: alloc_nodes_def)
  show ?thesis
    using find_block_ok [OF d dchain_fuel [OF d hp] good] al by (simp add: get_block_def list_block_def alloc_nodes_def)
qed

lemma num_regions_length:
  assumes al: "alloc_nodes s alloc as" and hp: "heap_ok s"
  shows "block_allocation_num_regions alloc s = Inr (of_nat (length as))"
    and "block_allocation_len alloc s = Inr (of_nat (length (blocks_of (region_list_of (regions s) as))))"
proof -
  have d: "dchain (regions s) None (rl_first (al_list alloc)) as" using al by (simp add: alloc_nodes_def)
  note f = dchain_fuel [OF d hp]
  show "block_allocation_num_regions alloc s = Inr (of_nat (length as))"
    using count_regions_ok [OF d f] by (simp add: block_allocation_num_regions_def)
  show "block_allocation_len alloc s = Inr (of_nat (length (blocks_of (region_list_of (regions s) as))))"
    using sum_regions_ok [OF d f] by (simp add: block_allocation_len_def)
qed

text \<open>
  On a rewound allocation, \<^verbatim>\<open>get_block\<close> is indexing into its list of blocks (and
  reports failure past its end), and \<^verbatim>\<open>block_allocation_len\<close> and
  \<^verbatim>\<open>block_allocation_num_regions\<close> are its lengths; all three walks end.
\<close>

theorem allocation_walks:
  assumes "alloc_nodes s alloc as" and "heap_ok s"
    and "\<forall>r \<in> set (region_list_of (regions s) as). good_region r"
    and "bl = blocks_of (region_list_of (regions s) as)"
  shows "get_block alloc i s = Inr (if unat i < length bl then of_nat (bl ! unat i) else EXT4_ALLOCATE_FAILED) \<and>
    block_allocation_len alloc s = Inr (of_nat (length bl)) \<and>
    block_allocation_num_regions alloc s = Inr (of_nat (length as))"
  unfolding assms(4) using get_block_nth [OF assms(1-3)] num_regions_length [OF assms(1,2)] by blast

section \<open>Shortening an allocation\<close>

lemma reduce_last_region:
  assumes ok: "alloc_ok s" and last: "rl_last (al_list alloc) = Some a" and r: "regions s a = Some r"
    and tp: "topped s r" and n: "0 < n" "n < reg_len r"
  shows "\<exists>s'. reduce_allocation alloc n s = Inr (alloc, s') \<and> alloc_ok s' \<and> same_env s s' \<and>
     regions s' = (regions s)(a \<mapsto> r\<lparr>reg_len := reg_len r - n\<rparr>) \<and> mallocs s' = mallocs s \<and>
     used_fs s' = used_fs s - {unat (reg_block r) + unat (reg_len r) - unat n..<unat (reg_block r) + unat (reg_len r)} \<and>
     (\<forall>k. live (k + unat n) s \<longrightarrow> live k s')"
proof -
  let ?g = "unat (reg_bg r)" and ?B = "unat (blocks_per_group (info s))" and ?S = "unat (block_size (info s))"
  let ?b = "bgs (aux_info s) ! ?g"
  have g: "?g < unat (groups (aux_info s))" and l: "length (bgs (aux_info s)) = unat (groups (aux_info s))"
    and tf: "unat (reg_block r) + unat (reg_len r) = unat (bgi_first_block ?b) + unat (bgi_first_free_block ?b)"
      "unat (reg_len r) \<le> unat (bgi_first_free_block ?b)"
    using tp ok by (auto simp: topped_def Let_def alloc_ok_def)
  have bok: "bg_ok (info s) (aux_info s) ?g ?b" using ok g by (simp add: alloc_ok_def)
  then have gok: "group_ok ?S ?B ?b" by (simp add: bg_ok_def)
  have nl: "unat n < unat (reg_len r)" using n by (simp add: word_less_nat_alt)
  then have nle: "unat n \<le> unat (bgi_first_free_block ?b)" using tf by simp
  obtain bm where fb: "free_blocks ?b n = Inr (?b\<lparr>bgi_bitmaps := bm, bgi_free_blocks := bgi_free_blocks ?b + n,
                                  bgi_first_free_block := bgi_first_free_block ?b - n\<rparr>)"
    and bits: "bits bm = bits (bgi_bitmaps ?b) -
           {unat (bgi_first_free_block ?b) - unat n..<unat (bgi_first_free_block ?b)}"
    and ok1: "group_ok ?S ?B (?b\<lparr>bgi_bitmaps := bm, bgi_free_blocks := bgi_free_blocks ?b + n,
                                  bgi_first_free_block := bgi_first_free_block ?b - n\<rparr>)"
    using free_blocks_group [OF gok nle] .
  define bg where "bg = ?b\<lparr>bgi_bitmaps := bm, bgi_free_blocks := bgi_free_blocks ?b + n,
                                  bgi_first_free_block := bgi_first_free_block ?b - n\<rparr>"
  define s1 where "s1 = bg_put (reg_bg r) bg s"
  define s2 where "s2 = s1\<lparr>regions := (regions s)(a \<mapsto> r\<lparr>reg_len := reg_len r - n\<rparr>)\<rparr>"
  have og: "(of_nat ?g :: u32) = reg_bg r" by simp
  have nz: "n \<noteq> 0" using n by auto
  have run: "reduce_allocation alloc n s = Inr (alloc, s2)"
    using last r n nz g l fb
    by (simp add: reduce_allocation_def numeral_eq_Suc region_at_def bg_free_def bg_at_def region_upd_def
        bg_def s1_def s2_def)
  have lim: "unat (bgi_first_free_block ?b) + unat (bgi_free_blocks ?b) \<le> ?B" "?B \<le> 8 * ?S"
      "unat (bgi_first_block ?b) + ?B < 2 ^ 32 - 1"
    using gok by (simp_all add: group_ok_def)
  have "bits bm \<inter> {8 * ?S..} = bits (bgi_bitmaps ?b) \<inter> {8 * ?S..}" unfolding bits using lim by auto
  then have "inode_ok ?S (unat (inodes_per_group (info s))) bg"
    using bok ok1 by (simp add: inode_ok_def bg_def group_ok_def bg_ok_def)
  then have bok': "bg_ok (info s) (aux_info s) ?g bg" using bok ok1 by (simp add: bg_ok_def bg_def group_ok_def)
  have env: "same_env s s2"
  proof -
    have "list_all2 same_inodes (bgs (aux_info s)) ((bgs (aux_info s))[?g := bg])"
      using g l by (intro list_all2_all_nthI) (auto simp: nth_list_update same_inodes_def bg_def)
    then show ?thesis by (auto simp: same_env_def s2_def s1_def)
  qed
  have lv: "live k s2" if "live (k + unat n) s" for k
  proof -
    have lb: "live_bg (k + unat n) ?b" using that g by (simp add: live_def)
    have "unat (bgi_free_blocks ?b + n) = unat (bgi_free_blocks ?b) + unat n" using lim nl tf by (simp add: unat_add_le)
    then have "live_bg k bg" using lb by (auto simp: live_bg_def bg_def)
    moreover have "live k s" using that by (auto simp: live_def live_bg_def)
    ultimately show ?thesis using g l by (simp add: live_def s2_def s1_def nth_list_update)
  qed
  have used: "used_fs s2 = used_fs s - {unat (reg_block r) + unat (reg_len r) - unat n..<unat (reg_block r) + unat (reg_len r)}"
  proof -
    let ?R = "{unat (reg_block r) + unat (reg_len r) - unat n..<unat (reg_block r) + unat (reg_len r)}"
    have img: "(+) (unat (bgi_first_block ?b)) ` {unat (bgi_first_free_block ?b) - unat n..<unat (bgi_first_free_block ?b)} = ?R"
      unfolding tf(1) using nle by (simp add: image_add_atLeastLessThan ac_simps)
    have "used_blocks ?B bg = used_blocks ?B ?b - ?R"
      unfolding used_blocks_def img [symmetric] by (simp add: bg_def bits image_set_diff [symmetric] Int_Diff inj_on_def Diff_Int_distrib2)
        (auto simp: image_iff)
    moreover have "n' \<notin> (\<Union>h \<in> {..<unat (groups (aux_info s))} - {?g}. used_blocks ?B (bgs (aux_info s) ! h))"
      if "n' \<in> ?R" for n'
      using that tf nle lim by (intro other_group_blocks [OF ok g]) auto
    ultimately have "(\<Union>h \<in> {..<unat (groups (aux_info s))} - {?g}. used_blocks ?B (bgs (aux_info s) ! h)) \<union> used_blocks ?B bg =
        used_fs s - ?R"
      unfolding used_fs_split [OF g] by blast
    then show ?thesis unfolding s2_def s1_def using used_fs_bg_put [OF g l, of bg, unfolded og] by simp
  qed
  have "alloc_ok s2" using alloc_ok_bg_put [OF ok bok' g] by (simp add: s2_def s1_def)
  then show ?thesis using run env used lv by (intro exI [of _ s2]) (simp add: s2_def s1_def)
qed


text \<open>
  C35. \<^verbatim>\<open>reduce_allocation\<close> by fewer blocks than its last region holds gives exactly the
  last blocks of that region back: they become free again, the region is shortened, and nothing
  else changes.
\<close>

theorem reduce_allocation_gives_back:
  assumes "alloc_ok s" and "rl_last (al_list alloc) = Some a" and "regions s a = Some r" and "topped s r"
    and "0 < n" and "n < reg_len r"
  shows "\<exists>s'. reduce_allocation alloc n s = Inr (alloc, s') \<and> alloc_ok s' \<and>
     regions s' = (regions s)(a \<mapsto> r\<lparr>reg_len := reg_len r - n\<rparr>) \<and>
     used_fs s' = used_fs s - {unat (reg_block r) + unat (reg_len r) - unat n..<unat (reg_block r) + unat (reg_len r)}"
  using reduce_last_region [OF assms] by blast

section \<open>Releasing an allocation\<close>

lemma free_regions_ok:
  "dchain (regions s) pv p as \<Longrightarrow> length as \<le> fuel \<Longrightarrow>
   free_regions fuel p s = Inr (s\<lparr>regions := (\<lambda>a. if a \<in> set as then None else regions s a)\<rparr>)"
proof (induction as arbitrary: pv p s fuel)
  case Nil
  then show ?case by simp
next
  case (Cons a as)
  obtain r where r: "p = Some a" "regions s a = Some r" "dchain (regions s) (Some a) (reg_next r) as"
    using Cons.prems by auto
  obtain fuel' where f: "fuel = Suc fuel'" using Cons.prems(2) by (cases fuel) auto
  let ?s = "s\<lparr>regions := (regions s)(a := None)\<rparr>"
  have "a \<notin> set as" using dchain_distinct [OF Cons.prems(1)] by simp
  then have "dchain (regions ?s) (Some a) (reg_next r) as = dchain (regions s) (Some a) (reg_next r) as"
    by (intro dchain_cong) auto
  then have rest: "dchain (regions ?s) (Some a) (reg_next r) as" using r(3) by simp
  have "free_regions fuel' (reg_next r) ?s = Inr (?s\<lparr>regions := (\<lambda>b. if b \<in> set as then None else regions ?s b)\<rparr>)"
    using Cons.IH [OF rest] Cons.prems(2) f by simp
  moreover have "(\<lambda>b. if b \<in> set as then None else regions ?s b) = (\<lambda>b. if b \<in> set (a # as) then None else regions s b)"
    by auto
  ultimately show ?case using r f by (simp add: region_at_def region_free_def)
qed

lemma free_alloc_ok:
  assumes as: "dchain (regions s) None (rl_first (al_list alloc)) as"
    and os: "dchain (regions s) None (rl_first (al_oob_list alloc)) os"
    and "set as \<inter> set os = {}" and "heap_ok s"
  shows "free_alloc alloc s = Inr (s\<lparr>regions := (\<lambda>a. if a \<in> set as \<union> set os then None else regions s a)\<rparr>)"
proof -
  let ?s = "s\<lparr>regions := (\<lambda>a. if a \<in> set as then None else regions s a)\<rparr>"
  have one: "free_regions (mallocs s) (rl_first (al_list alloc)) s = Inr ?s"
    using free_regions_ok [OF as dchain_fuel [OF as assms(4)]] .
  have "dchain (regions ?s) None (rl_first (al_oob_list alloc)) os =
      dchain (regions s) None (rl_first (al_oob_list alloc)) os"
    using assms(3) by (intro dchain_cong) auto
  then have os': "dchain (regions ?s) None (rl_first (al_oob_list alloc)) os" using os by simp
  have "free_regions (mallocs s) (rl_first (al_oob_list alloc)) ?s =
      Inr (?s\<lparr>regions := (\<lambda>a. if a \<in> set os then None else regions ?s a)\<rparr>)"
    using free_regions_ok [OF os' dchain_fuel [OF os assms(4)]] .
  moreover have "(\<lambda>a. if a \<in> set os then None else regions ?s a) =
      (\<lambda>a. if a \<in> set as \<union> set os then None else regions s a)" by auto
  ultimately show ?thesis using one by (simp add: free_alloc_def)
qed

text \<open>
  C29. \<^verbatim>\<open>free_alloc\<close> frees every region of both lists of an allocation, the blocks of the
  file and the blocks of its extent tree or indirect blocks, exactly once (no use after free, no
  double free, no leak) and no other region; the block bitmaps stay as they are.
\<close>

theorem free_alloc_releases:
  assumes "dchain (regions s) None (rl_first (al_list alloc)) as"
    and "dchain (regions s) None (rl_first (al_oob_list alloc)) os"
    and "set as \<inter> set os = {}" and "heap_ok s"
  shows "\<exists>s'. free_alloc alloc s = Inr s' \<and>
    (\<forall>a. regions s' a = (if a \<in> set as \<union> set os then None else regions s a)) \<and>
    alloc_ok s' = alloc_ok s \<and> used_fs s' = used_fs s"
  using free_alloc_ok [OF assms] by simp

section \<open>Defects\<close>

text \<open>The state in which the first group without data blocks has no free block.\<close>

lemma partial_empty:
  assumes ok: "alloc_ok s" and g: "g < unat (groups (aux_info s))"
    and u: "find_unused (all_groups s) s = Inr (Some (of_nat g))"
    and z: "bgi_free_blocks (bgs (aux_info s) ! g) = 0" "bgi_data_blocks_used (bgs (aux_info s) ! g) = 0"
    and len: "0 < len" and m: "\<not> oom s (mallocs s)"
  shows "ext4_allocate_partial len s = Inr (Some (mallocs s),
    s\<lparr>regions := (regions s)(mallocs s \<mapsto> mk_region (bgi_first_block (bgs (aux_info s) ! g) +
       bgi_first_free_block (bgs (aux_info s) ! g)) 0 (of_nat g)), mallocs := Suc (mallocs s)\<rparr>)"
proof -
  let ?b = "bgs (aux_info s) ! g"
  have l: "length (bgs (aux_info s)) = unat (groups (aux_info s))" using ok by (simp add: alloc_ok_def)
  have ug: "unat (of_nat g :: u32) = g" using g unat_u32 [of "groups (aux_info s)"] by (simp add: unat_of_nat)
  have gok: "group_ok (unat (block_size (info s))) (unat (blocks_per_group (info s))) ?b"
    using ok g by (simp add: alloc_ok_def bg_ok_def)
  have le: "unat (0 :: u32) \<le> unat (bgi_free_blocks ?b)" by simp
  obtain bm where r: "reserve_blocks (force s) ?b (bgi_first_free_block ?b) 0 =
       Inr (0, ?b\<lparr>bgi_bitmaps := bm, bgi_free_blocks := bgi_free_blocks ?b - 0, bgi_first_free_block := bgi_first_free_block ?b + 0\<rparr>)"
    and b: "bits bm = bits (bgi_bitmaps ?b) \<union> {unat (bgi_first_free_block ?b)..<unat (bgi_first_free_block ?b) + unat (0 :: u32)}"
    and ok1: "group_ok (unat (block_size (info s))) (unat (blocks_per_group (info s)))
        (?b\<lparr>bgi_bitmaps := bm, bgi_free_blocks := bgi_free_blocks ?b - 0, bgi_first_free_block := bgi_first_free_block ?b + 0\<rparr>)"
    using reserve_first_free [OF gok le] .
  have "bm = bgi_bitmaps ?b" using b ok1 gok by (intro bits_inject) (simp_all add: group_ok_def)
  then have r': "reserve_blocks (force s) ?b (bgi_first_free_block ?b) 0 = Inr (0, ?b)" using r by simp
  have "unat (bgi_first_block ?b) + unat (bgi_first_free_block ?b) < 2 ^ 32 - 1" using gok by (simp add: group_ok_def)
  then have ne: "bgi_first_block ?b + bgi_first_free_block ?b \<noteq> EXT4_ALLOCATE_FAILED"
    using unat_add_le [of "bgi_first_block ?b" "bgi_first_free_block ?b"] by (auto simp: word_unat_eq_iff)
  have put: "bg_put (of_nat g) ?b s = s" by (simp add: bg_put_def ug)
  have "\<not> len \<le> 0" using len by simp
  then show ?thesis
    using u z len m g l r' ne put
    by (simp add: ext4_allocate_partial_def get_free_blocks_def bg_at_def ug ext4_allocate_blocks_from_block_group_def
        new_region_def)
qed


lemma multiple_loop_diverges:
  assumes "alloc_ok s" "heap_ok s" "g < unat (groups (aux_info s))"
    "find_unused (all_groups s) s = Inr (Some (of_nat g))"
    "bgi_free_blocks (bgs (aux_info s) ! g) = 0" "bgi_data_blocks_used (bgs (aux_info s) ! g) = 0"
    "0 < len" "\<forall>n. \<not> oom s n" "\<forall>p. pv = Some p \<longrightarrow> regions s p \<noteq> None"
  shows "multiple_loop fuel first pv len s = Inl Diverges"
  using assms
proof (induction fuel arbitrary: first pv s)
  case (Suc fuel)
  let ?b = "bgs (aux_info s) ! g"
  define r where "r = mk_region (bgi_first_block ?b + bgi_first_free_block ?b) 0 (of_nat g)"
  define s1 where "s1 = s\<lparr>regions := (regions s)(mallocs s \<mapsto> r), mallocs := Suc (mallocs s)\<rparr>"
  define s2 where "s2 = s1\<lparr>regions := link pv (mallocs s) (regions s1)\<rparr>"
  have m: "\<not> oom s (mallocs s)" using Suc.prems by simp
  have part: "ext4_allocate_partial len s = Inr (Some (mallocs s), s1)"
    using partial_empty [OF Suc.prems(1,3,4,5,6,7) m] by (simp add: s1_def r_def)
  have rm: "regions s1 = (regions s)(mallocs s \<mapsto> r)" by (simp add: s1_def)
  note step = multiple_loop_step [OF part rm Suc.prems(7,2,9), of fuel first, folded s2_def]
  have find: "find_unused gs (s\<lparr>regions := h, mallocs := n\<rparr>) = find_unused gs s" for gs h n
    by (induction gs) (auto simp: bg_at_def)
  have s2: "s2 = s\<lparr>regions := link pv (mallocs s) (regions s1), mallocs := Suc (mallocs s)\<rparr>"
    by (simp add: s2_def s1_def)
  have "\<not> (\<exists>p. pv = Some p \<and> \<not> p < mallocs s)" using Suc.prems(2,9) by (auto simp: heap_ok_def)
  then have h2: "heap_ok s2"
    using Suc.prems(2) by (auto simp: heap_ok_def s2_def s1_def link_def less_Suc_eq split: option.splits if_splits)
  have "regions s2 (mallocs s) \<noteq> None" by (auto simp: s2_def s1_def link_def split: option.splits)
  then have "multiple_loop fuel first' (Some (mallocs s)) len s2 = Inl Diverges" for first'
    using Suc.prems h2 by (intro Suc.IH) (simp_all add: s2 find all_groups_def)
  then show ?case unfolding step by (simp add: r_def mk_region_def)
qed simp

text \<open>
  C36. When the first group that never gave data blocks has no free block left (its header fills
  it), an allocation that has to be spread over several groups never ends: no number of
  iterations of its loop is enough.
\<close>

theorem allocate_multiple_loops_forever:
  assumes "alloc_ok s" "heap_ok s" "g < unat (groups (aux_info s))"
    "find_unused (all_groups s) s = Inr (Some (of_nat g))"
    "bgi_free_blocks (bgs (aux_info s) ! g) = 0" "bgi_data_blocks_used (bgs (aux_info s) ! g) = 0"
    "0 < len" "\<forall>n. \<not> oom s n"
  shows "multiple_loop fuel None None len s = Inl Diverges"
  by (rule multiple_loop_diverges [OF assms]) simp

text \<open>
  \<^verbatim>\<open>append_oob_allocation\<close> walks a list that \<^verbatim>\<open>region_list_append\<close> cuts: of
  an allocation of several regions only the first is appended.
\<close>

lemma append_all_first:
  assumes "regions s a = Some r" and "rl_first rl = None"
  shows "append_all (Suc (Suc fuel)) (Some a) rl s =
    Inr (\<lparr>rl_first = Some a, rl_last = Some a, rl_iter = Some a, rl_partial_iter = 0\<rparr>,
         s\<lparr>regions := (regions s)(a \<mapsto> r\<lparr>reg_prev := None, reg_next := None\<rparr>)\<rparr>)"
  using assms by (simp add: region_list_append_def region_upd_def region_at_def)


section \<open>Sources of fresh numbers\<close>

text \<open>
  The contract that blocks and inodes are handed out under: a valid request returns and keeps the
  invariant, and what it hands out was not in use before and is from then on.
\<close>

locale fresh_source =
  fixes inv :: "'s \<Rightarrow> bool" and used :: "'s \<Rightarrow> 'i set" and valid :: "'q \<Rightarrow> bool"
    and take_one :: "'q \<Rightarrow> 's \<Rightarrow> ('v \<times> 's) res" and items :: "'v \<Rightarrow> 's \<Rightarrow> 'i set"
  assumes take_total: "inv s \<Longrightarrow> valid q \<Longrightarrow> \<exists>v s'. take_one q s = Inr (v, s')"
    and take_law: "inv s \<Longrightarrow> valid q \<Longrightarrow> take_one q s = Inr (v, s') \<Longrightarrow>
      inv s' \<and> items v s' \<inter> used s = {} \<and> used s \<union> items v s' \<subseteq> used s'"
begin

text \<open>A sequence of requests, with what each of them was given.\<close>

fun take_all :: "'q list \<Rightarrow> 's \<Rightarrow> ('i set list \<times> 's) res" where
  "take_all [] s = Inr ([], s)"
| "take_all (q # qs) s = bnd (take_one q s) (\<lambda>(v, s1). bnd (take_all qs s1) (\<lambda>(Bs, s2). Inr (items v s1 # Bs, s2)))"

lemma take_all_total:
  "inv s \<Longrightarrow> \<forall>q \<in> set qs. valid q \<Longrightarrow> \<exists>Bs s'. take_all qs s = Inr (Bs, s') \<and> length Bs = length qs"
proof (induction qs arbitrary: s)
  case (Cons q qs)
  obtain v s1 where one: "take_one q s = Inr (v, s1)" using take_total [OF Cons.prems(1)] Cons.prems(2) by fastforce
  have "inv s1" using take_law [OF Cons.prems(1) _ one] Cons.prems(2) by simp
  then obtain Bs s' where "take_all qs s1 = Inr (Bs, s')" "length Bs = length qs"
    using Cons.IH Cons.prems(2) by fastforce
  then show ?case using one by simp
qed simp

lemma take_all_fresh:
  "inv s \<Longrightarrow> \<forall>q \<in> set qs. valid q \<Longrightarrow> take_all qs s = Inr (Bs, s') \<Longrightarrow>
   inv s' \<and> used s \<subseteq> used s' \<and> (\<forall>B \<in> set Bs. B \<inter> used s = {} \<and> B \<subseteq> used s')"
proof (induction qs arbitrary: s Bs)
  case (Cons q qs)
  obtain v s1 Cs where one: "take_one q s = Inr (v, s1)" and rest: "take_all qs s1 = Inr (Cs, s')"
    and Bs: "Bs = items v s1 # Cs"
    using Cons.prems(3) by (auto simp: outcome_simps)
  note l = take_law [OF Cons.prems(1) _ one]
  have "inv s' \<and> used s1 \<subseteq> used s' \<and> (\<forall>B \<in> set Cs. B \<inter> used s1 = {} \<and> B \<subseteq> used s')"
    using l Cons.prems(2) by (intro Cons.IH [OF _ _ rest]) auto
  moreover have "used s \<subseteq> used s1" "items v s1 \<inter> used s = {}" "items v s1 \<subseteq> used s1" using l Cons.prems(2) by auto
  ultimately show ?case unfolding Bs by (simp add: disjoint_iff) blast
qed simp

lemma take_all_disjoint:
  "inv s \<Longrightarrow> \<forall>q \<in> set qs. valid q \<Longrightarrow> take_all qs s = Inr (Bs, s') \<Longrightarrow>
   i < j \<Longrightarrow> j < length Bs \<Longrightarrow> Bs ! i \<inter> Bs ! j = {}"
proof (induction qs arbitrary: s Bs i j)
  case (Cons q qs)
  obtain v s1 Cs where one: "take_one q s = Inr (v, s1)" and rest: "take_all qs s1 = Inr (Cs, s')"
    and Bs: "Bs = items v s1 # Cs"
    using Cons.prems(3) by (auto simp: outcome_simps)
  have val: "valid q" "\<forall>q \<in> set qs. valid q" using Cons.prems(2) by auto
  note l = take_law [OF Cons.prems(1) val(1) one]
  have inv1: "inv s1" using l by blast
  obtain j' where j: "j = Suc j'" using Cons.prems(4) by (cases j) auto
  show ?case
  proof (cases i)
    case 0
    have "Cs ! j' \<inter> used s1 = {}" using take_all_fresh [OF inv1 val(2) rest] Cons.prems(5) Bs j by simp
    then show ?thesis using l 0 j Bs by auto
  next
    case (Suc i')
    then show ?thesis using Cons.IH [OF inv1 val(2) rest, of i' j'] Cons.prems(4,5) j Bs by simp
  qed
qed simp

end

definition few_inodes :: "ext4_st \<Rightarrow> bool" where
  "few_inodes s \<longleftrightarrow> unat (groups (aux_info s)) * unat (inodes_per_group (info s)) < 2 ^ 32 - 1"

lemma block_side_same_live: "block_side_same n bg bg' \<Longrightarrow> live_bg k bg \<Longrightarrow> live_bg k bg'"
  by (simp add: block_side_same_def live_bg_def)

lemma block_side_same_used: "block_side_same n bg bg' \<Longrightarrow> used_blocks n bg' = used_blocks n bg"
  by (simp add: block_side_same_def used_blocks_def)

text \<open>Inode allocation does not touch what block allocation works on.\<close>

lemma keeps_blocks_frame:
  assumes k: "keeps_blocks s s'" and ok: "alloc_ok s"
  shows "used_fs s' = used_fs s" "live k s \<Longrightarrow> live k s'" "heap_ok s' = heap_ok s" "oom s' = oom s"
    "few_inodes s' = few_inodes s"
proof -
  obtain x where x: "s' = s\<lparr>aux_info := (aux_info s)\<lparr>bgs := x\<rparr>\<rparr>"
    "list_all2 (block_side_same (unat (blocks_per_group (info s)))) (bgs (aux_info s)) x"
    using k by (auto simp: keeps_blocks_def)
  have g: "block_side_same (unat (blocks_per_group (info s))) (bgs (aux_info s) ! g) (x ! g)"
    if "g < unat (groups (aux_info s))" for g
    using list_all2_nthD [OF x(2), of g] ok that by (simp add: alloc_ok_def)
  show "used_fs s' = used_fs s" unfolding used_fs_def x(1) using block_side_same_used [OF g] by auto
  show "live k s \<Longrightarrow> live k s'" using block_side_same_live [OF g] by (auto simp: live_def x(1))
  show "heap_ok s' = heap_ok s" "oom s' = oom s" "few_inodes s' = few_inodes s"
    by (simp_all add: x(1) heap_ok_def few_inodes_def)
qed

text \<open>Block allocation does not touch what inode allocation works on.\<close>

lemma same_env_inodes:
  assumes e: "same_env s s'" and ok: "alloc_ok s" "alloc_ok s'"
  shows "used_inodes s' = used_inodes s" "few_inodes s' = few_inodes s"
proof -
  obtain x where x: "aux_info s' = (aux_info s)\<lparr>bgs := x\<rparr>" "list_all2 same_inodes (bgs (aux_info s)) x"
    and i: "info s' = info s" using e by (auto simp: same_env_def)
  have "group_inodes (info s) g (x ! g) = group_inodes (info s) g (bgs (aux_info s) ! g)"
    if g: "g < unat (groups (aux_info s))" for g
  proof -
    have f: "bgi_first_free_inode (x ! g) = bgi_first_free_inode (bgs (aux_info s) ! g)"
      using list_all2_nthD [OF x(2), of g] ok(1) g by (simp add: alloc_ok_def same_inodes_def)
    have "inode_ok (unat (block_size (info s))) (unat (inodes_per_group (info s))) (bgs (aux_info s) ! g)"
      "inode_ok (unat (block_size (info s))) (unat (inodes_per_group (info s))) (x ! g)"
      using ok g x(1) i by (auto simp: alloc_ok_def bg_ok_def)
    then show ?thesis by (simp only: group_inodes_ok f)
  qed
  then show "used_inodes s' = used_inodes s" by (simp add: used_inodes_def x(1) i)
  show "few_inodes s' = few_inodes s" by (simp add: few_inodes_def x(1) i)
qed

definition inode_items :: "u32 \<Rightarrow> ext4_st \<Rightarrow> nat set" where
  "inode_items n s = (if n = EXT4_ALLOCATE_FAILED then {} else {unat n})"

lemma allocate_inode_outcome:
  assumes "alloc_ok s" and "few_inodes s"
  obtains n s' where "allocate_inode s = Inr (n, s')" "alloc_ok s'" "keeps_blocks s s'"
    "inode_items n s' \<inter> used_inodes s = {}" "used_inodes s' = used_inodes s \<union> inode_items n s'"
proof -
  have "inode_outcome s (allocate_inode s)"
    using assms allocate_inode_loop_ok [of s 0] by (simp add: few_inodes_def allocate_inode_def)
  then obtain n s' where o: "allocate_inode s = Inr (n, s')" "alloc_ok s'" "keeps_blocks s s'"
    "n = EXT4_ALLOCATE_FAILED \<Longrightarrow> s' = s"
    "n \<noteq> EXT4_ALLOCATE_FAILED \<Longrightarrow> unat n \<notin> used_inodes s \<and> used_inodes s' = insert (unat n) (used_inodes s)"
    unfolding inode_outcome_def by (elim exE conjE) (simp split: if_splits)
  have "inode_items n s' \<inter> used_inodes s = {}" "used_inodes s' = used_inodes s \<union> inode_items n s'"
    using o(4,5) by (cases "n = EXT4_ALLOCATE_FAILED"; simp add: inode_items_def)+
  then show ?thesis using that o(1-3) by blast
qed

interpretation inodes: fresh_source "\<lambda>s. alloc_ok s \<and> few_inodes s" used_inodes "\<lambda>_ :: unit. True"
  "\<lambda>_. allocate_inode" inode_items
proof
  fix s :: ext4_st and q :: unit
  assume inv: "alloc_ok s \<and> few_inodes s"
  then obtain n s' where o: "allocate_inode s = Inr (n, s')" "alloc_ok s'" "keeps_blocks s s'"
    "inode_items n s' \<inter> used_inodes s = {}" "used_inodes s' = used_inodes s \<union> inode_items n s'"
    using allocate_inode_outcome by blast
  show "\<exists>v s'. allocate_inode s = Inr (v, s')" using o(1) by blast
  fix m t assume "allocate_inode s = Inr (m, t)"
  then show "(alloc_ok t \<and> few_inodes t) \<and> inode_items m t \<inter> used_inodes s = {} \<and>
      used_inodes s \<union> inode_items m t \<subseteq> used_inodes t"
    using o inv keeps_blocks_frame(5) [OF o(3)] by simp
qed

text \<open>The state in which block allocation is total.\<close>

definition ready :: "ext4_st \<Rightarrow> bool" where
  "ready s \<longleftrightarrow> alloc_ok s \<and> heap_ok s \<and> (\<forall>n. \<not> oom s n) \<and> (\<exists>k. live k s)"

definition allocation_items :: "block_allocation option \<Rightarrow> ext4_st \<Rightarrow> nat set" where
  "allocation_items res s = (case res of None \<Rightarrow> {}
     | Some alloc \<Rightarrow> {b. \<exists>as. alloc_nodes s alloc as \<and> b \<in> set (blocks_of (region_list_of (regions s) as))})"

lemma allocation_items_nodes:
  assumes "alloc_nodes s alloc as"
  shows "allocation_items (Some alloc) s = set (blocks_of (region_list_of (regions s) as))"
proof -
  have "alloc_nodes s alloc bs \<longleftrightarrow> bs = as" for bs
  proof
    assume "alloc_nodes s alloc bs"
    then have "dchain (regions s) None (rl_first (al_list alloc)) bs" by (simp only: alloc_nodes_def)
    moreover have "dchain (regions s) None (rl_first (al_list alloc)) as" using assms by (simp only: alloc_nodes_def)
    ultimately show "bs = as" by (rule dchain_unique)
  next
    assume "bs = as"
    then show "alloc_nodes s alloc bs" using assms by (simp only:)
  qed
  then show ?thesis by (simp add: allocation_items_def)
qed

lemma allocate_blocks_outcome:
  assumes "ready s" and "0 < len"
  obtains res s' where "allocate_blocks len s = Inr (res, s')" "ready s'" "same_env s s'"
    "allocation_items res s' \<inter> used_fs s = {}" "used_fs s \<union> allocation_items res s' \<subseteq> used_fs s'"
proof -
  obtain k where pre: "alloc_ok s" "live k s" "heap_ok s" "\<forall>n. \<not> oom s n" using assms(1) by (auto simp: ready_def)
  obtain res s' where r: "allocate_blocks len s = Inr (res, s')"
    using allocate_blocks_cases [OF pre assms(2)] by blast
  then consider (none) B where "res = None" "took s s' B" "heap_ok s'"
    | (some) a as where "res = Some (alloc_at a)" "allocated s s' None (Some a) (a # as) (unat len)"
        "alloc_nodes s' (alloc_at a) (a # as)" "heap_ok s'"
    using allocate_blocks_cases [OF pre assms(2)] by auto
  then have "ready s' \<and> same_env s s' \<and> allocation_items res s' \<inter> used_fs s = {} \<and>
      used_fs s \<union> allocation_items res s' \<subseteq> used_fs s'"
  proof cases
    case none
    then show ?thesis using pre by (auto simp: ready_def took_def allocation_items_def same_env_groups)
  next
    case some
    have tk: "took s s' (allocation_items res s')"
      using some allocation_items_nodes [OF some(3)] by (simp add: allocated_def)
    then show ?thesis using pre some(4) by (auto simp: ready_def took_def same_env_groups)
  qed
  then show ?thesis using that r by blast
qed

text \<open>A request of the builder, for the blocks of a file or for an inode, and what it is given: block
  numbers on the left of the sum, inode numbers on the right.\<close>

datatype request = Want_blocks u32 | Want_inode

fun allocate_request :: "request \<Rightarrow> ext4_st \<Rightarrow> ((block_allocation option + u32) \<times> ext4_st) res" where
  "allocate_request (Want_blocks len) s = bnd (allocate_blocks len s) (\<lambda>(res, s'). Inr (Inl res, s'))"
| "allocate_request Want_inode s = bnd (allocate_inode s) (\<lambda>(n, s'). Inr (Inr n, s'))"

definition wants_some :: "request \<Rightarrow> bool" where
  "wants_some q \<longleftrightarrow> q \<noteq> Want_blocks 0"

definition granted :: "block_allocation option + u32 \<Rightarrow> ext4_st \<Rightarrow> (nat + nat) set" where
  "granted v s = (case v of Inl res \<Rightarrow> allocation_items res s <+> {} | Inr n \<Rightarrow> {} <+> inode_items n s)"

definition in_use :: "ext4_st \<Rightarrow> (nat + nat) set" where
  "in_use s = used_fs s <+> used_inodes s"

lemma allocate_request_outcome:
  assumes "ready s" and "few_inodes s" and "wants_some q"
  obtains v s' where "allocate_request q s = Inr (v, s')" "ready s' \<and> few_inodes s'"
    "granted v s' \<inter> in_use s = {}" "in_use s \<union> granted v s' \<subseteq> in_use s'"
proof (cases q)
  case (Want_blocks len)
  then have "0 < len" using assms(3) by (auto simp: wants_some_def word_gt_0)
  then obtain res s' where o: "allocate_blocks len s = Inr (res, s')" "ready s'" "same_env s s'"
    "allocation_items res s' \<inter> used_fs s = {}" "used_fs s \<union> allocation_items res s' \<subseteq> used_fs s'"
    by (rule allocate_blocks_outcome [OF assms(1)])
  have "used_inodes s' = used_inodes s" "few_inodes s' = few_inodes s"
    using same_env_inodes [OF o(3)] assms(1) o(2) by (simp_all add: ready_def)
  then show ?thesis using that [of "Inl res" s'] o Want_blocks assms(2)
    by (auto simp: granted_def in_use_def)
next
  case Want_inode
  have ok: "alloc_ok s" using assms(1) by (simp add: ready_def)
  obtain n s' where o: "allocate_inode s = Inr (n, s')" "alloc_ok s'" "keeps_blocks s s'"
    "inode_items n s' \<inter> used_inodes s = {}" "used_inodes s' = used_inodes s \<union> inode_items n s'"
    using allocate_inode_outcome [OF ok assms(2)] .
  note fr = keeps_blocks_frame [OF o(3) ok]
  have "ready s'" using assms(1) o(2) fr by (auto simp: ready_def)
  then show ?thesis using that [of "Inr n" s'] o Want_inode assms(2) fr
    by (auto simp: granted_def in_use_def)
qed

interpretation builder: fresh_source "\<lambda>s. ready s \<and> few_inodes s" in_use wants_some allocate_request granted
proof
  fix s q assume inv: "ready s \<and> few_inodes s" and q: "wants_some q"
  obtain v s' where o: "allocate_request q s = Inr (v, s')" "ready s' \<and> few_inodes s'"
    "granted v s' \<inter> in_use s = {}" "in_use s \<union> granted v s' \<subseteq> in_use s'"
    using allocate_request_outcome inv q by blast
  show "\<exists>v s'. allocate_request q s = Inr (v, s')" using o(1) by blast
  fix w t assume "allocate_request q s = Inr (w, t)"
  then show "(ready t \<and> few_inodes t) \<and> granted w t \<inter> in_use s = {} \<and> in_use s \<union> granted w t \<subseteq> in_use t"
    using o by simp
qed

text \<open>A sequence of calls of \<^verbatim>\<open>allocate_blocks\<close> and \<^verbatim>\<open>allocate_inode\<close> in any order, with
  the blocks or the inode each was given.\<close>

fun allocate_each :: "request list \<Rightarrow> ext4_st \<Rightarrow> ((nat + nat) set list \<times> ext4_st) res" where
  "allocate_each [] s = Inr ([], s)"
| "allocate_each (q # qs) s =
     bnd (allocate_request q s) (\<lambda>(v, s1).
     bnd (allocate_each qs s1) (\<lambda>(Bs, s2). Inr (granted v s1 # Bs, s2)))"

lemma allocate_each_take_all: "allocate_each qs s = builder.take_all qs s"
  by (induction qs arbitrary: s) (auto intro!: bnd_cong)

text \<open>
  C5. However many times blocks and inodes are asked for, in any order, every request is answered;
  no block and no inode is handed out twice, and none that was in use at the start is handed out
  at all.
\<close>

theorem allocations_never_overlap:
  assumes "ready s" and "few_inodes s" and "\<forall>q \<in> set qs. wants_some q"
  shows "\<exists>Bs s'. allocate_each qs s = Inr (Bs, s') \<and> length Bs = length qs \<and> ready s' \<and> few_inodes s' \<and>
    (\<forall>B \<in> set Bs. B \<inter> (used_fs s <+> used_inodes s) = {} \<and> B \<subseteq> used_fs s' <+> used_inodes s') \<and>
    (\<forall>i j. i < j \<longrightarrow> j < length Bs \<longrightarrow> Bs ! i \<inter> Bs ! j = {})"
proof -
  note inv = conjI [OF assms(1,2)]
  obtain Bs s' where run: "builder.take_all qs s = Inr (Bs, s')" "length Bs = length qs"
    using builder.take_all_total [OF inv assms(3)] by blast
  note fresh = builder.take_all_fresh [OF inv assms(3) run(1), unfolded in_use_def]
  note apart = builder.take_all_disjoint [OF inv assms(3) run(1)]
  show ?thesis unfolding allocate_each_take_all using run fresh apart by blast
qed


section \<open>Instances\<close>

lemma free_card:
  assumes "group_ok bs bpg bg"
  shows "unat (bgi_free_blocks bg) = card ({..<bpg} - bits (bgi_bitmaps bg))"
proof -
  let ?R = "{unat (bgi_first_free_block bg)..<unat (bgi_first_free_block bg) + unat (bgi_free_blocks bg)}"
  have e: "bits (bgi_bitmaps bg) \<inter> {..<bpg} = {..<bpg} - ?R"
    and l: "unat (bgi_first_free_block bg) + unat (bgi_free_blocks bg) \<le> bpg"
    using assms by (simp_all add: group_ok_def)
  have "{..<bpg} - bits (bgi_bitmaps bg) = {..<bpg} - (bits (bgi_bitmaps bg) \<inter> {..<bpg})" by blast
  also have "\<dots> = ?R" unfolding e using l by auto
  finally show ?thesis by simp
qed

text \<open>The builder's state after the groups of \<^const>\<open>sample_st\<close> were set up.\<close>

lemma sample_blocks:
  "initial_blocks (info sample_st) (aux_info sample_st) 0 = {..<523}"
  "initial_blocks (info sample_st) (aux_info sample_st) 1 = {..<523} \<union> {7232..<32768}"
  "unat (blocks_per_group (info sample_st)) = 32768"
  by (auto simp: initial_blocks_def group_header_def holds_super_def sample_st_def sample_fs_info_def empty_aux_def)

lemma sample_ready:
  obtains s where "block_allocator_init sample_st = Inr s" "ready s" "live 1 s" "free_in s 0 = 32245"
    "unat (groups (aux_info s)) = 2"
proof -
  obtain s x where s: "block_allocator_init sample_st = Inr s" "alloc_ok s" "info s = info sample_st"
      "aux_info s = (aux_info sample_st)\<lparr>bgs := x\<rparr>" "regions s = regions sample_st" "oom s = oom sample_st"
      and b: "\<forall>g < unat (groups (aux_info sample_st)). bgi_data_blocks_used (bgs (aux_info s) ! g) = 0 \<and>
        bits (bgi_bitmaps (bgs (aux_info s) ! g)) = initial_blocks (info sample_st) (aux_info sample_st) g"
    using block_allocator_init_all [OF sample_geometry_ok(1,2)] by blast
  have G: "unat (groups (aux_info s)) = 2" using s(4) sample_geometry_ok(3) by simp
  have ok: "group_ok (unat (block_size (info s))) 32768 (bgs (aux_info s) ! g)" if "g < 2" for g
    using s(2,3) that G sample_blocks(3) by (simp add: alloc_ok_def bg_ok_def)
  have d0: "{..<32768} - {..<523} = {523..<32768 :: nat}" by auto
  have d1: "{..<32768} - ({..<523} \<union> {7232..<32768}) = {523..<7232 :: nat}" by auto
  have f0: "unat (bgi_free_blocks (bgs (aux_info s) ! 0)) = 32245"
    using free_card [OF ok [of 0]] b sample_geometry_ok(3) by (simp add: sample_blocks d0)
  have f1: "unat (bgi_free_blocks (bgs (aux_info s) ! 1)) = 6709"
    using free_card [OF ok [of 1]] b sample_geometry_ok(3) sample_blocks(2) by (simp add: d1)
  have "live 1 s"
    unfolding live_def G all_less_two live_bg_def using b sample_geometry_ok(3) f0 f1 by simp
  moreover have "ready s"
    using s(2,5,6) sample_geometry_ok(2) \<open>live 1 s\<close>
    by (auto simp: ready_def heap_ok_def sample_st_def)
  ultimately show ?thesis using that s(1) f0 G by (simp add: free_in_def)
qed

theorem allocate_block_fresh_witness:
  "\<exists>s blk s'. block_allocator_init sample_st = Inr s \<and> alloc_ok s \<and> allocate_block s = Inr (blk, s') \<and>
     blk \<noteq> EXT4_ALLOCATE_FAILED \<and> unat blk \<notin> used_fs s \<and> used_fs s' = insert (unat blk) (used_fs s)"
proof -
  obtain s where s: "block_allocator_init sample_st = Inr s" "ready s" "live 1 s" "free_in s 0 = 32245"
    "unat (groups (aux_info s)) = 2" using sample_ready .
  have ok: "alloc_ok s" using s(2) by (simp add: ready_def)
  have "\<not> (\<forall>g < unat (groups (aux_info s)). free_in s g = 0)" using s(4,5) by (auto simp: all_less_two)
  then show ?thesis using allocate_block_fresh [OF ok] s(1) ok by blast
qed

theorem allocate_blocks_spec_witness:
  "\<exists>s alloc s' as bl. block_allocator_init sample_st = Inr s \<and> allocate_blocks 30000 s = Inr (Some alloc, s') \<and>
     alloc_nodes s' alloc as \<and> bl = blocks_of (region_list_of (regions s') as) \<and> length bl = 30000 \<and> distinct bl \<and>
     set bl \<inter> used_fs s = {} \<and> used_fs s' = used_fs s \<union> set bl"
proof -
  obtain s where s: "block_allocator_init sample_st = Inr s" "ready s" "live 1 s" "free_in s 0 = 32245"
    "unat (groups (aux_info s)) = 2" using sample_ready .
  have pre: "alloc_ok s" "heap_ok s" "\<forall>n. \<not> oom s n" using s(2) by (auto simp: ready_def)
  have pos: "0 < (30000 :: u32)" by simp
  obtain res s' where r: "allocate_blocks 30000 s = Inr (res, s')"
    and c: "case res of
       None \<Rightarrow> used_fs s \<subseteq> used_fs s' \<and> (\<forall>g < unat (groups (aux_info s)). free_in s g < unat (30000 :: u32))
     | Some alloc \<Rightarrow> \<exists>as bl. alloc_nodes s' alloc as \<and> bl = blocks_of (region_list_of (regions s') as) \<and>
         length bl = unat (30000 :: u32) \<and> distinct bl \<and> set bl \<inter> used_fs s = {} \<and> used_fs s' = used_fs s \<union> set bl"
    using allocate_blocks_spec [OF pre(1) s(3) pre(2,3) pos] by blast
  have "res \<noteq> None" using c s(4,5) by (auto simp: all_less_two split: option.splits)
  then show ?thesis using r c s(1) by auto
qed

text \<open>Two regions, of three and two blocks, linked in a heap of two objects.\<close>

definition two_regions :: ext4_st where
  "two_regions = sample_st\<lparr>mallocs := 2, regions := [
     0 \<mapsto> \<lparr>reg_block = 100, reg_len = 3, reg_bg = 0, reg_next = Some 1, reg_prev = None\<rparr>,
     1 \<mapsto> \<lparr>reg_block = 500, reg_len = 2, reg_bg = 0, reg_next = None, reg_prev = Some 0\<rparr>]\<rparr>"

lemma two_regions_ok:
  "alloc_nodes two_regions (alloc_at 0) [0, 1]" "heap_ok two_regions"
  "\<forall>r \<in> set (region_list_of (regions two_regions) [0, 1]). good_region r"
  "[100, 101, 102, 500, 501] = blocks_of (region_list_of (regions two_regions) [0, 1])"
  by (auto simp: alloc_nodes_def alloc_at_def two_regions_def heap_ok_def good_region_def blocks_of_def upt_rec split: if_splits)

theorem allocation_walks_witness:
  "get_block (alloc_at 0) 3 two_regions = Inr 500 \<and> block_allocation_len (alloc_at 0) two_regions = Inr 5 \<and>
   block_allocation_num_regions (alloc_at 0) two_regions = Inr 2"
  using allocation_walks [OF two_regions_ok, of 3] by simp

text \<open>The same two regions and a third, of one block, on the second list of the allocation.\<close>

definition three_regions :: ext4_st where
  "three_regions = two_regions\<lparr>mallocs := 4, regions := (regions two_regions)(
     2 \<mapsto> \<lparr>reg_block = 700, reg_len = 1, reg_bg = 0, reg_next = None, reg_prev = None\<rparr>,
     3 \<mapsto> \<lparr>reg_block = 900, reg_len = 9, reg_bg = 0, reg_next = None, reg_prev = None\<rparr>)\<rparr>"

definition oob_alloc :: block_allocation where
  "oob_alloc = (alloc_at 0)\<lparr>al_oob_list := \<lparr>rl_first = Some 2, rl_last = Some 2, rl_iter = Some 2, rl_partial_iter = 0\<rparr>\<rparr>"

lemma three_regions_ok:
  "dchain (regions three_regions) None (rl_first (al_list oob_alloc)) [0, 1]"
  "dchain (regions three_regions) None (rl_first (al_oob_list oob_alloc)) [2]"
  "set [0, 1] \<inter> set [2 :: nat] = {}" "heap_ok three_regions"
  by (auto simp: three_regions_def two_regions_def oob_alloc_def alloc_at_def heap_ok_def split: if_splits)

theorem free_alloc_releases_witness:
  "\<exists>s'. free_alloc oob_alloc three_regions = Inr s' \<and> dom (regions s') = {3}"
proof -
  obtain s' where s': "free_alloc oob_alloc three_regions = Inr s'"
    "\<forall>a. regions s' a = (if a \<in> set [0, 1] \<union> set [2] then None else regions three_regions a)"
    using free_alloc_releases [OF three_regions_ok] by blast
  have "dom (regions s') = {3}"
    unfolding dom_def s'(2) [rule_format] by (auto simp: three_regions_def two_regions_def split: if_splits)
  then show ?thesis using s'(1) by blast
qed

theorem reduce_allocation_gives_back_witness:
  "\<exists>s s1 a r s'. block_allocator_init sample_st = Inr s \<and> allocate_blocks 10 s = Inr (Some (alloc_at a), s1) \<and>
     regions s1 a = Some r \<and> reduce_allocation (alloc_at a) 1 s1 = Inr (alloc_at a, s') \<and>
     used_fs s' = used_fs s1 - {unat (reg_block r) + unat (reg_len r) - 1..<unat (reg_block r) + unat (reg_len r)}"
proof -
  obtain s where s: "block_allocator_init sample_st = Inr s" "ready s" "live 1 s" "free_in s 0 = 32245"
    "unat (groups (aux_info s)) = 2" using sample_ready .
  have pre: "alloc_ok s" "live 1 s" "heap_ok s" "\<forall>n. \<not> oom s n" using s(2,3) by (auto simp: ready_def)
  have pos: "0 < (10 :: u32)" by simp
  have "\<not> (\<forall>g < unat (groups (aux_info s)). free_in s g < unat (10 :: u32))" using s(4,5) by (auto simp: all_less_two)
  then obtain s1 a as where al: "allocate_blocks 10 s = Inr (Some (alloc_at a), s1)"
    "allocated s s1 None (Some a) (a # as) (unat (10 :: u32))" "topped s1 (the (regions s1 a))"
    "2 \<le> unat (reg_len (the (regions s1 a)))"
    using allocate_blocks_cases [OF pre pos] by auto
  obtain r where r: "regions s1 a = Some r" using al(2) by (auto simp: allocated_def)
  have ok1: "alloc_ok s1" using al(2) by (simp add: allocated_def took_def)
  have "1 < reg_len r" using al(4) r by (simp add: word_less_nat_alt)
  then show ?thesis
    using reduce_allocation_gives_back [OF ok1, of "alloc_at a" a r 1] r al s(1) by (fastforce simp: alloc_at_def)
qed

theorem allocations_never_overlap_witness:
  "\<exists>s B1 B2 B3 B4 s'. block_allocator_init sample_st = Inr s \<and>
     allocate_each [Want_inode, Want_blocks 10, Want_inode, Want_blocks 20] s = Inr ([B1, B2, B3, B4], s') \<and>
     ready s' \<and> B1 \<inter> B3 = {} \<and> B2 \<inter> B4 = {} \<and> B4 \<inter> in_use s = {} \<and> B3 \<inter> in_use s = {}"
proof -
  obtain s where s: "block_allocator_init sample_st = Inr s" "ready s" "live 1 s" "free_in s 0 = 32245"
    "unat (groups (aux_info s)) = 2" using sample_ready .
  have few: "few_inodes s"
    using block_allocator_init_all [OF sample_geometry_ok(1,2)] s(1) sample_geometry_ok(3,4)
    by (auto simp: few_inodes_def)
  let ?qs = "[Want_inode, Want_blocks 10, Want_inode, Want_blocks 20]"
  have q: "\<forall>q \<in> set ?qs. wants_some q" by (simp add: wants_some_def)
  obtain Bs s' where run: "allocate_each ?qs s = Inr (Bs, s')" "length Bs = length ?qs" "ready s'"
    and f: "\<forall>B \<in> set Bs. B \<inter> in_use s = {} \<and> B \<subseteq> in_use s'"
    and d: "\<forall>i j. i < j \<longrightarrow> j < length Bs \<longrightarrow> Bs ! i \<inter> Bs ! j = {}"
    using allocations_never_overlap [OF s(2) few q, folded in_use_def] by (elim exE conjE) (rule that)
  obtain B1 B2 B3 B4 where Bs: "Bs = [B1, B2, B3, B4]"
    using run(2) by (auto simp: length_Suc_conv numeral_eq_Suc)
  have "B1 \<inter> B3 = {}" "B2 \<inter> B4 = {}" using d [rule_format, of 0 2] d [rule_format, of 1 3] by (simp_all add: Bs)
  then show ?thesis using s(1) run(1,3) f unfolding Bs by (intro exI [of _ s] exI [of _ B1] exI [of _ B2]
      exI [of _ B3] exI [of _ B4] exI [of _ s']) simp
qed

text \<open>A filesystem of one group that its header fills.\<close>

definition full_st :: ext4_st where
  "full_st = (start_st (sample_fs_info\<lparr>blocks_per_group := 523\<rparr>))\<lparr>aux_info := empty_aux\<lparr>len_blocks := 523,
     inode_table_blocks := 512, groups := 1, bg_desc_blocks := 1\<rparr>\<rparr>"

lemma full_st_ok:
  "geometry_ok (info full_st) (aux_info full_st)" "\<forall>n. \<not> oom full_st n" "unat (groups (aux_info full_st)) = 1"
  "initial_blocks (info full_st) (aux_info full_st) 0 = {..<523}" "unat (blocks_per_group (info full_st)) = 523"
  by (auto simp: full_st_def geometry_ok_def initial_blocks_def group_header_def holds_super_def empty_aux_def
      sample_fs_info_def Let_def)

theorem allocate_multiple_loops_forever_witness:
  "\<exists>s. block_allocator_init full_st = Inr s \<and> multiple_loop 1000 None None 5 s = Inl Diverges"
proof -
  obtain s x where s: "block_allocator_init full_st = Inr s" "alloc_ok s" "info s = info full_st"
      "aux_info s = (aux_info full_st)\<lparr>bgs := x\<rparr>" "regions s = regions full_st" "oom s = oom full_st"
      and b: "bgi_data_blocks_used (bgs (aux_info s) ! 0) = 0" "bits (bgi_bitmaps (bgs (aux_info s) ! 0)) = {..<523}"
    using block_allocator_init_all [OF full_st_ok(1,2)] full_st_ok(3,4) by auto
  have G: "unat (groups (aux_info s)) = 1" using s(4) full_st_ok(3) by simp
  have "group_ok (unat (block_size (info s))) 523 (bgs (aux_info s) ! 0)"
    using s(2,3) G full_st_ok(5) by (simp add: alloc_ok_def bg_ok_def)
  from free_card [OF this] have "unat (bgi_free_blocks (bgs (aux_info s) ! 0)) = 0" unfolding b(2) by simp
  then have z: "bgi_free_blocks (bgs (aux_info s) ! 0) = 0" by (simp add: word_unat_eq_iff)
  have "length (bgs (aux_info s)) = 1" using s(2) G by (simp add: alloc_ok_def)
  then have "find_unused (all_groups s) s = Inr (Some (of_nat 0))"
    using G b(1) by (simp add: all_groups_def bg_at_def)
  moreover have "heap_ok s" using s(5) by (simp add: heap_ok_def full_st_def)
  ultimately have "multiple_loop 1000 None None 5 s = Inl Diverges"
    using G b z s(6) full_st_ok(2) by (intro allocate_multiple_loops_forever [OF s(2), of 0]) auto
  then show ?thesis using s(1) by blast
qed

end
