(* ===== verification/Inodes.thy ===== *)
theory Inodes
  imports Allocation
begin

text \<open>
  Writes into inodes as whole-state updates. \<open>inode_room s p n\<close> tells that the inode pointer
  \<open>p\<close> has \<open>n\<close> bytes of an existing inode table behind it; under it the checked stores
  of the model are total, so a sequence of field assignments can be read field by field
  (\<open>inode_simps\<close>).
\<close>

named_theorems inode_simps

section \<open>The bytes of an inode\<close>

definition inode_room :: "ext4_st \<Rightarrow> inode_ptr \<Rightarrow> nat \<Rightarrow> bool" where
  "inode_room s p n \<longleftrightarrow> fst p < length (bgs (aux_info s)) \<and>
     (\<exists>t. bgi_inode_table (bgs (aux_info s) ! fst p) = Some t \<and> snd p + n \<le> length t)"

definition inode_bytes :: "ext4_st \<Rightarrow> inode_ptr \<Rightarrow> bytes" where
  "inode_bytes s p = drop (snd p) (the (bgi_inode_table (bgs (aux_info s) ! fst p)))"

definition inode_write :: "inode_ptr \<Rightarrow> nat \<Rightarrow> bytes \<Rightarrow> ext4_st \<Rightarrow> ext4_st" where
  "inode_write p fld src s = s\<lparr>aux_info := (aux_info s)\<lparr>bgs :=
     (bgs (aux_info s))[fst p := (bgs (aux_info s) ! fst p)\<lparr>bgi_inode_table :=
        Some (blit (the (bgi_inode_table (bgs (aux_info s) ! fst p))) (snd p + fld) src)\<rparr>]\<rparr>\<rparr>"

lemma inode_write_frame [simp]:
  "info (inode_write p f b s) = info s" "force (inode_write p f b s) = force s"
  "regions (inode_write p f b s) = regions s" "mem (inode_write p f b s) = mem s"
  "sparse (inode_write p f b s) = sparse s" "mallocs (inode_write p f b s) = mallocs s"
  "oom (inode_write p f b s) = oom s" "sparse_err (inode_write p f b s) = sparse_err s"
  by (simp_all add: inode_write_def)

lemma inode_room_le: "inode_room s p n \<Longrightarrow> m \<le> n \<Longrightarrow> inode_room s p m"
  by (auto simp: inode_room_def)

lemma inode_room_length: "inode_room s p n \<Longrightarrow> n \<le> length (inode_bytes s p)"
  by (auto simp: inode_room_def inode_bytes_def)

lemma inode_put_bytes:
  assumes "inode_room s p n" and "fld + length src \<le> n"
  shows "inode_upd p (\<lambda>t off. put_bytes t (off + fld) src) s = Inr (inode_write p fld src s)"
  using assms by (auto simp: inode_upd_def inode_table_of_def inode_room_def put_bytes_def inode_write_def)

lemma inode_put16_ok [inode_simps]:
  "inode_room s p n \<Longrightarrow> fld + 2 \<le> n \<Longrightarrow> inode_put16 p fld v s = Inr (inode_write p fld (le16_bytes v) s)"
  using inode_put_bytes [of s p n fld "le16_bytes v"] by (simp add: inode_put16_def put16_def)

lemma inode_put32_ok [inode_simps]:
  "inode_room s p n \<Longrightarrow> fld + 4 \<le> n \<Longrightarrow> inode_put32 p fld v s = Inr (inode_write p fld (le32_bytes v) s)"
  using inode_put_bytes [of s p n fld "le32_bytes v"] by (simp add: inode_put32_def put32_def)

lemma inode_get32_ok [inode_simps]:
  "inode_room s p n \<Longrightarrow> fld + 4 \<le> n \<Longrightarrow> inode_get32 s p fld = Inr (le32 (inode_bytes s p) fld)"
  by (auto simp: inode_get32_def inode_room_def inode_table_of_def get32_def inode_bytes_def ac_simps intro!: le32_cong)

lemma inode_get16_ok [inode_simps]:
  "inode_room s p n \<Longrightarrow> fld + 2 \<le> n \<Longrightarrow> inode_get16 s p fld = Inr (le16 (inode_bytes s p) fld)"
  by (auto simp: inode_get16_def inode_room_def inode_table_of_def get16_def inode_bytes_def ac_simps intro!: le16_cong)

lemma inode_room_write [inode_simps]:
  "inode_room s p n \<Longrightarrow> fld + length src \<le> n \<Longrightarrow> inode_room (inode_write p fld src s) p n"
  by (auto simp: inode_room_def inode_write_def length_blit)

lemma inode_bytes_write [inode_simps]:
  "inode_room s p n \<Longrightarrow> fld + length src \<le> n \<Longrightarrow>
   inode_bytes (inode_write p fld src s) p = blit (inode_bytes s p) fld src"
  by (auto simp: inode_room_def inode_bytes_def inode_write_def blit_drop)

text \<open>Writing an inode does not concern the allocator.\<close>

lemma length_bgs_write [simp]: "length (bgs (aux_info (inode_write p f b s))) = length (bgs (aux_info s))"
  by (simp add: inode_write_def)

lemma aux_write_fields [simp]:
  "groups (aux_info (inode_write p f b s)) = groups (aux_info s)"
  "first_data_block (aux_info (inode_write p f b s)) = first_data_block (aux_info s)"
  "inode_table_blocks (aux_info (inode_write p f b s)) = inode_table_blocks (aux_info s)"
  "bg_desc_blocks (aux_info (inode_write p f b s)) = bg_desc_blocks (aux_info s)"
  "blocks_per_ind (aux_info (inode_write p f b s)) = blocks_per_ind (aux_info s)"
  "xattrs (aux_info (inode_write p f b s)) = xattrs (aux_info s)"
  "default_i_flags (aux_info (inode_write p f b s)) = default_i_flags (aux_info s)"
  by (simp_all add: inode_write_def)

text \<open>Everything of a block group but its inode table.\<close>

definition bg_of :: "block_group_info \<Rightarrow> block_group_info" where
  "bg_of bg = bg\<lparr>bgi_inode_table := None\<rparr>"

lemma bg_of_select [simp]:
  "bgi_bitmaps (bg_of x) = bgi_bitmaps x" "bgi_free_blocks (bg_of x) = bgi_free_blocks x"
  "bgi_first_block (bg_of x) = bgi_first_block x" "bgi_first_free_block (bg_of x) = bgi_first_free_block x"
  "bgi_free_inodes (bg_of x) = bgi_free_inodes x" "bgi_first_free_inode (bg_of x) = bgi_first_free_inode x"
  "bgi_data_blocks_used (bg_of x) = bgi_data_blocks_used x"
  by (simp_all add: bg_of_def)

lemma bg_of_predicates:
  "group_ok bs bpg (bg_of x) = group_ok bs bpg x" "inode_ok bs ipg (bg_of x) = inode_ok bs ipg x"
  "bg_ok fi a g (bg_of x) = bg_ok fi a g x" "live_bg k (bg_of x) = live_bg k x"
  "used_blocks n (bg_of x) = used_blocks n x"
  by (simp_all add: group_ok_def inode_ok_def bg_ok_def live_bg_def used_blocks_def)

text \<open>Two states whose allocators agree.\<close>

definition same_blocks :: "ext4_st \<Rightarrow> ext4_st \<Rightarrow> bool" where
  "same_blocks s s' \<longleftrightarrow> info s' = info s \<and> groups (aux_info s') = groups (aux_info s) \<and>
     first_data_block (aux_info s') = first_data_block (aux_info s) \<and>
     map bg_of (bgs (aux_info s')) = map bg_of (bgs (aux_info s))"

lemma same_blocks_refl [simp]: "same_blocks s s"
  by (simp add: same_blocks_def)

lemma same_blocks_trans: "same_blocks s t \<Longrightarrow> same_blocks t u \<Longrightarrow> same_blocks s u"
  by (simp add: same_blocks_def)

lemma same_blocks_write: "same_blocks s (inode_write p f b s)"
proof -
  have "map bg_of ((bgs (aux_info s))[i := (bgs (aux_info s) ! i)\<lparr>bgi_inode_table := t\<rparr>]) = map bg_of (bgs (aux_info s))" for i t
    by (cases "i < length (bgs (aux_info s))")
      (auto simp: map_update bg_of_def list_update_same_conv list_update_beyond)
  then show ?thesis by (simp add: same_blocks_def inode_write_def)
qed

lemma bg_ok_aux: "first_data_block a' = first_data_block a \<Longrightarrow> bg_ok fi a' g bg = bg_ok fi a g bg"
  by (simp add: bg_ok_def)

lemma same_blocks_nth:
  assumes "same_blocks s s'"
  shows "length (bgs (aux_info s')) = length (bgs (aux_info s))"
    and "g < length (bgs (aux_info s)) \<Longrightarrow> bg_of (bgs (aux_info s') ! g) = bg_of (bgs (aux_info s) ! g)"
proof -
  show l: "length (bgs (aux_info s')) = length (bgs (aux_info s))"
    using assms by (auto simp: same_blocks_def dest: arg_cong [of _ _ length])
  show "bg_of (bgs (aux_info s') ! g) = bg_of (bgs (aux_info s) ! g)" if g: "g < length (bgs (aux_info s))"
  proof -
    have "map bg_of (bgs (aux_info s')) ! g = map bg_of (bgs (aux_info s)) ! g"
      using assms by (simp only: same_blocks_def)
    then show ?thesis unfolding nth_map [OF g] nth_map [OF g [folded l]] .
  qed
qed

lemma same_blocks_allocator:
  assumes eq: "same_blocks s s'" and ok: "alloc_ok s"
  shows "alloc_ok s'" and "used_fs s' = used_fs s" and "live k s' = live k s"
proof -
  have l: "length (bgs (aux_info s)) = unat (groups (aux_info s))" using ok by (simp add: alloc_ok_def)
  have e: "info s' = info s" "groups (aux_info s') = groups (aux_info s)"
    "first_data_block (aux_info s') = first_data_block (aux_info s)" using eq by (simp_all add: same_blocks_def)
  have g: "bg_of (bgs (aux_info s') ! g) = bg_of (bgs (aux_info s) ! g)" if "g < unat (groups (aux_info s))" for g
    using same_blocks_nth(2) [OF eq] that l by simp
  show "alloc_ok s'"
    using ok g same_blocks_nth(1) [OF eq] unfolding alloc_ok_def e
    by (metis bg_of_predicates(3) bg_ok_aux e(3))
  show "used_fs s' = used_fs s" unfolding used_fs_def e
    using g by (metis (no_types, lifting) SUP_cong bg_of_predicates(5) lessThan_iff)
  show "live k s' = live k s" unfolding live_def e using g by (metis bg_of_predicates(4))
qed

end
