(* ===== verification/Extent.thy ===== *)
theory Extent
  imports Inodes
begin

text \<open>
  \<^verbatim>\<open>extent.c\<close>: giving a file its blocks and describing them by extents, either in the
  60 bytes of \<^verbatim>\<open>i_block\<close> (up to three regions) or in one extra block. The reader
  \<open>inode_file_blocks\<close> is what a mounted filesystem does with such an inode; the theorem
  says that it finds exactly the blocks the allocator gave.
\<close>

section \<open>Backing of file contents\<close>

text \<open>The loops stop at the end of the data; a list of regions that is too short is a NULL
  dereference in \<^verbatim>\<open>get_region\<close>.\<close>

definition backing_chunk :: "ext4_st \<Rightarrow> u32 \<Rightarrow> u64 \<Rightarrow> u32" where
  "backing_chunk s region_len backing_len =
     ucast (min (ucast (region_len * block_size (info s)) :: u64) backing_len)"

fun backing_loop :: "nat \<Rightarrow> nat \<Rightarrow> nat \<Rightarrow> block_allocation \<Rightarrow> u64 \<Rightarrow> ext4_st \<Rightarrow> (block_allocation \<times> ext4_st) res" where
  "backing_loop 0 data ptr alloc backing_len s = Inl Diverges"
| "backing_loop (Suc fuel) data ptr alloc backing_len s =
     (if 0 < backing_len then
        bnd (get_region alloc s) (\<lambda>(region_block, region_len).
        let len = backing_chunk s region_len backing_len;
            s = sparse_file_add (Add_Data (Heap_Buf data ptr) len region_block) s in
        bnd (get_next_region alloc s) (\<lambda>alloc.
        backing_loop fuel data (ptr + unat len) alloc (backing_len - ucast len) s))
      else Inr (alloc, s))"

text \<open>\<^verbatim>\<open>calloc\<close> takes a 32-bit size, so the length is truncated at the call.\<close>

definition extent_create_backing ::
    "block_allocation \<Rightarrow> u64 \<Rightarrow> ext4_st \<Rightarrow> (nat \<times> block_allocation \<times> ext4_st) res" where
  "extent_create_backing alloc backing_len s =
     (case calloc_buf (unat (ucast backing_len :: u32)) s of
        (None, s) \<Rightarrow> Inl Longjmp
      | (Some data, s) \<Rightarrow>
          bnd (backing_loop (Suc (mallocs s)) data 0 alloc backing_len s) (\<lambda>(alloc, s).
          Inr (data, alloc, s)))"

fun backing_file_loop ::
    "nat \<Rightarrow> bytes \<Rightarrow> u64 \<Rightarrow> block_allocation \<Rightarrow> u64 \<Rightarrow> ext4_st \<Rightarrow> (block_allocation \<times> ext4_st) res" where
  "backing_file_loop 0 filename offset alloc backing_len s = Inl Diverges"
| "backing_file_loop (Suc fuel) filename offset alloc backing_len s =
     (if 0 < backing_len then
        bnd (get_region alloc s) (\<lambda>(region_block, region_len).
        let len = backing_chunk s region_len backing_len;
            s = sparse_file_add (Add_File filename offset len region_block) s in
        bnd (get_next_region alloc s) (\<lambda>alloc.
        backing_file_loop fuel filename (offset + ucast len) alloc (backing_len - ucast len) s))
      else Inr (alloc, s))"

definition extent_create_backing_file ::
    "block_allocation \<Rightarrow> u64 \<Rightarrow> bytes \<Rightarrow> ext4_st \<Rightarrow> (block_allocation \<times> ext4_st) res" where
  "extent_create_backing_file alloc backing_len filename s =
     backing_file_loop (Suc (mallocs s)) filename 0 alloc backing_len s"

section \<open>Extents\<close>

text \<open>
  Where \<^verbatim>\<open>hdr\<close> and \<^verbatim>\<open>extent\<close> point: into \<^verbatim>\<open>i_block\<close> of an inode or into
  a heap buffer.
\<close>

datatype extent_ptr = In_Inode inode_ptr nat | In_Buffer nat nat

fun ext_put16 :: "extent_ptr \<Rightarrow> nat \<Rightarrow> u16 \<Rightarrow> ext4_st \<Rightarrow> ext4_st res" where
  "ext_put16 (In_Inode p base) fld v s = inode_put16 p (base + fld) v s"
| "ext_put16 (In_Buffer a base) fld v s = mem_upd a (\<lambda>b. put16 b (base + fld) v) s"

fun ext_put32 :: "extent_ptr \<Rightarrow> nat \<Rightarrow> u32 \<Rightarrow> ext4_st \<Rightarrow> ext4_st res" where
  "ext_put32 (In_Inode p base) fld v s = inode_put32 p (base + fld) v s"
| "ext_put32 (In_Buffer a base) fld v s = mem_upd a (\<lambda>b. put32 b (base + fld) v) s"

fun extent_next :: "extent_ptr \<Rightarrow> extent_ptr" where
  "extent_next (In_Inode p base) = In_Inode p (base + 12)"
| "extent_next (In_Buffer a base) = In_Buffer a (base + 12)"

text \<open>\<^verbatim>\<open>struct ext4_extent_header\<close>, in the order of the assignments.\<close>

definition put_header :: "extent_ptr \<Rightarrow> u16 \<Rightarrow> u16 \<Rightarrow> u16 \<Rightarrow> ext4_st \<Rightarrow> ext4_st res" where
  "put_header hdr entries mx depth s =
     bnd (ext_put16 hdr 0 EXT4_EXT_MAGIC s) (\<lambda>s.
     bnd (ext_put16 hdr 2 entries s) (\<lambda>s.
     bnd (ext_put16 hdr 4 mx s) (\<lambda>s.
     bnd (ext_put32 hdr 8 0 s) (\<lambda>s.
     ext_put16 hdr 6 depth s))))"

text \<open>\<^verbatim>\<open>struct ext4_extent\<close>: the 32-bit length of a region is cut to 16 bits.\<close>

definition put_extent :: "extent_ptr \<Rightarrow> u32 \<Rightarrow> u32 \<Rightarrow> u32 \<Rightarrow> ext4_st \<Rightarrow> ext4_st res" where
  "put_extent extent file_block region_len region_block s =
     bnd (ext_put32 extent 0 file_block s) (\<lambda>s.
     bnd (ext_put16 extent 4 (ucast region_len) s) (\<lambda>s.
     bnd (ext_put16 extent 6 0 s) (\<lambda>s.
     ext_put32 extent 8 region_block s)))"

definition put_extent_idx :: "extent_ptr \<Rightarrow> u32 \<Rightarrow> ext4_st \<Rightarrow> ext4_st res" where
  "put_extent_idx idx leaf s =
     bnd (ext_put32 idx 0 0 s) (\<lambda>s.
     bnd (ext_put32 idx 4 leaf s) (\<lambda>s.
     bnd (ext_put16 idx 8 0 s) (\<lambda>s.
     ext_put16 idx 10 0 s)))"

fun extent_loop :: "nat \<Rightarrow> extent_ptr \<Rightarrow> u32 \<Rightarrow> block_allocation \<Rightarrow> ext4_st \<Rightarrow> (block_allocation \<times> ext4_st) res" where
  "extent_loop 0 extent file_block alloc s = Inl Diverges"
| "extent_loop (Suc fuel) extent file_block alloc s =
     (if last_region alloc then Inr (alloc, s)
      else
        bnd (get_region alloc s) (\<lambda>(region_block, region_len).
        bnd (put_extent extent file_block region_len region_block s) (\<lambda>s.
        bnd (get_next_region alloc s) (\<lambda>alloc.
        extent_loop fuel (extent_next extent) (file_block + region_len) alloc s))))"

text \<open>
  The extra block of a file with more than three regions. The test whether the extents fit divides
  the header size instead of the difference: it accepts up to \<^verbatim>\<open>block_size - 1\<close> extents, and
  the extents beyond the block are written outside the buffer.
\<close>

definition extent_block_setup ::
    "inode_ptr \<Rightarrow> u32 \<Rightarrow> u32 \<Rightarrow> ext4_st \<Rightarrow> (extent_ptr option \<times> ext4_st) res" where
  "extent_block_setup inode extent_block allocation_len s =
     bnd (put_header (In_Inode inode i_block) 1 3 1 s) (\<lambda>s.
     bnd (put_extent_idx (In_Inode inode (i_block + 12)) extent_block s) (\<lambda>s.
     case calloc_buf (unat (block_size (info s))) s of
       (None, s) \<Rightarrow> Inl Longjmp
     | (Some data, s) \<Rightarrow>
         let s = sparse_file_add (Add_Data (Heap_Buf data 0) (block_size (info s)) extent_block) s in
         if sint (block_size (info s) - 1) < sint allocation_len then error_then (force s) (None, s)
         else
           bnd (put_header (In_Buffer data 0) (ucast allocation_len) (ucast ((block_size (info s) - 12) div 12)) 0 s) (\<lambda>s.
           Inr (Some (In_Buffer data 12), s))))"

definition put_inode_sizes :: "inode_ptr \<Rightarrow> u64 \<Rightarrow> u64 \<Rightarrow> ext4_st \<Rightarrow> ext4_st res" where
  "put_inode_sizes inode len blocks s =
     bnd (inode_get32 s inode i_flags) (\<lambda>flags.
     bnd (inode_put32 inode i_flags (flags OR EXT4_EXTENTS_FL) s) (\<lambda>s.
     bnd (inode_put32 inode i_size_lo (ucast len) s) (\<lambda>s.
     bnd (inode_put32 inode i_size_high (ucast (drop_bit 32 len)) s) (\<lambda>s.
     bnd (inode_put32 inode i_blocks_lo (ucast blocks) s) (\<lambda>s.
     inode_put16 inode l_i_blocks_high (ucast (drop_bit 32 blocks)) s)))))"

definition extent_blocks_wanted :: "ext4_st \<Rightarrow> u64 \<Rightarrow> u32" where
  "extent_blocks_wanted s len = ucast (DIV_ROUND_UP len (ucast (block_size (info s))))"

definition do_inode_allocate_extents ::
    "inode_ptr \<Rightarrow> u64 \<Rightarrow> ext4_st \<Rightarrow> (block_allocation option \<times> ext4_st) res" where
  "do_inode_allocate_extents inode len s =
     (if block_size (info s) = 0 then Inl Undefined else
      let block_len = extent_blocks_wanted s len in
      bnd (allocate_blocks (block_len + 1) s) (\<lambda>(alloc, s).
      case alloc of
        None \<Rightarrow> error_then (force s) (None, s)
      | Some alloc \<Rightarrow>
        bnd (block_allocation_num_regions alloc s) (\<lambda>allocation_len.
        bnd (if sint allocation_len \<le> 3
             then bnd (reduce_allocation alloc 1 s) (\<lambda>(alloc, s). Inr (0, alloc, s))
             else bnd (reserve_oob_blocks alloc 1 s) (\<lambda>(r, alloc, s).
                  bnd (get_oob_block alloc 0 s) (\<lambda>b. Inr (b, alloc, s)))) (\<lambda>(extent_block, alloc, s).
        bnd (if extent_block = 0
             then bnd (put_header (In_Inode inode i_block) (ucast allocation_len) 3 0 s) (\<lambda>s.
                  Inr (Some (In_Inode inode (i_block + 12)), s))
             else extent_block_setup inode extent_block allocation_len s) (\<lambda>(extent, s).
        case extent of
          None \<Rightarrow> Inr (None, s)
        | Some extent \<Rightarrow>
          bnd (extent_loop (Suc (mallocs s)) extent 0 alloc s) (\<lambda>(alloc, s).
          let block_len = (if extent_block \<noteq> 0 then block_len + 1 else block_len);
              blocks = ucast block_len * ucast (block_size (info s)) div 512 in
          bnd (put_inode_sizes inode len blocks s) (\<lambda>s.
          Inr (Some (rewind_alloc alloc), s))))))))"

section \<open>Clients\<close>

text \<open>The result of \<^verbatim>\<open>inode_allocate_data_extents\<close> is the data buffer or NULL.\<close>

definition inode_allocate_data_extents ::
    "inode_ptr \<Rightarrow> u64 \<Rightarrow> u64 \<Rightarrow> ext4_st \<Rightarrow> (nat option \<times> ext4_st) res" where
  "inode_allocate_data_extents inode len backing_len s =
     bnd (do_inode_allocate_extents inode len s) (\<lambda>(alloc, s).
     case alloc of
       None \<Rightarrow> error_then (force s) (None, s)
     | Some alloc \<Rightarrow>
       bnd (if backing_len \<noteq> 0
            then bnd (extent_create_backing alloc backing_len s) (\<lambda>(data, alloc, s). Inr (Some data, alloc, s))
            else Inr (None, alloc, s)) (\<lambda>(data, alloc, s).
       bnd (free_alloc alloc s) (\<lambda>s. Inr (data, s))))"

definition inode_allocate_file_extents :: "inode_ptr \<Rightarrow> u64 \<Rightarrow> bytes \<Rightarrow> ext4_st \<Rightarrow> ext4_st res" where
  "inode_allocate_file_extents inode len filename s =
     bnd (do_inode_allocate_extents inode len s) (\<lambda>(alloc, s).
     case alloc of
       None \<Rightarrow> error_then (force s) s
     | Some alloc \<Rightarrow>
       bnd (extent_create_backing_file alloc len filename s) (\<lambda>(alloc, s). free_alloc alloc s))"

definition inode_allocate_extents :: "inode_ptr \<Rightarrow> u64 \<Rightarrow> ext4_st \<Rightarrow> ext4_st res" where
  "inode_allocate_extents inode len s =
     bnd (do_inode_allocate_extents inode len s) (\<lambda>(alloc, s).
     case alloc of None \<Rightarrow> error_then (force s) s | Some alloc \<Rightarrow> free_alloc alloc s)"

section \<open>What the stores leave in the inode\<close>

lemma inode_write_append:
  assumes "inode_room s p n" and "f + length x + length y \<le> n" and "g = f + length x"
  shows "inode_write p g y (inode_write p f x s) = inode_write p f (x @ y) s"
proof -
  obtain t where t: "fst p < length (bgs (aux_info s))" "bgi_inode_table (bgs (aux_info s) ! fst p) = Some t"
    "snd p + n \<le> length t" using assms(1) by (auto simp: inode_room_def)
  have "blit (blit t (snd p + f) x) (snd p + f + length x) y = blit t (snd p + f) (x @ y)"
    using t(3) assms(2) by (intro blit_blit_adjacent) simp
  then show ?thesis using t assms(3) by (simp add: inode_write_def add.assoc)
qed

lemma inode_write_nothing: "inode_room s p n \<Longrightarrow> f \<le> n \<Longrightarrow> inode_write p f [] s = s"
  by (auto simp: inode_write_def inode_room_def blit_def list_update_same_conv)

definition extent_bytes :: "u32 \<Rightarrow> region \<Rightarrow> bytes" where
  "extent_bytes file_block r = le32_bytes file_block @ le16_bytes (ucast (reg_len r)) @ le16_bytes 0 @ le32_bytes (reg_block r)"

fun extents_bytes :: "u32 \<Rightarrow> region list \<Rightarrow> bytes" where
  "extents_bytes fb [] = []"
| "extents_bytes fb (r # rs) = extent_bytes fb r @ extents_bytes (fb + reg_len r) rs"

lemma length_extent_bytes [simp]: "length (extent_bytes fb r) = 12"
  by (simp add: extent_bytes_def)

lemma length_extents_bytes [simp]: "length (extents_bytes fb rs) = 12 * length rs"
  by (induction rs arbitrary: fb) simp_all

lemma put_extent_inode:
  assumes "inode_room s p n" and "base + 12 \<le> n"
  shows "put_extent (In_Inode p base) fb (reg_len r) (reg_block r) s = Inr (inode_write p base (extent_bytes fb r) s)"
proof -
  let ?l = "le16_bytes (ucast (reg_len r))" and ?b = "le32_bytes (reg_block r)"
  define s1 where "s1 = inode_write p base (le32_bytes fb) s"
  define s2 where "s2 = inode_write p (base + 4) ?l s1"
  define s3 where "s3 = inode_write p (base + 6) (le16_bytes 0) s2"
  have r1: "inode_room s1 p n" unfolding s1_def by (rule inode_room_write [OF assms(1)]) (use assms in simp)
  have r2: "inode_room s2 p n" unfolding s2_def by (rule inode_room_write [OF r1]) (use assms in simp)
  have r3: "inode_room s3 p n" unfolding s3_def by (rule inode_room_write [OF r2]) (use assms in simp)
  have e2: "s2 = inode_write p base (le32_bytes fb @ ?l) s"
    unfolding s2_def s1_def by (rule inode_write_append [OF assms(1)]) (use assms in simp_all)
  have e3: "s3 = inode_write p base ((le32_bytes fb @ ?l) @ le16_bytes 0) s"
    unfolding s3_def e2 by (rule inode_write_append [OF assms(1)]) (use assms in simp_all)
  have e4: "inode_write p (base + 8) ?b s3 = inode_write p base (((le32_bytes fb @ ?l) @ le16_bytes 0) @ ?b) s"
    unfolding e3 by (rule inode_write_append [OF assms(1)]) (use assms in simp_all)
  have "put_extent (In_Inode p base) fb (reg_len r) (reg_block r) s = Inr (inode_write p (base + 8) ?b s3)"
    using assms r1 r2 r3 by (simp add: put_extent_def inode_put32_ok inode_put16_ok s1_def s2_def s3_def)
  then show ?thesis unfolding e4 by (simp add: extent_bytes_def)
qed

lemma dchain_write [simp]: "regions (inode_write p f b s) = regions s"
  by simp

text \<open>The loop over the regions writes their extents one behind the other.\<close>

lemma extent_loop_inode:
  "dchain (regions s) pv (rl_iter (al_list alloc)) as \<Longrightarrow> rl_partial_iter (al_list alloc) = 0 \<Longrightarrow>
   length as < fuel \<Longrightarrow> inode_room s p n \<Longrightarrow> base + 12 * length as \<le> n \<Longrightarrow>
   extent_loop fuel (In_Inode p base) fb alloc s =
     Inr (alloc\<lparr>al_list := (al_list alloc)\<lparr>rl_iter := None\<rparr>\<rparr>,
          inode_write p base (extents_bytes fb (region_list_of (regions s) as)) s)"
proof (induction as arbitrary: pv alloc fuel base fb s)
  case Nil
  then have i: "rl_iter (al_list alloc) = None" by simp
  have "(al_list alloc)\<lparr>rl_iter := rl_iter (al_list alloc)\<rparr> = al_list alloc" by (cases "al_list alloc") simp
  then have e: "alloc\<lparr>al_list := (al_list alloc)\<lparr>rl_iter := None\<rparr>\<rparr> = alloc" unfolding i by (cases alloc) simp
  obtain k where "fuel = Suc k" using Nil.prems by (cases fuel) auto
  then show ?case using Nil i e by (simp add: last_region_def inode_write_nothing)
next
  case (Cons a as)
  obtain r where r: "rl_iter (al_list alloc) = Some a" "regions s a = Some r" "dchain (regions s) (Some a) (reg_next r) as"
    using Cons.prems by auto
  obtain k where k: "fuel = Suc k" using Cons.prems by (cases fuel) auto
  let ?s = "inode_write p base (extent_bytes fb r) s"
  let ?al = "alloc\<lparr>al_list := (al_list alloc)\<lparr>rl_iter := reg_next r, rl_partial_iter := 0\<rparr>\<rparr>"
  have rm: "inode_room ?s p n" by (rule inode_room_write [OF Cons.prems(4)]) (use Cons.prems in simp)
  have p: "put_extent (In_Inode p base) fb (reg_len r) (reg_block r) s = Inr ?s"
    by (rule put_extent_inode [OF Cons.prems(4)]) (use Cons.prems in simp)
  have "extent_loop k (In_Inode p (base + 12)) (fb + reg_len r) ?al ?s =
      Inr (?al\<lparr>al_list := (al_list ?al)\<lparr>rl_iter := None\<rparr>\<rparr>,
           inode_write p (base + 12) (extents_bytes (fb + reg_len r) (region_list_of (regions ?s) as)) ?s)"
    by (rule Cons.IH [of _ "Some a"]) (use Cons.prems k rm r in simp_all)
  moreover have "inode_write p (base + 12) (extents_bytes (fb + reg_len r) (region_list_of (regions s) as)) ?s =
      inode_write p base (extent_bytes fb r @ extents_bytes (fb + reg_len r) (region_list_of (regions s) as)) s"
    by (rule inode_write_append [OF Cons.prems(4)]) (use Cons.prems in \<open>simp_all add: region_list_of_def\<close>)
  moreover have "?al\<lparr>al_list := (al_list ?al)\<lparr>rl_iter := None\<rparr>\<rparr> = alloc\<lparr>al_list := (al_list alloc)\<lparr>rl_iter := None\<rparr>\<rparr>"
    using Cons.prems(2) by simp
  ultimately show ?case
    using k r p Cons.prems(2) by (simp add: last_region_def get_region_def get_next_region_def region_at_def)
qed

section \<open>The reader\<close>

text \<open>
  What the filesystem driver reads: an extent is its first file block, its length and its first
  block on the device; a length above 32768 marks an extent that was never written.
\<close>

definition extent_at :: "bytes \<Rightarrow> nat \<Rightarrow> nat \<times> nat \<times> nat" where
  "extent_at b at = (unat (le32 b at), unat (le16 b (at + 4)),
     unat (le32 b (at + 8)) + 2 ^ 32 * unat (le16 b (at + 6)))"

definition inode_extents :: "bytes \<Rightarrow> (nat \<times> nat \<times> nat) list option" where
  "inode_extents b = (if le16 b i_block = EXT4_EXT_MAGIC \<and> le16 b (i_block + 6) = 0
     then Some (map (\<lambda>i. extent_at b (i_block + 12 + 12 * i)) [0..<unat (le16 b (i_block + 2))]) else None)"

definition extent_lookup :: "(nat \<times> nat \<times> nat) list \<Rightarrow> nat \<Rightarrow> nat option" where
  "extent_lookup exts k = map_option (\<lambda>(f, l, b). b + (k - f)) (find (\<lambda>(f, l, b). l \<le> 32768 \<and> f \<le> k \<and> k < f + l) exts)"

definition inode_file_block :: "bytes \<Rightarrow> nat \<Rightarrow> nat option" where
  "inode_file_block b k = Option.bind (inode_extents b) (\<lambda>exts. extent_lookup exts k)"

definition inode_file_size :: "bytes \<Rightarrow> nat" where
  "inode_file_size b = unat (le32 b i_size_lo) + 2 ^ 32 * unat (le32 b i_size_high)"

fun ext_list :: "nat \<Rightarrow> region list \<Rightarrow> (nat \<times> nat \<times> nat) list" where
  "ext_list f [] = []"
| "ext_list f (r # rs) = (f, unat (reg_len r), unat (reg_block r)) # ext_list (f + unat (reg_len r)) rs"

lemma extent_lookup_list:
  "\<forall>r \<in> set rs. unat (reg_len r) \<le> 32768 \<Longrightarrow>
   extent_lookup (ext_list f rs) k =
     (if f \<le> k \<and> k < f + length (blocks_of rs) then Some (blocks_of rs ! (k - f)) else None)"
proof (induction rs arbitrary: f)
  case Nil
  then show ?case by (simp add: extent_lookup_def blocks_of_def)
next
  case (Cons r rs)
  have "extent_lookup (ext_list f (r # rs)) k = (if f \<le> k \<and> k < f + unat (reg_len r)
      then Some (unat (reg_block r) + (k - f)) else extent_lookup (ext_list (f + unat (reg_len r)) rs) k)"
    using Cons.prems by (simp add: extent_lookup_def)
  then show ?case using Cons by (auto simp: blocks_of_Cons nth_append)
qed

lemma extent_at_inside:
  assumes "at + length src \<le> length dst" and "i + 12 \<le> length src"
  shows "extent_at (blit dst at src) (at + i) = extent_at src i"
  using le32_inside [OF assms(1), of i] le32_inside [OF assms(1), of "i + 8"]
    le16_inside [OF assms(1), of "i + 4"] le16_inside [OF assms(1), of "i + 6"] assms(2)
  by (simp add: extent_at_def add.assoc)

lemma extent_at_other:
  assumes "at + length src \<le> length dst" and "i + 12 \<le> length dst" and "i + 12 \<le> at \<or> at + length src \<le> i"
  shows "extent_at (blit dst at src) i = extent_at dst i"
  using assms by (auto simp: extent_at_def le32_blit_other le16_blit_other)

lemma le32_append: "i + 4 \<le> length x \<Longrightarrow> le32 (x @ y) i = le32 x i"
  by (intro le32_cong) (simp add: nth_append)

lemma le16_append: "i + 2 \<le> length x \<Longrightarrow> le16 (x @ y) i = le16 x i"
  by (intro le16_cong) (simp add: nth_append)

lemma le32_append2: "le32 (x @ y) (length x + i) = le32 y i"
  by (intro le32_cong) (simp add: nth_append add.assoc)

lemma le16_append2: "le16 (x @ y) (length x + i) = le16 y i"
  by (intro le16_cong) (simp add: nth_append add.assoc)

lemma extent_at_append2: "extent_at (x @ y) (length x + i) = extent_at y i"
  using le32_append2 [of x y i] le32_append2 [of x y "i + 8"] le16_append2 [of x y "i + 4"] le16_append2 [of x y "i + 6"]
  by (simp add: extent_at_def add.assoc)

lemma extent_at_append: "i + 12 \<le> length x \<Longrightarrow> extent_at (x @ y) i = extent_at x i"
  by (simp add: extent_at_def le32_append le16_append)

lemma extent_at_bytes:
  assumes "unat (reg_len r) < 2 ^ 16"
  shows "extent_at (extent_bytes fb r) 0 = (unat fb, unat (reg_len r), unat (reg_block r))"
proof -
  let ?a = "le32_bytes fb" and ?b = "le16_bytes (ucast (reg_len r))" and ?c = "le16_bytes 0" and ?d = "le32_bytes (reg_block r)"
  have "le16 (extent_bytes fb r) 4 = ucast (reg_len r)"
    using le16_append2 [of ?a "?b @ ?c @ ?d" 0] by (simp add: extent_bytes_def le16_append le16_le16_bytes)
  moreover have "le16 (extent_bytes fb r) 6 = 0"
    using le16_append2 [of "?a @ ?b" "?c @ ?d" 0] by (simp add: extent_bytes_def le16_append le16_le16_bytes)
  moreover have "le32 (extent_bytes fb r) 8 = reg_block r"
    using le32_append2 [of "?a @ ?b @ ?c" "?d" 0] by (simp add: extent_bytes_def le32_le32_bytes)
  moreover have "le32 (extent_bytes fb r) 0 = fb" by (simp add: extent_bytes_def le32_append le32_le32_bytes)
  moreover have "unat (ucast (reg_len r) :: u16) = unat (reg_len r)"
    using assms by (simp add: unsigned_ucast_eq take_bit_nat_eq_self)
  ultimately show ?thesis by (simp add: extent_at_def)
qed

lemma read_extents_bytes:
  "unat fb + length (blocks_of rs) < 2 ^ 32 \<Longrightarrow> \<forall>r \<in> set rs. unat (reg_len r) < 2 ^ 16 \<Longrightarrow>
   map (\<lambda>i. extent_at (extents_bytes fb rs) (12 * i)) [0..<length rs] = ext_list (unat fb) rs"
proof (induction rs arbitrary: fb)
  case (Cons r rs)
  have u: "unat (fb + reg_len r) = unat fb + unat (reg_len r)"
    using Cons.prems(1) by (intro unat_add_le) (simp add: blocks_of_Cons)
  have sh: "extent_at (extents_bytes fb (r # rs)) (12 * Suc i) = extent_at (extents_bytes (fb + reg_len r) rs) (12 * i)" for i
    using extent_at_append2 [of "extent_bytes fb r" "extents_bytes (fb + reg_len r) rs" "12 * i"] by simp
  have hd: "extent_at (extents_bytes fb (r # rs)) 0 = (unat fb, unat (reg_len r), unat (reg_block r))"
    using Cons.prems(2) by (simp add: extent_at_append extent_at_bytes)
  have IH: "map (\<lambda>i. extent_at (extents_bytes (fb + reg_len r) rs) (12 * i)) [0..<length rs] = ext_list (unat (fb + reg_len r)) rs"
    using Cons.prems u by (intro Cons.IH) (simp_all add: blocks_of_Cons)
  have "[0..<length (r # rs)] = 0 # map Suc [0..<length rs]"
    by (simp add: map_Suc_upt upt_conv_Cons del: upt_Suc)
  then show ?case using sh hd IH u by (simp add: comp_def del: extents_bytes.simps upt_Suc)
qed simp

section \<open>An inode with extents\<close>

text \<open>Steps that change nothing but bytes of inodes.\<close>

definition only_inodes :: "ext4_st \<Rightarrow> ext4_st \<Rightarrow> bool" where
  "only_inodes s s' \<longleftrightarrow> same_blocks s s' \<and> (\<exists>x. s' = s\<lparr>aux_info := (aux_info s)\<lparr>bgs := x\<rparr>\<rparr>)"

lemma only_inodes_write: "only_inodes s (inode_write p f b s)"
  using same_blocks_write [of s p f b] by (auto simp: only_inodes_def inode_write_def)

lemma only_inodes_trans: "only_inodes s t \<Longrightarrow> only_inodes t u \<Longrightarrow> only_inodes s u"
  by (auto simp: only_inodes_def intro: same_blocks_trans)

lemma only_inodes_refl: "only_inodes s s"
proof -
  have "s = s\<lparr>aux_info := (aux_info s)\<lparr>bgs := bgs (aux_info s)\<rparr>\<rparr>" by simp
  then show ?thesis unfolding only_inodes_def using same_blocks_refl by blast
qed

text \<open>A write of \<open>src\<close> at \<open>fld\<close> of an inode with \<open>n\<close> bytes, in terms of its bytes.\<close>

definition wrote :: "inode_ptr \<Rightarrow> nat \<Rightarrow> (bytes \<Rightarrow> bytes) \<Rightarrow> ext4_st \<Rightarrow> ext4_st \<Rightarrow> bool" where
  "wrote p n f s s' \<longleftrightarrow> only_inodes s s' \<and> inode_room s' p n \<and> inode_bytes s' p = f (inode_bytes s p)"

lemma wrote_write:
  "inode_room s p n \<Longrightarrow> fld + length src \<le> n \<Longrightarrow> wrote p n (\<lambda>b. blit b fld src) s (inode_write p fld src s)"
  by (simp add: wrote_def only_inodes_write inode_room_write inode_bytes_write)

lemma wrote_trans: "wrote p n f s t \<Longrightarrow> wrote p n g t u \<Longrightarrow> wrote p n (\<lambda>b. g (f b)) s u"
  by (auto simp: wrote_def intro: only_inodes_trans)

lemma wrote_room: "wrote p n f s t \<Longrightarrow> inode_room t p n"
  by (simp add: wrote_def)

lemma put16_wrote:
  "inode_room s p n \<Longrightarrow> fld + 2 \<le> n \<Longrightarrow>
   \<exists>s'. inode_put16 p fld v s = Inr s' \<and> wrote p n (\<lambda>b. blit b fld (le16_bytes v)) s s'"
  using wrote_write [of s p n fld "le16_bytes v"] by (simp add: inode_put16_ok)

lemma put32_wrote:
  "inode_room s p n \<Longrightarrow> fld + 4 \<le> n \<Longrightarrow>
   \<exists>s'. inode_put32 p fld v s = Inr s' \<and> wrote p n (\<lambda>b. blit b fld (le32_bytes v)) s s'"
  using wrote_write [of s p n fld "le32_bytes v"] by (simp add: inode_put32_ok)

text \<open>Two checked stores in a row.\<close>

lemma bnd_wrote:
  assumes "\<exists>s'. m = Inr s' \<and> wrote p n f s s'"
    and "\<And>s'. wrote p n f s s' \<Longrightarrow> inode_room s' p n \<Longrightarrow> \<exists>u. k s' = Inr u \<and> wrote p n g s' u"
  shows "\<exists>u. bnd m k = Inr u \<and> wrote p n (\<lambda>b. g (f b)) s u"
proof -
  obtain t where t: "m = Inr t" "wrote p n f s t" using assms(1) by blast
  obtain u where "k t = Inr u" "wrote p n g t u" using assms(2) [OF t(2) wrote_room [OF t(2)]] by blast
  then show ?thesis using t wrote_trans [OF t(2)] by auto
qed

definition header_bytes :: "nat \<Rightarrow> u16 \<Rightarrow> u16 \<Rightarrow> u16 \<Rightarrow> bytes \<Rightarrow> bytes" where
  "header_bytes at entries mx depth b =
     blit (blit (blit (blit (blit b at (le16_bytes EXT4_EXT_MAGIC)) (at + 2) (le16_bytes entries))
       (at + 4) (le16_bytes mx)) (at + 8) (le32_bytes 0)) (at + 6) (le16_bytes depth)"

lemma put_header_wrote:
  assumes "inode_room s p n" and "at + 12 \<le> n"
  shows "\<exists>s'. put_header (In_Inode p at) e m d s = Inr s' \<and> wrote p n (header_bytes at e m d) s s'"
  unfolding put_header_def header_bytes_def ext_put16.simps ext_put32.simps add_0_right
  using assms by (intro bnd_wrote put16_wrote put32_wrote) simp_all

definition sizes_bytes :: "u64 \<Rightarrow> u64 \<Rightarrow> bytes \<Rightarrow> bytes" where
  "sizes_bytes len blocks b =
     blit (blit (blit (blit (blit b i_flags (le32_bytes (le32 b i_flags OR EXT4_EXTENTS_FL))) i_size_lo (le32_bytes (ucast len)))
       i_size_high (le32_bytes (ucast (drop_bit 32 len)))) i_blocks_lo (le32_bytes (ucast blocks)))
       l_i_blocks_high (le16_bytes (ucast (drop_bit 32 blocks)))"

lemma put_sizes_wrote:
  assumes "inode_room s p n" and "128 \<le> n"
  shows "\<exists>s'. put_inode_sizes p len blocks s = Inr s' \<and> wrote p n (sizes_bytes len blocks) s s'"
proof -
  let ?fl = "le32 (inode_bytes s p) i_flags OR EXT4_EXTENTS_FL"
  have g: "inode_get32 s p i_flags = Inr (le32 (inode_bytes s p) i_flags)"
    by (rule inode_get32_ok [OF assms(1)]) (use assms in simp)
  have "\<exists>s'. bnd (inode_put32 p i_flags ?fl s) (\<lambda>s.
      bnd (inode_put32 p i_size_lo (ucast len) s) (\<lambda>s.
      bnd (inode_put32 p i_size_high (ucast (drop_bit 32 len)) s) (\<lambda>s.
      bnd (inode_put32 p i_blocks_lo (ucast blocks) s) (\<lambda>s.
      inode_put16 p l_i_blocks_high (ucast (drop_bit 32 blocks)) s)))) = Inr s' \<and>
    wrote p n (\<lambda>b. blit (blit (blit (blit (blit b i_flags (le32_bytes ?fl)) i_size_lo (le32_bytes (ucast len)))
       i_size_high (le32_bytes (ucast (drop_bit 32 len)))) i_blocks_lo (le32_bytes (ucast blocks)))
       l_i_blocks_high (le16_bytes (ucast (drop_bit 32 blocks)))) s s'"
    using assms by (intro bnd_wrote put16_wrote put32_wrote) simp_all
  then show ?thesis unfolding put_inode_sizes_def g bnd.simps by (simp add: wrote_def sizes_bytes_def)
qed

text \<open>The whole inode after the extents of \<open>rs\<close> were attached.\<close>

definition inode_image :: "u64 \<Rightarrow> u64 \<Rightarrow> region list \<Rightarrow> bytes \<Rightarrow> bytes" where
  "inode_image len blocks rs b =
     sizes_bytes len blocks (blit (header_bytes i_block (of_nat (length rs)) 3 0 b) (i_block + 12) (extents_bytes 0 rs))"

lemma unat_halves: "unat (ucast (w :: u64) :: u32) + 2 ^ 32 * unat (ucast (drop_bit 32 w) :: u32) = unat w"
proof -
  have a: "unat (ucast w :: u32) = unat w mod 2 ^ 32" by (simp add: unsigned_ucast_eq take_bit_eq_mod)
  have "unat w div 2 ^ 32 < 2 ^ 32" using unat_u64 [of w] by (simp add: div_less_iff_less_mult)
  then have b: "unat (ucast (drop_bit 32 w) :: u32) = unat w div 2 ^ 32"
    unfolding unsigned_ucast_eq unsigned_drop_bit_eq by (simp add: drop_bit_eq_div take_bit_nat_eq_self)
  show ?thesis unfolding a b by (metis mod_mult_div_eq)
qed

lemmas reads_over_writes = le16_blit_same le32_blit_same le16_blit_other le32_blit_other length_blit extent_at_other

lemma length_header [simp]: "at + 12 \<le> length b \<Longrightarrow> length (header_bytes at e m d b) = length b"
  by (simp add: header_bytes_def length_blit)

lemma inode_image_reads:
  assumes n: "128 \<le> length b" and rs: "length rs \<le> 3" and len: "length (blocks_of rs) < 2 ^ 32"
    and short: "\<forall>r \<in> set rs. unat (reg_len r) \<le> 32768"
  shows "inode_file_block (inode_image len blocks rs b) k =
      (if k < length (blocks_of rs) then Some (blocks_of rs ! k) else None)"
    and "inode_file_size (inode_image len blocks rs b) = unat len"
proof -
  let ?h = "header_bytes i_block (of_nat (length rs)) 3 0 b"
  let ?x = "blit ?h (i_block + 12) (extents_bytes 0 rs)"
  have lh: "length ?h = length b" using n by simp
  have lx: "length ?x = length b" using n rs lh by (simp add: length_blit)
  have h: "le16 ?h i_block = EXT4_EXT_MAGIC" "le16 ?h (i_block + 6) = 0" "le16 ?h (i_block + 2) = of_nat (length rs)"
    using n by (simp_all add: header_bytes_def reads_over_writes)
  have x: "le16 ?x i_block = EXT4_EXT_MAGIC" "le16 ?x (i_block + 6) = 0" "le16 ?x (i_block + 2) = of_nat (length rs)"
    using h n rs lh by (simp_all add: le16_blit_other)
  have e: "extent_at ?x (i_block + 12 + 12 * i) = extent_at (extents_bytes 0 rs) (12 * i)" if "i < length rs" for i
    using that n rs lh by (intro extent_at_inside) simp_all
  have s: "le16 (inode_image len blocks rs b) j = le16 ?x j" if "40 \<le> j" "j \<le> 98" for j
    using that n lx by (simp add: inode_image_def sizes_bytes_def reads_over_writes)
  have se: "extent_at (inode_image len blocks rs b) j = extent_at ?x j" if "40 \<le> j" "j \<le> 88" for j
    using that n lx by (simp add: inode_image_def sizes_bytes_def reads_over_writes)
  have u: "unat (of_nat (length rs) :: u16) = length rs" using rs by (simp add: unat_of_nat)
  have "\<forall>r \<in> set rs. unat (reg_len r) < 2 ^ 16" using short by auto
  then have "map (\<lambda>i. extent_at (extents_bytes 0 rs) (12 * i)) [0..<length rs] = ext_list (unat (0 :: u32)) rs"
    using len by (intro read_extents_bytes) simp_all
  moreover have "map (\<lambda>i. extent_at (inode_image len blocks rs b) (i_block + 12 + 12 * i)) [0..<length rs] =
      map (\<lambda>i. extent_at (extents_bytes 0 rs) (12 * i)) [0..<length rs]"
    using e rs by (intro map_cong refl) (simp add: se)
  ultimately have "inode_extents (inode_image len blocks rs b) = Some (ext_list 0 rs)"
    using x u by (simp add: inode_extents_def s)
  then show "inode_file_block (inode_image len blocks rs b) k =
      (if k < length (blocks_of rs) then Some (blocks_of rs ! k) else None)"
    using extent_lookup_list [OF short, of 0 k] by (simp add: inode_file_block_def)
  show "inode_file_size (inode_image len blocks rs b) = unat len"
    using n lx unat_halves [of len] by (simp add: inode_file_size_def inode_image_def sizes_bytes_def reads_over_writes)
qed

section \<open>Giving a file its blocks\<close>

lemma same_env_inode:
  assumes "same_env s s'" and "inode_room s p n"
  shows "inode_room s' p n" and "inode_bytes s' p = inode_bytes s p"
proof -
  obtain x where x: "aux_info s' = (aux_info s)\<lparr>bgs := x\<rparr>" "list_all2 same_inodes (bgs (aux_info s)) x"
    using assms(1) by (auto simp: same_env_def)
  have p: "fst p < length (bgs (aux_info s))" using assms(2) by (simp add: inode_room_def)
  have "bgi_inode_table (x ! fst p) = bgi_inode_table (bgs (aux_info s) ! fst p)"
    using list_all2_nthD [OF x(2) p] by (simp add: same_inodes_def)
  then show "inode_room s' p n" "inode_bytes s' p = inode_bytes s p"
    using assms(2) x list_all2_lengthD [OF x(2)] by (auto simp: inode_room_def inode_bytes_def)
qed

lemma dchain_len_update:
  "h a = Some r \<Longrightarrow> dchain (h(a \<mapsto> r\<lparr>reg_len := l\<rparr>)) pv p as = dchain h pv p as"
  by (induction as arbitrary: pv p) auto

lemma reduced_blocks:
  assumes "good_region r" and "distinct (blocks_of (r # rs))" and "2 \<le> unat (reg_len r)"
  defines "r' \<equiv> r\<lparr>reg_len := reg_len r - 1\<rparr>"
  defines "x \<equiv> unat (reg_block r) + unat (reg_len r) - 1"
  shows "distinct (blocks_of (r' # rs))" and "set (blocks_of (r' # rs)) = set (blocks_of (r # rs)) - {x}"
    and "length (blocks_of (r' # rs)) = length (blocks_of (r # rs)) - 1" and "good_region r'" and "x \<in> set (blocks_of (r # rs))"
proof -
  have nz: "reg_len r \<noteq> 0" using assms(3) by (metis not_numeral_le_zero unat_0)
  then have u: "unat (reg_len r - 1) = unat (reg_len r) - 1" by (rule unat_minus_one)
  let ?b = "unat (reg_block r)" and ?l = "unat (reg_len r)"
  have sp: "[?b..<?b + ?l] = [?b..<?b + (?l - 1)] @ [x]"
    using assms(3) upt_Suc_append [of ?b "?b + (?l - 1)"] by (simp add: x_def)
  have b: "blocks_of (r # rs) = [?b..<?b + (?l - 1)] @ [x] @ blocks_of rs" by (simp add: blocks_of_Cons sp)
  have b': "blocks_of (r' # rs) = [?b..<?b + (?l - 1)] @ blocks_of rs" by (simp add: blocks_of_Cons r'_def u)
  have d: "x \<notin> set (blocks_of rs)" using assms(2) unfolding b by simp
  show "distinct (blocks_of (r' # rs))" using assms(2) unfolding b b' by auto
  show "set (blocks_of (r' # rs)) = set (blocks_of (r # rs)) - {x}" unfolding b b' using d by (auto simp: x_def)
  show "length (blocks_of (r' # rs)) = length (blocks_of (r # rs)) - 1" unfolding b b' by simp
  show "good_region r'" using assms(1,3) u by (simp add: good_region_def r'_def word_less_nat_alt)
  show "x \<in> set (blocks_of (r # rs))" unfolding b by simp
qed

text \<open>Allocation followed by giving the spare block back.\<close>

lemma allocate_reduced:
  assumes ok: "alloc_ok s" and lv: "live (Suc k) s" and hp: "heap_ok s" and m: "\<forall>n. \<not> oom s n"
    and len: "0 < unat n" "unat n < 2 ^ 32 - 1"
    and al: "allocate_blocks (n + 1) s = Inr (Some alloc, s1)" and nd: "alloc_nodes s1 alloc nodes"
  obtains s2 where "reduce_allocation alloc 1 s1 = Inr (alloc, s2)" and "same_env s s2" and "heap_ok s2"
    and "alloc_ok s2" and "live k s2" and "alloc_nodes s2 alloc nodes"
    and "block_allocation_num_regions alloc s1 = Inr (of_nat (length nodes))"
    and "\<forall>r \<in> set (region_list_of (regions s2) nodes). good_region r"
    and "length (blocks_of (region_list_of (regions s2) nodes)) = unat n"
    and "distinct (blocks_of (region_list_of (regions s2) nodes))"
    and "set (blocks_of (region_list_of (regions s2) nodes)) \<inter> used_fs s = {}"
    and "used_fs s2 = used_fs s \<union> set (blocks_of (region_list_of (regions s2) nodes))"
    and "alloc = rewind_alloc alloc"
proof -
  have un: "unat (n + 1) = unat n + 1" using len unat_add_of_nat [of n 1] by simp
  have pos: "0 < n + 1" using un by (simp add: word_less_nat_alt)
  obtain a as where c: "alloc = alloc_at a" "allocated s s1 None (Some a) (a # as) (unat (n + 1))"
      "alloc_nodes s1 (alloc_at a) (a # as)" "heap_ok s1" "topped s1 (the (regions s1 a))"
      "2 \<le> unat (n + 1) \<longrightarrow> 2 \<le> unat (reg_len (the (regions s1 a)))"
    using allocate_blocks_cases [OF ok lv hp m pos] al by auto
  have nodes: "nodes = a # as"
    using dchain_unique [of "regions s1" None _ nodes None "a # as"] nd c(1,3) by (auto simp: alloc_nodes_def)
  obtain r where r: "regions s1 a = Some r" using c(3) by (auto simp: alloc_nodes_def)
  let ?r = "r\<lparr>reg_len := reg_len r - 1\<rparr>" and ?x = "unat (reg_block r) + unat (reg_len r) - 1"
  have tk: "took s s1 (set (blocks_of (region_list_of (regions s1) (a # as))))"
    and ds: "distinct (blocks_of (region_list_of (regions s1) (a # as)))" and as: "a \<notin> set as"
    and gd: "\<forall>r \<in> set (region_list_of (regions s1) (a # as)). good_region r"
    and ln: "length (blocks_of (region_list_of (regions s1) (a # as))) = unat n + 1"
    using c(2) un by (simp_all add: allocated_def)
  have l2: "2 \<le> unat (reg_len r)" using c(6) un len r by simp
  have ok1: "alloc_ok s1" using tk by (simp add: took_def)
  have lt: "0 < (1 :: u32)" "1 < reg_len r" using l2 by (simp_all add: word_less_nat_alt)
  have tp: "topped s1 r" using c(5) r by simp
  have la: "rl_last (al_list alloc) = Some a" using c(1) by (simp add: alloc_at_def)
  obtain s2 where s2: "reduce_allocation alloc 1 s1 = Inr (alloc, s2)" "alloc_ok s2" "same_env s1 s2"
     "regions s2 = (regions s1)(a \<mapsto> ?r)" "mallocs s2 = mallocs s1"
     and us: "used_fs s2 = used_fs s1 - {unat (reg_block r) + unat (reg_len r) - unat (1 :: u32)..<unat (reg_block r) + unat (reg_len r)}"
     and lv2: "\<forall>k. live (k + unat (1 :: u32)) s1 \<longrightarrow> live k s2"
    using reduce_last_region [OF ok1 la r tp lt] by blast
  have g: "good_region r" "distinct (blocks_of (r # region_list_of (regions s1) as))"
    using gd ds r by simp_all
  note red = reduced_blocks [OF g l2]
  have rl: "region_list_of (regions s2) nodes = ?r # region_list_of (regions s1) as"
    using as unfolding nodes s2(4) by (simp add: region_list_of_def)
  have rl1: "region_list_of (regions s1) (a # as) = r # region_list_of (regions s1) as" using r by simp
  have "{?x..<unat (reg_block r) + unat (reg_len r)} = {?x}" using l2 by auto
  then have us2: "used_fs s2 = used_fs s1 - {?x}" using us by simp
  have disj: "set (blocks_of (r # region_list_of (regions s1) as)) \<inter> used_fs s = {}"
    and us1: "used_fs s1 = used_fs s \<union> set (blocks_of (r # region_list_of (regions s1) as))"
    using tk unfolding rl1 by (simp_all add: took_def)
  show ?thesis
  proof (rule that [OF s2(1)])
    show "same_env s s2" using tk s2(3) by (auto simp: took_def intro: same_env_trans)
    show "heap_ok s2" using c(4) r unfolding heap_ok_def s2(4,5) by auto
    show "alloc_ok s2" by (rule s2(2))
    show "live k s2" using lv2 tk lv by (simp add: took_def)
    show "alloc_nodes s2 alloc nodes" using nd unfolding alloc_nodes_def s2(4) dchain_len_update [of "regions s1" a r, OF r] .
    show "block_allocation_num_regions alloc s1 = Inr (of_nat (length nodes))" by (rule num_regions_length [OF nd c(4)])
    show "\<forall>r \<in> set (region_list_of (regions s2) nodes). good_region r" unfolding rl using red(4) gd by auto
    show "length (blocks_of (region_list_of (regions s2) nodes)) = unat n" unfolding rl using red(3) ln rl1 by simp
    show "distinct (blocks_of (region_list_of (regions s2) nodes))" unfolding rl by (rule red(1))
    show "set (blocks_of (region_list_of (regions s2) nodes)) \<inter> used_fs s = {}" unfolding rl red(2) using disj by blast
    show "used_fs s2 = used_fs s \<union> set (blocks_of (region_list_of (regions s2) nodes))"
      unfolding rl red(2) us2 us1 using disj red(5) by blast
    show "alloc = rewind_alloc alloc" using c(1) by (simp add: rewind_alloc_def alloc_at_def)
  qed
qed

lemma same_env_oom: "same_env s s' \<Longrightarrow> oom s' = oom s \<and> sparse s' = sparse s \<and> mem s' = mem s \<and> force s' = force s \<and> info s' = info s"
  by (auto simp: same_env_def)

lemma only_inodes_frame:
  assumes "only_inodes s s'"
  shows "regions s' = regions s" "mallocs s' = mallocs s" "info s' = info s" "oom s' = oom s" "sparse s' = sparse s"
    "mem s' = mem s" "force s' = force s" "heap_ok s' = heap_ok s" "alloc_nodes s' alloc as = alloc_nodes s alloc as"
    "groups (aux_info s') = groups (aux_info s)"
  using assms by (auto simp: only_inodes_def heap_ok_def alloc_nodes_def)

lemma unat_blocks_wanted:
  assumes "0 < unat (block_size (info s))" and "unat len + unat (block_size (info s)) \<le> 2 ^ 64"
    and "(unat len + unat (block_size (info s)) - 1) div unat (block_size (info s)) < 2 ^ 32"
  shows "unat (extent_blocks_wanted s len) = (unat len + unat (block_size (info s)) - 1) div unat (block_size (info s))"
proof -
  let ?b = "ucast (block_size (info s)) :: u64"
  have b: "unat ?b = unat (block_size (info s))" by (simp add: unat_ucast_upcast)
  have "unat (DIV_ROUND_UP len ?b) = (unat len + unat ?b - 1) div unat ?b"
    using assms(1,2) b by (intro unat_DIV_ROUND_UP) simp_all
  then show ?thesis using assms(3) b
    by (simp add: extent_blocks_wanted_def unsigned_ucast_eq take_bit_nat_eq_self)
qed

lemma region_len_le_total: "r \<in> set rs \<Longrightarrow> unat (reg_len r) \<le> length (blocks_of rs)"
  by (induction rs) (auto simp: blocks_of_Cons)

lemma allocate_extents_ok:
  assumes ok: "alloc_ok s" "live (Suc k) s" "heap_ok s" "\<forall>n. \<not> oom s n"
    and rm: "inode_room s p n" "128 \<le> n" and bs: "block_size (info s) \<noteq> 0"
    and len: "0 < unat (extent_blocks_wanted s len)" "unat (extent_blocks_wanted s len) < 2 ^ 32 - 1"
    and al: "allocate_blocks (extent_blocks_wanted s len + 1) s = Inr (Some alloc, s1)"
    and nd: "alloc_nodes s1 alloc nodes" and few: "length nodes \<le> 3"
  obtains s' rs blocks where "do_inode_allocate_extents p len s = Inr (Some alloc, s')"
    and "alloc_nodes s' alloc nodes" and "heap_ok s'" and "rs = region_list_of (regions s') nodes"
    and "length rs \<le> 3" and "\<forall>r \<in> set rs. good_region r"
    and "length (blocks_of rs) = unat (extent_blocks_wanted s len)" and "distinct (blocks_of rs)"
    and "set (blocks_of rs) \<inter> used_fs s = {}" and "used_fs s' = used_fs s \<union> set (blocks_of rs)"
    and "alloc_ok s'" and "live k s'" and "inode_room s' p n"
    and "inode_bytes s' p = inode_image len blocks rs (inode_bytes s p)"
    and "sparse s' = sparse s" and "info s' = info s" and "oom s' = oom s" and "force s' = force s"
proof -
  obtain s2 where red: "reduce_allocation alloc 1 s1 = Inr (alloc, s2)" "same_env s s2" "heap_ok s2"
    "alloc_ok s2" "live k s2" "alloc_nodes s2 alloc nodes"
    "block_allocation_num_regions alloc s1 = Inr (of_nat (length nodes))"
    "\<forall>r \<in> set (region_list_of (regions s2) nodes). good_region r"
    "length (blocks_of (region_list_of (regions s2) nodes)) = unat (extent_blocks_wanted s len)"
    "distinct (blocks_of (region_list_of (regions s2) nodes))"
    "set (blocks_of (region_list_of (regions s2) nodes)) \<inter> used_fs s = {}"
    "used_fs s2 = used_fs s \<union> set (blocks_of (region_list_of (regions s2) nodes))" "alloc = rewind_alloc alloc"
    using allocate_reduced [OF ok len al nd] .
  let ?rs = "region_list_of (regions s2) nodes" and ?bs = "block_size (info s)"
  have rm2: "inode_room s2 p n" "inode_bytes s2 p = inode_bytes s p" using same_env_inode [OF red(2) rm(1)] by simp_all
  have f2: "info s2 = info s" "oom s2 = oom s" "sparse s2 = sparse s" "force s2 = force s"
    using same_env_oom [OF red(2)] by simp_all
  have n3: "sint (of_nat (length nodes) :: u32) \<le> 3"
    using few sint_small [of "of_nat (length nodes) :: u32"] by (simp add: unat_of_nat)
  have cast: "ucast (of_nat (length nodes) :: u32) = (of_nat (length nodes) :: u16)"
    using few by (simp add: word_unat_eq_iff unat_of_nat unsigned_ucast_eq take_bit_nat_eq_self)
  have i12: "i_block + 12 \<le> n" using rm(2) by simp
  obtain s3 where s3: "put_header (In_Inode p i_block) (of_nat (length nodes)) 3 0 s2 = Inr s3"
    "wrote p n (header_bytes i_block (of_nat (length nodes)) 3 0) s2 s3"
    using put_header_wrote [OF rm2(1) i12] by blast
  note f3 = only_inodes_frame [OF s3(2) [unfolded wrote_def, THEN conjunct1]]
  have d: "dchain (regions s3) None (rl_iter (al_list alloc)) nodes" "rl_partial_iter (al_list alloc) = 0"
    using red(6) f3 by (simp_all add: alloc_nodes_def)
  have "length nodes \<le> mallocs s3" using dchain_fuel [OF d(1)] red(3) f3 by simp
  then have fu: "length nodes < Suc (mallocs s3)" by simp
  have rm3: "inode_room s3 p n" "i_block + 12 + 12 * length nodes \<le> n" using s3(2) few rm(2) by (simp_all add: wrote_def)
  let ?s4 = "inode_write p (i_block + 12) (extents_bytes 0 ?rs) s3"
  have lp: "extent_loop (Suc (mallocs s3)) (In_Inode p (i_block + 12)) 0 alloc s3 =
      Inr (alloc\<lparr>al_list := (al_list alloc)\<lparr>rl_iter := None\<rparr>\<rparr>, ?s4)"
    using extent_loop_inode [OF d fu rm3] f3(1) by simp
  have w4: "wrote p n (\<lambda>b. blit b (i_block + 12) (extents_bytes 0 ?rs)) s3 ?s4"
    using rm3 by (intro wrote_write) (simp_all add: region_list_of_def)
  define blocks where "blocks = (ucast (extent_blocks_wanted s len) * ucast ?bs div 512 :: u64)"
  obtain s5 where s5: "put_inode_sizes p len blocks ?s4 = Inr s5" "wrote p n (sizes_bytes len blocks) ?s4 s5"
    using put_sizes_wrote [OF wrote_room [OF w4] rm(2)] by blast
  note w5 = wrote_trans [OF wrote_trans [OF s3(2) w4] s5(2)]
  note f5 = only_inodes_frame [OF w5 [unfolded wrote_def, THEN conjunct1]]
  have rw: "rewind_alloc (alloc\<lparr>al_list := (al_list alloc)\<lparr>rl_iter := None\<rparr>\<rparr>) = alloc"
    using red(13) by (simp add: rewind_alloc_def)
  have inf4: "info ?s4 = info s" using f3 f2 by simp
  have run: "do_inode_allocate_extents p len s = Inr (Some alloc, s5)"
    using al bs red(1,7) n3 s3(1) cast lp s5(1) inf4 rw
    by (simp add: do_inode_allocate_extents_def Let_def blocks_def del: extent_loop.simps)
  have sb: "same_blocks s2 s5" using w5 by (simp add: wrote_def only_inodes_def)
  have img: "inode_bytes s5 p = inode_image len blocks ?rs (inode_bytes s p)"
    using w5 rm2(2) by (simp add: wrote_def inode_image_def region_list_of_def)
  show ?thesis
  proof (rule that [OF run, of ?rs blocks])
    show "alloc_nodes s5 alloc nodes" "heap_ok s5" using f5 red(3,6) by simp_all
    show "?rs = region_list_of (regions s5) nodes" using f5 by simp
    show "length ?rs \<le> 3" using few by (simp add: region_list_of_def)
    show "used_fs s5 = used_fs s \<union> set (blocks_of ?rs)" using same_blocks_allocator(2) [OF sb red(4)] red(12) by simp
    show "alloc_ok s5" "live k s5" using same_blocks_allocator [OF sb red(4)] red(5) by simp_all
    show "inode_room s5 p n" by (rule wrote_room [OF w5])
    show "sparse s5 = sparse s" "info s5 = info s" "oom s5 = oom s" "force s5 = force s" using f5 f2 by simp_all
  qed (use red img in simp_all)
qed

text \<open>
  C2. Attaching blocks to a file of \<open>len\<close> bytes whose allocation has at most three regions: the
  call returns, the inode's extents lead every file block to its own block of the device and none
  beyond the end, these blocks were free before and are the only ones newly in use, and the inode
  records the length.
\<close>

theorem inode_extents_map_file:
  assumes "alloc_ok s" "live (Suc k) s" "heap_ok s" "\<forall>n. \<not> oom s n" and "inode_room s p n" "128 \<le> n"
    and "0 < unat (block_size (info s))" "unat len + unat (block_size (info s)) \<le> 2 ^ 64" "0 < unat len"
    and "N = (unat len + unat (block_size (info s)) - 1) div unat (block_size (info s))" "N \<le> 32768"
    and "allocate_blocks (extent_blocks_wanted s len + 1) s = Inr (Some alloc, s1)"
    and "alloc_nodes s1 alloc nodes" and "length nodes \<le> 3"
  shows "\<exists>s' bl. do_inode_allocate_extents p len s = Inr (Some alloc, s') \<and> alloc_ok s' \<and> live k s' \<and>
    length bl = N \<and> distinct bl \<and> set bl \<inter> used_fs s = {} \<and> used_fs s' = used_fs s \<union> set bl \<and>
    (\<forall>i. inode_file_block (inode_bytes s' p) i = (if i < N then Some (bl ! i) else None)) \<and>
    inode_file_size (inode_bytes s' p) = unat len"
proof -
  have "unat len + unat (block_size (info s)) - 1 \<ge> unat (block_size (info s))" using assms(9) by simp
  then have "0 < (unat len + unat (block_size (info s)) - 1) div unat (block_size (info s))"
    using assms(7) by (simp add: div_greater_zero_iff)
  then have N: "unat (extent_blocks_wanted s len) = N" "0 < N" "N < 2 ^ 32 - 1"
    using unat_blocks_wanted [OF assms(7,8)] assms(10,11) by auto
  have bs: "block_size (info s) \<noteq> 0" using assms(7) by auto
  have l: "0 < unat (extent_blocks_wanted s len)" "unat (extent_blocks_wanted s len) < 2 ^ 32 - 1" using N by simp_all
  obtain s' rs blocks where r: "do_inode_allocate_extents p len s = Inr (Some alloc, s')"
    "alloc_nodes s' alloc nodes" "heap_ok s'" "rs = region_list_of (regions s') nodes"
    "length rs \<le> 3" "\<forall>r \<in> set rs. good_region r" "length (blocks_of rs) = unat (extent_blocks_wanted s len)"
    "distinct (blocks_of rs)" "set (blocks_of rs) \<inter> used_fs s = {}" "used_fs s' = used_fs s \<union> set (blocks_of rs)"
    "alloc_ok s'" "live k s'" "inode_room s' p n" "inode_bytes s' p = inode_image len blocks rs (inode_bytes s p)"
    "sparse s' = sparse s" "info s' = info s" "oom s' = oom s" "force s' = force s"
    using allocate_extents_ok [OF assms(1-6) bs l assms(12-14)] .
  have "\<forall>r \<in> set rs. unat (reg_len r) \<le> 32768" using region_len_le_total r(7) N assms(11) by fastforce
  moreover have "128 \<le> length (inode_bytes s p)" using inode_room_length [OF assms(5)] assms(6) by simp
  moreover have "length (blocks_of rs) < 2 ^ 32" using r(7) N by simp
  ultimately have "\<forall>i. inode_file_block (inode_bytes s' p) i = (if i < length (blocks_of rs) then Some (blocks_of rs ! i) else None)"
      "inode_file_size (inode_bytes s' p) = unat len"
    unfolding r(14) using r(5) by (auto simp: inode_image_reads)
  then show ?thesis using r N by (intro exI [of _ s'] exI [of _ "blocks_of rs"]) simp
qed

section \<open>Where the contents of a file land\<close>

fun file_chunks :: "bytes \<Rightarrow> nat \<Rightarrow> nat \<Rightarrow> nat \<Rightarrow> region list \<Rightarrow> sparse_call list" where
  "file_chunks fn bs off rest [] = []"
| "file_chunks fn bs off rest (r # rs) =
     (if rest = 0 then []
      else Add_File fn (of_nat off) (of_nat (min (unat (reg_len r) * bs) rest)) (reg_block r) #
           file_chunks fn bs (off + min (unat (reg_len r) * bs) rest) (rest - min (unat (reg_len r) * bs) rest) rs)"

text \<open>The byte of the device that receives byte \<open>o\<close> of the file \<open>fn\<close>.\<close>

definition holds_byte :: "bytes \<Rightarrow> nat \<Rightarrow> sparse_call \<Rightarrow> bool" where
  "holds_byte fn o' c = (case c of Add_File f off len blk \<Rightarrow> f = fn \<and> unat off \<le> o' \<and> o' < unat off + unat len | _ \<Rightarrow> False)"

definition chunk_address :: "nat \<Rightarrow> sparse_call list \<Rightarrow> bytes \<Rightarrow> nat \<Rightarrow> nat option" where
  "chunk_address bs calls fn o' = Option.bind (find (holds_byte fn o') calls) (\<lambda>c.
     case c of Add_File f off len blk \<Rightarrow> Some (unat blk * bs + (o' - unat off)) | _ \<Rightarrow> None)"

lemma backing_chunk_min:
  assumes "unat l * unat (block_size (info s)) < 2 ^ 32"
  shows "unat (backing_chunk s l rest) = min (unat l * unat (block_size (info s))) (unat rest)"
proof -
  have u: "unat (ucast (l * block_size (info s)) :: u64) = unat l * unat (block_size (info s))"
    using assms by (simp add: unat_ucast_upcast unat_mult_small)
  have "unat (min (ucast (l * block_size (info s)) :: u64) rest) = min (unat l * unat (block_size (info s))) (unat rest)"
    using u by (simp add: min_def word_le_nat_alt)
  moreover have "min (unat l * unat (block_size (info s))) (unat rest) < 2 ^ 32" using assms by simp
  ultimately show ?thesis unfolding backing_chunk_def by (simp add: unsigned_ucast_eq take_bit_nat_eq_self)
qed

lemma backing_file_loop_ok:
  "dchain (regions s) pv (rl_iter (al_list alloc)) as \<Longrightarrow> rl_partial_iter (al_list alloc) = 0 \<Longrightarrow>
   length as < fuel \<Longrightarrow> bs = unat (block_size (info s)) \<Longrightarrow>
   \<forall>r \<in> set (region_list_of (regions s) as). unat (reg_len r) * bs < 2 ^ 32 \<Longrightarrow>
   unat rest \<le> length (blocks_of (region_list_of (regions s) as)) * bs \<Longrightarrow> unat off + unat rest < 2 ^ 64 \<Longrightarrow>
   \<exists>alloc'. backing_file_loop fuel fn off alloc rest s =
     Inr (alloc', s\<lparr>sparse := sparse s @ file_chunks fn bs (unat off) (unat rest) (region_list_of (regions s) as)\<rparr>) \<and>
     rl_first (al_list alloc') = rl_first (al_list alloc) \<and> al_oob_list alloc' = al_oob_list alloc"
proof (induction as arbitrary: pv alloc fuel off rest s)
  case Nil
  then have "rest = 0" by (simp add: blocks_of_def unat_eq_0)
  moreover obtain k where "fuel = Suc k" using Nil.prems by (cases fuel) auto
  ultimately show ?case by simp
next
  case (Cons a as)
  obtain r where r: "rl_iter (al_list alloc) = Some a" "regions s a = Some r" "dchain (regions s) (Some a) (reg_next r) as"
    using Cons.prems by auto
  obtain k where k: "fuel = Suc k" using Cons.prems by (cases fuel) auto
  show ?case
  proof (cases "rest = 0")
    case True
    then show ?thesis using k by simp
  next
    case False
    let ?c = "min (unat (reg_len r) * bs) (unat rest)"
    let ?l = "backing_chunk s (reg_len r) rest"
    let ?s = "sparse_file_add (Add_File fn off ?l (reg_block r)) s"
    let ?al = "alloc\<lparr>al_list := (al_list alloc)\<lparr>rl_iter := reg_next r, rl_partial_iter := 0\<rparr>\<rparr>"
    have lt: "unat (reg_len r) * bs < 2 ^ 32" using Cons.prems r by simp
    have c: "unat ?l = ?c" using backing_chunk_min [of "reg_len r" s] lt Cons.prems(4) by simp
    have c64: "unat (ucast ?l :: u64) = ?c" using c by (simp add: unat_ucast_upcast)
    have uo: "unat (off + ucast ?l) = unat off + ?c"
    proof -
      have "unat off + ?c < 2 ^ 64" using Cons.prems(7) by (simp add: min_def)
      then show ?thesis using c64 unat_add_lem [of off "ucast ?l :: u64"] by simp
    qed
    have ur: "unat (rest - ucast ?l) = unat rest - ?c" using c64 by (simp add: unat_sub word_le_nat_alt)
    have tot: "unat rest - ?c \<le> length (blocks_of (region_list_of (regions s) as)) * bs"
    proof -
      have "unat rest \<le> unat (reg_len r) * bs + length (blocks_of (region_list_of (regions s) as)) * bs"
        using Cons.prems(6) r by (simp add: blocks_of_Cons add_mult_distrib)
      then show ?thesis by (cases "unat (reg_len r) * bs \<le> unat rest") (simp_all add: min_def)
    qed
    have "\<exists>alloc'. backing_file_loop k fn (off + ucast ?l) ?al (rest - ucast ?l) ?s =
       Inr (alloc', ?s\<lparr>sparse := sparse ?s @ file_chunks fn bs (unat (off + ucast ?l)) (unat (rest - ucast ?l))
             (region_list_of (regions ?s) as)\<rparr>) \<and>
       rl_first (al_list alloc') = rl_first (al_list ?al) \<and> al_oob_list alloc' = al_oob_list ?al"
      by (rule Cons.IH [of _ "Some a"]) (use Cons.prems k r uo ur tot in auto)
    then obtain alloc' where IH: "backing_file_loop k fn (off + ucast ?l) ?al (rest - ucast ?l) ?s =
       Inr (alloc', ?s\<lparr>sparse := sparse ?s @ file_chunks fn bs (unat (off + ucast ?l)) (unat (rest - ucast ?l))
             (region_list_of (regions ?s) as)\<rparr>)"
       "rl_first (al_list alloc') = rl_first (al_list alloc)" "al_oob_list alloc' = al_oob_list alloc" by auto
    have pos: "0 < rest" "unat rest \<noteq> 0" using False by (simp_all add: word_greater_zero_iff unat_eq_0)
    have lw: "of_nat ?c = ?l" unfolding c [symmetric] by simp
    have "backing_file_loop fuel fn off alloc rest s =
      backing_file_loop k fn (off + ucast ?l) ?al (rest - ucast ?l) ?s"
      using k r pos(1) Cons.prems(2) by (simp add: get_region_def get_next_region_def region_at_def Let_def)
    then show ?thesis
      using IH r pos(2) lw uo ur by (auto simp: sparse_file_add_def)
  qed
qed

lemma file_chunks_address:
  "0 < bs \<Longrightarrow> off + rest < 2 ^ 64 \<Longrightarrow> rest \<le> length (blocks_of rs) * bs \<Longrightarrow>
   \<forall>r \<in> set rs. unat (reg_len r) * bs < 2 ^ 32 \<Longrightarrow> i < rest \<Longrightarrow>
   chunk_address bs (file_chunks fn bs off rest rs) fn (off + i) = Some (blocks_of rs ! (i div bs) * bs + i mod bs)"
proof (induction rs arbitrary: off rest i)
  case Nil
  then show ?case by (simp add: blocks_of_def)
next
  case (Cons r rs)
  let ?w = "unat (reg_len r) * bs"
  let ?c = "min ?w rest"
  have u: "unat (of_nat off :: u64) = off" "unat (of_nat ?c :: u32) = ?c"
    using Cons.prems by (simp_all add: unat_of_nat min_def)
  have step: "chunk_address bs (file_chunks fn bs off rest (r # rs)) fn (off + i) =
     (if i < ?c then Some (unat (reg_block r) * bs + i)
      else chunk_address bs (file_chunks fn bs (off + ?c) (rest - ?c) rs) fn (off + i))"
    using Cons.prems u by (simp add: chunk_address_def holds_byte_def)
  show ?case
  proof (cases "i < ?c")
    case True
    then have "i div bs < unat (reg_len r)" using Cons.prems(1) by (simp add: div_less_iff_less_mult)
    then have "blocks_of (r # rs) ! (i div bs) = unat (reg_block r) + i div bs" by (simp add: blocks_of_Cons nth_append)
    then show ?thesis unfolding step using True by (simp add: algebra_simps)
  next
    case False
    then have w: "?c = ?w" "?w \<le> i" using Cons.prems(5) by auto
    have "chunk_address bs (file_chunks fn bs (off + ?w) (rest - ?w) rs) fn (off + ?w + (i - ?w)) =
       Some (blocks_of rs ! ((i - ?w) div bs) * bs + (i - ?w) mod bs)"
      using Cons.prems w by (intro Cons.IH) (auto simp: blocks_of_Cons algebra_simps)
    moreover have "i div bs = unat (reg_len r) + (i - ?w) div bs" "i mod bs = (i - ?w) mod bs"
      using w(2) Cons.prems(1) div_mult_self3 [of bs "unat (reg_len r)" "i - ?w"] mod_mult_self3 [of "unat (reg_len r)" bs "i - ?w"]
      by simp_all
    ultimately show ?thesis unfolding step w(1) using False w by (simp add: blocks_of_Cons nth_append)
  qed
qed

text \<open>
  C3. After \<^verbatim>\<open>inode_allocate_file_extents\<close> of a file of at most 32768 blocks that were given in at
  most three regions, every byte of the file is queued to exactly the byte of the device at which
  the extents of the inode place it, and the regions of the allocation are released.
\<close>

theorem file_bytes_follow_extents:
  assumes "alloc_ok s" "live (Suc k) s" "heap_ok s" "\<forall>n. \<not> oom s n" and "inode_room s p n" "128 \<le> n"
    and "0 < unat (block_size (info s))" "unat (block_size (info s)) \<le> 65536" "0 < unat len"
    and "N = (unat len + unat (block_size (info s)) - 1) div unat (block_size (info s))" "N \<le> 32768"
    and "allocate_blocks (extent_blocks_wanted s len + 1) s = Inr (Some alloc, s1)"
    and "alloc_nodes s1 alloc nodes" and "length nodes \<le> 3"
  shows "\<exists>s' calls. inode_allocate_file_extents p len fn s = Inr s' \<and> sparse s' = sparse s @ calls \<and> alloc_ok s' \<and>
    (\<forall>a \<in> set nodes. regions s' a = None) \<and>
    (\<forall>i < unat len. \<exists>b. inode_file_block (inode_bytes s' p) (i div unat (block_size (info s))) = Some b \<and>
       b \<in> used_fs s' - used_fs s \<and>
       chunk_address (unat (block_size (info s))) calls fn i =
         Some (b * unat (block_size (info s)) + i mod unat (block_size (info s))))"
proof -
  let ?B = "unat (block_size (info s))"
  have cap: "unat len \<le> ?B * N" using ceiling_div_bounds(1) [OF assms(7), of "unat len"] assms(10) by simp
  also have "\<dots> \<le> 65536 * 32768" using assms(8,11) by (rule mult_le_mono)
  finally have l31: "unat len \<le> 2 ^ 31" by simp
  have N0: "0 < N" using cap assms(9) by (cases N) simp_all
  have N: "unat (extent_blocks_wanted s len) = N" "N < 2 ^ 32 - 1"
    using unat_blocks_wanted [OF assms(7)] l31 assms(8,10,11) by simp_all
  have bs: "block_size (info s) \<noteq> 0" using assms(7) by auto
  have l: "0 < unat (extent_blocks_wanted s len)" "unat (extent_blocks_wanted s len) < 2 ^ 32 - 1" using N N0 by simp_all
  obtain s' rs blocks where r: "do_inode_allocate_extents p len s = Inr (Some alloc, s')"
    "alloc_nodes s' alloc nodes" "heap_ok s'" "rs = region_list_of (regions s') nodes"
    "length rs \<le> 3" "\<forall>r \<in> set rs. good_region r" "length (blocks_of rs) = unat (extent_blocks_wanted s len)"
    "distinct (blocks_of rs)" "set (blocks_of rs) \<inter> used_fs s = {}" "used_fs s' = used_fs s \<union> set (blocks_of rs)"
    "alloc_ok s'" "live k s'" "inode_room s' p n" "inode_bytes s' p = inode_image len blocks rs (inode_bytes s p)"
    "sparse s' = sparse s" "info s' = info s" "oom s' = oom s" "force s' = force s"
    using allocate_extents_ok [OF assms(1-6) bs l assms(12-14)] .
  have short: "\<forall>r \<in> set rs. unat (reg_len r) \<le> 32768" using region_len_le_total r(7) N assms(11) by fastforce
  have small: "\<forall>r \<in> set rs. unat (reg_len r) * ?B < 2 ^ 32"
  proof
    fix r assume "r \<in> set rs"
    then have "unat (reg_len r) * ?B \<le> 32768 * 65536" using short assms(8) by (intro mult_le_mono) auto
    then show "unat (reg_len r) * ?B < 2 ^ 32" by simp
  qed
  have len: "unat len \<le> length (blocks_of rs) * ?B" using cap r(7) N by (simp add: mult.commute)
  have d: "dchain (regions s') None (rl_iter (al_list alloc)) nodes" "rl_partial_iter (al_list alloc) = 0"
    using r(2) by (simp_all add: alloc_nodes_def)
  have fu: "length nodes < Suc (mallocs s')" using dchain_fuel [OF d(1) r(3)] by simp
  let ?calls = "file_chunks fn ?B 0 (unat len) rs"
  obtain alloc' where bk: "backing_file_loop (Suc (mallocs s')) fn 0 alloc len s' = Inr (alloc', s'\<lparr>sparse := sparse s @ ?calls\<rparr>)"
    "rl_first (al_list alloc') = rl_first (al_list alloc)" "al_oob_list alloc' = al_oob_list alloc"
    using backing_file_loop_ok [OF d fu, of ?B len 0 fn] small len l31 r(4,15,16) by auto
  let ?t = "s'\<lparr>sparse := sparse s @ ?calls\<rparr>"
  have dn: "dchain (regions ?t) None (rl_first (al_list alloc')) nodes" "al_oob_list alloc' = empty_list"
    using r(2) bk by (simp_all add: alloc_nodes_def)
  have fr: "free_alloc alloc' ?t = Inr (?t\<lparr>regions := (\<lambda>a. if a \<in> set nodes then None else regions ?t a)\<rparr>)"
    using free_regions_ok [OF dn(1), of "mallocs ?t"] fu dn(2) by (simp add: free_alloc_def empty_list_def)
  let ?u = "?t\<lparr>regions := (\<lambda>a. if a \<in> set nodes then None else regions ?t a)\<rparr>"
  have run: "inode_allocate_file_extents p len fn s = Inr ?u"
    using r(1) bk(1) fr by (simp add: inode_allocate_file_extents_def extent_create_backing_file_def del: backing_file_loop.simps)
  have bts: "inode_bytes ?u p = inode_image len blocks rs (inode_bytes s p)" using r(14) by (simp add: inode_bytes_def)
  have blk: "inode_file_block (inode_bytes ?u p) i = (if i < length (blocks_of rs) then Some (blocks_of rs ! i) else None)" for i
    unfolding bts using inode_room_length [OF assms(5)] assms(6) short r(5,7) N by (intro inode_image_reads(1)) simp_all
  have us: "used_fs ?u - used_fs s = set (blocks_of rs)" "alloc_ok ?u" using r(9,10,11) by (auto simp: used_fs_def alloc_ok_def)
  have "\<exists>b. inode_file_block (inode_bytes ?u p) (i div ?B) = Some b \<and> b \<in> used_fs ?u - used_fs s \<and>
       chunk_address ?B ?calls fn i = Some (b * ?B + i mod ?B)" if i: "i < unat len" for i
  proof -
    have "i < length (blocks_of rs) * ?B" using i len by simp
    then have "i div ?B < length (blocks_of rs)" by (simp add: less_mult_imp_div_less)
    moreover have "chunk_address ?B ?calls fn (0 + i) = Some (blocks_of rs ! (i div ?B) * ?B + i mod ?B)"
      using assms(7) l31 len small i by (intro file_chunks_address) simp_all
    ultimately show ?thesis unfolding us(1) blk by simp
  qed
  then show ?thesis using run us(2) by (intro exI [of _ ?u] exI [of _ ?calls]) simp
qed

section \<open>A file in a new filesystem\<close>

lemma allocate_one_region:
  assumes ok: "alloc_ok s" and m: "\<forall>n. \<not> oom s n" and pos: "0 < len"
    and g: "g < unat (groups (aux_info s))" "unat len \<le> free_in s g"
  obtains s' where "allocate_blocks len s = Inr (Some (alloc_at (mallocs s)), s')"
    and "alloc_nodes s' (alloc_at (mallocs s)) [mallocs s]"
proof -
  have m0: "\<not> oom s (mallocs s)" using m by simp
  have "\<not> (\<forall>g < unat (groups (aux_info s)). free_in s g < unat len)" using g by (meson not_le)
  then obtain s' r where c: "ext4_allocate_contiguous_blocks len s = Inr (Some (mallocs s), s')" "fresh_region s s' r"
    using contiguous_ok [OF ok pos m0] by blast
  have f: "regions s' (mallocs s) = Some r" "reg_next r = None" "reg_prev r = None" "oom s' = oom s"
    using c(2) by (auto simp: fresh_region_def took_def same_env_def)
  have "allocate_blocks len s = Inr (Some (alloc_at (mallocs s)), s'\<lparr>mallocs := Suc (mallocs s')\<rparr>)"
    using c(1) m f(4) by (simp add: allocate_blocks_def do_allocate_def create_allocation_def alloc_at_def)
  moreover have "alloc_nodes (s'\<lparr>mallocs := Suc (mallocs s')\<rparr>) (alloc_at (mallocs s)) [mallocs s]"
    using f by (auto simp: alloc_nodes_def alloc_at_def)
  ultimately show ?thesis by (rule that)
qed

text \<open>The sample filesystem with a page of inodes in its first group.\<close>

definition with_inodes :: "ext4_st \<Rightarrow> ext4_st" where
  "with_inodes s = s\<lparr>aux_info := (aux_info s)\<lparr>bgs := (bgs (aux_info s))[0 := (bgs (aux_info s) ! 0)\<lparr>bgi_inode_table := Some (replicate 4096 0)\<rparr>]\<rparr>\<rparr>"

lemma sample_inodes:
  obtains s alloc s1 where "alloc_ok s" "live (Suc 0) s" "heap_ok s" "\<forall>n. \<not> oom s n" "inode_room s (0, 256) 256"
    "block_size (info s) = 4096" "allocate_blocks (extent_blocks_wanted s 10000 + 1) s = Inr (Some alloc, s1)"
    "alloc_nodes s1 alloc [mallocs s]"
proof -
  obtain s0 where s0: "block_allocator_init sample_st = Inr s0" "ready s0" "live 1 s0" "free_in s0 0 = 32245"
    "unat (groups (aux_info s0)) = 2" using sample_ready .
  have i0: "info s0 = info sample_st"
    using block_allocator_init_all [OF sample_geometry_ok(1,2)] s0(1) by auto
  let ?s = "with_inodes s0"
  have ok0: "alloc_ok s0" using s0(2) by (simp add: ready_def)
  have l: "0 < length (bgs (aux_info s0))" using ok0 s0(5) by (simp add: alloc_ok_def)
  have sb: "same_blocks s0 ?s" using l by (simp add: same_blocks_def with_inodes_def map_update bg_of_def list_update_same_conv)
  note a = same_blocks_allocator [OF sb ok0]
  have fr: "free_in ?s 0 = 32245" "unat (groups (aux_info ?s)) = 2" using s0(4,5) l by (simp_all add: free_in_def with_inodes_def)
  have "block_size (info ?s) = 4096" using i0 by (simp add: with_inodes_def sample_st_def sample_fs_info_def)
  moreover have "inode_room ?s (0, 256) 256" using l by (simp add: inode_room_def with_inodes_def)
  moreover have hp: "heap_ok ?s" and oom: "\<forall>n. \<not> oom ?s n" using s0(2) by (simp_all add: ready_def heap_ok_def with_inodes_def)
  moreover have w: "extent_blocks_wanted ?s 10000 = 3"
    using \<open>block_size (info ?s) = 4096\<close> by (simp add: extent_blocks_wanted_def DIV_ROUND_UP_def)
  moreover obtain s1 where "allocate_blocks 4 ?s = Inr (Some (alloc_at (mallocs ?s)), s1)"
      "alloc_nodes s1 (alloc_at (mallocs ?s)) [mallocs ?s]"
    using allocate_one_region [OF a(1) oom, of 4 0] fr by auto
  ultimately show ?thesis using a(1) a(3) [of "Suc 0"] s0(3) by (intro that [of ?s]) simp_all
qed

theorem inode_extents_map_file_witness:
  "\<exists>s alloc s' bl. do_inode_allocate_extents (0, 256) 10000 s = Inr (Some alloc, s') \<and> length bl = 3 \<and> distinct bl \<and>
     set bl \<inter> used_fs s = {} \<and> inode_file_block (inode_bytes s' (0, 256)) 2 = Some (bl ! 2) \<and>
     inode_file_block (inode_bytes s' (0, 256)) 3 = None \<and> inode_file_size (inode_bytes s' (0, 256)) = 10000"
proof -
  obtain s alloc s1 where s: "alloc_ok s" "live (Suc 0) s" "heap_ok s" "\<forall>n. \<not> oom s n" "inode_room s (0, 256) 256"
    "block_size (info s) = 4096" "allocate_blocks (extent_blocks_wanted s 10000 + 1) s = Inr (Some alloc, s1)"
    "alloc_nodes s1 alloc [mallocs s]" using sample_inodes .
  have "\<exists>s' bl. do_inode_allocate_extents (0, 256) 10000 s = Inr (Some alloc, s') \<and> alloc_ok s' \<and> live 0 s' \<and>
    length bl = 3 \<and> distinct bl \<and> set bl \<inter> used_fs s = {} \<and> used_fs s' = used_fs s \<union> set bl \<and>
    (\<forall>i. inode_file_block (inode_bytes s' (0, 256)) i = (if i < 3 then Some (bl ! i) else None)) \<and>
    inode_file_size (inode_bytes s' (0, 256)) = unat (10000 :: u64)"
    by (rule inode_extents_map_file [OF s(1-5) _ _ _ _ _ _ s(7,8)]) (simp_all add: s(6))
  then obtain s' bl where r: "do_inode_allocate_extents (0, 256) 10000 s = Inr (Some alloc, s')" "length bl = 3" "distinct bl"
    "set bl \<inter> used_fs s = {}" "\<forall>i. inode_file_block (inode_bytes s' (0, 256)) i = (if i < 3 then Some (bl ! i) else None)"
    "inode_file_size (inode_bytes s' (0, 256)) = 10000" by auto
  have "inode_file_block (inode_bytes s' (0, 256)) 2 = Some (bl ! 2)" "inode_file_block (inode_bytes s' (0, 256)) 3 = None"
    using r(5) by simp_all
  then show ?thesis using r by blast
qed

theorem file_bytes_follow_extents_witness:
  "\<exists>s s' calls b. inode_allocate_file_extents (0, 256) 10000 [102] s = Inr s' \<and> sparse s' = sparse s @ calls \<and>
     inode_file_block (inode_bytes s' (0, 256)) 2 = Some b \<and> chunk_address 4096 calls [102] 9999 = Some (b * 4096 + 1807)"
proof -
  obtain s alloc s1 where s: "alloc_ok s" "live (Suc 0) s" "heap_ok s" "\<forall>n. \<not> oom s n" "inode_room s (0, 256) 256"
    "block_size (info s) = 4096" "allocate_blocks (extent_blocks_wanted s 10000 + 1) s = Inr (Some alloc, s1)"
    "alloc_nodes s1 alloc [mallocs s]" using sample_inodes .
  have "\<exists>s' calls. inode_allocate_file_extents (0, 256) 10000 [102] s = Inr s' \<and> sparse s' = sparse s @ calls \<and> alloc_ok s' \<and>
    (\<forall>a \<in> set [mallocs s]. regions s' a = None) \<and>
    (\<forall>i < unat (10000 :: u64). \<exists>b. inode_file_block (inode_bytes s' (0, 256)) (i div unat (block_size (info s))) = Some b \<and>
       b \<in> used_fs s' - used_fs s \<and>
       chunk_address (unat (block_size (info s))) calls [102] i =
         Some (b * unat (block_size (info s)) + i mod unat (block_size (info s))))"
    by (rule file_bytes_follow_extents [OF s(1-5) _ _ _ _ _ _ s(7,8), of 3]) (simp_all add: s(6))
  then obtain s' calls where r: "inode_allocate_file_extents (0, 256) 10000 [102] s = Inr s'" "sparse s' = sparse s @ calls"
    "\<forall>i < 10000. \<exists>b. inode_file_block (inode_bytes s' (0, 256)) (i div 4096) = Some b \<and> b \<in> used_fs s' - used_fs s \<and>
       chunk_address 4096 calls [102] i = Some (b * 4096 + i mod 4096)"
    using s(6) by auto
  then show ?thesis using spec [OF r(3), of 9999] by auto
qed

end
