(* ===== verification/Indirect.thy ===== *)
theory Indirect
  imports Extent
begin

text \<open>
  \<^verbatim>\<open>indirect.c\<close>: block maps of the older filesystem format, with indirect, doubly and
  triply indirect blocks, and the block map of the resize inode. An allocation is threaded through
  the calls, since they move its iterators and split its regions. Pointer entries are little-endian
  words of a block buffer. The block map of the resize inode is the part the image builder uses.
\<close>

section \<open>Reserving blocks for block maps\<close>

text \<open>\<^verbatim>\<open>if (r) { error(...); return x; }\<close>\<close>

definition or_error :: "int \<Rightarrow> bool \<Rightarrow> 'a \<Rightarrow> 'a res \<Rightarrow> 'a res" where
  "or_error r fc x k = (if r \<noteq> 0 then error_then fc x else k)"

definition reserve_indirect_block :: "block_allocation \<Rightarrow> u32 \<Rightarrow> ext4_st \<Rightarrow> (block_allocation \<times> ext4_st) res" where
  "reserve_indirect_block alloc len s =
     bnd (reserve_oob_blocks alloc 1 s) (\<lambda>(r, alloc, s).
     or_error r (force s) (alloc, s)
       (bnd (advance_blocks alloc len s) (\<lambda>(r, alloc).
        or_error r (force s) (alloc, s) (Inr (alloc, s)))))"

text \<open>\<^verbatim>\<open>min((int)x, len)\<close> on signed ints.\<close>

definition smin :: "u32 \<Rightarrow> u32 \<Rightarrow> u32" where
  "smin x y = (if sint x < sint y then x else y)"

text \<open>The loops \<^verbatim>\<open>while (len > 0)\<close>: a fan-out of at least one block makes progress in every
  iteration, so \<^verbatim>\<open>len + 1\<close> iterations suffice.\<close>

fun reserve_dind_loop :: "nat \<Rightarrow> block_allocation \<Rightarrow> u32 \<Rightarrow> ext4_st \<Rightarrow> (block_allocation \<times> ext4_st) res" where
  "reserve_dind_loop 0 alloc len s = Inl Diverges"
| "reserve_dind_loop (Suc fuel) alloc len s =
     (if 0 < sint len then
        let ind_block_len = smin (blocks_per_ind (aux_info s)) len in
        bnd (reserve_indirect_block alloc ind_block_len s) (\<lambda>(alloc, s).
        reserve_dind_loop fuel alloc (len - ind_block_len) s)
      else Inr (alloc, s))"

definition reserve_dindirect_block :: "block_allocation \<Rightarrow> u32 \<Rightarrow> ext4_st \<Rightarrow> (block_allocation \<times> ext4_st) res" where
  "reserve_dindirect_block alloc len s =
     bnd (reserve_oob_blocks alloc 1 s) (\<lambda>(r, alloc, s).
     or_error r (force s) (alloc, s) (reserve_dind_loop (Suc (unat len)) alloc len s))"

fun reserve_tind_loop :: "nat \<Rightarrow> block_allocation \<Rightarrow> u32 \<Rightarrow> ext4_st \<Rightarrow> (block_allocation \<times> ext4_st) res" where
  "reserve_tind_loop 0 alloc len s = Inl Diverges"
| "reserve_tind_loop (Suc fuel) alloc len s =
     (if 0 < sint len then
        let dind_block_len = smin (blocks_per_dind (aux_info s)) len in
        bnd (reserve_dindirect_block alloc dind_block_len s) (\<lambda>(alloc, s).
        reserve_tind_loop fuel alloc (len - dind_block_len) s)
      else Inr (alloc, s))"

definition reserve_tindirect_block :: "block_allocation \<Rightarrow> u32 \<Rightarrow> ext4_st \<Rightarrow> (block_allocation \<times> ext4_st) res" where
  "reserve_tindirect_block alloc len s =
     bnd (reserve_oob_blocks alloc 1 s) (\<lambda>(r, alloc, s).
     or_error r (force s) (alloc, s) (reserve_tind_loop (Suc (unat len)) alloc len s))"

definition reserve_all_indirect_blocks :: "block_allocation \<Rightarrow> u32 \<Rightarrow> ext4_st \<Rightarrow> (block_allocation \<times> ext4_st) res" where
  "reserve_all_indirect_blocks alloc len s =
     (if len \<le> EXT4_NDIR_BLOCKS then Inr (alloc, s)
      else
        let len = len - EXT4_NDIR_BLOCKS in
        bnd (advance_blocks alloc EXT4_NDIR_BLOCKS s) (\<lambda>(r, alloc).
        let ind_block_len = min (blocks_per_ind (aux_info s)) len in
        bnd (reserve_indirect_block alloc ind_block_len s) (\<lambda>(alloc, s).
        let len = len - ind_block_len in
        if len = 0 then Inr (alloc, s)
        else
          let dind_block_len = min (blocks_per_dind (aux_info s)) len in
          bnd (reserve_dindirect_block alloc dind_block_len s) (\<lambda>(alloc, s).
          let len = len - dind_block_len in
          if len = 0 then Inr (alloc, s)
          else
            let tind_block_len = min (blocks_per_tind (aux_info s)) len in
            bnd (reserve_tindirect_block alloc tind_block_len s) (\<lambda>(alloc, s).
            let len = len - tind_block_len in
            if len = 0 then Inr (alloc, s) else error_then (force s) (alloc, s))))))"

text \<open>The number of blocks for block maps. A zero fan-out divides by zero.\<close>

definition indirect_blocks_needed :: "fs_aux_info \<Rightarrow> u32 \<Rightarrow> u32 res" where
  "indirect_blocks_needed a len =
     (if len \<le> EXT4_NDIR_BLOCKS then Inr 0
      else if blocks_per_ind a = 0 then Inl Undefined
      else
        let len = len - EXT4_NDIR_BLOCKS;
            ind = DIV_ROUND_UP len (blocks_per_ind a) in
        if len \<le> blocks_per_ind a then Inr ind
        else if blocks_per_dind a = 0 then Inl Undefined
        else
          let len = len - blocks_per_ind a;
              ind = ind + DIV_ROUND_UP len (blocks_per_dind a) in
          if len \<le> blocks_per_dind a then Inr ind
          else if blocks_per_tind a = 0 then Inl Undefined
          else
            let len = len - blocks_per_dind a;
                ind = ind + DIV_ROUND_UP len (blocks_per_tind a) in
            if len \<le> blocks_per_tind a then Inr ind else Inl Longjmp)"

section \<open>Filling block maps\<close>

text \<open>The \<^verbatim>\<open>len\<close> entries of an indirect block held in the heap buffer \<open>buf\<close>.\<close>

definition put_entry :: "nat \<Rightarrow> nat \<Rightarrow> u32 \<Rightarrow> ext4_st \<Rightarrow> ext4_st res" where
  "put_entry buf i v s = mem_upd buf (\<lambda>b. put32 b (4 * i) v) s"

definition fill_indirect_block :: "nat \<Rightarrow> u32 \<Rightarrow> block_allocation \<Rightarrow> ext4_st \<Rightarrow> ext4_st res" where
  "fill_indirect_block ind_block len alloc s =
     for_each (\<lambda>i s. bnd (get_block alloc (of_nat i) s) (\<lambda>b. put_entry ind_block i b s)) [0..<nat (sint len)] s"

text \<open>
  \<^verbatim>\<open>calloc(info.block_size, 1)\<close> whose result is queued and then written without a test.
\<close>

definition new_block_buf :: "u32 \<Rightarrow> ext4_st \<Rightarrow> (nat \<times> ext4_st) res" where
  "new_block_buf blk s =
     (case calloc_buf (unat (block_size (info s))) s of
        (None, s) \<Rightarrow> Inl Undefined
      | (Some buf, s) \<Rightarrow> Inr (buf, sparse_file_add (Add_Data (Heap_Buf buf 0) (block_size (info s)) blk) s))"

fun fill_dind_loop :: "nat \<Rightarrow> nat \<Rightarrow> nat \<Rightarrow> u32 \<Rightarrow> block_allocation \<Rightarrow> ext4_st \<Rightarrow> (block_allocation \<times> ext4_st) res" where
  "fill_dind_loop 0 dind_block i len alloc s = Inl Diverges"
| "fill_dind_loop (Suc fuel) dind_block i len alloc s =
     (if 0 < sint len then
        bnd (get_oob_block alloc 0 s) (\<lambda>ind_block.
        bnd (advance_oob_blocks alloc 1 s) (\<lambda>(r, alloc).
        or_error r (force s) (alloc, s)
          (bnd (put_entry dind_block i ind_block s) (\<lambda>s.
           bnd (new_block_buf ind_block s) (\<lambda>(ind_block_data, s).
           let ind_block_len = smin (blocks_per_ind (aux_info s)) len in
           bnd (fill_indirect_block ind_block_data ind_block_len alloc s) (\<lambda>s.
           bnd (advance_blocks alloc ind_block_len s) (\<lambda>(r, alloc).
           or_error r (force s) (alloc, s)
             (fill_dind_loop fuel dind_block (i + 1) (len - ind_block_len) alloc s))))))))
      else Inr (alloc, s))"

definition fill_dindirect_block :: "nat \<Rightarrow> u32 \<Rightarrow> block_allocation \<Rightarrow> ext4_st \<Rightarrow> (block_allocation \<times> ext4_st) res" where
  "fill_dindirect_block dind_block len alloc s = fill_dind_loop (Suc (unat len)) dind_block 0 len alloc s"

fun fill_tind_loop :: "nat \<Rightarrow> nat \<Rightarrow> nat \<Rightarrow> u32 \<Rightarrow> block_allocation \<Rightarrow> ext4_st \<Rightarrow> (block_allocation \<times> ext4_st) res" where
  "fill_tind_loop 0 tind_block i len alloc s = Inl Diverges"
| "fill_tind_loop (Suc fuel) tind_block i len alloc s =
     (if 0 < sint len then
        bnd (get_oob_block alloc 0 s) (\<lambda>dind_block.
        bnd (advance_oob_blocks alloc 1 s) (\<lambda>(r, alloc).
        or_error r (force s) (alloc, s)
          (bnd (put_entry tind_block i dind_block s) (\<lambda>s.
           bnd (new_block_buf dind_block s) (\<lambda>(dind_block_data, s).
           let dind_block_len = smin (blocks_per_dind (aux_info s)) len in
           bnd (fill_dindirect_block dind_block_data dind_block_len alloc s) (\<lambda>(alloc, s).
           fill_tind_loop fuel tind_block (i + 1) (len - dind_block_len) alloc s))))))
      else Inr (alloc, s))"

definition fill_tindirect_block :: "nat \<Rightarrow> u32 \<Rightarrow> block_allocation \<Rightarrow> ext4_st \<Rightarrow> (block_allocation \<times> ext4_st) res" where
  "fill_tindirect_block tind_block len alloc s = fill_tind_loop (Suc (unat len)) tind_block 0 len alloc s"

section \<open>Attaching blocks to an inode\<close>

text \<open>The result is the C return value, the allocation, the blocks left and the state.\<close>

type_synonym attach_result = "(int \<times> block_allocation \<times> u32 \<times> ext4_st) res"

definition inode_attach_direct_blocks :: "inode_ptr \<Rightarrow> block_allocation \<Rightarrow> u32 \<Rightarrow> ext4_st \<Rightarrow> attach_result" where
  "inode_attach_direct_blocks inode alloc block_len s =
     (let len = min block_len EXT4_NDIR_BLOCKS in
      bnd (for_each (\<lambda>i s. bnd (get_block alloc (of_nat i) s) (\<lambda>b. inode_put32 inode (i_block + 4 * i) b s)) [0..<unat len] s) (\<lambda>s.
      bnd (advance_blocks alloc len s) (\<lambda>(r, alloc).
      or_error r (force s) (- 1, alloc, block_len, s) (Inr (0, alloc, block_len - len, s)))))"

text \<open>
  The three indirect levels share their shape: the next out-of-band block goes into slot
  \<open>slot\<close> of \<^verbatim>\<open>i_block\<close> and is filled by \<open>fill\<close> with up to \<open>fan\<close> blocks.
\<close>

definition attach_level ::
    "nat \<Rightarrow> (ext4_st \<Rightarrow> u32) \<Rightarrow> (nat \<Rightarrow> u32 \<Rightarrow> block_allocation \<Rightarrow> ext4_st \<Rightarrow> (block_allocation \<times> ext4_st) res) \<Rightarrow>
     inode_ptr \<Rightarrow> block_allocation \<Rightarrow> u32 \<Rightarrow> ext4_st \<Rightarrow> attach_result" where
  "attach_level slot fan fill inode alloc block_len s =
     (let len = min block_len (fan s) in
      bnd (get_oob_block alloc 0 s) (\<lambda>blk.
      bnd (inode_put32 inode (i_block + 4 * slot) blk s) (\<lambda>s.
      bnd (advance_oob_blocks alloc 1 s) (\<lambda>(r, alloc).
      or_error r (force s) (- 1, alloc, block_len, s)
        (bnd (new_block_buf blk s) (\<lambda>(buf, s).
         bnd (fill buf len alloc s) (\<lambda>(alloc, s).
         bnd (advance_blocks alloc len s) (\<lambda>(r, alloc).
         or_error r (force s) (- 1, alloc, block_len, s) (Inr (0, alloc, block_len - len, s))))))))))"

definition inode_attach_indirect_blocks :: "inode_ptr \<Rightarrow> block_allocation \<Rightarrow> u32 \<Rightarrow> ext4_st \<Rightarrow> attach_result" where
  "inode_attach_indirect_blocks =
     attach_level 12 (\<lambda>s. blocks_per_ind (aux_info s))
       (\<lambda>buf len alloc s. bnd (fill_indirect_block buf len alloc s) (\<lambda>s. Inr (alloc, s)))"

definition inode_attach_dindirect_blocks :: "inode_ptr \<Rightarrow> block_allocation \<Rightarrow> u32 \<Rightarrow> ext4_st \<Rightarrow> attach_result" where
  "inode_attach_dindirect_blocks = attach_level 13 (\<lambda>s. blocks_per_dind (aux_info s)) fill_dindirect_block"

definition inode_attach_tindirect_blocks :: "inode_ptr \<Rightarrow> block_allocation \<Rightarrow> u32 \<Rightarrow> ext4_st \<Rightarrow> attach_result" where
  "inode_attach_tindirect_blocks = attach_level 14 (\<lambda>s. blocks_per_tind (aux_info s)) fill_tindirect_block"

text \<open>\<^verbatim>\<open>if (count > 0 && attach(...)) error\<close>, then the rest.\<close>

definition attach_then ::
    "(inode_ptr \<Rightarrow> block_allocation \<Rightarrow> u32 \<Rightarrow> ext4_st \<Rightarrow> attach_result) \<Rightarrow> bool \<Rightarrow> inode_ptr \<Rightarrow> block_allocation \<Rightarrow> u32 \<Rightarrow>
     ext4_st \<Rightarrow> (block_allocation \<Rightarrow> u32 \<Rightarrow> ext4_st \<Rightarrow> (int \<times> block_allocation \<times> ext4_st) res) \<Rightarrow>
     (int \<times> block_allocation \<times> ext4_st) res" where
  "attach_then attach always inode alloc count s k =
     (if always \<or> 0 < count
      then bnd (attach inode alloc count s) (\<lambda>(r, alloc, count, s).
           or_error r (force s) (- 1, alloc, s) (k alloc count s))
      else k alloc count s)"

definition do_inode_attach_indirect ::
    "inode_ptr \<Rightarrow> block_allocation \<Rightarrow> u32 \<Rightarrow> ext4_st \<Rightarrow> (int \<times> block_allocation \<times> ext4_st) res" where
  "do_inode_attach_indirect inode alloc block_len s =
     attach_then inode_attach_direct_blocks True inode alloc block_len s (\<lambda>alloc count s.
     attach_then inode_attach_indirect_blocks False inode alloc count s (\<lambda>alloc count s.
     attach_then inode_attach_dindirect_blocks False inode alloc count s (\<lambda>alloc count s.
     attach_then inode_attach_tindirect_blocks False inode alloc count s (\<lambda>alloc count s.
     if count \<noteq> 0 then error_then (force s) (- 1, alloc, s)
     else Inr (0, rewind_alloc alloc, s)))))"

definition do_inode_allocate_indirect :: "u32 \<Rightarrow> ext4_st \<Rightarrow> (block_allocation option \<times> ext4_st) res" where
  "do_inode_allocate_indirect block_len s =
     bnd (indirect_blocks_needed (aux_info s) block_len) (\<lambda>indirect_len.
     bnd (allocate_blocks (block_len + indirect_len) s) (\<lambda>(alloc, s).
     if alloc = None then error_then (force s) (None, s) else Inr (alloc, s)))"

definition indirect_blocks_wanted :: "ext4_st \<Rightarrow> u32 \<Rightarrow> u32" where
  "indirect_blocks_wanted s len = DIV_ROUND_UP len (block_size (info s))"

definition inode_allocate_indirect :: "inode_ptr \<Rightarrow> u32 \<Rightarrow> ext4_st \<Rightarrow> ext4_st res" where
  "inode_allocate_indirect inode len s =
     (if block_size (info s) = 0 then Inl Undefined else
      let block_len = indirect_blocks_wanted s len in
      bnd (indirect_blocks_needed (aux_info s) block_len) (\<lambda>indirect_len.
      bnd (do_inode_allocate_indirect block_len s) (\<lambda>(alloc, s).
      case alloc of
        None \<Rightarrow> error_then (force s) s
      | Some alloc \<Rightarrow>
        bnd (reserve_all_indirect_blocks alloc block_len s) (\<lambda>(alloc, s).
        bnd (do_inode_attach_indirect inode (rewind_alloc alloc) block_len s) (\<lambda>(r, alloc, s).
        bnd (or_error r (force s) () (Inr ())) (\<lambda>_.
        bnd (inode_put32 inode i_flags 0 s) (\<lambda>s.
        bnd (inode_put32 inode i_blocks_lo ((block_len + indirect_len) * block_size (info s) div 512) s) (\<lambda>s.
        bnd (inode_put32 inode i_size_lo len s) (\<lambda>s.
        free_alloc alloc s)))))))))"

definition create_backing :: "block_allocation \<Rightarrow> u32 \<Rightarrow> ext4_st \<Rightarrow> (nat \<times> block_allocation \<times> ext4_st) res" where
  "create_backing alloc backing_len s =
     (if block_size (info s) = 0 then Inl Undefined
      else if EXT4_NDIR_BLOCKS < DIV_ROUND_UP backing_len (block_size (info s)) then Inl Longjmp
      else case calloc_buf (unat backing_len) s of
        (None, s) \<Rightarrow> Inl Longjmp
      | (Some data, s) \<Rightarrow>
          bnd (backing_loop (Suc (mallocs s)) data 0 alloc (ucast backing_len) s) (\<lambda>(alloc, s).
          Inr (data, alloc, s)))"

definition inode_allocate_data_indirect :: "inode_ptr \<Rightarrow> u32 \<Rightarrow> u32 \<Rightarrow> ext4_st \<Rightarrow> (nat option \<times> ext4_st) res" where
  "inode_allocate_data_indirect inode len backing_len s =
     (if block_size (info s) = 0 then Inl Undefined else
      let block_len = indirect_blocks_wanted s len in
      bnd (do_inode_allocate_indirect block_len s) (\<lambda>(alloc, s).
      case alloc of
        None \<Rightarrow> error_then (force s) (None, s)
      | Some alloc \<Rightarrow>
        bnd (if backing_len \<noteq> 0
             then bnd (create_backing alloc backing_len s) (\<lambda>(data, alloc, s). Inr (Some data, alloc, s))
             else Inr (None, alloc, s)) (\<lambda>(data, alloc, s).
        bnd (do_inode_attach_indirect inode (rewind_alloc alloc) block_len s) (\<lambda>(r, alloc, s).
        bnd (or_error r (force s) () (Inr ())) (\<lambda>_.
        bnd (free_alloc alloc s) (\<lambda>s. Inr (data, s)))))))"

section \<open>The resize inode\<close>

text \<open>
  The slot of the reserved block that entry \<^verbatim>\<open>i\<close> of the doubly indirect block names. The
  subtraction is unsigned, so for \<open>i < bg_desc_blocks\<close> the remainder is that of a number
  near \<open>2 ^ 32\<close>, and the correction for a negative remainder never applies below \<open>2 ^ 31\<close>.
\<close>

definition resize_slot :: "u32 \<Rightarrow> u32 \<Rightarrow> u32 \<Rightarrow> u32" where
  "resize_slot desc_blocks reserve i =
     (let r = (i - desc_blocks) mod reserve in if sint r < 0 then r + reserve else r)"

definition resize_fill :: "nat \<Rightarrow> nat \<Rightarrow> u32 \<Rightarrow> block_allocation \<Rightarrow> nat \<Rightarrow> ext4_st \<Rightarrow> ext4_st res" where
  "resize_fill dind_data ind_data superblocks alloc i s =
     (let reserve = bg_desc_reserve_blocks (info s);
          r = resize_slot (bg_desc_blocks (aux_info s)) reserve (of_nat i) in
      bnd (get_block alloc r s) (\<lambda>b.
      bnd (put_entry dind_data i b s) (\<lambda>s.
      for_each (\<lambda>j s.
         bnd (get_block alloc (of_nat j * reserve + r) s) (\<lambda>b.
         put_entry ind_data (unat (r * blocks_per_ind (aux_info s) + of_nat j - 1)) b s))
        [1..<unat superblocks] s)))"

definition resize_last_block :: "ext4_st \<Rightarrow> u32 \<Rightarrow> u32" where
  "resize_last_block s superblocks = EXT4_NDIR_BLOCKS + blocks_per_ind (aux_info s) +
     blocks_per_ind (aux_info s) * (bg_desc_reserve_blocks (info s) - 1) + superblocks - 2"

definition inode_attach_resize :: "inode_ptr \<Rightarrow> block_allocation \<Rightarrow> ext4_st \<Rightarrow> (block_allocation \<times> ext4_st) res" where
  "inode_attach_resize inode alloc s =
     (let reserve = bg_desc_reserve_blocks (info s) in
      bnd (block_allocation_len alloc s) (\<lambda>block_len.
      if reserve = 0 then Inl Undefined
      else if block_len mod reserve \<noteq> 0 then Inl Longjmp
      else
        let superblocks = block_len div reserve in
        bnd (append_oob_allocation alloc 1 s) (\<lambda>(_, alloc, s).
        bnd (get_oob_block alloc 0 s) (\<lambda>dind_block.
        case calloc_buf (unat (block_size (info s))) s of
          (None, s) \<Rightarrow> Inl Longjmp
        | (Some dind_data, s) \<Rightarrow>
          let s = sparse_file_add (Add_Data (Heap_Buf dind_data 0) (block_size (info s)) dind_block) s in
          case (if unat (block_size (info s)) * unat reserve < 2 ^ 32
                then calloc_buf (unat (block_size (info s)) * unat reserve) s else (None, s)) of
            (None, s) \<Rightarrow> Inl Longjmp
          | (Some ind_data, s) \<Rightarrow>
            bnd (get_block alloc 0 s) (\<lambda>b.
            let s = sparse_file_add (Add_Data (Heap_Buf ind_data 0) (block_size (info s) * reserve) b) s in
            bnd (for_each (resize_fill dind_data ind_data superblocks alloc) [0..<unat reserve] s) (\<lambda>s.
            let blocks = ((ucast block_len + 1) * ucast (block_size (info s)) div 512 :: u64);
                sz = (ucast (resize_last_block s superblocks) * ucast (block_size (info s)) :: u64) in
            bnd (inode_put32 inode (i_block + 52) dind_block s) (\<lambda>s.
            bnd (inode_put32 inode i_flags 0 s) (\<lambda>s.
            bnd (inode_put32 inode i_blocks_lo (ucast blocks) s) (\<lambda>s.
            bnd (inode_put16 inode l_i_blocks_high (ucast (drop_bit 32 blocks)) s) (\<lambda>s.
            bnd (inode_put32 inode i_size_lo (ucast sz) s) (\<lambda>s.
            bnd (inode_put32 inode i_size_high (ucast (drop_bit 32 sz)) s) (\<lambda>s.
            Inr (alloc, s)))))))))))))"

section \<open>Files of direct blocks\<close>

lemma advance_loop_ok:
  "dchain (regions s) pv p as \<Longrightarrow> length as \<le> fuel \<Longrightarrow>
   unat n \<le> length (blocks_of (region_list_of (regions s) as)) \<Longrightarrow> unat n < 2 ^ 31 \<Longrightarrow>
   \<exists>q. advance_loop fuel s p n 0 = Inr (0, q)"
proof (induction as arbitrary: pv p n fuel)
  case Nil
  then show ?case using sint_small [of n] by (simp add: blocks_of_def)
next
  case (Cons a as)
  obtain r where r: "p = Some a" "regions s a = Some r" "dchain (regions s) (Some a) (reg_next r) as"
    using Cons.prems by auto
  obtain k where k: "fuel = Suc k" using Cons.prems(2) by (cases fuel) auto
  show ?case
  proof (cases "0 < sint n \<and> \<not> n < reg_len r")
    case True
    then have u: "unat (n - reg_len r) = unat n - unat (reg_len r)" by (simp add: unat_sub not_less)
    have "\<exists>q. advance_loop k s (reg_next r) (n - reg_len r) 0 = Inr (0, q)"
      using Cons.prems k r u by (intro Cons.IH [OF r(3)]) (simp_all add: blocks_of_Cons)
    then show ?thesis using True r k by (simp add: region_at_def)
  next
    case False
    then show ?thesis using r k by (auto simp: region_at_def)
  qed
qed

lemma advance_blocks_ok:
  assumes al: "alloc_nodes s alloc as" and hp: "heap_ok s"
    and n: "unat n \<le> length (blocks_of (region_list_of (regions s) as))" "unat n < 2 ^ 31"
  shows "\<exists>q. advance_blocks alloc n s = Inr (0, alloc\<lparr>al_list := (al_list alloc)\<lparr>rl_partial_iter := q\<rparr>\<rparr>)"
proof -
  have d: "dchain (regions s) None (rl_first (al_list alloc)) as" using al by (simp add: alloc_nodes_def)
  obtain q where "advance_loop (mallocs s) s (rl_iter (al_list alloc)) n (rl_partial_iter (al_list alloc)) = Inr (0, q)"
    using advance_loop_ok [OF d dchain_fuel [OF d hp] n] al by (auto simp: alloc_nodes_def)
  then have "advance_blocks alloc n s = Inr (0, alloc\<lparr>al_list := (al_list alloc)\<lparr>rl_partial_iter := q\<rparr>\<rparr>)"
    by (simp add: advance_blocks_def advance_list_ptr_def)
  then show ?thesis by blast
qed

definition entries_bytes :: "nat list \<Rightarrow> bytes" where
  "entries_bytes bl = concat (map (\<lambda>b. le32_bytes (of_nat b)) bl)"

lemma length_entries [simp]: "length (entries_bytes bl) = 4 * length bl"
  by (induction bl) (simp_all add: entries_bytes_def)

lemma entries_snoc: "entries_bytes (bl @ [b]) = entries_bytes bl @ le32_bytes (of_nat b)"
  by (simp add: entries_bytes_def)

lemma entries_nth: "i < length bl \<Longrightarrow> le32 (entries_bytes bl) (4 * i) = of_nat (bl ! i)"
proof (induction bl rule: rev_induct)
  case (snoc b bl)
  show ?case
  proof (cases "i < length bl")
    case True
    then have "le32 (entries_bytes bl @ le32_bytes (of_nat b)) (4 * i) = le32 (entries_bytes bl) (4 * i)"
      by (intro le32_append) simp
    then show ?thesis using True snoc by (simp add: entries_snoc nth_append)
  next
    case False
    then have i: "i = length bl" using snoc.prems by simp
    show ?thesis using le32_append2 [of "entries_bytes bl" "le32_bytes (of_nat b)" 0]
      by (simp add: i entries_snoc le32_le32_bytes)
  qed
qed simp

text \<open>The loop over the direct blocks writes the entries one behind the other.\<close>

lemma direct_loop_ok:
  assumes al: "alloc_nodes s alloc as" and hp: "heap_ok s" and good: "\<forall>r \<in> set (region_list_of (regions s) as). good_region r"
    and bl: "bl = blocks_of (region_list_of (regions s) as)" and rm: "inode_room s p n" "100 \<le> n"
    and m: "m \<le> 12" "m \<le> length bl"
  shows "for_each (\<lambda>i s. bnd (get_block alloc (of_nat i) s) (\<lambda>b. inode_put32 p (i_block + 4 * i) b s)) [0..<m] s =
     Inr (inode_write p i_block (entries_bytes (take m bl)) s)"
  using m
proof (induction m)
  case 0
  then show ?case using rm by (simp add: entries_bytes_def inode_write_nothing)
next
  case (Suc m)
  let ?s = "inode_write p i_block (entries_bytes (take m bl)) s"
  have IH: "for_each (\<lambda>i s. bnd (get_block alloc (of_nat i) s) (\<lambda>b. inode_put32 p (i_block + 4 * i) b s)) [0..<m] s = Inr ?s"
    using Suc by simp
  have "alloc_nodes ?s alloc as" "heap_ok ?s" using al hp by (simp_all add: alloc_nodes_def heap_ok_def)
  then have g: "get_block alloc (of_nat m) ?s = Inr (of_nat (bl ! m))"
    using get_block_nth [of ?s alloc as "of_nat m"] good bl Suc.prems by (simp add: unat_of_nat)
  have r: "inode_room ?s p n" by (rule inode_room_write [OF rm(1)]) (use rm(2) Suc.prems in simp)
  have "inode_put32 p (i_block + 4 * m) (of_nat (bl ! m)) ?s = Inr (inode_write p (i_block + 4 * m) (le32_bytes (of_nat (bl ! m))) ?s)"
    by (rule inode_put32_ok [OF r]) (use rm(2) Suc.prems in simp)
  also have "inode_write p (i_block + 4 * m) (le32_bytes (of_nat (bl ! m))) ?s =
      inode_write p i_block (entries_bytes (take m bl) @ le32_bytes (of_nat (bl ! m))) s"
    by (rule inode_write_append [OF rm(1)]) (use rm(2) Suc.prems in simp_all)
  also have "entries_bytes (take m bl) @ le32_bytes (of_nat (bl ! m)) = entries_bytes (take (Suc m) bl)"
    using Suc.prems by (simp add: take_Suc_conv_app_nth entries_snoc)
  finally show ?case using IH g by (simp add: for_each_append)
qed

lemma attach_direct_ok:
  assumes al: "alloc_nodes s alloc as" "heap_ok s" "\<forall>r \<in> set (region_list_of (regions s) as). good_region r"
    and bl: "bl = blocks_of (region_list_of (regions s) as)" and rm: "inode_room s p n" "100 \<le> n"
    and len: "unat block_len \<le> length bl"
  obtains q where "inode_attach_direct_blocks p alloc block_len s =
     Inr (0, alloc\<lparr>al_list := (al_list alloc)\<lparr>rl_partial_iter := q\<rparr>\<rparr>, block_len - min block_len 12,
          inode_write p i_block (entries_bytes (take (min (unat block_len) 12) bl)) s)"
    and "advance_blocks alloc (min block_len 12) s = Inr (0, alloc\<lparr>al_list := (al_list alloc)\<lparr>rl_partial_iter := q\<rparr>\<rparr>)"
proof -
  let ?m = "min block_len 12"
  have um: "unat ?m = min (unat block_len) 12" by (simp add: min_def word_le_nat_alt)
  let ?s = "inode_write p i_block (entries_bytes (take (min (unat block_len) 12) bl)) s"
  have lp: "for_each (\<lambda>i s. bnd (get_block alloc (of_nat i) s) (\<lambda>b. inode_put32 p (i_block + 4 * i) b s)) [0..<unat ?m] s = Inr ?s"
    unfolding um using len by (intro direct_loop_ok [OF al bl rm]) simp_all
  have l: "unat ?m \<le> length (blocks_of (region_list_of (regions s) as))" "unat ?m < 2 ^ 31"
    unfolding um using len bl by simp_all
  obtain q where q: "advance_blocks alloc ?m s = Inr (0, alloc\<lparr>al_list := (al_list alloc)\<lparr>rl_partial_iter := q\<rparr>\<rparr>)"
    using advance_blocks_ok [OF al(1,2) l] by blast
  have "alloc_nodes ?s alloc as" "heap_ok ?s" using al by (simp_all add: alloc_nodes_def heap_ok_def)
  moreover have "advance_blocks alloc ?m ?s = advance_blocks alloc ?m s"
  proof -
    have "advance_loop fuel ?s x n y = advance_loop fuel s x n y" for fuel x n y
      by (induction fuel s x n y rule: advance_loop.induct) (auto simp: region_at_def split: option.splits)
    then show ?thesis by (simp add: advance_blocks_def advance_list_ptr_def)
  qed
  ultimately show ?thesis using that [of q] lp q by (simp add: inode_attach_direct_blocks_def Let_def or_error_def)
qed

text \<open>
  C37. A file of at most twelve blocks: attaching its allocation to the inode returns 0, leaves the
  allocation as it was, and entry \<open>i\<close> of \<^verbatim>\<open>i_block\<close> is the \<open>i\<close>-th block of the
  allocation.
\<close>

theorem direct_blocks_attached:
  assumes "alloc_nodes s alloc as" "heap_ok s" "\<forall>r \<in> set (region_list_of (regions s) as). good_region r"
    and "bl = blocks_of (region_list_of (regions s) as)" and "inode_room s p n" "100 \<le> n"
    and "unat block_len \<le> length bl" and "block_len \<le> 12"
  shows "\<exists>s'. do_inode_attach_indirect p alloc block_len s = Inr (0, alloc, s') \<and>
    (\<forall>i < unat block_len. le32 (inode_bytes s' p) (i_block + 4 * i) = of_nat (bl ! i)) \<and> only_inodes s s'"
proof -
  let ?s = "inode_write p i_block (entries_bytes (take (min (unat block_len) 12) bl)) s"
  have m: "min block_len 12 = block_len" "min (unat block_len) 12 = unat block_len"
    using assms(8) by (simp_all add: min_def word_le_nat_alt)
  obtain q where q: "inode_attach_direct_blocks p alloc block_len s =
     Inr (0, alloc\<lparr>al_list := (al_list alloc)\<lparr>rl_partial_iter := q\<rparr>\<rparr>, block_len - min block_len 12, ?s)"
    using attach_direct_ok [OF assms(1-7)] .
  have "rewind_alloc (alloc\<lparr>al_list := (al_list alloc)\<lparr>rl_partial_iter := q\<rparr>\<rparr>) = alloc"
    using assms(1) by (cases alloc; cases "al_list alloc") (simp add: rewind_alloc_def alloc_nodes_def)
  then have run: "do_inode_attach_indirect p alloc block_len s = Inr (0, alloc, ?s)"
    using q m by (simp add: do_inode_attach_indirect_def attach_then_def or_error_def)
  have ln: "i_block + length (entries_bytes (take (unat block_len) bl)) \<le> n"
    using assms(6,7) m(2) by simp
  have "le32 (inode_bytes ?s p) (i_block + 4 * i) = of_nat (bl ! i)" if i: "i < unat block_len" for i
  proof -
    have "inode_bytes ?s p = blit (inode_bytes s p) i_block (entries_bytes (take (unat block_len) bl))"
      unfolding m(2) using ln by (intro inode_bytes_write [OF assms(5)]) simp
    moreover have "le32 (blit (inode_bytes s p) i_block (entries_bytes (take (unat block_len) bl))) (i_block + 4 * i) =
        le32 (entries_bytes (take (unat block_len) bl)) (4 * i)"
      using inode_room_length [OF assms(5)] ln i assms(7) by (intro le32_inside) simp_all
    ultimately show ?thesis using i assms(7) by (simp add: entries_nth)
  qed
  then show ?thesis using run only_inodes_write by blast
qed

text \<open>
  When the first region of the allocation is exactly the twelve direct blocks (which is what
  \<^verbatim>\<open>reserve_all_indirect_blocks\<close> makes of it), attaching them leaves the iterator at their
  start: the next block that the indirect block would be given is again the first direct block.
\<close>

theorem direct_blocks_not_skipped:
  assumes "alloc_nodes s alloc (a # as)" "heap_ok s" "\<forall>r \<in> set (region_list_of (regions s) (a # as)). good_region r"
    and "regions s a = Some r" "reg_len r = 12" and "inode_room s p n" "100 \<le> n"
    and "12 < block_len" and "unat block_len \<le> length (blocks_of (region_list_of (regions s) (a # as)))"
  shows "\<exists>alloc' s'. inode_attach_direct_blocks p alloc block_len s = Inr (0, alloc', block_len - 12, s') \<and>
    get_block alloc' 0 s' = Inr (reg_block r)"
proof -
  let ?bl = "blocks_of (region_list_of (regions s) (a # as))"
  obtain q where q: "inode_attach_direct_blocks p alloc block_len s =
     Inr (0, alloc\<lparr>al_list := (al_list alloc)\<lparr>rl_partial_iter := q\<rparr>\<rparr>, block_len - min block_len 12,
          inode_write p i_block (entries_bytes (take (min (unat block_len) 12) ?bl)) s)"
    "advance_blocks alloc (min block_len 12) s = Inr (0, alloc\<lparr>al_list := (al_list alloc)\<lparr>rl_partial_iter := q\<rparr>\<rparr>)"
    using attach_direct_ok [OF assms(1-3) refl assms(6,7,9)] .
  have m: "min block_len 12 = 12" using assms(8) by (simp add: min_def word_le_nat_alt word_less_nat_alt)
  have it: "rl_iter (al_list alloc) = Some a" "rl_partial_iter (al_list alloc) = 0" "mallocs s \<noteq> 0"
    using assms(1,2,4) by (auto simp: alloc_nodes_def heap_ok_def)
  then obtain k where k: "mallocs s = Suc k" by (cases "mallocs s") auto
  have "advance_loop k s (reg_next r) 0 0 = Inr (0, 0)"
    by (cases "reg_next r"; cases k) simp_all
  then have "advance_loop (Suc k) s (Some a) 12 0 = Inr (0, 0)"
    using assms(4,5) by (simp add: region_at_def)
  then have "alloc\<lparr>al_list := (al_list alloc)\<lparr>rl_partial_iter := 0\<rparr>\<rparr> = alloc\<lparr>al_list := (al_list alloc)\<lparr>rl_partial_iter := q\<rparr>\<rparr>"
    using q(2) it k unfolding m by (simp add: advance_blocks_def advance_list_ptr_def)
  then have al: "alloc\<lparr>al_list := (al_list alloc)\<lparr>rl_partial_iter := q\<rparr>\<rparr> = alloc"
    using it by (cases alloc; cases "al_list alloc") simp
  have "0 < reg_len r" using assms(5) by simp
  then have "get_block alloc 0 (inode_write p f b s) = Inr (reg_block r)" for f b
    using it k assms(4) by (simp add: get_block_def list_block_def region_at_def)
  then show ?thesis using q(1) unfolding al m by auto
qed

section \<open>The block map of the resize inode\<close>

lemma resize_slot_mod:
  assumes "unat R = 2 ^ k" and "k < 32"
  shows "unat ((i - d) mod R :: u32) = nat ((int (unat i) - int (unat d)) mod 2 ^ k)"
proof -
  have "uint (i - d) = (uint i - uint d) mod 2 ^ 32" by (simp add: uint_word_ariths)
  moreover have "(2 :: int) ^ k dvd 2 ^ 32" using assms(2) by (intro le_imp_power_dvd) simp
  ultimately have "uint (i - d) mod 2 ^ k = (uint i - uint d) mod 2 ^ k" by (simp add: mod_mod_cancel)
  moreover have "uint R = 2 ^ k" using assms(1) by (metis of_nat_numeral of_nat_power uint_nat)
  ultimately have "uint ((i - d) mod R) = (uint i - uint d) mod 2 ^ k" by (simp add: uint_mod)
  then show ?thesis by (metis nat_int uint_nat)
qed

text \<open>
  When the number of reserved descriptor blocks is a power of two below \<open>2 ^ 31\<close>, the doubly
  indirect block of the resize inode names every reserved slot exactly once.
\<close>

theorem resize_slots_distinct:
  assumes "unat R = 2 ^ k" and "k < 31"
  shows "bij_betw (\<lambda>i. unat (resize_slot d R (of_nat i))) {..<2 ^ k} {..<2 ^ k}"
proof -
  have small: "unat (resize_slot d R x) = nat ((int (unat x) - int (unat d)) mod 2 ^ k)" for x
  proof -
    let ?r = "(x - d) mod R"
    have k: "(2 :: nat) ^ k < 2 ^ 31" using assms(2) by (intro power_strict_increasing) simp_all
    have "unat ?r < unat R" using assms(1) by (simp add: unat_mod)
    then have "unat ?r < 2 ^ 31" using assms(1) k by simp
    then have "sint ?r = int (unat ?r)" by (intro sint_small) simp
    then have "\<not> sint ?r < 0" by simp
    then show ?thesis using resize_slot_mod [OF assms(1), of x d] assms(2) by (simp add: resize_slot_def Let_def)
  qed
  have of: "unat (of_nat i :: u32) = i" if "i < 2 ^ k" for i
  proof -
    have "(2 :: nat) ^ k \<le> 2 ^ 32" using assms(2) by (intro power_increasing) simp_all
    then show ?thesis using that by (simp add: unat_of_nat)
  qed
  have inj: "inj_on (\<lambda>i. unat (resize_slot d R (of_nat i))) {..<2 ^ k}"
  proof (rule inj_onI)
    fix i j :: nat
    assume ij: "i \<in> {..<2 ^ k}" "j \<in> {..<2 ^ k}" "unat (resize_slot d R (of_nat i)) = unat (resize_slot d R (of_nat j))"
    then have "(int i - int (unat d)) mod 2 ^ k = (int j - int (unat d)) mod 2 ^ k"
      by (simp add: small of) (metis (no_types, lifting) eq_nat_nat_iff pos_mod_sign zero_less_numeral zero_less_power)
    then have "int i mod 2 ^ k = int j mod 2 ^ k" by (metis diff_add_cancel mod_add_left_eq)
    moreover have "int i < 2 ^ k" "int j < 2 ^ k" using ij(1,2) by (simp_all flip: of_nat_less_iff)
    ultimately show "i = j" by simp
  qed
  have "(\<lambda>i. unat (resize_slot d R (of_nat i))) ` {..<2 ^ k} \<subseteq> {..<2 ^ k}"
    by (auto simp: small nat_less_iff)
  then show ?thesis unfolding bij_betw_def using inj by (simp add: endo_inj_surj)
qed

theorem resize_slots_distinct_witness:
  "bij_betw (\<lambda>i. unat (resize_slot 3 8 (of_nat i))) {..<8} {..<8}"
  using resize_slots_distinct [of 8 3 3] by simp

text \<open>
  With seven reserved blocks and one descriptor block (the parameters of every filesystem of one
  group with 4 KiB blocks), entries 0 and 4 name the same slot, and slot 6 is never named.
\<close>

theorem resize_slots_collide:
  "map (\<lambda>i. unat (resize_slot 1 7 i)) [0, 1, 2, 3, 4, 5, 6] = [3, 0, 1, 2, 3, 4, 5]"
  by (simp add: resize_slot_def Let_def sint_small)

section \<open>Witnesses\<close>

text \<open>Thirteen blocks in two regions, of which the first has the twelve direct ones.\<close>

definition direct_st :: ext4_st where
  "direct_st = sample_st\<lparr>mallocs := 2, regions := [
     0 \<mapsto> \<lparr>reg_block = 100, reg_len = 12, reg_bg = 0, reg_next = Some 1, reg_prev = None\<rparr>,
     1 \<mapsto> \<lparr>reg_block = 500, reg_len = 1, reg_bg = 0, reg_next = None, reg_prev = Some 0\<rparr>],
     aux_info := (aux_info sample_st)\<lparr>bgs := [zero_bg\<lparr>bgi_inode_table := Some (replicate 256 0)\<rparr>]\<rparr>\<rparr>"

lemma direct_st_ok:
  "alloc_nodes direct_st (alloc_at 0) [0, 1]" "heap_ok direct_st"
  "\<forall>r \<in> set (region_list_of (regions direct_st) [0, 1]). good_region r"
  "inode_room direct_st (0, 0) 128"
  "length (blocks_of (region_list_of (regions direct_st) [0, 1])) = 13"
  "blocks_of (region_list_of (regions direct_st) [0, 1]) ! 3 = 103"
  by (auto simp: alloc_nodes_def alloc_at_def direct_st_def heap_ok_def good_region_def inode_room_def blocks_of_def nth_append split: if_splits)

theorem direct_blocks_attached_witness:
  "\<exists>s'. do_inode_attach_indirect (0, 0) (alloc_at 0) 5 direct_st = Inr (0, alloc_at 0, s') \<and>
     le32 (inode_bytes s' (0, 0)) (i_block + 12) = 103"
proof -
  have p: "100 \<le> (128 :: nat)" "unat (5 :: u32) \<le> length (blocks_of (region_list_of (regions direct_st) [0, 1]))" "5 \<le> (12 :: u32)"
    using direct_st_ok(5) by simp_all
  obtain s' where r: "do_inode_attach_indirect (0, 0) (alloc_at 0) 5 direct_st = Inr (0, alloc_at 0, s')"
    "\<forall>i < unat (5 :: u32). le32 (inode_bytes s' (0, 0)) (i_block + 4 * i) = of_nat (blocks_of (region_list_of (regions direct_st) [0, 1]) ! i)"
    using direct_blocks_attached [OF direct_st_ok(1-3) refl direct_st_ok(4) p] by blast
  then show ?thesis using spec [OF r(2), of 3] direct_st_ok(6) by auto
qed

theorem direct_blocks_not_skipped_witness:
  "\<exists>alloc' s'. inode_attach_direct_blocks (0, 0) (alloc_at 0) 13 direct_st = Inr (0, alloc', 1, s') \<and>
     get_block alloc' 0 s' = Inr 100"
  using direct_blocks_not_skipped [OF direct_st_ok(1-3), of "the (regions direct_st 0)" "(0, 0)" 128 13] direct_st_ok(4,5)
  by (simp add: direct_st_def)

end
