(* ===== verification/Superblock.thy ===== *)
theory Superblock
  imports Indirect Crc16 Uuid Stores
begin

text \<open>
  The superblock and the group descriptors of \<^verbatim>\<open>ext4_utils.c\<close>: filling them in from the
  parameters, queueing them and their backups, reading them back, the resize and the journal inode,
  and the final counts and checksums. The superblock is a byte buffer and an assignment to one of its
  fields a store of the field's bytes at its offset in \<^verbatim>\<open>struct ext4_super_block\<close>, so the
  layout is part of the model; the lemmas on \<open>put_all\<close> read a field back through later stores.
\<close>

section \<open>Layout\<close>

abbreviation (input) s_inodes_count :: nat where "s_inodes_count \<equiv> 0"
abbreviation (input) s_blocks_count_lo :: nat where "s_blocks_count_lo \<equiv> 4"
abbreviation (input) s_free_blocks_count_lo :: nat where "s_free_blocks_count_lo \<equiv> 12"
abbreviation (input) s_free_inodes_count :: nat where "s_free_inodes_count \<equiv> 16"
abbreviation (input) s_first_data_block :: nat where "s_first_data_block \<equiv> 20"
abbreviation (input) s_log_block_size :: nat where "s_log_block_size \<equiv> 24"
abbreviation (input) s_blocks_per_group :: nat where "s_blocks_per_group \<equiv> 32"
abbreviation (input) s_inodes_per_group :: nat where "s_inodes_per_group \<equiv> 40"
abbreviation (input) s_magic :: nat where "s_magic \<equiv> 56"
abbreviation (input) s_state :: nat where "s_state \<equiv> 58"
abbreviation (input) s_inode_size :: nat where "s_inode_size \<equiv> 88"
abbreviation (input) s_block_group_nr :: nat where "s_block_group_nr \<equiv> 90"
abbreviation (input) s_feature_compat :: nat where "s_feature_compat \<equiv> 92"
abbreviation (input) s_feature_incompat :: nat where "s_feature_incompat \<equiv> 96"
abbreviation (input) s_feature_ro_compat :: nat where "s_feature_ro_compat \<equiv> 100"
abbreviation (input) s_uuid :: nat where "s_uuid \<equiv> 104"
abbreviation (input) s_volume_name :: nat where "s_volume_name \<equiv> 120"
abbreviation (input) s_reserved_gdt_blocks :: nat where "s_reserved_gdt_blocks \<equiv> 206"
abbreviation (input) s_jnl_blocks :: nat where "s_jnl_blocks \<equiv> 268"
abbreviation (input) s_blocks_count_hi :: nat where "s_blocks_count_hi \<equiv> 336"
abbreviation (input) sizeof_super_block :: nat where "sizeof_super_block \<equiv> 1024"

text \<open>\<^verbatim>\<open>struct ext2_group_desc\<close>, 32 bytes.\<close>

abbreviation (input) bg_free_blocks_count :: nat where "bg_free_blocks_count \<equiv> 12"
abbreviation (input) bg_free_inodes_count :: nat where "bg_free_inodes_count \<equiv> 14"
abbreviation (input) bg_used_dirs_count :: nat where "bg_used_dirs_count \<equiv> 16"
abbreviation (input) bg_flags :: nat where "bg_flags \<equiv> 18"
abbreviation (input) bg_checksum :: nat where "bg_checksum \<equiv> 30"

section \<open>Filling in the superblock\<close>

text \<open>\<^verbatim>\<open>strncpy(dst, src, n)\<close> of a string without NUL: cut or padded to n bytes.\<close>

definition strncpy_bytes :: "nat \<Rightarrow> bytes \<Rightarrow> bytes" where
  "strncpy_bytes n src = take n src @ replicate (n - length src) 0"

definition log_block_size :: "fs_info \<Rightarrow> u32" where
  "log_block_size fi = word_of_int (log_2 (uint (block_size fi div 1024)))"

text \<open>The assignments of \<^verbatim>\<open>ext4_fill_in_sb\<close> in their order.\<close>

definition sb_stores :: "fs_info \<Rightarrow> fs_aux_info \<Rightarrow> bytes \<Rightarrow> (nat \<times> bytes) list" where
  "sb_stores fi a uuid =
    [(s_inodes_count, le32_bytes (inodes_per_group fi * groups a)),
     (s_blocks_count_lo, le32_bytes (ucast (len_blocks a))),
     (8, le32_bytes 0),
     (s_free_blocks_count_lo, le32_bytes 0),
     (s_free_inodes_count, le32_bytes 0),
     (s_first_data_block, le32_bytes (first_data_block a)),
     (s_log_block_size, le32_bytes (log_block_size fi)),
     (28, le32_bytes (log_block_size fi)),
     (s_blocks_per_group, le32_bytes (blocks_per_group fi)),
     (36, le32_bytes (blocks_per_group fi)),
     (s_inodes_per_group, le32_bytes (inodes_per_group fi)),
     (44, le32_bytes 0),
     (48, le32_bytes 0),
     (52, le16_bytes 0),
     (54, le16_bytes 0xFFFF),
     (s_magic, le16_bytes EXT4_SUPER_MAGIC),
     (s_state, le16_bytes EXT4_VALID_FS),
     (60, le16_bytes 2),
     (62, le16_bytes 0),
     (64, le32_bytes 0),
     (68, le32_bytes 0),
     (72, le32_bytes 0),
     (76, le32_bytes 1),
     (80, le16_bytes 0),
     (82, le16_bytes 0),
     (84, le32_bytes 11),
     (s_inode_size, le16_bytes (ucast (inode_size fi))),
     (s_block_group_nr, le16_bytes 0),
     (s_feature_compat, le32_bytes (ucast (feat_compat fi))),
     (s_feature_incompat, le32_bytes (ucast (feat_incompat fi))),
     (s_feature_ro_compat, le32_bytes (ucast (feat_ro_compat fi))),
     (s_uuid, uuid),
     (s_volume_name, replicate 16 0),
     (s_volume_name, strncpy_bytes 16 (label fi)),
     (136, replicate 64 0),
     (200, le32_bytes 0),
     (s_reserved_gdt_blocks, le16_bytes (ucast (bg_desc_reserve_blocks fi))),
     (204, [0]),
     (205, [0])] @
    (if feat_compat fi AND 4 \<noteq> 0 then [(224, le32_bytes 8)] else []) @
    [(228, le32_bytes 0),
     (232, le32_bytes 0),
     (236, le32_bytes 0),
     (252, [2]),
     (253, [1]),
     (254, le16_bytes 32),
     (256, le32_bytes 0),
     (260, le32_bytes 0),
     (264, le32_bytes 0),
     (s_blocks_count_hi, le32_bytes (ucast (drop_bit 32 (len_blocks a)))),
     (340, le32_bytes 0),
     (344, le32_bytes 0),
     (348, le16_bytes 28),
     (350, le16_bytes 28),
     (352, le32_bytes 0),
     (356, le16_bytes 0),
     (358, le16_bytes 0),
     (360, replicate 8 0),
     (368, le32_bytes 0),
     (372, [0]),
     (376, replicate 8 0)]"

text \<open>The start of a group, as the 32-bit expression the code evaluates.\<close>

definition group_start_block :: "ext4_st \<Rightarrow> nat \<Rightarrow> u32" where
  "group_start_block s i = first_data_block (aux_info s) + of_nat i * blocks_per_group (info s)"

definition put_desc :: "nat \<Rightarrow> (nat \<times> bytes) list \<Rightarrow> ext4_st \<Rightarrow> ext4_st res" where
  "put_desc i sts s =
     bnd (put_all (map (\<lambda>(off, src). (32 * i + off, src)) sts) (bg_desc (aux_info s))) (\<lambda>d.
     Inr (s\<lparr>aux_info := (aux_info s)\<lparr>bg_desc := d\<rparr>\<rparr>))"

text \<open>A backup superblock is a copy of the block with its group number.\<close>

definition queue_backup_sb :: "nat \<Rightarrow> ext4_st \<Rightarrow> ext4_st res" where
  "queue_backup_sb i s =
     (if oom s (mallocs s) \<or> length (backup_sb (aux_info s)) \<le> i then Inl Undefined
      else
        bnd (put16 (sb (aux_info s)) s_block_group_nr (of_nat i)) (\<lambda>copy.
        Inr (sparse_file_add (Add_Data (Backup_Sb_Of i) (block_size (info s)) (group_start_block s i))
             (s\<lparr>aux_info := (aux_info s)\<lparr>backup_sb := (backup_sb (aux_info s))[i := Some copy]\<rparr>,
                mallocs := mallocs s + 1\<rparr>))))"

definition fill_in_group :: "nat \<Rightarrow> ext4_st \<Rightarrow> ext4_st res" where
  "fill_in_group i s =
     bnd (ext4_bg_has_super_block (info s) (sint (of_nat i :: u32))) (\<lambda>has_sb.
     bnd (if has_sb \<and> i \<noteq> 0 then queue_backup_sb i s else Inr s) (\<lambda>s.
     let a = aux_info s; fi = info s;
         s = (if has_sb
              then sparse_file_add (Add_Data Bg_Desc_Buf (bg_desc_blocks a * block_size fi) (group_start_block s i + 1)) s
              else s);
         header_size = (if has_sb then 1 + bg_desc_blocks a + bg_desc_reserve_blocks fi else 0);
         start = group_start_block s i + header_size in
     bnd (get32 (sb a) s_blocks_per_group) (\<lambda>bpg.
     bnd (get32 (sb a) s_inodes_per_group) (\<lambda>ipg.
     put_desc i [(0, le32_bytes start), (4, le32_bytes (start + 1)), (8, le32_bytes (start + 2)),
                 (bg_free_blocks_count, le16_bytes (ucast bpg)), (bg_free_inodes_count, le16_bytes (ucast ipg)),
                 (bg_used_dirs_count, le16_bytes 0)] s))))"

text \<open>``extandroid/make_ext4fs''\<close>

definition uuid_namespace :: bytes where
  "uuid_namespace = [101, 120, 116, 97, 110, 100, 114, 111, 105, 100, 47,
                     109, 97, 107, 101, 95, 101, 120, 116, 52, 102, 115]"

text \<open>\<open>stack\<close> is what the uninitialised buffer of the SHA-1 context holds.\<close>

definition ext4_fill_in_sb :: "bytes \<Rightarrow> ext4_st \<Rightarrow> ext4_st res" where
  "ext4_fill_in_sb stack s =
     bnd (generate_uuid stack uuid_namespace (label (info s))) (\<lambda>uuid.
     bnd (put_all (sb_stores (info s) (aux_info s) uuid) (sb (aux_info s))) (\<lambda>sb'.
     for_each fill_in_group [0..<unat (groups (aux_info s))] (s\<lparr>aux_info := (aux_info s)\<lparr>sb := sb'\<rparr>\<rparr>)))"

definition ext4_queue_sb :: "ext4_st \<Rightarrow> ext4_st res" where
  "ext4_queue_sb s =
     (if 1024 < block_size (info s) then
        (case calloc_buf (unat (block_size (info s))) s of
           (None, s) \<Rightarrow> Inl Undefined
         | (Some buf, s) \<Rightarrow>
             if length (sb (aux_info s)) < 1024 then Inl Undefined
             else bnd (mem_upd buf (\<lambda>b. put_bytes b 1024 (take 1024 (sb (aux_info s)))) s) (\<lambda>s.
                  Inr (sparse_file_add (Add_Data (Heap_Buf buf 0) (block_size (info s)) 0) s)))
      else Inr (sparse_file_add (Add_Data Sb_Buf 1024 1) s))"

section \<open>Reading a superblock\<close>

text \<open>
  \<^verbatim>\<open>1024 << s_log_block_size\<close> is a signed shift, undefined from 21 on. The label is the
  string that starts at \<^verbatim>\<open>s_volume_name\<close>.
\<close>

definition parsed_info :: "bytes \<Rightarrow> fs_info \<Rightarrow> fs_info" where
  "parsed_info b fi =
     (let bs = push_bit (unat (le32 b s_log_block_size)) 1024;
          blocks = push_bit 32 (ucast (le32 b s_blocks_count_hi)) + ucast (le32 b s_blocks_count_lo) in
      fi\<lparr>block_size := bs,
         blocks_per_group := le32 b s_blocks_per_group,
         inodes_per_group := le32 b s_inodes_per_group,
         inode_size := ucast (le16 b s_inode_size),
         info_inodes := le32 b s_inodes_count,
         feat_ro_compat := ucast (le32 b s_feature_ro_compat),
         feat_compat := ucast (le32 b s_feature_compat),
         feat_incompat := ucast (le32 b s_feature_incompat),
         bg_desc_reserve_blocks := ucast (le16 b s_reserved_gdt_blocks),
         label := takeWhile (\<lambda>c. c \<noteq> 0) (drop s_volume_name b),
         info_len := ucast bs * blocks\<rparr>)"

definition ext4_parse_sb :: "bytes \<Rightarrow> ext4_st \<Rightarrow> ext4_st res" where
  "ext4_parse_sb b s =
     (if length b < sizeof_super_block then Inl Undefined else
      bnd (if le16 b s_magic \<noteq> EXT4_SUPER_MAGIC then error_then (force s) () else Inr ()) (\<lambda>_.
      bnd (if le16 b s_state AND EXT4_VALID_FS \<noteq> EXT4_VALID_FS then error_then (force s) () else Inr ()) (\<lambda>_.
      if 21 \<le> le32 b s_log_block_size then Inl Undefined
      else
        bnd (ext4_create_fs_aux_info (s\<lparr>info := parsed_info b (info s)\<rparr>)) (\<lambda>s.
        bnd (put_bytes (sb (aux_info s)) 0 (take sizeof_super_block b)) (\<lambda>sb'.
        if first_data_block (aux_info s) \<noteq> le32 b s_first_data_block then Inl Longjmp
        else Inr (s\<lparr>aux_info := (aux_info s)\<lparr>sb := sb'\<rparr>\<rparr>))))))"

section \<open>Special inodes\<close>

text \<open>\<^verbatim>\<open>S_IFREG | S_IRUSR | S_IWUSR\<close>\<close>

abbreviation (input) reserved_inode_mode :: u16 where "reserved_inode_mode \<equiv> 0x8180"

definition append_reserved :: "nat \<Rightarrow> block_allocation \<times> ext4_st \<Rightarrow> (block_allocation \<times> ext4_st) res" where
  "append_reserved i st =
     (case st of (alloc, s) \<Rightarrow>
      bnd (ext4_bg_has_super_block (info s) (sint (of_nat i :: u32))) (\<lambda>has_sb.
      if has_sb
      then append_region alloc (group_start_block s i + 1 + bg_desc_blocks (aux_info s))
             (bg_desc_reserve_blocks (info s)) (of_nat i) s
      else Inr (alloc, s)))"

definition ext4_create_resize_inode :: "ext4_st \<Rightarrow> ext4_st res" where
  "ext4_create_resize_inode s =
     bnd (create_allocation s) (\<lambda>(alloc, s).
     bnd (get_inode 7 s) (\<lambda>(inode, s).
     bnd (for_each append_reserved [0..<unat (groups (aux_info s))] (alloc, s)) (\<lambda>(alloc, s).
     bnd (inode_attach_resize inode alloc s) (\<lambda>(alloc, s).
     bnd (inode_put16 inode i_mode reserved_inode_mode s) (\<lambda>s.
     bnd (inode_put16 inode i_links_count 1 s) (\<lambda>s.
     free_alloc alloc s))))))"

text \<open>\<^verbatim>\<open>htonl\<close> on a little-endian machine: a big-endian store.\<close>

definition be32_bytes :: "u32 \<Rightarrow> bytes" where
  "be32_bytes w = rev (le32_bytes w)"

definition journal_stores :: "fs_info \<Rightarrow> (nat \<times> bytes) list" where
  "journal_stores fi =
    [(0, be32_bytes 0xC03B3998), (4, be32_bytes 4), (12, be32_bytes (block_size fi)),
     (16, be32_bytes (journal_blocks fi)), (64, be32_bytes 1), (20, be32_bytes 1), (24, be32_bytes 1)]"

definition ext4_create_journal_inode :: "ext4_st \<Rightarrow> ext4_st res" where
  "ext4_create_journal_inode s =
     bnd (get_inode 8 s) (\<lambda>(inode, s).
     let len = ucast (journal_blocks (info s) * block_size (info s)) in
     bnd (inode_allocate_data_extents inode len len s) (\<lambda>(journal_data, s).
     case journal_data of
       None \<Rightarrow> error_then (force s) s
     | Some buf \<Rightarrow>
         bnd (inode_put16 inode i_mode reserved_inode_mode s) (\<lambda>s.
         bnd (inode_put16 inode i_links_count 1 s) (\<lambda>s.
         bnd (mem_upd buf (put_all (journal_stores (info s))) s) (\<lambda>s.
         bnd (inode_table_of s (fst inode)) (\<lambda>t.
         if length t < snd inode + i_block + 60 then Inl Undefined
         else bnd (put_bytes (sb (aux_info s)) s_jnl_blocks (take 60 (drop (snd inode + i_block) t))) (\<lambda>sb'.
              Inr (s\<lparr>aux_info := (aux_info s)\<lparr>sb := sb'\<rparr>\<rparr>))))))))"

section \<open>Free counts and checksums\<close>

definition desc_checksum :: "bytes \<Rightarrow> u32 \<Rightarrow> bytes \<Rightarrow> u16 res" where
  "desc_checksum uuid i desc =
     bnd (ext4_crc16 0xFFFF uuid 16) (\<lambda>crc.
     bnd (ext4_crc16 crc (le32_bytes i) 4) (\<lambda>crc.
     ext4_crc16 crc desc 30))"

definition add_sb32 :: "nat \<Rightarrow> u32 \<Rightarrow> ext4_st \<Rightarrow> ext4_st res" where
  "add_sb32 off v s =
     bnd (get32 (sb (aux_info s)) off) (\<lambda>x.
     bnd (put32 (sb (aux_info s)) off (x + v)) (\<lambda>sb'.
     Inr (s\<lparr>aux_info := (aux_info s)\<lparr>sb := sb'\<rparr>\<rparr>)))"

definition update_group :: "nat \<Rightarrow> ext4_st \<Rightarrow> ext4_st res" where
  "update_group i s =
     (let g = of_nat i in
      bnd (get_free_blocks s g) (\<lambda>bg_free_blocks.
      bnd (get_free_inodes s g) (\<lambda>bg_free_inodes.
      bnd (put_desc i [(bg_free_blocks_count, le16_bytes (ucast bg_free_blocks))] s) (\<lambda>s.
      bnd (add_sb32 s_free_blocks_count_lo bg_free_blocks s) (\<lambda>s.
      bnd (put_desc i [(bg_free_inodes_count, le16_bytes (ucast bg_free_inodes))] s) (\<lambda>s.
      bnd (add_sb32 s_free_inodes_count bg_free_inodes s) (\<lambda>s.
      bnd (get_directories s g) (\<lambda>dirs.
      bnd (get16 (bg_desc (aux_info s)) (32 * i + bg_used_dirs_count)) (\<lambda>used.
      bnd (put_desc i [(bg_used_dirs_count, le16_bytes (used + dirs))] s) (\<lambda>s.
      bnd (get_bg_flags s g) (\<lambda>flags.
      bnd (put_desc i [(bg_flags, le16_bytes flags)] s) (\<lambda>s.
      bnd (desc_checksum (drop s_uuid (sb (aux_info s))) g (drop (32 * i) (bg_desc (aux_info s)))) (\<lambda>crc.
      put_desc i [(bg_checksum, le16_bytes crc)] s)))))))))))))"

definition ext4_update_free :: "ext4_st \<Rightarrow> ext4_st res" where
  "ext4_update_free s = for_each update_group [0..<unat (groups (aux_info s))] s"

lemma length_strncpy [simp]: "length (strncpy_bytes n src) = n"
  by (simp add: strncpy_bytes_def)

section \<open>The superblock round trip\<close>

lemma sb_fields:
  assumes run: "put_all (sb_stores fi a uuid) b = Inr b'" and u: "length uuid = 16"
  shows "le32 b' s_inodes_count = inodes_per_group fi * groups a"
    and "le32 b' s_blocks_count_lo = ucast (len_blocks a)"
    and "le32 b' s_first_data_block = first_data_block a"
    and "le32 b' s_log_block_size = log_block_size fi"
    and "le32 b' s_blocks_per_group = blocks_per_group fi"
    and "le32 b' s_inodes_per_group = inodes_per_group fi"
    and "le16 b' s_magic = EXT4_SUPER_MAGIC"
    and "le16 b' s_state = EXT4_VALID_FS"
    and "le16 b' s_inode_size = ucast (inode_size fi)"
    and "le32 b' s_feature_compat = ucast (feat_compat fi)"
    and "le32 b' s_feature_incompat = ucast (feat_incompat fi)"
    and "le32 b' s_feature_ro_compat = ucast (feat_ro_compat fi)"
    and "le16 b' s_reserved_gdt_blocks = ucast (bg_desc_reserve_blocks fi)"
proof -
  note simps = sb_stores_def clear_of_def u
  show "le32 b' s_inodes_count = inodes_per_group fi * groups a" by (rule put_all_le32 [OF run, of 0]) (simp_all add: simps)
  show "le32 b' s_blocks_count_lo = ucast (len_blocks a)" by (rule put_all_le32 [OF run, of 1]) (simp_all add: simps)
  show "le32 b' s_first_data_block = first_data_block a" by (rule put_all_le32 [OF run, of 5]) (simp_all add: simps)
  show "le32 b' s_log_block_size = log_block_size fi" by (rule put_all_le32 [OF run, of 6]) (simp_all add: simps)
  show "le32 b' s_blocks_per_group = blocks_per_group fi" by (rule put_all_le32 [OF run, of 8]) (simp_all add: simps)
  show "le32 b' s_inodes_per_group = inodes_per_group fi" by (rule put_all_le32 [OF run, of 10]) (simp_all add: simps)
  show "le16 b' s_magic = EXT4_SUPER_MAGIC" by (rule put_all_le16 [OF run, of 15]) (simp_all add: simps)
  show "le16 b' s_state = EXT4_VALID_FS" by (rule put_all_le16 [OF run, of 16]) (simp_all add: simps)
  show "le16 b' s_inode_size = ucast (inode_size fi)" by (rule put_all_le16 [OF run, of 26]) (simp_all add: simps)
  show "le32 b' s_feature_compat = ucast (feat_compat fi)" by (rule put_all_le32 [OF run, of 28]) (simp_all add: simps)
  show "le32 b' s_feature_incompat = ucast (feat_incompat fi)" by (rule put_all_le32 [OF run, of 29]) (simp_all add: simps)
  show "le32 b' s_feature_ro_compat = ucast (feat_ro_compat fi)" by (rule put_all_le32 [OF run, of 30]) (simp_all add: simps)
  show "le16 b' s_reserved_gdt_blocks = ucast (bg_desc_reserve_blocks fi)" by (rule put_all_le16 [OF run, of 36]) (simp_all add: simps)
qed

lemma sb_blocks_hi:
  assumes run: "put_all (sb_stores fi a uuid) b = Inr b'"
  shows "le32 b' s_blocks_count_hi = ucast (drop_bit 32 (len_blocks a))"
proof (cases "feat_compat fi AND 4 = 0")
  case True
  then show ?thesis by (intro put_all_le32 [OF run, of 48]) (simp_all add: sb_stores_def clear_of_def)
next
  case False
  then show ?thesis by (intro put_all_le32 [OF run, of 49]) (simp_all add: sb_stores_def clear_of_def)
qed

lemma takeWhile_strncpy:
  assumes "list_all (\<lambda>c. c \<noteq> 0) l" and "length l \<le> n" and "rest = 0 # r"
  shows "takeWhile (\<lambda>c. c \<noteq> 0) (strncpy_bytes n l @ rest) = l"
proof (cases "length l = n")
  case True
  then show ?thesis using assms by (simp add: strncpy_bytes_def takeWhile_append2 list_all_iff)
next
  case False
  then obtain k where "n - length l = Suc k" using assms(2) by (cases "n - length l") auto
  then show ?thesis using assms by (simp add: strncpy_bytes_def takeWhile_append2 list_all_iff)
qed

lemma sb_label:
  assumes run: "put_all (sb_stores fi a uuid) b = Inr b'" and u: "length uuid = 16" and b: "1024 \<le> length b"
    and l: "list_all (\<lambda>c. c \<noteq> 0) (label fi)" "length (label fi) \<le> 16"
  shows "takeWhile (\<lambda>c. c \<noteq> 0) (drop s_volume_name b') = label fi"
proof -
  have n: "take (length (strncpy_bytes 16 (label fi))) (drop s_volume_name b') = strncpy_bytes 16 (label fi)"
    by (rule put_all_read(1) [OF run, of 33]) (simp_all add: sb_stores_def clear_of_def)
  have m: "take (length (replicate 64 (0 :: u8))) (drop 136 b') = replicate 64 0"
    by (rule put_all_read(1) [OF run, of 34]) (simp_all add: sb_stores_def clear_of_def)
  have "drop 136 b' = replicate 64 0 @ drop 200 b'" using m append_take_drop_id [of 64 "drop 136 b'"] by simp
  then have z: "drop 136 b' = 0 # (replicate 63 0 @ drop 200 b')" by (simp add: numeral_eq_Suc)
  have "drop s_volume_name b' = strncpy_bytes 16 (label fi) @ drop 136 b'"
    using n append_take_drop_id [of 16 "drop s_volume_name b'"] by simp
  then show ?thesis using takeWhile_strncpy [OF l z] by simp
qed

lemma ucast16_back: "unat (w :: u32) < 2 ^ 16 \<Longrightarrow> ucast (ucast w :: u16) = w"
  by (simp add: word_unat_eq_iff unsigned_ucast_eq) (simp add: unsigned_take_bit_eq take_bit_nat_eq_self)

lemma ucast32_back: "ucast (ucast (w :: u16) :: u32) = w"
  by (rule bit_word_eqI) (simp add: bit_simps)

lemma join_halves: "push_bit 32 (ucast (ucast (drop_bit 32 w) :: u32)) + ucast (ucast w :: u32) = (w :: u64)"
proof -
  have "push_bit 32 (ucast (ucast (drop_bit 32 w) :: u32)) + ucast (ucast w :: u32) =
      push_bit 32 (ucast (ucast (drop_bit 32 w) :: u32)) OR (ucast (ucast w :: u32) :: u64)"
    by (rule disjunctive_add) (auto simp: bit_simps)
  also have "\<dots> = w" by (rule bit_word_eqI) (auto simp: bit_simps)
  finally show ?thesis .
qed

lemma log_block_size_shift:
  assumes "block_size fi = push_bit k 1024" and "k < 21"
  shows "log_block_size fi = of_nat k"
proof -
  have p: "(2 :: nat) ^ k < 2 ^ 21" using assms(2) by (intro power_strict_increasing) simp_all
  have u: "unat (block_size fi) = 1024 * 2 ^ k"
    unfolding assms(1) unsigned_push_bit_eq using p by (simp add: push_bit_eq_mult take_bit_nat_eq_self)
  have "unat (block_size fi div 1024) = 2 ^ k" using u by (simp add: unat_div)
  then have d: "uint (block_size fi div 1024) = 2 ^ k" by (metis of_nat_numeral of_nat_power uint_nat)
  have s: "0 \<le> log_2 (2 ^ k) \<and> 2 ^ nat (log_2 (2 ^ k)) \<le> (2 :: int) ^ k \<and> (2 :: int) ^ k < 2 ^ (nat (log_2 (2 ^ k)) + 1)"
    by (rule log_2_spec) simp
  then have "nat (log_2 (2 ^ k)) \<le> k" by simp
  moreover have "(2 :: int) ^ k < 2 ^ (nat (log_2 (2 ^ k)) + 1)" using s by blast
  then have "k < nat (log_2 (2 ^ k)) + 1" by (rule power_less_imp_less_exp [rotated]) simp
  ultimately have "log_2 (2 ^ k) = int k" using s by linarith
  then show ?thesis by (simp add: log_block_size_def d)
qed

lemma generate_uuid_total:
  assumes "length stack = 64" and "length namesp + length name + 72 < 2 ^ 29"
  obtains uuid where "generate_uuid stack namesp name = Inr uuid" "length uuid = 16"
  using that sha1_hash_digest [OF assms]
  by (simp add: generate_uuid_def Let_def uuid_store_def)

lemma push_1024_nonzero:
  assumes "k < 21"
  shows "push_bit k 1024 \<noteq> (0 :: u32)"
proof -
  have p: "(2 :: nat) ^ k < 2 ^ 21" using assms by (intro power_strict_increasing) simp_all
  have "unat (push_bit k 1024 :: u32) = 1024 * 2 ^ k"
    unfolding unsigned_push_bit_eq using p by (simp add: push_bit_eq_mult take_bit_nat_eq_self)
  then show ?thesis by auto
qed

text \<open>What the loop over the groups leaves alone: the parameters, the superblock itself and the sizes of
  the tables.\<close>

definition filling :: "ext4_st \<Rightarrow> ext4_st \<Rightarrow> bool" where
  "filling s t \<longleftrightarrow> info t = info s \<and> oom t = oom s \<and> sb (aux_info t) = sb (aux_info s) \<and>
     length (backup_sb (aux_info t)) = length (backup_sb (aux_info s)) \<and>
     length (bg_desc (aux_info t)) = length (bg_desc (aux_info s)) \<and>
     first_data_block (aux_info t) = first_data_block (aux_info s) \<and>
     len_blocks (aux_info t) = len_blocks (aux_info s) \<and> groups (aux_info t) = groups (aux_info s)"

lemma put_desc_filling:
  assumes "\<forall>(off, src) \<in> set sts. off + length src \<le> 32" and "32 * i + 32 \<le> length (bg_desc (aux_info s))"
  obtains s' where "put_desc i sts s = Inr s'" "filling s s'"
proof -
  have "list_all (\<lambda>(off, src). off + length src \<le> length (bg_desc (aux_info s)))
      (map (\<lambda>(off, src). (32 * i + off, src)) sts)"
    using assms by (fastforce simp: list_all_iff)
  then obtain d where d: "put_all (map (\<lambda>(off, src). (32 * i + off, src)) sts) (bg_desc (aux_info s)) = Inr d"
    using put_all_ok by blast
  then show ?thesis using that put_all_length [OF d] by (simp add: put_desc_def filling_def)
qed

lemma queue_backup_sb_filling:
  assumes "\<forall>n. \<not> oom s n" and "i < length (backup_sb (aux_info s))" and "1024 \<le> length (sb (aux_info s))"
  obtains s' where "queue_backup_sb i s = Inr s'" "filling s s'"
  using that assms by (simp add: queue_backup_sb_def put16_def put_bytes_def sparse_file_add_def filling_def)

lemma fill_in_group_filling:
  assumes "\<forall>n. \<not> oom s n" and "i < length (backup_sb (aux_info s))" and "1024 \<le> length (sb (aux_info s))"
    and "32 * i + 32 \<le> length (bg_desc (aux_info s))"
  obtains s' where "fill_in_group i s = Inr s'" "filling s s'"
proof -
  define has where "has = holds_super (info s) (sint (of_nat i :: u32))"
  obtain t where t: "(if has \<and> i \<noteq> 0 then queue_backup_sb i s else Inr s) = Inr t" "filling s t"
  proof (cases "has \<and> i \<noteq> 0")
    case True
    obtain t where "queue_backup_sb i s = Inr t" "filling s t" using queue_backup_sb_filling [OF assms(1-3)] .
    then show ?thesis using that [of t] True by simp
  next
    case False
    then show ?thesis using that [of s] by (auto simp: filling_def)
  qed
  define u where "u = (if has then sparse_file_add (Add_Data Bg_Desc_Buf (bg_desc_blocks (aux_info t) * block_size (info t))
      (group_start_block t i + 1)) t else t)"
  have u: "filling s u" "aux_info u = aux_info t" using t(2) by (auto simp: u_def filling_def sparse_file_add_def)
  have sb: "1024 \<le> length (sb (aux_info t))" "32 * i + 32 \<le> length (bg_desc (aux_info u))"
    using t(2) u assms(3,4) by (auto simp: filling_def)
  define st where "st = group_start_block u i + (if has then 1 + bg_desc_blocks (aux_info t) + bg_desc_reserve_blocks (info t) else 0)"
  define sts where "sts = [(0, le32_bytes st), (4, le32_bytes (st + 1)), (8, le32_bytes (st + 2)),
      (bg_free_blocks_count, le16_bytes (ucast (le32 (sb (aux_info t)) s_blocks_per_group))),
      (bg_free_inodes_count, le16_bytes (ucast (le32 (sb (aux_info t)) s_inodes_per_group))),
      (bg_used_dirs_count, le16_bytes 0)]"
  have sz: "\<forall>(off, src) \<in> set sts. off + length src \<le> 32" by (simp add: sts_def)
  obtain s' where s': "put_desc i sts u = Inr s'" "filling u s'" using put_desc_filling [OF sz sb(2)] .
  have "fill_in_group i s = Inr s'"
    using s'(1) sb(1) t(1) by (simp add: fill_in_group_def has_super_block_iff Let_def get32_def
        flip: has_def u_def st_def sts_def)
  moreover have "filling s s'" using u(1) s'(2) by (simp add: filling_def)
  ultimately show ?thesis using that by blast
qed

lemma fill_in_groups_filling:
  assumes "\<forall>n. \<not> oom s n" and "n \<le> length (backup_sb (aux_info s))" and "1024 \<le> length (sb (aux_info s))"
    and "32 * n \<le> length (bg_desc (aux_info s))"
  shows "\<exists>s'. for_each fill_in_group [0..<n] s = Inr s' \<and> filling s s'"
proof (rule for_each_invariant)
  show "filling s s" by (simp add: filling_def)
next
  fix dn i rest and t :: ext4_st
  assume sp: "[0..<n] = dn @ i # rest" and f: "filling s t"
  have "i \<in> set [0..<n]" unfolding sp by simp
  then have i: "i < n" by simp
  obtain t' where "fill_in_group i t = Inr t'" "filling t t'"
    by (rule fill_in_group_filling [of t i]) (use assms f i in \<open>auto simp: filling_def\<close>)
  then show "\<exists>s'. fill_in_group i t = Inr s' \<and> filling s s'" using f by (auto simp: filling_def)
qed

text \<open>Reading back the bytes that the assignments of \<^verbatim>\<open>ext4_fill_in_sb\<close> leave.\<close>

lemma parse_filled_sb:
  assumes fill: "put_all (sb_stores fi a uuid) b = Inr b'" and uuid: "length uuid = 16" and len: "1024 \<le> length b"
    and bs: "block_size fi = push_bit k 1024" "k < 21"
    and small: "unat (inode_size fi) < 2 ^ 16" "unat (bg_desc_reserve_blocks fi) < 2 ^ 16"
    and lab: "list_all (\<lambda>c. c \<noteq> 0) (label fi)" "length (label fi) \<le> 16"
    and first: "first_data_block a = fs_first_data_block fi"
    and fi': "fi' = fi\<lparr>info_len := ucast (block_size fi) * len_blocks a, info_inodes := inodes_per_group fi * groups a,
                   journal_blocks := journal_blocks (info s), no_journal := no_journal (info s)\<rparr>"
    and aux: "ext4_create_fs_aux_info (s\<lparr>info := fi'\<rparr>) = Inr s1"
  shows "\<exists>c. ext4_parse_sb b' s = Inr (s1\<lparr>aux_info := (aux_info s1)\<lparr>sb := c\<rparr>\<rparr>) \<and> take 1024 c = take 1024 b' \<and>
    info s1 = fi'"
proof -
  note f = sb_fields [OF fill uuid] sb_blocks_hi [OF fill] sb_label [OF fill uuid len lab] log_block_size_shift [OF bs]
  have uk: "unat (of_nat k :: u32) = k" using bs(2) by (simp add: unat_of_nat)
  have info: "parsed_info b' (info s) = fi'"
    unfolding fi' by (rule fs_info.equality)
      (simp_all add: parsed_info_def Let_def f uk bs(1) [symmetric] ucast16_back [OF small(1)] ucast16_back [OF small(2)]
        ucast32_back join_halves)
  have lb: "1024 \<le> length b'" using put_all_length [OF fill] len by simp
  have nb: "\<not> 21 \<le> le32 b' s_log_block_size" using bs(2) uk by (simp add: f word_le_nat_alt)
  have s1: "info s1 = fi'" "first_data_block (aux_info s1) = fs_first_data_block fi'" "bgs (aux_info s1) = bgs (aux_info s)"
    "length (sb (aux_info s1)) = unat (block_size fi')"
    using aux by (auto simp: ext4_create_fs_aux_info_def Let_def outcome_simps split: if_splits)
  have fb: "fs_first_data_block fi' = fs_first_data_block fi" by (simp add: fs_first_data_block_def fi')
  have bl: "1024 \<le> unat (block_size fi')"
  proof -
    have p: "(2 :: nat) ^ k < 2 ^ 21" using bs(2) by (intro power_strict_increasing) simp_all
    have "unat (block_size fi) = 1024 * 2 ^ k"
      unfolding bs(1) unsigned_push_bit_eq using p by (simp add: push_bit_eq_mult take_bit_nat_eq_self)
    then show ?thesis by (simp add: fi')
  qed
  let ?c = "blit (sb (aux_info s1)) 0 (take 1024 b')"
  have "ext4_parse_sb b' s = Inr (s1\<lparr>aux_info := (aux_info s1)\<lparr>sb := ?c\<rparr>\<rparr>)"
    using lb nb info aux s1 fb first bl f(3) by (simp add: ext4_parse_sb_def f(7,8) put_bytes_def)
  moreover have "take 1024 ?c = take 1024 b'" using lb by (simp add: blit_def)
  ultimately show ?thesis using s1 by blast
qed

text \<open>
  C7. The superblock that \<^verbatim>\<open>ext4_fill_in_sb\<close> makes is accepted by
  \<^verbatim>\<open>ext4_parse_sb\<close>, in whatever state the reader is. The reader gets the block size, the
  blocks and inodes per group, the inode size, the three feature sets, the number of reserved
  descriptor blocks and the label back unchanged; its length and its number of inodes are those of
  the geometry that was written (the blocks and groups that were kept), and its journal settings stay
  its own, for they are not in the superblock. Its geometry is the one
  \<^verbatim>\<open>ext4_create_fs_aux_info\<close> computes from these parameters, and the copy it keeps is the
  superblock it read.
\<close>

theorem superblock_round_trip:
  assumes "length stack = 64" and "\<forall>n. \<not> oom s n"
    and "1024 \<le> length (sb (aux_info s))" and "unat (groups (aux_info s)) \<le> length (backup_sb (aux_info s))"
    and "32 * unat (groups (aux_info s)) \<le> length (bg_desc (aux_info s))"
    and bs: "block_size (info s) = push_bit k 1024" "k < 21" and bpg: "blocks_per_group (info s) \<noteq> 0"
    and small: "unat (inode_size (info s)) < 2 ^ 16" "unat (bg_desc_reserve_blocks (info s)) < 2 ^ 16"
    and lab: "list_all (\<lambda>c. c \<noteq> 0) (label (info s))" "length (label (info s)) \<le> 16"
    and first: "first_data_block (aux_info s) = fs_first_data_block (info s)"
    and reader: "\<forall>n. \<not> oom t n"
  shows "\<exists>s' t' t1. ext4_fill_in_sb stack s = Inr s' \<and> ext4_parse_sb (sb (aux_info s')) t = Inr t' \<and>
    info t' = (info s)\<lparr>info_len := ucast (block_size (info s)) * len_blocks (aux_info s),
                      info_inodes := inodes_per_group (info s) * groups (aux_info s),
                      journal_blocks := journal_blocks (info t), no_journal := no_journal (info t)\<rparr> \<and>
    ext4_create_fs_aux_info (t\<lparr>info := info t'\<rparr>) = Inr t1 \<and>
    first_data_block (aux_info t') = first_data_block (aux_info s) \<and>
    groups (aux_info t') = groups (aux_info t1) \<and> len_blocks (aux_info t') = len_blocks (aux_info t1) \<and>
    take 1024 (sb (aux_info t')) = take 1024 (sb (aux_info s'))"
proof -
  obtain uuid where uuid: "generate_uuid stack uuid_namespace (label (info s)) = Inr uuid" "length uuid = 16"
    by (rule generate_uuid_total [OF assms(1), of uuid_namespace "label (info s)"])
      (use lab(2) in \<open>simp_all add: uuid_namespace_def\<close>)
  obtain b where b: "put_all (sb_stores (info s) (aux_info s) uuid) (sb (aux_info s)) = Inr b"
  proof -
    have "list_all (\<lambda>(off, src). off + length src \<le> length (sb (aux_info s))) (sb_stores (info s) (aux_info s) uuid)"
      using assms(3) uuid(2) by (simp add: sb_stores_def)
    then show ?thesis using that put_all_ok by blast
  qed
  obtain s' where s': "for_each fill_in_group [0..<unat (groups (aux_info s))] (s\<lparr>aux_info := (aux_info s)\<lparr>sb := b\<rparr>\<rparr>) = Inr s'"
    "filling (s\<lparr>aux_info := (aux_info s)\<lparr>sb := b\<rparr>\<rparr>) s'"
    using fill_in_groups_filling [of "s\<lparr>aux_info := (aux_info s)\<lparr>sb := b\<rparr>\<rparr>" "unat (groups (aux_info s))"]
      put_all_length [OF b] assms(2-5) by auto
  define fi' where "fi' = (info s)\<lparr>info_len := ucast (block_size (info s)) * len_blocks (aux_info s),
    info_inodes := inodes_per_group (info s) * groups (aux_info s),
    journal_blocks := journal_blocks (info t), no_journal := no_journal (info t)\<rparr>"
  obtain t1 where t1: "ext4_create_fs_aux_info (t\<lparr>info := fi'\<rparr>) = Inr t1"
    using create_fs_aux_info_ok [of "t\<lparr>info := fi'\<rparr>"] bs bpg reader push_1024_nonzero [OF bs(2)] by (auto simp: fi'_def)
  obtain c where c: "ext4_parse_sb b t = Inr (t1\<lparr>aux_info := (aux_info t1)\<lparr>sb := c\<rparr>\<rparr>)" "take 1024 c = take 1024 b" "info t1 = fi'"
    using parse_filled_sb [OF b uuid(2) assms(3) bs small lab first fi'_def t1] by blast
  have "ext4_fill_in_sb stack s = Inr s'" using uuid(1) b s'(1) by (simp add: ext4_fill_in_sb_def)
  moreover have "sb (aux_info s') = b" using s'(2) by (simp add: filling_def)
  moreover have "first_data_block (aux_info t1) = first_data_block (aux_info s)"
    using aux_info_fields(1) [OF t1] first by (simp add: fs_first_data_block_def fi'_def)
  ultimately show ?thesis using c t1 fi'_def
    by (intro exI [of _ s'] exI [of _ "t1\<lparr>aux_info := (aux_info t1)\<lparr>sb := c\<rparr>\<rparr>"] exI [of _ t1]) simp
qed

text \<open>The groups of a filesystem of 40000 blocks, with room for two descriptors.\<close>

definition filled_st :: ext4_st where
  "filled_st = (start_st sample_fs_info)\<lparr>aux_info := empty_aux\<lparr>len_blocks := 40000, groups := 2,
     sb := replicate 4096 0, backup_sb := [None, None], bg_desc := replicate 4096 0\<rparr>\<rparr>"

theorem superblock_round_trip_witness:
  "\<exists>s' t'. ext4_fill_in_sb (replicate 64 7) filled_st = Inr s' \<and>
     ext4_parse_sb (sb (aux_info s')) (start_st one_k_fs_info) = Inr t' \<and> block_size (info t') = 4096 \<and>
     blocks_per_group (info t') = 32768 \<and> inodes_per_group (info t') = 8192 \<and> info_len (info t') = 163840000 \<and>
     info_inodes (info t') = 16384 \<and> take 1024 (sb (aux_info t')) = take 1024 (sb (aux_info s'))"
proof -
  obtain s' t' where r: "ext4_fill_in_sb (replicate 64 7) filled_st = Inr s'"
    "ext4_parse_sb (sb (aux_info s')) (start_st one_k_fs_info) = Inr t'"
    "info t' = (info filled_st)\<lparr>info_len := ucast (block_size (info filled_st)) * len_blocks (aux_info filled_st),
       info_inodes := inodes_per_group (info filled_st) * groups (aux_info filled_st),
       journal_blocks := journal_blocks (info (start_st one_k_fs_info)), no_journal := no_journal (info (start_st one_k_fs_info))\<rparr>"
    "take 1024 (sb (aux_info t')) = take 1024 (sb (aux_info s'))"
    using superblock_round_trip [of "replicate 64 7" filled_st 2 "start_st one_k_fs_info"]
    by (auto simp: filled_st_def sample_fs_info_def empty_aux_def fs_first_data_block_def push_bit_eq_mult)
  then show ?thesis by (simp add: filled_st_def sample_fs_info_def)
qed

section \<open>Descriptors after the counts are updated\<close>

definition desc_slice :: "nat \<Rightarrow> bytes \<Rightarrow> bytes" where
  "desc_slice i d = take 32 (drop (32 * i) d)"

lemma length_desc_slice [simp]: "32 * i + 32 \<le> length d \<Longrightarrow> length (desc_slice i d) = 32"
  by (simp add: desc_slice_def)

lemma blit_slice:
  assumes "32 * i + 32 \<le> length d" and "off + length src \<le> 32"
  shows "blit d (32 * i + off) src = blit d (32 * i) (blit (desc_slice i d) off src)"
proof (rule nth_equalityI)
  show "length (blit d (32 * i + off) src) = length (blit d (32 * i) (blit (desc_slice i d) off src))"
    using assms by (simp add: length_blit)
  fix k assume "k < length (blit d (32 * i + off) src)"
  then have k: "k < length d" using assms by (simp add: length_blit)
  show "blit d (32 * i + off) src ! k = blit d (32 * i) (blit (desc_slice i d) off src) ! k"
  proof (cases "32 * i \<le> k \<and> k < 32 * i + 32")
    case True
    then have "k - 32 * i < 32" "32 * i \<le> k" by linarith+
    then have "desc_slice i d ! (k - 32 * i) = d ! k" using assms by (simp add: desc_slice_def)
    then show ?thesis using True assms k by (auto simp: nth_blit length_blit)
  next
    case False
    then show ?thesis using assms k by (auto simp: nth_blit length_blit)
  qed
qed

lemma slice_blit_same: "32 * i + 32 \<le> length d \<Longrightarrow> length x = 32 \<Longrightarrow> desc_slice i (blit d (32 * i) x) = x"
  using blit_inside [of "32 * i" x d] by (simp add: desc_slice_def)

lemma slice_blit_other:
  assumes "32 * i + 32 \<le> length d" "32 * j + 32 \<le> length d" "length x = 32" "i \<noteq> j"
  shows "desc_slice i (blit d (32 * j) x) = desc_slice i d"
proof (rule nth_equalityI)
  show l: "length (desc_slice i (blit d (32 * j) x)) = length (desc_slice i d)" using assms by (simp add: length_blit)
  fix k assume "k < length (desc_slice i (blit d (32 * j) x))"
  then have k: "k < 32" using l assms by simp
  have "32 * i + k < 32 * j \<or> 32 * j + 32 \<le> 32 * i + k" using k assms(4) by linarith
  then show "desc_slice i (blit d (32 * j) x) ! k = desc_slice i d ! k"
    using assms k by (auto simp: desc_slice_def nth_blit length_blit)
qed

lemma blit_blit_same: "at + length x \<le> length d \<Longrightarrow> length y = length x \<Longrightarrow> blit (blit d at x) at y = blit d at y"
  by (simp add: blit_def)

definition with_desc :: "nat \<Rightarrow> bytes \<Rightarrow> ext4_st \<Rightarrow> ext4_st" where
  "with_desc i x s = s\<lparr>aux_info := (aux_info s)\<lparr>bg_desc := blit (bg_desc (aux_info s)) (32 * i) x\<rparr>\<rparr>"

lemma put_desc_one:
  assumes "32 * i + 32 \<le> length (bg_desc (aux_info s))" and "off + length src \<le> 32"
  shows "put_desc i [(off, src)] s = Inr (with_desc i (blit (desc_slice i (bg_desc (aux_info s))) off src) s)"
  using assms blit_slice [OF assms] by (simp add: put_desc_def put_bytes_def with_desc_def)

lemma add_sb32_ok:
  assumes "off + 4 \<le> length (sb (aux_info s))"
  shows "add_sb32 off v s = Inr (s\<lparr>aux_info := (aux_info s)\<lparr>sb :=
     blit (sb (aux_info s)) off (le32_bytes (le32 (sb (aux_info s)) off + v))\<rparr>\<rparr>)"
  using assms by (simp add: add_sb32_def get32_def put32_def put_bytes_def)

text \<open>The checksum as a function of the bytes it covers.\<close>

definition desc_crc :: "bytes \<Rightarrow> u32 \<Rightarrow> bytes \<Rightarrow> u16" where
  "desc_crc uuid i desc = foldl crc_step (foldl crc_step (foldl crc_step 0xFFFF (take 16 uuid)) (le32_bytes i)) (take 30 desc)"

lemma desc_checksum_ok:
  assumes "16 \<le> length uuid" and "30 \<le> length desc"
  shows "desc_checksum uuid i desc = Inr (desc_crc uuid i desc)"
  using assms ext4_crc16_loop_foldl [of 16 uuid] ext4_crc16_loop_foldl [of 30 desc] ext4_crc16_loop_foldl [of 4 "le32_bytes i"]
  by (simp add: desc_checksum_def desc_crc_def ext4_crc16_def)

definition updated_desc :: "block_group_info \<Rightarrow> bytes \<Rightarrow> u32 \<Rightarrow> bytes \<Rightarrow> bytes" where
  "updated_desc bg uuid g x =
     (let x2 = blit (blit x bg_free_blocks_count (le16_bytes (ucast (bgi_free_blocks bg))))
                 bg_free_inodes_count (le16_bytes (ucast (bgi_free_inodes bg)));
          x4 = blit (blit x2 bg_used_dirs_count (le16_bytes (le16 x2 bg_used_dirs_count + bgi_used_dirs bg)))
                 bg_flags (le16_bytes (bgi_flags bg)) in
      blit x4 bg_checksum (le16_bytes (desc_crc uuid g x4)))"

text \<open>A descriptor that agrees with its group and carries its checksum.\<close>

definition good_desc :: "block_group_info \<Rightarrow> bytes \<Rightarrow> u32 \<Rightarrow> bytes \<Rightarrow> bool" where
  "good_desc bg uuid g x \<longleftrightarrow> le16 x bg_free_blocks_count = ucast (bgi_free_blocks bg) \<and>
     le16 x bg_free_inodes_count = ucast (bgi_free_inodes bg) \<and> le16 x bg_flags = bgi_flags bg \<and>
     desc_checksum uuid g x = Inr (le16 x bg_checksum)"

lemma updated_desc_good:
  assumes "length x = 32" and "16 \<le> length uuid"
  shows "good_desc bg uuid g (updated_desc bg uuid g x)" and "length (updated_desc bg uuid g x) = 32"
proof -
  show l: "length (updated_desc bg uuid g x) = 32" using assms by (simp add: updated_desc_def Let_def length_blit)
  have crc: "desc_crc uuid g (blit y bg_checksum z) = desc_crc uuid g y" if "length y = 32" "length z = 2" for y z
    using that by (simp add: desc_crc_def blit_def)
  show "good_desc bg uuid g (updated_desc bg uuid g x)"
    using assms l by (simp add: good_desc_def desc_checksum_ok) (simp add: updated_desc_def Let_def crc reads_over_writes)
qed

definition updated_sb :: "block_group_info \<Rightarrow> bytes \<Rightarrow> bytes" where
  "updated_sb bg b =
     (let b1 = blit b s_free_blocks_count_lo (le32_bytes (le32 b s_free_blocks_count_lo + bgi_free_blocks bg)) in
      blit b1 s_free_inodes_count (le32_bytes (le32 b1 s_free_inodes_count + bgi_free_inodes bg)))"

lemma updated_sb_uuid:
  assumes "1024 \<le> length b"
  shows "drop s_uuid (updated_sb bg b) = drop s_uuid b" and "length (updated_sb bg b) = length b"
proof -
  show l: "length (updated_sb bg b) = length b" using assms by (simp add: updated_sb_def Let_def length_blit)
  show "drop s_uuid (updated_sb bg b) = drop s_uuid b"
    using assms by (simp add: updated_sb_def Let_def blit_def min_def)
qed

lemma update_group_ok:
  assumes g: "i < length (bgs (aux_info s))" "i < 2 ^ 32" and b: "1024 \<le> length (sb (aux_info s))"
    and d: "32 * i + 32 \<le> length (bg_desc (aux_info s))"
  shows "update_group i s = Inr (s\<lparr>aux_info := (aux_info s)\<lparr>
     sb := updated_sb (bgs (aux_info s) ! i) (sb (aux_info s)),
     bg_desc := blit (bg_desc (aux_info s)) (32 * i) (updated_desc (bgs (aux_info s) ! i)
        (drop s_uuid (sb (aux_info s))) (of_nat i) (desc_slice i (bg_desc (aux_info s))))\<rparr>\<rparr>)"
proof -
  let ?bg = "bgs (aux_info s) ! i"
  have u: "unat (of_nat i :: u32) = i" using g(2) by (simp add: unat_of_nat)
  have at: "bg_at t (of_nat i) = Inr (bgs (aux_info t) ! i)" if "bgs (aux_info t) = bgs (aux_info s)" for t
    using that g u by (simp add: bg_at_def)
  have usb: "drop s_uuid (blit (blit (sb (aux_info s)) 12 x) 16 y) = drop s_uuid (sb (aux_info s))"
    if "length x = 4" "length y = 4" for x y
    using that b by (simp add: blit_def min_def)
  have rd: "le16 (blit D (32 * i) x) (32 * i + 16) = le16 x 16" if "length D = length (bg_desc (aux_info s))" "length x = 32" for D x
    using that d le16_inside [of "32 * i" x D 16] by simp
  have crc: "desc_crc uuid g (drop (32 * i) (blit D (32 * i) x)) = desc_crc uuid g x"
    if "length D = length (bg_desc (aux_info s))" "length x = 32" for D x uuid g
    using that d by (simp add: desc_crc_def blit_def)
  show ?thesis
    unfolding update_group_def Let_def get_free_blocks_def get_free_inodes_def get_directories_def get_bg_flags_def
      updated_sb_def updated_desc_def
    using b d
    by (simp add: at put_desc_one add_sb32_ok get16_def length_blit desc_checksum_ok usb with_desc_def
        slice_blit_same blit_blit_same rd crc)
qed

lemma updated_sb_counts:
  assumes "1024 \<le> length b"
  shows "le32 (updated_sb bg b) s_free_blocks_count_lo = le32 b s_free_blocks_count_lo + bgi_free_blocks bg"
    and "le32 (updated_sb bg b) s_free_inodes_count = le32 b s_free_inodes_count + bgi_free_inodes bg"
  using assms by (simp_all add: updated_sb_def Let_def reads_over_writes)

text \<open>
  C8. \<^verbatim>\<open>ext4_update_free\<close> leaves every group descriptor in agreement with the allocator and
  with a checksum that verifies, and adds the free blocks and inodes of all groups to the totals of
  the superblock.
\<close>

theorem update_free_descriptors:
  assumes G: "length (bgs (aux_info s)) = unat (groups (aux_info s))" and b: "1024 \<le> length (sb (aux_info s))"
    and d: "32 * unat (groups (aux_info s)) \<le> length (bg_desc (aux_info s))"
  shows "\<exists>s'. ext4_update_free s = Inr s' \<and>
    (\<forall>i < unat (groups (aux_info s)). good_desc (bgs (aux_info s) ! i) (drop s_uuid (sb (aux_info s')))
        (of_nat i) (desc_slice i (bg_desc (aux_info s')))) \<and>
    le32 (sb (aux_info s')) s_free_blocks_count_lo =
      le32 (sb (aux_info s)) s_free_blocks_count_lo + sum_list (map bgi_free_blocks (bgs (aux_info s))) \<and>
    le32 (sb (aux_info s')) s_free_inodes_count =
      le32 (sb (aux_info s)) s_free_inodes_count + sum_list (map bgi_free_inodes (bgs (aux_info s)))"
proof -
  let ?G = "unat (groups (aux_info s))" and ?u = "drop s_uuid (sb (aux_info s))"
  define P where "P dn t \<longleftrightarrow> bgs (aux_info t) = bgs (aux_info s) \<and> length (sb (aux_info t)) = length (sb (aux_info s)) \<and>
      drop s_uuid (sb (aux_info t)) = ?u \<and> length (bg_desc (aux_info t)) = length (bg_desc (aux_info s)) \<and>
      (\<forall>i \<in> set dn. good_desc (bgs (aux_info s) ! i) ?u (of_nat i) (desc_slice i (bg_desc (aux_info t)))) \<and>
      le32 (sb (aux_info t)) s_free_blocks_count_lo = le32 (sb (aux_info s)) s_free_blocks_count_lo +
        sum_list (map (\<lambda>i. bgi_free_blocks (bgs (aux_info s) ! i)) dn) \<and>
      le32 (sb (aux_info t)) s_free_inodes_count = le32 (sb (aux_info s)) s_free_inodes_count +
        sum_list (map (\<lambda>i. bgi_free_inodes (bgs (aux_info s) ! i)) dn)" for dn and t :: ext4_st
  have "\<exists>s'. for_each update_group [0..<?G] s = Inr s' \<and> P [0..<?G] s'"
  proof (rule for_each_invariant)
    show "P [] s" by (simp add: P_def)
  next
    fix dn j rest and t :: ext4_st
    assume sp: "[0..<?G] = dn @ j # rest" and P: "P dn t"
    have "distinct (dn @ j # rest)" "set (dn @ j # rest) = {..<?G}"
      using arg_cong [OF sp, of distinct] arg_cong [OF sp, of set] by (simp_all add: atLeast0LessThan)
    then have j: "j < ?G" "\<forall>i \<in> set dn. i < ?G" "j \<notin> set dn" by auto
    have dj: "32 * i + 32 \<le> length (bg_desc (aux_info t))" if "i < ?G" for i
      using that d P by (simp add: P_def)
    let ?x = "updated_desc (bgs (aux_info s) ! j) ?u (of_nat j) (desc_slice j (bg_desc (aux_info t)))"
    let ?t = "t\<lparr>aux_info := (aux_info t)\<lparr>sb := updated_sb (bgs (aux_info s) ! j) (sb (aux_info t)),
       bg_desc := blit (bg_desc (aux_info t)) (32 * j) ?x\<rparr>\<rparr>"
    have bt: "1024 \<le> length (sb (aux_info t))" using b P by (simp add: P_def)
    have run: "update_group j t = Inr ?t"
      using update_group_ok [of j t] j(1) bt dj [OF j(1)] G P unat_u32 [of "groups (aux_info s)"] by (simp add: P_def)
    have ul: "16 \<le> length ?u" using b by simp
    note x = updated_desc_good [OF length_desc_slice [OF dj [OF j(1)]] ul, of "bgs (aux_info s) ! j" "of_nat j"]
    have "good_desc (bgs (aux_info s) ! i) ?u (of_nat i) (desc_slice i (blit (bg_desc (aux_info t)) (32 * j) ?x))"
      if i: "i \<in> set (dn @ [j])" for i
    proof (cases "i = j")
      case True
      then show ?thesis using slice_blit_same [OF dj [OF j(1)] x(2)] x(1) by simp
    next
      case False
      then have "i \<in> set dn" "i < ?G" using i j by auto
      then show ?thesis using slice_blit_other [OF dj dj [OF j(1)] x(2) False] P by (simp add: P_def)
    qed
    then have "P (dn @ [j]) ?t"
      using P x(2) dj [OF j(1)] updated_sb_uuid [OF bt] updated_sb_counts [OF bt]
      by (simp add: P_def length_blit)
    then show "\<exists>s'. update_group j t = Inr s' \<and> P (dn @ [j]) s'" using run by blast
  qed
  then obtain s' where s': "for_each update_group [0..<?G] s = Inr s'" "P [0..<?G] s'" by blast
  have "map (\<lambda>i. f (bgs (aux_info s) ! i)) [0..<?G] = map f (bgs (aux_info s))" for f :: "block_group_info \<Rightarrow> u32"
    using G by (intro nth_equalityI) simp_all
  then show ?thesis using s' by (auto simp: ext4_update_free_def P_def)
qed

text \<open>Two groups with their descriptors still empty.\<close>

definition two_groups_st :: ext4_st where
  "two_groups_st = (start_st sample_fs_info)\<lparr>aux_info := empty_aux\<lparr>groups := 2,
     bgs := [zero_bg\<lparr>bgi_free_blocks := 100, bgi_free_inodes := 7\<rparr>, zero_bg\<lparr>bgi_free_blocks := 20\<rparr>],
     sb := replicate 1024 0, bg_desc := replicate 64 0\<rparr>\<rparr>"

theorem update_free_descriptors_witness:
  "\<exists>s'. ext4_update_free two_groups_st = Inr s' \<and> le32 (sb (aux_info s')) s_free_blocks_count_lo = 120 \<and>
     le16 (desc_slice 1 (bg_desc (aux_info s'))) bg_free_blocks_count = 20"
proof -
  have l: "le32 (replicate 1024 0) s_free_blocks_count_lo = 0" by (simp add: le32_def)
  obtain s' where r: "ext4_update_free two_groups_st = Inr s'"
    "\<forall>i < unat (groups (aux_info two_groups_st)). good_desc (bgs (aux_info two_groups_st) ! i) (drop s_uuid (sb (aux_info s')))
        (of_nat i) (desc_slice i (bg_desc (aux_info s')))"
    "le32 (sb (aux_info s')) s_free_blocks_count_lo =
      le32 (sb (aux_info two_groups_st)) s_free_blocks_count_lo + sum_list (map bgi_free_blocks (bgs (aux_info two_groups_st)))"
    using update_free_descriptors [of two_groups_st] by (auto simp: two_groups_st_def)
  have "good_desc (bgs (aux_info two_groups_st) ! 1) (drop s_uuid (sb (aux_info s'))) 1 (desc_slice 1 (bg_desc (aux_info s')))"
    using r(2) [THEN spec, of 1] by (simp add: two_groups_st_def)
  then show ?thesis using r l by (simp add: good_desc_def two_groups_st_def)
qed

end
