(* ===== verification/Directory.thy ===== *)
theory Directory
  imports Superblock
begin

text \<open>
  Directories of \<^verbatim>\<open>contents.c\<close>: the size a list of entries needs, writing one entry behind
  another without crossing a block boundary, and building a directory inode. The reader
  \<open>read_dir\<close> walks a directory the way the filesystem does; the theorem says that it finds
  exactly the entries written, in order, and that the internal error of \<^verbatim>\<open>make_directory\<close>
  cannot occur.
\<close>

section \<open>Operations\<close>

text \<open>
  \<^verbatim>\<open>struct dentry\<close> of \<^verbatim>\<open>contents.h\<close>. The field \<^verbatim>\<open>inode\<close> points at the inode
  number inside the directory's data: the buffer and the offset.
\<close>

record dentry =
  d_path :: bytes
  d_full_path :: "bytes option"
  d_filename :: bytes
  d_link :: "bytes option"
  d_size :: u32
  d_file_type :: u8
  d_mode :: u16
  d_uid :: u16
  d_gid :: u16
  d_inode :: "(nat \<times> nat) option"
  d_mtime :: u32
  d_secon :: "bytes option"
  d_capabilities :: u64

definition dentry_len :: "bytes \<Rightarrow> u32" where
  "dentry_len name = 8 + ALIGN (of_nat (length name)) 4"

fun dentry_size_loop :: "u32 \<Rightarrow> u32 \<Rightarrow> bytes list \<Rightarrow> u32" where
  "dentry_size_loop bs len [] = len"
| "dentry_size_loop bs len (name # names) =
     dentry_size_loop bs
       ((if bs < len mod bs + dentry_len name then len + (bs - len mod bs) else len) + dentry_len name) names"

definition dentry_size :: "u32 \<Rightarrow> dentry list \<Rightarrow> u32" where
  "dentry_size bs dentries = dentry_size_loop bs 24 (map d_filename dentries)"

text \<open>The name length is cut to 8 bits and the record length computed from it.\<close>

definition dentry_rec_len :: "bytes \<Rightarrow> u16" where
  "dentry_rec_len name = 8 + of_nat (4 * ((unat (of_nat (length name) :: u8) + 3) div 4))"

text \<open>\<^verbatim>\<open>add_dentry\<close> on the directory's data: the offset of the entry, the next offset and the data.\<close>

definition add_dentry ::
    "u32 \<Rightarrow> bytes \<Rightarrow> u32 \<Rightarrow> nat option \<Rightarrow> u32 \<Rightarrow> bytes \<Rightarrow> u8 \<Rightarrow> (nat \<times> u32 \<times> bytes) res" where
  "add_dentry bs data offset prev inode name file_type =
     (let name_len = of_nat (length name) :: u8;
          rec_len = dentry_rec_len name;
          start_block = offset div bs;
          end_block = (offset + ucast rec_len - 1) div bs in
      bnd (if start_block \<noteq> end_block
           then (case prev of
                   None \<Rightarrow> Inl Longjmp
                 | Some p \<Rightarrow>
                     bnd (get16 data (p + 4)) (\<lambda>r.
                     bnd (put16 data (p + 4) (r + ucast (end_block * bs - offset))) (\<lambda>data.
                     Inr (end_block * bs, data))))
           else Inr (offset, data)) (\<lambda>(offset, data).
      let d = unat offset in
      bnd (put32 data d inode) (\<lambda>data.
      bnd (put16 data (d + 4) rec_len) (\<lambda>data.
      bnd (put8 data (d + 6) name_len) (\<lambda>data.
      bnd (put8 data (d + 7) file_type) (\<lambda>data.
      bnd (put_bytes data (d + 8) (take (unat name_len) name)) (\<lambda>data.
      Inr (d, offset + ucast rec_len, data))))))))"

fun add_dentries ::
    "u32 \<Rightarrow> u32 \<Rightarrow> bytes \<Rightarrow> u32 \<Rightarrow> nat \<Rightarrow> (bytes \<times> u8) list \<Rightarrow> (nat list \<times> nat \<times> u32 \<times> bytes) res" where
  "add_dentries bs len data offset prev [] = Inr ([], prev, offset, data)"
| "add_dentries bs len data offset prev ((name, file_type) # rest) =
     bnd (add_dentry bs data offset (Some prev) 0 name file_type) (\<lambda>(d, offset, data).
     if len < offset \<or> (offset = len \<and> rest \<noteq> []) then Inl Longjmp
     else bnd (add_dentries bs len data offset d rest) (\<lambda>(ds, last, offset, data).
          Inr (d # ds, last, offset, data)))"

text \<open>The entries of a directory: itself, its parent, the given ones, and the padding of the last.\<close>

definition write_dentries ::
    "u32 \<Rightarrow> u32 \<Rightarrow> u32 \<Rightarrow> u32 \<Rightarrow> (bytes \<times> u8) list \<Rightarrow> bytes \<Rightarrow> (nat list \<times> bytes) res" where
  "write_dentries bs len self parent entries data =
     bnd (add_dentry bs data 0 None self [46] 2) (\<lambda>(d, offset, data).
     bnd (add_dentry bs data offset (Some d) parent [46, 46] 2) (\<lambda>(d, offset, data).
     bnd (add_dentries bs len data offset d entries) (\<lambda>(ds, last, offset, data).
     bnd (get16 data (last + 4)) (\<lambda>r.
     bnd (put16 data (last + 4) (r + ucast (len - offset))) (\<lambda>data.
     Inr (ds, data))))))"

definition mem_get :: "ext4_st \<Rightarrow> nat \<Rightarrow> bytes res" where
  "mem_get s a = (case mem s a of None \<Rightarrow> Inl Undefined | Some b \<Rightarrow> Inr b)"

text \<open>
  \<^verbatim>\<open>inode_num\<close> is the root inode when \<^verbatim>\<open>dir_inode_num\<close> is 0. The result is the inode
  number, the entries with their \<^verbatim>\<open>inode\<close> pointers set, and the state.
\<close>

definition make_directory ::
    "u32 \<Rightarrow> dentry list \<Rightarrow> u32 \<Rightarrow> ext4_st \<Rightarrow> (u32 \<times> dentry list \<times> ext4_st) res" where
  "make_directory dir_inode_num dentries dirs s =
     (if block_size (info s) = 0 then Inl Undefined else
      let bs = block_size (info s);
          len = DIV_ROUND_UP (dentry_size bs dentries) bs * bs;
          parent = (if dir_inode_num \<noteq> 0 then dir_inode_num else 2) in
      bnd (if dir_inode_num \<noteq> 0 then allocate_inode s else Inr (2, s)) (\<lambda>(inode_num, s).
      if inode_num = EXT4_ALLOCATE_FAILED then error_then (force s) (EXT4_ALLOCATE_FAILED, dentries, s)
      else
        bnd (add_directory inode_num s) (\<lambda>s.
        bnd (get_inode inode_num s) (\<lambda>(inode, s).
        bnd (inode_allocate_data_extents inode (ucast len) (ucast len) s) (\<lambda>(data, s).
        case data of
          None \<Rightarrow> error_then (force s) (EXT4_ALLOCATE_FAILED, dentries, s)
        | Some buf \<Rightarrow>
          bnd (inode_put16 inode i_mode 0x4000 s) (\<lambda>s.
          bnd (inode_put16 inode i_links_count (ucast (dirs + 2)) s) (\<lambda>s.
          bnd (inode_get32 s inode i_flags) (\<lambda>flags.
          bnd (inode_put32 inode i_flags (flags OR default_i_flags (aux_info s)) s) (\<lambda>s.
          bnd (mem_get s buf) (\<lambda>b.
          bnd (write_dentries bs len inode_num parent (map (\<lambda>d. (d_filename d, d_file_type d)) dentries) b) (\<lambda>(ds, b).
          Inr (inode_num, map2 (\<lambda>d off. d\<lparr>d_inode := Some (buf, off)\<rparr>) dentries ds,
               s\<lparr>mem := (mem s)(buf \<mapsto> b)\<rparr>))))))))))))"

section \<open>Reading a directory\<close>

text \<open>An entry as the filesystem reads it: inode, file type, name.\<close>

type_synonym dir_entry = "u32 \<times> u8 \<times> bytes"

definition rec_at :: "bytes \<Rightarrow> nat \<Rightarrow> nat" where
  "rec_at b off = unat (le16 b (off + 4))"

definition entry_at :: "bytes \<Rightarrow> nat \<Rightarrow> dir_entry" where
  "entry_at b off = (le32 b off, b ! (off + 7), take (unat (b ! (off + 6))) (drop (off + 8) b))"

text \<open>A record is sound when it has room for its header and name and stays inside one block.\<close>

definition sound_rec :: "nat \<Rightarrow> bytes \<Rightarrow> nat \<Rightarrow> bool" where
  "sound_rec bs b off \<longleftrightarrow> off + rec_at b off \<le> length b \<and> 8 + unat (b ! (off + 6)) \<le> rec_at b off \<and>
     off div bs = (off + rec_at b off - 1) div bs"

fun read_dir :: "nat \<Rightarrow> nat \<Rightarrow> bytes \<Rightarrow> nat \<Rightarrow> dir_entry list option" where
  "read_dir 0 bs b off = None"
| "read_dir (Suc fuel) bs b off =
     (if off = length b then Some []
      else if off + 8 \<le> length b \<and> sound_rec bs b off
      then map_option (\<lambda>es. entry_at b off # es) (read_dir fuel bs b (off + rec_at b off)) else None)"

section \<open>Chains of records\<close>

fun dir_chain :: "nat \<Rightarrow> bytes \<Rightarrow> nat \<Rightarrow> dir_entry list \<Rightarrow> nat \<Rightarrow> bool" where
  "dir_chain bs b off [] stop \<longleftrightarrow> off = stop"
| "dir_chain bs b off (e # es) stop \<longleftrightarrow> entry_at b off = e \<and> off + 8 \<le> length b \<and> sound_rec bs b off \<and>
     dir_chain bs b (off + rec_at b off) es stop"

lemma read_dir_chain:
  "dir_chain bs b off es (length b) \<Longrightarrow> length es < fuel \<Longrightarrow> read_dir fuel bs b off = Some es"
proof (induction es arbitrary: off fuel)
  case Nil
  then obtain k where "fuel = Suc k" by (cases fuel) auto
  then show ?case using Nil by simp
next
  case (Cons e es)
  then obtain k where "fuel = Suc k" by (cases fuel) auto
  then show ?case using Cons by simp
qed

lemma dir_chain_append:
  "dir_chain bs b off (xs @ ys) stop \<longleftrightarrow> (\<exists>m. dir_chain bs b off xs m \<and> dir_chain bs b m ys stop)"
  by (induction xs arbitrary: off) auto

lemma dir_chain_le: "dir_chain bs b off es stop \<Longrightarrow> off \<le> stop"
  by (induction es arbitrary: off) (fastforce)+

lemma record_cong:
  assumes l: "length b' = length b" and t: "take stop b' = take stop b"
    and o8: "off + 8 \<le> stop" "off + rec_at b off \<le> stop" "sound_rec bs b off" "stop \<le> length b"
  shows "entry_at b' off = entry_at b off" and "rec_at b' off = rec_at b off" and "sound_rec bs b' off"
proof -
  have n: "b' ! i = b ! i" if "i < stop" for i
    using arg_cong [OF t, of "\<lambda>xs. xs ! i"] that by simp
  show r: "rec_at b' off = rec_at b off" unfolding rec_at_def using o8 n by (intro arg_cong [of _ _ unat] le16_cong) simp
  have "le32 b' off = le32 b off" using o8 n by (intro le32_cong) simp
  moreover have nl: "b' ! (off + 6) = b ! (off + 6)" "b' ! (off + 7) = b ! (off + 7)" using o8 n by simp_all
  moreover have "take (unat (b ! (off + 6))) (drop (off + 8) b') = take (unat (b ! (off + 6))) (drop (off + 8) b)"
    using o8 n l by (intro nth_equalityI) (auto simp: sound_rec_def)
  ultimately show "entry_at b' off = entry_at b off" by (simp add: entry_at_def)
  show "sound_rec bs b' off" using o8(3) r nl l by (simp add: sound_rec_def)
qed

lemma dir_chain_frame:
  "dir_chain bs b off es stop \<Longrightarrow> length b' = length b \<Longrightarrow> take stop b' = take stop b \<Longrightarrow> stop \<le> length b \<Longrightarrow>
   dir_chain bs b' off es stop"
proof (induction es arbitrary: off)
  case (Cons e es)
  have le: "off + rec_at b off \<le> stop" using Cons.prems dir_chain_le by auto
  moreover have "8 \<le> rec_at b off" using Cons.prems by (simp add: sound_rec_def)
  ultimately have "off + 8 \<le> stop" by simp
  then show ?case
    using record_cong [OF Cons.prems(2,3) _ le _ Cons.prems(4), of bs] Cons by simp
qed simp

lemma take_blit: "stop \<le> at \<Longrightarrow> at \<le> length b \<Longrightarrow> take stop (blit b at src) = take stop b"
  by (simp add: blit_def min_def)

section \<open>One entry\<close>

definition rec_size :: "bytes \<Rightarrow> nat" where
  "rec_size name = 8 + 4 * ((length name + 3) div 4)"

definition dentry_bytes :: "u32 \<Rightarrow> bytes \<Rightarrow> u8 \<Rightarrow> bytes" where
  "dentry_bytes inode name ft = le32_bytes inode @ le16_bytes (dentry_rec_len name) @ [of_nat (length name), ft] @ name"

lemma rec_size_bounds:
  assumes "length name \<le> 255"
  shows "8 + length name \<le> rec_size name" and "rec_size name \<le> 264"
    and "unat (dentry_rec_len name) = rec_size name" and "unat (dentry_len name) = rec_size name"
    and "unat (of_nat (length name) :: u8) = length name"
proof -
  have q: "4 * ((length name + 3) div 4) \<le> 256" "length name \<le> 4 * ((length name + 3) div 4)"
    using div_le_mono [of "length name + 3" 258 4] ceiling_div_bounds(1) [of 4 "length name"] assms by simp_all
  show u8: "unat (of_nat (length name) :: u8) = length name" using assms by (simp add: unat_of_nat)
  show "8 + length name \<le> rec_size name" "rec_size name \<le> 264" using q by (simp_all add: rec_size_def)
  have "unat (8 + of_nat m :: u16) = 8 + m" if "m \<le> 256" for m
    using that unat_add_lem [of "8 :: u16" "of_nat m"] by (simp add: unat_of_nat)
  then show "unat (dentry_rec_len name) = rec_size name"
    unfolding dentry_rec_len_def u8 rec_size_def using q(1) by blast
  have "unat (of_nat (length name) :: u32) = length name" using assms by (simp add: unat_of_nat)
  then have "unat (ALIGN (of_nat (length name)) 4 :: u32) = 4 * ((length name + 3) div 4)"
    using assms unat_ALIGN [of "4 :: u32" "of_nat (length name)"] by simp
  then show "unat (dentry_len name) = rec_size name"
    unfolding dentry_len_def rec_size_def using unat_add_le [of 8 "ALIGN (of_nat (length name)) 4"] q by simp
qed

lemma length_dentry_bytes [simp]: "length (dentry_bytes inode name ft) = 8 + length name"
  by (simp add: dentry_bytes_def)

text \<open>The five stores of an entry are one copy of its bytes.\<close>

lemma put_entry_bytes:
  assumes n: "length name \<le> 255" and fit: "d + 8 + length name \<le> length b"
  shows "bnd (put32 b d inode) (\<lambda>b. bnd (put16 b (d + 4) (dentry_rec_len name)) (\<lambda>b.
      bnd (put8 b (d + 6) (of_nat (length name))) (\<lambda>b. bnd (put8 b (d + 7) ft) (\<lambda>b.
      put_bytes b (d + 8) (take (unat (of_nat (length name) :: u8)) name))))) = Inr (blit b d (dentry_bytes inode name ft))"
proof -
  let ?i = "le32_bytes inode" and ?r = "le16_bytes (dentry_rec_len name)" and ?l = "[of_nat (length name)] :: bytes"
  have e1: "blit (blit b d ?i) (d + 4) ?r = blit b d (?i @ ?r)" using blit_blit_adjacent [of d ?i ?r b] fit by simp
  have e2: "blit (blit b d (?i @ ?r)) (d + 6) ?l = blit b d (?i @ ?r @ ?l)" using blit_blit_adjacent [of d "?i @ ?r" ?l b] fit by simp
  have e3: "blit (blit b d (?i @ ?r @ ?l)) (d + 7) [ft] = blit b d (?i @ ?r @ ?l @ [ft])"
    using blit_blit_adjacent [of d "?i @ ?r @ ?l" "[ft]" b] fit by simp
  have e4: "blit (blit b d (?i @ ?r @ ?l @ [ft])) (d + 8) name = blit b d (?i @ ?r @ ?l @ [ft] @ name)"
    using blit_blit_adjacent [of d "?i @ ?r @ ?l @ [ft]" name b] fit by simp
  have l: "length (blit b d x) = length b" if "d + length x \<le> length b" for x using that by (simp add: length_blit)
  show ?thesis
    using fit rec_size_bounds(5) [OF n]
    by (simp add: put32_def put16_def put8_def put_bytes_def e1 e2 e3 [simplified] e4 [simplified] l dentry_bytes_def)
qed

lemma dentry_bytes_record:
  assumes n: "length name \<le> 255" and fit: "d + rec_size name \<le> length b" and blk: "d div bs = (d + rec_size name - 1) div bs"
  shows "dir_chain bs (blit b d (dentry_bytes inode name ft)) d [(inode, ft, name)] (d + rec_size name)"
proof -
  let ?x = "dentry_bytes inode name ft" and ?b = "blit b d (dentry_bytes inode name ft)"
  note r = rec_size_bounds [OF n]
  have f: "d + length ?x \<le> length b" using r(1) fit by simp
  have "le32 ?b d = le32 ?x 0" "le16 ?b (d + 4) = le16 ?x 4" using le32_inside [OF f, of 0] le16_inside [OF f, of 4] by simp_all
  moreover have "le32 ?x 0 = inode" by (simp add: dentry_bytes_def le32_append le32_le32_bytes)
  moreover have "le16 ?x 4 = dentry_rec_len name"
    using le16_append2 [of "le32_bytes inode" "le16_bytes (dentry_rec_len name) @ [of_nat (length name), ft] @ name" 0]
    by (simp add: dentry_bytes_def le16_append le16_le16_bytes)
  moreover have "?b ! (d + 6) = of_nat (length name)" "?b ! (d + 7) = ft"
    using f by (simp_all add: nth_blit dentry_bytes_def nth_append)
  moreover have "take (length name) (drop (d + 8) ?b) = name"
    using f by (intro nth_equalityI) (simp_all add: nth_blit dentry_bytes_def nth_append length_blit)
  ultimately show ?thesis
    using r f fit blk by (simp add: entry_at_def rec_at_def sound_rec_def length_blit)
qed

section \<open>Where entries go\<close>

definition slot :: "nat \<Rightarrow> nat \<Rightarrow> bytes \<Rightarrow> nat" where
  "slot bs off name = (if bs < off mod bs + rec_size name then (off div bs + 1) * bs else off)"

fun ends :: "nat \<Rightarrow> nat \<Rightarrow> bytes list \<Rightarrow> nat" where
  "ends bs off [] = off"
| "ends bs off (name # names) = ends bs (slot bs off name + rec_size name) names"

lemma div_block: "r < bs \<Longrightarrow> (q * bs + r) div bs = q" for q r bs :: nat
  by (cases "bs = 0") simp_all

lemma div_cases:
  fixes o' bs r :: nat
  assumes "0 < r" "r \<le> bs"
  shows "(o' + r - 1) div bs = (if bs < o' mod bs + r then o' div bs + 1 else o' div bs)"
proof -
  have bs: "0 < bs" using assms by simp
  have o: "o' = o' div bs * bs + o' mod bs" by simp
  have m: "o' mod bs < bs" using bs by simp
  show ?thesis
  proof (cases "bs < o' mod bs + r")
    case True
    then have e: "o' + r - 1 = (o' div bs + 1) * bs + (o' mod bs + r - 1 - bs)" using o assms by simp
    have "o' mod bs + r - 1 - bs < bs" using m assms by linarith
    then show ?thesis unfolding e using True by (simp only: div_block if_True)
  next
    case False
    then have e: "o' + r - 1 = o' div bs * bs + (o' mod bs + r - 1)" using o assms by simp
    have "o' mod bs + r - 1 < bs" using False assms by linarith
    then show ?thesis unfolding e using False by (simp only: div_block if_False)
  qed
qed

lemma slot_bounds:
  assumes "rec_size name \<le> bs"
  shows "off \<le> slot bs off name" and "slot bs off name \<le> off + rec_size name"
    and "slot bs off name div bs = (slot bs off name + rec_size name - 1) div bs"
proof -
  have bs: "0 < rec_size name" "0 < bs" using assms by (simp_all add: rec_size_def)
  have o: "off = off div bs * bs + off mod bs" "off mod bs < bs" using bs by simp_all
  have le: "off \<le> (off div bs + 1) * bs" "bs < off mod bs + rec_size name \<Longrightarrow> (off div bs + 1) * bs \<le> off + rec_size name"
    unfolding distrib_right using o by linarith+
  show "off \<le> slot bs off name" using le(1) unfolding slot_def by (cases "bs < off mod bs + rec_size name") simp_all
  show "slot bs off name \<le> off + rec_size name" using le(2) unfolding slot_def by (cases "bs < off mod bs + rec_size name") simp_all
  have "(off div bs + 1) * bs mod bs = 0" "(off div bs + 1) * bs div bs = off div bs + 1" using bs by simp_all
  then show "slot bs off name div bs = (slot bs off name + rec_size name - 1) div bs"
    unfolding div_cases [OF bs(1) assms] using assms by (auto simp: slot_def)
qed

lemma ends_le: "\<forall>n \<in> set names. rec_size n \<le> bs \<Longrightarrow> off \<le> ends bs off names"
proof (induction names arbitrary: off)
  case (Cons n names)
  then have "off \<le> slot bs off n" using slot_bounds(1) [of n bs off] by simp
  also have "\<dots> \<le> ends bs (slot bs off n + rec_size n) names" using Cons by (meson add_leE le_trans list.set_intros(2))
  finally show ?case by simp
qed simp

lemma ends_growth:
  "\<forall>n \<in> set names. length n \<le> 255 \<Longrightarrow> 264 \<le> bs \<Longrightarrow> ends bs off names \<le> off + 528 * length names"
proof (induction names arbitrary: off)
  case (Cons n names)
  have r: "rec_size n \<le> 264" using Cons.prems rec_size_bounds(2) by simp
  then have "slot bs off n + rec_size n \<le> off + 528" using slot_bounds(2) [of n bs off] Cons.prems by simp
  then show ?case using Cons by (fastforce intro: le_trans)
qed simp

lemma dentry_size_ends:
  "\<forall>n \<in> set names. length n \<le> 255 \<Longrightarrow> 264 \<le> unat bs \<Longrightarrow> unat len + 528 * length names < 2 ^ 32 \<Longrightarrow>
   unat bs < 2 ^ 31 \<Longrightarrow> unat (dentry_size_loop bs len names) = ends (unat bs) (unat len) names"
proof (induction names arbitrary: len)
  case (Cons n names)
  note r = rec_size_bounds [of n]
  have n: "length n \<le> 255" using Cons.prems by simp
  have rb: "rec_size n \<le> unat bs" using r(2) n Cons.prems by simp
  let ?l = "if bs < len mod bs + dentry_len n then len + (bs - len mod bs) else len"
  have m: "unat (len mod bs) = unat len mod unat bs" by (simp add: unat_mod)
  have ml: "unat len mod unat bs < unat bs" using Cons.prems by simp
  have c: "(bs < len mod bs + dentry_len n) = (unat bs < unat len mod unat bs + rec_size n)"
  proof -
    have "unat (len mod bs) + unat (dentry_len n) < 2 ^ 31 + 264" unfolding m r(4) [OF n] using ml r(2) [OF n] Cons.prems(4) by linarith
    then have "unat (len mod bs) + unat (dentry_len n) < 2 ^ 32" by simp
    then show ?thesis using m r(4) n by (simp add: word_less_nat_alt unat_add_le)
  qed
  have sub: "unat (bs - len mod bs) = unat bs - unat len mod unat bs"
    using m ml by (simp add: unat_sub word_le_nat_alt)
  have sl: "slot (unat bs) (unat len) n \<le> unat len + 264" using slot_bounds(2) [OF rb, of "unat len"] r(2) [OF n] by linarith
  have d: "unat len div unat bs * unat bs + unat len mod unat bs = unat len" by simp
  have l: "unat ?l = slot (unat bs) (unat len) n"
  proof (cases "unat bs < unat len mod unat bs + rec_size n")
    case True
    have e: "unat len + (unat bs - unat len mod unat bs) = (unat len div unat bs + 1) * unat bs"
      unfolding distrib_right using d ml by linarith
    have "(unat len div unat bs + 1) * unat bs \<le> unat len + 264" using sl True by (simp add: slot_def)
    then have "unat len + unat (bs - len mod bs) < 2 ^ 32" unfolding sub e using Cons.prems(3) by simp
    then have "unat (len + (bs - len mod bs)) = (unat len div unat bs + 1) * unat bs"
      unfolding e [symmetric] using sub by (simp add: unat_add_le)
    then show ?thesis using True c by (simp add: slot_def)
  next
    case False
    then show ?thesis using c by (simp add: slot_def)
  qed
  have u: "unat (?l + dentry_len n) = slot (unat bs) (unat len) n + rec_size n"
    using l sl r n Cons.prems unat_add_le [of ?l "dentry_len n"] by simp
  have "unat (dentry_size_loop bs (?l + dentry_len n) names) = ends (unat bs) (unat (?l + dentry_len n)) names"
  proof (rule Cons.IH)
    show "unat (?l + dentry_len n) + 528 * length names < 2 ^ 32"
      unfolding u using sl r(2) [OF n] Cons.prems(3) by simp
  qed (use Cons.prems in simp_all)
  then show ?case using u by simp
qed simp

section \<open>Adding entries\<close>

text \<open>The data holds the entries \<open>es\<close> up to \<open>prev\<close> and one more from there to \<open>off\<close>.\<close>

definition dir_upto :: "nat \<Rightarrow> bytes \<Rightarrow> dir_entry list \<Rightarrow> nat \<Rightarrow> nat \<Rightarrow> bool" where
  "dir_upto bs b es prev off \<longleftrightarrow> es \<noteq> [] \<and> dir_chain bs b 0 (butlast es) prev \<and> dir_chain bs b prev [last es] off"

lemma dir_upto_off: "dir_upto bs b es prev off \<Longrightarrow> off = prev + rec_at b prev \<and> prev + 8 \<le> off \<and> off \<le> length b"
  by (auto simp: dir_upto_def sound_rec_def)

text \<open>Padding the previous record up to \<open>off'\<close> in the same block.\<close>

lemma pad_record:
  assumes up: "dir_upto bs b es prev off" and o: "off \<le> off'" "off' \<le> length b" "off' - prev < 2 ^ 16"
    and blk: "prev div bs = (off' - 1) div bs"
  shows "dir_upto bs (blit b (prev + 4) (le16_bytes (le16 b (prev + 4) + of_nat (off' - off)))) es prev off'"
proof -
  let ?r = "le16 b (prev + 4)"
  let ?b = "blit b (prev + 4) (le16_bytes (?r + of_nat (off' - off)))"
  note po = dir_upto_off [OF up]
  have l: "length ?b = length b" using po by (simp add: length_blit)
  have c: "dir_chain bs ?b 0 (butlast es) prev"
  proof (rule dir_chain_frame [OF _ l])
    show "dir_chain bs b 0 (butlast es) prev" using up by (simp only: dir_upto_def)
    show "take prev ?b = take prev b" "prev \<le> length b" using po by (simp_all add: take_blit)
  qed
  have ru: "unat ?r = off - prev" using po by (simp add: rec_at_def)
  have dm: "off' - off < 2 ^ 16" using o po by linarith
  have "unat (of_nat m :: u16) = m" if "m < 2 ^ 16" for m using that by (simp add: unat_of_nat)
  note un = this [OF dm]
  have "unat ?r + (off' - off) = off' - prev" using ru o po by linarith
  then have "unat (?r + of_nat (off' - off)) = off' - prev"
    using o(3) unat_add_lem [of ?r "of_nat (off' - off)"] unfolding un by simp
  then have rec: "rec_at ?b prev = off' - prev" using po by (simp add: rec_at_def le16_blit_same)
  have nl: "?b ! (prev + 6) = b ! (prev + 6)" "?b ! (prev + 7) = b ! (prev + 7)" using po by (simp_all add: nth_blit)
  have "le32 ?b prev = le32 b prev" using po by (intro le32_blit_other) simp_all
  moreover have "drop (prev + 8) ?b = drop (prev + 8) b" using po by (simp add: blit_def add.commute)
  ultimately have "entry_at ?b prev = entry_at b prev" using nl by (simp add: entry_at_def)
  then have "dir_chain bs ?b prev [last es] off'"
    using up po o blk rec nl l by (auto simp: dir_upto_def sound_rec_def rec_at_def)
  then show ?thesis using c up by (simp add: dir_upto_def)
qed

lemma new_record:
  assumes up: "dir_upto bs b es prev off" and n: "length name \<le> 255" and fit: "off + rec_size name \<le> length b"
    and blk: "off div bs = (off + rec_size name - 1) div bs"
  shows "dir_upto bs (blit b off (dentry_bytes inode name ft)) (es @ [(inode, ft, name)]) off (off + rec_size name)"
proof -
  let ?b = "blit b off (dentry_bytes inode name ft)"
  have f: "off + length (dentry_bytes inode name ft) \<le> length b" using fit rec_size_bounds(1) [OF n] by simp
  have e: "es = butlast es @ [last es]" using up by (simp add: dir_upto_def)
  have "dir_chain bs b 0 (butlast es @ [last es]) off" using up unfolding dir_chain_append dir_upto_def by blast
  then have "dir_chain bs b 0 es off" using e by simp
  then have "dir_chain bs ?b 0 es off"
    by (rule dir_chain_frame) (use f in \<open>simp_all add: length_blit take_blit\<close>)
  then show ?thesis using dentry_bytes_record [OF n fit blk] by (simp add: dir_upto_def)
qed

text \<open>Stretching the record before an entry that does not fit into the rest of its block.\<close>

lemma prev_record_padded:
  assumes up: "dir_upto B b es prev off" and B: "0 < B" "B \<le> 32768" "n \<le> B" and cross: "B < off mod B + n"
    and d: "d = (off div B + 1) * B" "d \<le> length b"
  shows "dir_upto B (blit b (prev + 4) (le16_bytes (le16 b (prev + 4) + of_nat (d - off)))) es prev d"
proof -
  have om: "0 < off mod B" using cross B by (cases "off mod B") simp_all
  have ob: "off = off div B * B + off mod B" by simp
  have "off - 1 = off div B * B + (off mod B - 1)" using ob om by linarith
  moreover have "off mod B - 1 < B" using B(1) by (metis less_imp_diff_less mod_less_divisor)
  ultimately have o1: "(off - 1) div B = off div B" using div_block by metis
  have pb: "prev div B = off div B" using up dir_upto_off [OF up] o1 by (simp add: dir_upto_def sound_rec_def)
  then have "off div B * B \<le> prev" by (metis div_times_less_eq_dividend)
  then have small: "d - prev < 2 ^ 16" using d(1) B(2) by simp
  have "d - 1 = off div B * B + (B - 1)" "B - 1 < B" using d(1) B(1) by simp_all
  then have blk: "prev div B = (d - 1) div B" using pb div_block by metis
  have "off mod B < B" using B(1) by simp
  then have "off < off div B * B + B" using ob by linarith
  then have "off \<le> d" unfolding d(1) by simp
  then show ?thesis using pad_record [OF up _ d(2) small blk] by simp
qed

lemma add_dentry_ok:
  assumes up: "dir_upto (unat bs) b es prev (unat off)" and n: "length name \<le> 255"
    and bs: "264 \<le> unat bs" "unat bs \<le> 32768" and big: "length b + 264 < 2 ^ 32"
    and fit: "slot (unat bs) (unat off) name + rec_size name \<le> length b"
  obtains b' off' where "add_dentry bs b off (Some prev) inode name ft = Inr (slot (unat bs) (unat off) name, off', b')"
    and "unat off' = slot (unat bs) (unat off) name + rec_size name" and "length b' = length b"
    and "dir_upto (unat bs) b' (es @ [(inode, ft, name)]) (slot (unat bs) (unat off) name) (unat off')"
proof -
  note r = rec_size_bounds [OF n]
  let ?o = "unat off" and ?B = "unat bs"
  let ?d = "slot ?B ?o name"
  have rb: "rec_size name \<le> ?B" "0 < rec_size name" using r bs by simp_all
  have po: "?o = prev + rec_at b prev" "prev + 8 \<le> ?o" "?o \<le> length b" using dir_upto_off [OF up] by simp_all
  have u16: "unat (ucast (dentry_rec_len name) :: u32) = rec_size name" using r(3) by (simp add: unat_ucast_upcast)
  have add: "unat (off + ucast (dentry_rec_len name)) = ?o + rec_size name" using u16 po big r(2) by (simp add: unat_add_le)
  have nz: "off + ucast (dentry_rec_len name) \<noteq> 0" using add rb by (metis add_is_0 less_irrefl unat_0)
  have eb: "unat ((off + ucast (dentry_rec_len name) - 1) div bs) = (if ?B < ?o mod ?B + rec_size name then ?o div ?B + 1 else ?o div ?B)"
    using div_cases [OF rb(2,1), of ?o] unat_minus_one [OF nz] add by (simp add: unat_div)
  have sb: "unat (off div bs) = ?o div ?B" by (simp add: unat_div)
  have cross: "(off div bs \<noteq> (off + ucast (dentry_rec_len name) - 1) div bs) = (?B < ?o mod ?B + rec_size name)"
    using eb sb by (auto simp: word_unat_eq_iff)
  define dw where "dw = (if ?B < ?o mod ?B + rec_size name then (off + ucast (dentry_rec_len name) - 1) div bs * bs else off)"
  have dl: "?d \<le> length b" using fit by simp
  have dwu: "unat dw = ?d"
  proof (cases "?B < ?o mod ?B + rec_size name")
    case True
    then have "(?o div ?B + 1) * ?B \<le> length b" using dl by (simp add: slot_def)
    then show ?thesis using True eb big by (simp add: dw_def slot_def unat_mult_small)
  qed (simp add: dw_def slot_def)
  note sl = slot_bounds [OF rb(1), of ?o]
  obtain b1 where b1: "(if off div bs \<noteq> (off + ucast (dentry_rec_len name) - 1) div bs
           then bnd (get16 b (prev + 4)) (\<lambda>r.
                     bnd (put16 b (prev + 4) (r + ucast ((off + ucast (dentry_rec_len name) - 1) div bs * bs - off))) (\<lambda>data.
                     Inr ((off + ucast (dentry_rec_len name) - 1) div bs * bs, data)))
           else Inr (off, b)) = Inr (dw, b1)" and up1: "dir_upto ?B b1 es prev ?d" and l1: "length b1 = length b"
  proof (cases "?B < ?o mod ?B + rec_size name")
    case False
    then show ?thesis using that [of b] up cross by (simp add: dw_def slot_def)
  next
    case True
    let ?b = "blit b (prev + 4) (le16_bytes (le16 b (prev + 4) + of_nat (?d - ?o)))"
    have d: "?d = (?o div ?B + 1) * ?B" using True by (simp add: slot_def)
    have pad: "ucast (dw - off) = (of_nat (?d - ?o) :: u16)"
    proof -
      have "unat (dw - off) = ?d - ?o" using dwu sl(1) by (simp add: unat_sub word_le_nat_alt)
      then show ?thesis by (simp add: word_unat_eq_iff unsigned_ucast_eq unsigned_of_nat)
    qed
    have "dir_upto ?B ?b es prev ?d" using prev_record_padded [OF up _ bs(2) rb(1) True d dl] bs(1) by simp
    moreover have "length ?b = length b" using po by (simp add: length_blit)
    ultimately show ?thesis
      using that [of ?b] True cross pad po by (simp add: dw_def get16_def put16_def put_bytes_def)
  qed
  let ?b2 = "blit b1 ?d (dentry_bytes inode name ft)"
  have "dir_upto ?B ?b2 (es @ [(inode, ft, name)]) ?d (?d + rec_size name)"
    using fit l1 sl(3) by (intro new_record [OF up1 n]) simp_all
  moreover have "unat (dw + ucast (dentry_rec_len name)) = ?d + rec_size name"
    using dwu u16 fit big by (simp add: unat_add_le)
  moreover have "length ?b2 = length b" using l1 fit r(1) by (simp add: length_blit)
  moreover have "add_dentry bs b off (Some prev) inode name ft = Inr (?d, dw + ucast (dentry_rec_len name), ?b2)"
  proof -
    have "?d + 8 + length name \<le> length b1" using fit l1 r(1) by simp
    note p = put_entry_bytes [OF n this, of inode ft]
    have q: "bnd (put32 b1 ?d inode) (\<lambda>data. bnd (put16 data (?d + 4) (dentry_rec_len name)) (\<lambda>data.
      bnd (put8 data (?d + 6) (of_nat (length name))) (\<lambda>data. bnd (put8 data (?d + 7) ft) (\<lambda>data.
      bnd (put_bytes data (?d + 8) (take (unat (of_nat (length name) :: u8)) name)) (\<lambda>data.
      Inr (?d, dw + ucast (dentry_rec_len name), data)))))) =
      bnd (Inr ?b2) (\<lambda>data. Inr (?d, dw + ucast (dentry_rec_len name), data))"
      unfolding p [symmetric] bnd_assoc ..
    show ?thesis unfolding add_dentry_def Let_def option.simps b1 bnd.simps prod.case dwu using q by simp
  qed
  ultimately show ?thesis using that [of "dw + ucast (dentry_rec_len name)" ?b2] by simp
qed

lemma dir_upto_all:
  assumes "dir_upto bs b es prev off"
  shows "dir_chain bs b 0 es off"
proof -
  have "dir_chain bs b 0 (butlast es @ [last es]) off" using assms unfolding dir_chain_append dir_upto_def by blast
  then show ?thesis using assms by (simp add: dir_upto_def)
qed

text \<open>
  The loop adds all entries: nothing crosses a block, nothing ends past the room that
  \<^verbatim>\<open>dentry_size\<close> computed, and every entry is found at the offset it was given.
\<close>

lemma add_dentries_ok:
  "dir_upto (unat bs) b es prev (unat off) \<Longrightarrow> \<forall>(name, ft) \<in> set xs. length name \<le> 255 \<Longrightarrow>
   264 \<le> unat bs \<Longrightarrow> unat bs \<le> 32768 \<Longrightarrow> length b = unat len \<Longrightarrow> length b + 264 < 2 ^ 32 \<Longrightarrow>
   ends (unat bs) (unat off) (map fst xs) \<le> length b \<Longrightarrow>
   \<exists>ds prev' off' b'. add_dentries bs len b off prev xs = Inr (ds, prev', off', b') \<and> length ds = length xs \<and>
     unat off' = ends (unat bs) (unat off) (map fst xs) \<and> length b' = length b \<and>
     dir_upto (unat bs) b' (es @ map (\<lambda>(name, ft). (0, ft, name)) xs) prev' (unat off')"
proof (induction xs arbitrary: b es prev off)
  case Nil
  then show ?case by auto
next
  case (Cons x xs)
  obtain name ft where x: "x = (name, ft)" by (cases x) auto
  have n: "length name \<le> 255" using Cons.prems(2) x by auto
  have rs: "\<forall>n \<in> set (map fst xs). rec_size n \<le> unat bs"
    using Cons.prems(2,3) rec_size_bounds(2) by fastforce
  let ?d = "slot (unat bs) (unat off) name"
  have le: "?d + rec_size name \<le> ends (unat bs) (?d + rec_size name) (map fst xs)" using ends_le [OF rs] .
  have fit: "?d + rec_size name \<le> length b" using le Cons.prems(7) x by simp
  obtain b1 off1 where a: "add_dentry bs b off (Some prev) 0 name ft = Inr (?d, off1, b1)"
    "unat off1 = ?d + rec_size name" "length b1 = length b"
    "dir_upto (unat bs) b1 (es @ [(0, ft, name)]) ?d (unat off1)"
    using add_dentry_ok [OF Cons.prems(1) n Cons.prems(3,4,6) fit] .
  have strict: "?d + rec_size name < length b" if ne: "xs \<noteq> []"
  proof -
    obtain y ys where "map fst xs = y # ys" using ne by (cases "map fst xs") auto
    then have "?d + rec_size name \<le> slot (unat bs) (?d + rec_size name) y" "slot (unat bs) (?d + rec_size name) y + rec_size y \<le> ends (unat bs) (?d + rec_size name) (map fst xs)"
      using rs slot_bounds(1) [of y "unat bs"] ends_le [of ys "unat bs"] by simp_all
    moreover have "0 < rec_size y" by (simp add: rec_size_def)
    ultimately show ?thesis using Cons.prems(7) x by simp
  qed
  have ok: "\<not> (len < off1 \<or> (off1 = len \<and> xs \<noteq> []))"
    using fit strict a(2) Cons.prems(5) by (cases "xs = []") (auto simp: word_less_nat_alt)
  have "\<exists>ds prev' off' b'. add_dentries bs len b1 off1 ?d xs = Inr (ds, prev', off', b') \<and> length ds = length xs \<and>
     unat off' = ends (unat bs) (unat off1) (map fst xs) \<and> length b' = length b1 \<and>
     dir_upto (unat bs) b' ((es @ [(0, ft, name)]) @ map (\<lambda>(name, ft). (0, ft, name)) xs) prev' (unat off')"
    by (rule Cons.IH [OF a(4)]) (use Cons.prems a x in auto)
  then show ?case using a ok x by (auto simp del: de_Morgan_disj de_Morgan_conj)
qed

lemma first_entry:
  assumes bs: "264 \<le> unat bs" and fit: "24 \<le> length b"
  shows "add_dentry bs b 0 None self [46] 2 = Inr (0, 12, blit b 0 (dentry_bytes self [46] 2))"
    and "dir_upto (unat bs) (blit b 0 (dentry_bytes self [46] 2)) [(self, 2, [46])] 0 12"
proof -
  have r: "dentry_rec_len [46] = 12" "rec_size [46] = 12" by (simp_all add: dentry_rec_len_def rec_size_def)
  have "11 div unat bs = 0" using bs by simp
  then have z: "(11 :: u32) div bs = 0" by (simp add: word_unat_eq_iff unat_div)
  note p = put_entry_bytes [of "[46]" 0 b self 2]
  have q: "bnd (put32 b 0 self) (\<lambda>data. bnd (put16 data 4 12) (\<lambda>data. bnd (put8 data 6 1) (\<lambda>data.
      bnd (put8 data 7 2) (\<lambda>data. bnd (put_bytes data 8 [46]) (\<lambda>data. Inr (0, 12, data)))))) =
      bnd (Inr (blit b 0 (dentry_bytes self [46] 2))) (\<lambda>data. Inr (0 :: nat, 12 :: u32, data))"
    using p fit r(1) by (simp add: bnd_assoc flip: p)
  show "add_dentry bs b 0 None self [46] 2 = Inr (0, 12, blit b 0 (dentry_bytes self [46] 2))"
    using q r(1) z by (simp add: add_dentry_def Let_def)
  show "dir_upto (unat bs) (blit b 0 (dentry_bytes self [46] 2)) [(self, 2, [46])] 0 12"
    using dentry_bytes_record [of "[46]" 0 b "unat bs" self 2] fit r(2) \<open>11 div unat bs = 0\<close> by (simp add: dir_upto_def)
qed

text \<open>The allocated data: whole blocks, less than one more than the entries need.\<close>

lemma dir_data_length:
  assumes bs: "264 \<le> unat bs" "unat bs \<le> 32768"
    and names: "\<forall>d \<in> set dentries. length (d_filename d) \<le> 255" and few: "length dentries \<le> 4000000"
    and len: "len = DIV_ROUND_UP (dentry_size bs dentries) bs * bs"
  defines "E \<equiv> ends (unat bs) 24 (map d_filename dentries)"
  shows "24 \<le> E" "E \<le> unat len" "unat len < E + unat bs" "\<exists>q. unat len = q * unat bs" "unat len + 264 < 2 ^ 32"
proof -
  let ?B = "unat bs" and ?names = "map d_filename dentries"
  have nm: "\<forall>n \<in> set ?names. length n \<le> 255" using names by simp
  have Eg: "24 \<le> E" "E \<le> 24 + 528 * length dentries"
    using ends_le [of ?names ?B 24] ends_growth [OF nm bs(1), of 24] nm rec_size_bounds(2) bs(1)
    unfolding E_def by (fastforce, simp)
  have sz: "unat (dentry_size bs dentries) = E"
    using dentry_size_ends [OF nm bs(1), of 24] few bs(2) by (simp add: dentry_size_def E_def)
  have q: "unat (DIV_ROUND_UP (dentry_size bs dentries) bs) = (E + ?B - 1) div ?B"
    using sz Eg few bs unat_DIV_ROUND_UP [of bs "dentry_size bs dentries"] by simp
  note up = ceiling_div_bounds [of ?B E]
  have "((E + ?B - 1) div ?B) * ?B < 2 ^ 32" using up(2) bs Eg few by (simp add: mult.commute)
  then have lenu: "unat len = (E + ?B - 1) div ?B * ?B" using len q by (simp add: unat_mult_small)
  then show "\<exists>q. unat len = q * ?B" by blast
  show "24 \<le> E" by (rule Eg)
  show L: "E \<le> unat len" "unat len < E + ?B" using up bs lenu by (simp_all add: mult.commute)
  show "unat len + 264 < 2 ^ 32" using L Eg few bs by simp
qed

lemma last_record_block:
  assumes "n = q * B" "e \<le> n" "n < e + B" "0 < e"
  shows "(e - 1) div B = (n - 1) div (B :: nat)"
proof -
  have "0 < q" using assms by (cases q) simp_all
  then obtain p where p: "q = Suc p" by (cases q) simp_all
  have "e - 1 = p * B + (e - 1 - p * B)" "e - 1 - p * B < B" using assms p by simp_all
  then have "(e - 1) div B = p" using div_block by metis
  moreover have "n - 1 = p * B + (B - 1)" "B - 1 < B" using assms p by simp_all
  then have "(n - 1) div B = p" using div_block by metis
  ultimately show ?thesis by simp
qed

text \<open>The two entries every directory starts with.\<close>

lemma dot_records_ok:
  assumes bs: "264 \<le> unat bs" "unat bs \<le> 32768" and n: "24 \<le> length data" "length data + 264 < 2 ^ 32"
  obtains b off where "add_dentry bs (blit data 0 (dentry_bytes self [46] 2)) 12 (Some 0) parent [46, 46] 2 = Inr (12, off, b)"
    and "unat off = 24" "length b = length data" "dir_upto (unat bs) b [(self, 2, [46]), (parent, 2, [46, 46])] 12 24"
proof -
  let ?B = "unat bs" and ?b1 = "blit data 0 (dentry_bytes self [46] 2)"
  note f = first_entry [OF bs(1) n(1), of self]
  have b1l: "length ?b1 = length data" using n by (simp add: length_blit)
  have n2: "length [46, 46 :: u8] \<le> 255" "rec_size [46, 46] = 12" by (simp_all add: rec_size_def)
  have u12: "unat (12 :: u32) = 12" by simp
  have s2: "slot ?B 12 [46, 46] = 12" using bs(1) n2(2) by (simp add: slot_def)
  have big: "length ?b1 + 264 < 2 ^ 32" using n b1l by simp
  have fit: "slot ?B (unat (12 :: u32)) [46, 46] + rec_size [46, 46] \<le> length ?b1" unfolding u12 s2 n2(2) b1l using n by simp
  obtain b' off' where "add_dentry bs ?b1 12 (Some 0) parent [46, 46] 2 = Inr (slot ?B (unat (12 :: u32)) [46, 46], off', b')"
    "unat off' = slot ?B (unat (12 :: u32)) [46, 46] + rec_size [46, 46]" "length b' = length ?b1"
    "dir_upto ?B b' ([(self, 2, [46])] @ [(parent, 2, [46, 46])]) (slot ?B (unat (12 :: u32)) [46, 46]) (unat off')"
    using add_dentry_ok [OF f(2) [folded u12] n2(1) bs big fit, of parent 2] .
  then show ?thesis using that [of off' b'] unfolding u12 s2 n2(2) b1l by simp
qed

text \<open>Stretching the last record to the end of the data.\<close>

lemma last_record_padded:
  assumes d: "dir_upto B b es prev e" and bs: "0 < B" "B \<le> 32768"
    and n: "length b = q * B" "e \<le> length b" "length b < e + B" "0 < e"
  shows "prev + 4 + 2 \<le> length b"
    and "dir_upto B (blit b (prev + 4) (le16_bytes (le16 b (prev + 4) + of_nat (length b - e)))) es prev (length b)"
proof -
  note po = dir_upto_off [OF d]
  note blk = last_record_block [OF n]
  have pb: "prev div B = (e - 1) div B" using d po by (simp add: dir_upto_def sound_rec_def)
  have "prev div B * B \<le> prev" by simp
  moreover have "length b - 1 < (length b - 1) div B * B + B"
    using dividend_less_div_times [of B "length b - 1"] bs by (simp add: add.commute)
  ultimately have small: "length b - prev < 2 ^ 16" using pb blk bs by simp
  show "dir_upto B (blit b (prev + 4) (le16_bytes (le16 b (prev + 4) + of_nat (length b - e)))) es prev (length b)"
    by (rule pad_record [OF d n(2) _ small]) (use pb blk in simp_all)
  show "prev + 4 + 2 \<le> length b" using po n by simp
qed

text \<open>
  C4. For a directory whose data has the size \<^verbatim>\<open>make_directory\<close> allocates, writing its entries
  succeeds (the internal error never happens), and a reader that walks the records finds ``.'',
  ``..'' and then exactly the given entries in order, every record inside one block and the last
  one ending with the data.
\<close>

theorem directory_round_trip:
  assumes bs: "264 \<le> unat bs" "unat bs \<le> 32768"
    and names: "\<forall>d \<in> set dentries. length (d_filename d) \<le> 255" and few: "length dentries \<le> 4000000"
    and len: "len = DIV_ROUND_UP (dentry_size bs dentries) bs * bs" and data: "length data = unat len"
  shows "\<exists>ds data'. write_dentries bs len self parent (map (\<lambda>d. (d_filename d, d_file_type d)) dentries) data = Inr (ds, data') \<and>
    length ds = length dentries \<and> length data' = length data \<and>
    read_dir (length dentries + 3) (unat bs) data' 0 =
      Some ([(self, 2, [46]), (parent, 2, [46, 46])] @ map (\<lambda>d. (0, d_file_type d, d_filename d)) dentries)"
proof -
  let ?B = "unat bs" and ?xs = "map (\<lambda>d. (d_filename d, d_file_type d)) dentries"
  let ?es = "[(self, 2, [46]), (parent, 2, [46, 46])] @ map (\<lambda>d. (0, d_file_type d, d_filename d)) dentries"
  define E where "E = ends ?B 24 (map d_filename dentries)"
  note L = dir_data_length [OF bs names few len, folded E_def data]
  obtain q where q: "length data = q * ?B" using L(4) by blast
  have l24: "24 \<le> length data" using L by simp
  obtain b2 off2 where a2: "add_dentry bs (blit data 0 (dentry_bytes self [46] 2)) 12 (Some 0) parent [46, 46] 2 = Inr (12, off2, b2)"
    "unat off2 = 24" "length b2 = length data" "dir_upto ?B b2 [(self, 2, [46]), (parent, 2, [46, 46])] 12 24"
    using dot_records_ok [OF bs l24 L(5), of self parent] .
  have "\<exists>ds prev' off' b'. add_dentries bs len b2 off2 12 ?xs = Inr (ds, prev', off', b') \<and> length ds = length ?xs \<and>
     unat off' = ends ?B (unat off2) (map fst ?xs) \<and> length b' = length b2 \<and>
     dir_upto ?B b' ([(self, 2, [46]), (parent, 2, [46, 46])] @ map (\<lambda>(name, ft). (0, ft, name)) ?xs) prev' (unat off')"
    by (rule add_dentries_ok) (use a2 names bs L data in \<open>auto simp: E_def comp_def\<close>)
  then obtain ds prev off b3 where a3: "add_dentries bs len b2 off2 12 ?xs = Inr (ds, prev, off, b3)" "length ds = length dentries"
     "unat off = E" "length b3 = length data" "dir_upto ?B b3 ?es prev E"
    using a2(2,3) by (auto simp: E_def comp_def)
  let ?b4 = "blit b3 (prev + 4) (le16_bytes (le16 b3 (prev + 4) + of_nat (length data - E)))"
  have pad: "prev + 4 + 2 \<le> length b3" "dir_upto ?B ?b4 ?es prev (length data)"
    using last_record_padded [OF a3(5), of q] bs L q by (simp_all add: a3(4))
  have "unat (len - off) = length data - E" using data a3(3) L by (simp add: unat_sub word_le_nat_alt)
  then have "ucast (len - off) = (of_nat (length data - E) :: u16)"
    by (simp add: word_unat_eq_iff unsigned_ucast_eq unsigned_of_nat)
  then have run: "write_dentries bs len self parent ?xs data = Inr (ds, ?b4)"
    using first_entry(1) [OF bs(1) l24, of self] a2(1) a3(1) pad(1)
    by (simp add: write_dentries_def get16_def put16_def put_bytes_def)
  have l4: "length ?b4 = length data" using pad(1) a3(4) by (simp add: length_blit)
  have "dir_chain ?B ?b4 0 ?es (length ?b4)" using dir_upto_all [OF pad(2)] l4 by simp
  then have "read_dir (length dentries + 3) ?B ?b4 0 = Some ?es" by (rule read_dir_chain) simp
  then show ?thesis using run a3(2) l4 by blast
qed

theorem directory_round_trip_witness:
  "\<exists>ds data'. write_dentries 1024 1024 11 2 [([97, 98], 1), ([99], 7)] (replicate 1024 0) = Inr (ds, data') \<and>
    read_dir 5 1024 data' 0 = Some [(11, 2, [46]), (2, 2, [46, 46]), (0, 1, [97, 98]), (0, 7, [99])]"
proof -
  let ?d = "\<lparr>d_path = [], d_full_path = None, d_filename = [], d_link = None, d_size = 0, d_file_type = 1, d_mode = 0, d_uid = 0,
     d_gid = 0, d_inode = None, d_mtime = 0, d_secon = None, d_capabilities = 0\<rparr>"
  have sz: "dentry_size 1024 [?d\<lparr>d_filename := [97, 98]\<rparr>, ?d\<lparr>d_filename := [99], d_file_type := 7\<rparr>] = 48"
    by (simp add: dentry_size_def dentry_len_def ALIGN_def DIV_ROUND_UP_def)
  show ?thesis
    using directory_round_trip [of 1024 "[?d\<lparr>d_filename := [97, 98]\<rparr>, ?d\<lparr>d_filename := [99], d_file_type := 7\<rparr>]" 1024 "replicate 1024 0" 11 2]
    by (simp add: sz [simplified] DIV_ROUND_UP_def) blast
qed

end
