(* ===== verification/Contents.thy ===== *)
theory Contents
  imports Directory
begin

text \<open>
  The rest of \<^verbatim>\<open>contents.c\<close>, with the list of extended attribute blocks of
  \<^verbatim>\<open>allocate.c\<close>: files, symbolic links, permissions, and extended attributes stored behind
  an inode or in a block of their own. An attribute region is part of a byte buffer (an inode table or
  a heap block); entries grow from its start, values from its end. The reader \<open>xattr_lookup\<close>
  finds an attribute by index and name.
\<close>

section \<open>Files and links\<close>

text \<open>\<^verbatim>\<open>inode->i_flags |= aux_info.default_i_flags\<close>\<close>

definition or_default_flags :: "inode_ptr \<Rightarrow> ext4_st \<Rightarrow> ext4_st res" where
  "or_default_flags inode s =
     bnd (inode_get32 s inode i_flags) (\<lambda>flags.
     inode_put32 inode i_flags (flags OR default_i_flags (aux_info s)) s)"

definition make_file :: "bytes \<Rightarrow> u64 \<Rightarrow> ext4_st \<Rightarrow> (u32 \<times> ext4_st) res" where
  "make_file filename len s =
     bnd (allocate_inode s) (\<lambda>(inode_num, s).
     if inode_num = EXT4_ALLOCATE_FAILED then error_then (force s) (EXT4_ALLOCATE_FAILED, s)
     else
       bnd (get_inode inode_num s) (\<lambda>(inode, s).
       bnd (if 0 < len then inode_allocate_file_extents inode len filename s else Inr s) (\<lambda>s.
       bnd (inode_put16 inode i_mode 0x8000 s) (\<lambda>s.
       bnd (inode_put16 inode i_links_count 1 s) (\<lambda>s.
       bnd (or_default_flags inode s) (\<lambda>s.
       Inr (inode_num, s)))))))"

text \<open>
  A target of up to 59 bytes is stored in \<^verbatim>\<open>i_block\<close>. A longer one gets one block; its data
  pointer is not tested, and a target longer than the block runs over the buffer.
\<close>

definition make_link :: "bytes \<Rightarrow> ext4_st \<Rightarrow> (u32 \<times> ext4_st) res" where
  "make_link target s =
     (let len = of_nat (length target) :: u32 in
      bnd (allocate_inode s) (\<lambda>(inode_num, s).
      if inode_num = EXT4_ALLOCATE_FAILED then error_then (force s) (EXT4_ALLOCATE_FAILED, s)
      else
        bnd (get_inode inode_num s) (\<lambda>(inode, s).
        bnd (inode_put16 inode i_mode 0xA000 s) (\<lambda>s.
        bnd (inode_put16 inode i_links_count 1 s) (\<lambda>s.
        bnd (or_default_flags inode s) (\<lambda>s.
        bnd (inode_put32 inode i_size_lo len s) (\<lambda>s.
        if len + 1 \<le> 60
        then bnd (inode_upd inode (\<lambda>t off. put_bytes t (off + i_block) target) s) (\<lambda>s. Inr (inode_num, s))
        else
          bnd (inode_allocate_data_indirect inode (block_size (info s)) (block_size (info s)) s) (\<lambda>(data, s).
          case data of
            None \<Rightarrow> Inl Undefined
          | Some buf \<Rightarrow>
              bnd (mem_upd buf (\<lambda>b. put_bytes b 0 target) s) (\<lambda>s.
              bnd (inode_put32 inode i_blocks_lo (block_size (info s) div 512) s) (\<lambda>s.
              Inr (inode_num, s)))))))))))"

definition inode_set_permissions :: "u32 \<Rightarrow> u16 \<Rightarrow> u16 \<Rightarrow> u16 \<Rightarrow> u32 \<Rightarrow> ext4_st \<Rightarrow> (int \<times> ext4_st) res" where
  "inode_set_permissions inode_num mode uid gid mtime s =
     bnd (get_inode inode_num s) (\<lambda>(inode, s).
     bnd (inode_get16 s inode i_mode) (\<lambda>m.
     bnd (inode_put16 inode i_mode (m OR mode) s) (\<lambda>s.
     bnd (inode_put16 inode i_uid uid s) (\<lambda>s.
     bnd (inode_put16 inode i_gid gid s) (\<lambda>s.
     bnd (inode_put32 inode i_mtime mtime s) (\<lambda>s.
     bnd (inode_put32 inode i_atime mtime s) (\<lambda>s.
     bnd (inode_put32 inode i_ctime mtime s) (\<lambda>s.
     Inr (0, s)))))))))"

section \<open>Extended attribute entries\<close>

text \<open>
  \<^verbatim>\<open>struct ext4_xattr_entry\<close>: name length and index (bytes 0 and 1), value offset (2), value
  block (4), value size (8), hash (12), name (16). The macros of \<^verbatim>\<open>xattr.h\<close>: the size of an
  entry and the room of a value, both rounded up to a multiple of four.
\<close>

definition EXT4_XATTR_LEN :: "nat \<Rightarrow> nat" where
  "EXT4_XATTR_LEN name_len = (name_len + 19) div 4 * 4"

definition EXT4_XATTR_SIZE :: "u32 \<Rightarrow> u32" where
  "EXT4_XATTR_SIZE sz = (sz + 3) AND NOT 3"

definition IS_LAST_ENTRY :: "bytes \<Rightarrow> nat \<Rightarrow> bool res" where
  "IS_LAST_ENTRY b entry = bnd (get32 b entry) (\<lambda>w. Inr (w = 0))"

definition EXT4_XATTR_NEXT :: "bytes \<Rightarrow> nat \<Rightarrow> nat res" where
  "EXT4_XATTR_NEXT b entry = bnd (get8 b entry) (\<lambda>n. Inr (entry + EXT4_XATTR_LEN (unat n)))"

lemma xattr_len_pos: "16 \<le> EXT4_XATTR_LEN n"
  unfolding EXT4_XATTR_LEN_def by presburger

lemma xattr_next_grows: "EXT4_XATTR_NEXT b e = Inr e' \<Longrightarrow> e + 16 \<le> e'"
  using xattr_len_pos by (auto simp: EXT4_XATTR_NEXT_def outcome_simps)

lemma not_last_inside: "IS_LAST_ENTRY b e = Inr x \<Longrightarrow> e + 4 \<le> length b"
  by (auto simp: IS_LAST_ENTRY_def outcome_simps get32_def split: if_splits)

text \<open>The loop of \<^verbatim>\<open>xattr_free_space\<close>; \<open>end\<close> may fall below the start of the buffer.\<close>

function xattr_free_loop :: "bytes \<Rightarrow> nat \<Rightarrow> int \<Rightarrow> (nat \<times> int) res" where
  "xattr_free_loop b entry end' =
     bnd (IS_LAST_ENTRY b entry) (\<lambda>last.
     if \<not> last \<and> int entry < end' then
       bnd (get32 b (entry + 8)) (\<lambda>sz.
       bnd (EXT4_XATTR_NEXT b entry) (\<lambda>next.
       xattr_free_loop b next (end' - int (unat (EXT4_XATTR_SIZE sz)))))
     else Inr (entry, end'))"
  by pat_completeness auto
termination
proof (relation "measure (\<lambda>(b, entry, end'). nat (end' - int entry))")
  fix b entry end' x xa xb
  assume "\<not> x \<and> int entry < end'" "EXT4_XATTR_NEXT b entry = Inr xb"
  then show "((b, xb, end' - int (unat (EXT4_XATTR_SIZE xa))), b, entry, end') \<in> measure (\<lambda>(b, entry, end'). nat (end' - int entry))"
    by simp (use xattr_next_grows [of b entry xb] uint_ge_0 [of "EXT4_XATTR_SIZE xa"] in linarith)
qed simp

declare xattr_free_loop.simps [simp del]

definition xattr_free_space :: "bool \<Rightarrow> bytes \<Rightarrow> nat \<Rightarrow> nat \<Rightarrow> nat res" where
  "xattr_free_space fc b entry end' =
     bnd (xattr_free_loop b entry (int end')) (\<lambda>(entry, e).
     if e < int entry then error_then fc 0 else Inr (nat (e - int entry)))"

function xattr_get_last :: "bytes \<Rightarrow> nat \<Rightarrow> nat res" where
  "xattr_get_last b entry =
     bnd (IS_LAST_ENTRY b entry) (\<lambda>last.
     if last then Inr entry else bnd (EXT4_XATTR_NEXT b entry) (xattr_get_last b))"
  by pat_completeness auto
termination
proof (relation "measure (\<lambda>(b, entry). length b - entry)")
  fix b entry x xa
  assume "IS_LAST_ENTRY b entry = Inr x" "EXT4_XATTR_NEXT b entry = Inr xa"
  then show "((b, xa), b, entry) \<in> measure (\<lambda>(b, entry). length b - entry)"
    using xattr_next_grows [of b entry xa] not_last_inside [of b entry x] by simp
qed simp

declare xattr_get_last.simps [simp del]

text \<open>\<^verbatim>\<open>memcmp\<close> of two byte strings of the same length.\<close>

definition memcmp :: "bytes \<Rightarrow> bytes \<Rightarrow> int" where
  "memcmp xs ys = (case find (\<lambda>(x, y). x \<noteq> y) (zip xs ys) of
     None \<Rightarrow> 0 | Some (x, y) \<Rightarrow> if x < y then - 1 else 1)"

definition get_bytes :: "bytes \<Rightarrow> nat \<Rightarrow> nat \<Rightarrow> bytes res" where
  "get_bytes b off n = (if off + n \<le> length b then Inr (take n (drop off b)) else Inl Undefined)"

definition xattr_cmp :: "bytes \<Rightarrow> nat \<Rightarrow> nat \<Rightarrow> int res" where
  "xattr_cmp b next entry =
     bnd (get8 b (next + 1)) (\<lambda>i'. bnd (get8 b (entry + 1)) (\<lambda>i.
     bnd (get8 b next) (\<lambda>l'. bnd (get8 b entry) (\<lambda>l.
     if uint i' - uint i \<noteq> 0 then Inr (uint i' - uint i)
     else if uint l' - uint l \<noteq> 0 then Inr (uint l' - uint l)
     else bnd (get_bytes b (next + 16) (unat l')) (\<lambda>n'.
          bnd (get_bytes b (entry + 16) (unat l')) (\<lambda>n. Inr (memcmp n' n)))))))"

function xattr_assert_sane :: "bool \<Rightarrow> bytes \<Rightarrow> nat \<Rightarrow> unit res" where
  "xattr_assert_sane fc b entry =
     bnd (IS_LAST_ENTRY b entry) (\<lambda>last.
     if last then Inr ()
     else
       bnd (EXT4_XATTR_NEXT b entry) (\<lambda>next.
       bnd (IS_LAST_ENTRY b next) (\<lambda>last.
       if last then Inr ()
       else
         bnd (xattr_cmp b next entry) (\<lambda>cmp.
         if cmp \<le> 0 then error_then fc () else xattr_assert_sane fc b next))))"
  by pat_completeness auto
termination
proof (relation "measure (\<lambda>(fc, b, entry). length b - entry)")
  fix fc b entry x xa
  assume "IS_LAST_ENTRY b entry = Inr x" "EXT4_XATTR_NEXT b entry = Inr xa"
  then show "((fc, b, xa), fc, b, entry) \<in> measure (\<lambda>(fc, b, entry). length b - entry)"
    using xattr_next_grows [of b entry xa] not_last_inside [of b entry x] by simp
qed simp

declare xattr_assert_sane.simps [simp del]

text \<open>\<^verbatim>\<open>char\<close> is unsigned, as on ARM; the names used are ASCII.\<close>

definition hash_name :: "bytes \<Rightarrow> u32" where
  "hash_name name = foldl (\<lambda>hash c. push_bit 5 hash XOR drop_bit 27 hash XOR ucast c) 0 name"

definition hash_value :: "u32 \<Rightarrow> u32 list \<Rightarrow> u32" where
  "hash_value hash ws = foldl (\<lambda>hash w. push_bit 16 hash XOR drop_bit 16 hash XOR w) hash ws"

definition ext4_xattr_hash_entry :: "bytes \<Rightarrow> nat \<Rightarrow> nat \<Rightarrow> bytes res" where
  "ext4_xattr_hash_entry b header entry =
     bnd (get8 b entry) (\<lambda>name_len.
     bnd (get_bytes b (entry + 16) (unat name_len)) (\<lambda>name.
     bnd (get32 b (entry + 4)) (\<lambda>value_block.
     bnd (get32 b (entry + 8)) (\<lambda>value_size.
     bnd (if value_block = 0 \<and> value_size \<noteq> 0
          then
            bnd (get16 b (entry + 2)) (\<lambda>offs.
            let n = unat (drop_bit 2 (value_size + 3)) in
            if header + unat offs + 4 * n \<le> length b
            then Inr (hash_value (hash_name name) (map (\<lambda>i. le32 b (header + unat offs + 4 * i)) [0..<n]))
            else Inl Undefined)
          else Inr (hash_name name)) (\<lambda>hash.
     put32 b (entry + 12) hash)))))"

text \<open>NULL is \<open>None\<close>; otherwise the offset of the new entry and the buffer.\<close>

definition xattr_addto_range ::
    "bool \<Rightarrow> bytes \<Rightarrow> nat \<Rightarrow> nat \<Rightarrow> nat \<Rightarrow> u8 \<Rightarrow> bytes \<Rightarrow> bytes \<Rightarrow> (nat \<times> bytes) option res" where
  "xattr_addto_range fc b block_start block_end first name_index name value =
     (let name_len = length name;
          value_room = unat (EXT4_XATTR_SIZE (of_nat (length value))) in
      if 255 < name_len then Inr None
      else
        bnd (xattr_free_space fc b first block_end) (\<lambda>available_size.
        if available_size < unat (of_nat (EXT4_XATTR_LEN name_len) + EXT4_XATTR_SIZE (of_nat (length value))) then Inr None
        else
          bnd (xattr_get_last b first) (\<lambda>new_entry.
          let val = new_entry + available_size - value_room in
          bnd (put_bytes b new_entry (replicate (EXT4_XATTR_LEN name_len) 0)) (\<lambda>b.
          bnd (put8 b new_entry (of_nat name_len)) (\<lambda>b.
          bnd (put8 b (new_entry + 1) name_index) (\<lambda>b.
          bnd (put_bytes b (new_entry + 16) name) (\<lambda>b.
          bnd (put32 b (new_entry + 4) 0) (\<lambda>b.
          bnd (put32 b (new_entry + 8) (of_nat (length value))) (\<lambda>b.
          bnd (put16 b (new_entry + 2) (of_nat (val - block_start))) (\<lambda>b.
          bnd (put_bytes b val (replicate value_room 0)) (\<lambda>b.
          bnd (put_bytes b val value) (\<lambda>b.
          bnd (xattr_assert_sane fc b first) (\<lambda>_.
          Inr (Some (new_entry, b)))))))))))))))"

section \<open>Where attributes are stored\<close>

text \<open>The header behind the inode is at offset 156, the first entry at 160.\<close>

definition xattr_addto_inode ::
    "inode_ptr \<Rightarrow> u8 \<Rightarrow> bytes \<Rightarrow> bytes \<Rightarrow> ext4_st \<Rightarrow> (int \<times> ext4_st) res" where
  "xattr_addto_inode inode name_index name value s =
     bnd (inode_table_of s (fst inode)) (\<lambda>t.
     let first = snd inode + sizeof_ext4_inode + 4 in
     bnd (xattr_addto_range (force s) t first (snd inode + unat (inode_size (info s))) first name_index name value) (\<lambda>result.
     case result of
       None \<Rightarrow> Inr (- 1, s)
     | Some (_, t) \<Rightarrow>
         bnd (put32 t (snd inode + sizeof_ext4_inode) EXT4_XATTR_MAGIC) (\<lambda>t.
         bnd (put16 t (snd inode + i_extra_isize) 28) (\<lambda>t.
         bnd (inode_upd inode (\<lambda>_ _. Inr t) s) (\<lambda>s. Inr (0, s))))))"

definition xattr_list_find :: "ext4_st \<Rightarrow> inode_ptr \<Rightarrow> nat option" where
  "xattr_list_find s inode = map_option snd (find (\<lambda>(i, _). i = inode) (xattrs (aux_info s)))"

text \<open>The list element is allocated without a test.\<close>

definition xattr_list_insert :: "inode_ptr \<Rightarrow> nat \<Rightarrow> ext4_st \<Rightarrow> ext4_st res" where
  "xattr_list_insert inode header s =
     (if oom s (mallocs s) then Inl Undefined
      else Inr (s\<lparr>aux_info := (aux_info s)\<lparr>xattrs := (inode, header) # xattrs (aux_info s)\<rparr>, mallocs := mallocs s + 1\<rparr>))"

definition get_xattr_block_for_inode :: "inode_ptr \<Rightarrow> ext4_st \<Rightarrow> (nat option \<times> ext4_st) res" where
  "get_xattr_block_for_inode inode s =
     (case xattr_list_find s inode of
        Some block \<Rightarrow> Inr (Some block, s)
      | None \<Rightarrow>
          bnd (allocate_block s) (\<lambda>(block_num, s).
          case calloc_buf (unat (block_size (info s))) s of
            (None, s) \<Rightarrow> error_then (force s) (None, s)
          | (Some block, s) \<Rightarrow>
              bnd (mem_upd block (put_all [(0, le32_bytes EXT4_XATTR_MAGIC), (4, le32_bytes 1), (8, le32_bytes 1)]) s) (\<lambda>s.
              bnd (inode_get32 s inode i_blocks_lo) (\<lambda>n.
              bnd (inode_put32 inode i_blocks_lo (n + block_size (info s) div 512) s) (\<lambda>s.
              bnd (inode_put32 inode i_file_acl_lo block_num s) (\<lambda>s.
              let failed = sparse_err s (length (sparse s));
                  s = sparse_file_add (Add_Data (Heap_Buf block 0) (block_size (info s)) block_num) s in
              if failed then error_then (force s) (None, s\<lparr>mem := (mem s)(block := None)\<rparr>)
              else bnd (xattr_list_insert inode block s) (\<lambda>s. Inr (Some block, s))))))))"

definition xattr_addto_block ::
    "inode_ptr \<Rightarrow> u8 \<Rightarrow> bytes \<Rightarrow> bytes \<Rightarrow> ext4_st \<Rightarrow> (int \<times> ext4_st) res" where
  "xattr_addto_block inode name_index name value s =
     bnd (get_xattr_block_for_inode inode s) (\<lambda>(header, s).
     case header of
       None \<Rightarrow> Inr (- 1, s)
     | Some block \<Rightarrow>
         bnd (mem_get s block) (\<lambda>b.
         bnd (xattr_addto_range (force s) b 0 (unat (block_size (info s))) 32 name_index name value) (\<lambda>result.
         case result of
           None \<Rightarrow> Inr (- 1, s)
         | Some (entry, b) \<Rightarrow>
             bnd (ext4_xattr_hash_entry b 0 entry) (\<lambda>b. Inr (0, s\<lparr>mem := (mem s)(block \<mapsto> b)\<rparr>)))))"

definition xattr_add :: "u32 \<Rightarrow> u8 \<Rightarrow> bytes \<Rightarrow> bytes option \<Rightarrow> ext4_st \<Rightarrow> (int \<times> ext4_st) res" where
  "xattr_add inode_num name_index name value s =
     (case value of
        None \<Rightarrow> Inr (0, s)
      | Some value \<Rightarrow>
          bnd (get_inode inode_num s) (\<lambda>(inode, s).
          bnd (xattr_addto_inode inode name_index name value s) (\<lambda>(result, s).
          if result \<noteq> 0 then xattr_addto_block inode name_index name value s else Inr (result, s))))"

text \<open>The attributes \<^verbatim>\<open>security.selinux\<close> and \<^verbatim>\<open>security.capability\<close>; the string includes
  its NUL.\<close>

definition XATTR_SELINUX_SUFFIX :: bytes where
  "XATTR_SELINUX_SUFFIX = [115, 101, 108, 105, 110, 117, 120]"

definition XATTR_CAPS_SUFFIX :: bytes where
  "XATTR_CAPS_SUFFIX = [99, 97, 112, 97, 98, 105, 108, 105, 116, 121]"

definition inode_set_selinux :: "u32 \<Rightarrow> bytes option \<Rightarrow> ext4_st \<Rightarrow> (int \<times> ext4_st) res" where
  "inode_set_selinux inode_num secon s =
     (case secon of None \<Rightarrow> Inr (0, s)
      | Some c \<Rightarrow> xattr_add inode_num 6 XATTR_SELINUX_SUFFIX (Some (c @ [0])) s)"

text \<open>\<open>magic_etc\<close> is \<^verbatim>\<open>VFS_CAP_REVISION | VFS_CAP_FLAGS_EFFECTIVE\<close> of the kernel headers.\<close>

definition cap_data :: "u32 \<Rightarrow> u64 \<Rightarrow> bytes" where
  "cap_data magic_etc capabilities =
     le32_bytes magic_etc @ le32_bytes (ucast capabilities) @ le32_bytes 0 @
     le32_bytes (ucast (drop_bit 32 capabilities)) @ le32_bytes 0"

definition inode_set_capabilities :: "u32 \<Rightarrow> u32 \<Rightarrow> u64 \<Rightarrow> ext4_st \<Rightarrow> (int \<times> ext4_st) res" where
  "inode_set_capabilities magic_etc inode_num capabilities s =
     (if capabilities = 0 then Inr (0, s)
      else xattr_add inode_num 6 XATTR_CAPS_SUFFIX (Some (cap_data magic_etc capabilities)) s)"

end
