(* ===== verification/Xattrs.thy ===== *)
theory Xattrs
  imports Contents
begin

text \<open>
  What the extended attribute writer of \<^verbatim>\<open>contents.c\<close> promises. \<open>xattr_area\<close> describes a
  region with its attributes: the entries one after another from the start, the values packed from
  the end, zeroes between. \<open>xattr_lookup\<close> is the reader of the filesystem: it walks the entries
  up to the terminator. Adding an attribute extends the described list by one, and every attribute is
  found again, provided four bytes are left for the terminator.
\<close>

section \<open>Rounding\<close>

lemma unat_and_not_3: "unat (x AND NOT 3 :: u32) = unat x div 4 * 4"
proof -
  have "unat (x AND NOT (mask 2)) = unat x div 2 ^ 2 * 2 ^ 2" by (rule unat_and_not_mask)
  moreover have "mask 2 = (3 :: u32)" by (simp add: mask_eq_exp_minus_1)
  moreover have "(2 :: nat) ^ 2 = 4" by simp
  ultimately show ?thesis by (simp only:)
qed

definition value_room :: "nat \<Rightarrow> nat" where
  "value_room n = (n + 3) div 4 * 4"

lemma value_room_ge: "n \<le> value_room n" "value_room n \<le> n + 3"
  unfolding value_room_def by linarith+

lemma xattr_len_ge: "n + 16 \<le> EXT4_XATTR_LEN n" "EXT4_XATTR_LEN n \<le> n + 19"
  unfolding EXT4_XATTR_LEN_def by linarith+

lemma unat_xattr_size:
  assumes "n < 2 ^ 31"
  shows "unat (EXT4_XATTR_SIZE (of_nat n)) = value_room n"
proof -
  have "unat (of_nat n + 3 :: u32) = n + 3"
    using assms unat_add_le [of "of_nat n" 3] by (simp add: unat_of_nat)
  then show ?thesis unfolding EXT4_XATTR_SIZE_def unat_and_not_3 value_room_def by simp
qed

lemma unat_needed_size:
  assumes n: "m \<le> 255" and sz: "n < 2 ^ 31"
  shows "unat (of_nat (EXT4_XATTR_LEN m) + EXT4_XATTR_SIZE (of_nat n)) = EXT4_XATTR_LEN m + value_room n"
  using n sz unat_xattr_size [OF sz] value_room_ge(2) [of n] xattr_len_ge(2) [of m]
    unat_add_le [of "of_nat (EXT4_XATTR_LEN m)" "EXT4_XATTR_SIZE (of_nat n)"]
  by (simp add: unat_of_nat)

section \<open>A region and its attributes\<close>

type_synonym xattr = "(u8 \<times> bytes) \<times> bytes"

definition xattr_at :: "bytes \<Rightarrow> nat \<Rightarrow> nat \<Rightarrow> nat \<Rightarrow> xattr \<Rightarrow> bool" where
  "xattr_at b base e v x = (case x of ((idx, name), value) \<Rightarrow>
     length name \<le> 255 \<and> idx \<noteq> 0 \<and> length value < 2 ^ 31 \<and> base \<le> v \<and> v - base < 2 ^ 16 \<and>
     e + EXT4_XATTR_LEN (length name) \<le> length b \<and> v + value_room (length value) \<le> length b \<and>
     b ! e = of_nat (length name) \<and> b ! (e + 1) = idx \<and> le16 b (e + 2) = of_nat (v - base) \<and>
     le32 b (e + 8) = of_nat (length value) \<and>
     take (length name) (drop (e + 16) b) = name \<and> take (length value) (drop v b) = value)"

fun xattr_area :: "bytes \<Rightarrow> nat \<Rightarrow> nat \<Rightarrow> nat \<Rightarrow> xattr list \<Rightarrow> bool" where
  "xattr_area b base e vend [] \<longleftrightarrow>
     e + 4 \<le> vend \<and> vend \<le> length b \<and> (\<forall>i. e \<le> i \<and> i < vend \<longrightarrow> b ! i = 0)"
| "xattr_area b base e vend (x # xs) \<longleftrightarrow>
     value_room (length (snd x)) \<le> vend \<and> xattr_at b base e (vend - value_room (length (snd x))) x \<and>
     xattr_area b base (e + EXT4_XATTR_LEN (length (snd (fst x)))) (vend - value_room (length (snd x))) xs"

definition entries_len :: "xattr list \<Rightarrow> nat" where
  "entries_len xs = sum_list (map (\<lambda>x. EXT4_XATTR_LEN (length (snd (fst x)))) xs)"

definition values_len :: "xattr list \<Rightarrow> nat" where
  "values_len xs = sum_list (map (\<lambda>x. value_room (length (snd x))) xs)"

lemma region_len_simps [simp]:
  "entries_len [] = 0" "values_len [] = 0"
  "entries_len (x # xs) = EXT4_XATTR_LEN (length (snd (fst x))) + entries_len xs"
  "values_len (x # xs) = value_room (length (snd x)) + values_len xs"
  by (simp_all add: entries_len_def values_len_def)

lemma xattr_area_bounds:
  "xattr_area b base e vend xs \<Longrightarrow> e + entries_len xs + 4 + values_len xs \<le> vend"
  by (induction xs arbitrary: e vend) fastforce+

lemma xattr_area_gap:
  "xattr_area b base e vend xs \<Longrightarrow> e + entries_len xs \<le> i \<Longrightarrow> i < vend - values_len xs \<Longrightarrow> b ! i = 0"
proof (induction xs arbitrary: e vend)
  case (Cons x xs)
  then show ?case
    using Cons.IH [of "e + EXT4_XATTR_LEN (length (snd (fst x)))" "vend - value_room (length (snd x))"]
    by (simp add: add.assoc)
qed simp

lemma xattr_area_end: "xattr_area b base e vend xs \<Longrightarrow> vend - values_len xs \<le> length b"
  by (induction xs arbitrary: e vend) (auto simp flip: diff_diff_left)

section \<open>Walking a region\<close>

lemma zero_word_last:
  assumes "e + 4 \<le> length b" "\<And>i. e \<le> i \<Longrightarrow> i < e + 4 \<Longrightarrow> b ! i = 0"
  shows "IS_LAST_ENTRY b e = Inr True"
  using assms by (simp add: IS_LAST_ENTRY_def get32_def le32_def)

lemma entry_not_last:
  assumes "xattr_at b base e v x"
  shows "IS_LAST_ENTRY b e = Inr False"
    and "EXT4_XATTR_NEXT b e = Inr (e + EXT4_XATTR_LEN (length (snd (fst x))))"
proof -
  obtain idx name val where x: "x = ((idx, name), val)" by (metis prod.collapse)
  have l: "e + 4 \<le> length b" "b ! (e + 1) \<noteq> 0" "e < length b" "b ! e = of_nat (length name)" "length name \<le> 255"
    using assms xattr_len_pos [of "length name"] by (auto simp: xattr_at_def x)
  have "le32 b e \<noteq> 0"
  proof
    assume "le32 b e = 0"
    then have "le32_bytes 0 = [b ! e, b ! (e + 1), b ! (e + 2), b ! (e + 3)]" using le32_bytes_le32 [of b e] by simp
    then show False using l by (simp add: le32_bytes_def)
  qed
  then show "IS_LAST_ENTRY b e = Inr False" using l by (simp add: IS_LAST_ENTRY_def get32_def)
  show "EXT4_XATTR_NEXT b e = Inr (e + EXT4_XATTR_LEN (length (snd (fst x))))"
    using l by (simp add: EXT4_XATTR_NEXT_def get8_def x unat_of_nat)
qed

lemma entry_value_size:
  assumes "xattr_at b base e v x"
  shows "get32 b (e + 8) = Inr (of_nat (length (snd x)))" and "length (snd x) < 2 ^ 31"
  using assms xattr_len_pos [of "length (snd (fst x))"] by (auto simp: xattr_at_def get32_def split: prod.splits)

lemma area_last: "xattr_area b base e vend [] \<Longrightarrow> IS_LAST_ENTRY b e = Inr True"
  by (rule zero_word_last) auto

lemma xattr_free_loop_area:
  "xattr_area b base e vend xs \<Longrightarrow>
    xattr_free_loop b e (int vend) = Inr (e + entries_len xs, int (vend - values_len xs))"
proof (induction xs arbitrary: e vend)
  case Nil
  then show ?case using area_last [OF Nil] by (simp add: xattr_free_loop.simps)
next
  case (Cons x xs)
  have at: "xattr_at b base e (vend - value_room (length (snd x))) x" using Cons.prems by simp
  have lt: "e < vend" using xattr_area_bounds [OF Cons.prems] by simp
  have le: "value_room (length (snd x)) \<le> vend" using Cons.prems by simp
  have sz: "unat (EXT4_XATTR_SIZE (of_nat (length (snd x)))) = value_room (length (snd x))"
    by (rule unat_xattr_size [OF entry_value_size(2) [OF at]])
  have nx: "int vend - int (unat (EXT4_XATTR_SIZE (of_nat (length (snd x))))) = int (vend - value_room (length (snd x)))"
    unfolding sz using le by (rule of_nat_diff [symmetric])
  have "xattr_free_loop b e (int vend)
      = xattr_free_loop b (e + EXT4_XATTR_LEN (length (snd (fst x)))) (int (vend - value_room (length (snd x))))"
    using lt by (subst xattr_free_loop.simps) (simp add: entry_not_last [OF at] entry_value_size(1) [OF at] nx [simplified])
  also have "\<dots> = Inr (e + entries_len (x # xs), int (vend - values_len (x # xs)))"
    using Cons.IH [of "e + EXT4_XATTR_LEN (length (snd (fst x)))" "vend - value_room (length (snd x))"] Cons.prems
    by (simp only: xattr_area.simps region_len_simps diff_diff_left add.assoc)
  finally show ?case .
qed

lemma xattr_get_last_area:
  "xattr_area b base e vend xs \<Longrightarrow> xattr_get_last b e = Inr (e + entries_len xs)"
proof (induction xs arbitrary: e vend)
  case Nil
  then show ?case using area_last [OF Nil] by (simp add: xattr_get_last.simps)
next
  case (Cons x xs)
  have at: "xattr_at b base e (vend - value_room (length (snd x))) x" using Cons.prems by simp
  show ?case
    using Cons.IH [of "e + EXT4_XATTR_LEN (length (snd (fst x)))" "vend - value_room (length (snd x))"] Cons.prems
    by (subst xattr_get_last.simps) (simp add: entry_not_last [OF at] add.assoc)
qed

section \<open>The reader\<close>

text \<open>The lookup of the filesystem driver: the first entry with the index and the name.\<close>

function xattr_lookup :: "bytes \<Rightarrow> nat \<Rightarrow> nat \<Rightarrow> u8 \<Rightarrow> bytes \<Rightarrow> bytes option res" where
  "xattr_lookup b base entry idx name =
     bnd (IS_LAST_ENTRY b entry) (\<lambda>last.
     if last then Inr None
     else
       bnd (get8 b entry) (\<lambda>l. bnd (get8 b (entry + 1)) (\<lambda>i.
       bnd (get_bytes b (entry + 16) (unat l)) (\<lambda>n.
       if i = idx \<and> n = name
       then bnd (get16 b (entry + 2)) (\<lambda>offs. bnd (get32 b (entry + 8)) (\<lambda>sz.
            bnd (get_bytes b (base + unat offs) (unat sz)) (\<lambda>v. Inr (Some v))))
       else bnd (EXT4_XATTR_NEXT b entry) (\<lambda>next. xattr_lookup b base next idx name)))))"
  by pat_completeness auto
termination
proof (relation "measure (\<lambda>(b, base, entry, idx, name). length b - entry)")
  fix b :: bytes and base entry :: nat and idx :: u8 and name :: bytes and x xa xb xc xd
  assume "IS_LAST_ENTRY b entry = Inr x" "EXT4_XATTR_NEXT b entry = Inr xd"
  then show "((b, base, xd, idx, name), b, base, entry, idx, name)
      \<in> measure (\<lambda>(b, base, entry, idx, name). length b - entry)"
    using xattr_next_grows [of b entry xd] not_last_inside [of b entry x] by simp
qed simp

declare xattr_lookup.simps [simp del]

lemma xattr_lookup_area:
  "xattr_area b base e vend xs \<Longrightarrow> xattr_lookup b base e idx name = Inr (map_of xs (idx, name))"
proof (induction xs arbitrary: e vend)
  case Nil
  then show ?case using area_last [OF Nil] by (simp add: xattr_lookup.simps)
next
  case (Cons x xs)
  obtain i n val where x: "x = ((i, n), val)" by (metis prod.collapse)
  define v where "v = vend - value_room (length val)"
  have at: "xattr_at b base e v x" using Cons.prems by (simp add: x v_def)
  have len: "unat (of_nat (length n) :: u8) = length n" "unat (of_nat (v - base) :: u16) = v - base"
    "unat (of_nat (length val) :: u32) = length val"
    using at by (simp_all add: xattr_at_def x unat_of_nat del: of_nat_diff)
  have b: "e + EXT4_XATTR_LEN (length n) \<le> length b" "v + value_room (length val) \<le> length b" "base \<le> v"
    using at by (simp_all add: xattr_at_def x)
  have inside: "e + 16 + length n \<le> length b" "v + length val \<le> length b"
    using b xattr_len_ge [of "length n"] value_room_ge [of "length val"] by linarith+
  have reads: "get8 b e = Inr (of_nat (length n))" "get8 b (e + 1) = Inr i" "get_bytes b (e + 16) (length n) = Inr n"
    "get16 b (e + 2) = Inr (of_nat (v - base))" "get32 b (e + 8) = Inr (of_nat (length val))"
    "get_bytes b v (length val) = Inr val"
    using at inside by (simp_all add: xattr_at_def x get8_def get16_def get32_def get_bytes_def)
  have ih: "xattr_lookup b base (e + EXT4_XATTR_LEN (length n)) idx name = Inr (map_of xs (idx, name))"
    using Cons.IH [of "e + EXT4_XATTR_LEN (length n)" v] Cons.prems by (simp add: x v_def)
  have bv: "base + (v - base) = v" using b(3) by simp
  show ?case
    by (subst xattr_lookup.simps) (auto simp: entry_not_last [OF at] reads len bv ih x simp del: One_nat_def of_nat_diff add_2_eq_Suc')
qed

section \<open>Adding an attribute\<close>

lemma take_drop_cong:
  assumes "length b' = length b" "k + n \<le> length b" "\<And>i. k \<le> i \<Longrightarrow> i < k + n \<Longrightarrow> b' ! i = b ! i"
  shows "take n (drop k b') = take n (drop k b)"
  using assms by (intro nth_equalityI) auto

lemma xattr_at_frame:
  assumes at: "xattr_at b base e v x" and l: "length b' = length b"
    and en: "\<And>i. e \<le> i \<Longrightarrow> i < e + EXT4_XATTR_LEN (length (snd (fst x))) \<Longrightarrow> b' ! i = b ! i"
    and va: "\<And>i. v \<le> i \<Longrightarrow> i < v + value_room (length (snd x)) \<Longrightarrow> b' ! i = b ! i"
  shows "xattr_at b' base e v x"
proof -
  obtain i n val where x: "x = ((i, n), val)" by (metis prod.collapse)
  have b: "e + EXT4_XATTR_LEN (length n) \<le> length b" "v + value_room (length val) \<le> length b"
    using at by (simp_all add: xattr_at_def x)
  note len = xattr_len_ge [of "length n"] value_room_ge [of "length val"]
  have "b' ! e = b ! e" "b' ! (e + 1) = b ! (e + 1)" "le16 b' (e + 2) = le16 b (e + 2)" "le32 b' (e + 8) = le32 b (e + 8)"
    using en len by (auto simp: x intro!: le16_cong le32_cong)
  moreover have "take (length n) (drop (e + 16) b') = take (length n) (drop (e + 16) b)"
    using b len en by (intro take_drop_cong [OF l]) (auto simp: x)
  moreover have "take (length val) (drop v b') = take (length val) (drop v b)"
    using b len va by (intro take_drop_cong [OF l]) (auto simp: x)
  ultimately show ?thesis using at l by (simp add: xattr_at_def x)
qed

lemma xattr_area_snoc:
  assumes "xattr_area b base e vend xs" and "length b' = length b"
    and "\<And>i. i < length b \<Longrightarrow> i < e + entries_len xs \<or> vend - values_len xs \<le> i \<Longrightarrow> b' ! i = b ! i"
    and "xattr_area b' base (e + entries_len xs) (vend - values_len xs) [x]"
  shows "xattr_area b' base e vend (xs @ [x])"
  using assms
proof (induction xs arbitrary: e vend)
  case (Cons y xs)
  have at: "xattr_at b base e (vend - value_room (length (snd y))) y" using Cons.prems(1) by simp
  have ub: "e + EXT4_XATTR_LEN (length (snd (fst y))) \<le> length b" "value_room (length (snd y)) \<le> vend" "vend \<le> length b"
    using at Cons.prems(1) by (auto simp: xattr_at_def split: prod.splits)
  have "xattr_at b' base e (vend - value_room (length (snd y))) y"
    using ub by (intro xattr_at_frame [OF at Cons.prems(2)] Cons.prems(3)) auto
  moreover have "xattr_area b' base (e + EXT4_XATTR_LEN (length (snd (fst y)))) (vend - value_room (length (snd y))) (xs @ [x])"
  proof (rule Cons.IH)
    show "xattr_area b base (e + EXT4_XATTR_LEN (length (snd (fst y)))) (vend - value_room (length (snd y))) xs"
      using Cons.prems(1) by simp
    show "b' ! i = b ! i" if "i < length b" "i < e + EXT4_XATTR_LEN (length (snd (fst y))) + entries_len xs
        \<or> vend - value_room (length (snd y)) - values_len xs \<le> i" for i
      using Cons.prems(3) [of i] that by (simp add: diff_diff_add add.assoc)
    show "xattr_area b' base (e + EXT4_XATTR_LEN (length (snd (fst y))) + entries_len xs)
        (vend - value_room (length (snd y)) - values_len xs) [x]"
      using Cons.prems(4) by (simp only: region_len_simps diff_diff_left add.assoc)
  qed (rule Cons.prems(2))
  ultimately show ?case using ub by simp
qed simp

text \<open>The stores of \<^verbatim>\<open>xattr_addto_range\<close>, the entry at \<open>p\<close> and the value at \<open>v\<close>.\<close>

definition entry_image :: "bytes \<Rightarrow> nat \<Rightarrow> nat \<Rightarrow> u8 \<Rightarrow> bytes \<Rightarrow> bytes \<Rightarrow> bytes" where
  "entry_image b p offs idx name value =
     (let b = blit b p (replicate (EXT4_XATTR_LEN (length name)) 0);
          b = blit b p [of_nat (length name)];
          b = blit b (p + 1) [idx];
          b = blit b (p + 16) name;
          b = blit b (p + 4) (le32_bytes 0);
          b = blit b (p + 8) (le32_bytes (of_nat (length value)))
      in blit b (p + 2) (le16_bytes (of_nat offs)))"

definition value_image :: "bytes \<Rightarrow> nat \<Rightarrow> bytes \<Rightarrow> bytes" where
  "value_image b v value = blit (blit b v (replicate (value_room (length value)) 0)) v value"

lemma entry_image_reads:
  assumes p: "p + EXT4_XATTR_LEN (length name) \<le> length b" and n: "length name \<le> 255"
  shows "length (entry_image b p offs idx name value) = length b" (is "length ?e = _")
    and "entry_image b p offs idx name value ! p = of_nat (length name)"
    and "entry_image b p offs idx name value ! (p + 1) = idx"
    and "le16 (entry_image b p offs idx name value) (p + 2) = of_nat offs"
    and "le32 (entry_image b p offs idx name value) (p + 8) = of_nat (length value)"
    and "take (length name) (drop (p + 16) (entry_image b p offs idx name value)) = name"
    and "i < length b \<Longrightarrow> i < p \<or> p + EXT4_XATTR_LEN (length name) \<le> i \<Longrightarrow>
           entry_image b p offs idx name value ! i = b ! i"
proof -
  have l: "p + 16 + length name \<le> length b" "p + 16 \<le> p + EXT4_XATTR_LEN (length name)"
    "p + 16 + length name \<le> p + EXT4_XATTR_LEN (length name)"
    using p xattr_len_ge [of "length name"] by linarith+
  show "length (entry_image b p offs idx name value) = length b"
    using p l by (simp add: entry_image_def Let_def length_blit)
  show "entry_image b p offs idx name value ! p = of_nat (length name)"
    "entry_image b p offs idx name value ! (p + 1) = idx"
    using p l by (simp_all add: entry_image_def Let_def length_blit nth_blit)
  show "le16 (entry_image b p offs idx name value) (p + 2) = of_nat offs"
    "le32 (entry_image b p offs idx name value) (p + 8) = of_nat (length value)"
    using p l by (simp_all add: entry_image_def Let_def length_blit le16_blit_same le32_blit_same le32_blit_other)
  show "take (length name) (drop (p + 16) (entry_image b p offs idx name value)) = name"
    using p l by (intro nth_equalityI) (simp_all add: entry_image_def Let_def length_blit nth_blit)
  show "entry_image b p offs idx name value ! i = b ! i"
    if "i < length b" "i < p \<or> p + EXT4_XATTR_LEN (length name) \<le> i"
    using p l that by (auto simp: entry_image_def Let_def length_blit nth_blit)
qed

lemma value_image_reads:
  assumes v: "v + value_room (length value) \<le> length b"
  shows "length (value_image b v value) = length b"
    and "take (length value) (drop v (value_image b v value)) = value"
    and "i < length b \<Longrightarrow> i < v \<or> v + value_room (length value) \<le> i \<Longrightarrow> value_image b v value ! i = b ! i"
proof -
  have l: "v + length value \<le> length b" "v + length value \<le> v + value_room (length value)"
    using v value_room_ge [of "length value"] by linarith+
  show "length (value_image b v value) = length b" using v l by (simp add: value_image_def length_blit)
  show "take (length value) (drop v (value_image b v value)) = value"
    using v l by (simp add: value_image_def blit_inside length_blit)
  show "value_image b v value ! i = b ! i" if "i < length b" "i < v \<or> v + value_room (length value) \<le> i"
    using v l that by (auto simp: value_image_def length_blit nth_blit)
qed

lemma new_entry_area:
  assumes p: "p + EXT4_XATTR_LEN (length name) + 4 \<le> v" "v + value_room (length value) = w" "w \<le> length b"
    and n: "length name \<le> 255" and idx: "idx \<noteq> 0" and sz: "length value < 2 ^ 31" "base \<le> v" "v - base < 2 ^ 16"
    and zero: "\<And>i. p \<le> i \<Longrightarrow> i < w \<Longrightarrow> b ! i = 0"
  defines "b' \<equiv> value_image (entry_image b p (v - base) idx name value) v value"
  shows "length b' = length b" and "xattr_area b' base p w [((idx, name), value)]"
    and "\<And>i. i < length b \<Longrightarrow> i < p \<or> w \<le> i \<Longrightarrow> b' ! i = b ! i"
proof -
  let ?e = "entry_image b p (v - base) idx name value"
  have pe: "p + EXT4_XATTR_LEN (length name) \<le> length b" using p by linarith
  note e = entry_image_reads [OF pe n]
  have ve: "v + value_room (length value) \<le> length ?e" using p e(1) by simp
  note r = value_image_reads [OF ve]
  show l: "length b' = length b" by (simp add: b'_def e(1) r(1))
  have low: "b' ! i = ?e ! i" if "i < v" for i using r(3) [of i] that p e(1) by (simp add: b'_def)
  have len: "p + 16 + length name \<le> p + EXT4_XATTR_LEN (length name)"
    using xattr_len_ge(1) [of "length name"] by simp
  have name: "take (length name) (drop (p + 16) b') = take (length name) (drop (p + 16) ?e)"
    using low len p pe by (intro take_drop_cong) (auto simp: l e(1))
  have fields: "b' ! p = of_nat (length name)" "b' ! (p + 1) = idx" "le16 b' (p + 2) = of_nat (v - base)"
    "le32 b' (p + 8) = of_nat (length value)" "take (length name) (drop (p + 16) b') = name"
    "take (length value) (drop v b') = value"
    using low len p e(2,3) name e(6) r(2)
      le16_cong [of b' "p + 2" ?e "p + 2"] le32_cong [of b' "p + 8" ?e "p + 8"] e(4,5) by (auto simp: b'_def)
  have gap: "b' ! i = 0" if "p + EXT4_XATTR_LEN (length name) \<le> i" "i < v" for i
    using low [of i] e(7) [of i] zero [of i] that p by simp
  show "xattr_area b' base p w [((idx, name), value)]"
    using p n idx sz pe fields gap l by (auto simp: xattr_at_def simp del: of_nat_diff)
  show "b' ! i = b ! i" if "i < length b" "i < p \<or> w \<le> i" for i
    using r(3) [of i] e(7) [of i] that p by (auto simp: b'_def e(1))
qed

section \<open>The order of the attributes\<close>

text \<open>The order of \<^verbatim>\<open>xattr_assert_sane\<close> on index and name.\<close>

definition xattr_order :: "u8 \<times> bytes \<Rightarrow> u8 \<times> bytes \<Rightarrow> int" where
  "xattr_order y x =
     (if uint (fst y) \<noteq> uint (fst x) then uint (fst y) - uint (fst x)
      else if length (snd y) \<noteq> length (snd x) then int (length (snd y)) - int (length (snd x))
      else memcmp (snd y) (snd x))"

definition xattrs_sorted :: "xattr list \<Rightarrow> bool" where
  "xattrs_sorted xs \<longleftrightarrow> successively (\<lambda>x y. 0 < xattr_order y x) (map fst xs)"

lemma xattr_cmp_order:
  assumes x: "xattr_at b base e v x" and y: "xattr_at b base e' v' y"
  shows "xattr_cmp b e' e = Inr (xattr_order (fst y) (fst x))"
proof -
  obtain i n val where xe: "x = ((i, n), val)" by (metis prod.collapse)
  obtain j m val' where ye: "y = ((j, m), val')" by (metis prod.collapse)
  have len: "unat (of_nat (length n) :: u8) = length n" "unat (of_nat (length m) :: u8) = length m"
    using x y by (simp_all add: xattr_at_def xe ye unat_of_nat)
  have u: "uint (of_nat (length n) :: u8) = int (length n)" "uint (of_nat (length m) :: u8) = int (length m)"
    using len by (metis uint_nat)+
  have "e + 16 + length n \<le> length b" "e' + 16 + length m \<le> length b"
    using x y xattr_len_ge [of "length n"] xattr_len_ge [of "length m"] by (auto simp: xattr_at_def xe ye)
  then have "get8 b e = Inr (of_nat (length n))" "get8 b (e + 1) = Inr i" "get_bytes b (e + 16) (length n) = Inr n"
    "get8 b e' = Inr (of_nat (length m))" "get8 b (e' + 1) = Inr j" "get_bytes b (e' + 16) (length m) = Inr m"
    using x y by (simp_all add: xattr_at_def xe ye get8_def get_bytes_def)
  then show ?thesis
    by (auto simp: xattr_cmp_def xattr_order_def xe ye u len simp del: One_nat_def)
qed

lemma xattr_assert_sane_area:
  "xattr_area b base e vend xs \<Longrightarrow> fc \<or> xattrs_sorted xs \<Longrightarrow> xattr_assert_sane fc b e = Inr ()"
proof (induction xs arbitrary: e vend)
  case Nil
  then show ?case using area_last by (simp add: xattr_assert_sane.simps)
next
  case (Cons x xs)
  let ?e = "e + EXT4_XATTR_LEN (length (snd (fst x)))"
  have at: "xattr_at b base e (vend - value_room (length (snd x))) x" using Cons.prems by simp
  have rest: "xattr_area b base ?e (vend - value_room (length (snd x))) xs" using Cons.prems by simp
  have srt: "fc \<or> xattrs_sorted xs" using Cons.prems(2) by (cases xs) (auto simp: xattrs_sorted_def)
  have ih: "xattr_assert_sane fc b ?e = Inr ()" by (rule Cons.IH [OF rest srt])
  show ?case
  proof (cases xs)
    case Nil
    then show ?thesis
      using rest area_last [of b base ?e] by (subst xattr_assert_sane.simps) (simp add: entry_not_last [OF at])
  next
    case (Cons y ys)
    have y: "xattr_at b base ?e (vend - value_room (length (snd x)) - value_room (length (snd y))) y"
      using rest Cons by simp
    have "fc \<or> 0 < xattr_order (fst y) (fst x)" using Cons.prems(2) Cons by (auto simp: xattrs_sorted_def)
    then show ?thesis
      by (subst xattr_assert_sane.simps)
        (auto simp: entry_not_last [OF at] entry_not_last(1) [OF y] xattr_cmp_order [OF at y] ih)
  qed
qed

section \<open>The writer\<close>

lemma xattr_addto_range_ok:
  assumes area: "xattr_area b base first block_end xs"
    and n: "length name \<le> 255" and idx: "idx \<noteq> 0" and sz: "length value < 2 ^ 31"
    and base: "base \<le> first" "block_end - base < 2 ^ 16"
    and room: "entries_len xs + EXT4_XATTR_LEN (length name) + 4 + value_room (length value) + values_len xs \<le> block_end - first"
    and srt: "fc \<or> xattrs_sorted (xs @ [((idx, name), value)])"
  shows "\<exists>e b'. xattr_addto_range fc b base block_end first idx name value = Inr (Some (e, b')) \<and>
      xattr_area b' base first block_end (xs @ [((idx, name), value)]) \<and> length b' = length b \<and>
      (\<forall>i < length b. i < first \<or> block_end \<le> i \<longrightarrow> b' ! i = b ! i)"
proof -
  define p where "p = first + entries_len xs"
  define w where "w = block_end - values_len xs"
  define v where "v = w - value_room (length value)"
  define b' where "b' = value_image (entry_image b p (v - base) idx name value) v value"
  have bnd: "first + entries_len xs + 4 + values_len xs \<le> block_end" by (rule xattr_area_bounds [OF area])
  have pv: "p + EXT4_XATTR_LEN (length name) + 4 \<le> v" "v + value_room (length value) = w" "p \<le> w"
    using room bnd by (auto simp: p_def v_def w_def)
  have wl: "w \<le> length b" using xattr_area_end [OF area] by (simp add: w_def)
  have off: "base \<le> v" "v - base < 2 ^ 16" using base pv bnd by (auto simp: p_def w_def)
  have zero: "b ! i = 0" if "p \<le> i" "i < w" for i
    using xattr_area_gap [OF area] that by (simp add: p_def w_def)
  note new = new_entry_area [OF pv(1,2) wl n idx sz off zero, folded b'_def]
  have area': "xattr_area b' base first block_end (xs @ [((idx, name), value)])"
    using new by (intro xattr_area_snoc [OF area]) (simp_all add: p_def w_def)
  have lv: "p + EXT4_XATTR_LEN (length name) \<le> length b" "v + value_room (length value) \<le> length b" using pv wl by auto
  have u: "unat (EXT4_XATTR_SIZE (of_nat (length value))) = value_room (length value)" by (rule unat_xattr_size [OF sz])
  have need: "unat (of_nat (EXT4_XATTR_LEN (length name)) + EXT4_XATTR_SIZE (of_nat (length value)))
      = EXT4_XATTR_LEN (length name) + value_room (length value)" by (rule unat_needed_size [OF n sz])
  have free: "xattr_free_space fc b first block_end = Inr (w - p)"
    using pv(3) xattr_free_loop_area [OF area] by (simp add: xattr_free_space_def p_def w_def)
  have last: "xattr_get_last b first = Inr p" using xattr_get_last_area [OF area] by (simp add: p_def)
  have vp: "p + (w - p) - value_room (length value) = v" "\<not> w - p < EXT4_XATTR_LEN (length name) + value_room (length value)"
    using pv by (auto simp: v_def)
  have "xattr_addto_range fc b base block_end first idx name value = bnd (Inr b') (\<lambda>b.
      bnd (xattr_assert_sane fc b first) (\<lambda>_. Inr (Some (p, b))))"
    unfolding xattr_addto_range_def Let_def u need free last bnd.simps vp if_not_P [OF vp(2)]
    using n lv xattr_len_ge(1) [of "length name"] value_room_ge(1) [of "length value"]
    by (simp add: put_bytes_def put8_def put16_def put32_def length_blit b'_def entry_image_def value_image_def)
  then have "xattr_addto_range fc b base block_end first idx name value = Inr (Some (p, b'))"
    using xattr_assert_sane_area [OF area' srt] by simp
  then show ?thesis using area' new(1,3) bnd by (auto simp: p_def w_def)
qed

section \<open>Properties\<close>

text \<open>
  C24. An attribute added to a region that has room for it and for the terminator can be read back: the
  writer returns an entry, the region then holds the old attributes followed by the new one, the driver's
  lookup finds each of them with its value and nothing else, and no byte outside the region changes.
\<close>

theorem xattr_round_trip:
  assumes "xattr_area b base first block_end xs"
    and "length name \<le> 255" and "idx \<noteq> 0" and "length value < 2 ^ 31"
    and "base \<le> first" and "block_end - base < 2 ^ 16"
    and "entries_len xs + EXT4_XATTR_LEN (length name) + 4 + value_room (length value) + values_len xs \<le> block_end - first"
    and "fc \<or> xattrs_sorted (xs @ [((idx, name), value)])"
  shows "\<exists>e b'. xattr_addto_range fc b base block_end first idx name value = Inr (Some (e, b')) \<and>
      (\<forall>i n. xattr_lookup b' base first i n = Inr (map_of (xs @ [((idx, name), value)]) (i, n))) \<and>
      length b' = length b \<and> (\<forall>k < length b. k < first \<or> block_end \<le> k \<longrightarrow> b' ! k = b ! k)"
  using xattr_addto_range_ok [OF assms] xattr_lookup_area by blast

theorem xattr_round_trip_witness:
  "\<exists>e b'. xattr_addto_range False (replicate 96 0) 0 96 0 6 XATTR_SELINUX_SUFFIX [117, 58, 111, 0] = Inr (Some (e, b')) \<and>
     (\<forall>i n. xattr_lookup b' 0 0 i n = Inr (map_of [((6, XATTR_SELINUX_SUFFIX), [117, 58, 111, 0])] (i, n))) \<and> length b' = 96"
proof -
  have "xattr_area (replicate 96 0) 0 0 96 []" by simp
  from xattr_round_trip [OF this, of XATTR_SELINUX_SUFFIX 6 "[117, 58, 111, 0]" False] show ?thesis
    by (auto simp: XATTR_SELINUX_SUFFIX_def EXT4_XATTR_LEN_def value_room_def xattrs_sorted_def)
qed

text \<open>
  An attribute that does not fit is refused: when the free bytes between the entries and the values are
  fewer than entry and value need, the writer returns NULL and stores nothing.
\<close>

theorem xattr_refused_when_full:
  assumes "xattr_area b base first block_end xs" and "length name \<le> 255" and "length value < 2 ^ 31"
    and "block_end < first + entries_len xs + EXT4_XATTR_LEN (length name) + value_room (length value) + values_len xs"
  shows "xattr_addto_range fc b base block_end first idx name value = Inr None"
proof -
  have u: "unat (EXT4_XATTR_SIZE (of_nat (length value))) = value_room (length value)" by (rule unat_xattr_size [OF assms(3)])
  have need: "unat (of_nat (EXT4_XATTR_LEN (length name)) + EXT4_XATTR_SIZE (of_nat (length value)))
      = EXT4_XATTR_LEN (length name) + value_room (length value)" by (rule unat_needed_size [OF assms(2,3)])
  have bnd: "first + entries_len xs + 4 + values_len xs \<le> block_end" by (rule xattr_area_bounds [OF assms(1)])
  have free: "xattr_free_space fc b first block_end = Inr (block_end - values_len xs - (first + entries_len xs))"
    using bnd xattr_free_loop_area [OF assms(1)] by (simp add: xattr_free_space_def)
  have "block_end - values_len xs - (first + entries_len xs) < EXT4_XATTR_LEN (length name) + value_room (length value)"
    using assms(4) bnd by linarith
  then show ?thesis using assms(2) by (simp add: xattr_addto_range_def Let_def need free del: diff_diff_left)
qed

theorem xattr_refused_when_full_witness:
  "xattr_addto_range True (replicate 64 0) 0 64 0 6 XATTR_SELINUX_SUFFIX (replicate 41 97) = Inr None"
  using xattr_refused_when_full [of "replicate 64 0" 0 0 64 "[]" XATTR_SELINUX_SUFFIX "replicate 41 97" True 6]
  by (simp add: XATTR_SELINUX_SUFFIX_def EXT4_XATTR_LEN_def value_room_def)

text \<open>
  The size test does not count the terminator: a 72-byte label fills the 96 bytes behind an inode exactly,
  the test accepts it, and the sanity check that follows takes the value for further entries and reads past the
  end of the buffer.
\<close>

theorem xattr_exact_fit_overruns:
  "xattr_addto_range fc (replicate 96 0) 0 96 0 6 XATTR_SELINUX_SUFFIX (replicate 72 97) = Inl Undefined"
  by code_simp

end
