(* ===== verification/Make_Ext4fs.thy ===== *)
theory Make_Ext4fs
  imports Contents
begin

text \<open>
  \<^verbatim>\<open>make_ext4fs.c\<close> and \<^verbatim>\<open>wipe.c\<close>: the choice of the filesystem parameters, the
  canonical form of paths, the walk over a host directory, and the whole run that builds an image.
  The host (its directories, \<^verbatim>\<open>lstat\<close>, \<^verbatim>\<open>readlink\<close>, the permission table and the
  label lookup) is a parameter. The build is the one with \<^verbatim>\<open>ANDROID\<close> and without
  \<^verbatim>\<open>USE_MINGW\<close>.
\<close>

section \<open>Paths\<close>

text \<open>\<^verbatim>\<open>str[len - 1]\<close> is outside the string when it is empty and \<open>absolute\<close> is not set.\<close>

definition canonicalize_slashes :: "bytes \<Rightarrow> bool \<Rightarrow> bytes res" where
  "canonicalize_slashes str absolute =
     (if str = [] then (if absolute then Inr [47] else Inl Undefined)
      else Inr ((if hd str \<noteq> 47 \<and> absolute then [47] else []) @ str @ (if last str \<noteq> 47 then [47] else [])))"

definition canonicalize_abs_slashes :: "bytes \<Rightarrow> bytes res" where
  "canonicalize_abs_slashes str = canonicalize_slashes str True"

definition canonicalize_rel_slashes :: "bytes \<Rightarrow> bytes res" where
  "canonicalize_rel_slashes str = canonicalize_slashes str False"

section \<open>Parameters\<close>

text \<open>
  Sizes in blocks. The length is signed in the code; the unsigned division agrees with it on the
  non-negative lengths that reach these functions.
\<close>

definition len_in_blocks :: "fs_info \<Rightarrow> u64" where
  "len_in_blocks fi = DIV_ROUND_UP (info_len fi) (ucast (block_size fi))"

definition compute_block_size :: u32 where
  "compute_block_size = 4096"

definition compute_journal_blocks :: "fs_info \<Rightarrow> u32" where
  "compute_journal_blocks fi =
     (let n = ucast (len_in_blocks fi div 64);
          n = (if n < 1024 then 1024 else n) in
      if 32768 < n then 32768 else n)"

definition compute_blocks_per_group :: "fs_info \<Rightarrow> u32" where
  "compute_blocks_per_group fi = block_size fi * 8"

definition compute_inodes :: "fs_info \<Rightarrow> u32" where
  "compute_inodes fi = ucast (len_in_blocks fi div 4)"

definition count_block_groups :: "fs_info \<Rightarrow> u32" where
  "count_block_groups fi = DIV_ROUND_UP (ucast (len_in_blocks fi)) (blocks_per_group fi)"

text \<open>Also updates \<^verbatim>\<open>info.inodes\<close>.\<close>

definition compute_inodes_per_group :: "fs_info \<Rightarrow> (u32 \<times> fs_info) res" where
  "compute_inodes_per_group fi =
     (if blocks_per_group fi = 0 \<or> count_block_groups fi = 0 \<or> inode_size fi = 0 \<or> block_size fi div inode_size fi = 0
      then Inl Undefined
      else
        let inodes = ALIGN (DIV_ROUND_UP (info_inodes fi) (count_block_groups fi)) (block_size fi div inode_size fi) in
        Inr (inodes, fi\<lparr>info_inodes := inodes * count_block_groups fi\<rparr>))"

definition compute_bg_desc_reserve_blocks :: "fs_info \<Rightarrow> u32" where
  "compute_bg_desc_reserve_blocks fi =
     (let bg_desc_blocks = DIV_ROUND_UP (count_block_groups fi * 32) (block_size fi);
          reserve = DIV_ROUND_UP (count_block_groups fi * 1024 * 32) (block_size fi) - bg_desc_blocks in
      if block_size fi div 4 < reserve then block_size fi div 4 else reserve)"

text \<open>
  The parameter section of \<^verbatim>\<open>make_ext4fs_internal\<close>. \<open>fd_stat\<close> and \<open>fd_ioctl\<close> are what
  \<^verbatim>\<open>get_file_size(fd)\<close> learns of the file; \<open>None\<close> is the early return for a missing size. A
  NULL label is the empty one.
\<close>

definition choose_len :: "file_kind option \<Rightarrow> u64 option \<Rightarrow> fs_info \<Rightarrow> fs_info" where
  "choose_len fd_stat fd_ioctl fi =
     (if sint (info_len fi) \<le> 0 then fi\<lparr>info_len := get_file_size fi fd_stat fd_ioctl\<rparr> else fi)"

definition choose_sizes :: "fs_info \<Rightarrow> fs_info" where
  "choose_sizes fi =
     (let fi = (if block_size fi = 0 then fi\<lparr>block_size := compute_block_size\<rparr> else fi);
          fi = fi\<lparr>info_len := info_len fi AND NOT (ucast (block_size fi) - 1)\<rparr>;
          fi = (if journal_blocks fi = 0 then fi\<lparr>journal_blocks := compute_journal_blocks fi\<rparr> else fi);
          fi = (if no_journal fi = 0 then fi\<lparr>feat_compat := 0x0004\<rparr> else fi\<lparr>journal_blocks := 0\<rparr>);
          fi = (if blocks_per_group fi = 0 then fi\<lparr>blocks_per_group := compute_blocks_per_group fi\<rparr> else fi);
          fi = (if info_inodes fi = 0 then fi\<lparr>info_inodes := compute_inodes fi\<rparr> else fi) in
      if inode_size fi = 0 then fi\<lparr>inode_size := 256\<rparr> else fi)"

definition choose_parameters :: "file_kind option \<Rightarrow> u64 option \<Rightarrow> fs_info \<Rightarrow> fs_info option res" where
  "choose_parameters fd_stat fd_ioctl fi =
     (let fi = choose_len fd_stat fd_ioctl fi in
      if sint (info_len fi) \<le> 0 then Inr None
      else
        let fi = choose_sizes fi in
        bnd (compute_inodes_per_group fi) (\<lambda>(n, fi).
        let fi = fi\<lparr>inodes_per_group := n,
                    feat_compat := feat_compat fi OR 0x0010 OR 0x0008,
                    feat_ro_compat := feat_ro_compat fi OR 0x0001 OR 0x0002 OR 0x0010,
                    feat_incompat := feat_incompat fi OR 0x0040 OR 0x0002\<rparr> in
        Inr (Some (fi\<lparr>bg_desc_reserve_blocks := compute_bg_desc_reserve_blocks fi\<rparr>))))"

section \<open>The host\<close>

record stat_t =
  st_mode :: u32
  st_size :: u64
  st_mtime :: u32

text \<open>
  \<open>h_scandir\<close> gives the names of a directory in the order of \<^verbatim>\<open>alphasort\<close>;
  \<open>h_fs_config\<close> gives uid, gid, mode and capabilities of a path (or is NULL);
  \<open>h_selabel\<close> gives the label of a path (or is NULL).
\<close>

record host =
  h_scandir :: "bytes \<Rightarrow> bytes list option"
  h_lstat :: "bytes \<Rightarrow> stat_t option"
  h_readlink :: "bytes \<Rightarrow> bytes option"
  h_fs_config :: "(bytes \<Rightarrow> bool \<Rightarrow> u32 \<times> u32 \<times> u32 \<times> u64) option"
  h_selabel :: "(bytes \<Rightarrow> u32 \<Rightarrow> bytes option) option"

definition filter_dot :: "bytes \<Rightarrow> bool" where
  "filter_dot name \<longleftrightarrow> name \<noteq> [46, 46] \<and> name \<noteq> [46]"

text \<open>``lost+found''\<close>

definition lost_and_found :: bytes where
  "lost_and_found = [108, 111, 115, 116, 43, 102, 111, 117, 110, 100]"

definition blank_dentry :: dentry where
  "blank_dentry = \<lparr>d_path = [], d_full_path = None, d_filename = [], d_link = None, d_size = 0, d_file_type = 0,
     d_mode = 0, d_uid = 0, d_gid = 0, d_inode = None, d_mtime = 0, d_secon = None, d_capabilities = 0\<rparr>"

text \<open>\<^verbatim>\<open>*dentries[i].inode = inode\<close>\<close>

definition store_entry_inode :: "dentry \<Rightarrow> u32 \<Rightarrow> ext4_st \<Rightarrow> ext4_st res" where
  "store_entry_inode d inode s =
     (case d_inode d of None \<Rightarrow> Inl Undefined | Some (buf, off) \<Rightarrow> mem_upd buf (\<lambda>b. put32 b off inode) s)"

definition build_default_directory_structure :: "ext4_st \<Rightarrow> (u32 \<times> ext4_st) res" where
  "build_default_directory_structure s =
     (let d = blank_dentry\<lparr>d_filename := lost_and_found, d_file_type := 2, d_mode := 0x1C0\<rparr> in
      bnd (make_directory 0 [d] 1 s) (\<lambda>(root_inode, ds, s).
      bnd (make_directory root_inode [] 0 s) (\<lambda>(inode, _, s).
      bnd (store_entry_inode (hd ds) inode s) (\<lambda>s.
      bnd (inode_set_permissions inode (d_mode d) (d_uid d) (d_gid d) (d_mtime d) s) (\<lambda>(_, s).
      Inr (root_inode, s))))))"

section \<open>Copying a directory tree\<close>

text \<open>\<^verbatim>\<open>S_ISREG\<close> and the others, in the order of the tests; 0 is an unknown type.\<close>

definition host_file_type :: "u32 \<Rightarrow> u8" where
  "host_file_type mode =
     (let t = mode AND 0xF000 in
      if t = 0x8000 then 1 else if t = 0x4000 then 2 else if t = 0x2000 then 3 else if t = 0x6000 then 4
      else if t = 0x1000 then 5 else if t = 0xC000 then 6 else if t = 0xA000 then 7 else 0)"

definition lookup_secon :: "host \<Rightarrow> bytes \<Rightarrow> u32 \<Rightarrow> ext4_st \<Rightarrow> bytes option res" where
  "lookup_secon h path mode s =
     (case h_selabel h of None \<Rightarrow> Inr None
      | Some lookup \<Rightarrow> (case lookup path mode of None \<Rightarrow> error_then (force s) None | Some c \<Rightarrow> Inr (Some c)))"

text \<open>The buffer of a link is allocated without a test; \<^verbatim>\<open>readlink\<close> leaves it empty when it fails.\<close>

definition link_target :: "host \<Rightarrow> bytes \<Rightarrow> ext4_st \<Rightarrow> bytes option \<times> ext4_st" where
  "link_target h full_path s =
     (if oom s (mallocs s) then None
      else Some (case h_readlink h full_path of None \<Rightarrow> [] | Some t \<Rightarrow> take (unat (block_size (info s) - 1)) t),
      s\<lparr>mallocs := mallocs s + 1\<rparr>)"

definition config_dentry :: "host \<Rightarrow> stat_t \<Rightarrow> dentry \<Rightarrow> dentry" where
  "config_dentry h st d =
     (case h_fs_config h of None \<Rightarrow> d
      | Some cfg \<Rightarrow>
          (case cfg (d_path d) (st_mode st AND 0xF000 = 0x4000) of (uid, gid, mode, caps) \<Rightarrow>
           d\<lparr>d_mode := ucast mode, d_uid := ucast uid, d_gid := ucast gid, d_capabilities := caps\<rparr>))"

text \<open>
  An entry that cannot be examined, or has an unknown type, is dropped by decrementing the loop index
  and the count: the next iteration reads the same, already freed, name again. Only for the last name
  does the loop end instead.
\<close>

fun scan_entries :: "host \<Rightarrow> bytes \<Rightarrow> bytes \<Rightarrow> bytes list \<Rightarrow> ext4_st \<Rightarrow> (dentry list \<times> u32 \<times> ext4_st) res" where
  "scan_entries h full_path dir_path [] s = Inr ([], 0, s)"
| "scan_entries h full_path dir_path (name # names) s =
     (let path = dir_path @ name; full = full_path @ name;
          skip = (\<lambda>s. bnd (error_then (force s) ()) (\<lambda>_. if names = [] then Inr ([], 0, s) else Inl Undefined)) in
      case h_lstat h full of
        None \<Rightarrow> skip s
      | Some st \<Rightarrow>
          let d = config_dentry h st (blank_dentry\<lparr>d_filename := name, d_path := path, d_full_path := Some full,
                    d_size := ucast (st_size st), d_mode := ucast (st_mode st AND 0xFFF), d_mtime := st_mtime st,
                    d_file_type := host_file_type (st_mode st)\<rparr>) in
          bnd (lookup_secon h path (st_mode st) s) (\<lambda>secon.
          if d_file_type d = 0 then skip s
          else
            let (link, s) = (if d_file_type d = 7 then link_target h full s else (None, s)) in
            bnd (scan_entries h full_path dir_path names s) (\<lambda>(ds, dirs, s).
            Inr (d\<lparr>d_secon := secon, d_link := link\<rparr> # ds, (if d_file_type d = 2 then dirs + 1 else dirs), s))))"

definition add_lost_and_found :: "host \<Rightarrow> bytes \<Rightarrow> dentry list \<Rightarrow> u32 \<Rightarrow> ext4_st \<Rightarrow> (dentry list \<times> u32) res" where
  "add_lost_and_found h dir_path ds dirs s =
     (let path = dir_path @ lost_and_found in
      bnd (lookup_secon h path 0x1C0 s) (\<lambda>secon.
      Inr (blank_dentry\<lparr>d_filename := lost_and_found, d_path := path, d_mode := 0x1C0, d_file_type := 2,
                        d_secon := secon\<rparr> # ds, dirs + 1)))"

definition fail_unless_zero :: "int \<times> ext4_st \<Rightarrow> ext4_st res" where
  "fail_unless_zero r = (case r of (ret, s) \<Rightarrow> if ret \<noteq> 0 then error_then (force s) s else Inr s)"

text \<open>The inode of an entry, once it exists: its number in the directory, permissions and attributes.\<close>

definition finish_entry :: "u32 \<Rightarrow> dentry \<Rightarrow> u32 \<Rightarrow> ext4_st \<Rightarrow> ext4_st res" where
  "finish_entry magic_etc d entry_inode s =
     bnd (store_entry_inode d entry_inode s) (\<lambda>s.
     bnd (inode_set_permissions entry_inode (d_mode d) (d_uid d) (d_gid d) (d_mtime d) s) (\<lambda>r.
     bnd (fail_unless_zero r) (\<lambda>s.
     bnd (inode_set_selinux entry_inode (d_secon d) s) (\<lambda>r.
     bnd (fail_unless_zero r) (\<lambda>s.
     bnd (inode_set_capabilities magic_etc entry_inode (d_capabilities d) s) (\<lambda>r.
     fail_unless_zero r))))))"

text \<open>
  \<open>depth\<close> bounds the nesting of directories that is followed. The copies of names and paths made with
  \<^verbatim>\<open>strdup\<close> and \<^verbatim>\<open>asprintf\<close> are taken to succeed; only the allocation of the entries can fail.
\<close>

fun build_directory_structure ::
    "nat \<Rightarrow> u32 \<Rightarrow> host \<Rightarrow> bytes option \<Rightarrow> bytes \<Rightarrow> u32 \<Rightarrow> ext4_st \<Rightarrow> (u32 \<times> ext4_st) res" where
  "build_directory_structure 0 magic_etc h full_path dir_path dir_inode s = Inl Diverges"
| "build_directory_structure (Suc depth) magic_etc h full_path dir_path dir_inode s =
     (case (case full_path of None \<Rightarrow> Some ([], []) | Some p \<Rightarrow> map_option (\<lambda>ns. (p, filter filter_dot ns)) (h_scandir h p)) of
        None \<Rightarrow> error_then (force s) (EXT4_ALLOCATE_FAILED, s)
      | Some (full, names) \<Rightarrow>
          if oom s (mallocs s) then Inl Longjmp
          else
          bnd (scan_entries h full dir_path names (s\<lparr>mallocs := mallocs s + 1\<rparr>)) (\<lambda>(ds, dirs, s).
          bnd (if dir_inode = 0 \<and> lost_and_found \<notin> set names then add_lost_and_found h dir_path ds dirs s
               else Inr (ds, dirs)) (\<lambda>(ds, dirs).
          bnd (make_directory dir_inode ds dirs s) (\<lambda>(inode, ds, s).
          bnd (for_each (\<lambda>d s.
                 bnd (if d_file_type d = 1 then make_file (the (d_full_path d)) (ucast (d_size d)) s
                      else if d_file_type d = 2
                      then build_directory_structure depth magic_etc h (map_option (\<lambda>p. p @ [47]) (d_full_path d))
                             (d_path d @ [47]) inode s
                      else if d_file_type d = 7
                      then (case d_link d of None \<Rightarrow> Inl Undefined | Some t \<Rightarrow> make_link t s)
                      else error_then (force s) (0, s)) (\<lambda>(entry_inode, s).
                 finish_entry magic_etc d entry_inode s)) ds s) (\<lambda>s.
          Inr (inode, s))))))"

section \<open>Building an image\<close>

text \<open>\<open>secdiscard\<close> and \<open>discard\<close> tell whether the two \<^verbatim>\<open>ioctl\<close> calls succeed.\<close>

definition wipe_block_device :: "bool \<Rightarrow> bool \<Rightarrow> int" where
  "wipe_block_device secdiscard discard = (if secdiscard then 0 else if discard then 0 else 1)"

text \<open>What a finished run hands to the outside.\<close>

datatype image_output = Wipe s64 | Write_Image bool bool bool

definition label_root :: "host \<Rightarrow> bytes \<Rightarrow> u32 \<Rightarrow> ext4_st \<Rightarrow> ext4_st res" where
  "label_root h mountpoint root s =
     bnd (lookup_secon h mountpoint 0x4000 s) (\<lambda>secontext.
     case secontext of None \<Rightarrow> Inr s
     | Some c \<Rightarrow> bnd (inode_set_selinux root (Some c) s) (\<lambda>(_, s). Inr s))"

text \<open>
  The part of \<^verbatim>\<open>make_ext4fs_internal\<close> from the computed geometry on. \<^verbatim>\<open>sparse_file_new\<close> gives an empty image,
  so nothing is queued in it yet; its result is not tested in the code and is taken to be an image here.
\<close>

definition make_filesystem ::
    "bytes \<Rightarrow> nat \<Rightarrow> u32 \<Rightarrow> host \<Rightarrow> bytes option \<Rightarrow> bytes \<Rightarrow> ext4_st \<Rightarrow> ext4_st res" where
  "make_filesystem stack depth magic_etc h directory mountpoint s =
     bnd (ext4_create_fs_aux_info s) (\<lambda>s.
     bnd (block_allocator_init (s\<lparr>sparse := []\<rparr>)) (\<lambda>s.
     bnd (ext4_fill_in_sb stack s) (\<lambda>s.
     bnd (reserve_inodes 0 10 s) (\<lambda>(first, s).
     bnd (if first = EXT4_ALLOCATE_FAILED then error_then (force s) s else Inr s) (\<lambda>s.
     bnd (if feat_compat (info s) AND 0x0004 \<noteq> 0 then ext4_create_journal_inode s else Inr s) (\<lambda>s.
     bnd (if feat_compat (info s) AND 0x0010 \<noteq> 0 then ext4_create_resize_inode s else Inr s) (\<lambda>s.
     bnd (case directory of
            Some d \<Rightarrow> build_directory_structure depth magic_etc h (Some d) mountpoint 0 s
          | None \<Rightarrow> build_default_directory_structure s) (\<lambda>(root, s).
     bnd (inode_set_permissions root 0x1ED 0 0 0 s) (\<lambda>(_, s).
     bnd (label_root h mountpoint root s) (\<lambda>s.
     bnd (ext4_update_free s) (\<lambda>s.
     ext4_queue_sb s)))))))))))"

definition make_ext4fs_body ::
    "bytes \<Rightarrow> nat \<Rightarrow> u32 \<Rightarrow> host \<Rightarrow> file_kind option \<Rightarrow> u64 option \<Rightarrow> bytes option \<Rightarrow> bytes option \<Rightarrow> bool \<Rightarrow> bool \<Rightarrow> bool \<Rightarrow> bool \<Rightarrow>
     ext4_st \<Rightarrow> (int \<times> image_output list \<times> ext4_st) res" where
  "make_ext4fs_body stack depth magic_etc h fd_stat fd_ioctl directory mountpoint gzip sprs crc wipe s =
     bnd (case mountpoint of None \<Rightarrow> Inr [] | Some m \<Rightarrow> canonicalize_abs_slashes m) (\<lambda>mnt.
     bnd (case directory of None \<Rightarrow> Inr None
          | Some d \<Rightarrow> bnd (canonicalize_rel_slashes d) (\<lambda>d. Inr (Some d))) (\<lambda>dir.
     bnd (choose_parameters fd_stat fd_ioctl (info s)) (\<lambda>fi.
     case fi of
       None \<Rightarrow> Inr (1, [], s)
     | Some fi \<Rightarrow>
         bnd (make_filesystem stack depth magic_etc h dir mnt (s\<lparr>info := fi\<rparr>)) (\<lambda>s.
         Inr (0, (if wipe then [Wipe (info_len (info s))] else []) @ [Write_Image gzip sprs crc], s)))))"

text \<open>A \<^verbatim>\<open>longjmp\<close> lands at the start and returns \<^verbatim>\<open>EXIT_FAILURE\<close>; no image is written then.\<close>

definition make_ext4fs_internal ::
    "bytes \<Rightarrow> nat \<Rightarrow> u32 \<Rightarrow> host \<Rightarrow> file_kind option \<Rightarrow> u64 option \<Rightarrow> bytes option \<Rightarrow> bytes option \<Rightarrow> bool \<Rightarrow> bool \<Rightarrow> bool \<Rightarrow> bool \<Rightarrow>
     ext4_st \<Rightarrow> (int \<times> image_output list \<times> ext4_st option) res" where
  "make_ext4fs_internal stack depth magic_etc h fd_stat fd_ioctl directory mountpoint gzip sprs crc wipe s =
     (case make_ext4fs_body stack depth magic_etc h fd_stat fd_ioctl directory mountpoint gzip sprs crc wipe s of
        Inl Longjmp \<Rightarrow> Inr (1, [], None)
      | Inl e \<Rightarrow> Inl e
      | Inr (r, out, s) \<Rightarrow> Inr (r, out, Some s))"

text \<open>
  Both globals are cleared; the test of \<^verbatim>\<open>info.sparse_file\<close> that follows sees the cleared pointer,
  so the recorded chunks of an earlier run are dropped without being destroyed.
\<close>

definition blank_info :: fs_info where
  "blank_info = \<lparr>info_len = 0, block_size = 0, blocks_per_group = 0, inodes_per_group = 0, inode_size = 0,
     info_inodes = 0, journal_blocks = 0, feat_ro_compat = 0, feat_compat = 0, feat_incompat = 0,
     bg_desc_reserve_blocks = 0, label = [], no_journal = 0\<rparr>"

definition blank_aux_info :: fs_aux_info where
  "blank_aux_info = \<lparr>sb = [], backup_sb = [], bg_desc = [], bgs = [], xattrs = [], first_data_block = 0, len_blocks = 0,
     inode_table_blocks = 0, groups = 0, bg_desc_blocks = 0, default_i_flags = 0,
     blocks_per_ind = 0, blocks_per_dind = 0, blocks_per_tind = 0\<rparr>"

definition reset_ext4fs_info :: "ext4_st \<Rightarrow> ext4_st" where
  "reset_ext4fs_info s = s\<lparr>info := blank_info, aux_info := blank_aux_info, sparse := []\<rparr>"

definition make_ext4fs_sparse_fd ::
    "bytes \<Rightarrow> nat \<Rightarrow> u32 \<Rightarrow> host \<Rightarrow> file_kind option \<Rightarrow> u64 option \<Rightarrow> s64 \<Rightarrow> bytes option \<Rightarrow> ext4_st \<Rightarrow> (int \<times> image_output list \<times> ext4_st option) res" where
  "make_ext4fs_sparse_fd stack depth magic_etc h fd_stat fd_ioctl len mountpoint s =
     (let s = reset_ext4fs_info s in
      make_ext4fs_internal stack depth magic_etc (h\<lparr>h_fs_config := None\<rparr>) fd_stat fd_ioctl None mountpoint False True False False
        (s\<lparr>info := (info s)\<lparr>info_len := len\<rparr>\<rparr>))"

text \<open>\<open>opened\<close> tells whether \<^verbatim>\<open>open\<close> succeeds; its error longjmps unless forced, although no \<^verbatim>\<open>setjmp\<close> has run.\<close>

definition make_ext4fs ::
    "bytes \<Rightarrow> nat \<Rightarrow> u32 \<Rightarrow> host \<Rightarrow> bool \<Rightarrow> file_kind option \<Rightarrow> u64 option \<Rightarrow> s64 \<Rightarrow> bytes option \<Rightarrow> ext4_st \<Rightarrow> (int \<times> image_output list \<times> ext4_st option) res" where
  "make_ext4fs stack depth magic_etc h opened fd_stat fd_ioctl len mountpoint s =
     (let s = reset_ext4fs_info s; s = s\<lparr>info := (info s)\<lparr>info_len := len\<rparr>\<rparr> in
      if \<not> opened then error_then (force s) (1, [], Some s)
      else make_ext4fs_internal stack depth magic_etc (h\<lparr>h_fs_config := None\<rparr>) fd_stat fd_ioctl None mountpoint False False False True s)"

section \<open>Default parameters\<close>

text \<open>What a run without options starts from: the cleared parameters, a length and a label.\<close>

definition len_only :: "s64 \<Rightarrow> bytes \<Rightarrow> fs_info" where
  "len_only len l = blank_info\<lparr>info_len := len, label := l\<rparr>"

lemma sint_pos:
  assumes "0 < unat len" "unat len < 2 ^ 63"
  shows "0 < sint (len :: u64)"
proof -
  have "sint len = int (unat len)" using assms(2) by (intro sint_small) simp
  then show ?thesis using assms(1) by (simp only: of_nat_0_less_iff)
qed

lemma round_to_blocks: "unat (len AND NOT 4095 :: u64) = 4096 * (unat len div 4096)"
proof -
  have "unat (len AND NOT (mask 12)) = unat len div 2 ^ 12 * 2 ^ 12" by (rule unat_and_not_mask)
  moreover have "mask 12 = (4095 :: u64)" by (simp add: mask_eq_exp_minus_1)
  moreover have "(2 :: nat) ^ 12 = 4096" by simp
  ultimately show ?thesis by (simp only: mult.commute)
qed

lemma rounded_in_blocks:
  assumes "unat (info_len fi) = 4096 * B" and "block_size fi = 4096" and "B < 2 ^ 31"
  shows "unat (len_in_blocks fi) = B"
  using assms by (simp add: len_in_blocks_def unat_DIV_ROUND_UP)

lemma block_groups_count:
  assumes "unat (len_in_blocks fi) = B" and "blocks_per_group fi = 32768" and "B < 2 ^ 31"
  shows "unat (count_block_groups fi) = (B + 32767) div 32768"
proof -
  have "unat (ucast (len_in_blocks fi) :: u32) = B"
    using assms by (simp add: unsigned_ucast_eq take_bit_nat_eq_self)
  then show ?thesis using assms by (simp add: count_block_groups_def unat_DIV_ROUND_UP)
qed

lemma groups_bounds:
  fixes B :: nat
  assumes "B < 2 ^ 31" "0 < B"
  shows "0 < (B + 32767) div 32768" and "(B + 32767) div 32768 \<le> 65536" and "B \<le> 32768 * ((B + 32767) div 32768)"
  using assms ceiling_div_bounds [of 32768 B] by (simp_all add: div_greater_zero_iff)

text \<open>The number of inodes of a group: a multiple of 16, at most 8192, and enough for one inode per four blocks.\<close>

lemma inodes_per_group_bounds:
  fixes B G :: nat
  assumes G: "0 < G" "B \<le> 32768 * G"
  defines "n \<equiv> 16 * (((B div 4 + G - 1) div G + 15) div 16)"
  shows "n \<le> 8192" and "B div 4 \<le> n * G"
proof -
  let ?c = "(B div 4 + G - 1) div G"
  have "B div 4 + G - 1 < (8192 + 1) * G" using G by simp
  then have "?c \<le> 8192" using G(1) by (simp add: less_mult_imp_div_less div_less_iff_less_mult flip: less_Suc_eq_le)
  moreover have "16 * ((c + 15) div 16) \<le> 8192" if "c \<le> 8192" for c :: nat using that by presburger
  ultimately show "n \<le> 8192" unfolding n_def by blast
  have "B div 4 \<le> G * ?c" by (rule ceiling_div_bounds(1) [OF G(1)])
  also have "\<dots> \<le> G * n"
  proof (rule mult_le_mono2)
    have "c \<le> 16 * ((c + 15) div 16)" for c :: nat by linarith
    then show "?c \<le> n" unfolding n_def by blast
  qed
  finally show "B div 4 \<le> n * G" by (simp add: mult.commute)
qed

lemma choose_sizes_default:
  assumes "fi = len_only len l"
  shows "block_size (choose_sizes fi) = 4096" "blocks_per_group (choose_sizes fi) = 32768" "inode_size (choose_sizes fi) = 256"
    "label (choose_sizes fi) = l" "info_len (choose_sizes fi) = len AND NOT 4095" "no_journal (choose_sizes fi) = 0"
    "info_inodes (choose_sizes fi) = compute_inodes (choose_sizes fi)"
    "journal_blocks (choose_sizes fi) = compute_journal_blocks (choose_sizes fi)"
    "feat_compat (choose_sizes fi) = 4" "feat_ro_compat (choose_sizes fi) = 0" "feat_incompat (choose_sizes fi) = 0"
  unfolding assms
  by (simp_all add: choose_sizes_def Let_def len_only_def blank_info_def compute_block_size_def compute_blocks_per_group_def
      compute_inodes_def compute_journal_blocks_def len_in_blocks_def)

lemma journal_bounds: "1024 \<le> compute_journal_blocks fi" "compute_journal_blocks fi \<le> 32768"
  by (auto simp: compute_journal_blocks_def Let_def not_less)

lemma inodes_per_group_ok:
  assumes fi: "block_size fi = 4096" "blocks_per_group fi = 32768" "inode_size fi = 256"
    and B: "unat (len_in_blocks fi) = B" "0 < B" "B < 2 ^ 31" and ino: "info_inodes fi = compute_inodes fi"
    and G: "G = (B + 32767) div 32768"
  shows "\<exists>n. compute_inodes_per_group fi = Inr (n, fi\<lparr>info_inodes := n * count_block_groups fi\<rparr>) \<and>
      16 dvd unat n \<and> unat n \<le> 8192 \<and> unat (n * count_block_groups fi) = unat n * G \<and> B div 4 \<le> unat n * G"
proof -
  have g: "unat (count_block_groups fi) = G" using block_groups_count [OF B(1) fi(2) B(3)] G by simp
  have gb: "0 < G" "G \<le> 65536" "B \<le> 32768 * G" using groups_bounds [OF B(3,2)] G by auto
  have i: "unat (info_inodes fi) = B div 4"
    using B by (simp add: ino compute_inodes_def unsigned_ucast_eq unat_div take_bit_nat_eq_self)
  define n where "n = ALIGN (DIV_ROUND_UP (info_inodes fi) (count_block_groups fi)) 16"
  have d: "unat (DIV_ROUND_UP (info_inodes fi) (count_block_groups fi)) = (B div 4 + G - 1) div G"
    using gb B(3) by (subst unat_DIV_ROUND_UP) (simp_all add: g i)
  note bnds = inodes_per_group_bounds [OF gb(1,3)]
  have small: "(B div 4 + G - 1) div G \<le> 8192"
    using bnds(1) by linarith
  have n: "unat n = 16 * (((B div 4 + G - 1) div G + 15) div 16)"
    unfolding n_def using small by (subst unat_ALIGN) (simp_all add: d)
  have "unat n * G \<le> 8192 * 65536" using bnds(1) gb(2) unfolding n by (rule mult_le_mono)
  then have prod: "unat (n * count_block_groups fi) = unat n * G" using unat_mult_small [of n "count_block_groups fi"] g by simp
  have "count_block_groups fi \<noteq> 0" using g gb(1) by auto
  then have "compute_inodes_per_group fi = Inr (n, fi\<lparr>info_inodes := n * count_block_groups fi\<rparr>)"
    by (simp add: compute_inodes_per_group_def fi n_def Let_def)
  then show ?thesis using n bnds prod by auto
qed

lemma desc_reserve_ok:
  assumes "block_size fi = 4096" "unat (count_block_groups fi) = G" "0 < G" "G \<le> 65536"
  shows "unat (compute_bg_desc_reserve_blocks fi) = min 1024 (8 * G - (32 * G + 4095) div 4096)"
proof -
  have m: "unat (count_block_groups fi * 32) = 32 * G" "unat (32768 * count_block_groups fi) = 32768 * G"
    using assms by (simp_all add: unat_word_ariths)
  have d: "unat (DIV_ROUND_UP (count_block_groups fi * 32) 4096) = (32 * G + 4095) div 4096"
    "unat (DIV_ROUND_UP (count_block_groups fi * 1024 * 32) 4096) = 8 * G"
    using assms(4) by (subst unat_DIV_ROUND_UP; simp add: m)+
  have le: "(32 * G + 4095) div 4096 \<le> 8 * G" using assms(3) by linarith
  have "unat (DIV_ROUND_UP (count_block_groups fi * 1024 * 32) 4096 - DIV_ROUND_UP (count_block_groups fi * 32) 4096)
      = 8 * G - (32 * G + 4095) div 4096"
    using le d by (simp add: unat_sub word_le_nat_alt)
  then show ?thesis
    by (simp add: compute_bg_desc_reserve_blocks_def Let_def assms(1) word_less_nat_alt min_def)
qed

section \<open>Properties\<close>

lemma choose_parameters_ok:
  assumes len: "4096 \<le> unat len" "unat len < 2 ^ 43" and B: "B = unat len div 4096" and G: "G = (B + 32767) div 32768"
  obtains fi' where "choose_parameters st io (len_only len l) = Inr (Some fi')"
    and "block_size fi' = 4096" "blocks_per_group fi' = 32768" "inode_size fi' = 256" "label fi' = l"
    and "unat (info_len fi') = 4096 * B" "16 dvd unat (inodes_per_group fi')" "unat (inodes_per_group fi') \<le> 8192"
    and "unat (info_inodes fi') = unat (inodes_per_group fi') * G" "B div 4 \<le> unat (info_inodes fi')"
    and "1024 \<le> journal_blocks fi'" "journal_blocks fi' \<le> 32768"
    and "unat (bg_desc_reserve_blocks fi') = min 1024 (8 * G - (32 * G + 4095) div 4096)"
    and "feat_compat fi' = 0x1C" "feat_ro_compat fi' = 0x13" "feat_incompat fi' = 0x42"
proof -
  let ?fi = "choose_sizes (len_only len l)"
  note c = choose_sizes_default [OF refl, of len l]
  have Bb: "0 < B" "B < 2 ^ 31" using len B by (simp_all add: div_greater_zero_iff less_mult_imp_div_less)
  have "0 < sint len" using len by (intro sint_pos) simp_all
  then have cl: "choose_len st io (len_only len l) = len_only len l" "\<not> sint (info_len (len_only len l)) \<le> 0"
    by (simp_all add: choose_len_def len_only_def)
  have il: "unat (info_len ?fi) = 4096 * B" using round_to_blocks [of len] by (simp add: c B)
  note lb = rounded_in_blocks [OF il c(1) Bb(2)]
  obtain n where n: "compute_inodes_per_group ?fi = Inr (n, ?fi\<lparr>info_inodes := n * count_block_groups ?fi\<rparr>)"
    "16 dvd unat n" "unat n \<le> 8192" "unat (n * count_block_groups ?fi) = unat n * G" "B div 4 \<le> unat n * G"
    using inodes_per_group_ok [OF c(1-3) lb Bb c(7) G] by blast
  define f2 where "f2 = ?fi\<lparr>info_inodes := n * count_block_groups ?fi, inodes_per_group := n,
     feat_compat := 0x1C, feat_ro_compat := 0x13, feat_incompat := 0x42\<rparr>"
  have f2: "choose_parameters st io (len_only len l) =
      Inr (Some (f2\<lparr>bg_desc_reserve_blocks := compute_bg_desc_reserve_blocks f2\<rparr>))"
    using cl(2) by (simp add: choose_parameters_def cl(1) n(1) c f2_def Let_def)
  have same: "count_block_groups f2 = count_block_groups ?fi"
    by (simp add: f2_def count_block_groups_def len_in_blocks_def)
  have cb: "unat (count_block_groups f2) = G" using block_groups_count [OF lb c(2) Bb(2)] by (simp add: same G)
  have r: "unat (compute_bg_desc_reserve_blocks f2) = min 1024 (8 * G - (32 * G + 4095) div 4096)"
    using cb groups_bounds [OF Bb(2,1)] G by (intro desc_reserve_ok) (simp_all add: f2_def c)
  show ?thesis
    by (rule that [OF f2]) (use c il n r journal_bounds in \<open>simp_all add: f2_def\<close>)
qed

text \<open>
  The parameters chosen for a filesystem of which only the length is given, from one block up to
  \<open>2 ^ 43\<close> bytes: 4 KiB blocks, 32768 to a group, the length cut to whole blocks; the inodes of a group
  fill whole table blocks, fit its bitmap and give one inode for four blocks overall; the journal has 1024 to
  32768 blocks, and the reserved descriptor blocks never exceed the 1024 entries of an indirect block.
\<close>

theorem default_parameters:
  assumes "4096 \<le> unat len" "unat len < 2 ^ 43" and "B = unat len div 4096" and "G = (B + 32767) div 32768"
  shows "\<exists>fi'. choose_parameters st io (len_only len l) = Inr (Some fi') \<and>
    block_size fi' = 4096 \<and> blocks_per_group fi' = 32768 \<and> inode_size fi' = 256 \<and> unat (info_len fi') = 4096 * B \<and>
    16 dvd unat (inodes_per_group fi') \<and> unat (inodes_per_group fi') \<le> 8192 \<and>
    unat (info_inodes fi') = unat (inodes_per_group fi') * G \<and> B div 4 \<le> unat (info_inodes fi') \<and>
    1024 \<le> journal_blocks fi' \<and> journal_blocks fi' \<le> 32768 \<and>
    unat (bg_desc_reserve_blocks fi') = min 1024 (8 * G - (32 * G + 4095) div 4096)"
proof -
  obtain fi' where "choose_parameters st io (len_only len l) = Inr (Some fi')"
    "block_size fi' = 4096" "blocks_per_group fi' = 32768" "inode_size fi' = 256"
    "unat (info_len fi') = 4096 * B" "16 dvd unat (inodes_per_group fi')" "unat (inodes_per_group fi') \<le> 8192"
    "unat (info_inodes fi') = unat (inodes_per_group fi') * G" "B div 4 \<le> unat (info_inodes fi')"
    "1024 \<le> journal_blocks fi'" "journal_blocks fi' \<le> 32768"
    "unat (bg_desc_reserve_blocks fi') = min 1024 (8 * G - (32 * G + 4095) div 4096)"
    using choose_parameters_ok [OF assms] by metis
  then show ?thesis by blast
qed

theorem default_parameters_witness:
  "\<exists>fi'. choose_parameters None None (len_only 104857601 []) = Inr (Some fi') \<and> unat (info_len fi') = 104857600 \<and>
     unat (bg_desc_reserve_blocks fi') = 7"
  using default_parameters [of 104857601 25600 1 None None "[]"] by auto

text \<open>
  A positive length below one block is rounded down to nothing after the size check: the number of
  block groups becomes zero and the inodes per group are computed by a division by it.
\<close>

theorem short_length_divides_by_zero:
  assumes "0 < unat len" "unat len < 4096"
  shows "choose_parameters st io (len_only len l) = Inl Undefined"
proof -
  let ?fi = "choose_sizes (len_only len l)"
  note c = choose_sizes_default [OF refl, of len l]
  have "0 < sint len" using assms by (intro sint_pos) simp_all
  then have cl: "choose_len st io (len_only len l) = len_only len l" "\<not> sint (info_len (len_only len l)) \<le> 0"
    by (simp_all add: choose_len_def len_only_def)
  have "unat (info_len ?fi) = 4096 * 0" using round_to_blocks [of len] assms by (simp add: c)
  from rounded_in_blocks [OF this c(1)] have "unat (len_in_blocks ?fi) = 0" by simp
  from block_groups_count [OF this c(2)] have "count_block_groups ?fi = 0" by (simp add: unat_eq_zero)
  then show ?thesis using cl(2) by (simp add: choose_parameters_def cl(1) compute_inodes_per_group_def Let_def)
qed

theorem short_length_divides_by_zero_witness: "choose_parameters None None (len_only 4095 []) = Inl Undefined"
  using short_length_divides_by_zero [of 4095 None None "[]"] by simp

text \<open>
  The canonical form of a mount point starts and ends with a slash, contains the string with at most
  one slash added on each side, and is its own canonical form; a non-empty directory argument is only
  given the slash at its end.
\<close>

theorem canonical_slashes:
  "(\<exists>r. canonicalize_abs_slashes str = Inr r \<and> r \<noteq> [] \<and> hd r = 47 \<and> last r = 47 \<and>
      r \<in> {str, 47 # str, str @ [47], 47 # str @ [47]} \<and> canonicalize_abs_slashes r = Inr r) \<and>
   (str \<noteq> [] \<longrightarrow> (\<exists>r. canonicalize_rel_slashes str = Inr r \<and> hd r = hd str \<and> last r = 47 \<and>
      r \<in> {str, str @ [47]} \<and> canonicalize_rel_slashes r = Inr r))"
  by (auto simp: canonicalize_abs_slashes_def canonicalize_rel_slashes_def canonicalize_slashes_def hd_append)

theorem canonical_slashes_witness:
  "(\<exists>r. canonicalize_abs_slashes [97] = Inr r \<and> hd r = 47) \<and> (\<exists>r. canonicalize_rel_slashes [97] = Inr r \<and> last r = 47)"
  using canonical_slashes [of "[97]"] by blast

end
