(* ===== verification/Ext4fixup.thy ===== *)
theory Ext4fixup
  imports Superblock
begin

text \<open>
  \<^verbatim>\<open>ext4fixup.c\<close>: the tool that rounds up the number of inodes per group of an existing filesystem.
  It walks the directory tree three times (a dry run, marking every inode number, replacing the marked
  numbers) and then rewrites the superblocks, and records on the device which phase it is in, so that an
  interrupted run can be resumed.

  A run is a function of the device and the globals. Its result keeps the state also when it leaves by
  \<^verbatim>\<open>longjmp\<close>, because the device then holds an unfinished phase. The device has a fixed size: a read
  or write at its end is short. A request of more than \<open>PTRDIFF_MAX\<close> bytes from \<^verbatim>\<open>malloc\<close> fails.
  \<open>fuel\<close> bounds the loop iterations and nested calls; a directory whose \<^verbatim>\<open>rec_len\<close> is 0 loops
  forever, and so does a cycle of directories or extent blocks.
\<close>

section \<open>State\<close>

record fixup_st =
  fx_fs :: ext4_st
  dev :: bytes
  fpos :: nat
  no_write :: bool
  new_inodes_per_group :: u32
  no_write_fixup_state :: int
  bail_phase :: int
  bail_loc :: int
  bail_count :: int
  fx_count :: int

type_synonym 'a fx = "fixup_st \<Rightarrow> 'a res \<times> fixup_st"

definition fret :: "'a \<Rightarrow> 'a fx" where
  "fret x s = (Inr x, s)"

definition ffail :: "fault \<Rightarrow> 'a fx" where
  "ffail e s = (Inl e, s)"

definition flift :: "'a res \<Rightarrow> 'a fx" where
  "flift r s = (r, s)"

definition fbnd :: "'a fx \<Rightarrow> ('a \<Rightarrow> 'b fx) \<Rightarrow> 'b fx" where
  "fbnd m f s = (case m s of (Inl e, s') \<Rightarrow> (Inl e, s') | (Inr x, s') \<Rightarrow> f x s')"

fun ffor :: "('x \<Rightarrow> 'a \<Rightarrow> 'a fx) \<Rightarrow> 'x list \<Rightarrow> 'a \<Rightarrow> 'a fx" where
  "ffor f [] a = fret a"
| "ffor f (x # xs) a = fbnd (f x a) (ffor f xs)"

lemmas fx_simps = fret_def ffail_def flift_def fbnd_def

definition fx_info :: "fixup_st \<Rightarrow> fs_info" where
  "fx_info s = info (fx_fs s)"

definition fx_aux :: "fixup_st \<Rightarrow> fs_aux_info" where
  "fx_aux s = aux_info (fx_fs s)"

lemma fx_count_frame [simp]: "fx_info (s\<lparr>fx_count := c\<rparr>) = fx_info s" "fx_aux (s\<lparr>fx_count := c\<rparr>) = fx_aux s"
  by (simp_all add: fx_info_def fx_aux_def)

section \<open>Device access\<close>

text \<open>\<^verbatim>\<open>lseek64\<close> fails for a negative offset.\<close>

definition lseek64 :: "u64 \<Rightarrow> bool fx" where
  "lseek64 off s = (if sint off < 0 then (Inr False, s) else (Inr True, s\<lparr>fpos := unat off\<rparr>))"

definition dev_read :: "nat \<Rightarrow> bytes fx" where
  "dev_read n s = (let b = take n (drop (fpos s) (dev s)) in (Inr b, s\<lparr>fpos := fpos s + length b\<rparr>))"

definition dev_write :: "bytes \<Rightarrow> nat fx" where
  "dev_write b s = (let n = min (length b) (length (dev s) - fpos s) in
     (Inr n, s\<lparr>dev := (if n = 0 then dev s else blit (dev s) (fpos s) (take n b)), fpos := fpos s + n\<rparr>))"

text \<open>The pattern of the code: a failed seek and a short transfer are critical errors.\<close>

definition seek_checked :: "u64 \<Rightarrow> unit fx" where
  "seek_checked off = fbnd (lseek64 off) (\<lambda>ok. if ok then fret () else ffail Longjmp)"

definition read_checked :: "nat \<Rightarrow> bytes fx" where
  "read_checked n = fbnd (dev_read n) (\<lambda>b. if length b = n then fret b else ffail Longjmp)"

definition write_checked :: "bytes \<Rightarrow> unit fx" where
  "write_checked b = fbnd (dev_write b) (\<lambda>n. if n = length b then fret () else ffail Longjmp)"

definition fx_malloc :: "u32 \<Rightarrow> unit fx" where
  "fx_malloc n s =
     (if 2 ^ 31 \<le> unat n \<or> oom (fx_fs s) (mallocs (fx_fs s)) then (Inl Longjmp, s)
      else (Inr (), s\<lparr>fx_fs := (fx_fs s)\<lparr>mallocs := mallocs (fx_fs s) + 1\<rparr>\<rparr>))"

definition compute_new_inum :: "u32 \<Rightarrow> u32 \<Rightarrow> u32 \<Rightarrow> u32 res" where
  "compute_new_inum ipg new_ipg old_inum =
     (if ipg = 0 then Inl Undefined
      else Inr ((old_inum - 1) div ipg * new_ipg + (old_inum - 1) mod ipg + 1))"

definition read_sb :: "bytes fx" where
  "read_sb = fbnd (seek_checked 1024) (\<lambda>_. read_checked sizeof_super_block)"

definition write_sb :: "u64 \<Rightarrow> bytes \<Rightarrow> unit fx" where
  "write_sb offset b s =
     (if no_write s then (Inr (), s) else fbnd (seek_checked offset) (\<lambda>_. write_checked b) s)"

section \<open>The phase recorded on the device\<close>

definition le64_bytes :: "u64 \<Rightarrow> bytes" where
  "le64_bytes w = le32_bytes (ucast w) @ le32_bytes (ucast (drop_bit 32 w))"

definition le64 :: "bytes \<Rightarrow> u64" where
  "le64 b = ucast (le32 b 0) OR push_bit 32 (ucast (le32 b 4))"

abbreviation (input) STATE_UNSET :: int where "STATE_UNSET \<equiv> 0"
abbreviation (input) STATE_MARKING_INUMS :: int where "STATE_MARKING_INUMS \<equiv> 1"
abbreviation (input) STATE_UPDATING_INUMS :: int where "STATE_UPDATING_INUMS \<equiv> 2"
abbreviation (input) STATE_UPDATING_SB :: int where "STATE_UPDATING_SB \<equiv> 3"

definition state_of_magic :: "u64 \<Rightarrow> int" where
  "state_of_magic magic =
     (if magic = 0x7000151515565512 then STATE_MARKING_INUMS
      else if magic = 0x6121131211735123 then STATE_UPDATING_INUMS
      else if magic = 0x15e1715151558477 then STATE_UPDATING_SB
      else STATE_UNSET)"

definition magic_of_state :: "int \<Rightarrow> u64" where
  "magic_of_state state =
     (if state = STATE_MARKING_INUMS then 0x7000151515565512
      else if state = STATE_UPDATING_INUMS then 0x6121131211735123
      else if state = STATE_UPDATING_SB then 0x15e1715151558477
      else 0)"

definition get_fs_fixup_state :: "int fx" where
  "get_fs_fixup_state s =
     (if no_write s then (Inr (no_write_fixup_state s), s)
      else fbnd (lseek64 0) (\<lambda>_. fbnd (read_checked 8) (\<lambda>b. fret (state_of_magic (le64 b)))) s)"

abbreviation (input) s_desc_size :: nat where "s_desc_size \<equiv> 254"

definition set_fs_fixup_state :: "int \<Rightarrow> int fx" where
  "set_fs_fixup_state state s =
     (if no_write s then (Inr 0, s\<lparr>no_write_fixup_state := state\<rparr>)
      else
        fbnd (lseek64 0) (\<lambda>_.
        fbnd (write_checked (le64_bytes (magic_of_state state))) (\<lambda>_.
        fbnd read_sb (\<lambda>sb.
        fbnd (flift (get16 sb s_desc_size)) (\<lambda>d.
        fbnd (flift (put16 sb s_desc_size (if magic_of_state state \<noteq> 0 then d OR 1 else d AND NOT 1))) (\<lambda>sb.
        fbnd (write_sb 1024 sb) (\<lambda>_.
        fret 0)))))) s)"

section \<open>Reading the filesystem\<close>

definition parse_super_block :: "bytes \<Rightarrow> unit fx" where
  "parse_super_block b s =
     (case ext4_parse_sb b (fx_fs s) of Inl e \<Rightarrow> (Inl e, s) | Inr f \<Rightarrow> (Inr (), s\<lparr>fx_fs := f\<rparr>))"

definition read_ext :: "int fx" where
  "read_ext =
     fbnd read_sb (\<lambda>sb.
     fbnd (parse_super_block sb) (\<lambda>_ s.
     (let fi = fx_info s; a = fx_aux s in
      if feat_incompat fi AND 0x0004 \<noteq> 0 then (Inl Longjmp, s)
      else
        fbnd (flift (get16 sb s_desc_size)) (\<lambda>d.
        if d AND NOT 1 \<noteq> 32 \<and> d AND NOT 1 \<noteq> 0 then ffail Longjmp
        else
          fbnd (seek_checked (info_len fi)) (\<lambda>_.
          fbnd (seek_checked (ucast (block_size fi * (first_data_block a + 1)))) (\<lambda>_.
          fbnd (read_checked (unat (block_size fi * bg_desc_blocks a))) (\<lambda>b.
          fbnd (flift (put_bytes (bg_desc a) 0 b)) (\<lambda>d s.
          (Inr 0, s\<lparr>fx_fs := (fx_fs s)\<lparr>aux_info := (aux_info (fx_fs s))\<lparr>bg_desc := d\<rparr>\<rparr>\<rparr>)))))) s)))"

definition read_inode :: "u32 \<Rightarrow> bytes fx" where
  "read_inode inum s =
     (let fi = fx_info s; n = inum - 1 in
      if inodes_per_group fi = 0 then (Inl Undefined, s)
      else
        fbnd (flift (get32 (bg_desc (fx_aux s)) (32 * unat (n div inodes_per_group fi) + 8))) (\<lambda>table.
        fbnd (seek_checked (ucast table * ucast (block_size fi) + ucast (n mod inodes_per_group fi * inode_size fi))) (\<lambda>_.
        read_checked sizeof_ext4_inode)) s)"

text \<open>The result of the seek is not tested (a comma in place of a comparison).\<close>

definition read_block :: "u64 \<Rightarrow> bytes fx" where
  "read_block block_num s =
     fbnd (lseek64 (block_num * ucast (block_size (fx_info s)))) (\<lambda>_.
     read_checked (unat (block_size (fx_info s)))) s"

definition write_block :: "u64 \<Rightarrow> bytes \<Rightarrow> unit fx" where
  "write_block block_num b s =
     (if no_write s then (Inr (), s)
      else fbnd (seek_checked (block_num * ucast (block_size (fx_info s)))) (\<lambda>_. write_checked b) s)"

section \<open>Superblocks and descriptors\<close>

text \<open>The bits are cleared in a buffer of 4096 bytes; a larger block overruns it.\<close>

definition clear_bits :: "u32 \<Rightarrow> u32 \<Rightarrow> bytes \<Rightarrow> (bool \<times> bytes) res" where
  "clear_bits from until block =
     for_each (\<lambda>i (updated, b).
         bnd (bitmap_get_bit b (of_nat i)) (\<lambda>set.
         if set then bnd (bitmap_clear_bit b (of_nat i)) (\<lambda>b. Inr (True, b)) else Inr (updated, b)))
       [unat from..<unat until] (False, block)"

definition check_inode_bitmap :: "u32 \<Rightarrow> unit fx" where
  "check_inode_bitmap bg_num s =
     fbnd (flift (get32 (bg_desc (fx_aux s)) (32 * unat bg_num + 4))) (\<lambda>num.
     if 4096 < block_size (fx_info s) then ffail Undefined
     else
       fbnd (read_block (ucast num)) (\<lambda>block.
       fbnd (flift (clear_bits (inodes_per_group (fx_info s)) (new_inodes_per_group s) block)) (\<lambda>(updated, block).
       if updated then write_block (ucast num) block else fret ()))) s"

definition add_free_inodes :: "u32 \<Rightarrow> u16 \<Rightarrow> unit fx" where
  "add_free_inodes i n s =
     (let d = bg_desc (fx_aux s); off = 32 * unat i + bg_free_inodes_count in
      fbnd (flift (get16 d off)) (\<lambda>free.
      fbnd (flift (put16 d off (free + n))) (\<lambda>d s.
      (Inr (), s\<lparr>fx_fs := (fx_fs s)\<lparr>aux_info := (aux_info (fx_fs s))\<lparr>bg_desc := d\<rparr>\<rparr>\<rparr>))) s)"

text \<open>The superblock and the descriptors of one group; \<open>b\<close> is the local copy.\<close>

definition write_group_sb :: "u32 \<Rightarrow> bytes \<Rightarrow> bytes fx" where
  "write_group_sb i b s =
     (let fi = fx_info s; a = fx_aux s;
          start = ucast i * ucast (blocks_per_group fi) * ucast (block_size fi) :: u64 in
      fbnd (flift (ext4_bg_has_super_block fi (sint i))) (\<lambda>has_sb.
      fbnd (if has_sb
            then
              fbnd (flift (put16 b s_block_group_nr (ucast i))) (\<lambda>b.
              fbnd (flift (get16 b s_desc_size)) (\<lambda>d.
              fbnd (flift (if i \<noteq> 0 then put16 b s_desc_size (d AND NOT 1) else Inr b)) (\<lambda>b.
              fbnd (write_sb (start + (if i = 0 then 1024 else 0)) b) (\<lambda>_.
              fbnd (seek_checked (start + ucast (block_size fi * (first_data_block a + 1)))) (\<lambda>_.
              fbnd (if no_write s then fret ()
                    else write_checked (take (unat (block_size fi * bg_desc_blocks a)) (bg_desc a))) (\<lambda>_.
              fret b))))))
            else fret b) (\<lambda>b.
      if bail_phase s = 4 \<and> word_of_int (bail_count s) = i then ffail Longjmp else fret b)) s)"

definition update_superblocks_and_bg_desc :: "int \<Rightarrow> int fx" where
  "update_superblocks_and_bg_desc state =
     fbnd read_sb (\<lambda>sb s.
     (let fi = fx_info s; a = fx_aux s; n = new_inodes_per_group s in
      if blocks_per_group fi = 0 then (Inl Undefined, s)
      else
        let num_block_groups = ucast (DIV_ROUND_UP (len_blocks a) (ucast (blocks_per_group fi))) :: u32;
            more = n - le32 sb s_inodes_per_group;
            total_new_inodes = num_block_groups * more in
        fbnd (ffor (\<lambda>i _.
                fbnd (if state = STATE_UPDATING_SB then add_free_inodes (of_nat i) (ucast more) else fret ()) (\<lambda>_.
                check_inode_bitmap (of_nat i))) [0..<unat num_block_groups] ()) (\<lambda>_.
        if le32 sb s_inodes_count + total_new_inodes \<noteq> n * num_block_groups then ffail Longjmp
        else if inode_size fi = 0 \<or> block_size fi div inode_size fi = 0 then ffail Undefined
        else if n mod (block_size fi div inode_size fi) \<noteq> 0 then ffail Longjmp
        else
          fbnd (flift (put_all [(s_inodes_count, le32_bytes (le32 sb s_inodes_count + total_new_inodes)),
                                (s_free_inodes_count, le32_bytes (le32 sb s_free_inodes_count + total_new_inodes)),
                                (s_inodes_per_group, le32_bytes n)] sb)) (\<lambda>sb.
          fbnd (ffor (\<lambda>i sb. write_group_sb (of_nat i) sb) [0..<unat (groups a)] sb) (\<lambda>_.
          fret 0))) s))"

section \<open>The blocks of a directory\<close>

text \<open>A list of block numbers in memory that was not initialised: \<open>None\<close> is a slot not yet written.\<close>

type_synonym block_list = "u64 option list"

definition set_block :: "nat \<Rightarrow> u64 \<Rightarrow> block_list \<Rightarrow> block_list res" where
  "set_block i b bl = (if i < length bl then Inr (bl[i := Some b]) else Inl Undefined)"

definition inode_blocks :: "fs_info \<Rightarrow> bytes \<Rightarrow> u32 res" where
  "inode_blocks fi inode =
     (if block_size fi div 512 = 0 then Inl Undefined
      else bnd (get32 inode i_blocks_lo) (\<lambda>n. Inr (n div (block_size fi div 512))))"

text \<open>The boolean tells that there are more blocks than direct ones.\<close>

definition get_direct_blocks :: "fs_info \<Rightarrow> bytes \<Rightarrow> block_list \<Rightarrow> (bool \<times> block_list) res" where
  "get_direct_blocks fi inode bl =
     bnd (inode_blocks fi inode) (\<lambda>n.
     bnd (for_each (\<lambda>i bl. bnd (get32 inode (i_block + 4 * i)) (\<lambda>b. set_block i (ucast b) bl))
            [0..<unat (min n EXT4_NDIR_BLOCKS)] bl) (\<lambda>bl.
     Inr (EXT4_NDIR_BLOCKS < n, bl)))"

definition get_indirect_blocks :: "bytes \<Rightarrow> block_list \<Rightarrow> block_list fx" where
  "get_indirect_blocks inode bl s =
     fbnd (fx_malloc (block_size (fx_info s))) (\<lambda>_.
     fbnd (flift (get32 inode (i_block + 48))) (\<lambda>num.
     fbnd (read_block (ucast num)) (\<lambda>ind.
     fbnd (flift (inode_blocks (fx_info s) inode)) (\<lambda>n.
     flift (for_each (\<lambda>i bl. bnd (get32 ind (4 * i)) (\<lambda>b. set_block (12 + i) (ucast b) bl))
              [0..<unat (n - EXT4_NDIR_BLOCKS)] bl))))) s"

definition get_block_list_indirect :: "bytes \<Rightarrow> block_list \<Rightarrow> block_list fx" where
  "get_block_list_indirect inode bl s =
     fbnd (flift (get_direct_blocks (fx_info s) inode bl)) (\<lambda>(more, bl).
     if more then get_indirect_blocks inode bl else fret bl) s"

text \<open>The header is at \<open>hdr\<close> in \<open>buf\<close> (an inode or an extent block), the entries behind it.\<close>

definition extent_start :: "u16 \<Rightarrow> u32 \<Rightarrow> u64" where
  "extent_start hi lo = push_bit 32 (ucast hi) OR ucast lo"

definition get_extent_ents :: "bytes \<Rightarrow> nat \<Rightarrow> block_list \<Rightarrow> block_list res" where
  "get_extent_ents buf hdr bl =
     bnd (get16 buf (hdr + 6)) (\<lambda>depth.
     if depth \<noteq> 0 then Inl Longjmp
     else
       bnd (get16 buf (hdr + 2)) (\<lambda>entries.
       for_each (\<lambda>i bl.
           bnd (get32 buf (hdr + 12 + 12 * i)) (\<lambda>ee_block.
           bnd (get16 buf (hdr + 12 + 12 * i + 4)) (\<lambda>ee_len.
           bnd (get16 buf (hdr + 12 + 12 * i + 6)) (\<lambda>hi.
           bnd (get32 buf (hdr + 12 + 12 * i + 8)) (\<lambda>lo.
           for_each (\<lambda>j bl. set_block (unat (ee_block + of_nat j)) (extent_start hi lo + of_nat j) bl)
             [0..<unat ee_len] bl)))))
         [0..<unat entries] bl))"

text \<open>Every iteration reads the first index entry: the pointer to it is not advanced.\<close>

fun get_extent_idx :: "nat \<Rightarrow> bytes \<Rightarrow> nat \<Rightarrow> block_list \<Rightarrow> block_list fx" where
  "get_extent_idx 0 buf hdr bl = ffail Diverges"
| "get_extent_idx (Suc fuel) buf hdr bl =
     fbnd (flift (get16 buf (hdr + 6))) (\<lambda>depth.
     if depth = 0 then ffail Longjmp
     else
       fbnd (flift (get16 buf (hdr + 2))) (\<lambda>entries.
       ffor (\<lambda>_ bl.
           fbnd (flift (get32 buf (hdr + 12 + 4))) (\<lambda>lo.
           fbnd (flift (get16 buf (hdr + 12 + 8))) (\<lambda>hi s.
           (if 4096 < block_size (fx_info s) then (Inl Undefined, s)
            else
              fbnd (read_block (extent_start hi lo)) (\<lambda>block.
              fbnd (flift (get16 block 6)) (\<lambda>depth.
              if depth = 0 then flift (get_extent_ents block 0 bl) else get_extent_idx fuel block 0 bl)) s))))
         [0..<unat entries] bl))"

definition get_block_list_extents :: "nat \<Rightarrow> bytes \<Rightarrow> block_list \<Rightarrow> block_list fx" where
  "get_block_list_extents fuel inode bl =
     fbnd (flift (get16 inode i_block)) (\<lambda>magic.
     if magic \<noteq> EXT4_EXT_MAGIC then ffail Longjmp
     else
       fbnd (flift (get16 inode (i_block + 6))) (\<lambda>depth.
       if depth = 0 then flift (get_extent_ents inode i_block bl) else get_extent_idx fuel inode i_block bl))"

section \<open>The walk over the directories\<close>

abbreviation (input) SANITY_CHECK_PASS :: int where "SANITY_CHECK_PASS \<equiv> 1"
abbreviation (input) MARK_INODE_NUMS :: int where "MARK_INODE_NUMS \<equiv> 2"
abbreviation (input) UPDATE_INODE_NUMS :: int where "UPDATE_INODE_NUMS \<equiv> 3"

definition marked :: "u32 \<Rightarrow> bool" where
  "marked inum \<longleftrightarrow> inum AND 0x80000000 \<noteq> 0"

definition is_entry_dir :: "u32 \<Rightarrow> u8 \<Rightarrow> int \<Rightarrow> bool fx" where
  "is_entry_dir inum file_type pass =
     (if file_type = 2 then fret True
      else if file_type = 0 then
        (if pass = UPDATE_INODE_NUMS \<and> \<not> marked inum then fret False
         else fbnd (read_inode (inum AND 0x7FFFFFFF)) (\<lambda>inode.
              fbnd (flift (get16 inode i_mode)) (\<lambda>m. fret (m AND 0xF000 = 0x4000))))
      else fret False)"

text \<open>The name copied by \<^verbatim>\<open>strncpy\<close>, which stops at a NUL.\<close>

definition entry_name :: "bytes \<Rightarrow> nat \<Rightarrow> nat \<Rightarrow> bytes res" where
  "entry_name buf d n =
     (let cs = takeWhile (\<lambda>c. c \<noteq> 0) (take n (drop (d + 8) buf)) in
      if length cs < n \<and> length buf \<le> d + 8 + length cs then Inl Undefined else Inr cs)"

text \<open>What a pass does to the inode number of an entry.\<close>

definition pass_inum :: "u32 \<Rightarrow> u32 \<Rightarrow> int \<Rightarrow> u32 \<Rightarrow> u32 res" where
  "pass_inum ipg new_ipg mode inum =
     (if mode = MARK_INODE_NUMS then Inr (inum OR 0x80000000)
      else if mode = UPDATE_INODE_NUMS \<and> marked inum then compute_new_inum ipg new_ipg (inum AND 0x7FFFFFFF)
      else Inr inum)"

definition bail_at :: "int \<Rightarrow> int \<Rightarrow> (int \<Rightarrow> int \<Rightarrow> bool) \<Rightarrow> unit fx" where
  "bail_at mode loc cmp s =
     (if bail_phase s = mode \<and> bail_loc s = loc \<and> cmp (bail_count s) (fx_count s) then (Inl Longjmp, s) else (Inr (), s))"

definition directory_blocks :: "nat \<Rightarrow> bytes \<Rightarrow> u32 \<Rightarrow> block_list fx" where
  "directory_blocks fuel inode num_blocks s =
     fbnd (fx_malloc ((num_blocks + 1) * 8)) (\<lambda>_.
     fbnd (flift (get32 inode i_flags)) (\<lambda>flags.
     let bl = replicate (unat (num_blocks + 1)) None in
     if flags AND EXT4_EXTENTS_FL \<noteq> 0 then get_block_list_extents fuel inode bl
     else if block_size (fx_info s) div 4 + EXT4_NDIR_BLOCKS < num_blocks then ffail Longjmp
     else get_block_list_indirect inode bl)) s"

definition read_directory :: "block_list \<Rightarrow> u32 \<Rightarrow> bytes fx" where
  "read_directory bl num_blocks =
     ffor (\<lambda>i buf. case bl ! i of None \<Rightarrow> ffail Undefined | Some b \<Rightarrow> fbnd (read_block b) (\<lambda>x. fret (buf @ x)))
       [0..<unat num_blocks] []"

definition write_directory :: "block_list \<Rightarrow> u32 \<Rightarrow> bytes \<Rightarrow> int \<Rightarrow> unit fx" where
  "write_directory bl num_blocks buf mode s =
     (let bs = unat (block_size (fx_info s)) in
      ffor (\<lambda>i _. case bl ! i of None \<Rightarrow> ffail Undefined
                  | Some b \<Rightarrow> fbnd (write_block b (take bs (drop (i * bs) buf))) (\<lambda>_. bail_at mode 2 (\<le>)))
        [0..<unat num_blocks] () s)"

text \<open>
  One directory, and one iteration of the loop over its entries; \<open>loop\<close> and \<open>recurse\<close> are the calls that
  follow the directory's entries and a subdirectory.
\<close>

definition visit_directory ::
    "(bytes \<Rightarrow> nat \<Rightarrow> nat option \<Rightarrow> int \<Rightarrow> bytes fx) \<Rightarrow> nat \<Rightarrow> bytes \<Rightarrow> u32 \<Rightarrow> int \<Rightarrow> int fx" where
  "visit_directory loop fuel inode dirsize mode s =
     (let bs = block_size (fx_info s) in
      if mode \<notin> {SANITY_CHECK_PASS, MARK_INODE_NUMS, UPDATE_INODE_NUMS} then (Inl Longjmp, s)
      else if bs = 0 then (Inl Undefined, s)
      else if dirsize mod bs \<noteq> 0 then (Inl Longjmp, s)
      else
        fbnd (directory_blocks fuel inode (dirsize div bs)) (\<lambda>bl.
        fbnd (read_directory bl (dirsize div bs)) (\<lambda>buf.
        fbnd (loop buf 0 None mode) (\<lambda>buf.
        fbnd (write_directory bl (dirsize div bs) buf mode) (\<lambda>_.
        fret 0)))) s)"

definition visit_subdirectory :: "(bytes \<Rightarrow> u32 \<Rightarrow> int \<Rightarrow> int fx) \<Rightarrow> u32 \<Rightarrow> int \<Rightarrow> unit fx" where
  "visit_subdirectory recurse inum mode =
     fbnd (read_inode (inum AND 0x7FFFFFFF)) (\<lambda>tmp_inode.
     fbnd (flift (get16 tmp_inode i_mode)) (\<lambda>m.
     if m AND 0xF000 \<noteq> 0x4000 then ffail Longjmp
     else
       fbnd (flift (get32 tmp_inode i_blocks_lo)) (\<lambda>n.
       fbnd (fx_malloc (n * 512)) (\<lambda>_.
       fbnd (recurse tmp_inode (n * 512) mode) (\<lambda>_. fret ())))))"

definition renumber_entry :: "bytes \<Rightarrow> nat \<Rightarrow> int \<Rightarrow> u32 \<Rightarrow> bytes fx" where
  "renumber_entry buf d mode inum s =
     flift (bnd (pass_inum (inodes_per_group (fx_info s)) (new_inodes_per_group s) mode inum) (\<lambda>inum'.
            put32 buf d inum')) s"

definition visit_entry ::
    "(bytes \<Rightarrow> u32 \<Rightarrow> int \<Rightarrow> int fx) \<Rightarrow> (bytes \<Rightarrow> nat \<Rightarrow> nat option \<Rightarrow> int \<Rightarrow> bytes fx) \<Rightarrow>
     bytes \<Rightarrow> nat \<Rightarrow> int \<Rightarrow> u32 \<Rightarrow> bytes fx" where
  "visit_entry recurse loop buf d mode inum =
     fbnd (flift (get8 buf (d + 6))) (\<lambda>name_len.
     fbnd (flift (entry_name buf d (unat name_len))) (\<lambda>name.
     fbnd (flift (get8 buf (d + 7))) (\<lambda>file_type.
     fbnd (is_entry_dir inum file_type mode) (\<lambda>is_dir.
     fbnd (if is_dir \<and> name \<noteq> [46] \<and> name \<noteq> [46, 46] \<and> (mode = UPDATE_INODE_NUMS \<longrightarrow> marked inum)
           then visit_subdirectory recurse inum mode else fret ()) (\<lambda>_.
     fbnd (renumber_entry buf d mode inum) (\<lambda>buf.
     fbnd (bail_at mode 1 (=)) (\<lambda>_.
     fbnd (flift (get16 buf (d + 4))) (\<lambda>rec_len.
     loop buf (d + unat rec_len) (Some d) mode))))))))"

text \<open>A previous entry that stops at most 8 bytes before the end is extended over them.\<close>

definition loop_step ::
    "(bytes \<Rightarrow> u32 \<Rightarrow> int \<Rightarrow> int fx) \<Rightarrow> (bytes \<Rightarrow> nat \<Rightarrow> nat option \<Rightarrow> int \<Rightarrow> bytes fx) \<Rightarrow>
     bytes \<Rightarrow> nat \<Rightarrow> nat option \<Rightarrow> int \<Rightarrow> bytes fx" where
  "loop_step recurse loop buf d prev mode s0 =
     (if \<not> d < length buf then (Inr buf, s0)
      else
        let s = s0\<lparr>fx_count := fx_count s0 + 1\<rparr>; leftover_space = length buf - d in
        case (if (mode = SANITY_CHECK_PASS \<or> mode = UPDATE_INODE_NUMS) \<and> leftover_space \<le> 8 then prev else None) of
          Some p \<Rightarrow> (bnd (get16 buf (p + 4)) (\<lambda>r. put16 buf (p + 4) (r + of_nat leftover_space)), s)
        | None \<Rightarrow>
            fbnd (flift (get32 buf d)) (\<lambda>inum.
            if inum = 0 then fret buf else visit_entry recurse loop buf d mode inum) s)"

fun recurse_dir :: "nat \<Rightarrow> bytes \<Rightarrow> u32 \<Rightarrow> int \<Rightarrow> int fx"
and dir_loop :: "nat \<Rightarrow> bytes \<Rightarrow> nat \<Rightarrow> nat option \<Rightarrow> int \<Rightarrow> bytes fx" where
  "recurse_dir 0 inode dirsize mode = ffail Diverges"
| "recurse_dir (Suc fuel) inode dirsize mode =
     visit_directory (\<lambda>buf d prev m. dir_loop fuel buf d prev m) fuel inode dirsize mode"
| "dir_loop 0 buf d prev mode = ffail Diverges"
| "dir_loop (Suc fuel) buf d prev mode =
     loop_step (\<lambda>i n m. recurse_dir fuel i n m) (\<lambda>buf d prev m. dir_loop fuel buf d prev m) buf d prev mode"

section \<open>The whole run\<close>

definition set_globals :: "bool \<Rightarrow> int \<Rightarrow> int \<Rightarrow> int \<Rightarrow> fixup_st \<Rightarrow> fixup_st" where
  "set_globals n_flag stop_phase stop_loc stop_count s =
     s\<lparr>no_write := n_flag, bail_phase := stop_phase, bail_loc := stop_loc, bail_count := stop_count\<rparr>"

text \<open>\<open>when_state st m\<close>: run \<open>m\<close> if the device is in phase \<open>st\<close>.\<close>

definition when_state :: "int \<Rightarrow> unit fx \<Rightarrow> unit fx" where
  "when_state st m = fbnd get_fs_fixup_state (\<lambda>x. if x = st then m else fret ())"

definition walk_pass :: "nat \<Rightarrow> bytes \<Rightarrow> u32 \<Rightarrow> int \<Rightarrow> int \<Rightarrow> unit fx" where
  "walk_pass fuel root dirsize mode next s =
     fbnd (recurse_dir fuel root dirsize mode) (\<lambda>r.
     if r = 0 then fbnd (set_fs_fixup_state next) (\<lambda>_. fret ()) else fret ()) (s\<lparr>fx_count := 0\<rparr>)"

definition sanity_pass :: "nat \<Rightarrow> bytes \<Rightarrow> u32 \<Rightarrow> unit fx" where
  "sanity_pass fuel root dirsize s =
     fbnd (recurse_dir fuel root dirsize SANITY_CHECK_PASS) (\<lambda>_.
     fbnd (update_superblocks_and_bg_desc STATE_UNSET) (\<lambda>_ t.
     fbnd (set_fs_fixup_state STATE_MARKING_INUMS) (\<lambda>_. fret ()) (t\<lparr>no_write := no_write s\<rparr>)))
     (s\<lparr>no_write := True\<rparr>)"

definition superblock_pass :: "unit fx" where
  "superblock_pass =
     fbnd (update_superblocks_and_bg_desc STATE_UPDATING_SB) (\<lambda>r.
     if r = 0 then fbnd (set_fs_fixup_state STATE_UNSET) (\<lambda>_. fret ()) else fret ())"

definition fixup_passes :: "nat \<Rightarrow> bytes \<Rightarrow> u32 \<Rightarrow> unit fx" where
  "fixup_passes fuel root dirsize =
     fbnd (when_state STATE_UNSET (sanity_pass fuel root dirsize)) (\<lambda>_.
     fbnd (when_state STATE_MARKING_INUMS (walk_pass fuel root dirsize MARK_INODE_NUMS STATE_UPDATING_INUMS)) (\<lambda>_.
     fbnd (when_state STATE_UPDATING_INUMS (walk_pass fuel root dirsize UPDATE_INODE_NUMS STATE_UPDATING_SB)) (\<lambda>_.
     when_state STATE_UPDATING_SB superblock_pass)))"

definition fixup_body :: "nat \<Rightarrow> int fx" where
  "fixup_body fuel =
     fbnd read_ext (\<lambda>_ s.
     (let fi = fx_info s in
      if feat_incompat fi AND 0x0002 = 0 then (Inl Longjmp, s)
      else if inode_size fi = 0 \<or> block_size fi div inode_size fi = 0 then (Inl Undefined, s)
      else
        fbnd (read_inode 2) (\<lambda>root.
        fbnd (flift (get16 root i_mode)) (\<lambda>m.
        if m AND 0xF000 \<noteq> 0x4000 then ffail Longjmp
        else
          fbnd (flift (get32 root i_blocks_lo)) (\<lambda>n.
          fbnd (fx_malloc (n * 512)) (\<lambda>_.
          fbnd (fixup_passes fuel root (n * 512)) (\<lambda>_.
          fret 0)))))
        (s\<lparr>new_inodes_per_group := ALIGN (inodes_per_group fi) (block_size fi div inode_size fi)\<rparr>)))"

text \<open>\<open>opened\<close> tells whether \<^verbatim>\<open>open\<close> succeeds; a \<^verbatim>\<open>longjmp\<close> returns \<^verbatim>\<open>EXIT_FAILURE\<close>.\<close>

definition ext4fixup_internal :: "nat \<Rightarrow> bool \<Rightarrow> bool \<Rightarrow> int \<Rightarrow> int \<Rightarrow> int \<Rightarrow> int fx" where
  "ext4fixup_internal fuel opened n_flag stop_phase stop_loc stop_count s =
     (case (if opened then fixup_body fuel else ffail Longjmp)
        (set_globals n_flag stop_phase stop_loc stop_count s) of
        (Inl Longjmp, s') \<Rightarrow> (Inr 1, s')
      | r \<Rightarrow> r)"

definition ext4fixup :: "nat \<Rightarrow> bool \<Rightarrow> int fx" where
  "ext4fixup fuel opened = ext4fixup_internal fuel opened False 0 0 0"

section \<open>Renumbering one inode\<close>

lemma mark_bits: "(0x80000000 :: u32) = push_bit 31 1" "(0x7FFFFFFF :: u32) = mask 31"
  by (simp_all add: mask_eq_exp_minus_1)

lemma marked_bit: "marked w \<longleftrightarrow> bit w 31"
  unfolding marked_def mark_bits by (metis and_exp_eq_0_iff_not_bit push_bit_of_1)

lemma marked_iff: "marked w \<longleftrightarrow> 2 ^ 31 \<le> unat w"
proof -
  have "marked w \<longleftrightarrow> bit (unat w) 31" by (simp add: marked_bit bit_unsigned_iff)
  also have "\<dots> \<longleftrightarrow> unat w div 2 ^ 31 mod 2 = 1" by (simp add: bit_iff_odd odd_iff_mod_2_eq_one)
  also have "\<dots> \<longleftrightarrow> 2 ^ 31 \<le> unat w"
  proof -
    have "unat w div 2 ^ 31 < 2" using unat_u32 [of w] by (simp add: less_mult_imp_div_less)
    then have "unat w div 2 ^ 31 mod 2 = unat w div 2 ^ 31" by simp
    moreover have "unat w div 2 ^ 31 = 1 \<longleftrightarrow> 0 < unat w div 2 ^ 31" using \<open>unat w div 2 ^ 31 < 2\<close> by linarith
    ultimately show ?thesis by (simp add: div_greater_zero_iff)
  qed
  finally show ?thesis .
qed

lemma unmark:
  shows "\<not> marked w \<Longrightarrow> (w OR 0x80000000) AND 0x7FFFFFFF = w" and "marked (w OR 0x80000000)"
    and "w OR 0x80000000 \<noteq> 0" and "(w OR 0x80000000) OR 0x80000000 = w OR 0x80000000"
proof -
  show m: "marked (w OR 0x80000000)" by (simp only: marked_bit mark_bits bit_simps) simp
  have "\<not> marked 0" by (simp add: marked_def)
  with m show "w OR 0x80000000 \<noteq> 0" by metis
  show "(w OR 0x80000000) OR 0x80000000 = w OR 0x80000000" by (simp add: or.assoc)
  show "(w OR 0x80000000) AND 0x7FFFFFFF = w" if "\<not> marked w"
  proof (rule bit_word_eqI)
    fix n assume "n < LENGTH(32)"
    then show "bit ((w OR 0x80000000) AND 0x7FFFFFFF) n = bit w n"
      using that unfolding marked_bit mark_bits by (auto simp: bit_simps less_Suc_eq numeral_eq_Suc)
  qed
qed

lemma new_inum_place:
  assumes "0 < unat ipg" "unat ipg \<le> unat new" "1 \<le> unat inum" "((unat inum - 1) div unat ipg + 1) * unat new < 2 ^ 31"
  obtains n where "compute_new_inum ipg new inum = Inr n" "(unat n - 1) div unat new = (unat inum - 1) div unat ipg"
    "(unat n - 1) mod unat new = (unat inum - 1) mod unat ipg" "1 \<le> unat n" "unat n < 2 ^ 31"
proof -
  let ?g = "(unat inum - 1) div unat ipg" and ?o = "(unat inum - 1) mod unat ipg"
  define n where "n = (inum - 1) div ipg * new + (inum - 1) mod ipg + 1"
  have i: "unat (inum - 1) = unat inum - 1" using assms(3) by (intro unat_minus_one) auto
  have o: "?o < unat new" using assms(1,2) by (meson less_le_trans mod_less_divisor)
  have b: "?g * unat new + ?o + 1 \<le> (?g + 1) * unat new" using o by simp
  have "unat ((inum - 1) div ipg * new) = ?g * unat new"
    using unat_mult_small [of "(inum - 1) div ipg" new] b assms(4) by (simp add: unat_div i)
  then have "unat n = ?g * unat new + ?o + 1"
    using b assms(4) by (simp add: n_def unat_word_ariths unat_mod i)
  moreover have "compute_new_inum ipg new inum = Inr n" using assms(1) by (auto simp: compute_new_inum_def n_def)
  ultimately show ?thesis using that [of n] o b assms(4) by simp
qed

section \<open>Renumbering a directory without subdirectories\<close>

text \<open>
  The entries of a directory block, by their offsets: each has a name inside its record, an inode number,
  and is no subdirectory to descend into.
\<close>

definition flat_entry :: "bytes \<Rightarrow> nat \<Rightarrow> bool" where
  "flat_entry b e \<longleftrightarrow>
     e + 8 < length b \<and> 8 + unat (b ! (e + 6)) \<le> unat (le16 b (e + 4)) \<and> e + unat (le16 b (e + 4)) \<le> length b \<and>
     b ! (e + 7) \<noteq> 0 \<and>
     (b ! (e + 7) = 2 \<longrightarrow> takeWhile (\<lambda>c. c \<noteq> 0) (take (unat (b ! (e + 6))) (drop (e + 8) b)) \<in> {[46], [46, 46]})"

fun flat_chain :: "bytes \<Rightarrow> nat \<Rightarrow> nat list \<Rightarrow> bool" where
  "flat_chain b d [] \<longleftrightarrow> length b \<le> d"
| "flat_chain b d (e # es) \<longleftrightarrow>
     e = d \<and> flat_entry b d \<and> le32 b d \<noteq> 0 \<and> flat_chain b (d + unat (le16 b (d + 4))) es"

definition new_inum :: "u32 \<Rightarrow> u32 \<Rightarrow> int \<Rightarrow> u32 \<Rightarrow> u32" where
  "new_inum ipg new mode inum = (case pass_inum ipg new mode inum of Inr n \<Rightarrow> n | Inl _ \<Rightarrow> inum)"

lemma pass_inum_total: "ipg \<noteq> 0 \<Longrightarrow> pass_inum ipg new mode inum = Inr (new_inum ipg new mode inum)"
  by (simp add: new_inum_def pass_inum_def compute_new_inum_def)

lemma flat_entry_cong:
  assumes "flat_entry b e" "length b' = length b" "\<And>i. e + 4 \<le> i \<Longrightarrow> i < e + unat (le16 b (e + 4)) \<Longrightarrow> b' ! i = b ! i"
  shows "flat_entry b' e" and "le16 b' (e + 4) = le16 b (e + 4)"
proof -
  have r: "8 + unat (b ! (e + 6)) \<le> unat (le16 b (e + 4))" "e + unat (le16 b (e + 4)) \<le> length b"
    using assms(1) by (simp_all add: flat_entry_def)
  show l: "le16 b' (e + 4) = le16 b (e + 4)" using r assms(3) by (intro le16_cong) auto
  have "take (unat (b ! (e + 6))) (drop (e + 8) b') = take (unat (b ! (e + 6))) (drop (e + 8) b)"
    using r assms(2,3) by (intro nth_equalityI) auto
  then show "flat_entry b' e" using assms r l by (simp add: flat_entry_def)
qed

lemma flat_chain_cong:
  "flat_chain b d es \<Longrightarrow> length b' = length b \<Longrightarrow> (\<And>i. d \<le> i \<Longrightarrow> i < length b \<Longrightarrow> b' ! i = b ! i) \<Longrightarrow> flat_chain b' d es"
proof (induction es arbitrary: d)
  case (Cons e es)
  have fe: "flat_entry b d" and e: "e = d" and nz: "le32 b d \<noteq> 0"
    and rest: "flat_chain b (d + unat (le16 b (d + 4))) es" using Cons.prems(1) by simp_all
  have l: "d + 8 < length b" "d + unat (le16 b (d + 4)) \<le> length b" using fe by (simp_all add: flat_entry_def)
  have "flat_entry b' d" "le16 b' (d + 4) = le16 b (d + 4)"
    using flat_entry_cong [OF fe Cons.prems(2)] Cons.prems(3) l by simp_all
  moreover have "le32 b' d = le32 b d" using l Cons.prems(3) by (intro le32_cong) simp
  moreover have "flat_chain b' (d + unat (le16 b (d + 4))) es"
    using Cons.IH [OF rest Cons.prems(2)] Cons.prems(3) by simp
  ultimately show ?case using e nz by simp
qed simp

lemma flat_chain_bounds: "flat_chain b d es \<Longrightarrow> x \<in> set es \<Longrightarrow> d \<le> x \<and> x + 8 < length b"
proof (induction es arbitrary: d)
  case (Cons y ys)
  then have r: "flat_chain b (d + unat (le16 b (d + 4))) ys" "flat_entry b d" "x = d \<or> x \<in> set ys" by auto
  then show ?case using Cons.IH [OF r(1)] by (fastforce simp: flat_entry_def)
qed simp

lemma flat_entry_name:
  assumes "flat_entry b e"
  shows "entry_name b e (unat (b ! (e + 6))) = Inr (takeWhile (\<lambda>c. c \<noteq> 0) (take (unat (b ! (e + 6))) (drop (e + 8) b)))"
proof -
  let ?n = "unat (b ! (e + 6))"
  let ?cs = "takeWhile (\<lambda>c. c \<noteq> 0) (take ?n (drop (e + 8) b))"
  have "e + 8 + ?n \<le> length b" using assms by (simp add: flat_entry_def)
  then have "\<not> (length ?cs < ?n \<and> length b \<le> e + 8 + length ?cs)" by linarith
  then show ?thesis by (simp only: entry_name_def Let_def if_False)
qed

lemma flat_not_descended:
  assumes "flat_entry b e" and m: "mode \<in> {2, 3}"
  shows "\<exists>x. is_entry_dir inum (b ! (e + 7)) mode = fret x \<and>
      (x \<longrightarrow> takeWhile (\<lambda>c. c \<noteq> 0) (take (unat (b ! (e + 6))) (drop (e + 8) b)) \<in> {[46], [46, 46]})"
  using assms by (auto simp: flat_entry_def is_entry_dir_def)

lemma fret_bnd [simp]: "fbnd (fret x) f = f x"
  by (simp add: fun_eq_iff fx_simps)

lemma flift_bnd [simp]: "fbnd (flift (Inr x)) f = f x"
  by (simp add: fun_eq_iff fx_simps)

lemma dir_loop_entry:
  assumes fe: "flat_entry b d" and nz: "le32 b d \<noteq> 0" and mode: "mode \<in> {2, 3}"
    and bail: "bail_phase s \<noteq> mode" and ipg: "inodes_per_group (fx_info s) \<noteq> 0"
  shows "dir_loop (Suc fuel) b d prev mode s =
    dir_loop fuel (blit b d (le32_bytes (new_inum (inodes_per_group (fx_info s)) (new_inodes_per_group s) mode (le32 b d))))
      (d + unat (le16 b (d + 4))) (Some d) mode (s\<lparr>fx_count := fx_count s + 1\<rparr>)"
proof -
  let ?n = "new_inum (inodes_per_group (fx_info s)) (new_inodes_per_group s) mode (le32 b d)"
  let ?s = "s\<lparr>fx_count := fx_count s + 1\<rparr>" and ?b = "blit b d (le32_bytes ?n)"
  have l: "d + 8 < length b" using fe by (simp add: flat_entry_def)
  obtain x where x: "is_entry_dir (le32 b d) (b ! (d + 7)) mode = fret x"
    "x \<Longrightarrow> takeWhile (\<lambda>c. c \<noteq> 0) (take (unat (b ! (d + 6))) (drop (d + 8) b)) \<in> {[46], [46, 46]}"
    using flat_not_descended [OF fe mode] by metis
  have reads: "get32 b d = Inr (le32 b d)" "get8 b (d + 6) = Inr (b ! (d + 6))" "get8 b (d + 7) = Inr (b ! (d + 7))"
    "put32 b d ?n = Inr ?b" "get16 ?b (d + 4) = Inr (le16 b (d + 4))"
    using l by (simp_all add: get32_def get8_def put32_def put_bytes_def get16_def length_blit le16_blit_other)
  have step: "renumber_entry b d mode (le32 b d) ?s = (Inr ?b, ?s)"
    using ipg by (simp add: renumber_entry_def pass_inum_total reads flift_def)
  have bl: "bail_at mode 1 (=) ?s = (Inr (), ?s)" using bail by (simp add: bail_at_def)
  have ve: "visit_entry r lp b d mode (le32 b d) ?s = lp ?b (d + unat (le16 b (d + 4))) (Some d) mode ?s" for r lp
    using x(2) by (auto simp: visit_entry_def reads flat_entry_name [OF fe] x(1) fbnd_def step bl flift_def fret_def)
  have "\<not> length b - d \<le> 8" using l by simp
  then show ?thesis using l nz by (simp add: loop_step_def Let_def reads ve)
qed

text \<open>
  The loop over a directory in which nothing is descended into: every entry is given its number, nothing else
  changes, and the entries are still there afterwards.
\<close>

lemma dir_loop_flat:
  assumes "flat_chain b d es" "length es < fuel" "mode \<in> {2, 3}" "bail_phase s \<noteq> mode"
    and "inodes_per_group (fx_info s) = ipg" "ipg \<noteq> 0" "new_inodes_per_group s = new"
    and "\<And>e. e \<in> set es \<Longrightarrow> new_inum ipg new mode (le32 b e) \<noteq> 0"
  shows "\<exists>b' c. dir_loop fuel b d prev mode s = (Inr b', s\<lparr>fx_count := c\<rparr>) \<and> length b' = length b \<and>
    flat_chain b' d es \<and> (\<forall>e \<in> set es. le32 b' e = new_inum ipg new mode (le32 b e)) \<and>
    (\<forall>i < length b. i < d \<or> (\<forall>e \<in> set es. i < e \<or> e + 4 \<le> i) \<longrightarrow> b' ! i = b ! i)"
  using assms
proof (induction es arbitrary: b d fuel prev s)
  case Nil
  obtain f where "fuel = Suc f" using Nil.prems(2) by (cases fuel) auto
  then show ?case using Nil.prems(1) by (auto simp: loop_step_def intro!: exI [of _ b] exI [of _ "fx_count s"])
next
  case (Cons e es)
  obtain f where f: "fuel = Suc f" "length es < f" using Cons.prems(2) by (cases fuel) auto
  have fe: "flat_entry b d" and e: "e = d" and nz: "le32 b d \<noteq> 0"
    and rest: "flat_chain b (d + unat (le16 b (d + 4))) es" using Cons.prems(1) by simp_all
  have l: "d + 8 < length b" "8 \<le> unat (le16 b (d + 4))" "d + unat (le16 b (d + 4)) \<le> length b"
    using fe by (simp_all add: flat_entry_def)
  let ?n = "new_inum ipg new mode (le32 b d)" and ?s = "s\<lparr>fx_count := fx_count s + 1\<rparr>"
  let ?b = "blit b d (le32_bytes ?n)" and ?d = "d + unat (le16 b (d + 4))"
  have lb: "length ?b = length b" using l by (simp add: length_blit)
  have keep: "?b ! i = b ! i" if "i < length b" "i < d \<or> d + 4 \<le> i" for i using that l by (auto simp: nth_blit)
  note later = flat_chain_bounds [OF rest]
  have same: "le32 ?b x = le32 b x" if "x \<in> set es" for x
    using later [OF that] l by (intro le32_blit_other) simp_all
  have chain: "flat_chain ?b ?d es" using l(2) keep by (intro flat_chain_cong [OF rest lb]) simp
  have nzs: "new_inum ipg new mode (le32 ?b x) \<noteq> 0" if "x \<in> set es" for x
    using Cons.prems(8) [of x] that same by simp
  have "\<exists>b' c. dir_loop f ?b ?d (Some d) mode ?s = (Inr b', ?s\<lparr>fx_count := c\<rparr>) \<and> length b' = length ?b \<and>
    flat_chain b' ?d es \<and> (\<forall>x \<in> set es. le32 b' x = new_inum ipg new mode (le32 ?b x)) \<and>
    (\<forall>i < length ?b. i < ?d \<or> (\<forall>x \<in> set es. i < x \<or> x + 4 \<le> i) \<longrightarrow> b' ! i = ?b ! i)"
    by (rule Cons.IH [OF chain f(2) Cons.prems(3)]) (use Cons.prems(4-7) nzs in simp_all)
  then obtain b' c where ih: "dir_loop f ?b ?d (Some d) mode ?s = (Inr b', ?s\<lparr>fx_count := c\<rparr>)" "length b' = length b"
    "flat_chain b' ?d es" "\<And>x. x \<in> set es \<Longrightarrow> le32 b' x = new_inum ipg new mode (le32 ?b x)"
    "\<And>i. i < length b \<Longrightarrow> i < ?d \<or> (\<forall>x \<in> set es. i < x \<or> x + 4 \<le> i) \<Longrightarrow> b' ! i = ?b ! i"
    unfolding lb by blast
  have run: "dir_loop fuel b d prev mode s = (Inr b', s\<lparr>fx_count := c\<rparr>)"
    using dir_loop_entry [OF fe nz Cons.prems(3,4), of f prev] Cons.prems(5-7) f(1) ih(1) by simp
  have body: "b' ! i = b ! i" if "d + 4 \<le> i" "i < ?d" for i using ih(5) [of i] keep [of i] that l by simp
  have "le32 b' d = le32 ?b d" using ih(5) l by (intro le32_cong) simp
  then have n: "le32 b' d = ?n" using l by (simp add: le32_blit_same)
  have "flat_entry b' d" "le16 b' (d + 4) = le16 b (d + 4)" using flat_entry_cong [OF fe ih(2) body] by blast+
  then have ch: "flat_chain b' d (e # es)" using ih(3) e n Cons.prems(8) [of d] by simp
  have nums: "\<forall>x \<in> set (e # es). le32 b' x = new_inum ipg new mode (le32 b x)" using n e ih(4) same by simp
  have fr: "b' ! i = b ! i" if "i < length b" "i < d \<or> (\<forall>x \<in> set (e # es). i < x \<or> x + 4 \<le> i)" for i
    using ih(5) [of i] keep [of i] that e by auto
  show ?case using run ih(2) ch nums fr by blast
qed

section \<open>Properties\<close>

definition inum_fits :: "u32 \<Rightarrow> u32 \<Rightarrow> u32 \<Rightarrow> bool" where
  "inum_fits ipg new inum \<longleftrightarrow> 1 \<le> unat inum \<and> \<not> marked inum \<and> ((unat inum - 1) div unat ipg + 1) * unat new < 2 ^ 31"

definition same_place :: "u32 \<Rightarrow> u32 \<Rightarrow> u32 \<Rightarrow> u32 \<Rightarrow> bool" where
  "same_place ipg new old n \<longleftrightarrow> (unat n - 1) div unat new = (unat old - 1) div unat ipg \<and>
     (unat n - 1) mod unat new = (unat old - 1) mod unat ipg \<and> 1 \<le> unat n \<and> \<not> marked n"

lemma new_inum_passes:
  assumes "0 < unat ipg" "unat ipg \<le> unat new" "inum_fits ipg new inum"
  shows "same_place ipg new inum (new_inum ipg new 3 (new_inum ipg new 2 inum))"
    and "new_inum ipg new 3 (new_inum ipg new 3 (new_inum ipg new 2 inum)) = new_inum ipg new 3 (new_inum ipg new 2 inum)"
    and "new_inum ipg new 2 (new_inum ipg new 2 inum) = new_inum ipg new 2 inum"
    and "new_inum ipg new 2 inum \<noteq> 0" and "new_inum ipg new 3 (new_inum ipg new 2 inum) \<noteq> 0"
proof -
  have nm: "\<not> marked inum" using assms(3) by (simp add: inum_fits_def)
  have m: "new_inum ipg new 2 inum = inum OR 0x80000000" by (simp add: new_inum_def pass_inum_def)
  obtain n where n: "compute_new_inum ipg new inum = Inr n" "(unat n - 1) div unat new = (unat inum - 1) div unat ipg"
    "(unat n - 1) mod unat new = (unat inum - 1) mod unat ipg" "1 \<le> unat n" "unat n < 2 ^ 31"
    using new_inum_place [OF assms(1,2), of inum] assms(3) by (metis inum_fits_def)
  have u: "new_inum ipg new 3 (inum OR 0x80000000) = n"
    by (simp add: new_inum_def pass_inum_def unmark(2) unmark(1) [OF nm] n(1))
  have nn: "\<not> marked n" using n(5) by (simp add: marked_iff)
  show "same_place ipg new inum (new_inum ipg new 3 (new_inum ipg new 2 inum))"
    using n nn by (simp add: m u same_place_def)
  show "new_inum ipg new 3 (new_inum ipg new 3 (new_inum ipg new 2 inum)) = new_inum ipg new 3 (new_inum ipg new 2 inum)"
    using nn by (simp add: m u) (simp add: new_inum_def pass_inum_def)
  show "new_inum ipg new 2 (new_inum ipg new 2 inum) = new_inum ipg new 2 inum"
    by (simp add: new_inum_def pass_inum_def unmark(4))
  show "new_inum ipg new 2 inum \<noteq> 0" using unmark(3) by (simp add: m)
  show "new_inum ipg new 3 (new_inum ipg new 2 inum) \<noteq> 0" using n(4) by (auto simp: m u)
qed

lemma same_bytes:
  assumes "length b' = length b" "\<And>e. e \<in> set es \<Longrightarrow> e + 4 \<le> length b \<and> le32 b' e = le32 b e"
    and "\<And>i. i < length b \<Longrightarrow> (\<forall>e \<in> set es. i < e \<or> e + 4 \<le> i) \<Longrightarrow> b' ! i = b ! i"
  shows "b' = b"
proof (rule nth_equalityI [OF assms(1)])
  fix i assume i: "i < length b'"
  show "b' ! i = b ! i"
  proof (cases "\<exists>e \<in> set es. e \<le> i \<and> i < e + 4")
    case True
    then obtain e where e: "e \<in> set es" "e \<le> i" "i < e + 4" by blast
    have "le32_bytes (le32 b' e) = le32_bytes (le32 b e)" using assms(2) [OF e(1)] by simp
    then have "[b' ! e, b' ! (e + 1), b' ! (e + 2), b' ! (e + 3)] = [b ! e, b ! (e + 1), b ! (e + 2), b ! (e + 3)]"
      by (simp only: le32_bytes_le32)
    moreover have "i \<in> {e, e + 1, e + 2, e + 3}" using e(2,3) by auto
    ultimately show ?thesis by auto
  next
    case False
    then show ?thesis using assms(1) i by (intro assms(3)) (auto simp: not_less)
  qed
qed

lemma pass_repeats:
  assumes "flat_chain b 0 es" "length es < fuel" "mode \<in> {2, 3}" "bail_phase s = 0" "inodes_per_group (fx_info s) = ipg"
    and "ipg \<noteq> 0" "new_inodes_per_group s = new" "\<forall>e \<in> set es. new_inum ipg new mode (le32 b e) = le32 b e"
  shows "\<exists>c. dir_loop fuel b 0 None mode s = (Inr b, s\<lparr>fx_count := c\<rparr>)"
proof -
  have nz: "le32 b e \<noteq> 0" if "e \<in> set es" "flat_chain b d es" for e d
    using that by (induction es arbitrary: d) auto
  have "bail_phase s \<noteq> mode" using assms(3,4) by auto
  moreover have "new_inum ipg new mode (le32 b e) \<noteq> 0" if "e \<in> set es" for e
    using assms(8) nz [OF that assms(1)] that by simp
  ultimately have "\<exists>b' c. dir_loop fuel b 0 None mode s = (Inr b', s\<lparr>fx_count := c\<rparr>) \<and> length b' = length b \<and>
      flat_chain b' 0 es \<and> (\<forall>e \<in> set es. le32 b' e = new_inum ipg new mode (le32 b e)) \<and>
      (\<forall>i < length b. i < 0 \<or> (\<forall>e \<in> set es. i < e \<or> e + 4 \<le> i) \<longrightarrow> b' ! i = b ! i)"
    by (rule dir_loop_flat [OF assms(1-3) _ assms(5-7)])
  then obtain b' c where r: "dir_loop fuel b 0 None mode s = (Inr b', s\<lparr>fx_count := c\<rparr>)" "length b' = length b"
    "\<forall>e \<in> set es. le32 b' e = new_inum ipg new mode (le32 b e)"
    "\<forall>i < length b. i < 0 \<or> (\<forall>e \<in> set es. i < e \<or> e + 4 \<le> i) \<longrightarrow> b' ! i = b ! i"
    by blast
  have "b' = b"
  proof (rule same_bytes [OF r(2), of es])
    show "e + 4 \<le> length b \<and> le32 b' e = le32 b e" if "e \<in> set es" for e
      using r(3) assms(8) flat_chain_bounds [OF assms(1) that] that by simp
    show "b' ! i = b ! i" if "i < length b" "\<forall>e \<in> set es. i < e \<or> e + 4 \<le> i" for i using r(4) that by blast
  qed
  then show ?thesis using r(1) by blast
qed

text \<open>
  C9. Renumbering a directory without subdirectories: after the marking pass and the updating pass over its
  data, every entry whose inode was the \<open>o\<close>-th of group \<open>g\<close> in the old numbering has the number that is the
  \<open>o\<close>-th of group \<open>g\<close> in the new one, no other byte has changed, and the device is untouched by the
  walk. Both passes can be repeated: marking a marked directory and updating an updated one change nothing.
\<close>

theorem directory_renumbered:
  assumes "flat_chain b 0 es" and "\<forall>e \<in> set es. inum_fits ipg new (le32 b e)"
    and "0 < unat ipg" "unat ipg \<le> unat new" and "inodes_per_group (fx_info s) = ipg" "new_inodes_per_group s = new"
    and "bail_phase s = 0" and "length es < fuel"
  shows "\<exists>b1 b2 c1 c2 c3 c4. dir_loop fuel b 0 None 2 s = (Inr b1, s\<lparr>fx_count := c1\<rparr>) \<and>
    dir_loop fuel b1 0 None 3 s = (Inr b2, s\<lparr>fx_count := c2\<rparr>) \<and> length b2 = length b \<and>
    (\<forall>e \<in> set es. same_place ipg new (le32 b e) (le32 b2 e)) \<and>
    (\<forall>i < length b. (\<forall>e \<in> set es. i < e \<or> e + 4 \<le> i) \<longrightarrow> b2 ! i = b ! i) \<and>
    dir_loop fuel b1 0 None 2 s = (Inr b1, s\<lparr>fx_count := c3\<rparr>) \<and>
    dir_loop fuel b2 0 None 3 s = (Inr b2, s\<lparr>fx_count := c4\<rparr>)"
proof -
  have i0: "ipg \<noteq> 0" using assms(3) by auto
  note p = new_inum_passes [OF assms(3,4)]
  have fits: "inum_fits ipg new (le32 b e)" if "e \<in> set es" for e using assms(2) that by blast
  obtain b1 c1 where m: "dir_loop fuel b 0 None 2 s = (Inr b1, s\<lparr>fx_count := c1\<rparr>)" "length b1 = length b"
    "flat_chain b1 0 es" "\<forall>e \<in> set es. le32 b1 e = new_inum ipg new 2 (le32 b e)"
    "\<forall>i < length b. i < 0 \<or> (\<forall>e \<in> set es. i < e \<or> e + 4 \<le> i) \<longrightarrow> b1 ! i = b ! i"
    using dir_loop_flat [OF assms(1,8), of 2 s ipg new None] assms(5-7) i0 p(4) [OF fits] by auto
  have n3: "new_inum ipg new 3 (le32 b1 e) \<noteq> 0" if "e \<in> set es" for e using m(4) p(5) [OF fits [OF that]] that by simp
  obtain b2 c2 where u: "dir_loop fuel b1 0 None 3 s = (Inr b2, s\<lparr>fx_count := c2\<rparr>)" "length b2 = length b1"
    "flat_chain b2 0 es" "\<forall>e \<in> set es. le32 b2 e = new_inum ipg new 3 (le32 b1 e)"
    "\<forall>i < length b1. i < 0 \<or> (\<forall>e \<in> set es. i < e \<or> e + 4 \<le> i) \<longrightarrow> b2 ! i = b1 ! i"
    using dir_loop_flat [OF m(3) assms(8), of 3 s ipg new None] assms(5-7) i0 n3 by auto
  have "\<exists>c3. dir_loop fuel b1 0 None 2 s = (Inr b1, s\<lparr>fx_count := c3\<rparr>)"
    using m(4) p(3) [OF fits] assms i0 by (intro pass_repeats [OF m(3)]) auto
  moreover have "\<exists>c4. dir_loop fuel b2 0 None 3 s = (Inr b2, s\<lparr>fx_count := c4\<rparr>)"
    using m(4) u(4) p(2) [OF fits] assms i0 by (intro pass_repeats [OF u(3)]) auto
  moreover have "\<forall>e \<in> set es. same_place ipg new (le32 b e) (le32 b2 e)" using m(4) u(4) p(1) [OF fits] by simp
  moreover have "\<forall>i < length b. (\<forall>e \<in> set es. i < e \<or> e + 4 \<le> i) \<longrightarrow> b2 ! i = b ! i" using m(2,5) u(5) by simp
  moreover have "length b2 = length b" using m(2) u(2) by simp
  ultimately show ?thesis using m(1) u(1) by blast
qed

text \<open>A directory of 48 bytes: ``.'', ``..'' and a file, inodes 2, 2 and 24, in a filesystem of 20 inodes per group.\<close>

definition sample_dir :: bytes where
  "sample_dir = [2, 0, 0, 0, 12, 0, 1, 2, 46, 0, 0, 0] @ [2, 0, 0, 0, 12, 0, 2, 2, 46, 46, 0, 0] @
     [24, 0, 0, 0, 24, 0, 1, 1, 97, 0, 0, 0] @ replicate 12 0"

definition sample_fixup :: fixup_st where
  "sample_fixup = \<lparr>fx_fs = start_st (sample_fs_info\<lparr>inodes_per_group := 20\<rparr>), dev = replicate 2048 0, fpos = 0,
     no_write = False, new_inodes_per_group = 32, no_write_fixup_state = 0, bail_phase = 0, bail_loc = 0,
     bail_count = 0, fx_count = 0\<rparr>"

theorem directory_renumbered_witness:
  "\<exists>b1 b2 c1 c2. dir_loop 4 sample_dir 0 None 2 sample_fixup = (Inr b1, sample_fixup\<lparr>fx_count := c1\<rparr>) \<and>
     dir_loop 4 b1 0 None 3 sample_fixup = (Inr b2, sample_fixup\<lparr>fx_count := c2\<rparr>) \<and>
     same_place 20 32 24 (le32 b2 24)"
proof -
  have c: "flat_chain sample_dir 0 [0, 12, 24]" by code_simp
  have n: "le32 sample_dir 0 = 2" "le32 sample_dir 12 = 2" "le32 sample_dir 24 = 24" by code_simp+
  have "\<forall>e \<in> set [0, 12, 24]. inum_fits 20 32 (le32 sample_dir e)"
    by (simp add: n inum_fits_def marked_def)
  from directory_renumbered [OF c this, of sample_fixup 4] show ?thesis
    by (auto simp: sample_fixup_def fx_info_def sample_fs_info_def n)
qed

section \<open>The recorded phase\<close>

lemma le64_le64_bytes: "le64 (le64_bytes w) = w"
proof -
  have a: "le32 (le64_bytes w) 0 = ucast w"
    using le32_le32_bytes [of "ucast w"] le32_cong [of "le64_bytes w" 0 "le32_bytes (ucast w)" 0]
    by (simp add: le64_bytes_def nth_append)
  have b: "le32 (le64_bytes w) 4 = ucast (drop_bit 32 w)"
    using le32_le32_bytes [of "ucast (drop_bit 32 w)"]
      le32_cong [of "le64_bytes w" 4 "le32_bytes (ucast (drop_bit 32 w))" 0]
    by (simp add: le64_bytes_def nth_append)
  show ?thesis unfolding le64_def a b by (rule bit_word_eqI) (auto simp: bit_simps)
qed

lemma length_le64_bytes [simp]: "length (le64_bytes w) = 8"
  by (simp add: le64_bytes_def)

lemma state_of_magic_of_state: "st \<in> {0, 1, 2, 3} \<Longrightarrow> state_of_magic (magic_of_state st) = st"
  "st \<in> {0, 1, 2, 3} \<Longrightarrow> magic_of_state st = 0 \<longleftrightarrow> st = 0"
  by (auto simp: state_of_magic_def magic_of_state_def)

lemma dev_transfer:
  "sint off \<ge> 0 \<Longrightarrow> unat off + n \<le> length (dev s) \<Longrightarrow> fbnd (seek_checked off) (\<lambda>_. read_checked n) s =
     (Inr (take n (drop (unat off) (dev s))), s\<lparr>fpos := unat off + n\<rparr>)"
  "sint off \<ge> 0 \<Longrightarrow> unat off + length b \<le> length (dev s) \<Longrightarrow> fbnd (seek_checked off) (\<lambda>_. write_checked b) s =
     (Inr (), s\<lparr>dev := blit (dev s) (unat off) b, fpos := unat off + length b\<rparr>)"
  by (auto simp: seek_checked_def read_checked_def write_checked_def lseek64_def dev_read_def dev_write_def Let_def fx_simps
      min_def blit_def)

lemma lseek64_0: "lseek64 0 s = (Inr True, s\<lparr>fpos := 0\<rparr>)"
  by (simp add: lseek64_def)

lemma checked_at:
  "fpos s + n \<le> length (dev s) \<Longrightarrow>
     read_checked n s = (Inr (take n (drop (fpos s) (dev s))), s\<lparr>fpos := fpos s + n\<rparr>)"
  "fpos s + length b \<le> length (dev s) \<Longrightarrow>
     write_checked b s = (Inr (), s\<lparr>dev := blit (dev s) (fpos s) b, fpos := fpos s + length b\<rparr>)"
  by (auto simp: read_checked_def write_checked_def dev_read_def dev_write_def Let_def fx_simps min_def blit_def)

lemma read_sb_at: "2048 \<le> length (dev s) \<Longrightarrow> read_sb s = (Inr (take 1024 (drop 1024 (dev s))), s\<lparr>fpos := 2048\<rparr>)"
  using dev_transfer(1) [of 1024 1024 s] by (simp add: read_sb_def sint_small)

lemma write_sb_at:
  "\<not> no_write s \<Longrightarrow> 2048 \<le> length (dev s) \<Longrightarrow> length b = 1024 \<Longrightarrow>
     write_sb 1024 b s = (Inr (), s\<lparr>dev := blit (dev s) 1024 b, fpos := 2048\<rparr>)"
  using dev_transfer(2) [of 1024 b s] by (simp add: write_sb_def sint_small)

text \<open>
  C31. The phase written to the device is the phase read back, so a run that was interrupted resumes in the
  phase it had reached; while a phase is recorded the superblock's descriptor size is odd, which keeps the
  filesystem from being mounted, and no other byte of the device changes.
\<close>

theorem fixup_state_round_trip:
  assumes "\<not> no_write s" "2048 \<le> length (dev s)" "st \<in> {0, 1, 2, 3}"
  shows "\<exists>s' p. set_fs_fixup_state st s = (Inr 0, s') \<and> get_fs_fixup_state s' = (Inr st, s'\<lparr>fpos := p\<rparr>) \<and>
    (odd (unat (le16 (dev s') 1278)) \<longleftrightarrow> st \<noteq> 0) \<and> length (dev s') = length (dev s) \<and>
    (\<forall>i < length (dev s). 8 \<le> i \<and> i \<noteq> 1278 \<and> i \<noteq> 1279 \<longrightarrow> dev s' ! i = dev s ! i)"
proof -
  let ?m = "le64_bytes (magic_of_state st)"
  let ?d1 = "blit (dev s) 0 ?m"
  let ?sb = "take 1024 (drop 1024 ?d1)"
  define d where "d = (if magic_of_state st \<noteq> 0 then le16 ?sb 254 OR 1 else le16 ?sb 254 AND NOT 1)"
  let ?sb' = "blit ?sb 254 (le16_bytes d)"
  define d2 where "d2 = blit ?d1 1024 ?sb'"
  have l: "length ?d1 = length (dev s)" "length ?sb = 1024" "length ?sb' = 1024" "length d2 = length (dev s)"
    using assms(2) by (simp_all add: length_blit d2_def)
  have "set_fs_fixup_state st s = (Inr 0, s\<lparr>dev := d2, fpos := 2048\<rparr>)"
    unfolding set_fs_fixup_state_def using assms(1,2) l
    by (simp add: fbnd_def lseek64_0 checked_at read_sb_at write_sb_at get16_def put16_def put_bytes_def flift_def fret_def
        d_def d2_def)
  moreover have "get_fs_fixup_state (s\<lparr>dev := d2, fpos := 2048\<rparr>) = (Inr st, s\<lparr>dev := d2, fpos := 8\<rparr>)"
  proof -
    have "take 8 d2 = ?m" using assms(2) l by (simp add: d2_def) (simp add: blit_def)
    then show ?thesis using assms l(4)
      by (simp add: get_fs_fixup_state_def fbnd_def lseek64_0 checked_at fret_def le64_le64_bytes state_of_magic_of_state)
  qed
  moreover have "odd (unat (le16 d2 1278)) \<longleftrightarrow> st \<noteq> 0"
  proof -
    have "le16 d2 (1024 + 254) = le16 ?sb' 254" unfolding d2_def using assms(2) l by (intro le16_inside) simp_all
    also have "\<dots> = d" using l by (intro le16_blit_same) simp
    finally have "le16 d2 1278 = d" by simp
    moreover have "odd (unat d) \<longleftrightarrow> bit d 0" using bit_unsigned_iff [of d 0] by (simp only: bit_0 possible_bit_nat) simp
    moreover have "bit d 0 \<longleftrightarrow> st \<noteq> 0" using state_of_magic_of_state(2) [OF assms(3)] by (simp add: d_def bit_simps)
    ultimately show ?thesis by simp
  qed
  moreover have "\<forall>i < length (dev s). 8 \<le> i \<and> i \<noteq> 1278 \<and> i \<noteq> 1279 \<longrightarrow> d2 ! i = dev s ! i"
    using assms(2) l by (auto simp: d2_def nth_blit)
  ultimately show ?thesis using l(4) by (intro exI [of _ "s\<lparr>dev := d2, fpos := 2048\<rparr>"] exI [of _ 8]) simp
qed

theorem fixup_state_round_trip_witness:
  "\<exists>s' p. set_fs_fixup_state 2 sample_fixup = (Inr 0, s') \<and> get_fs_fixup_state s' = (Inr 2, s'\<lparr>fpos := p\<rparr>) \<and>
     odd (unat (le16 (dev s') 1278))"
  using fixup_state_round_trip [of sample_fixup 2] by (auto simp: sample_fixup_def)

section \<open>The inode bitmaps\<close>

text \<open>
  The bits of the inodes that a group gains are cleared in its bitmap and no others, and the bitmap is
  written back exactly when one of them was set.
\<close>

theorem clear_bits_range:
  assumes "unat until \<le> 8 * length block"
  shows "\<exists>b'. clear_bits from until block = Inr (bits block \<inter> {unat from..<unat until} \<noteq> {}, b') \<and>
    length b' = length block \<and> bits b' = bits block - {unat from..<unat until}"
proof -
  let ?step = "\<lambda>i (updated, b).
         bnd (bitmap_get_bit b (of_nat i)) (\<lambda>set.
         if set then bnd (bitmap_clear_bit b (of_nat i)) (\<lambda>b. Inr (True, b)) else Inr (updated, b))"
  define P where "P dn (ub :: bool \<times> bytes) \<longleftrightarrow> length (snd ub) = length block \<and> bits (snd ub) = bits block - set dn \<and>
      (fst ub \<longleftrightarrow> bits block \<inter> set dn \<noteq> {})" for dn :: "nat list" and ub
  have "\<exists>ub. for_each ?step [unat from..<unat until] (False, block) = Inr ub \<and> P [unat from..<unat until] ub"
  proof (rule for_each_invariant)
    show "P [] (False, block)" by (simp add: P_def)
  next
    fix dn i rest ub
    assume xs: "[unat from..<unat until] = dn @ i # rest" and ub: "P dn ub"
    obtain u b where e: "ub = (u, b)" by (metis prod.collapse)
    have "i \<in> set [unat from..<unat until]" unfolding xs by simp
    then have i: "i < unat until" by simp
    then have n: "unat (of_nat i :: u32) = i" using unat_u32 [of until] by (simp add: unat_of_nat)
    have cap: "unat (of_nat i :: u32) < 8 * length b" using i assms ub n by (simp add: P_def e)
    have fresh: "i \<notin> set dn" using arg_cong [OF xs, of distinct] by simp
    obtain b' where "bitmap_clear_bit b (of_nat i) = Inr b'" "bits b' = bits b - {i}" "8 * length b' = 8 * length b"
      using alloc_bits.del_law [OF cap] n by auto
    then show "\<exists>ub'. ?step i ub = Inr ub' \<and> P (dn @ [i]) ub'"
      using alloc_bits.tst_law [OF cap] ub n fresh by (auto simp: e P_def)
  qed
  then show ?thesis by (auto simp: clear_bits_def P_def)
qed

theorem clear_bits_range_witness:
  "\<exists>b'. clear_bits 3 6 [0xFF, 1] = Inr (True, b') \<and> bits b' = bits [0xFF, 1] - {3..<6}"
proof -
  have "(4 :: nat) \<in> bits [0xFF, 1] \<inter> {3..<6}" by (simp add: bits_def)
  then have "bits [0xFF, 1] \<inter> {3..<6} \<noteq> {}" by blast
  then show ?thesis using clear_bits_range [of 6 "[0xFF, 1]" 3] by auto
qed

end
