(* ===== verification/Ext2simg.thy ===== *)
theory Ext2simg
  imports Ext4fixup
begin

text \<open>
  \<^verbatim>\<open>ext2simg.c\<close>: the tool that turns an existing file system image into a sparse image. It parses
  the superblock, reads the bitmap of every block group and queues each run of used blocks, so that the
  blocks not in use are left out of the sparse image. The device, the globals and the treatment of failed
  seeks and short reads are those of \<^verbatim>\<open>ext4fixup.c\<close>, which shares the code.
\<close>

section \<open>Operations\<close>

definition simg_read_ext :: "int fx" where
  "simg_read_ext =
     fbnd (seek_checked 1024) (\<lambda>_.
     fbnd (read_checked sizeof_super_block) (\<lambda>sb.
     fbnd (parse_super_block sb) (\<lambda>_ s.
     (let fi = fx_info s; a = fx_aux s in
      fbnd (seek_checked (info_len fi)) (\<lambda>_.
      fbnd (seek_checked (ucast (block_size fi * (first_data_block a + 1)))) (\<lambda>_.
      fbnd (read_checked (unat (block_size fi * bg_desc_blocks a))) (\<lambda>b.
      fbnd (flift (put_bytes (bg_desc a) 0 b)) (\<lambda>d s.
      (Inr 0, s\<lparr>fx_fs := (fx_fs s)\<lparr>aux_info := (aux_info (fx_fs s))\<lparr>bg_desc := d\<rparr>\<rparr>\<rparr>))))) s))))"

definition fx_sparse_add :: "sparse_call \<Rightarrow> unit fx" where
  "fx_sparse_add c s = (Inr (), s\<lparr>fx_fs := sparse_file_add c (fx_fs s)\<rparr>)"

text \<open>The run of blocks from \<open>start\<close> to before \<open>stop\<close>, both relative to the group.\<close>

definition add_run :: "bytes \<Rightarrow> u32 \<Rightarrow> u32 \<Rightarrow> u32 \<Rightarrow> unit fx" where
  "add_run filename first_block start stop s =
     (let bs = block_size (fx_info s);
          start_block = first_block + start;
          len_blocks = stop - start in
      fx_sparse_add (Add_File filename (ucast bs * ucast start_block) (bs * len_blocks) start_block) s)"

text \<open>One step over a block; \<open>start\<close> is the signed variable \<^verbatim>\<open>start_contiguous_block\<close>.\<close>

definition scan_block :: "bytes \<Rightarrow> u32 \<Rightarrow> bytes \<Rightarrow> u32 \<Rightarrow> u32 \<Rightarrow> u32 fx" where
  "scan_block filename first_block block_bitmap block start =
     fbnd (flift (bitmap_get_bit block_bitmap block)) (\<lambda>set.
     if 0 \<le> sint start then
       (if \<not> set then fbnd (add_run filename first_block start block) (\<lambda>_. fret (-1)) else fret start)
     else (if set then fret block else fret start))"

definition group_last_block :: "fixup_st \<Rightarrow> u32 \<Rightarrow> u32" where
  "group_last_block s first_block =
     (let rest = len_blocks (fx_aux s) - ucast first_block in
      if ucast (blocks_per_group (fx_info s)) < rest then blocks_per_group (fx_info s) else ucast rest)"

definition scan_group :: "bytes \<Rightarrow> u32 \<Rightarrow> unit fx" where
  "scan_group filename i s =
     (let fi = fx_info s; a = fx_aux s;
          first_block = first_data_block a + i * blocks_per_group fi;
          last_block = group_last_block s first_block in
      fbnd (flift (get32 (bg_desc a) (32 * unat i))) (\<lambda>bg_block_bitmap.
      fbnd (seek_checked (ucast (block_size fi) * ucast bg_block_bitmap)) (\<lambda>_.
      fbnd (read_checked (unat (block_size fi))) (\<lambda>block_bitmap.
      fbnd (ffor (\<lambda>block. scan_block filename first_block block_bitmap (of_nat block)) [0..<unat last_block] (-1)) (\<lambda>start.
      if 0 \<le> sint start then add_run filename first_block start last_block else fret ())))) s)"

definition build_sparse_ext :: "bytes \<Rightarrow> int fx" where
  "build_sparse_ext filename s =
     fbnd (fx_malloc (block_size (fx_info s))) (\<lambda>_.
     fbnd (if 0 < first_data_block (fx_aux s)
           then fx_sparse_add (Add_File filename 0 (block_size (fx_info s) * first_data_block (fx_aux s)) 0)
           else fret ()) (\<lambda>_.
     fbnd (ffor (\<lambda>i _. scan_group filename (of_nat i)) [0..<unat (groups (fx_aux s))] ()) (\<lambda>_.
     fret 0))) s"

text \<open>What \<^verbatim>\<open>main\<close> does between opening the input and the output.\<close>

definition simg_convert :: "bytes \<Rightarrow> int fx" where
  "simg_convert filename =
     fbnd simg_read_ext (\<lambda>_ s.
     build_sparse_ext filename (s\<lparr>fx_fs := (fx_fs s)\<lparr>sparse := []\<rparr>\<rparr>))"

section \<open>What an image reader gets\<close>

text \<open>The blocks a chunk fills: pairs of a block of the image and the offset it comes from.\<close>

fun chunk_blocks :: "nat \<Rightarrow> bytes \<Rightarrow> sparse_call \<Rightarrow> (nat \<times> nat) list" where
  "chunk_blocks bs fn (Add_File f off len nr) =
     (if f = fn then map (\<lambda>k. (unat nr + k, unat off + k * bs)) [0..<unat len div bs] else [])"
| "chunk_blocks bs fn (Add_Data src len nr) = []"

definition image_blocks :: "nat \<Rightarrow> bytes \<Rightarrow> sparse_call list \<Rightarrow> (nat \<times> nat) list" where
  "image_blocks bs fn cs = concat (map (chunk_blocks bs fn) cs)"

lemma image_blocks_simps [simp]:
  "image_blocks bs fn [] = []"
  "image_blocks bs fn (cs @ ds) = image_blocks bs fn cs @ image_blocks bs fn ds"
  by (simp_all add: image_blocks_def)

text \<open>Blocks of the device, each at its own place.\<close>

definition in_place :: "nat \<Rightarrow> nat list \<Rightarrow> (nat \<times> nat) list" where
  "in_place bs = map (\<lambda>b. (b, b * bs))"

lemma in_place_simps [simp]: "in_place bs [] = []" "in_place bs (xs @ ys) = in_place bs xs @ in_place bs ys"
  by (simp_all add: in_place_def)

text \<open>The bitmap of group \<open>i\<close> on the device, and whether block \<open>b\<close> of the device is in use.\<close>

definition group_bitmap :: "fixup_st \<Rightarrow> nat \<Rightarrow> bytes" where
  "group_bitmap s i =
     (let bs = unat (block_size (fx_info s)) in
      take bs (drop (bs * unat (le32 (bg_desc (fx_aux s)) (32 * i))) (dev s)))"

definition block_used :: "fixup_st \<Rightarrow> nat \<Rightarrow> bool" where
  "block_used s b =
     (let f = unat (first_data_block (fx_aux s)); n = unat (blocks_per_group (fx_info s)) in
      b < f \<or> (b - f) mod n \<in> bits (group_bitmap s ((b - f) div n)))"

text \<open>The image is one the tool is made for: its groups and bitmaps lie on the device.\<close>

definition simg_fs :: "fixup_st \<Rightarrow> bool" where
  "simg_fs s =
     (let fi = fx_info s; a = fx_aux s; bs = unat (block_size fi); n = unat (blocks_per_group fi);
          f = unat (first_data_block a); g = unat (groups a); l = unat (len_blocks a) in
      0 < bs \<and> bs * n < 2 ^ 31 \<and> bs * f < 2 ^ 32 \<and> n \<le> 8 * bs \<and> 0 < n \<and> f + g * n < 2 ^ 32 \<and>
      f \<le> l \<and> l \<le> f + g * n \<and> f + g * n < l + n \<and> 32 * g \<le> length (bg_desc a) \<and>
      (\<forall>i < g. bs * unat (le32 (bg_desc a) (32 * i)) + bs \<le> length (dev s)))"

section \<open>Queued runs\<close>

text \<open>The only change the tool makes: chunks are queued and the position on the device moves.\<close>

definition queued :: "sparse_call list \<Rightarrow> nat \<Rightarrow> fixup_st \<Rightarrow> fixup_st" where
  "queued cs p s = s\<lparr>fpos := p, fx_fs := (fx_fs s)\<lparr>sparse := sparse (fx_fs s) @ cs\<rparr>\<rparr>"

lemma queued_simps [simp]:
  "fx_info (queued cs p s) = fx_info s" "fx_aux (queued cs p s) = fx_aux s" "dev (queued cs p s) = dev s"
  "fpos (queued cs p s) = p" "queued ds q (queued cs p s) = queued (cs @ ds) q s"
  "sparse (fx_fs (queued cs p s)) = sparse (fx_fs s) @ cs" "queued [] (fpos s) s = s"
  "group_last_block (queued cs p s) = group_last_block s"
  by (simp_all add: queued_def fx_info_def fx_aux_def group_last_block_def fun_eq_iff Let_def)

lemma fx_sparse_add_queued: "fx_sparse_add c s = (Inr (), queued [c] (fpos s) s)"
  by (simp add: fx_sparse_add_def queued_def sparse_file_add_def)

lemma fbnd_flift [simp]: "fbnd (flift (Inr x)) f = f x"
  by (simp add: fx_simps fun_eq_iff)

lemma fbnd_seq: "fbnd m (\<lambda>x. f x) s = (Inr y, s') \<Longrightarrow> fbnd m (\<lambda>x. fbnd (f x) g) s = g y s'"
  by (cases "m s"; cases "fst (m s)") (auto simp: fbnd_def)

lemma ffor_snoc: "ffor f (xs @ [x]) a = fbnd (ffor f xs a) (f x)"
  by (induction xs arbitrary: a) (simp_all add: fx_simps fun_eq_iff split: prod.splits sum.splits)

lemma unat_ucast_mult_u64: "unat (ucast (a :: u32) * ucast (b :: u32) :: u64) = unat a * unat b"
proof -
  have "unat a * unat b < 2 ^ 32 * 2 ^ 32"
    using unat_u32 [of a] unat_u32 [of b] by (intro mult_strict_mono) simp_all
  then show ?thesis by (subst unat_mult_lem [THEN iffD1]) (simp_all add: unat_ucast_upcast)
qed

lemma add_run_queued:
  assumes bs: "unat (block_size (fx_info s)) = bs" "0 < bs" and le: "unat start \<le> unat stop"
    and fits: "unat first_block + unat stop < 2 ^ 32" "bs * unat stop < 2 ^ 32"
  obtains c where "add_run fn first_block start stop s = (Inr (), queued [c] (fpos s) s)"
    and "image_blocks bs fn [c] = in_place bs (map ((+) (unat first_block)) [unat start..<unat stop])"
proof
  let ?b = "block_size (fx_info s)"
  let ?c = "Add_File fn (ucast ?b * ucast (first_block + start)) (?b * (stop - start)) (first_block + start)"
  show "add_run fn first_block start stop s = (Inr (), queued [?c] (fpos s) s)"
    by (simp add: add_run_def fx_sparse_add_queued Let_def)
  have len: "unat (stop - start) = unat stop - unat start"
    using le by (simp add: unat_sub word_le_nat_alt)
  have "bs * (unat stop - unat start) < 2 ^ 32"
    using fits(2) by (rule le_less_trans [rotated]) (simp add: diff_le_self)
  then have bytes: "unat (?b * (stop - start)) div bs = unat stop - unat start"
    using fits bs by (subst unat_mult_small) (simp_all add: len)
  have start: "unat (first_block + start) = unat first_block + unat start"
    using fits le by (intro unat_add_le) simp
  have "in_place bs (map ((+) (unat first_block)) [unat start..<unat stop]) =
      map (\<lambda>k. (unat first_block + unat start + k, (unat first_block + unat start + k) * bs)) [0..<unat stop - unat start]"
    using le by (intro nth_equalityI) (simp_all add: in_place_def algebra_simps)
  then show "image_blocks bs fn [?c] = in_place bs (map ((+) (unat first_block)) [unat start..<unat stop])"
    by (simp add: image_blocks_def bytes start unat_ucast_mult_u64 bs) (simp add: algebra_simps)
qed

section \<open>One group\<close>

definition used_from :: "nat \<Rightarrow> nat set \<Rightarrow> nat \<Rightarrow> nat list" where
  "used_from f B k = map ((+) f) (filter (\<lambda>b. b \<in> B) [0..<k])"

text \<open>What holds between two blocks: a run is open, or all used blocks so far are queued.\<close>

definition scanned :: "nat \<Rightarrow> bytes \<Rightarrow> nat \<Rightarrow> nat set \<Rightarrow> nat \<Rightarrow> u32 \<Rightarrow> sparse_call list \<Rightarrow> bool" where
  "scanned bs fn f B k start cs =
     (if start = -1 then image_blocks bs fn cs = in_place bs (used_from f B k)
      else unat start < k \<and> {unat start..<k} \<subseteq> B \<and>
           image_blocks bs fn cs = in_place bs (used_from f B (unat start)))"

lemma upt_join: "i \<le> j \<Longrightarrow> j \<le> k \<Longrightarrow> [i..<j] @ [j..<k] = [i..<k]"
  by (metis le_add_diff_inverse upt_add_eq_append)

lemma used_from_run:
  assumes "m \<le> k" "{m..<k} \<subseteq> B"
  shows "used_from f B k = used_from f B m @ map ((+) f) [m..<k]"
proof -
  have "[0..<k] = [0..<m] @ [m..<k]" using assms(1) by (simp add: upt_join)
  moreover have "filter (\<lambda>b. b \<in> B) [m..<k] = [m..<k]" using assms(2) by (intro filter_True) auto
  ultimately show ?thesis by (simp add: used_from_def)
qed

lemma used_from_Suc: "used_from f B (Suc k) = used_from f B k @ (if k \<in> B then [f + k] else [])"
  by (simp add: used_from_def)

lemma scan_block_step:
  assumes bs: "unat (block_size (fx_info s)) = bs" "0 < bs"
    and k: "k < 8 * length bm" "unat fb + k < 2 ^ 32" "bs * k < 2 ^ 31"
    and inv: "scanned bs fn (unat fb) (bits bm) k start cs"
  obtains start' ds where "scan_block fn fb bm (of_nat k) start s = (Inr start', queued ds (fpos s) s)"
    and "scanned bs fn (unat fb) (bits bm) (Suc k) start' (cs @ ds)"
proof -
  have k31: "k < 2 ^ 31" using k(3) bs(2) by (metis le_less_trans mult_le_mono1 nat_mult_1 Suc_leI One_nat_def)
  have uk: "unat (of_nat k :: u32) = k" using k31 by (simp add: unat_of_nat_u32)
  have "0 \<le> sint (of_nat k :: u32)" using k31 by (simp add: sint_small uk)
  then have knm: "(of_nat k :: u32) \<noteq> -1" by auto
  have get: "bitmap_get_bit bm (of_nat k) = Inr (k \<in> bits bm)" using k(1) by (simp add: bitmap_get_bit_iff uk)
  show ?thesis
  proof (cases "start = -1")
    case True
    show ?thesis
      by (rule that [of "if k \<in> bits bm then of_nat k else -1" "[]"])
        (use True inv knm in \<open>auto simp: scan_block_def get fx_simps scanned_def uk used_from_Suc\<close>)
  next
    case False
    then have st: "unat start < k" "{unat start..<k} \<subseteq> bits bm"
      and im: "image_blocks bs fn cs = in_place bs (used_from (unat fb) (bits bm) (unat start))"
      using inv by (simp_all add: scanned_def)
    have pos: "0 \<le> sint start" using st(1) k31 by (simp add: sint_small)
    show ?thesis
    proof (cases "k \<in> bits bm")
      case True
      have "{unat start..<Suc k} \<subseteq> bits bm" using st True by (auto simp: less_Suc_eq)
      then show ?thesis
        by (intro that [of start "[]"]) (use True False st im pos in \<open>auto simp: scan_block_def get fx_simps scanned_def\<close>)
    next
      case nset: False
      obtain c where c: "add_run fn fb start (of_nat k) s = (Inr (), queued [c] (fpos s) s)"
        "image_blocks bs fn [c] = in_place bs (map ((+) (unat fb)) [unat start..<k])"
        using add_run_queued [OF bs, of start "of_nat k" fb fn] st(1) k uk by auto
      show ?thesis
        by (rule that [of "-1" "[c]"])
          (use nset pos c im st used_from_run [of "unat start" k "bits bm" "unat fb"] in
            \<open>auto simp: scan_block_def get fx_simps scanned_def used_from_Suc\<close>)
    qed
  qed
qed

lemma scan_blocks:
  assumes bs: "unat (block_size (fx_info s)) = bs" "0 < bs"
    and k: "k \<le> 8 * length bm" "unat fb + k < 2 ^ 32" "bs * k < 2 ^ 31"
  obtains start cs
  where "ffor (\<lambda>block. scan_block fn fb bm (of_nat block)) [0..<k] (-1) s = (Inr start, queued cs (fpos s) s)"
    and "scanned bs fn (unat fb) (bits bm) k start cs"
  using k
proof (induction k arbitrary: thesis)
  case 0
  show ?case by (rule 0(1) [of "-1" "[]"]) (simp_all add: fx_simps scanned_def used_from_def)
next
  case (Suc k)
  have k: "k < 8 * length bm" "unat fb + k < 2 ^ 32" "bs * k < 2 ^ 31" using Suc.prems bs by simp_all
  obtain start cs where loop: "ffor (\<lambda>block. scan_block fn fb bm (of_nat block)) [0..<k] (-1) s = (Inr start, queued cs (fpos s) s)"
    and inv: "scanned bs fn (unat fb) (bits bm) k start cs"
    by (rule Suc.IH) (use k in simp_all)
  have bs': "unat (block_size (fx_info (queued cs (fpos s) s))) = bs" using bs by simp
  obtain start' ds where "scan_block fn fb bm (of_nat k) start (queued cs (fpos s) s) = (Inr start', queued (cs @ ds) (fpos s) s)"
    "scanned bs fn (unat fb) (bits bm) (Suc k) start' (cs @ ds)"
    using scan_block_step [OF bs' bs(2) k inv] by (metis queued_simps(4,5))
  then show ?case by (intro Suc.prems(1)) (simp_all add: ffor_snoc fbnd_def loop)
qed

lemma scan_finish:
  assumes bs: "unat (block_size (fx_info s)) = bs" "0 < bs"
    and k: "unat lb \<le> 8 * length bm" "unat fb + unat lb < 2 ^ 32" "bs * unat lb < 2 ^ 31"
  obtains cs where
    "fbnd (ffor (\<lambda>block. scan_block fn fb bm (of_nat block)) [0..<unat lb] (-1)) (\<lambda>start.
       if 0 \<le> sint start then add_run fn fb start lb else fret ()) s = (Inr (), queued cs (fpos s) s)"
    and "image_blocks bs fn cs = in_place bs (used_from (unat fb) (bits bm) (unat lb))"
proof -
  obtain start cs where loop: "ffor (\<lambda>block. scan_block fn fb bm (of_nat block)) [0..<unat lb] (-1) s = (Inr start, queued cs (fpos s) s)"
    and inv: "scanned bs fn (unat fb) (bits bm) (unat lb) start cs"
    using scan_blocks [OF bs k] .
  show ?thesis
  proof (cases "start = -1")
    case True
    then show ?thesis by (intro that [of cs]) (use inv in \<open>simp_all add: fx_simps loop scanned_def\<close>)
  next
    case False
    then have st: "unat start < unat lb" "{unat start..<unat lb} \<subseteq> bits bm"
      and im: "image_blocks bs fn cs = in_place bs (used_from (unat fb) (bits bm) (unat start))"
      using inv by (simp_all add: scanned_def)
    have "unat lb < 2 ^ 31" using k(3) bs(2) by (metis le_less_trans mult_le_mono1 nat_mult_1 Suc_leI One_nat_def)
    then have pos: "0 \<le> sint start" using st(1) by (simp add: sint_small)
    have bs': "unat (block_size (fx_info (queued cs (fpos s) s))) = bs" using bs by simp
    obtain c where c: "add_run fn fb start lb (queued cs (fpos s) s) = (Inr (), queued (cs @ [c]) (fpos s) s)"
      "image_blocks bs fn [c] = in_place bs (map ((+) (unat fb)) [unat start..<unat lb])"
      using add_run_queued [OF bs' bs(2), of start lb fb fn] st(1) k by auto
    show ?thesis
      by (rule that [of "cs @ [c]"])
        (use pos c im st used_from_run [of "unat start" "unat lb" "bits bm" "unat fb"] in \<open>simp_all add: fx_simps loop\<close>)
  qed
qed

lemma used_from_blocks:
  assumes i: "i < unat (groups (fx_aux s))" and m: "m \<le> unat (blocks_per_group (fx_info s))"
  defines "f \<equiv> unat (first_data_block (fx_aux s)) + i * unat (blocks_per_group (fx_info s))"
  shows "used_from f (bits (group_bitmap s i)) m = filter (block_used s) [f..<f + m]"
proof -
  have "block_used s (f + b) = (b \<in> bits (group_bitmap s i))" if "b < m" for b
    using that m by (simp add: block_used_def f_def Let_def)
  then have "filter (block_used s \<circ> (+) f) [0..<m] = filter (\<lambda>b. b \<in> bits (group_bitmap s i)) [0..<m]"
    by (intro filter_cong) simp_all
  moreover have "map ((+) f) [0..<m] = [f..<f + m]" by (intro nth_equalityI) simp_all
  ultimately show ?thesis using filter_map [of "block_used s" "(+) f" "[0..<m]"] by (simp add: used_from_def)
qed

section \<open>All groups\<close>

lemma group_bitmap_queued [simp]: "group_bitmap (queued cs p s) = group_bitmap s"
  by (simp add: group_bitmap_def fun_eq_iff)

lemma block_used_queued [simp]: "block_used (queued cs p s) = block_used s"
  by (simp add: block_used_def fun_eq_iff)

lemma simg_fs_queued [simp]: "simg_fs (queued cs p s) = simg_fs s"
  by (simp add: simg_fs_def)

lemma read_group_bitmap:
  assumes ok: "simg_fs s" and i: "i < unat (groups (fx_aux s))"
  shows "get32 (bg_desc (fx_aux s)) (32 * i) = Inr (le32 (bg_desc (fx_aux s)) (32 * i))"
    and "\<exists>p. fbnd (seek_checked (ucast (block_size (fx_info s)) * ucast (le32 (bg_desc (fx_aux s)) (32 * i)))) (\<lambda>_.
         read_checked (unat (block_size (fx_info s)))) s = (Inr (group_bitmap s i), queued [] p s)"
proof -
  let ?bs = "unat (block_size (fx_info s))" and ?n = "le32 (bg_desc (fx_aux s)) (32 * i)"
  have d: "32 * unat (groups (fx_aux s)) \<le> length (bg_desc (fx_aux s))" and fit: "?bs * unat ?n + ?bs \<le> length (dev s)"
    using ok i by (simp_all add: simg_fs_def Let_def)
  show "get32 (bg_desc (fx_aux s)) (32 * i) = Inr ?n" using d i by (simp add: get32_def)
  let ?off = "ucast (block_size (fx_info s)) * ucast ?n :: u64"
  have "?bs < 2 ^ 31"
    using ok by (auto simp: simg_fs_def Let_def intro: le_less_trans [of _ "?bs * unat (blocks_per_group (fx_info s))"])
  then have "?bs * unat ?n < 2 ^ 31 * 2 ^ 32" using unat_u32 [of ?n] by (intro mult_strict_mono) simp_all
  then have "sint ?off = int (?bs * unat ?n)" by (simp add: sint_small unat_ucast_mult_u64)
  then have pos: "\<not> sint ?off < 0" by (simp only: not_less of_nat_0_le_iff)
  show "\<exists>p. fbnd (seek_checked ?off) (\<lambda>_. read_checked ?bs) s = (Inr (group_bitmap s i), queued [] p s)"
    using pos fit
    by (auto simp: seek_checked_def read_checked_def lseek64_def dev_read_def fx_simps group_bitmap_def
        unat_ucast_mult_u64 Let_def queued_def)
qed

lemma group_extent:
  assumes ok: "simg_fs s" and i: "i < unat (groups (fx_aux s))"
  defines "f \<equiv> unat (first_data_block (fx_aux s))" and "n \<equiv> unat (blocks_per_group (fx_info s))"
    and "l \<equiv> unat (len_blocks (fx_aux s))"
  defines "fb \<equiv> first_data_block (fx_aux s) + of_nat i * blocks_per_group (fx_info s)"
  shows "unat fb = f + i * n" and "unat (group_last_block s fb) = min n (l - (f + i * n))" and "f + i * n \<le> l"
proof -
  have g: "f + unat (groups (fx_aux s)) * n < 2 ^ 32" "f + unat (groups (fx_aux s)) * n < l + n"
    using ok by (simp_all add: simg_fs_def Let_def f_def n_def l_def)
  have le: "Suc i * n \<le> unat (groups (fx_aux s)) * n" using i by (intro mult_le_mono1) simp
  have i32: "unat (of_nat i :: u32) = i"
    using i unat_u32 [of "groups (fx_aux s)"] by (simp add: unat_of_nat_u32)
  have "unat (of_nat i * blocks_per_group (fx_info s)) = i * n"
    using le g by (subst unat_mult_small) (simp_all add: i32 n_def)
  then show fb: "unat fb = f + i * n" unfolding fb_def f_def
    using le g by (subst unat_add_le) (simp_all add: f_def)
  show fl: "f + i * n \<le> l" using le g by simp
  have rest: "unat (len_blocks (fx_aux s) - ucast fb) = l - (f + i * n)"
    using fl fb by (subst unat_sub) (simp_all add: word_le_nat_alt unat_ucast_upcast l_def)
  have bpg: "unat (ucast (blocks_per_group (fx_info s)) :: u64) = n" by (simp add: unat_ucast_upcast n_def)
  have low: "unat (ucast (len_blocks (fx_aux s) - ucast fb) :: u32) = l - (f + i * n)" if "\<not> n < l - (f + i * n)"
    using that unat_u32 [of "blocks_per_group (fx_info s)"]
    by (subst unsigned_ucast_eq) (simp add: rest n_def take_bit_nat_eq_self)
  show "unat (group_last_block s fb) = min n (l - (f + i * n))"
  proof (cases "n < l - (f + i * n)")
    case True
    then show ?thesis by (simp add: group_last_block_def Let_def word_less_nat_alt rest bpg n_def [symmetric])
  next
    case False
    then show ?thesis using low [OF False] by (simp add: group_last_block_def Let_def word_less_nat_alt rest bpg)
  qed
qed

lemma scan_group_queued:
  assumes ok: "simg_fs s" and i: "i < unat (groups (fx_aux s))"
  defines "f \<equiv> unat (first_data_block (fx_aux s)) + i * unat (blocks_per_group (fx_info s))"
  defines "k \<equiv> min (unat (blocks_per_group (fx_info s))) (unat (len_blocks (fx_aux s)) - f)"
  obtains cs p where "scan_group fn (of_nat i) s = (Inr (), queued cs p s)"
    and "image_blocks (unat (block_size (fx_info s))) fn cs =
           in_place (unat (block_size (fx_info s))) (filter (block_used s) [f..<f + k])"
proof -
  let ?bs = "unat (block_size (fx_info s))" and ?n = "unat (blocks_per_group (fx_info s))"
  let ?fb = "first_data_block (fx_aux s) + of_nat i * blocks_per_group (fx_info s)"
  let ?l = "group_last_block s ?fb"
  have i32: "unat (of_nat i :: u32) = i"
    using i unat_u32 [of "groups (fx_aux s)"] by (simp add: unat_of_nat_u32)
  have fb: "unat ?fb = f" and l: "unat ?l = k" using group_extent [OF ok i] by (simp_all add: f_def k_def)
  obtain p where rd: "fbnd (seek_checked (ucast (block_size (fx_info s)) * ucast (le32 (bg_desc (fx_aux s)) (32 * i)))) (\<lambda>_.
         read_checked ?bs) s = (Inr (group_bitmap s i), queued [] p s)"
    using read_group_bitmap(2) [OF ok i] by blast
  have "?bs * unat (le32 (bg_desc (fx_aux s)) (32 * i)) + ?bs \<le> length (dev s)"
    using ok i by (simp add: simg_fs_def Let_def)
  then have gm: "length (group_bitmap s i) = ?bs" by (simp add: group_bitmap_def Let_def)
  have fs: "0 < ?bs" "?bs * ?n < 2 ^ 31" "?n \<le> 8 * ?bs" "unat (first_data_block (fx_aux s)) + unat (groups (fx_aux s)) * ?n < 2 ^ 32"
    using ok by (simp_all add: simg_fs_def Let_def)
  have "Suc i * ?n \<le> unat (groups (fx_aux s)) * ?n" using i by (intro mult_le_mono1) simp
  then have fk: "unat ?fb + unat ?l < 2 ^ 32" using fs(4) by (simp add: fb l f_def k_def)
  have kn: "k \<le> ?n" by (simp add: k_def)
  have "?bs * k \<le> ?bs * ?n" using kn by (rule mult_le_mono2)
  then have bk: "?bs * unat ?l < 2 ^ 31" unfolding l using fs(2) by (rule le_less_trans)
  have lb: "unat ?l \<le> 8 * length (group_bitmap s i)" using kn fs(3) l gm by simp
  have bs': "unat (block_size (fx_info (queued [] p s))) = ?bs" by simp
  obtain cs where cs: "fbnd (ffor (\<lambda>block. scan_block fn ?fb (group_bitmap s i) (of_nat block)) [0..<unat ?l] (-1)) (\<lambda>start.
       if 0 \<le> sint start then add_run fn ?fb start ?l else fret ()) (queued [] p s) = (Inr (), queued cs p s)"
    and im: "image_blocks ?bs fn cs = in_place ?bs (used_from (unat ?fb) (bits (group_bitmap s i)) (unat ?l))"
    using scan_finish [OF bs' fs(1) lb fk bk, of fn] by auto
  have "scan_group fn (of_nat i) s = (Inr (), queued cs p s)"
    using cs fbnd_seq [OF rd, of "\<lambda>bm. fbnd (ffor (\<lambda>block. scan_block fn ?fb bm (of_nat block)) [0..<unat ?l] (-1)) (\<lambda>start.
       if 0 \<le> sint start then add_run fn ?fb start ?l else fret ())"]
    by (simp add: scan_group_def Let_def i32 read_group_bitmap(1) [OF ok i] fbnd_flift)
  moreover have "used_from (unat ?fb) (bits (group_bitmap s i)) (unat ?l) = filter (block_used s) [f..<f + k]"
    using used_from_blocks [OF i kn] by (simp add: fb l f_def)
  ultimately show ?thesis using im by (intro that) simp_all
qed

lemma scan_groups_queued:
  assumes ok: "simg_fs s" and g: "g \<le> unat (groups (fx_aux s))"
  defines "f \<equiv> unat (first_data_block (fx_aux s))" and "n \<equiv> unat (blocks_per_group (fx_info s))"
  obtains cs p where "ffor (\<lambda>i _. scan_group fn (of_nat i)) [0..<g] () s = (Inr (), queued cs p s)"
    and "image_blocks (unat (block_size (fx_info s))) fn cs = in_place (unat (block_size (fx_info s)))
           (filter (block_used s) [f..<min (unat (len_blocks (fx_aux s))) (f + g * n)])"
  using g
proof (induction g arbitrary: thesis)
  case 0
  show ?case by (rule 0(1) [of "[]" "fpos s"]) (simp_all add: fx_simps)
next
  case (Suc g)
  let ?bs = "unat (block_size (fx_info s))" and ?l = "unat (len_blocks (fx_aux s))"
  obtain cs p where loop: "ffor (\<lambda>i _. scan_group fn (of_nat i)) [0..<g] () s = (Inr (), queued cs p s)"
    and im: "image_blocks ?bs fn cs = in_place ?bs (filter (block_used s) [f..<min ?l (f + g * n)])"
    by (rule Suc.IH) (use Suc.prems in simp_all)
  have gg: "g < unat (groups (fx_aux (queued cs p s)))" using Suc.prems by simp
  have ok': "simg_fs (queued cs p s)" using ok by simp
  have fl: "f + g * n \<le> ?l" using group_extent(3) [OF ok, of g] Suc.prems by (simp add: f_def n_def)
  obtain ds q where step: "scan_group fn (of_nat g) (queued cs p s) = (Inr (), queued (cs @ ds) q s)"
    and im2: "image_blocks ?bs fn ds = in_place ?bs (filter (block_used s) [f + g * n..<f + g * n + min n (?l - (f + g * n))])"
    using scan_group_queued [OF ok' gg, of fn] by (auto simp: f_def n_def)
  have "f + g * n + min n (?l - (f + g * n)) = min ?l (f + Suc g * n)" using fl by auto
  then have "[f..<min ?l (f + g * n)] @ [f + g * n..<f + g * n + min n (?l - (f + g * n))] = [f..<min ?l (f + Suc g * n)]"
    using fl by (simp add: min_absorb2 upt_join)
  then have "image_blocks ?bs fn (cs @ ds) = in_place ?bs (filter (block_used s) [f..<min ?l (f + Suc g * n)])"
    by (simp only: image_blocks_simps im im2 in_place_simps [symmetric] filter_append [symmetric])
  then show ?case by (intro Suc.prems(1) [of "cs @ ds" q]) (simp_all only: upt_Suc_append ffor_snoc fbnd_def loop step
      prod.case sum.case le0)
qed

section \<open>The sparse image\<close>

text \<open>
  C11. Converting a well-formed image succeeds and queues, in ascending order and each exactly once, the
  blocks before the first data block and the blocks whose bit is set in the bitmap of their group, and
  each of them is read from its own place in the image; blocks not in use are not queued.
\<close>

theorem sparse_image_holds_used_blocks:
  assumes ok: "simg_fs s" and mem: "\<not> oom (fx_fs s) (mallocs (fx_fs s))"
  shows "\<exists>s' cs. build_sparse_ext fn s = (Inr 0, s') \<and> sparse (fx_fs s') = sparse (fx_fs s) @ cs \<and> dev s' = dev s \<and>
           image_blocks (unat (block_size (fx_info s))) fn cs =
             map (\<lambda>b. (b, b * unat (block_size (fx_info s))))
               (filter (block_used s) [0..<unat (len_blocks (fx_aux s))])"
proof -
  let ?bs = "unat (block_size (fx_info s))" and ?f = "unat (first_data_block (fx_aux s))"
    and ?l = "unat (len_blocks (fx_aux s))" and ?n = "unat (blocks_per_group (fx_info s))"
  have fs: "0 < ?bs" "?bs * ?n < 2 ^ 31" "0 < ?n" "?bs * ?f < 2 ^ 32" "?f \<le> ?l" "?l \<le> ?f + unat (groups (fx_aux s)) * ?n"
    using ok by (simp_all add: simg_fs_def Let_def)
  have "?bs * 1 \<le> ?bs * ?n" using fs(3) by (intro mult_le_mono2) simp
  then have bs31: "?bs < 2 ^ 31" using fs(2) by (metis le_less_trans nat_mult_1_right)
  define s0 where "s0 = s\<lparr>fx_fs := (fx_fs s)\<lparr>mallocs := mallocs (fx_fs s) + 1\<rparr>\<rparr>"
  have s0: "fx_info s0 = fx_info s" "fx_aux s0 = fx_aux s" "dev s0 = dev s" "sparse (fx_fs s0) = sparse (fx_fs s)"
    by (simp_all add: s0_def fx_info_def fx_aux_def)
  then have used: "block_used s0 = block_used s" "simg_fs s0 = simg_fs s"
    by (simp_all add: block_used_def group_bitmap_def simg_fs_def fun_eq_iff)
  have malloc: "fx_malloc (block_size (fx_info s)) s = (Inr (), s0)"
    using mem bs31 by (simp add: fx_malloc_def s0_def)
  have head: "filter (block_used s) [0..<?f] = [0..<?f]" by (simp add: filter_True block_used_def Let_def)
  obtain hs where hd: "(if 0 < first_data_block (fx_aux s)
           then fx_sparse_add (Add_File fn 0 (block_size (fx_info s) * first_data_block (fx_aux s)) 0)
           else fret ()) s0 = (Inr (), queued hs (fpos s0) s0)"
    and him: "image_blocks ?bs fn hs = in_place ?bs [0..<?f]"
  proof (cases "first_data_block (fx_aux s) = 0")
    case True
    then show ?thesis using that [of "[]"] by (simp add: fret_def)
  next
    case False
    let ?c = "Add_File fn 0 (block_size (fx_info s) * first_data_block (fx_aux s)) 0"
    have "unat (block_size (fx_info s) * first_data_block (fx_aux s)) div ?bs = ?f"
      using fs by (simp add: unat_mult_small)
    then show ?thesis using False that [of "[?c]"]
      by (simp add: word_neq_0_conv fx_sparse_add_queued image_blocks_def in_place_def)
  qed
  have ok0: "simg_fs (queued hs (fpos s0) s0)" using ok by (simp add: used)
  obtain cs p where gs: "ffor (\<lambda>i _. scan_group fn (of_nat i)) [0..<unat (groups (fx_aux s))] () (queued hs (fpos s0) s0) =
      (Inr (), queued (hs @ cs) p s0)"
    and im: "image_blocks ?bs fn cs = in_place ?bs (filter (block_used s) [?f..<?l])"
    using scan_groups_queued [OF ok0 order_refl, of fn] fs(6) by (auto simp: s0 used min_absorb1)
  have "[0..<?f] @ [?f..<?l] = [0..<?l]" using fs(5) by (simp add: upt_join)
  then have "in_place ?bs (filter (block_used s) [0..<?l]) = image_blocks ?bs fn (hs @ cs)"
    using head by (metis filter_append him im image_blocks_simps(2) in_place_simps(2))
  then show ?thesis
    by (intro exI [of _ "queued (hs @ cs) p s0"] exI [of _ "hs @ cs"])
      (simp add: build_sparse_ext_def fbnd_def malloc hd gs fret_def s0 in_place_def)
qed

text \<open>Two groups of 8 blocks of 4 bytes behind one boot block; the second group is cut short.\<close>

definition sample_simg :: fixup_st where
  "sample_simg = \<lparr>
     fx_fs = \<lparr>force = False,
       info = \<lparr>info_len = 48, block_size = 4, blocks_per_group = 8, inodes_per_group = 1, inode_size = 4,
         info_inodes = 2, journal_blocks = 0, feat_ro_compat = 0, feat_compat = 0, feat_incompat = 0,
         bg_desc_reserve_blocks = 0, label = [], no_journal = 1\<rparr>,
       aux_info = \<lparr>sb = [], backup_sb = [], bg_desc = 2 # replicate 31 0 @ 3 # replicate 31 0, bgs = [],
         xattrs = [], first_data_block = 1, len_blocks = 12, inode_table_blocks = 1, groups = 2,
         bg_desc_blocks = 16, default_i_flags = 0, blocks_per_ind = 1, blocks_per_dind = 1, blocks_per_tind = 1\<rparr>,
       regions = Map.empty, mem = Map.empty, sparse = [], mallocs = 0, oom = (\<lambda>_. False),
       sparse_err = (\<lambda>_. False)\<rparr>,
     dev = replicate 8 0 @ [0xC7, 0, 0, 0, 0xF6, 0, 0, 0] @ replicate 32 0,
     fpos = 0, no_write = False, new_inodes_per_group = 0, no_write_fixup_state = 0,
     bail_phase = 0, bail_loc = 0, bail_count = 0, fx_count = 0\<rparr>"

theorem sparse_image_holds_used_blocks_witness:
  "\<exists>s' cs. build_sparse_ext [105] sample_simg = (Inr 0, s') \<and> sparse (fx_fs s') = cs \<and> dev s' = dev sample_simg \<and>
     image_blocks 4 [105] cs =
       [(0, 0), (1, 4), (2, 8), (3, 12), (7, 28), (8, 32), (10, 40), (11, 44)]"
proof -
  let ?d = "2 # replicate 31 0 @ 3 # replicate 31 0 :: bytes"
  have nrs: "le32 ?d 0 = 2" "le32 ?d 32 = 3" by code_simp+
  have fields: "fx_info sample_simg = info (fx_fs sample_simg)" "fx_aux sample_simg = aux_info (fx_fs sample_simg)"
    "block_size (info (fx_fs sample_simg)) = 4" "blocks_per_group (info (fx_fs sample_simg)) = 8"
    "bg_desc (aux_info (fx_fs sample_simg)) = ?d" "first_data_block (aux_info (fx_fs sample_simg)) = 1"
    "len_blocks (aux_info (fx_fs sample_simg)) = 12" "groups (aux_info (fx_fs sample_simg)) = 2"
    "length (dev sample_simg) = 48" "sparse (fx_fs sample_simg) = []"
    by (simp_all add: sample_simg_def fx_info_def fx_aux_def)
  have ok: "simg_fs sample_simg"
    by (simp add: simg_fs_def fields Let_def all_less_two nrs del: replicate.simps)
  have mem: "\<not> oom (fx_fs sample_simg) (mallocs (fx_fs sample_simg))" by (simp add: sample_simg_def)
  have maps: "group_bitmap sample_simg 0 = [0xC7, 0, 0, 0]" "group_bitmap sample_simg (Suc 0) = [0xF6, 0, 0, 0]"
    by (simp_all add: group_bitmap_def fields nrs) (simp_all add: sample_simg_def)
  have used: "filter (block_used sample_simg) [0..<12] = [0, 1, 2, 3, 7, 8, 10, 11]"
    by (simp add: block_used_def bits_def upt_rec fields maps Let_def bit_simps)
  show ?thesis
    using sparse_image_holds_used_blocks [OF ok mem, of "[105]"] used by (simp add: fields)
qed

end
