(* ===== verification/Scanf.thy ===== *)
theory Scanf
  imports Fs_Params
begin

text \<open>
  The input functions of the C library that the readers of \<^verbatim>\<open>/proc\<close> use: \<^verbatim>\<open>fgets\<close> and the
  conversions of \<^verbatim>\<open>sscanf\<close>. A conversion gives \<open>None\<close> on a matching failure, otherwise what it
  matched and the rest of the input; storing a number that its type cannot hold is undefined behaviour.
\<close>

section \<open>Conversions\<close>

definition skip_space :: "bytes \<Rightarrow> bytes" where
  "skip_space = dropWhile is_space"

definition is_hex :: "u8 \<Rightarrow> bool" where
  "is_hex c \<longleftrightarrow> is_digit c \<or> 97 \<le> c \<and> c \<le> 102 \<or> 65 \<le> c \<and> c \<le> 70"

definition hex_value :: "u8 \<Rightarrow> nat" where
  "hex_value c = (if is_digit c then unat (c - 48) else if 97 \<le> c then unat (c - 87) else unat (c - 55))"

definition scan_sign :: "bytes \<Rightarrow> bool \<times> bytes" where
  "scan_sign b = (case b of [] \<Rightarrow> (False, [])
     | c # r \<Rightarrow> if c = 45 then (True, r) else if c = 43 then (False, r) else (False, b))"

text \<open>A prefix \<^verbatim>\<open>0x\<close> belongs to the number when a digit follows it.\<close>

definition skip_0x :: "bytes \<Rightarrow> bytes" where
  "skip_0x b = (case b of z # x # c # r \<Rightarrow> if z = 48 \<and> (x = 120 \<or> x = 88) \<and> is_hex c then c # r else b | _ \<Rightarrow> b)"

text \<open>\<^verbatim>\<open>%d\<close> and \<^verbatim>\<open>%lx\<close>: sign, magnitude and rest.\<close>

definition scan_dec :: "bytes \<Rightarrow> ((bool \<times> nat) \<times> bytes) option" where
  "scan_dec b = (let (neg, b) = scan_sign (skip_space b); ds = takeWhile is_digit b in
     if ds = [] then None else Some ((neg, digits_value ds), dropWhile is_digit b))"

definition scan_hex :: "bytes \<Rightarrow> ((bool \<times> nat) \<times> bytes) option" where
  "scan_hex b = (let (neg, b) = scan_sign (skip_space b); b = skip_0x b; ds = takeWhile is_hex b in
     if ds = [] then None
     else Some ((neg, foldl (\<lambda>v d. 16 * v + hex_value d) 0 ds), dropWhile is_hex b))"

text \<open>\<^verbatim>\<open>%s\<close>, at most \<open>w\<close> characters when a width is given.\<close>

definition scan_str :: "nat option \<Rightarrow> bytes \<Rightarrow> (bytes \<times> bytes) option" where
  "scan_str w b = (let b = skip_space b; t = takeWhile (\<lambda>c. \<not> is_space c) b;
       t = (case w of None \<Rightarrow> t | Some n \<Rightarrow> take n t) in
     if t = [] then None else Some (t, drop (length t) b))"

definition store_int :: "bool \<times> nat \<Rightarrow> int res" where
  "store_int n = (case n of (neg, v) \<Rightarrow> let i = (if neg then - int v else int v) in
     if - (2 ^ 31) \<le> i \<and> i < 2 ^ 31 then Inr i else Inl Undefined)"

definition store_ulong :: "bool \<times> nat \<Rightarrow> u32 res" where
  "store_ulong n = (case n of (neg, v) \<Rightarrow>
     if v < 2 ^ 32 then Inr (if neg then - of_nat v else of_nat v) else Inl Undefined)"

section \<open>Lines\<close>

text \<open>\<^verbatim>\<open>fgets\<close> reads up to and including a newline, at most one byte less than its buffer has.\<close>

fun fgets_take :: "nat \<Rightarrow> bytes \<Rightarrow> bytes" where
  "fgets_take 0 b = []"
| "fgets_take (Suc n) [] = []"
| "fgets_take (Suc n) (c # r) = (if c = 10 then [c] else c # fgets_take n r)"

lemma fgets_take_length: "length (fgets_take n b) \<le> n"
  by (induction n b rule: fgets_take.induct) auto

lemma fgets_take_pos: "0 < n \<Longrightarrow> b \<noteq> [] \<Longrightarrow> 0 < length (fgets_take n b)"
  by (cases n; cases b) auto

text \<open>The lines that repeated calls of \<^verbatim>\<open>fgets\<close> give for a buffer of \<open>n + 2\<close> bytes.\<close>

function fgets_lines :: "nat \<Rightarrow> bytes \<Rightarrow> bytes list" where
  "fgets_lines n b =
     (if b = [] then [] else fgets_take (Suc n) b # fgets_lines n (drop (length (fgets_take (Suc n) b)) b))"
  by pat_completeness auto
termination
proof (relation "measure (\<lambda>(n, b). length b)")
  fix n and b :: bytes assume "b \<noteq> []"
  then show "((n, drop (length (fgets_take (Suc n) b)) b), (n, b)) \<in> measure (\<lambda>(n, b). length b)"
    using fgets_take_pos [of "Suc n" b] by (simp del: fgets_take.simps)
qed simp

declare fgets_lines.simps [simp del]

lemma fgets_take_line:
  assumes "10 \<notin> set l" "length l < n"
  shows "fgets_take n (l @ 10 # r) = l @ [10]"
  using assms
proof (induction l arbitrary: n)
  case Nil
  then show ?case by (cases n) auto
next
  case (Cons c l)
  then show ?case by (cases n) auto
qed

text \<open>Short lines come back one by one.\<close>

lemma fgets_lines_lines:
  assumes "\<forall>l \<in> set ls. 10 \<notin> set l \<and> length l \<le> n"
  shows "fgets_lines n (concat (map (\<lambda>l. l @ [10]) ls)) = map (\<lambda>l. l @ [10]) ls"
  using assms
proof (induction ls)
  case Nil
  then show ?case by (simp add: fgets_lines.simps)
next
  case (Cons l ls)
  let ?r = "concat (map (\<lambda>l. l @ [10]) ls)"
  have t: "fgets_take (Suc n) (l @ 10 # ?r) = l @ [10]" using Cons.prems by (intro fgets_take_line) auto
  have "fgets_lines n (l @ 10 # ?r) = (l @ [10]) # fgets_lines n ?r"
    by (subst fgets_lines.simps) (simp add: t del: fgets_take.simps)
  then show ?case using Cons by simp
qed

section \<open>Scanning printed text\<close>

text \<open>Hexadecimal digits as \<^verbatim>\<open>%lx\<close> prints them, at least one.\<close>

definition hex_char :: "nat \<Rightarrow> u8" where
  "hex_char k = (if k < 10 then of_nat (48 + k) else of_nat (87 + k))"

fun hexadecimal :: "nat \<Rightarrow> bytes" where
  "hexadecimal n = (if n < 16 then [hex_char n] else hexadecimal (n div 16) @ [hex_char (n mod 16)])"

declare hexadecimal.simps [simp del]

lemma hex_char_facts:
  assumes "k < 16"
  shows "is_hex (hex_char k)" "hex_value (hex_char k) = k"
proof -
  have "\<forall>k < 16. is_hex (hex_char k) \<and> hex_value (hex_char k) = k" by code_simp
  then show "is_hex (hex_char k)" "hex_value (hex_char k) = k" using assms by auto
qed

lemma is_hex_plain: "is_hex c \<Longrightarrow> \<not> is_space c \<and> c \<noteq> 45 \<and> c \<noteq> 43 \<and> c \<noteq> 120 \<and> c \<noteq> 88"
  by (auto simp: is_hex_def is_digit_def is_space_def word_le_nat_alt)

lemma hexadecimal_spec:
  "foldl (\<lambda>v d. 16 * v + hex_value d) 0 (hexadecimal n) = n \<and> (\<forall>d \<in> set (hexadecimal n). is_hex d) \<and> hexadecimal n \<noteq> []"
proof (induction n rule: hexadecimal.induct)
  case (1 n)
  show ?case
  proof (cases "n < 16")
    case True
    then show ?thesis by (subst (1 2 3) hexadecimal.simps) (simp add: hex_char_facts)
  next
    case False
    have m: "n mod 16 < 16" by simp
    show ?thesis using 1 False by (subst (1 2 3) hexadecimal.simps) (simp add: hex_char_facts [OF m])
  qed
qed


definition hex_padded :: "nat \<Rightarrow> nat \<Rightarrow> bytes" where
  "hex_padded w n = replicate (w - length (hexadecimal n)) 48 @ hexadecimal n"

lemma hex_padded_spec:
  "foldl (\<lambda>v d. 16 * v + hex_value d) 0 (hex_padded w n) = n" "\<forall>d \<in> set (hex_padded w n). is_hex d" "hex_padded w n \<noteq> []"
proof -
  have "foldl (\<lambda>v d. 16 * v + hex_value d) 0 (replicate k 48) = 0" for k
    by (induction k) (simp_all add: hex_value_def is_digit_def)
  then show "foldl (\<lambda>v d. 16 * v + hex_value d) 0 (hex_padded w n) = n"
    by (simp add: hex_padded_def hexadecimal_spec)
  show "\<forall>d \<in> set (hex_padded w n). is_hex d" "hex_padded w n \<noteq> []"
    using hexadecimal_spec [of n] by (auto simp: hex_padded_def is_hex_def is_digit_def)
qed

lemma scan_hex_digits:
  assumes ds: "ds \<noteq> []" "\<forall>d \<in> set ds. is_hex d" and r: "r = [] \<or> \<not> is_hex (hd r) \<and> hd r \<noteq> 120 \<and> hd r \<noteq> 88"
  shows "scan_hex (ds @ r) = Some ((False, foldl (\<lambda>v d. 16 * v + hex_value d) 0 ds), r)"
proof -
  obtain c cs where c: "ds = c # cs" using ds by (cases ds) auto
  have "\<not> is_space c" "c \<noteq> 45" "c \<noteq> 43" using ds is_hex_plain [of c] by (auto simp: c)
  then have s: "scan_sign (skip_space (ds @ r)) = (False, ds @ r)" by (simp add: skip_space_def scan_sign_def c)
  have "hd (cs @ r) \<noteq> 120 \<and> hd (cs @ r) \<noteq> 88" if "cs @ r \<noteq> []"
    using that ds(2) r is_hex_plain by (cases cs) (auto simp: c)
  then have x: "skip_0x (ds @ r) = ds @ r"
    by (cases "cs @ r") (auto simp: skip_0x_def c split: list.splits)
  have t: "takeWhile is_hex (ds @ r) = ds" "dropWhile is_hex (ds @ r) = r"
    using ds(2) r by (cases r; simp add: takeWhile_append2 dropWhile_append2)+
  show ?thesis by (simp add: scan_hex_def s x t ds(1))
qed

lemma scan_space [simp]: "is_space c \<Longrightarrow> scan_hex (c # r) = scan_hex r" "is_space c \<Longrightarrow> scan_dec (c # r) = scan_dec r"
  "is_space c \<Longrightarrow> scan_str w (c # r) = scan_str w r"
  by (simp_all add: scan_hex_def scan_dec_def scan_str_def skip_space_def)

lemma scan_dec_decimal:
  assumes "r = [] \<or> \<not> is_digit (hd r)"
  shows "scan_dec (decimal n @ r) = Some ((False, n), r)"
proof -
  note d = decimal_spec [of n]
  obtain c cs where c: "decimal n = c # cs" using d by (cases "decimal n") auto
  then have "\<not> is_space c" "c \<noteq> 45" "c \<noteq> 43" using d not_space_sign [of c] by auto
  then have s: "scan_sign (skip_space (decimal n @ r)) = (False, decimal n @ r)"
    by (simp add: skip_space_def scan_sign_def c)
  have t: "takeWhile is_digit (decimal n @ r) = decimal n" "dropWhile is_digit (decimal n @ r) = r"
    using d assms by (cases r; simp add: takeWhile_append2 dropWhile_append2)+
  show ?thesis using d by (simp add: scan_dec_def s t)
qed

lemma scan_str_word:
  assumes t: "t \<noteq> []" "\<forall>c \<in> set t. \<not> is_space c" and r: "r = [] \<or> is_space (hd r)"
    and w: "case w of None \<Rightarrow> True | Some n \<Rightarrow> length t \<le> n"
  shows "scan_str w (t @ r) = Some (t, r)"
proof -
  obtain c cs where c: "t = c # cs" using t by (cases t) auto
  have "skip_space (t @ r) = t @ r" using t(2) by (simp add: skip_space_def c)
  moreover have "takeWhile (\<lambda>c. \<not> is_space c) (t @ r) = t"
    using t(2) r by (cases r; simp add: takeWhile_append2)
  ultimately show ?thesis using t(1) w by (cases w) (auto simp: scan_str_def c)
qed

lemma scan_str_blank: "\<forall>c \<in> set r. is_space c \<Longrightarrow> scan_str w r = None"
proof -
  assume "\<forall>c \<in> set r. is_space c"
  then have "dropWhile is_space r = []" by (simp add: dropWhile_eq_Nil_conv)
  then show ?thesis by (cases w) (simp_all add: scan_str_def skip_space_def Let_def del: dropWhile_eq_Nil_conv)
qed

end
