(* ===== verification/Pagemap.thy ===== *)
theory Pagemap
  imports Scanf
begin

text \<open>
  \<^verbatim>\<open>libpagemap\<close>: the memory use of processes, computed from what the kernel tells in
  \<^verbatim>\<open>/proc\<close>. The operating system is a parameter: which files open, what a read of the page tables
  returns, which allocations fail. It is a snapshot, the same for all calls of a run. The page table files
  hold entries of 64 bits and a read returns whole entries.

  A run keeps \<^verbatim>\<open>errno\<close>, because several functions return it after a short read that does not set
  it, the number of allocations, the descriptors opened and closed, and what was written to files.
  Memory is not tracked beyond whether an allocation succeeds. A pointer argument that the code compares
  with NULL is an option or a boolean; \<^verbatim>\<open>map->proc\<close> is passed beside the map.
\<close>

section \<open>Operating system\<close>

text \<open>\<open>Inl\<close> is the error number. \<open>os_realloc_zero\<close> tells whether a reallocation to no bytes
  returns a pointer.\<close>

record pm_os =
  os_open :: "bytes \<Rightarrow> int + int"
  os_fopen :: "bytes \<Rightarrow> int + bytes"
  os_proc_dir :: "int + bytes list"
  os_lseek :: "int \<Rightarrow> u32 \<Rightarrow> int option"
  os_read :: "int \<Rightarrow> u32 \<Rightarrow> nat \<Rightarrow> int + u64 list"
  os_pagesize :: u32
  os_oom :: "nat \<Rightarrow> bool"
  os_realloc_zero :: bool

record pm_st =
  pm_errno :: int
  pm_allocs :: nat
  pm_opened :: "int list"
  pm_closed :: "int list"
  pm_written :: "(bytes \<times> bytes) list"

type_synonym 'a pm = "pm_st \<Rightarrow> ('a \<times> pm_st) res"

definition pret :: "'a \<Rightarrow> 'a pm" where
  "pret x s = Inr (x, s)"

definition pbnd :: "'a pm \<Rightarrow> ('a \<Rightarrow> 'b pm) \<Rightarrow> 'b pm" where
  "pbnd m f s = bnd (m s) (\<lambda>(x, s). f x s)"

definition plift :: "'a res \<Rightarrow> 'a pm" where
  "plift r s = bnd r (\<lambda>x. Inr (x, s))"

definition set_errno :: "int \<Rightarrow> unit pm" where
  "set_errno e s = Inr ((), s\<lparr>pm_errno := e\<rparr>)"

definition get_errno :: "int pm" where
  "get_errno s = Inr (pm_errno s, s)"

lemmas pm_simps = pret_def pbnd_def plift_def set_errno_def get_errno_def

text \<open>A failing allocation sets \<^verbatim>\<open>ENOMEM\<close>.\<close>

definition pm_alloc :: "pm_os \<Rightarrow> bool pm" where
  "pm_alloc os s =
     (if os_oom os (pm_allocs s) then Inr (False, s\<lparr>pm_allocs := pm_allocs s + 1, pm_errno := 12\<rparr>)
      else Inr (True, s\<lparr>pm_allocs := pm_allocs s + 1\<rparr>))"

definition pm_open :: "pm_os \<Rightarrow> bytes \<Rightarrow> int option pm" where
  "pm_open os path s = (case os_open os path of
     Inl e \<Rightarrow> Inr (None, s\<lparr>pm_errno := e\<rparr>)
   | Inr fd \<Rightarrow> Inr (Some fd, s\<lparr>pm_opened := fd # pm_opened s\<rparr>))"

definition pm_close :: "int \<Rightarrow> unit pm" where
  "pm_close fd s = Inr ((), s\<lparr>pm_closed := fd # pm_closed s\<rparr>)"

definition pm_str :: "string \<Rightarrow> bytes" where
  "pm_str = map of_char"

text \<open>\<^verbatim>\<open>snprintf(filename, MAX_FILENAME, "/proc/%d/...", pid)\<close>, which always fits.\<close>

definition print_int :: "int \<Rightarrow> bytes" where
  "print_int i = (if i < 0 then 45 # decimal (nat (- i)) else decimal (nat i))"

definition proc_path :: "int \<Rightarrow> string \<Rightarrow> bytes" where
  "proc_path pid name = pm_str ''/proc/'' @ print_int pid @ pm_str name"

section \<open>Memory use\<close>

record pm_memusage =
  vss :: u32
  rss :: u32
  pss :: u32
  uss :: u32

definition pm_memusage_zero :: pm_memusage where
  "pm_memusage_zero = \<lparr>vss = 0, rss = 0, pss = 0, uss = 0\<rparr>"

definition pm_memusage_add :: "pm_memusage \<Rightarrow> pm_memusage \<Rightarrow> pm_memusage" where
  "pm_memusage_add a b = \<lparr>vss = vss a + vss b, rss = rss a + rss b, pss = pss a + pss b, uss = uss a + uss b\<rparr>"

section \<open>Page table entries\<close>

definition BITS :: "u64 \<Rightarrow> nat \<Rightarrow> nat \<Rightarrow> u64" where
  "BITS x off n = drop_bit off x AND (push_bit n 1 - 1)"

definition PM_PAGEMAP_PRESENT :: "u64 \<Rightarrow> u64" where "PM_PAGEMAP_PRESENT x = BITS x 63 1"
definition PM_PAGEMAP_SWAPPED :: "u64 \<Rightarrow> u64" where "PM_PAGEMAP_SWAPPED x = BITS x 62 1"
definition PM_PAGEMAP_PFN :: "u64 \<Rightarrow> u64" where "PM_PAGEMAP_PFN x = BITS x 0 55"
definition PM_PAGE_REFERENCED :: u64 where "PM_PAGE_REFERENCED = push_bit 2 1"

section \<open>The kernel\<close>

record pm_kernel =
  kpagecount_fd :: int
  kpageflags_fd :: int
  pagesize :: u32

definition pm_kernel_create :: "pm_os \<Rightarrow> bool \<Rightarrow> (int \<times> pm_kernel option) pm" where
  "pm_kernel_create os ker_out =
     (if \<not> ker_out then pret (1, None)
      else
        pbnd (pm_alloc os) (\<lambda>ok.
        if \<not> ok then pbnd get_errno (\<lambda>e. pret (e, None))
        else
          pbnd (pm_open os (pm_str ''/proc/kpagecount'')) (\<lambda>fd1. case fd1 of
            None \<Rightarrow> pbnd get_errno (\<lambda>e. pret (e, None))
          | Some fd1 \<Rightarrow>
              pbnd (pm_open os (pm_str ''/proc/kpageflags'')) (\<lambda>fd2. case fd2 of
                None \<Rightarrow> pbnd get_errno (\<lambda>e. pbnd (pm_close fd1) (\<lambda>_. pret (e, None)))
              | Some fd2 \<Rightarrow>
                  pret (0, Some \<lparr>kpagecount_fd = fd1, kpageflags_fd = fd2, pagesize = os_pagesize os\<rparr>)))))"

text \<open>The array of \<open>size\<close> elements grows by doubling; \<open>None\<close> is a failed reallocation.\<close>

fun pids_loop :: "pm_os \<Rightarrow> bytes list \<Rightarrow> nat \<Rightarrow> int list \<Rightarrow> (int list \<times> nat) option pm" where
  "pids_loop os [] sz pids = pret (Some (pids, sz))"
| "pids_loop os (name # names) sz pids =
     (case scan_dec name of
        None \<Rightarrow> pids_loop os names sz pids
      | Some (n, _) \<Rightarrow>
          pbnd (plift (store_int n)) (\<lambda>pid.
          if sz \<le> length pids then
            pbnd (pm_alloc os) (\<lambda>ok.
            if \<not> ok then pret None else pids_loop os names (2 * sz) (pids @ [pid]))
          else pids_loop os names sz (pids @ [pid])))"

text \<open>\<open>realloc(p, n)\<close> that may be asked for no bytes.\<close>

definition pm_shrink :: "pm_os \<Rightarrow> nat \<Rightarrow> bool pm" where
  "pm_shrink os n = (if n = 0 \<and> \<not> os_realloc_zero os then pret False else pm_alloc os)"

definition pm_kernel_pids :: "pm_os \<Rightarrow> (int \<times> int list option) pm" where
  "pm_kernel_pids os =
     (case os_proc_dir os of
        Inl e \<Rightarrow> pbnd (set_errno e) (\<lambda>_. pret (e, None))
      | Inr names \<Rightarrow>
          pbnd (pm_alloc os) (\<lambda>ok.
          if \<not> ok then pbnd get_errno (\<lambda>e. pret (e, None))
          else
            pbnd (pids_loop os names 20 []) (\<lambda>r. case r of
              None \<Rightarrow> pbnd get_errno (\<lambda>e. pret (e, None))
            | Some (pids, _) \<Rightarrow>
                pbnd (pm_shrink os (length pids)) (\<lambda>ok.
                if \<not> ok then pbnd get_errno (\<lambda>e. pret (e, None))
                else pret (0, Some pids)))))"

text \<open>Seek to an entry and read it. A short read returns \<^verbatim>\<open>errno\<close>, which it has not set, and
  leaves the variable as it was (\<open>None\<close>: not initialised).\<close>

definition read_entry :: "pm_os \<Rightarrow> int \<Rightarrow> u32 \<Rightarrow> u64 option \<Rightarrow> (int \<times> u64 option) pm" where
  "read_entry os fd off old =
     (case os_lseek os fd off of
        Some e \<Rightarrow> pbnd (set_errno e) (\<lambda>_. pret (e, old))
      | None \<Rightarrow>
          (case os_read os fd off 1 of
             Inl e \<Rightarrow> pbnd (set_errno e) (\<lambda>_. pret (e, old))
           | Inr [] \<Rightarrow> pbnd get_errno (\<lambda>e. pret (e, old))
           | Inr (x # _) \<Rightarrow> pret (0, Some x)))"

definition pm_kernel_count :: "pm_os \<Rightarrow> pm_kernel option \<Rightarrow> u32 \<Rightarrow> bool \<Rightarrow> u64 option \<Rightarrow> (int \<times> u64 option) pm" where
  "pm_kernel_count os ker pfn count_out old =
     (case ker of
        Some k \<Rightarrow> if count_out then read_entry os (kpagecount_fd k) (pfn * 8) old else pret (-1, old)
      | None \<Rightarrow> pret (-1, old))"

definition pm_kernel_flags :: "pm_os \<Rightarrow> pm_kernel option \<Rightarrow> u32 \<Rightarrow> bool \<Rightarrow> u64 option \<Rightarrow> (int \<times> u64 option) pm" where
  "pm_kernel_flags os ker pfn flags_out old =
     (case ker of
        Some k \<Rightarrow> if flags_out then read_entry os (kpageflags_fd k) (pfn * 8) old else pret (-1, old)
      | None \<Rightarrow> pret (-1, old))"

definition pm_kernel_destroy :: "pm_kernel option \<Rightarrow> int pm" where
  "pm_kernel_destroy ker =
     (case ker of None \<Rightarrow> pret (-1)
      | Some k \<Rightarrow> pbnd (pm_close (kpagecount_fd k)) (\<lambda>_. pbnd (pm_close (kpageflags_fd k)) (\<lambda>_. pret 0)))"

section \<open>Maps\<close>

record pm_map =
  map_start :: u32
  map_end :: u32
  map_offset :: u32
  map_flags :: u32
  map_name :: bytes

record pm_process =
  proc_ker :: pm_kernel
  proc_pid :: int
  proc_maps :: "pm_map list"
  pagemap_fd :: int

section \<open>Processes\<close>

text \<open>The pages of a range of addresses. At the end of the file the range is empty.\<close>

definition range_off :: "pm_process \<Rightarrow> u32 \<Rightarrow> u32" where
  "range_off proc low = low div pagesize (proc_ker proc) * 8"

definition range_pages :: "pm_process \<Rightarrow> u32 \<Rightarrow> u32 \<Rightarrow> nat" where
  "range_pages proc low high = unat ((high - low) div pagesize (proc_ker proc))"

definition pm_process_pagemap_range ::
  "pm_os \<Rightarrow> pm_process option \<Rightarrow> u32 \<Rightarrow> u32 \<Rightarrow> bool \<Rightarrow> bool \<Rightarrow> (int \<times> u64 list option) pm" where
  "pm_process_pagemap_range os pr low high range_out len =
     (case pr of None \<Rightarrow> pret (-1, None)
      | Some proc \<Rightarrow>
          if high \<le> low \<or> \<not> range_out \<or> \<not> len then pret (-1, None)
          else if pagesize (proc_ker proc) = 0 then plift (Inl Undefined)
          else
            pbnd (pm_alloc os) (\<lambda>ok.
            if \<not> ok then pbnd get_errno (\<lambda>e. pret (e, None))
            else
              let n = range_pages proc low high in
              (case os_lseek os (pagemap_fd proc) (range_off proc low) of
                 Some e \<Rightarrow> pbnd (set_errno e) (\<lambda>_. pret (e, None))
               | None \<Rightarrow>
                   (case os_read os (pagemap_fd proc) (range_off proc low) n of
                      Inl e \<Rightarrow> pbnd (set_errno e) (\<lambda>_. pret (e, None))
                    | Inr es \<Rightarrow>
                        if es = [] then pret (0, Some [])
                        else if length es < n then pret (-1, None)
                        else pret (0, Some (take n es))))))"

definition pm_map_pagemap :: "pm_os \<Rightarrow> (pm_process \<times> pm_map) option \<Rightarrow> (int \<times> u64 list option) pm" where
  "pm_map_pagemap os m =
     (case m of None \<Rightarrow> pret (-1, None)
      | Some (proc, m) \<Rightarrow> pm_process_pagemap_range os (Some proc) (map_start m) (map_end m) True True)"

text \<open>The share of one page.\<close>

definition add_page :: "u32 \<Rightarrow> u64 \<Rightarrow> pm_memusage \<Rightarrow> pm_memusage" where
  "add_page psize cnt u =
     u\<lparr>rss := rss u + (if 1 \<le> cnt then psize else 0),
       pss := pss u + (if 1 \<le> cnt then ucast (ucast psize div cnt) else 0),
       uss := uss u + (if cnt = 1 then psize else 0)\<rparr>"

definition add_vss :: "u32 \<Rightarrow> pm_memusage \<Rightarrow> pm_memusage" where
  "add_vss psize u = u\<lparr>vss := vss u + psize\<rparr>"

fun usage_loop :: "pm_os \<Rightarrow> pm_kernel \<Rightarrow> u64 list \<Rightarrow> u64 option \<Rightarrow> pm_memusage \<Rightarrow> (int \<times> pm_memusage option) pm" where
  "usage_loop os ker [] cnt usage = pret (0, Some usage)"
| "usage_loop os ker (e # es) cnt usage =
     (if PM_PAGEMAP_PRESENT e = 0 \<or> PM_PAGEMAP_SWAPPED e \<noteq> 0 then usage_loop os ker es cnt usage
      else
        pbnd (pm_kernel_count os (Some ker) (ucast (PM_PAGEMAP_PFN e)) True cnt) (\<lambda>(err, cnt).
        if err \<noteq> 0 then pret (err, None)
        else (case cnt of
            None \<Rightarrow> plift (Inl Undefined)
          | Some c \<Rightarrow> usage_loop os ker es (Some c) (add_page (pagesize ker) c (add_vss (pagesize ker) usage)))))"

text \<open>The second component is what is stored behind \<^verbatim>\<open>usage_out\<close>, if anything.\<close>

definition pm_map_usage :: "pm_os \<Rightarrow> (pm_process \<times> pm_map) option \<Rightarrow> bool \<Rightarrow> (int \<times> pm_memusage option) pm" where
  "pm_map_usage os m usage_out =
     (case m of None \<Rightarrow> pret (-1, None)
      | Some (proc, _) \<Rightarrow>
          if \<not> usage_out then pret (-1, None)
          else
            pbnd (pm_map_pagemap os m) (\<lambda>(err, es).
            if err \<noteq> 0 then pret (err, None)
            else (case es of None \<Rightarrow> plift (Inl Undefined)
              | Some es \<Rightarrow> usage_loop os (proc_ker proc) es None pm_memusage_zero)))"

fun workingset_loop ::
  "pm_os \<Rightarrow> pm_kernel \<Rightarrow> u64 list \<Rightarrow> u64 option \<Rightarrow> u64 option \<Rightarrow> pm_memusage \<Rightarrow> pm_memusage option pm" where
  "workingset_loop os ker [] flags cnt ws = pret (Some ws)"
| "workingset_loop os ker (e # es) flags cnt ws =
     pbnd (pm_kernel_flags os (Some ker) (ucast (PM_PAGEMAP_PFN e)) True flags) (\<lambda>(err, flags).
     if err \<noteq> 0 then pret None
     else (case flags of
         None \<Rightarrow> plift (Inl Undefined)
       | Some f \<Rightarrow>
           if f AND PM_PAGE_REFERENCED = 0 then workingset_loop os ker es (Some f) cnt ws
           else
             pbnd (pm_kernel_count os (Some ker) (ucast (PM_PAGEMAP_PFN e)) True cnt) (\<lambda>(err, cnt).
             if err \<noteq> 0 then pret None
             else
               let ws = add_vss (pagesize ker) ws in
               if PM_PAGEMAP_SWAPPED e \<noteq> 0 then workingset_loop os ker es (Some f) cnt ws
               else (case cnt of
                   None \<Rightarrow> plift (Inl Undefined)
                 | Some c \<Rightarrow> workingset_loop os ker es (Some f) (Some c) (add_page (pagesize ker) c ws)))))"

text \<open>The error of the loop is dropped: the function then returns 0 and stores nothing.\<close>

definition pm_map_workingset :: "pm_os \<Rightarrow> (pm_process \<times> pm_map) option \<Rightarrow> bool \<Rightarrow> (int \<times> pm_memusage option) pm" where
  "pm_map_workingset os m ws_out =
     (case m of None \<Rightarrow> pret (-1, None)
      | Some (proc, _) \<Rightarrow>
          if \<not> ws_out then pret (-1, None)
          else
            pbnd (pm_map_pagemap os m) (\<lambda>(err, es).
            if err \<noteq> 0 then pret (err, None)
            else (case es of None \<Rightarrow> plift (Inl Undefined)
              | Some es \<Rightarrow>
                  pbnd (workingset_loop os (proc_ker proc) es None None pm_memusage_zero) (\<lambda>ws. pret (0, ws)))))"

text \<open>Add up the maps. \<open>mu\<close> is the local variable that the called function fills in.\<close>

fun sum_maps ::
  "((pm_process \<times> pm_map) option \<Rightarrow> bool \<Rightarrow> (int \<times> pm_memusage option) pm) \<Rightarrow> pm_process \<Rightarrow> pm_map list \<Rightarrow>
    pm_memusage option \<Rightarrow> pm_memusage \<Rightarrow> (int \<times> pm_memusage option) pm" where
  "sum_maps f proc [] mu tot = pret (0, Some tot)"
| "sum_maps f proc (m # ms) mu tot =
     pbnd (f (Some (proc, m)) True) (\<lambda>(err, r).
     if err \<noteq> 0 then pret (err, None)
     else (case (case r of None \<Rightarrow> mu | Some u \<Rightarrow> Some u) of
         None \<Rightarrow> plift (Inl Undefined)
       | Some u \<Rightarrow> sum_maps f proc ms (Some u) (pm_memusage_add tot u)))"

definition pm_process_usage :: "pm_os \<Rightarrow> pm_process option \<Rightarrow> bool \<Rightarrow> (int \<times> pm_memusage option) pm" where
  "pm_process_usage os pr usage_out =
     (case pr of None \<Rightarrow> pret (-1, None)
      | Some proc \<Rightarrow>
          if \<not> usage_out then pret (-1, None)
          else sum_maps (pm_map_usage os) proc (proc_maps proc) None pm_memusage_zero)"

definition clear_refs :: "pm_os \<Rightarrow> pm_process \<Rightarrow> int pm" where
  "clear_refs os proc =
     pbnd (pm_open os (proc_path (proc_pid proc) ''/clear_refs'')) (\<lambda>fd. case fd of
       None \<Rightarrow> get_errno
     | Some fd \<Rightarrow>
         pbnd (\<lambda>s. Inr ((), s\<lparr>pm_written := (proc_path (proc_pid proc) ''/clear_refs'', [49, 10]) # pm_written s\<rparr>)) (\<lambda>_.
         pbnd (pm_close fd) (\<lambda>_. pret 0)))"

definition pm_process_workingset ::
  "pm_os \<Rightarrow> pm_process option \<Rightarrow> bool \<Rightarrow> bool \<Rightarrow> (int \<times> pm_memusage option) pm" where
  "pm_process_workingset os pr ws_out reset =
     (case pr of None \<Rightarrow> pret (-1, None)
      | Some proc \<Rightarrow>
          pbnd (if ws_out then sum_maps (pm_map_workingset os) proc (proc_maps proc) None pm_memusage_zero
                else pret (0, None)) (\<lambda>(err, ws).
          if err \<noteq> 0 then pret (err, None)
          else if reset then pbnd (clear_refs os proc) (\<lambda>err. pret (err, ws))
          else pret (0, ws)))"

definition pm_process_maps :: "pm_os \<Rightarrow> pm_process option \<Rightarrow> bool \<Rightarrow> bool \<Rightarrow> (int \<times> pm_map list option) pm" where
  "pm_process_maps os pr maps_out len =
     (case pr of None \<Rightarrow> pret (-1, None)
      | Some proc \<Rightarrow>
          if \<not> maps_out \<or> \<not> len then pret (-1, None)
          else if proc_maps proc = [] then pret (0, Some [])
          else
            pbnd (pm_alloc os) (\<lambda>ok.
            if \<not> ok then pbnd get_errno (\<lambda>e. pret (e, None)) else pret (0, Some (proc_maps proc))))"

definition pm_process_destroy :: "pm_process option \<Rightarrow> int pm" where
  "pm_process_destroy pr =
     (case pr of None \<Rightarrow> pret (-1) | Some proc \<Rightarrow> pbnd (pm_close (pagemap_fd proc)) (\<lambda>_. pret 0))"

section \<open>Reading the maps of a process\<close>

text \<open>
  The variables that \<^verbatim>\<open>sscanf\<close> fills in. Those of the map start at zero for every line; the
  buffers \<^verbatim>\<open>perms\<close> and \<^verbatim>\<open>name\<close> keep what an earlier line left in them, and hold nothing
  defined before that.
\<close>

record line_vars =
  lv_start :: u32
  lv_end :: u32
  lv_offset :: u32
  lv_perms :: "u8 option list"
  lv_name :: "bytes option"

definition store_perms :: "bytes \<Rightarrow> u8 option list \<Rightarrow> u8 option list res" where
  "store_perms t buf =
     (if length t < 5 then Inr (map Some (t @ [0]) @ drop (length t + 1) buf) else Inl Undefined)"

definition store_name :: "bytes \<Rightarrow> bytes res" where
  "store_name t = (if length t < 1024 then Inr t else Inl Undefined)"

text \<open>\<^verbatim>\<open>"%lx-%lx %s %lx %*s %*d %1024s"\<close>: scanning ends at the first directive that fails.\<close>

definition scan_maps_line :: "bytes \<Rightarrow> line_vars \<Rightarrow> line_vars res" where
  "scan_maps_line line v =
     (case scan_hex line of None \<Rightarrow> Inr v | Some (n, r) \<Rightarrow>
      bnd (store_ulong n) (\<lambda>x. let v = v\<lparr>lv_start := x\<rparr> in
     (case r of [] \<Rightarrow> Inr v | c # r \<Rightarrow> if c \<noteq> 45 then Inr v else
     (case scan_hex r of None \<Rightarrow> Inr v | Some (n, r) \<Rightarrow>
      bnd (store_ulong n) (\<lambda>x. let v = v\<lparr>lv_end := x\<rparr> in
     (case scan_str None r of None \<Rightarrow> Inr v | Some (t, r) \<Rightarrow>
      bnd (store_perms t (lv_perms v)) (\<lambda>p. let v = v\<lparr>lv_perms := p\<rparr> in
     (case scan_hex r of None \<Rightarrow> Inr v | Some (n, r) \<Rightarrow>
      bnd (store_ulong n) (\<lambda>x. let v = v\<lparr>lv_offset := x\<rparr> in
     (case scan_str None r of None \<Rightarrow> Inr v | Some (_, r) \<Rightarrow>
     (case scan_dec r of None \<Rightarrow> Inr v | Some (_, r) \<Rightarrow>
     (case scan_str (Some 1024) r of None \<Rightarrow> Inr v | Some (t, _) \<Rightarrow>
      bnd (store_name t) (\<lambda>nm. Inr (v\<lparr>lv_name := Some nm\<rparr>))))))))))))))"

definition perms_flags :: "u8 option list \<Rightarrow> u32 res" where
  "perms_flags p =
     (case (p ! 0, p ! 1, p ! 2) of
        (Some a, Some b, Some c) \<Rightarrow>
          Inr ((if a = 114 then 1 else 0) OR (if b = 119 then 2 else 0) OR (if c = 120 then 4 else 0))
      | _ \<Rightarrow> Inl Undefined)"

fun maps_loop :: "pm_os \<Rightarrow> bytes list \<Rightarrow> nat \<Rightarrow> line_vars \<Rightarrow> pm_map list \<Rightarrow> (int \<times> pm_map list) pm" where
  "maps_loop os [] sz v maps = pret (0, maps)"
| "maps_loop os (line # ls) sz v maps =
     pbnd (if sz \<le> length maps then pm_alloc os else pret True) (\<lambda>ok.
     if \<not> ok then pbnd get_errno (\<lambda>e. pret (e, []))
     else
       pbnd (pm_alloc os) (\<lambda>ok.
       if \<not> ok then plift (Inl Undefined)
       else
         pbnd (plift (scan_maps_line (takeWhile (\<lambda>c. c \<noteq> 0) line)
                        (v\<lparr>lv_start := 0, lv_end := 0, lv_offset := 0\<rparr>))) (\<lambda>v.
         (case lv_name v of
            None \<Rightarrow> plift (Inl Undefined)
          | Some nm \<Rightarrow>
              pbnd (pm_alloc os) (\<lambda>ok.
              if \<not> ok then pbnd get_errno (\<lambda>e. pret (e, []))
              else
                pbnd (plift (perms_flags (lv_perms v))) (\<lambda>fl.
                maps_loop os ls (if sz \<le> length maps then 2 * sz else sz) v
                  (maps @ [\<lparr>map_start = lv_start v, map_end = lv_end v, map_offset = lv_offset v,
                            map_flags = fl, map_name = nm\<rparr>])))))))"

definition fresh_vars :: line_vars where
  "fresh_vars = \<lparr>lv_start = 0, lv_end = 0, lv_offset = 0, lv_perms = replicate 5 None, lv_name = None\<rparr>"

definition read_maps :: "pm_os \<Rightarrow> int \<Rightarrow> (int \<times> pm_map list) pm" where
  "read_maps os pid =
     pbnd (pm_alloc os) (\<lambda>ok.
     if \<not> ok then pbnd get_errno (\<lambda>e. pret (e, []))
     else
       (case os_fopen os (proc_path pid ''/maps'') of
          Inl e \<Rightarrow> pbnd (set_errno e) (\<lambda>_. pret (e, []))
        | Inr text \<Rightarrow>
            pbnd (maps_loop os (fgets_lines 1022 text) 10 fresh_vars []) (\<lambda>(err, maps).
            if err \<noteq> 0 then pret (err, [])
            else
              pbnd (pm_shrink os (length maps)) (\<lambda>ok.
              if maps \<noteq> [] \<and> \<not> ok then pbnd get_errno (\<lambda>e. pret (e, [])) else pret (0, maps)))))"

text \<open>When the maps cannot be read, the descriptor stays open.\<close>

definition pm_process_create :: "pm_os \<Rightarrow> pm_kernel option \<Rightarrow> int \<Rightarrow> bool \<Rightarrow> (int \<times> pm_process option) pm" where
  "pm_process_create os ker pid proc_out =
     (case ker of None \<Rightarrow> pret (-1, None)
      | Some k \<Rightarrow>
          if \<not> proc_out then pret (-1, None)
          else
            pbnd (pm_alloc os) (\<lambda>ok.
            if \<not> ok then pbnd get_errno (\<lambda>e. pret (e, None))
            else
              pbnd (pm_open os (proc_path pid ''/pagemap'')) (\<lambda>fd. case fd of
                None \<Rightarrow> pbnd get_errno (\<lambda>e. pret (e, None))
              | Some fd \<Rightarrow>
                  pbnd (read_maps os pid) (\<lambda>(err, maps).
                  if err \<noteq> 0 then pret (err, None)
                  else pret (0, Some \<lparr>proc_ker = k, proc_pid = pid, proc_maps = maps, pagemap_fd = fd\<rparr>)))))"

section \<open>What the snapshot says\<close>

definition in_core :: "u64 \<Rightarrow> bool" where
  "in_core e \<longleftrightarrow> PM_PAGEMAP_PRESENT e \<noteq> 0 \<and> PM_PAGEMAP_SWAPPED e = 0"

definition frame :: "u64 \<Rightarrow> u32" where
  "frame e = ucast (PM_PAGEMAP_PFN e)"

text \<open>The entries of a map and whether they can be read.\<close>

definition map_entries :: "pm_os \<Rightarrow> pm_process \<Rightarrow> pm_map \<Rightarrow> u64 list" where
  "map_entries os proc m =
     (case os_read os (pagemap_fd proc) (range_off proc (map_start m)) (range_pages proc (map_start m) (map_end m)) of
        Inl _ \<Rightarrow> [] | Inr es \<Rightarrow> take (range_pages proc (map_start m) (map_end m)) es)"

definition readable :: "pm_os \<Rightarrow> pm_process \<Rightarrow> pm_map \<Rightarrow> bool" where
  "readable os proc m \<longleftrightarrow>
     map_start m < map_end m \<and> pagesize (proc_ker proc) \<noteq> 0 \<and>
     os_lseek os (pagemap_fd proc) (range_off proc (map_start m)) = None \<and>
     (case os_read os (pagemap_fd proc) (range_off proc (map_start m)) (range_pages proc (map_start m) (map_end m)) of
        Inl _ \<Rightarrow> False | Inr es \<Rightarrow> es = [] \<or> range_pages proc (map_start m) (map_end m) \<le> length es)"

text \<open>How often a frame is mapped, as \<^verbatim>\<open>/proc/kpagecount\<close> tells.\<close>

definition frame_count :: "pm_os \<Rightarrow> pm_kernel \<Rightarrow> u32 \<Rightarrow> u64 option" where
  "frame_count os ker f =
     (if os_lseek os (kpagecount_fd ker) (f * 8) = None
      then (case os_read os (kpagecount_fd ker) (f * 8) 1 of Inr (c # _) \<Rightarrow> Some c | _ \<Rightarrow> None)
      else None)"

definition map_frames :: "pm_os \<Rightarrow> pm_process \<Rightarrow> pm_map \<Rightarrow> u32 list" where
  "map_frames os proc m = map frame (filter in_core (map_entries os proc m))"

definition proc_frames :: "pm_os \<Rightarrow> pm_process \<Rightarrow> u32 list" where
  "proc_frames os proc = concat (map (map_frames os proc) (proc_maps proc))"

definition snapshot_ok :: "pm_os \<Rightarrow> pm_process \<Rightarrow> bool" where
  "snapshot_ok os proc \<longleftrightarrow>
     (\<forall>m \<in> set (proc_maps proc). readable os proc m) \<and>
     (\<forall>f \<in> set (proc_frames os proc). frame_count os (proc_ker proc) f \<noteq> None) \<and>
     unat (pagesize (proc_ker proc)) * length (proc_frames os proc) < 2 ^ 32"

text \<open>The use that frames mapped \<open>c\<^sub>1, c\<^sub>2, \<dots>\<close> times make up.\<close>

definition usage_is :: "nat \<Rightarrow> nat list \<Rightarrow> pm_memusage \<Rightarrow> bool" where
  "usage_is p cs u \<longleftrightarrow>
     unat (vss u) = p * length cs \<and> unat (rss u) = p * length (filter (\<lambda>c. 1 \<le> c) cs) \<and>
     unat (pss u) = sum_list (map (\<lambda>c. p div c) cs) \<and> unat (uss u) = p * length (filter (\<lambda>c. c = 1) cs)"

section \<open>Usage of a process\<close>

lemma pss_le: "sum_list (map (\<lambda>c. p div c) cs) \<le> p * length (filter (\<lambda>c. 1 \<le> c) (cs :: nat list))"
proof (induction cs)
  case (Cons c cs)
  then show ?case by (cases c) (simp_all add: add_le_mono div_le_dividend)
qed simp

lemma usage_parts_le:
  "sum_list (map (\<lambda>c. p div c) cs) \<le> p * length cs" "p * length (filter (\<lambda>c. 1 \<le> c) (cs :: nat list)) \<le> p * length cs"
  "p * length (filter (\<lambda>c. c = 1) cs) \<le> sum_list (map (\<lambda>c. p div c) cs)"
proof -
  show r: "p * length (filter (\<lambda>c. 1 \<le> c) cs) \<le> p * length cs" by simp
  show "sum_list (map (\<lambda>c. p div c) cs) \<le> p * length cs" using pss_le r by (rule order_trans)
  show "p * length (filter (\<lambda>c. c = 1) cs) \<le> sum_list (map (\<lambda>c. p div c) cs)" by (induction cs) auto
qed

lemma usage_is_zero: "usage_is p [] pm_memusage_zero"
  by (simp add: usage_is_def pm_memusage_zero_def)

lemma unat_add_is: "unat (a :: u32) + unat b = n \<Longrightarrow> n < 2 ^ 32 \<Longrightarrow> unat (a + b) = n"
  by (simp add: unat_add_le)

lemma usage_is_page:
  assumes u: "usage_is (unat p) cs u" and fits: "unat p * length (cs @ [unat c]) < 2 ^ 32"
  shows "usage_is (unat p) (cs @ [unat c]) (add_page p c (add_vss p u))"
proof -
  note le = usage_parts_le [where p = "unat p" and cs = "cs @ [unat c]"]
  have q: "unat (ucast (ucast p div c :: u64) :: u32) = unat p div unat c"
  proof -
    have "unat (ucast p div c :: u64) = unat p div unat c" by (simp add: unat_div unat_ucast_upcast)
    moreover have "unat p div unat c < 2 ^ 32" using unat_u32 [of p] by (meson div_le_dividend le_less_trans)
    ultimately show ?thesis by (simp add: unsigned_ucast_eq take_bit_nat_eq_self)
  qed
  have c1: "1 \<le> c \<longleftrightarrow> 1 \<le> unat c" "c = 1 \<longleftrightarrow> unat c = 1"
    by (simp add: word_le_nat_alt) (simp add: word_unat_eq_iff)
  note b = le_less_trans [OF le(1) fits] le_less_trans [OF le(2) fits] le_less_trans [OF order_trans [OF le(3,1)] fits]
  have "unat (vss u + p) = unat p * length (cs @ [unat c])"
    using u fits by (intro unat_add_is) (simp_all add: usage_is_def)
  moreover have "unat (rss u + (if 1 \<le> c then p else 0)) = unat p * length (filter (\<lambda>c. 1 \<le> c) (cs @ [unat c]))"
    using u by (intro unat_add_is b) (auto simp: usage_is_def c1)
  moreover have "unat (uss u + (if c = 1 then p else 0)) = unat p * length (filter (\<lambda>c. c = 1) (cs @ [unat c]))"
    using u by (intro unat_add_is b) (auto simp: usage_is_def c1)
  moreover have "unat (pss u + (if 1 \<le> c then ucast (ucast p div c :: u64) else 0)) = sum_list (map (\<lambda>c. unat p div c) (cs @ [unat c]))"
    using u q by (intro unat_add_is b) (auto simp: usage_is_def c1 not_le)
  ultimately show ?thesis by (simp add: usage_is_def add_page_def add_vss_def)
qed

lemma usage_is_add:
  assumes u: "usage_is p cs u" and v: "usage_is p ds v" and fits: "p * length (cs @ ds) < 2 ^ 32"
  shows "usage_is p (cs @ ds) (pm_memusage_add u v)"
proof -
  note le = usage_parts_le [where p = p and cs = "cs @ ds"]
  note b = le_less_trans [OF le(1) fits] le_less_trans [OF le(2) fits] le_less_trans [OF order_trans [OF le(3,1)] fits]
  have "unat (vss u + vss v) = p * length (cs @ ds)"
    using u v fits by (intro unat_add_is) (simp_all add: usage_is_def algebra_simps)
  moreover have "unat (rss u + rss v) = p * length (filter (\<lambda>c. 1 \<le> c) (cs @ ds))"
    using u v by (intro unat_add_is b) (simp_all add: usage_is_def algebra_simps)
  moreover have "unat (pss u + pss v) = sum_list (map (\<lambda>c. p div c) (cs @ ds))"
    using u v by (intro unat_add_is b) (simp_all add: usage_is_def)
  moreover have "unat (uss u + uss v) = p * length (filter (\<lambda>c. c = 1) (cs @ ds))"
    using u v by (intro unat_add_is b) (simp_all add: usage_is_def algebra_simps)
  ultimately show ?thesis by (simp add: usage_is_def pm_memusage_add_def)
qed

lemma count_read:
  assumes "frame_count os ker f = Some c"
  shows "pm_kernel_count os (Some ker) f True old s = Inr ((0, Some c), s)"
  using assms by (auto simp: frame_count_def pm_kernel_count_def read_entry_def pm_simps split: if_splits sum.splits list.splits)

lemma usage_loop_result:
  assumes "\<forall>f \<in> set (map frame (filter in_core es)). frame_count os ker f \<noteq> None"
    and "usage_is (unat (pagesize ker)) cs u"
    and "unat (pagesize ker) * (length cs + length (filter in_core es)) < 2 ^ 32"
  shows "\<exists>v. usage_loop os ker es cnt u s = Inr ((0, Some v), s) \<and>
           usage_is (unat (pagesize ker)) (cs @ map (\<lambda>f. unat (the (frame_count os ker f))) (map frame (filter in_core es))) v"
  using assms
proof (induction es arbitrary: cnt u cs)
  case Nil
  then show ?case by (simp add: pret_def)
next
  case (Cons e es)
  show ?case
  proof (cases "in_core e")
    case False
    then have skip: "PM_PAGEMAP_PRESENT e = 0 \<or> PM_PAGEMAP_SWAPPED e \<noteq> 0" by (simp add: in_core_def)
    show ?thesis using Cons.IH [of cs u cnt] Cons.prems False by (simp add: skip)
  next
    case True
    let ?p = "pagesize ker"
    obtain c where c: "frame_count os ker (frame e) = Some c" using Cons.prems(1) True by auto
    have page: "usage_is (unat ?p) (cs @ [unat c]) (add_page ?p c (add_vss ?p u))"
      using Cons.prems(2,3) True by (intro usage_is_page) (auto simp: algebra_simps intro: le_less_trans [rotated])
    have "\<exists>v. usage_loop os ker es (Some c) (add_page ?p c (add_vss ?p u)) s = Inr ((0, Some v), s) \<and>
        usage_is (unat ?p) ((cs @ [unat c]) @ map (\<lambda>f. unat (the (frame_count os ker f))) (map frame (filter in_core es))) v"
      using Cons.prems(1,3) True by (intro Cons.IH page) (auto simp: algebra_simps)
    moreover have "usage_loop os ker (e # es) cnt u s = usage_loop os ker es (Some c) (add_page ?p c (add_vss ?p u)) s"
      using True count_read [OF c, of cnt s] by (simp add: in_core_def frame_def [symmetric] pbnd_def)
    ultimately show ?thesis using True c by simp
  qed
qed

lemma pm_map_usage_result:
  assumes ok: "readable os proc m" and known: "\<forall>f \<in> set (map_frames os proc m). frame_count os (proc_ker proc) f \<noteq> None"
    and mem: "\<not> os_oom os (pm_allocs s)"
    and fits: "unat (pagesize (proc_ker proc)) * length (map_frames os proc m) < 2 ^ 32"
  shows "\<exists>v. pm_map_usage os (Some (proc, m)) True s = Inr ((0, Some v), s\<lparr>pm_allocs := pm_allocs s + 1\<rparr>) \<and>
           usage_is (unat (pagesize (proc_ker proc)))
             (map (\<lambda>f. unat (the (frame_count os (proc_ker proc) f))) (map_frames os proc m)) v"
proof -
  let ?s = "s\<lparr>pm_allocs := pm_allocs s + 1\<rparr>" and ?es = "map_entries os proc m"
  have rd: "pm_map_pagemap os (Some (proc, m)) s = Inr ((0, Some ?es), ?s)"
    using ok mem
    by (auto simp: readable_def pm_map_pagemap_def pm_process_pagemap_range_def map_entries_def pm_alloc_def pm_simps Let_def
        not_le not_less split: sum.splits)
  have "\<exists>v. usage_loop os (proc_ker proc) ?es None pm_memusage_zero ?s = Inr ((0, Some v), ?s) \<and>
      usage_is (unat (pagesize (proc_ker proc)))
        ([] @ map (\<lambda>f. unat (the (frame_count os (proc_ker proc) f))) (map frame (filter in_core ?es))) v"
    using known fits by (intro usage_loop_result usage_is_zero) (simp_all add: map_frames_def)
  then show ?thesis by (simp add: pm_map_usage_def pbnd_def rd map_frames_def)
qed

definition counts :: "pm_os \<Rightarrow> pm_kernel \<Rightarrow> u32 list \<Rightarrow> nat list" where
  "counts os ker = map (\<lambda>f. unat (the (frame_count os ker f)))"

lemma counts_append [simp]: "counts os ker (fs @ gs) = counts os ker fs @ counts os ker gs" "counts os ker [] = []"
  "length (counts os ker fs) = length fs"
  by (simp_all add: counts_def)

lemma sum_maps_result:
  assumes "\<forall>m \<in> set ms. readable os proc m" and mem: "\<forall>n. \<not> os_oom os n"
    and "\<forall>f \<in> set (concat (map (map_frames os proc) ms)). frame_count os (proc_ker proc) f \<noteq> None"
    and "usage_is (unat (pagesize (proc_ker proc))) cs u"
    and "unat (pagesize (proc_ker proc)) * (length cs + length (concat (map (map_frames os proc) ms))) < 2 ^ 32"
  shows "\<exists>v s'. sum_maps (pm_map_usage os) proc ms mu u s = Inr ((0, Some v), s') \<and>
           usage_is (unat (pagesize (proc_ker proc))) (cs @ counts os (proc_ker proc) (concat (map (map_frames os proc) ms))) v"
  using assms(1,3-)
proof (induction ms arbitrary: mu u cs s)
  case Nil
  then show ?case by (simp add: pret_def)
next
  case (Cons m ms)
  let ?p = "unat (pagesize (proc_ker proc))" and ?fs = "map_frames os proc m"
  have fits: "?p * length ?fs < 2 ^ 32" "?p * (length cs + length ?fs) < 2 ^ 32"
    using Cons.prems(4) by (auto intro: le_less_trans [rotated])
  obtain v where v: "pm_map_usage os (Some (proc, m)) True s = Inr ((0, Some v), s\<lparr>pm_allocs := pm_allocs s + 1\<rparr>)"
    and vu: "usage_is ?p (counts os (proc_ker proc) ?fs) v"
    using pm_map_usage_result [of os proc m s] Cons.prems(1,2) mem fits(1) by (auto simp: counts_def)
  have "usage_is ?p (cs @ counts os (proc_ker proc) ?fs) (pm_memusage_add u v)"
    using Cons.prems(3) vu fits(2) by (intro usage_is_add) simp_all
  then have "\<exists>w s'. sum_maps (pm_map_usage os) proc ms (Some v) (pm_memusage_add u v) (s\<lparr>pm_allocs := pm_allocs s + 1\<rparr>)
        = Inr ((0, Some w), s') \<and>
      usage_is ?p ((cs @ counts os (proc_ker proc) ?fs) @ counts os (proc_ker proc) (concat (map (map_frames os proc) ms))) w"
    using Cons.prems(1,2,4) by (intro Cons.IH) (simp_all add: algebra_simps)
  then show ?case by (simp add: pbnd_def v)
qed

lemma pm_process_usage_result:
  assumes "snapshot_ok os proc" and "\<forall>n. \<not> os_oom os n"
  shows "\<exists>v s'. pm_process_usage os (Some proc) True s = Inr ((0, Some v), s') \<and>
           usage_is (unat (pagesize (proc_ker proc))) (counts os (proc_ker proc) (proc_frames os proc)) v"
  using sum_maps_result [of "proc_maps proc" os proc "[]" pm_memusage_zero None s] assms usage_is_zero
  by (simp add: snapshot_ok_def proc_frames_def pm_process_usage_def)

lemma usage_is_unique: "usage_is p cs u \<Longrightarrow> usage_is p cs v \<Longrightarrow> u = v"
  by (cases u; cases v) (simp add: usage_is_def word_unat_eq_iff)

lemma usage_is_ordered: "usage_is p cs u \<Longrightarrow> uss u \<le> pss u \<and> pss u \<le> rss u \<and> rss u \<le> vss u"
  using usage_parts_le [of p cs] pss_le [of p cs] by (simp add: usage_is_def word_le_nat_alt)

section \<open>Usage of all processes\<close>

lemma shares_of_frames:
  fixes fs :: "'a list" and p :: nat
  defines "t \<equiv> sum_list (map (\<lambda>f. p div count_list fs f) fs)"
  shows "t \<le> p * card (set fs)" and "p * card (set fs) \<le> t + (length fs - card (set fs))"
proof -
  let ?c = "count_list fs"
  have t: "t = (\<Sum>f \<in> set fs. ?c f * (p div ?c f))" by (simp add: t_def sum_list_map_eq_sum_count)
  have "t \<le> (\<Sum>f \<in> set fs. p)" unfolding t by (intro sum_mono) (simp add: mult.commute)
  then show "t \<le> p * card (set fs)" by (simp add: mult.commute)
  have pos: "1 \<le> ?c f" if "f \<in> set fs" for f using that by (metis count_list_0_iff less_one not_le)
  have len: "length fs = (\<Sum>f \<in> set fs. ?c f)" by (simp add: sum_count_set)
  have share: "p \<le> ?c f * (p div ?c f) + (?c f - 1)" if "f \<in> set fs" for f
  proof -
    have "p mod ?c f < ?c f" using pos [OF that] by (intro mod_less_divisor) simp
    then have "p mod ?c f \<le> ?c f - 1" by simp
    then have "?c f * (p div ?c f) + p mod ?c f \<le> ?c f * (p div ?c f) + (?c f - 1)" by (rule add_left_mono)
    then show ?thesis by (simp only: mult_div_mod_eq)
  qed
  have "(\<Sum>f \<in> set fs. p) \<le> (\<Sum>f \<in> set fs. ?c f * (p div ?c f) + (?c f - 1))" by (intro sum_mono share)
  also have "\<dots> = t + (\<Sum>f \<in> set fs. ?c f - 1)" by (simp add: t sum.distrib)
  also have "(\<Sum>f \<in> set fs. ?c f - 1) = length fs - card (set fs)"
    using pos by (simp add: len sum_subtractf_nat)
  finally show "p * card (set fs) \<le> t + (length fs - card (set fs))" by (simp add: mult.commute)
qed

lemma singles_card:
  fixes fs :: "'a list"
  shows "length (filter (\<lambda>f. count_list fs f = 1) fs) = card {f \<in> set fs. count_list fs f = 1}"
proof -
  have "length (filter P xs) = sum_list (map (\<lambda>x. if P x then 1 else 0) xs)" for P and xs :: "'a list"
    by (induction xs) auto
  then have "length (filter (\<lambda>f. count_list fs f = 1) fs) = (\<Sum>f \<in> set fs. count_list fs f * (if count_list fs f = 1 then 1 else 0))"
    by (simp only: sum_list_map_eq_sum_count)
  also have "\<dots> = (\<Sum>f \<in> set fs. if count_list fs f = 1 then 1 else 0)" by (intro sum.cong) auto
  also have "\<dots> = card {f \<in> set fs. count_list fs f = 1}" by (simp add: sum.inter_filter [symmetric])
  finally show ?thesis .
qed

text \<open>Shares by the kernel's counts, when these say how often a list of frames holds each of its elements.\<close>

lemma counted_shares:
  assumes cnt: "\<forall>f \<in> set fs. map_option unat (frame_count os ker f) = Some (count_list fs f)"
  shows "sum_list (map (\<lambda>c. p div c) (counts os ker fs)) \<le> p * card (set fs)"
    and "p * card (set fs) \<le> sum_list (map (\<lambda>c. p div c) (counts os ker fs)) + (length fs - card (set fs))"
    and "length (filter (\<lambda>c. c = 1) (counts os ker fs)) = card {f \<in> set fs. count_list fs f = 1}"
proof -
  have "counts os ker fs = map (count_list fs) fs" unfolding counts_def
    by (rule map_cong [OF refl]) (use cnt in fastforce)
  then have p: "sum_list (map (\<lambda>c. p div c) (counts os ker fs)) = sum_list (map (\<lambda>f. p div count_list fs f) fs)"
    and u: "length (filter (\<lambda>c. c = 1) (counts os ker fs)) = length (filter (\<lambda>f. count_list fs f = 1) fs)"
    by (simp_all add: comp_def filter_map)
  show "sum_list (map (\<lambda>c. p div c) (counts os ker fs)) \<le> p * card (set fs)"
    and "p * card (set fs) \<le> sum_list (map (\<lambda>c. p div c) (counts os ker fs)) + (length fs - card (set fs))"
    unfolding p by (rule shares_of_frames)+
  show "length (filter (\<lambda>c. c = 1) (counts os ker fs)) = card {f \<in> set fs. count_list fs f = 1}"
    unfolding u by (rule singles_card)
qed

lemma usages_exist:
  assumes "\<forall>proc \<in> set procs. proc_ker proc = ker \<and> snapshot_ok os proc" and "\<forall>n. \<not> os_oom os n"
  shows "\<exists>us. list_all2 (\<lambda>proc u. usage_is (unat (pagesize ker)) (counts os ker (proc_frames os proc)) u \<and>
           (\<forall>s. \<exists>s'. pm_process_usage os (Some proc) True s = Inr ((0, Some u), s'))) procs us"
  using assms(1)
proof (induction procs)
  case (Cons proc procs)
  have ker: "proc_ker proc = ker" using Cons.prems by simp
  have "snapshot_ok os proc" using Cons.prems by simp
  note r = pm_process_usage_result [OF this assms(2), unfolded ker]
  obtain u where u: "usage_is (unat (pagesize ker)) (counts os ker (proc_frames os proc)) u"
    using r [of undefined] by blast
  have "\<forall>s. \<exists>s'. pm_process_usage os (Some proc) True s = Inr ((0, Some u), s')"
    using r usage_is_unique [OF u] by blast
  then show ?case using Cons u by (auto intro: exI [of _ "u # _"])
qed (auto intro: exI [of _ "[]"])

text \<open>
  C13. Proportional shares account for memory. When the kernel's counts say how often each frame is mapped
  by the given processes, \<^verbatim>\<open>pm_process_usage\<close> succeeds for each of them and orders its four figures;
  the proportional shares of all processes sum up to the size of the frames they map, except for what the
  divisions round off, which is less than one byte for every mapping of a frame beyond its first; and
  the unique shares sum up to exactly the frames mapped once.
\<close>

theorem pss_accounts_memory:
  assumes ok: "\<forall>proc \<in> set procs. proc_ker proc = ker \<and> snapshot_ok os proc" and mem: "\<forall>n. \<not> os_oom os n"
    and cnt: "\<forall>f \<in> set (concat (map (proc_frames os) procs)).
       map_option unat (frame_count os ker f) = Some (count_list (concat (map (proc_frames os) procs)) f)"
  shows "\<exists>us. list_all2 (\<lambda>proc u. \<forall>s. \<exists>s'. pm_process_usage os (Some proc) True s = Inr ((0, Some u), s')) procs us \<and>
     (\<forall>u \<in> set us. uss u \<le> pss u \<and> pss u \<le> rss u \<and> rss u \<le> vss u) \<and>
     (let fs = concat (map (proc_frames os) procs); size = unat (pagesize ker) * card (set fs);
          total = sum_list (map (unat \<circ> pss) us) in
      total \<le> size \<and> size \<le> total + (length fs - card (set fs)) \<and>
      sum_list (map (unat \<circ> uss) us) = unat (pagesize ker) * card {f \<in> set fs. count_list fs f = 1})"
proof -
  let ?p = "unat (pagesize ker)" and ?fs = "concat (map (proc_frames os) procs)"
  obtain us where us: "list_all2 (\<lambda>proc u. usage_is ?p (counts os ker (proc_frames os proc)) u \<and>
           (\<forall>s. \<exists>s'. pm_process_usage os (Some proc) True s = Inr ((0, Some u), s'))) procs us"
    using usages_exist [OF ok mem] by blast
  have run: "list_all2 (\<lambda>proc u. \<forall>s. \<exists>s'. pm_process_usage os (Some proc) True s = Inr ((0, Some u), s')) procs us"
    using us by (rule list_all2_mono) blast
  have "\<forall>u \<in> set us. \<exists>cs. usage_is ?p cs u"
    using us by (metis (no_types, lifting) in_set_conv_nth list_all2_conv_all_nth)
  then have ord: "\<forall>u \<in> set us. uss u \<le> pss u \<and> pss u \<le> rss u \<and> rss u \<le> vss u"
    using usage_is_ordered by blast
  have sums: "sum_list (map (unat \<circ> pss) us) = sum_list (map (\<lambda>c. ?p div c) (counts os ker ?fs)) \<and>
      sum_list (map (unat \<circ> uss) us) = ?p * length (filter (\<lambda>c. c = 1) (counts os ker ?fs))"
    using us by (induction rule: list_all2_induct) (simp_all add: usage_is_def distrib_left)
  show ?thesis using run ord sums counted_shares(1,2) [OF cnt, of ?p] counted_shares(3) [OF cnt] by (auto simp only: Let_def)
qed

text \<open>Two processes that share the frame 5; the first one also maps the frame 6.\<close>

definition sample_pm_os :: pm_os where
  "sample_pm_os = \<lparr>os_open = (\<lambda>_. Inl 2), os_fopen = (\<lambda>_. Inl 2), os_proc_dir = Inl 2, os_lseek = (\<lambda>_ _. None),
     os_read = (\<lambda>fd off n. Inr (if fd = 3 then [if off = 40 then 2 else 1]
       else if fd = 10 then [0x8000000000000005, 0x8000000000000006] else [0x8000000000000005])),
     os_pagesize = 4096, os_oom = (\<lambda>_. False), os_realloc_zero = True\<rparr>"

definition sample_ker :: pm_kernel where
  "sample_ker = \<lparr>kpagecount_fd = 3, kpageflags_fd = 4, pagesize = 4096\<rparr>"

definition sample_proc :: "int \<Rightarrow> u32 \<Rightarrow> pm_process" where
  "sample_proc fd e = \<lparr>proc_ker = sample_ker, proc_pid = fd,
     proc_maps = [\<lparr>map_start = 0x1000, map_end = e, map_offset = 0, map_flags = 1, map_name = [97]\<rparr>], pagemap_fd = fd\<rparr>"

theorem pss_accounts_memory_witness:
  "\<exists>us. list_all2 (\<lambda>proc u. \<forall>s. \<exists>s'. pm_process_usage sample_pm_os (Some proc) True s = Inr ((0, Some u), s'))
       [sample_proc 10 0x3000, sample_proc 11 0x2000] us \<and>
     sum_list (map (unat \<circ> pss) us) \<le> 8192 \<and> 8192 \<le> sum_list (map (unat \<circ> pss) us) + 1 \<and>
     sum_list (map (unat \<circ> uss) us) = 4096"
proof -
  let ?ps = "[sample_proc 10 0x3000, sample_proc 11 0x2000]"
  note defs = sample_proc_def sample_ker_def sample_pm_os_def
  have core: "in_core 0x8000000000000005" "in_core 0x8000000000000006" "frame 0x8000000000000005 = 5" "frame 0x8000000000000006 = 6"
    by code_simp+
  have fs: "proc_frames sample_pm_os (sample_proc 10 0x3000) = [5, 6]" "proc_frames sample_pm_os (sample_proc 11 0x2000) = [5]"
    by (simp_all add: proc_frames_def map_frames_def map_entries_def range_pages_def defs core)
  have cnt: "frame_count sample_pm_os sample_ker 5 = Some 2" "frame_count sample_pm_os sample_ker 6 = Some 1"
    by (simp_all add: frame_count_def defs)
  have ok: "\<forall>proc \<in> set ?ps. proc_ker proc = sample_ker \<and> snapshot_ok sample_pm_os proc"
    using fs cnt by (simp add: snapshot_ok_def) (simp add: readable_def range_pages_def defs)
  have mem: "\<forall>n. \<not> os_oom sample_pm_os n" by (simp add: sample_pm_os_def)
  have c: "\<forall>f \<in> set (concat (map (proc_frames sample_pm_os) ?ps)).
      map_option unat (frame_count sample_pm_os sample_ker f) = Some (count_list (concat (map (proc_frames sample_pm_os) ?ps)) f)"
    by (simp add: fs cnt)
  have con: "concat (map (proc_frames sample_pm_os) ?ps) = [5, 6, 5]" by (simp add: fs)
  have single: "{f \<in> set [5, 6, 5 :: u32]. count_list [5, 6, 5] f = 1} = {6}" by auto
  have "set [5, 6, 5 :: u32] = {5, 6}" by auto
  then have two: "card (set [5, 6, 5 :: u32]) = 2" by simp
  have p: "unat (pagesize sample_ker) = 4096" by (simp add: sample_ker_def)
  show ?thesis
    using pss_accounts_memory [OF ok mem c] unfolding con single two p Let_def by auto
qed

section \<open>The format of the maps file\<close>

text \<open>A line as the kernel prints it: \<^verbatim>\<open>%08lx-%08lx %c%c%c%c %08llx %02x:%02x %lu \<close>, then, for a
  mapping with a name, spaces and the name.\<close>

record maps_entry =
  me_start :: u32
  me_end :: u32
  me_perms :: bytes
  me_off :: u32
  me_major :: nat
  me_minor :: nat
  me_inode :: nat
  me_pad :: nat
  me_name :: "bytes option"

definition maps_line :: "maps_entry \<Rightarrow> bytes" where
  "maps_line e =
     hex_padded 8 (unat (me_start e)) @ 45 # hex_padded 8 (unat (me_end e)) @ 32 # me_perms e @
     32 # hex_padded 8 (unat (me_off e)) @ 32 # (hex_padded 2 (me_major e) @ 58 # hex_padded 2 (me_minor e)) @
     32 # decimal (me_inode e) @ 32 # (case me_name e of None \<Rightarrow> [] | Some nm \<Rightarrow> replicate (me_pad e) 32 @ nm)"

definition word_ok :: "bytes \<Rightarrow> bool" where
  "word_ok t \<longleftrightarrow> t \<noteq> [] \<and> (\<forall>c \<in> set t. c \<noteq> 0 \<and> \<not> is_space c)"

text \<open>
  A name that the kernel prints: it may hold blanks, as in \<^verbatim>\<open>/dev/ashmem/x (deleted)\<close>, but does not
  start with one, and a newline in it is printed as \<^verbatim>\<open>\012\<close>. The \<^verbatim>\<open>%s\<close> of the library reads its first word.
\<close>

definition name_ok :: "bytes \<Rightarrow> bool" where
  "name_ok t \<longleftrightarrow> t \<noteq> [] \<and> \<not> is_space (hd t) \<and> (\<forall>c \<in> set t. c \<noteq> 0 \<and> c \<noteq> 10)"

definition first_word :: "bytes \<Rightarrow> bytes" where
  "first_word t = takeWhile (\<lambda>c. \<not> is_space c) t"

definition maps_entry_ok :: "maps_entry \<Rightarrow> bool" where
  "maps_entry_ok e \<longleftrightarrow>
     word_ok (me_perms e) \<and> length (me_perms e) = 4 \<and> (case me_name e of None \<Rightarrow> True | Some nm \<Rightarrow> name_ok nm) \<and>
     length (maps_line e) \<le> 1022"

text \<open>The maps the library makes of the lines, each under the first word of its name; \<open>nm\<close> is the name left
  over from the lines before.\<close>

fun named_maps :: "bytes option \<Rightarrow> maps_entry list \<Rightarrow> pm_map list" where
  "named_maps nm [] = []"
| "named_maps nm (e # es) =
     (let nm = (case me_name e of None \<Rightarrow> nm | Some n \<Rightarrow> Some (first_word n)) in
      \<lparr>map_start = me_start e, map_end = me_end e, map_offset = me_off e,
        map_flags = (if me_perms e ! 0 = 114 then 1 else 0) OR (if me_perms e ! 1 = 119 then 2 else 0)
                    OR (if me_perms e ! 2 = 120 then 4 else 0),
        map_name = the nm\<rparr> # named_maps nm es)"

lemma hex_store: "store_ulong (False, unat (w :: u32)) = Inr w"
  using unat_u32 [of w] by (simp add: store_ulong_def)

lemma word_ok_hex: "\<forall>d \<in> set t. is_hex d \<Longrightarrow> \<forall>d \<in> set t. d \<noteq> 0 \<and> \<not> is_space d"
proof -
  have "\<not> is_hex 0" by code_simp
  then show "\<forall>d \<in> set t. is_hex d \<Longrightarrow> \<forall>d \<in> set t. d \<noteq> 0 \<and> \<not> is_space d" using is_hex_plain by metis
qed

lemma device_word: "word_ok (hex_padded 2 a @ 58 # hex_padded 2 b)"
  using word_ok_hex [OF hex_padded_spec(2)] by (auto simp: word_ok_def is_space_def)

lemma scan_device: "scan_str None (hex_padded 2 a @ 58 # hex_padded 2 b @ 32 # r) = Some (hex_padded 2 a @ 58 # hex_padded 2 b, 32 # r)"
  using scan_str_word [of "hex_padded 2 a @ 58 # hex_padded 2 b" "32 # r" None] device_word [of a b]
  by (simp add: word_ok_def is_space_def)

lemma scan_str_spaces: "scan_str w (replicate k 32 @ r) = scan_str w r"
  by (induction k) (simp_all add: is_space_def)

lemma scan_word: "word_ok t \<Longrightarrow> is_space c \<Longrightarrow> scan_str None (t @ c # r) = Some (t, c # r)"
  using scan_str_word [of t "c # r" None] by (simp add: word_ok_def)

lemma scan_padded: "\<not> is_hex c \<Longrightarrow> c \<noteq> 120 \<Longrightarrow> c \<noteq> 88 \<Longrightarrow> scan_hex (hex_padded w n @ c # r) = Some ((False, n), c # r)"
  using scan_hex_digits [of "hex_padded w n" "c # r"] by (simp add: hex_padded_spec)

lemma scan_name:
  assumes "case nm of None \<Rightarrow> True | Some t \<Rightarrow> name_ok t \<and> length t < 1024"
  shows "scan_str (Some 1024) ((case nm of None \<Rightarrow> [] | Some t \<Rightarrow> replicate k 32 @ t) @ [10]) =
    (case nm of None \<Rightarrow> None | Some t \<Rightarrow> Some (first_word t, dropWhile (\<lambda>c. \<not> is_space c) t @ [10]))"
proof (cases nm)
  case None
  then show ?thesis by (simp add: scan_str_blank is_space_def)
next
  case (Some t)
  let ?r = "dropWhile (\<lambda>c. \<not> is_space c) t @ [10]"
  have t: "t @ [10] = first_word t @ ?r" by (simp add: first_word_def)
  have "first_word t \<noteq> []" using assms Some by (cases t) (auto simp: name_ok_def first_word_def)
  moreover have "\<forall>c \<in> set (first_word t). \<not> is_space c" by (auto simp: first_word_def dest: set_takeWhileD)
  moreover have "?r = [] \<or> is_space (hd ?r)"
  proof (cases "dropWhile (\<lambda>c. \<not> is_space c) t")
    case Nil
    show ?thesis unfolding Nil by (simp add: is_space_def)
  next
    case (Cons c cs)
    then show ?thesis using hd_dropWhile [of "\<lambda>c. \<not> is_space c" t] by simp
  qed
  moreover have "length (first_word t) \<le> length t" by (simp add: first_word_def length_takeWhile_le)
  then have "length (first_word t) \<le> 1024" using assms Some by simp
  ultimately have "scan_str (Some 1024) (t @ [10]) = Some (first_word t, ?r)"
    unfolding t by (intro scan_str_word) simp_all
  then show ?thesis using Some by (simp add: scan_str_spaces)
qed

lemma scan_maps_line_back:
  assumes e: "maps_entry_ok e" and p: "length (lv_perms v) = 5"
  shows "scan_maps_line (maps_line e @ [10]) v =
    Inr (v\<lparr>lv_start := me_start e, lv_end := me_end e, lv_offset := me_off e, lv_perms := map Some (me_perms e @ [0]),
           lv_name := (case me_name e of None \<Rightarrow> lv_name v | Some n \<Rightarrow> Some (first_word n))\<rparr>)"
proof -
  have sp: "is_space 32" "\<not> is_hex 45" "\<not> is_hex 32" "\<not> is_digit 32" by code_simp+
  have dec: "scan_dec (decimal n @ 32 # r) = Some ((False, n), 32 # r)" for n r
    using scan_dec_decimal [of "32 # r" n] sp by simp
  have len: "case me_name e of None \<Rightarrow> True | Some t \<Rightarrow> name_ok t \<and> length t < 1024"
    using e by (auto simp: maps_entry_ok_def maps_line_def split: option.splits)
  have perms: "word_ok (me_perms e)" "store_perms (me_perms e) (lv_perms v) = Inr (map Some (me_perms e @ [0]))"
    using e p by (simp_all add: maps_entry_ok_def store_perms_def)
  have "scan_maps_line (maps_line e @ [10]) v =
      (case (case me_name e of None \<Rightarrow> None
             | Some t \<Rightarrow> Some (first_word t, dropWhile (\<lambda>c. \<not> is_space c) t @ [10 :: u8])) of
         None \<Rightarrow> Inr (v\<lparr>lv_start := me_start e, lv_end := me_end e, lv_perms := map Some (me_perms e @ [0]), lv_offset := me_off e\<rparr>)
       | Some (t, _) \<Rightarrow> bnd (store_name t) (\<lambda>nm. Inr (v\<lparr>lv_start := me_start e, lv_end := me_end e,
           lv_perms := map Some (me_perms e @ [0]), lv_offset := me_off e, lv_name := Some nm\<rparr>)))"
    unfolding scan_maps_line_def maps_line_def append_assoc append_Cons
    by (simp add: scan_padded scan_word sp hex_store perms scan_device dec scan_name [OF len] Let_def del: map_append)
  moreover have "length (first_word t) < 1024" if "length t < 1024" for t
    using that length_takeWhile_le [of "\<lambda>c. \<not> is_space c" t] by (simp add: first_word_def)
  ultimately show ?thesis using len by (auto simp: store_name_def split: option.splits)
qed

lemma maps_line_chars:
  assumes "maps_entry_ok e"
  shows "\<forall>c \<in> set (maps_line e). c \<noteq> 0 \<and> c \<noteq> 10"
proof -
  have w: "\<forall>c \<in> set t. c \<noteq> 0 \<and> c \<noteq> 10" if "\<forall>c \<in> set t. c \<noteq> 0 \<and> \<not> is_space c" for t
    using that by (auto simp: is_space_def)
  have h: "\<forall>c \<in> set (hex_padded k n). c \<noteq> 0 \<and> c \<noteq> 10" for k n
    by (intro w word_ok_hex hex_padded_spec(2))
  have "\<not> is_digit 0" "\<not> is_digit 10" by code_simp+
  then have d: "\<forall>c \<in> set (decimal n). c \<noteq> 0 \<and> c \<noteq> 10" for n using decimal_spec [of n] by metis
  have "\<forall>c \<in> set (me_perms e). c \<noteq> 0 \<and> c \<noteq> 10" using assms by (intro w) (simp add: maps_entry_ok_def word_ok_def)
  moreover have "\<forall>c \<in> set (case me_name e of None \<Rightarrow> [] | Some nm \<Rightarrow> replicate (me_pad e) 32 @ nm). c \<noteq> 0 \<and> c \<noteq> 10"
    using assms by (auto simp: maps_entry_ok_def name_ok_def split: option.splits)
  ultimately show ?thesis
    unfolding maps_line_def set_append list.set(2) ball_Un ball_simps(7) using h d by (intro conjI) simp_all
qed

definition step_vars :: "maps_entry \<Rightarrow> line_vars \<Rightarrow> line_vars" where
  "step_vars e v = v\<lparr>lv_start := me_start e, lv_end := me_end e, lv_offset := me_off e,
     lv_perms := map Some (me_perms e @ [0]), lv_name := (case me_name e of None \<Rightarrow> lv_name v | Some n \<Rightarrow> Some (first_word n))\<rparr>"

lemma pm_alloc_ok: "\<forall>n. \<not> os_oom os n \<Longrightarrow> pm_alloc os s = Inr (True, s\<lparr>pm_allocs := pm_allocs s + 1\<rparr>)"
  by (simp add: pm_alloc_def)

lemma maps_loop_line:
  assumes e: "maps_entry_ok e" and p: "length (lv_perms v) = 5" and mem: "\<forall>n. \<not> os_oom os n"
  shows "\<exists>s' sz'. maps_loop os ((maps_line e @ [10]) # ls) sz v maps s =
    (case lv_name (step_vars e v) of None \<Rightarrow> Inl Undefined
     | Some nm \<Rightarrow> maps_loop os ls sz' (step_vars e v) (maps @ named_maps (lv_name v) [e]) s')"
proof -
  have "takeWhile (\<lambda>c. c \<noteq> 0) (maps_line e @ [10]) = maps_line e @ [10]"
    using maps_line_chars [OF e] by (auto simp: takeWhile_eq_all_conv)
  moreover have "scan_maps_line (maps_line e @ [10]) (v\<lparr>lv_start := 0, lv_end := 0, lv_offset := 0\<rparr>) = Inr (step_vars e v)"
    using scan_maps_line_back [OF e, of "v\<lparr>lv_start := 0, lv_end := 0, lv_offset := 0\<rparr>"] p
    by (cases "me_name e") (simp_all add: step_vars_def)
  moreover have "perms_flags (lv_perms (step_vars e v)) =
      Inr ((if me_perms e ! 0 = 114 then 1 else 0) OR (if me_perms e ! 1 = 119 then 2 else 0) OR (if me_perms e ! 2 = 120 then 4 else 0))"
    using e by (simp add: perms_flags_def step_vars_def maps_entry_ok_def nth_append)
  moreover have "lv_start (step_vars e v) = me_start e" "lv_end (step_vars e v) = me_end e" "lv_offset (step_vars e v) = me_off e"
    "lv_name (step_vars e v) = (case me_name e of None \<Rightarrow> lv_name v | Some n \<Rightarrow> Some (first_word n))"
    by (simp_all add: step_vars_def)
  ultimately show ?thesis
    by (cases "me_name e"; cases "lv_name v"; cases "sz \<le> length maps") (simp_all add: pm_simps pm_alloc_ok [OF mem], blast+)
qed

lemma maps_loop_back:
  assumes "\<forall>e \<in> set es. maps_entry_ok e" and mem: "\<forall>n. \<not> os_oom os n" and "length (lv_perms v) = 5" and "lv_name v \<noteq> None"
  shows "\<exists>s'. maps_loop os (map (\<lambda>e. maps_line e @ [10]) es) sz v maps s = Inr ((0, maps @ named_maps (lv_name v) es), s')"
  using assms(1,3,4)
proof (induction es arbitrary: sz v maps s)
  case Nil
  then show ?case by (simp add: pret_def)
next
  case (Cons e es)
  have e: "maps_entry_ok e" using Cons.prems by simp
  obtain nm where nm: "lv_name (step_vars e v) = Some nm"
    using Cons.prems(3) by (cases "me_name e") (auto simp: step_vars_def)
  obtain s1 sz1 where step: "maps_loop os ((maps_line e @ [10]) # map (\<lambda>e. maps_line e @ [10]) es) sz v maps s =
      maps_loop os (map (\<lambda>e. maps_line e @ [10]) es) sz1 (step_vars e v) (maps @ named_maps (lv_name v) [e]) s1"
    using maps_loop_line [OF e Cons.prems(2) mem, of "map (\<lambda>e. maps_line e @ [10]) es" sz maps s] nm by auto
  have "length (lv_perms (step_vars e v)) = 5" using e by (simp add: step_vars_def maps_entry_ok_def)
  then obtain s2 where "maps_loop os (map (\<lambda>e. maps_line e @ [10]) es) sz1 (step_vars e v) (maps @ named_maps (lv_name v) [e]) s1 =
      Inr ((0, (maps @ named_maps (lv_name v) [e]) @ named_maps (lv_name (step_vars e v)) es), s2)"
    using Cons.IH [of "step_vars e v" sz1 "maps @ named_maps (lv_name v) [e]" s1] Cons.prems(1) nm by auto
  moreover have "lv_name (step_vars e v) = (case me_name e of None \<Rightarrow> lv_name v | Some n \<Rightarrow> Some (first_word n))" by (simp add: step_vars_def)
  ultimately show ?case using step by (simp add: Let_def del: maps_loop.simps)
qed

text \<open>
  C14. Reading back the maps file that the kernel prints for a list of mappings, with lines of at most 1022
  bytes, gives these mappings, in order, with their addresses, offsets and access rights. Each mapping with
  a name gets the first word of its name (a name with a blank in it, such as that of a deleted file, is
  cut there), but a mapping without one gets the name of the last named mapping before it, and if there is
  none the code reads an uninitialised buffer.
\<close>

theorem maps_read_back:
  assumes es: "\<forall>e \<in> set es. maps_entry_ok e" and mem: "\<forall>n. \<not> os_oom os n"
    and content: "os_fopen os (proc_path pid ''/maps'') = Inr (concat (map (\<lambda>e. maps_line e @ [10]) es))"
  shows "\<exists>s'. read_maps os pid s =
    (if es \<noteq> [] \<and> me_name (hd es) = None then Inl Undefined else Inr ((0, named_maps None es), s'))"
proof -
  have "\<forall>l \<in> set (map maps_line es). 10 \<notin> set l \<and> length l \<le> 1022"
    using es maps_line_chars by (auto simp: maps_entry_ok_def)
  from fgets_lines_lines [OF this]
  have lines: "fgets_lines 1022 (concat (map (\<lambda>e. maps_line e @ [10]) es)) = map (\<lambda>e. maps_line e @ [10]) es"
    by (simp add: comp_def)
  have fresh: "length (lv_perms fresh_vars) = 5" "lv_name fresh_vars = None" by (simp_all add: fresh_vars_def)
  have loop: "\<exists>s1. maps_loop os (map (\<lambda>e. maps_line e @ [10]) es) 10 fresh_vars [] s0 =
      (if es \<noteq> [] \<and> me_name (hd es) = None then Inl Undefined else Inr ((0, named_maps None es), s1))" for s0
  proof (cases es)
    case Nil
    then show ?thesis by (simp add: pret_def)
  next
    case (Cons e es')
    then have e: "maps_entry_ok e" using es by simp
    have v: "lv_name (step_vars e fresh_vars) = map_option first_word (me_name e)" "length (lv_perms (step_vars e fresh_vars)) = 5"
      using e fresh by (simp_all add: step_vars_def maps_entry_ok_def split: option.splits)
    have "\<exists>s1 sz1. maps_loop os (map (\<lambda>e. maps_line e @ [10]) es) 10 fresh_vars [] s0 =
      (case map_option first_word (me_name e) of None \<Rightarrow> Inl Undefined
       | Some nm \<Rightarrow> maps_loop os (map (\<lambda>e. maps_line e @ [10]) es') sz1 (step_vars e fresh_vars) (named_maps None [e]) s1)"
      using maps_loop_line [OF e fresh(1) mem, of "map (\<lambda>e. maps_line e @ [10]) es'" 10 "[]" s0]
      unfolding v fresh append_Nil Cons list.map(2) .
    then obtain s1 sz1 where step: "maps_loop os (map (\<lambda>e. maps_line e @ [10]) es) 10 fresh_vars [] s0 =
      (case map_option first_word (me_name e) of None \<Rightarrow> Inl Undefined
       | Some nm \<Rightarrow> maps_loop os (map (\<lambda>e. maps_line e @ [10]) es') sz1 (step_vars e fresh_vars) (named_maps None [e]) s1)"
      by blast
    show ?thesis
    proof (cases "me_name e")
      case None
      then show ?thesis using step Cons by simp
    next
      case (Some nm)
      obtain s2 where "maps_loop os (map (\<lambda>e. maps_line e @ [10]) es') sz1 (step_vars e fresh_vars) (named_maps None [e]) s1 =
          Inr ((0, named_maps None [e] @ named_maps (map_option first_word (me_name e)) es'), s2)"
        using maps_loop_back [of es' os "step_vars e fresh_vars" sz1 "named_maps None [e]" s1] es Cons mem v Some by auto
      then show ?thesis using step Some Cons by simp
    qed
  qed
  show ?thesis
    using loop [of "s\<lparr>pm_allocs := pm_allocs s + 1\<rparr>"]
    by (auto simp: read_maps_def pm_simps pm_alloc_ok [OF mem] content lines pm_shrink_def)
qed

text \<open>A mapping of the file \<^verbatim>\<open>/a (deleted)\<close>, which is read as \<^verbatim>\<open>/a\<close>, followed by an anonymous one, which gets
  the same name.\<close>

definition sample_maps :: "maps_entry list" where
  "sample_maps =
     [\<lparr>me_start = 0x8000, me_end = 0x9000, me_perms = [114, 45, 120, 112], me_off = 0, me_major = 31, me_minor = 1,
        me_inode = 7, me_pad = 3, me_name = Some [47, 97, 32, 40, 100, 101, 108, 101, 116, 101, 100, 41]\<rparr>,
      \<lparr>me_start = 0x9000, me_end = 0xB000, me_perms = [114, 119, 45, 112], me_off = 0, me_major = 0, me_minor = 0,
        me_inode = 0, me_pad = 0, me_name = None\<rparr>]"

theorem maps_read_back_witness:
  "\<exists>s'. read_maps (sample_pm_os\<lparr>os_fopen := (\<lambda>_. Inr (concat (map (\<lambda>e. maps_line e @ [10]) sample_maps)))\<rparr>) 1
      \<lparr>pm_errno = 0, pm_allocs = 0, pm_opened = [], pm_closed = [], pm_written = []\<rparr> =
    Inr ((0, [\<lparr>map_start = 0x8000, map_end = 0x9000, map_offset = 0, map_flags = 5, map_name = [47, 97]\<rparr>,
              \<lparr>map_start = 0x9000, map_end = 0xB000, map_offset = 0, map_flags = 3, map_name = [47, 97]\<rparr>]), s')"
proof -
  let ?os = "sample_pm_os\<lparr>os_fopen := (\<lambda>_. Inr (concat (map (\<lambda>e. maps_line e @ [10]) sample_maps)))\<rparr>"
  have ok: "\<forall>e \<in> set sample_maps. maps_entry_ok e"
    unfolding sample_maps_def list.set ball_simps
    by (simp add: maps_entry_ok_def maps_line_def hex_padded_def hexadecimal.simps decimal.simps word_ok_def name_ok_def is_space_def)
  have mem: "\<forall>n. \<not> os_oom ?os n" by (simp add: sample_pm_os_def)
  have content: "os_fopen ?os (proc_path 1 ''/maps'') = Inr (concat (map (\<lambda>e. maps_line e @ [10]) sample_maps))" by simp
  have names: "sample_maps \<noteq> [] \<and> me_name (hd sample_maps) = None \<longleftrightarrow> False"
    "named_maps None sample_maps =
       [\<lparr>map_start = 0x8000, map_end = 0x9000, map_offset = 0, map_flags = 5, map_name = [47, 97]\<rparr>,
        \<lparr>map_start = 0x9000, map_end = 0xB000, map_offset = 0, map_flags = 3, map_name = [47, 97]\<rparr>]"
    by (simp_all add: sample_maps_def first_word_def is_space_def)
  show ?thesis using maps_read_back [OF ok mem content] unfolding names by simp
qed

section \<open>Errors\<close>

text \<open>
  An error inside the loop of the working set is not reported: the caller gets 0 and, when a map before
  it succeeded, the total counts that map a second time.
\<close>

theorem workingset_counts_twice:
  assumes a: "\<And>s. \<exists>s'. pm_map_workingset os (Some (proc, m)) True s = Inr ((0, Some ws), s')"
    and b: "\<And>s. \<exists>s'. pm_map_pagemap os (Some (proc, m')) s = Inr ((0, Some (e # es)), s')"
    and flags: "os_lseek os (kpageflags_fd (proc_ker proc)) (frame e * 8) = Some err" "err \<noteq> 0"
    and maps: "proc_maps proc = [m, m']"
  shows "\<exists>s'. pm_process_workingset os (Some proc) True False s =
    Inr ((0, Some (pm_memusage_add (pm_memusage_add pm_memusage_zero ws) ws)), s')"
proof -
  obtain s1 where s1: "pm_map_workingset os (Some (proc, m)) True s = Inr ((0, Some ws), s1)" using a by blast
  obtain s2 where s2: "pm_map_pagemap os (Some (proc, m')) s1 = Inr ((0, Some (e # es)), s2)" using b by blast
  have "pm_kernel_flags os (Some (proc_ker proc)) (frame e) True None s2 = Inr ((err, None), s2\<lparr>pm_errno := err\<rparr>)"
    using flags by (simp add: pm_kernel_flags_def read_entry_def pm_simps)
  then have "pm_map_workingset os (Some (proc, m')) True s1 = Inr ((0, None), s2\<lparr>pm_errno := err\<rparr>)"
    using s2 flags(2) by (simp add: pm_map_workingset_def pm_simps frame_def)
  then show ?thesis using s1 maps by (simp add: pm_process_workingset_def pm_simps)
qed

end
