(* ===== verification/Fdpool.thy ===== *)
theory Fdpool
  imports Prelude "HOL-Library.Multiset"
begin

text \<open>
  \<^verbatim>\<open>fatblock/fdpool.c\<close>: the pool of at most four open descriptors, a circular doubly linked
  list through the \<^verbatim>\<open>struct pooled_fd\<close> members of the files, most recently used first. The
  nodes live in a store, since the code links them destructively; address 0 is
  \<^verbatim>\<open>fdpool_head\<close>. The results of \<^verbatim>\<open>open\<close> are an input, one for each call, and are
  recorded, as are the calls of \<^verbatim>\<open>close\<close>. \<^verbatim>\<open>errno\<close> is not modelled.
\<close>

section \<open>State\<close>

record pooled_fd =
  p_prev :: "nat option"
  p_next :: "nat option"
  p_fd :: int

record pool_st =
  nodes :: "nat \<Rightarrow> pooled_fd"
  fdpool_count :: int
  os_opened :: "int list"
  os_closed :: "int list"

definition INVALID_FD :: int where "INVALID_FD = -1"
definition FDPOOL_SIZE :: int where "FDPOOL_SIZE = 4"
definition fdpool_head :: nat where "fdpool_head = 0"

definition pool_start :: "(nat \<Rightarrow> pooled_fd) \<Rightarrow> pool_st" where
  "pool_start ns =
     \<lparr>nodes = ns(fdpool_head := \<lparr>p_prev = Some fdpool_head, p_next = Some fdpool_head, p_fd = INVALID_FD\<rparr>),
      fdpool_count = 0, os_opened = [], os_closed = []\<rparr>"

definition node_at :: "nat option \<Rightarrow> pool_st \<Rightarrow> pooled_fd res" where
  "node_at p s = (case p of None \<Rightarrow> Inl Undefined | Some a \<Rightarrow> Inr (nodes s a))"

definition node_upd :: "nat option \<Rightarrow> (pooled_fd \<Rightarrow> pooled_fd) \<Rightarrow> pool_st \<Rightarrow> pool_st res" where
  "node_upd p f s = (case p of None \<Rightarrow> Inl Undefined
     | Some a \<Rightarrow> Inr (s\<lparr>nodes := (nodes s)(a := f (nodes s a))\<rparr>))"

section \<open>Operations\<close>

definition fdpool_insert_head :: "nat option \<Rightarrow> pool_st \<Rightarrow> pool_st res" where
  "fdpool_insert_head node s =
     (let prev = Some fdpool_head in
      bnd (node_at prev s) (\<lambda>h.
      let next = p_next h in
      if node = None then Inl Undefined
      else
        bnd (node_upd prev (\<lambda>n. n\<lparr>p_next := node\<rparr>) s) (\<lambda>s.
        bnd (node_upd node (\<lambda>n. n\<lparr>p_prev := prev\<rparr>) s) (\<lambda>s.
        bnd (node_upd node (\<lambda>n. n\<lparr>p_next := next\<rparr>) s) (\<lambda>s.
        bnd (node_upd next (\<lambda>n. n\<lparr>p_prev := node\<rparr>) s) (\<lambda>s.
        Inr (s\<lparr>fdpool_count := fdpool_count s + 1\<rparr>)))))))"

definition fdpool_remove :: "nat option \<Rightarrow> pool_st \<Rightarrow> pool_st res" where
  "fdpool_remove node s =
     bnd (node_at node s) (\<lambda>n.
     let prev = p_prev n; next = p_next n in
     if prev = None \<or> next = None then Inl Undefined
     else
       bnd (node_upd prev (\<lambda>n. n\<lparr>p_next := next\<rparr>) s) (\<lambda>s.
       bnd (node_upd next (\<lambda>n. n\<lparr>p_prev := prev\<rparr>) s) (\<lambda>s.
       Inr (s\<lparr>fdpool_count := fdpool_count s - 1\<rparr>))))"

definition fdpool_remove_tail :: "pool_st \<Rightarrow> (nat option \<times> pool_st) res" where
  "fdpool_remove_tail s =
     (let tail = p_prev (nodes s fdpool_head) in
      if tail = Some fdpool_head then Inl Undefined
      else bnd (fdpool_remove tail s) (\<lambda>s. Inr (tail, s)))"

definition fdpool_clear :: "nat option \<Rightarrow> pool_st \<Rightarrow> pool_st res" where
  "fdpool_clear pfd s = node_upd pfd (\<lambda>n. n\<lparr>p_fd := INVALID_FD, p_next := None, p_prev := None\<rparr>) s"

definition fdpool_unpool :: "nat option \<Rightarrow> pool_st \<Rightarrow> pool_st res" where
  "fdpool_unpool pfd s =
     bnd (node_at pfd s) (\<lambda>n. fdpool_clear pfd (s\<lparr>os_closed := os_closed s @ [p_fd n]\<rparr>))"

definition fdpool_evict :: "pool_st \<Rightarrow> pool_st res" where
  "fdpool_evict s = bnd (fdpool_remove_tail s) (\<lambda>(tail, s). fdpool_unpool tail s)"

definition fdpool_pool :: "nat option \<Rightarrow> int \<Rightarrow> pool_st \<Rightarrow> pool_st res" where
  "fdpool_pool pfd fd s =
     bnd (if FDPOOL_SIZE \<le> fdpool_count s then fdpool_evict s else Inr s) (\<lambda>s.
     bnd (fdpool_insert_head pfd s) (\<lambda>s.
     node_upd pfd (\<lambda>n. n\<lparr>p_fd := fd\<rparr>) s))"

definition fdpool_touch :: "nat option \<Rightarrow> pool_st \<Rightarrow> pool_st res" where
  "fdpool_touch pfd s = bnd (fdpool_remove pfd s) (fdpool_insert_head pfd)"

definition fdpool_init :: "nat option \<Rightarrow> pool_st \<Rightarrow> pool_st res" where
  "fdpool_init pfd s = fdpool_clear pfd s"

definition fdpool_open :: "(nat \<Rightarrow> bytes \<Rightarrow> int) \<Rightarrow> nat option \<Rightarrow> bytes \<Rightarrow> pool_st \<Rightarrow> (int \<times> pool_st) res" where
  "fdpool_open os_open pfd pathname s =
     bnd (node_at pfd s) (\<lambda>n.
     if p_fd n \<noteq> INVALID_FD
     then bnd (fdpool_touch pfd s) (\<lambda>s. bnd (node_at pfd s) (\<lambda>n. Inr (p_fd n, s)))
     else
       let fd = os_open (length (os_opened s)) pathname; s = s\<lparr>os_opened := os_opened s @ [fd]\<rparr> in
       bnd (if 0 \<le> fd then fdpool_pool pfd fd s else Inr s) (\<lambda>s. Inr (fd, s)))"

definition fdpool_close :: "nat option \<Rightarrow> pool_st \<Rightarrow> pool_st res" where
  "fdpool_close pfd s = (if pfd = None then Inl Undefined else fdpool_unpool pfd s)"

lemmas pool_defs = node_at_def node_upd_def fdpool_insert_head_def fdpool_remove_def fdpool_remove_tail_def
  fdpool_clear_def fdpool_unpool_def fdpool_evict_def fdpool_pool_def fdpool_touch_def fdpool_open_def

section \<open>The ring of nodes\<close>

text \<open>\<open>linked s xs\<close>: each node of \<open>xs\<close> points to its successor in \<open>xs\<close> and back.\<close>

fun linked :: "pool_st \<Rightarrow> nat list \<Rightarrow> bool" where
  "linked s (a # b # xs) \<longleftrightarrow> p_next (nodes s a) = Some b \<and> p_prev (nodes s b) = Some a \<and> linked s (b # xs)"
| "linked s _ \<longleftrightarrow> True"

lemma linked_append: "linked s (xs @ a # ys) \<longleftrightarrow> linked s (xs @ [a]) \<and> linked s (a # ys)"
proof (induction xs)
  case (Cons x xs)
  then show ?case by (cases xs) auto
qed (cases ys, auto)

lemma linked_cong:
  "(\<And>a. a \<in> set (butlast xs) \<Longrightarrow> p_next (nodes s' a) = p_next (nodes s a)) \<Longrightarrow>
   (\<And>a. a \<in> set (tl xs) \<Longrightarrow> p_prev (nodes s' a) = p_prev (nodes s a)) \<Longrightarrow> linked s' xs \<longleftrightarrow> linked s xs"
proof (induction s xs rule: linked.induct)
  case (1 s a b xs)
  have "linked s' (b # xs) \<longleftrightarrow> linked s (b # xs)"
    using 1 by (cases xs) auto
  then show ?case using 1 by auto
qed auto

lemma linked_around:
  "linked s (xs @ a # b # c # ys) \<longleftrightarrow>
     linked s (xs @ [a]) \<and> p_next (nodes s a) = Some b \<and> p_prev (nodes s b) = Some a \<and>
     p_next (nodes s b) = Some c \<and> p_prev (nodes s c) = Some b \<and> linked s (c # ys)"
  by (subst linked_append) auto

definition ring :: "pool_st \<Rightarrow> nat list \<Rightarrow> bool" where
  "ring s ns \<longleftrightarrow> distinct (fdpool_head # ns) \<and> linked s (fdpool_head # ns @ [fdpool_head])"

text \<open>Linking and unlinking change neither descriptors nor the history of system calls.\<close>

definition relinked :: "pool_st \<Rightarrow> pool_st \<Rightarrow> bool" where
  "relinked s s' \<longleftrightarrow> (\<forall>a. p_fd (nodes s' a) = p_fd (nodes s a)) \<and> os_opened s' = os_opened s \<and> os_closed s' = os_closed s"

lemma ring_front:
  assumes "distinct (fdpool_head # xs)"
  obtains us b where "fdpool_head # xs = us @ [b]" "b \<notin> set us" "b \<in> insert fdpool_head (set xs)"
  using assms by (cases xs rule: rev_cases) auto

lemma ring_back:
  assumes "distinct (fdpool_head # ys)"
  obtains c vs where "ys @ [fdpool_head] = c # vs" "c \<notin> set vs" "c \<in> insert fdpool_head (set ys)"
  using assms by (cases ys) auto

lemma linked_keep:
  assumes "\<And>x. x \<notin> B \<Longrightarrow> p_next (nodes s' x) = p_next (nodes s x)" "\<And>x. x \<notin> C \<Longrightarrow> p_prev (nodes s' x) = p_prev (nodes s x)"
    and "set (butlast xs) \<inter> B = {}" "set (tl xs) \<inter> C = {}"
  shows "linked s' xs \<longleftrightarrow> linked s xs"
  using assms by (intro linked_cong) blast+

lemma linked_relink:
  assumes "linked s (us @ [b])" "linked s (c # vs)"
    and "\<And>x. x \<noteq> b \<Longrightarrow> p_next (nodes s' x) = p_next (nodes s x)" "\<And>x. x \<noteq> c \<Longrightarrow> p_prev (nodes s' x) = p_prev (nodes s x)"
    and "p_next (nodes s' b) = Some c" "p_prev (nodes s' c) = Some b"
    and "b \<notin> set us" "c \<notin> set (tl (us @ [b]))" "b \<notin> set (butlast (c # vs))" "c \<notin> set vs"
  shows "linked s' (us @ b # c # vs)"
proof -
  have "linked s' (us @ [b]) \<longleftrightarrow> linked s (us @ [b])"
    by (rule linked_keep [of "{b}" s' s "{c}"]) (simp_all add: assms(3,4,7,8) del: butlast.simps)
  moreover have "linked s' (c # vs) \<longleftrightarrow> linked s (c # vs)"
    by (rule linked_keep [of "{b}" s' s "{c}"]) (simp_all add: assms(3,4,9,10) del: butlast.simps)
  ultimately show ?thesis using assms(1,2,5,6) by (simp add: linked_append [of s' us b "c # vs"])
qed

lemma fdpool_remove_ring:
  assumes "ring s (xs @ a # ys)"
  shows "\<exists>s'. fdpool_remove (Some a) s = Inr s' \<and> ring s' (xs @ ys) \<and> relinked s s' \<and>
    fdpool_count s' = fdpool_count s - 1"
proof -
  have d: "distinct (fdpool_head # xs @ a # ys)" using assms by (simp add: ring_def)
  obtain us b where us: "fdpool_head # xs = us @ [b]" "b \<notin> set us" "b \<in> insert fdpool_head (set xs)"
    using ring_front [of xs] d by auto
  obtain c vs where vs: "ys @ [fdpool_head] = c # vs" "c \<notin> set vs" "c \<in> insert fdpool_head (set ys)"
    using ring_back [of ys] d by auto
  have around: "fdpool_head # xs @ zs @ ys @ [fdpool_head] = us @ b # zs @ c # vs" for zs
    using us(1) vs(1) by (metis append.assoc append_Cons append_Nil)
  have l: "linked s (us @ [b])" "linked s (c # vs)" "p_prev (nodes s a) = Some b" "p_next (nodes s a) = Some c"
    using assms around [of "[a]"] by (simp_all add: ring_def linked_around)
  define s' where "s' = s\<lparr>nodes := (nodes s)(b := (nodes s b)\<lparr>p_next := Some c\<rparr>,
    c := (((nodes s)(b := (nodes s b)\<lparr>p_next := Some c\<rparr>)) c)\<lparr>p_prev := Some b\<rparr>), fdpool_count := fdpool_count s - 1\<rparr>"
  have run: "fdpool_remove (Some a) s = Inr s'"
    using l by (simp add: fdpool_remove_def node_at_def node_upd_def s'_def)
  have "c \<notin> set (tl (us @ [b]))" "b \<notin> set (butlast (c # vs))"
    using us(3) vs(3) d by (auto simp flip: us(1) vs(1))
  then have "linked s' (us @ b # c # vs)"
    using l(1,2) us(2) vs(2) by (intro linked_relink [of s]) (auto simp: s'_def)
  then show ?thesis
    using run d around [of "[]"] by (auto simp: ring_def relinked_def s'_def)
qed

lemma fdpool_insert_head_ring:
  assumes "ring s ns" and "a \<noteq> fdpool_head" "a \<notin> set ns"
  shows "\<exists>s'. fdpool_insert_head (Some a) s = Inr s' \<and> ring s' (a # ns) \<and> relinked s s' \<and>
    fdpool_count s' = fdpool_count s + 1"
proof -
  have d: "distinct (fdpool_head # ns)" using assms by (simp add: ring_def)
  obtain c vs where vs: "ns @ [fdpool_head] = c # vs" "c \<notin> set vs" "c \<in> insert fdpool_head (set ns)"
    using ring_back [of ns] d by auto
  have l: "linked s (c # vs)" "p_next (nodes s fdpool_head) = Some c"
    using assms(1) vs(1) by (simp_all add: ring_def)
  define s1 where "s1 = s\<lparr>nodes := (nodes s)(fdpool_head := (nodes s fdpool_head)\<lparr>p_next := Some a\<rparr>,
    a := (nodes s a)\<lparr>p_prev := Some fdpool_head, p_next := Some c\<rparr>)\<rparr>"
  define s' where "s' = s1\<lparr>nodes := (nodes s1)(c := (nodes s1 c)\<lparr>p_prev := Some a\<rparr>), fdpool_count := fdpool_count s + 1\<rparr>"
  have run: "fdpool_insert_head (Some a) s = Inr s'"
    using l(2) assms(2) by (simp add: fdpool_insert_head_def node_at_def node_upd_def s'_def s1_def Let_def)
  have "linked s' (c # vs) \<longleftrightarrow> linked s (c # vs)"
  proof (rule linked_keep [of "{fdpool_head, a}" s' s "{a, c}"])
    show "set (butlast (c # vs)) \<inter> {fdpool_head, a} = {}" using d assms(2,3) by (simp flip: vs(1))
    show "set (tl (c # vs)) \<inter> {a, c} = {}"
      using vs assms(2,3) by (metis Int_insert_right disjoint_iff inf_bot_right insertE list.sel(3) list.set_intros(2)
          rotate1.simps(2) set_rotate1 list.set(2))
  qed (auto simp: s'_def s1_def)
  then show ?thesis
    using run l assms(2,3) vs d by (auto simp: ring_def relinked_def s'_def s1_def)
qed

section \<open>A least-recently-used cache\<close>

text \<open>
  What the pool promises: the open descriptors with the nodes they belong to, most recently used first.
  A node that has a descriptor is moved to the front; another one is opened, and the last of four is
  closed for it.
\<close>

record lru =
  entries :: "(nat \<times> int) list"
  opened :: "int list"
  closed :: "int list"

definition lru_add :: "nat \<Rightarrow> int \<Rightarrow> lru \<Rightarrow> lru" where
  "lru_add a fd l =
     (if length (entries l) < 4 then l\<lparr>entries := (a, fd) # entries l\<rparr>
      else l\<lparr>entries := (a, fd) # butlast (entries l), closed := closed l @ [snd (last (entries l))]\<rparr>)"

definition lru_open :: "(nat \<Rightarrow> bytes \<Rightarrow> int) \<Rightarrow> nat \<times> bytes \<Rightarrow> lru \<Rightarrow> int \<times> lru" where
  "lru_open os = (\<lambda>(a, pathname) l.
     case map_of (entries l) a of
       Some fd \<Rightarrow> (fd, l\<lparr>entries := (a, fd) # filter (\<lambda>e. fst e \<noteq> a) (entries l)\<rparr>)
     | None \<Rightarrow> let fd = os (length (opened l)) pathname; l = l\<lparr>opened := opened l @ [fd]\<rparr> in
         (fd, if 0 \<le> fd then lru_add a fd l else l))"

definition lru_start :: lru where "lru_start = \<lparr>entries = [], opened = [], closed = []\<rparr>"

fun holds :: "pool_st \<Rightarrow> (nat \<times> int) list \<Rightarrow> bool" where
  "holds s [] \<longleftrightarrow> True"
| "holds s ((a, fd) # es) \<longleftrightarrow> p_fd (nodes s a) = fd \<and> 0 \<le> fd \<and> holds s es"

lemma holds_append: "holds s (xs @ ys) \<longleftrightarrow> holds s xs \<and> holds s ys"
  by (induction s xs rule: holds.induct) auto

lemma holds_cong: "(\<And>a. a \<in> fst ` set es \<Longrightarrow> p_fd (nodes s' a) = p_fd (nodes s a)) \<Longrightarrow> holds s' es \<longleftrightarrow> holds s es"
  by (induction s es rule: holds.induct) auto

lemma holds_relinked: "relinked s s' \<Longrightarrow> holds s' es \<longleftrightarrow> holds s es"
  by (rule holds_cong) (simp add: relinked_def)

lemma holds_lookup: "holds s es \<Longrightarrow> map_of es a = Some fd \<Longrightarrow> p_fd (nodes s a) = fd \<and> 0 \<le> fd"
  by (induction s es rule: holds.induct) (auto split: if_splits)

text \<open>The ring in the store stands for the cache; the nodes of \<open>A\<close> have been initialised.\<close>

definition pool_rel :: "nat set \<Rightarrow> pool_st \<Rightarrow> lru \<Rightarrow> bool" where
  "pool_rel A s l \<longleftrightarrow> ring s (map fst (entries l)) \<and> fdpool_count s = int (length (entries l)) \<and>
     length (entries l) \<le> 4 \<and> set (map fst (entries l)) \<subseteq> A \<and> fdpool_head \<notin> A \<and>
     holds s (entries l) \<and>
     (\<forall>a \<in> A - set (map fst (entries l)). p_fd (nodes s a) = INVALID_FD) \<and>
     os_opened s = opened l \<and> os_closed s = closed l"

lemma entries_split:
  assumes "distinct (map fst es)" and "map_of es a = Some fd"
  obtains xs ys where "es = xs @ (a :: nat, fd :: int) # ys" "filter (\<lambda>e. fst e \<noteq> a) es = xs @ ys"
proof -
  obtain xs ys where es: "es = xs @ (a, fd) # ys" using map_of_SomeD [OF assms(2)] by (metis split_list)
  have "filter (\<lambda>e. fst e \<noteq> a) zs = zs" if "a \<notin> set (map fst zs)" for zs :: "(nat \<times> int) list"
    using that by (induction zs) auto
  then show ?thesis using assms(1) es that by simp
qed

lemma touch_refines:
  assumes r: "pool_rel A s l" and m: "map_of (entries l) a = Some fd"
  shows "\<exists>s'. fdpool_touch (Some a) s = Inr s' \<and>
    pool_rel A s' (l\<lparr>entries := (a, fd) # filter (\<lambda>e. fst e \<noteq> a) (entries l)\<rparr>)"
proof -
  have d: "distinct (map fst (entries l))" using r by (simp add: pool_rel_def ring_def)
  obtain xs ys where es: "entries l = xs @ (a, fd) # ys" "filter (\<lambda>e. fst e \<noteq> a) (entries l) = xs @ ys"
    using entries_split [OF d m] by metis
  have ring: "ring s (map fst xs @ a # map fst ys)" using r es by (simp add: pool_rel_def)
  obtain s1 where s1: "fdpool_remove (Some a) s = Inr s1" "ring s1 (map fst xs @ map fst ys)" "relinked s s1"
    "fdpool_count s1 = fdpool_count s - 1"
    using fdpool_remove_ring [OF ring] by blast
  have a: "a \<noteq> fdpool_head" "a \<notin> set (map fst xs @ map fst ys)" using ring by (auto simp: ring_def)
  obtain s2 where s2: "fdpool_insert_head (Some a) s1 = Inr s2" "ring s2 (a # map fst xs @ map fst ys)" "relinked s1 s2"
    "fdpool_count s2 = fdpool_count s1 + 1"
    using fdpool_insert_head_ring [OF s1(2) a] by blast
  have "pool_rel A s2 (l\<lparr>entries := (a, fd) # xs @ ys\<rparr>)"
    using r s1 s2 es(1) holds_relinked [OF s1(3)] holds_relinked [OF s2(3)]
    by (auto simp: pool_rel_def relinked_def holds_append)
  then show ?thesis using s1(1) s2(1) es(2) by (simp add: fdpool_touch_def)
qed

lemma evict_refines:
  assumes r: "pool_rel A s l" and e: "entries l = es @ [(b, fd)]"
  shows "\<exists>s'. fdpool_evict s = Inr s' \<and> pool_rel A s' (l\<lparr>entries := es, closed := closed l @ [fd]\<rparr>)"
proof -
  have ring: "ring s (map fst es @ b # [])" and head: "fdpool_head \<noteq> b" using r e by (auto simp: pool_rel_def ring_def)
  have tail: "p_prev (nodes s fdpool_head) = Some b"
    using ring linked_append [of s "fdpool_head # map fst es" b "[fdpool_head]"] by (simp add: ring_def)
  obtain s1 where s1: "fdpool_remove (Some b) s = Inr s1" "ring s1 (map fst es)" "relinked s s1"
    "fdpool_count s1 = fdpool_count s - 1"
    using fdpool_remove_ring [OF ring] by auto
  have fd: "p_fd (nodes s1 b) = fd" using r e s1(3) by (simp add: pool_rel_def relinked_def holds_append)
  have b: "b \<notin> set (map fst es)" using ring by (auto simp: ring_def)
  define s2 where "s2 = s1\<lparr>nodes := (nodes s1)(b := (nodes s1 b)\<lparr>p_fd := INVALID_FD, p_next := None, p_prev := None\<rparr>),
    os_closed := os_closed s1 @ [fd]\<rparr>"
  have run: "fdpool_evict s = Inr s2"
    using tail head s1(1) fd by (simp add: fdpool_evict_def fdpool_remove_tail_def fdpool_unpool_def fdpool_clear_def
        node_at_def node_upd_def s2_def)
  have "linked s2 (fdpool_head # map fst es @ [fdpool_head]) \<longleftrightarrow> linked s1 (fdpool_head # map fst es @ [fdpool_head])"
    using b head by (intro linked_keep [of "{b}" s2 s1 "{b}"]) (auto simp: s2_def butlast_append)
  then have "ring s2 (map fst es)" using s1(2) by (simp add: ring_def)
  moreover have "holds s2 es \<longleftrightarrow> holds s1 es" using b by (intro holds_cong) (auto simp: s2_def)
  then have "holds s2 es" using r e holds_relinked [OF s1(3)] by (simp add: pool_rel_def holds_append)
  ultimately have "pool_rel A s2 (l\<lparr>entries := es, closed := closed l @ [fd]\<rparr>)"
    using r s1 e by (auto simp: pool_rel_def relinked_def s2_def)
  then show ?thesis using run by blast
qed

lemma insert_refines:
  assumes r: "pool_rel A s l" and a: "a \<in> A" "map_of (entries l) a = None" and l: "length (entries l) < 4" and fd: "0 \<le> fd"
  shows "\<exists>s'. bnd (fdpool_insert_head (Some a) s) (node_upd (Some a) (\<lambda>n. n\<lparr>p_fd := fd\<rparr>)) = Inr s' \<and>
    pool_rel A s' (l\<lparr>entries := (a, fd) # entries l\<rparr>)"
proof -
  have na: "a \<noteq> fdpool_head" "a \<notin> set (map fst (entries l))"
    using r a by (auto simp: pool_rel_def map_of_eq_None_iff)
  have ring: "ring s (map fst (entries l))" using r by (simp add: pool_rel_def)
  obtain s1 where s1: "fdpool_insert_head (Some a) s = Inr s1" "ring s1 (a # map fst (entries l))" "relinked s s1"
    "fdpool_count s1 = fdpool_count s + 1"
    using fdpool_insert_head_ring [OF ring na] by blast
  define s2 where "s2 = s1\<lparr>nodes := (nodes s1)(a := (nodes s1 a)\<lparr>p_fd := fd\<rparr>)\<rparr>"
  have "linked s2 xs \<longleftrightarrow> linked s1 xs" for xs
    by (intro linked_keep [of "{}" s2 s1 "{}"]) (auto simp: s2_def)
  then have "ring s2 (a # map fst (entries l))" using s1(2) by (simp only: ring_def)
  moreover have "holds s2 (entries l) \<longleftrightarrow> holds s1 (entries l)" using na(2) by (intro holds_cong) (auto simp: s2_def)
  then have "holds s2 (entries l)" using r holds_relinked [OF s1(3)] by (simp add: pool_rel_def)
  ultimately have "pool_rel A s2 (l\<lparr>entries := (a, fd) # entries l\<rparr>)"
    using r s1 a(1) l fd by (auto simp: pool_rel_def relinked_def s2_def)
  then show ?thesis using s1(1) by (simp add: node_upd_def s2_def)
qed

lemma pool_refines:
  assumes r: "pool_rel A s l" and a: "a \<in> A" "map_of (entries l) a = None" and fd: "0 \<le> fd"
  shows "\<exists>s'. fdpool_pool (Some a) fd s = Inr s' \<and> pool_rel A s' (lru_add a fd l)"
proof (cases "length (entries l) < 4")
  case True
  then show ?thesis
    using insert_refines [OF r a True fd] r by (simp add: fdpool_pool_def pool_rel_def FDPOOL_SIZE_def lru_add_def)
next
  case False
  then have len: "length (entries l) = 4" using r by (simp add: pool_rel_def)
  then obtain es b fd' where e: "entries l = es @ [(b, fd')]" by (cases "entries l" rule: rev_cases) auto
  obtain s1 where s1: "fdpool_evict s = Inr s1" "pool_rel A s1 (l\<lparr>entries := es, closed := closed l @ [fd']\<rparr>)"
    using evict_refines [OF r e] by blast
  have "map_of es a = None" using a(2) e by (simp add: map_of_eq_None_iff)
  then show ?thesis
    using insert_refines [OF s1(2) a(1), of fd] s1(1) len e r fd
    by (simp add: fdpool_pool_def pool_rel_def FDPOOL_SIZE_def lru_add_def)
qed

lemma fdpool_open_lru:
  assumes r: "pool_rel A s l" and a: "a \<in> A"
  shows "\<exists>s'. fdpool_open os (Some a) pathname s = Inr (fst (lru_open os (a, pathname) l), s') \<and>
    pool_rel A s' (snd (lru_open os (a, pathname) l))"
proof (cases "map_of (entries l) a")
  case None
  have "p_fd (nodes s a) = INVALID_FD" "os_opened s = opened l"
    using r a None by (auto simp: pool_rel_def map_of_eq_None_iff)
  moreover define l1 where "l1 = l\<lparr>opened := opened l @ [os (length (opened l)) pathname]\<rparr>"
  moreover define s1 where "s1 = s\<lparr>os_opened := os_opened s @ [os (length (opened l)) pathname]\<rparr>"
  moreover have "pool_rel A s1 l1"
  proof -
    have "linked s1 xs \<longleftrightarrow> linked s xs" "holds s1 es \<longleftrightarrow> holds s es" for xs es
      by (intro linked_cong holds_cong; simp add: s1_def)+
    then show ?thesis using r by (simp add: pool_rel_def ring_def s1_def l1_def)
  qed
  ultimately show ?thesis
    using pool_refines [of A s1 l1 a "os (length (opened l)) pathname"] a None
    by (auto simp: fdpool_open_def lru_open_def node_at_def Let_def)
next
  case (Some fd)
  have fd: "p_fd (nodes s a) = fd" "0 \<le> fd" using r holds_lookup [of s "entries l" a fd] Some by (simp_all add: pool_rel_def)
  obtain s' where s': "fdpool_touch (Some a) s = Inr s'"
    "pool_rel A s' (l\<lparr>entries := (a, fd) # filter (\<lambda>e. fst e \<noteq> a) (entries l)\<rparr>)"
    using touch_refines [OF r Some] by blast
  then have "p_fd (nodes s' a) = fd" by (simp add: pool_rel_def)
  then show ?thesis using s' fd Some by (simp add: fdpool_open_def lru_open_def node_at_def INVALID_FD_def)
qed

section \<open>Runs\<close>

text \<open>Sequences of operations of the code and of its specification, with their results.\<close>

fun run_ops :: "('i \<Rightarrow> 'c \<Rightarrow> ('o \<times> 'c) res) \<Rightarrow> 'i list \<Rightarrow> 'c \<Rightarrow> ('o list \<times> 'c) res" where
  "run_ops f [] c = Inr ([], c)"
| "run_ops f (i # is) c = bnd (f i c) (\<lambda>(x, c). bnd (run_ops f is c) (\<lambda>(xs, c). Inr (x # xs, c)))"

fun spec_ops :: "('i \<Rightarrow> 'a \<Rightarrow> 'o \<times> 'a) \<Rightarrow> 'i list \<Rightarrow> 'a \<Rightarrow> 'o list \<times> 'a" where
  "spec_ops g [] a = ([], a)"
| "spec_ops g (i # is) a = (let (x, a) = g i a; (xs, a) = spec_ops g is a in (x # xs, a))"

lemma spec_ops_invariant:
  "P a \<Longrightarrow> (\<And>i a. P a \<Longrightarrow> P (snd (g i a))) \<Longrightarrow> P (snd (spec_ops g is a))"
  by (induction "is" arbitrary: a) (simp_all add: split_beta)

text \<open>
  A simulation: every operation of the code gives the result of the abstract operation and keeps the
  relation. Then so does every sequence of operations.
\<close>

locale simulation =
  fixes rel :: "'c \<Rightarrow> 'a \<Rightarrow> bool" and valid :: "'i \<Rightarrow> bool"
    and cop :: "'i \<Rightarrow> 'c \<Rightarrow> ('o \<times> 'c) res" and aop :: "'i \<Rightarrow> 'a \<Rightarrow> 'o \<times> 'a"
  assumes step: "rel c a \<Longrightarrow> valid i \<Longrightarrow> \<exists>c'. cop i c = Inr (fst (aop i a), c') \<and> rel c' (snd (aop i a))"
begin

lemma runs:
  "rel c a \<Longrightarrow> list_all valid is \<Longrightarrow>
    \<exists>c'. run_ops cop is c = Inr (fst (spec_ops aop is a), c') \<and> rel c' (snd (spec_ops aop is a))"
proof (induction "is" arbitrary: c a)
  case (Cons i "is")
  obtain c1 where c1: "cop i c = Inr (fst (aop i a), c1)" "rel c1 (snd (aop i a))"
    using step [of c a i] Cons.prems by auto
  obtain c2 where "run_ops cop is c1 = Inr (fst (spec_ops aop is (snd (aop i a))), c2)"
    "rel c2 (snd (spec_ops aop is (snd (aop i a))))"
    using Cons.IH [OF c1(2)] Cons.prems by auto
  then show ?case using c1 by (simp add: split_beta)
qed simp

end

definition pool_op :: "(nat \<Rightarrow> bytes \<Rightarrow> int) \<Rightarrow> nat \<times> bytes \<Rightarrow> pool_st \<Rightarrow> (int \<times> pool_st) res" where
  "pool_op os = (\<lambda>(a, pathname). fdpool_open os (Some a) pathname)"

interpretation pool: simulation "pool_rel A" "\<lambda>i. fst i \<in> A" "pool_op os" "lru_open os" for A os
proof unfold_locales
  fix c a and i :: "nat \<times> bytes"
  assume "pool_rel A c a" "fst i \<in> A"
  then show "\<exists>c'. pool_op os i c = Inr (fst (lru_open os i a), c') \<and> pool_rel A c' (snd (lru_open os i a))"
    using fdpool_open_lru [of A c a "fst i" os "snd i"] by (simp add: pool_op_def split_beta)
qed

definition pool_setup :: "(nat \<Rightarrow> pooled_fd) \<Rightarrow> nat list \<Rightarrow> pool_st res" where
  "pool_setup mem ns = for_each (\<lambda>a. fdpool_init (Some a)) ns (pool_start mem)"

lemma pool_setup_ok:
  assumes "fdpool_head \<notin> set ns"
  shows "\<exists>s. pool_setup mem ns = Inr s \<and> pool_rel (set ns) s lru_start"
  unfolding pool_setup_def
proof (rule for_each_invariant)
  show "pool_rel (set []) (pool_start mem) lru_start"
    by (simp add: pool_rel_def pool_start_def lru_start_def ring_def)
  fix before a rest s
  assume "ns = before @ a # rest" and "pool_rel (set before) s lru_start"
  then show "\<exists>s'. fdpool_init (Some a) s = Inr s' \<and> pool_rel (set (before @ [a])) s' lru_start"
    using assms by (auto simp: fdpool_init_def fdpool_clear_def node_upd_def pool_rel_def lru_start_def ring_def)
qed

text \<open>Every descriptor that was opened is in the cache or has been closed, once.\<close>

definition lru_ok :: "lru \<Rightarrow> bool" where
  "lru_ok l \<longleftrightarrow> distinct (map fst (entries l)) \<and>
     mset (filter (\<lambda>fd. 0 \<le> fd) (opened l)) = mset (closed l) + mset (map snd (entries l))"

lemma lru_add_ok:
  assumes "lru_ok l" and "map_of (entries l) a = None" and "0 \<le> fd"
  shows "lru_ok (lru_add a fd (l\<lparr>opened := opened l @ [fd]\<rparr>))"
proof (cases "entries l" rule: rev_cases)
  case Nil
  then show ?thesis using assms by (simp add: lru_ok_def lru_add_def)
next
  case (snoc es e)
  then show ?thesis using assms by (auto simp: lru_ok_def lru_add_def map_of_eq_None_iff)
qed

lemma lru_open_ok: "lru_ok l \<Longrightarrow> lru_ok (snd (lru_open os i l))"
proof (cases "map_of (entries l) (fst i)")
  case None
  assume "lru_ok l"
  then show ?thesis
    using lru_add_ok [of l "fst i"] None by (auto simp: lru_open_def split_beta Let_def lru_ok_def)
next
  case (Some fd)
  assume l: "lru_ok l"
  then obtain xs ys where "entries l = xs @ (fst i, fd) # ys" "filter (\<lambda>e. fst e \<noteq> fst i) (entries l) = xs @ ys"
    using entries_split [OF _ Some] by (metis lru_ok_def)
  then show ?thesis using l Some by (auto simp: lru_open_def split_beta lru_ok_def)
qed

lemma pool_rel_descriptors:
  assumes "pool_rel (set ns) s l" and "lru_ok l"
  defines "held \<equiv> {a \<in> set ns. p_fd (nodes s a) \<noteq> INVALID_FD}"
  shows "card held \<le> 4" and
    "mset (filter (\<lambda>fd. 0 \<le> fd) (os_opened s)) = mset (os_closed s) + image_mset (\<lambda>a. p_fd (nodes s a)) (mset_set held)"
proof -
  have fds: "map snd es = map (\<lambda>a. p_fd (nodes s a)) (map fst es) \<and> (\<forall>a \<in> set (map fst es). p_fd (nodes s a) \<noteq> INVALID_FD)"
    if "holds s es" for es using that by (induction s es rule: holds.induct) (auto simp: INVALID_FD_def)
  have d: "distinct (map fst (entries l))" using assms(2) by (simp add: lru_ok_def)
  have f: "map snd (entries l) = map (\<lambda>a. p_fd (nodes s a)) (map fst (entries l))" and "held = set (map fst (entries l))"
    using assms(1) fds [of "entries l"] by (auto simp: pool_rel_def held_def)
  then have held: "mset_set held = mset (map fst (entries l))" using mset_set_set [OF d] by simp
  show "card held \<le> 4"
    using assms(1) distinct_card [OF d] \<open>held = _\<close> by (simp add: pool_rel_def)
  show "mset (filter (\<lambda>fd. 0 \<le> fd) (os_opened s)) = mset (os_closed s) + image_mset (\<lambda>a. p_fd (nodes s a)) (mset_set held)"
    using assms(1,2) f held by (simp add: pool_rel_def lru_ok_def del: map_map)
qed

section \<open>Properties\<close>

text \<open>
  C22. The descriptor pool is a least-recently-used cache of four descriptors: for every set of initialised
  nodes and every sequence of \<^verbatim>\<open>fdpool_open\<close> calls on them, no matter which calls of \<^verbatim>\<open>open\<close> fail,
  no call gets stuck, each returns what the cache returns, and the ring of nodes, the descriptors kept in it
  and the sequence of descriptors closed are those of the cache.
\<close>

theorem fdpool_is_lru:
  assumes "fdpool_head \<notin> set ns" and "list_all (\<lambda>i. fst i \<in> set ns) reqs"
  shows "\<exists>s s'. pool_setup mem ns = Inr s \<and>
    run_ops (pool_op os) reqs s = Inr (fst (spec_ops (lru_open os) reqs lru_start), s') \<and>
    pool_rel (set ns) s' (snd (spec_ops (lru_open os) reqs lru_start))"
  using pool_setup_ok [OF assms(1)] pool.runs [OF _ assms(2)] by blast

definition some_nodes :: "nat \<Rightarrow> pooled_fd" where
  "some_nodes a = \<lparr>p_prev = Some 9, p_next = None, p_fd = 77\<rparr>"

definition sample_requests :: "(nat \<times> bytes) list" where
  "sample_requests = [(1, []), (2, []), (3, []), (1, []), (4, []), (5, []), (2, [])]"

lemma sample_lru:
  "spec_ops (lru_open (\<lambda>n p. int n + 3)) sample_requests lru_start =
     ([3, 4, 5, 3, 6, 7, 8], \<lparr>entries = [(2, 8), (5, 7), (4, 6), (1, 3)], opened = [3, 4, 5, 6, 7, 8], closed = [4, 5]\<rparr>)"
  by (simp add: sample_requests_def lru_open_def lru_start_def lru_add_def)

theorem fdpool_is_lru_witness:
  "\<exists>s s'. pool_setup some_nodes [1, 2, 3, 4, 5] = Inr s \<and>
    run_ops (pool_op (\<lambda>n p. int n + 3)) sample_requests s = Inr ([3, 4, 5, 3, 6, 7, 8], s') \<and> os_closed s' = [4, 5]"
proof -
  have "list_all (\<lambda>i. fst i \<in> set [1, 2, 3, 4, 5]) sample_requests" by (simp add: sample_requests_def)
  from fdpool_is_lru [OF _ this, of some_nodes "\<lambda>n p. int n + 3"] show ?thesis
    unfolding sample_lru by (auto simp: fdpool_head_def pool_rel_def)
qed

text \<open>
  No descriptor leaks and none is closed twice: after any sequence of \<^verbatim>\<open>fdpool_open\<close> calls at most
  four nodes hold a descriptor, and the descriptors obtained from \<^verbatim>\<open>open\<close> are exactly those closed
  together with those the nodes hold.
\<close>

theorem fdpool_accounts_descriptors:
  assumes "fdpool_head \<notin> set ns" and "list_all (\<lambda>i. fst i \<in> set ns) reqs"
  shows "\<exists>s fds s'. pool_setup mem ns = Inr s \<and> run_ops (pool_op os) reqs s = Inr (fds, s') \<and>
    card {a \<in> set ns. p_fd (nodes s' a) \<noteq> INVALID_FD} \<le> 4 \<and>
    mset (filter (\<lambda>fd. 0 \<le> fd) (os_opened s')) = mset (os_closed s') +
      image_mset (\<lambda>a. p_fd (nodes s' a)) (mset_set {a \<in> set ns. p_fd (nodes s' a) \<noteq> INVALID_FD})"
proof -
  have "lru_ok (snd (spec_ops (lru_open os) reqs lru_start))"
    by (rule spec_ops_invariant) (simp_all add: lru_open_ok, simp add: lru_ok_def lru_start_def)
  then show ?thesis
    using pool_setup_ok [OF assms(1), of mem] pool.runs [OF _ assms(2), of _ lru_start os] pool_rel_descriptors [of ns] by blast
qed

theorem fdpool_accounts_descriptors_witness:
  "\<exists>s fds s'. pool_setup some_nodes [1, 2] = Inr s \<and> run_ops (pool_op (\<lambda>n p. int n - 1)) [(1, []), (1, []), (2, [])] s = Inr (fds, s') \<and>
    card {a \<in> set [1, 2]. p_fd (nodes s' a) \<noteq> INVALID_FD} \<le> 4"
  using fdpool_accounts_descriptors [of "[1, 2]" "[(1, []), (1, []), (2, [])]" some_nodes "\<lambda>n p. int n - 1"]
  by (auto simp: fdpool_head_def)

text \<open>
  \<^verbatim>\<open>fdpool_close\<close> closes the descriptor and clears the links of its node without taking the node out
  of the ring: the next eviction reaches the cleared node and fails the assertion of
  \<^verbatim>\<open>fdpool_remove\<close>.
\<close>

theorem fdpool_close_breaks_pool:
  "bnd (pool_setup some_nodes [1, 2, 3, 4, 5]) (\<lambda>s.
   bnd (pool_op (\<lambda>n p. int n + 3) (1, []) s) (\<lambda>(_, s).
   bnd (fdpool_close (Some 1) s) (\<lambda>s.
   run_ops (pool_op (\<lambda>n p. int n + 3)) [(2, []), (3, []), (4, []), (5, [])] s))) = Inl Undefined"
  by (simp add: pool_setup_def pool_op_def pool_defs fdpool_init_def fdpool_close_def pool_start_def some_nodes_def
      fdpool_head_def INVALID_FD_def FDPOOL_SIZE_def Let_def)

end
