(* ===== verification/Fat_Fs.thy ===== *)
theory Fat_Fs
  imports Stores Fdpool
begin

text \<open>
  The read-only FAT file system of \<^verbatim>\<open>fatblock\<close>: \<^verbatim>\<open>fs.c\<close> lays out the volume and hands out
  clusters, \<^verbatim>\<open>fat.c\<close> writes directory entries, \<^verbatim>\<open>read.c\<close> answers a read of the block device from
  the boot sector, the allocation table, the directory tables and the host's files. The extents of the
  volume are a list that only grows at its head; an extent names the object it is a member of. The
  packed sectors are byte buffers. Sizes handed to \<^verbatim>\<open>malloc\<close>, \<^verbatim>\<open>memset\<close> and \<^verbatim>\<open>memcpy\<close> are cut
  to 32 bits, as \<^verbatim>\<open>size_t\<close> and \<^verbatim>\<open>off_t\<close> are on the machine of the model.
\<close>

section \<open>Data\<close>

datatype extent_type =
    EXTENT_TYPE_BOOT | EXTENT_TYPE_INFO | EXTENT_TYPE_FAT | EXTENT_TYPE_FILE | EXTENT_TYPE_DIR

record extent =
  e_start :: u64
  e_len :: u64
  e_type :: extent_type
  e_obj :: nat

record fat_file =
  f_path :: bytes
  f_size :: u32
  f_dev :: u64
  f_ino :: u64
  f_mtime :: int
  f_pfd :: nat

record fat_dir =
  d_path :: bytes
  d_size :: u32
  d_entries :: bytes

record fs =
  cluster_size :: u16
  num_clusters :: u32
  next_cluster :: u32
  extents :: "extent list"
  boot :: bytes
  fs_info :: bytes
  fat :: bytes
  fat_size :: u64
  data_offset :: u64

definition FAT_ENTRY_EOC :: u32 where "FAT_ENTRY_EOC = 0x0FFFFFF8"
definition FAT_CLUSTER_ZERO :: u32 where "FAT_CLUSTER_ZERO = 2"
definition MALLOC_FAIL :: int where "MALLOC_FAIL = -41"
definition SKY_IS_FALLING :: int where "SKY_IS_FALLING = -42"
definition DEFAULT_SECTOR_SIZE :: u16 where "DEFAULT_SECTOR_SIZE = 512"
definition UINT32_MAX :: u64 where "UINT32_MAX = 0xFFFFFFFF"

text \<open>The conversion of a length to \<^verbatim>\<open>size_t\<close>.\<close>

definition sz :: "u64 \<Rightarrow> nat" where
  "sz n = unat (ucast n :: u32)"

section \<open>Padded names\<close>

text \<open>The bytes \<^verbatim>\<open>strpadcpy\<close> stores; the counter \<^verbatim>\<open>l\<close> may wrap after the first loop.\<close>

fun pad_copy :: "bytes \<Rightarrow> u32 \<Rightarrow> bytes \<times> u32" where
  "pad_copy [] l = ([], l)"
| "pad_copy (c # s) l =
     (if 0 < l then let (d, l') = pad_copy s (l - 1) in (c # d, l') else ([], l - 1))"

definition strpadcpy :: "bytes \<Rightarrow> u8 \<Rightarrow> u32 \<Rightarrow> bytes" where
  "strpadcpy s p l = (let (d, l') = pad_copy s l in d @ replicate (unat l') 0x20)"

section \<open>Volume layout\<close>

definition fs_add_extent :: "nat \<Rightarrow> u64 \<Rightarrow> u64 \<Rightarrow> extent_type \<Rightarrow> fs \<Rightarrow> fs" where
  "fs_add_extent obj start len type f =
     f\<lparr>extents := \<lparr>e_start = start, e_len = len, e_type = type, e_obj = obj\<rparr> # extents f\<rparr>"

definition fs_set_fat :: "u32 \<Rightarrow> u32 \<Rightarrow> fs \<Rightarrow> fs res" where
  "fs_set_fat cluster entry f =
     bnd (put32 (fat f) (4 * unat cluster) entry) (\<lambda>b. Inr (f\<lparr>fat := b\<rparr>))"

text \<open>The result is the return value and what is stored through \<^verbatim>\<open>first_cluster_out\<close>, if anything.\<close>

definition fs_alloc_extent ::
  "nat \<Rightarrow> u64 \<Rightarrow> extent_type \<Rightarrow> fs \<Rightarrow> (int \<times> u32 option \<times> fs) res" where
  "fs_alloc_extent obj len type f =
     (if len = 0 then Inr (0, Some 0, f)
      else if cluster_size f = 0 then Inl Undefined
      else
        let cs = ucast (cluster_size f) :: u64;
            clusters_needed = ucast ((len + cs - 1) div cs) :: u32 in
        if num_clusters f < next_cluster f + clusters_needed then Inr (-1, None, f)
        else
          let start = next_cluster f in
          bnd (for_each (\<lambda>i. fs_set_fat (start + of_nat i) (start + of_nat i + 1)) [0..<unat (clusters_needed - 1)]
                (f\<lparr>next_cluster := next_cluster f + clusters_needed\<rparr>)) (\<lambda>f.
          bnd (fs_set_fat (start + clusters_needed - 1) FAT_ENTRY_EOC f) (\<lambda>f.
          Inr (0, Some start,
               fs_add_extent obj (data_offset f + ucast (start - FAT_CLUSTER_ZERO) * cs)
                 (ucast clusters_needed * cs) type f))))"

definition boot_stores :: "u64 \<Rightarrow> u64 \<Rightarrow> u64 \<Rightarrow> (nat \<times> bytes) list" where
  "boot_stores sectors_per_cluster total_sectors fat_sectors =
     [(3, strpadcpy [0x46, 0x41, 0x54, 0x42, 0x4C, 0x4F, 0x43, 0x4B] 0x20 8),
      (11, le16_bytes DEFAULT_SECTOR_SIZE), (13, [ucast sectors_per_cluster]), (14, le16_bytes 3), (16, [1]),
      (21, [0xF8]), (24, le16_bytes 42), (26, le16_bytes 42), (32, le32_bytes (ucast total_sectors)),
      (36, le32_bytes (ucast fat_sectors)), (48, le16_bytes 1), (50, le16_bytes 2), (64, [0x00]), (66, [0x29]),
      (67, le32_bytes 0x42424242),
      (71, strpadcpy [0x46, 0x41, 0x54, 0x42, 0x4C, 0x4F, 0x43, 0x4B] 0x20 11),
      (82, strpadcpy [0x46, 0x41, 0x54, 0x33, 0x32] 0x20 8), (510, [0x55, 0xAA])]"

definition info_stores :: "(nat \<times> bytes) list" where
  "info_stores =
     [(0, [0x52, 0x52, 0x61, 0x41]), (484, [0x72, 0x72, 0x41, 0x61]), (488, le32_bytes (-1)),
      (492, le32_bytes FAT_CLUSTER_ZERO), (510, [0x55, 0xAA])]"

text \<open>
  \<open>ok\<close> tells whether \<^verbatim>\<open>malloc\<close> gives the table. The results are the return value, the volume
  and what is stored through \<^verbatim>\<open>total_size_out\<close>.
\<close>

definition fs_init :: "bool \<Rightarrow> u16 \<Rightarrow> u64 \<Rightarrow> fs \<Rightarrow> (int \<times> u64 option \<times> fs) res" where
  "fs_init ok cs data_size f =
     (if cs = 0 then Inl Undefined
      else
        let sector_size = ucast DEFAULT_SECTOR_SIZE :: u64;
            sectors_per_cluster = ucast (cs div DEFAULT_SECTOR_SIZE) :: u64;
            data_clusters = ucast ((data_size + ucast cs - 1) div ucast cs) :: u32;
            data_sectors = ucast data_clusters * sectors_per_cluster;
            fat_sectors = ucast ((data_clusters + 2 + 128 - 1) div 128) :: u64;
            reserved_sectors = 3 :: u64;
            total_sectors = reserved_sectors + fat_sectors + data_sectors in
        bnd (put_all (boot_stores sectors_per_cluster total_sectors fat_sectors) (replicate 512 0)) (\<lambda>bs.
        bnd (put_all info_stores (replicate 512 0)) (\<lambda>is.
        let f = f\<lparr>cluster_size := cs, boot := bs, fs_info := is,
                  num_clusters := FAT_CLUSTER_ZERO + data_clusters, next_cluster := FAT_CLUSTER_ZERO,
                  fat_size := fat_sectors * sector_size\<rparr> in
        if \<not> ok then Inr (MALLOC_FAIL, None, f)
        else
          let f = f\<lparr>fat := replicate (sz (fat_size f)) 0,
                    data_offset := (reserved_sectors + fat_sectors) * sector_size, extents := []\<rparr>;
              f = fs_add_extent 0 0 sector_size EXTENT_TYPE_BOOT f;
              f = fs_add_extent 0 sector_size sector_size EXTENT_TYPE_INFO f;
              f = fs_add_extent 0 (2 * sector_size) sector_size EXTENT_TYPE_BOOT f;
              f = fs_add_extent 0 (reserved_sectors * sector_size) (fat_size f) EXTENT_TYPE_FAT f in
          Inr (0, Some (total_sectors * sector_size), f))))"

definition fs_set_rootdir_start :: "u32 \<Rightarrow> fs \<Rightarrow> fs" where
  "fs_set_rootdir_start rootdir_start f = f\<lparr>boot := blit (boot f) 44 (le32_bytes rootdir_start)\<rparr>"

definition fs_update_free_clusters :: "fs \<Rightarrow> fs" where
  "fs_update_free_clusters f =
     f\<lparr>fs_info := blit (fs_info f) 488 (le32_bytes (num_clusters f - next_cluster f))\<rparr>"

section \<open>Finding extents\<close>

text \<open>
  The search walks \<open>es\<close>, the chain from the head or from the successor of \<^verbatim>\<open>last\<close>. The result is the
  extent, the chain behind it, and the three offsets.
\<close>

fun fs_find_extent ::
  "u64 \<Rightarrow> u64 \<Rightarrow> extent list \<Rightarrow> (extent \<times> extent list \<times> u64 \<times> u64 \<times> u64) option res" where
  "fs_find_extent start len [] = Inr None"
| "fs_find_extent start len (e # es) =
     (let e_end = e_start e + e_len e; fin = start + len in
      if e_end \<le> start then fs_find_extent start len es
      else if fin \<le> e_start e then fs_find_extent start len es
      else
        let (r_rel_start, e_rel_start, rel_len) =
          (if e_start e \<le> start
           then (0, start - e_start e, if fin \<le> e_end then len else e_end - start)
           else (e_start e - start, 0, if e_end \<le> fin then e_len e else fin - e_start e)) in
        if e_rel_start < e_len e \<and> e_rel_start + rel_len \<le> e_len e \<and> r_rel_start < len \<and> r_rel_start + rel_len \<le> len
        then Inr (Some (e, es, r_rel_start, e_rel_start, rel_len))
        else Inl Undefined)"

section \<open>Reading\<close>

text \<open>The part of the host that reading uses: \<^verbatim>\<open>lseek\<close> and \<^verbatim>\<open>read\<close> by descriptor.\<close>

record statbuf =
  st_size :: u32
  st_dev :: u64
  st_ino :: u64
  st_mtime :: int

record host =
  h_stat :: "bytes \<Rightarrow> statbuf option"
  h_open :: "nat \<Rightarrow> bytes \<Rightarrow> int"
  h_lseek :: "int \<Rightarrow> u32 \<Rightarrow> u32"
  h_read :: "int \<Rightarrow> u32 \<Rightarrow> u32 \<Rightarrow> bytes option"

record fat_st =
  vol :: fs
  files :: "nat \<Rightarrow> fat_file"
  dirs :: "nat \<Rightarrow> fat_dir"
  pool :: pool_st

definition mem_zero :: "bytes \<Rightarrow> nat \<Rightarrow> u64 \<Rightarrow> bytes res" where
  "mem_zero b off n = put_bytes b off (replicate (sz n) 0)"

definition mem_copy :: "bytes \<Rightarrow> nat \<Rightarrow> bytes \<Rightarrow> u64 \<Rightarrow> u64 \<Rightarrow> bytes res" where
  "mem_copy dst at src off n =
     (if unat off + sz n \<le> length src then put_bytes dst at (take (sz n) (drop (unat off) src)) else Inl Undefined)"

text \<open>\<open>out\<close> is the caller's buffer and \<open>at\<close> the position in it.\<close>

definition buffer_read :: "bytes \<Rightarrow> u64 \<Rightarrow> bytes \<Rightarrow> nat \<Rightarrow> u64 \<Rightarrow> u64 \<Rightarrow> (int \<times> bytes) res" where
  "buffer_read buf buf_len out at off len =
     (if buf_len \<le> off then bnd (mem_zero out at len) (\<lambda>out. Inr (0, out))
      else
        bnd (if buf_len < off + len
             then bnd (mem_zero out (at + unat (buf_len - off)) (len - (buf_len - off))) (\<lambda>out. Inr (out, buf_len - off))
             else Inr (out, len)) (\<lambda>(out, len).
        if off < buf_len \<and> off + len \<le> buf_len then bnd (mem_copy out at buf off len) (\<lambda>out. Inr (0, out))
        else Inl Undefined))"

definition file_check_metadata :: "host \<Rightarrow> fat_file \<Rightarrow> int" where
  "file_check_metadata h f =
     (case h_stat h (f_path f) of None \<Rightarrow> -1 | Some st \<Rightarrow> if f_mtime f \<noteq> st_mtime st then -1 else 0)"

definition file_read ::
  "host \<Rightarrow> fat_file \<Rightarrow> bytes \<Rightarrow> nat \<Rightarrow> u64 \<Rightarrow> u64 \<Rightarrow> pool_st \<Rightarrow> (int \<times> bytes \<times> pool_st) res" where
  "file_read h f buf at off len p =
     (if UINT32_MAX \<le> off then Inr (0, buf, p)
      else
        let len = (if UINT32_MAX < off + len then UINT32_MAX - off else len) in
        if file_check_metadata h f \<noteq> 0 then Inr (SKY_IS_FALLING, buf, p)
        else
          bnd (fdpool_open (h_open h) (Some (f_pfd f)) (f_path f) p) (\<lambda>(fd, p).
          if fd < 0 then Inr (-1, buf, p)
          else
            let sought = h_lseek h fd (ucast len) in
            if sought \<noteq> ucast len then Inr (-1, buf, p)
            else case h_read h fd (ucast len) (ucast len) of
              None \<Rightarrow> Inr (if (- 1 :: u32) \<noteq> ucast len then -1 else 0, buf, p)
            | Some d \<Rightarrow>
                bnd (put_bytes buf at d) (\<lambda>buf.
                Inr (if (of_nat (length d) :: u32) \<noteq> ucast len then -1 else 0, buf, p))))"

definition dir_read :: "fat_dir \<Rightarrow> bytes \<Rightarrow> nat \<Rightarrow> u64 \<Rightarrow> u64 \<Rightarrow> (int \<times> bytes) res" where
  "dir_read d buf at off len = buffer_read (d_entries d) (ucast (d_size d)) buf at off len"

definition with_st :: "fat_st \<Rightarrow> (int \<times> bytes) res \<Rightarrow> (int \<times> bytes \<times> fat_st) res" where
  "with_st s r = bnd r (\<lambda>(i, buf). Inr (i, buf, s))"

definition extent_read :: "host \<Rightarrow> extent \<Rightarrow> bytes \<Rightarrow> nat \<Rightarrow> u64 \<Rightarrow> u64 \<Rightarrow> fat_st \<Rightarrow> (int \<times> bytes \<times> fat_st) res" where
  "extent_read h e buf at off len s =
     (case e_type e of
        EXTENT_TYPE_BOOT \<Rightarrow> with_st s (buffer_read (boot (vol s)) 512 buf at off len)
      | EXTENT_TYPE_INFO \<Rightarrow> with_st s (buffer_read (fs_info (vol s)) 512 buf at off len)
      | EXTENT_TYPE_FAT \<Rightarrow> with_st s (buffer_read (fat (vol s)) (fat_size (vol s)) buf at off len)
      | EXTENT_TYPE_FILE \<Rightarrow>
          bnd (file_read h (files s (e_obj e)) buf at off len (pool s)) (\<lambda>(r, buf, p). Inr (r, buf, s\<lparr>pool := p\<rparr>))
      | EXTENT_TYPE_DIR \<Rightarrow> with_st s (dir_read (dirs s (e_obj e)) buf at off len))"

lemma fs_find_extent_shorter:
  "fs_find_extent start len es = Inr (Some (e, rest, r, off, n)) \<Longrightarrow> length rest < length es"
  by (induction es) (auto simp: Let_def split: if_splits prod.splits)

function read_loop :: "host \<Rightarrow> u64 \<Rightarrow> u64 \<Rightarrow> extent list \<Rightarrow> bytes \<Rightarrow> fat_st \<Rightarrow> (int \<times> bytes \<times> fat_st) res" where
  "read_loop h start len es buf s =
     (case fs_find_extent start len es of
        Inl x \<Rightarrow> Inl x
      | Inr None \<Rightarrow> Inr (0, buf, s)
      | Inr (Some (e, rest, r_start, e_rel, rel_len)) \<Rightarrow>
          bnd (extent_read h e buf (unat r_start) e_rel rel_len s) (\<lambda>(ret, buf, s).
          if ret = SKY_IS_FALLING then Inr (SKY_IS_FALLING, buf, s)
          else if ret \<noteq> 0 then Inr (ret, buf, s)
          else read_loop h start len rest buf s))"
  by pat_completeness auto

termination
  by (relation "measure (\<lambda>(h, start, len, es, buf, s). length es)") (auto dest: fs_find_extent_shorter)

declare read_loop.simps [simp del]

definition fs_read :: "host \<Rightarrow> bytes \<Rightarrow> u64 \<Rightarrow> u64 \<Rightarrow> fat_st \<Rightarrow> (int \<times> bytes \<times> fat_st) res" where
  "fs_read h buf start len s =
     bnd (mem_zero buf 0 len) (\<lambda>buf. read_loop h start len (extents (vol s)) buf s)"

section \<open>What the search finds\<close>

definition lo :: "extent \<Rightarrow> nat" where "lo e = unat (e_start e)"
definition hi :: "extent \<Rightarrow> nat" where "hi e = unat (e_start e) + unat (e_len e)"

definition covers :: "nat \<Rightarrow> extent \<Rightarrow> bool" where
  "covers p e \<longleftrightarrow> lo e \<le> p \<and> p < hi e"

definition overlaps :: "nat \<Rightarrow> nat \<Rightarrow> extent \<Rightarrow> bool" where
  "overlaps a b e \<longleftrightarrow> a < hi e \<and> lo e < b"

definition extent_ok :: "extent \<Rightarrow> bool" where
  "extent_ok e \<longleftrightarrow> 0 < unat (e_len e) \<and> hi e < 2 ^ 64"

lemma word_add_nat: "unat (a :: u64) + unat b < 2 ^ 64 \<Longrightarrow> unat (a + b) = unat a + unat b"
  by (simp add: unat_add_lem [THEN iffD1])

lemma fs_find_extent_skip:
  assumes "extent_ok e" "unat start + unat len < 2 ^ 64" "\<not> overlaps (unat start) (unat start + unat len) e"
  shows "fs_find_extent start len (e # es) = fs_find_extent start len es"
proof -
  have "unat (e_start e + e_len e) = hi e" "unat (start + len) = unat start + unat len"
    using assms by (simp_all add: extent_ok_def hi_def word_add_nat)
  then show ?thesis using assms(3) by (auto simp: Let_def overlaps_def lo_def word_le_nat_alt)
qed

lemma fs_find_extent_hit:
  assumes "extent_ok e" "unat start + unat len < 2 ^ 64" "0 < unat len" "overlaps (unat start) (unat start + unat len) e"
  shows "\<exists>r off n. fs_find_extent start len (e # es) = Inr (Some (e, es, r, off, n)) \<and>
    unat start + unat r = max (unat start) (lo e) \<and> lo e + unat off = max (unat start) (lo e) \<and>
    unat n = min (unat start + unat len) (hi e) - max (unat start) (lo e)"
proof -
  have ends: "unat (e_start e + e_len e) = hi e" "unat (start + len) = unat start + unat len"
    using assms by (simp_all add: extent_ok_def hi_def word_add_nat)
  have outside: "\<not> e_start e + e_len e \<le> start" "\<not> start + len \<le> e_start e"
    using assms(4) ends by (simp_all add: overlaps_def word_le_nat_alt lo_def)
  show ?thesis
  proof (cases "e_start e \<le> start")
    case True
    define n where "n = (if start + len \<le> e_start e + e_len e then len else e_start e + e_len e - start)"
    have u: "unat (start - e_start e) = unat start - lo e" "lo e \<le> unat start"
      using True by (simp_all add: lo_def unat_sub word_le_nat_alt)
    have n: "unat n = min (unat start + unat len) (hi e) - unat start"
      using assms(4) ends by (auto simp: n_def overlaps_def word_le_nat_alt unat_sub)
    have "unat (start - e_start e + n) = unat start - lo e + unat n"
      using word_add_nat [of "start - e_start e" n] u n assms(2) by linarith
    then have "start - e_start e < e_len e" "start - e_start e + n \<le> e_len e" "0 < len" "n \<le> len"
      using assms(3,4) u n by (auto simp: word_le_nat_alt word_less_nat_alt hi_def lo_def overlaps_def)
    then have "fs_find_extent start len (e # es) = Inr (Some (e, es, 0, start - e_start e, n))"
      using True outside by (simp add: Let_def flip: n_def)
    then show ?thesis using u n by (intro exI [of _ 0] exI [of _ "start - e_start e"] exI [of _ n]) (simp add: max_def)
  next
    case False
    define n where "n = (if e_start e + e_len e \<le> start + len then e_len e else start + len - e_start e)"
    have u: "unat (e_start e - start) = lo e - unat start" "unat start < lo e"
      using False by (simp_all add: lo_def unat_sub word_le_nat_alt)
    have n: "unat n = min (unat start + unat len) (hi e) - lo e"
      using assms(4) ends by (auto simp: n_def overlaps_def word_le_nat_alt unat_sub hi_def lo_def)
    have "unat (e_start e - start + n) = lo e - unat start + unat n"
      using word_add_nat [of "e_start e - start" n] u n assms(2,4) unfolding overlaps_def by linarith
    then have "0 < e_len e" "n \<le> e_len e" "e_start e - start < len" "e_start e - start + n \<le> len"
      using assms(1,4) u n by (auto simp: word_le_nat_alt word_less_nat_alt hi_def lo_def overlaps_def extent_ok_def)
    then have "fs_find_extent start len (e # es) = Inr (Some (e, es, e_start e - start, 0, n))"
      using False outside by (simp add: Let_def flip: n_def)
    then show ?thesis using u n by (intro exI [of _ "e_start e - start"] exI [of _ 0] exI [of _ n]) (simp add: max_def)
  qed
qed

lemma fs_find_extent_cases:
  assumes "list_all extent_ok es" "unat start + unat len < 2 ^ 64" "0 < unat len"
  obtains (none) "fs_find_extent start len es = Inr None" "\<forall>e \<in> set es. \<not> overlaps (unat start) (unat start + unat len) e"
  | (hit) before e rest r off n where "es = before @ e # rest"
      "fs_find_extent start len es = Inr (Some (e, rest, r, off, n))"
      "\<forall>e \<in> set before. \<not> overlaps (unat start) (unat start + unat len) e" "overlaps (unat start) (unat start + unat len) e"
      "unat start + unat r = max (unat start) (lo e)" "lo e + unat off = max (unat start) (lo e)"
      "unat n = min (unat start + unat len) (hi e) - max (unat start) (lo e)"
proof -
  have "fs_find_extent start len (before @ es) = fs_find_extent start len es"
    if "\<forall>e \<in> set before. \<not> overlaps (unat start) (unat start + unat len) e" "list_all extent_ok before" for before es
    using that by (induction before) (simp_all add: fs_find_extent_skip [OF _ assms(2)] del: fs_find_extent.simps(2))
  note skip = this
  show thesis
  proof (cases "\<exists>e \<in> set es. overlaps (unat start) (unat start + unat len) e")
    case False
    then show ?thesis using none skip [of es "[]"] assms(1) by simp
  next
    case True
    obtain before e rest where split: "es = before @ e # rest" "overlaps (unat start) (unat start + unat len) e"
      "\<forall>e \<in> set before. \<not> overlaps (unat start) (unat start + unat len) e"
      using split_list_first_propE [OF True] by metis
    have "extent_ok e" "list_all extent_ok before" using assms(1) split(1) by simp_all
    then show ?thesis
      using hit [OF split(1) _ split(3,2)] skip [OF split(3), of "e # rest"] split(1)
        fs_find_extent_hit [OF _ assms(2,3) split(2), of rest] by metis
  qed
qed

section \<open>The image\<close>

text \<open>The bytes behind an extent, as a buffer and its length.\<close>

definition extent_buf :: "fat_st \<Rightarrow> extent \<Rightarrow> bytes \<times> u64" where
  "extent_buf s e = (case e_type e of
       EXTENT_TYPE_BOOT \<Rightarrow> (boot (vol s), 512)
     | EXTENT_TYPE_INFO \<Rightarrow> (fs_info (vol s), 512)
     | EXTENT_TYPE_FAT \<Rightarrow> (fat (vol s), fat_size (vol s))
     | EXTENT_TYPE_FILE \<Rightarrow> ([], 0)
     | EXTENT_TYPE_DIR \<Rightarrow> (d_entries (dirs s (e_obj e)), ucast (d_size (dirs s (e_obj e)))))"

definition padded :: "bytes \<times> u64 \<Rightarrow> nat \<Rightarrow> u8" where
  "padded b k = (if k < unat (snd b) then fst b ! k else 0)"

text \<open>Byte \<open>p\<close> of the block device: that of the extent that covers it, and zero between the extents.\<close>

definition image_byte :: "fat_st \<Rightarrow> nat \<Rightarrow> u8" where
  "image_byte s p = (case find (covers p) (extents (vol s)) of
     None \<Rightarrow> 0 | Some e \<Rightarrow> padded (extent_buf s e) (p - lo e))"

definition buffers_ok :: "fat_st \<Rightarrow> bool" where
  "buffers_ok s \<longleftrightarrow> (\<forall>e \<in> set (extents (vol s)). unat (snd (extent_buf s e)) \<le> length (fst (extent_buf s e)))"

lemma sz_small: "unat n < 2 ^ 32 \<Longrightarrow> sz n = unat n"
  by (simp add: sz_def unsigned_ucast_eq unsigned_take_bit_eq take_bit_nat_eq_self_iff)

lemma blit_append: "at + length a + length b \<le> length dst \<Longrightarrow> blit (blit dst (at + length a) b) at a = blit dst at (a @ b)"
  by (simp add: blit_def add.assoc)

lemma buffer_read_padded:
  assumes "unat buf_len \<le> length buf" "unat off + unat len < 2 ^ 64" "unat len < 2 ^ 32" "at + unat len \<le> length out"
  shows "buffer_read buf buf_len out at off len =
    Inr (0, blit out at (map (padded (buf, buf_len)) [unat off..<unat off + unat len]))"
proof -
  have add: "unat (off + len) = unat off + unat len" using assms(2) by (rule word_add_nat)
  consider "buf_len \<le> off" | "off < buf_len" "buf_len < off + len" | "off < buf_len" "off + len \<le> buf_len"
    by fastforce
  then show ?thesis
  proof cases
    case 1
    then have "map (padded (buf, buf_len)) [unat off..<unat off + unat len] = replicate (unat len) 0"
      by (intro replicate_eqI) (auto simp: padded_def word_le_nat_alt)
    then show ?thesis using 1 assms by (simp add: buffer_read_def mem_zero_def put_bytes_def sz_small)
  next
    case 2
    define k where "k = unat buf_len - unat off"
    have k: "unat (buf_len - off) = k" "unat (len - (buf_len - off)) = unat len - k" "k \<le> unat len" "0 < k"
      "unat buf_len = unat off + k"
      using 2 add by (simp_all add: k_def word_less_nat_alt word_le_nat_alt unat_sub)
    have "[unat off..<unat off + unat len] = [unat off..<unat buf_len] @ [unat buf_len..<unat buf_len + (unat len - k)]"
      using k upt_add_eq_append [of "unat off" "unat buf_len" "unat len - k"] by simp
    moreover have "map (padded (buf, buf_len)) [unat off..<unat buf_len] = take k (drop (unat off) buf)"
      using k assms(1) by (intro nth_equalityI) (auto simp: padded_def)
    moreover have "map (padded (buf, buf_len)) [unat buf_len..<unat buf_len + (unat len - k)] = replicate (unat len - k) 0"
      by (intro replicate_eqI) (auto simp: padded_def)
    moreover have "\<not> buf_len \<le> off" using 2 by simp
    ultimately show ?thesis
      using 2 k assms blit_append [of at "take k (drop (unat off) buf)" "replicate (unat len - k) 0" out]
      by (simp add: buffer_read_def mem_zero_def mem_copy_def put_bytes_def sz_small length_blit)
  next
    case 3
    then have "map (padded (buf, buf_len)) [unat off..<unat off + unat len] = take (unat len) (drop (unat off) buf)"
      using assms(1) add by (intro nth_equalityI) (auto simp: padded_def word_le_nat_alt)
    moreover have "\<not> buf_len \<le> off" "\<not> buf_len < off + len" "unat off + unat len \<le> length buf"
      using 3 assms(1) add by (auto simp: word_le_nat_alt word_less_nat_alt)
    ultimately show ?thesis using 3 assms by (simp add: buffer_read_def mem_copy_def put_bytes_def sz_small)
  qed
qed

lemma extent_read_padded:
  assumes "e_type e \<noteq> EXTENT_TYPE_FILE" "unat (snd (extent_buf s e)) \<le> length (fst (extent_buf s e))"
    "unat off + unat len < 2 ^ 64" "unat len < 2 ^ 32" "at + unat len \<le> length out"
  shows "extent_read h e out at off len s =
    Inr (0, blit out at (map (padded (extent_buf s e)) [unat off..<unat off + unat len]), s)"
  using assms buffer_read_padded [of "snd (extent_buf s e)" "fst (extent_buf s e)" off len at out]
  by (cases "e_type e") (simp_all add: extent_read_def extent_buf_def with_st_def dir_read_def)

text \<open>Extents that do not share a byte.\<close>

definition disjoint_extents :: "extent list \<Rightarrow> bool" where
  "disjoint_extents es \<longleftrightarrow> sorted_wrt (\<lambda>a b. hi a \<le> lo b \<or> hi b \<le> lo a) es"

definition overlay :: "fat_st \<Rightarrow> extent list \<Rightarrow> nat \<Rightarrow> u8 \<Rightarrow> u8" where
  "overlay s es p b = (case find (covers p) es of None \<Rightarrow> b | Some e \<Rightarrow> padded (extent_buf s e) (p - lo e))"

lemma overlay_skip: "\<forall>e \<in> set before. \<not> covers p e \<Longrightarrow> overlay s (before @ es) p b = overlay s es p b"
  by (induction before) (simp_all add: overlay_def)

lemma overlay_hit:
  assumes "disjoint_extents (e # es)" "covers p e"
  shows "overlay s (e # es) p b = padded (extent_buf s e) (p - lo e)" "overlay s es p b = b"
proof -
  have "\<forall>x \<in> set es. \<not> covers p x" using assms by (auto simp: disjoint_extents_def covers_def)
  then show "overlay s es p b = b" using overlay_skip [of es p s "[]"] by (simp add: overlay_def)
qed (use assms in \<open>simp add: overlay_def\<close>)

text \<open>One step of the loop stores the part of the extent that lies in the range.\<close>

lemma read_extent_bytes:
  assumes "unat start + unat r = max (unat start) (lo e)" "lo e + unat off = max (unat start) (lo e)"
    "unat n = min (unat start + unat len) (hi e) - max (unat start) (lo e)"
    and "unat len \<le> length buf" "i < length buf" "overlaps (unat start) (unat start + unat len) e" "0 < unat len" "extent_ok e"
  shows "blit buf (unat r) (map (padded b) [unat off..<unat off + unat n]) ! i =
    (if i < unat len \<and> covers (unat start + i) e then padded b (unat start + i - lo e) else buf ! i)"
proof -
  have "unat r + unat n \<le> unat len" using assms by (auto simp: overlaps_def extent_ok_def hi_def lo_def)
  moreover have "unat r \<le> i \<and> i < unat r + unat n \<longleftrightarrow> i < unat len \<and> covers (unat start + i) e"
    using assms by (auto simp: covers_def overlaps_def)
  moreover have "unat r \<le> i \<Longrightarrow> unat off + (i - unat r) = unat start + i - lo e" using assms(1,2) by linarith
  ultimately show ?thesis using assms(4,5) by (auto simp: nth_blit)
qed

lemma read_loop_overlay:
  assumes len: "unat start + unat len < 2 ^ 64" "0 < unat len" "unat len < 2 ^ 32"
  shows "list_all extent_ok es \<Longrightarrow> disjoint_extents es \<Longrightarrow> unat len \<le> length buf \<Longrightarrow>
    (\<And>e. e \<in> set es \<Longrightarrow> unat (snd (extent_buf s e)) \<le> length (fst (extent_buf s e))) \<Longrightarrow>
    (\<And>e. e \<in> set es \<Longrightarrow> overlaps (unat start) (unat start + unat len) e \<Longrightarrow> e_type e \<noteq> EXTENT_TYPE_FILE) \<Longrightarrow>
    \<exists>buf'. read_loop h start len es buf s = Inr (0, buf', s) \<and> length buf' = length buf \<and>
      (\<forall>i < length buf. buf' ! i = (if i < unat len then overlay s es (unat start + i) (buf ! i) else buf ! i))"
proof (induction es arbitrary: buf rule: length_induct)
  case (1 es)
  have out: "\<not> overlaps (unat start) (unat start + unat len) x \<Longrightarrow> i < unat len \<Longrightarrow> \<not> covers (unat start + i) x" for x i
    by (auto simp: overlaps_def covers_def)
  from 1(2) len(1,2) show ?case
  proof (cases rule: fs_find_extent_cases [case_names none hit])
    case none
    have "overlay s es (unat start + i) b = b" if "i < unat len" for i b
      using overlay_skip [of es "unat start + i" s "[]" b] out [OF _ that] none(2) by (simp add: overlay_def)
    then show ?thesis using none(1) by (subst read_loop.simps) simp
  next
    case (hit before e rest r off n)
    define b1 where "b1 = blit buf (unat r) (map (padded (extent_buf s e)) [unat off..<unat off + unat n])"
    have e: "extent_ok e" "disjoint_extents (e # rest)" using 1(2,3) hit(1) by (simp_all add: disjoint_extents_def sorted_wrt_append)
    have n: "unat r + unat n \<le> unat len" "unat off + unat n < 2 ^ 64"
      using hit(4-7) e(1) len(2) by (auto simp: overlaps_def extent_ok_def hi_def lo_def)
    have rd: "extent_read h e buf (unat r) off n s = Inr (0, b1, s)"
      unfolding b1_def using 1(4-6) hit(1,4) n len(3) by (intro extent_read_padded) auto
    have lb: "length b1 = length buf" using n(1) 1(4) by (simp add: b1_def length_blit)
    obtain b2 where b2: "read_loop h start len rest b1 s = Inr (0, b2, s)" "length b2 = length b1"
      "\<forall>i < length b1. b2 ! i = (if i < unat len then overlay s rest (unat start + i) (b1 ! i) else b1 ! i)"
      using 1(1) [rule_format, of rest b1] 1(2-6) hit(1) lb e(2) by (auto simp: disjoint_extents_def)
    have "b2 ! i = (if i < unat len then overlay s es (unat start + i) (buf ! i) else buf ! i)" if i: "i < length buf" for i
      using b2(3) lb i read_extent_bytes [OF hit(5-7) 1(4) i hit(4) len(2) e(1), of "extent_buf s e"]
        overlay_hit [OF e(2), of "unat start + i" s] overlay_skip [of before "unat start + i" s "e # rest"] out [of _ i] hit(1,3)
      by (auto simp: b1_def [symmetric] overlay_def)
    then show ?thesis using hit(2) rd b2(1,2) lb by (subst read_loop.simps) (simp add: SKY_IS_FALLING_def)
  qed
qed

lemma fs_read_ok:
  assumes "list_all extent_ok (extents (vol s))" "disjoint_extents (extents (vol s))" "buffers_ok s"
    and "unat start + unat len < 2 ^ 64" "0 < unat len" "unat len < 2 ^ 32" "unat len \<le> length buf"
    and "\<forall>e \<in> set (extents (vol s)). overlaps (unat start) (unat start + unat len) e \<longrightarrow> e_type e \<noteq> EXTENT_TYPE_FILE"
  shows "fs_read h buf start len s =
    Inr (0, map (image_byte s) [unat start..<unat start + unat len] @ drop (unat len) buf, s)"
proof -
  define b0 where "b0 = blit buf 0 (replicate (unat len) 0)"
  have b0: "mem_zero buf 0 len = Inr b0" "length b0 = length buf" "\<And>i. i < unat len \<Longrightarrow> b0 ! i = 0"
    "\<And>i. unat len \<le> i \<Longrightarrow> i < length buf \<Longrightarrow> b0 ! i = buf ! i"
    using assms(6,7) by (simp_all add: mem_zero_def put_bytes_def sz_small b0_def length_blit nth_blit)
  obtain b1 where b1: "read_loop h start len (extents (vol s)) b0 s = Inr (0, b1, s)" "length b1 = length b0"
    "\<forall>i < length b0. b1 ! i = (if i < unat len then overlay s (extents (vol s)) (unat start + i) (b0 ! i) else b0 ! i)"
    using read_loop_overlay [OF assms(4-6,1,2), of b0 s h] assms(3,7,8) b0(2) by (auto simp: buffers_ok_def)
  have "b1 = map (image_byte s) [unat start..<unat start + unat len] @ drop (unat len) buf"
    using b1(2,3) b0(2-) assms(7)
    by (intro nth_equalityI) (auto simp: nth_append overlay_def image_byte_def)
  then show ?thesis using b0(1) b1(1) by (simp add: fs_read_def)
qed

section \<open>Allocating clusters\<close>

definition fat_entry :: "bytes \<Rightarrow> nat \<Rightarrow> u32" where
  "fat_entry b c = le32 b (4 * c)"

text \<open>The clusters a driver visits from cluster \<open>c\<close> on; no chain is longer than the table.\<close>

fun fat_chain :: "nat \<Rightarrow> bytes \<Rightarrow> u32 \<Rightarrow> u32 list" where
  "fat_chain 0 b c = []"
| "fat_chain (Suc n) b c =
     (if c < 2 \<or> 0x0FFFFFF7 \<le> c \<or> length b < 4 * unat c + 4 then []
      else c # fat_chain n b (fat_entry b (unat c) AND 0x0FFFFFFF))"

definition fs_ok :: "fs \<Rightarrow> bool" where
  "fs_ok f \<longleftrightarrow> 512 \<le> unat (cluster_size f) \<and> 2 \<le> unat (next_cluster f) \<and> unat (next_cluster f) \<le> unat (num_clusters f) \<and>
     unat (num_clusters f) \<le> 0x0FFFFFF7 \<and> 4 * unat (num_clusters f) \<le> length (fat f) \<and>
     unat (data_offset f) + (unat (num_clusters f) - 2) * unat (cluster_size f) < 2 ^ 64 \<and>
     list_all extent_ok (extents f) \<and> disjoint_extents (extents f) \<and>
     (\<forall>e \<in> set (extents f). hi e \<le> unat (data_offset f) + (unat (next_cluster f) - 2) * unat (cluster_size f)) \<and>
     length (boot f) = 512 \<and> length (fs_info f) = 512 \<and> length (fat f) = unat (fat_size f)"

lemma fs_set_fat_entry:
  assumes "4 * N \<le> length (fat f)" "unat c < N"
  shows "\<exists>b. fs_set_fat c v f = Inr (f\<lparr>fat := b\<rparr>) \<and> length b = length (fat f) \<and>
    (\<forall>j < N. fat_entry b j = (if j = unat c then v else fat_entry (fat f) j))"
proof (intro exI conjI)
  show "fs_set_fat c v f = Inr (f\<lparr>fat := blit (fat f) (4 * unat c) (le32_bytes v)\<rparr>)"
    using assms by (simp add: fs_set_fat_def put32_def put_bytes_def)
  show "length (blit (fat f) (4 * unat c) (le32_bytes v)) = length (fat f)" using assms by (simp add: length_blit)
  show "\<forall>j < N. fat_entry (blit (fat f) (4 * unat c) (le32_bytes v)) j = (if j = unat c then v else fat_entry (fat f) j)"
    using assms by (auto simp: fat_entry_def le32_blit_same intro!: le32_blit_other)
qed

lemma link_clusters:
  assumes "4 * N \<le> length (fat f)" "N < 2 ^ 32" "unat start + k \<le> N"
  shows "\<exists>b. for_each (\<lambda>i. fs_set_fat (start + of_nat i) (start + of_nat i + 1)) [0..<k] f = Inr (f\<lparr>fat := b\<rparr>) \<and>
    length b = length (fat f) \<and>
    (\<forall>j < N. fat_entry b j = (if unat start \<le> j \<and> j < unat start + k then of_nat (j + 1) else fat_entry (fat f) j))"
  using assms(3)
proof (induction k)
  case 0
  then show ?case by (intro exI [of _ "fat f"]) auto
next
  case (Suc k)
  then obtain b where b: "for_each (\<lambda>i. fs_set_fat (start + of_nat i) (start + of_nat i + 1)) [0..<k] f = Inr (f\<lparr>fat := b\<rparr>)"
    "length b = length (fat f)"
    "\<forall>j < N. fat_entry b j = (if unat start \<le> j \<and> j < unat start + k then of_nat (j + 1) else fat_entry (fat f) j)"
    by auto
  have c: "unat (start + of_nat k) = unat start + k" using Suc.prems assms(2) by (simp add: unat_add_of_nat)
  then have v: "start + of_nat k + 1 = of_nat (unat start + k + 1)" by simp
  obtain b' where "fs_set_fat (start + of_nat k) (start + of_nat k + 1) (f\<lparr>fat := b\<rparr>) = Inr (f\<lparr>fat := b'\<rparr>)"
    "length b' = length b"
    "\<forall>j < N. fat_entry b' j = (if j = unat start + k then of_nat (unat start + k + 1) else fat_entry b j)"
    using fs_set_fat_entry [of N "f\<lparr>fat := b\<rparr>" "start + of_nat k" "start + of_nat k + 1"] assms(1) b(2) Suc.prems c v by auto
  then show ?case using b by (intro exI [of _ b']) (auto simp: for_each_append less_Suc_eq)
qed

lemma entry_mask: "unat (v :: u32) < 2 ^ 28 \<Longrightarrow> v AND 0x0FFFFFFF = v"
proof -
  assume "unat v < 2 ^ 28"
  then have "take_bit 28 v = v"
    by (simp add: unsigned_take_bit_eq take_bit_nat_eq_self_iff word_unat_eq_iff)
  then show ?thesis by (simp add: take_bit_eq_mask mask_eq_exp_minus_1)
qed

lemma fat_chain_run:
  assumes "\<forall>j. c \<le> j \<and> j < c + k \<longrightarrow> fat_entry b j = of_nat (j + 1)" "fat_entry b (c + k) = FAT_ENTRY_EOC"
    and "2 \<le> c" "c + k < 0x0FFFFFF7" "4 * (c + k) + 4 \<le> length b" "k + 1 < n"
  shows "fat_chain n b (of_nat c) = map of_nat [c..<c + k + 1]"
  using assms
proof (induction k arbitrary: c n)
  case 0
  then obtain m where n: "n = Suc (Suc m)" by (metis add_0 less_nat_zero_code not0_implies_Suc Suc_less_eq One_nat_def)
  have "unat (of_nat c :: u32) = c" using 0 by (intro unat_of_nat_u32) simp
  then show ?case using 0 by (simp add: n word_less_nat_alt word_le_nat_alt FAT_ENTRY_EOC_def)
next
  case (Suc k)
  then obtain m where n: "n = Suc m" by (cases n) auto
  have c: "unat (of_nat c :: u32) = c" "unat (of_nat (c + 1) :: u32) = c + 1"
    using Suc.prems by (intro unat_of_nat_u32; simp)+
  have v: "(of_nat (c + 1) :: u32) AND 0x0FFFFFFF = of_nat (c + 1)"
    using Suc.prems c(2) by (intro entry_mask) simp
  have "fat_chain m b (of_nat (c + 1)) = map of_nat [c + 1..<c + 1 + k + 1]"
    using Suc.prems by (intro Suc.IH) (auto simp: n)
  moreover have "[c..<c + Suc k + 1] = c # [c + 1..<c + 1 + k + 1]" by (subst upt_conv_Cons) simp_all
  ultimately show ?case
    using Suc.prems(1,3-5) c v by (simp add: n word_less_nat_alt word_le_nat_alt del: upt_Suc of_nat_add of_nat_Suc)
qed

definition clusters_for :: "fs \<Rightarrow> u64 \<Rightarrow> nat" where
  "clusters_for f len = (unat len + unat (cluster_size f) - 1) div unat (cluster_size f)"

lemma clusters_needed:
  assumes "512 \<le> unat (cluster_size f)" "0 < unat len" "unat len < 2 ^ 32"
  defines "cs \<equiv> ucast (cluster_size f) :: u64"
  shows "unat (ucast ((len + cs - 1) div cs) :: u32) = clusters_for f len" "0 < clusters_for f len" "clusters_for f len \<le> 2 ^ 24"
    "unat len \<le> clusters_for f len * unat (cluster_size f)"
proof -
  have cs: "unat cs = unat (cluster_size f)" "unat (cluster_size f) < 2 ^ 16"
    using unsigned_less [of "cluster_size f", where ?'a = nat] by (simp_all add: cs_def unat_ucast_upcast)
  have "unat (len + cs) = unat len + unat cs" using assms(3) cs by (intro word_add_nat) simp
  then have "unat (len + cs - 1) = unat len + unat cs - 1"
    using assms(2) by (subst unat_sub) (simp_all add: word_le_nat_alt)
  then have q: "unat ((len + cs - 1) div cs) = clusters_for f len" using cs by (simp add: unat_div_distrib clusters_for_def)
  have "clusters_for f len \<le> (unat len + unat (cluster_size f) - 1) div 512"
    unfolding clusters_for_def using assms(1) by (intro div_le_mono2) simp_all
  also have "\<dots> \<le> (2 ^ 32 + 2 ^ 16) div 512" using assms(3) cs(2) by (intro div_le_mono) simp
  finally show "clusters_for f len \<le> 2 ^ 24" by simp
  then show "unat (ucast ((len + cs - 1) div cs) :: u32) = clusters_for f len"
    using q by (simp add: unsigned_ucast_eq unsigned_take_bit_eq take_bit_nat_eq_self_iff)
  show "0 < clusters_for f len" using assms(1,2) by (simp add: clusters_for_def div_greater_zero_iff)
  show "unat len \<le> clusters_for f len * unat (cluster_size f)"
    unfolding clusters_for_def using assms(1) ceiling_div_bounds(1) [of "unat (cluster_size f)" "unat len"] by (simp add: mult.commute)
qed

text \<open>What an allocation of \<open>n\<close> clusters leaves behind.\<close>

definition allocated :: "nat \<Rightarrow> extent_type \<Rightarrow> nat \<Rightarrow> fs \<Rightarrow> fs \<Rightarrow> bool" where
  "allocated obj type n f f' \<longleftrightarrow>
     (\<exists>e. extents f' = e # extents f \<and> e_obj e = obj \<and> e_type e = type \<and>
        lo e = unat (data_offset f) + (unat (next_cluster f) - 2) * unat (cluster_size f) \<and>
        hi e = lo e + n * unat (cluster_size f)) \<and>
     fat_chain (length (fat f') div 4) (fat f') (next_cluster f) = map of_nat [unat (next_cluster f)..<unat (next_cluster f) + n] \<and>
     (\<forall>c < unat (next_cluster f). fat_entry (fat f') c = fat_entry (fat f) c) \<and>
     unat (next_cluster f') = unat (next_cluster f) + n \<and>
     cluster_size f' = cluster_size f \<and> num_clusters f' = num_clusters f \<and> data_offset f' = data_offset f \<and>
     boot f' = boot f \<and> fs_info f' = fs_info f \<and> fat_size f' = fat_size f"

lemma unat_extent_start:
  fixes f :: fs
  assumes "fs_ok f" "unat (next_cluster f) + n \<le> unat (num_clusters f)" and n: "unat k = n"
  defines "cs \<equiv> ucast (cluster_size f) :: u64"
  shows "unat (data_offset f + ucast (next_cluster f - FAT_CLUSTER_ZERO) * cs) =
      unat (data_offset f) + (unat (next_cluster f) - 2) * unat (cluster_size f)"
    and "unat (ucast (k :: u32) * cs) = n * unat (cluster_size f)"
    and "unat (data_offset f) + (unat (next_cluster f) - 2) * unat (cluster_size f) + n * unat (cluster_size f) < 2 ^ 64"
proof -
  have cs: "unat cs = unat (cluster_size f)" by (simp add: cs_def unat_ucast_upcast)
  have c: "unat (ucast (next_cluster f - FAT_CLUSTER_ZERO) :: u64) = unat (next_cluster f) - 2"
    using assms(1) by (subst unat_ucast_upcast) (simp_all add: fs_ok_def FAT_CLUSTER_ZERO_def unat_sub word_le_nat_alt)
  have "(unat (next_cluster f) - 2) * unat (cluster_size f) + n * unat (cluster_size f) =
      (unat (next_cluster f) - 2 + n) * unat (cluster_size f)" by (simp add: distrib_right)
  also have "\<dots> \<le> (unat (num_clusters f) - 2) * unat (cluster_size f)"
    using assms(1,2) by (intro mult_right_mono) (auto simp: fs_ok_def)
  finally show bound: "unat (data_offset f) + (unat (next_cluster f) - 2) * unat (cluster_size f) + n * unat (cluster_size f) < 2 ^ 64"
    using assms(1) by (simp add: fs_ok_def)
  have m: "unat (ucast (next_cluster f - FAT_CLUSTER_ZERO) * cs) = (unat (next_cluster f) - 2) * unat (cluster_size f)"
    using bound c cs by (subst unat_mult_lem [THEN iffD1]) simp_all
  show "unat (data_offset f + ucast (next_cluster f - FAT_CLUSTER_ZERO) * cs) =
      unat (data_offset f) + (unat (next_cluster f) - 2) * unat (cluster_size f)"
    using word_add_nat [of "data_offset f" "ucast (next_cluster f - FAT_CLUSTER_ZERO) * cs"] m bound by simp
  show "unat (ucast k * cs) = n * unat (cluster_size f)"
    using bound cs n by (subst unat_mult_lem [THEN iffD1]) (simp_all add: unat_ucast_upcast)
qed

lemma allocated_ok:
  assumes ok: "fs_ok f" and a: "allocated obj type n f f'" and n: "0 < n" "unat (next_cluster f) + n \<le> unat (num_clusters f)"
    and len: "length (fat f') = length (fat f)"
  shows "fs_ok f'"
proof -
  obtain e where e: "extents f' = e # extents f" "hi e = lo e + n * unat (cluster_size f)"
    "lo e = unat (data_offset f) + (unat (next_cluster f) - 2) * unat (cluster_size f)"
    using a by (auto simp: allocated_def)
  have b: "hi e < 2 ^ 64"
    using unat_extent_start(3) [OF ok n(2), of "of_nat n"] ok n(2) unsigned_less [of "num_clusters f", where ?'a = nat] e(2,3)
    by (simp add: unat_of_nat_u32)
  have "0 < n * unat (cluster_size f)" using ok n(1) by (simp add: fs_ok_def)
  then have "extent_ok e" using b e(2) by (simp add: extent_ok_def hi_def lo_def)
  moreover have "hi e = unat (data_offset f') + (unat (next_cluster f') - 2) * unat (cluster_size f')"
    using a e(2,3) ok by (simp add: allocated_def fs_ok_def distrib_right [symmetric])
  moreover have "disjoint_extents (e # extents f)"
    using ok e(3) by (auto simp: fs_ok_def disjoint_extents_def)
  moreover have "\<forall>x \<in> set (extents f). hi x \<le> hi e" using ok e(2,3) by (fastforce simp: fs_ok_def)
  ultimately show ?thesis using ok a n(2) len e(1) by (auto simp: fs_ok_def allocated_def)
qed

lemma fs_alloc_extent_fits:
  assumes ok: "fs_ok f" and len: "0 < unat len" "unat len < 2 ^ 32"
    and room: "unat (next_cluster f) + clusters_for f len \<le> unat (num_clusters f)"
  shows "\<exists>f'. fs_alloc_extent obj len type f = Inr (0, Some (next_cluster f), f') \<and>
    allocated obj type (clusters_for f len) f f' \<and> fs_ok f'"
proof -
  define n where "n = clusters_for f len"
  define cs where "cs = (ucast (cluster_size f) :: u64)"
  define k where "k = (ucast ((len + cs - 1) div cs) :: u32)"
  have g: "512 \<le> unat (cluster_size f)" "2 \<le> unat (next_cluster f)" "unat (num_clusters f) \<le> 0x0FFFFFF7"
    "4 * unat (num_clusters f) \<le> length (fat f)" using ok by (auto simp: fs_ok_def)
  have k: "unat k = n" "0 < n" using clusters_needed [OF g(1) len] by (simp_all add: k_def cs_def n_def)
  have room': "unat (next_cluster f) + n \<le> unat (num_clusters f)" using room by (simp add: n_def)
  have sum: "unat (next_cluster f + k) = unat (next_cluster f) + n"
    using k room' g(3) unat_add_lem [of "next_cluster f" k] by simp
  have last: "unat (next_cluster f + k - 1) = unat (next_cluster f) + n - 1"
    using sum k by (subst unat_sub) (simp_all add: word_le_nat_alt)
  have km: "unat (k - 1) = n - 1" using k by (subst unat_sub) (simp_all add: word_le_nat_alt)
  define f1 where "f1 = f\<lparr>next_cluster := next_cluster f + k\<rparr>"
  have f1: "fat f1 = fat f" "4 * unat (num_clusters f) \<le> length (fat f1)" "unat (num_clusters f) < 2 ^ 32"
    "unat (next_cluster f) + (n - 1) \<le> unat (num_clusters f)"
    using g(3,4) room' by (simp_all add: f1_def)
  obtain b1 where b1: "for_each (\<lambda>i. fs_set_fat (next_cluster f + of_nat i) (next_cluster f + of_nat i + 1)) [0..<n - 1] f1 =
      Inr (f1\<lparr>fat := b1\<rparr>)" "length b1 = length (fat f)"
    "\<forall>j < unat (num_clusters f). fat_entry b1 j =
      (if unat (next_cluster f) \<le> j \<and> j < unat (next_cluster f) + (n - 1) then of_nat (j + 1) else fat_entry (fat f) j)"
    using link_clusters [OF f1(2-4)] unfolding f1(1) by blast
  have pre: "4 * unat (num_clusters f) \<le> length (fat (f1\<lparr>fat := b1\<rparr>))" "unat (next_cluster f + k - 1) < unat (num_clusters f)"
    using g(4) b1(2) last room' k(2) by simp_all
  obtain b2 where b2: "fs_set_fat (next_cluster f + k - 1) FAT_ENTRY_EOC (f1\<lparr>fat := b1\<rparr>) = Inr (f1\<lparr>fat := b2\<rparr>)"
    "length b2 = length (fat f)"
    "\<forall>j < unat (num_clusters f). fat_entry b2 j = (if j = unat (next_cluster f) + n - 1 then FAT_ENTRY_EOC else fat_entry b1 j)"
    using fs_set_fat_entry [OF pre, of FAT_ENTRY_EOC] b1(2) last by auto
  define f' where "f' = fs_add_extent obj (data_offset f + ucast (next_cluster f - FAT_CLUSTER_ZERO) * cs) (ucast k * cs) type (f1\<lparr>fat := b2\<rparr>)"
  have "\<not> num_clusters f < next_cluster f + k" "len \<noteq> 0" "cluster_size f \<noteq> 0"
    using sum room' len g(1) by (auto simp: word_less_nat_alt)
  then have run: "fs_alloc_extent obj len type f = Inr (0, Some (next_cluster f), f')"
    using b1(1) b2(1) km
    by (simp add: fs_alloc_extent_def Let_def f'_def flip: cs_def k_def f1_def) (simp add: f1_def)
  have "fat_chain (length b2 div 4) b2 (of_nat (unat (next_cluster f))) =
      map of_nat [unat (next_cluster f)..<unat (next_cluster f) + (n - 1) + 1]"
    using b1(3) b2(2,3) g room' k(2) by (intro fat_chain_run) auto
  moreover have "\<forall>c < unat (next_cluster f). fat_entry b2 c = fat_entry (fat f) c"
    using b1(3) b2(3) room' k(2) by auto
  ultimately have a: "allocated obj type n f f'"
    using unat_extent_start(1,2) [OF ok room' k(1)] sum k(2)
    by (simp add: allocated_def f'_def fs_add_extent_def f1_def lo_def hi_def cs_def)
  have "fs_ok f'"
    using b2(2) by (intro allocated_ok [OF ok a k(2) room']) (simp add: f'_def fs_add_extent_def)
  then show ?thesis using run a by (auto simp: n_def)
qed

lemma fs_alloc_extent_full:
  assumes ok: "fs_ok f" and len: "0 < unat len" "unat len < 2 ^ 32"
    and room: "unat (num_clusters f) < unat (next_cluster f) + clusters_for f len"
  shows "fs_alloc_extent obj len type f = Inr (-1, None, f)"
proof -
  have g: "512 \<le> unat (cluster_size f)" "unat (next_cluster f) \<le> 0x0FFFFFF7" using ok by (auto simp: fs_ok_def)
  note c = clusters_needed [OF g(1) len]
  have "num_clusters f < next_cluster f + ucast ((len + ucast (cluster_size f) - 1) div ucast (cluster_size f))"
    using c(1,3) room g(2) unat_add_lem [of "next_cluster f" "ucast ((len + ucast (cluster_size f) - 1) div ucast (cluster_size f)) :: u32"]
    by (simp add: word_less_nat_alt)
  then show ?thesis using len g by (auto simp: fs_alloc_extent_def Let_def)
qed

section \<open>A new volume\<close>

lemma byte_of_take: "take (Suc 0) (drop i b) = [x] \<Longrightarrow> b ! i = x"
proof -
  assume t: "take (Suc 0) (drop i b) = [x]"
  then have "i < length b" by (cases "i < length b") simp_all
  then show ?thesis using t by (simp add: Cons_nth_drop_Suc [symmetric])
qed

lemma boot_reads:
  obtains bs where "put_all (boot_stores spc tot sectors) (replicate 512 0) = Inr bs" "length bs = 512"
    "le16 bs 11 = 512" "bs ! 13 = ucast spc" "le16 bs 14 = 3" "bs ! 16 = 1"
    "le32 bs 32 = ucast tot" "le32 bs 36 = ucast sectors" "take 2 (drop 510 bs) = [0x55, 0xAA]"
proof -
  obtain bs where bs: "put_all (boot_stores spc tot sectors) (replicate 512 0) = Inr bs"
    using put_all_ok [of "replicate 512 0" "boot_stores spc tot sectors"] by (auto simp: boot_stores_def strpadcpy_def)
  note rd = put_all_read [OF bs] put_all_le16 [OF bs] put_all_le32 [OF bs]
  show thesis
  proof (rule that [OF bs])
    show "length bs = 512" using put_all_length [OF bs] by simp
    show "le16 bs 11 = 512" by (rule rd(3) [of 1]) (simp_all add: boot_stores_def clear_of_def strpadcpy_def DEFAULT_SECTOR_SIZE_def)
    show "le16 bs 14 = 3" by (rule rd(3) [of 3]) (simp_all add: boot_stores_def clear_of_def strpadcpy_def)
    show "le32 bs 32 = ucast tot" by (rule rd(4) [of 8]) (simp_all add: boot_stores_def clear_of_def strpadcpy_def)
    show "le32 bs 36 = ucast sectors" by (rule rd(4) [of 9]) (simp_all add: boot_stores_def clear_of_def strpadcpy_def)
    show "bs ! 13 = ucast spc" using rd(1) [of 2 13 "[ucast spc]"] by (simp add: byte_of_take boot_stores_def clear_of_def strpadcpy_def)
    show "bs ! 16 = 1" using rd(1) [of 4 16 "[1]"] by (simp add: byte_of_take boot_stores_def clear_of_def strpadcpy_def)
    show "take 2 (drop 510 bs) = [0x55, 0xAA]" using rd(1) [of 17 510 "[0x55, 0xAA]"] by (simp add: numeral_2_eq_2 boot_stores_def clear_of_def strpadcpy_def)
  qed
qed

definition data_clusters :: "u16 \<Rightarrow> u64 \<Rightarrow> nat" where
  "data_clusters cs data_size = (unat data_size + unat cs - 1) div unat cs"

lemma data_clusters_word:
  assumes "0 < unat cs" "unat data_size < 2 ^ 63" "data_clusters cs data_size < 2 ^ 32"
  shows "unat (ucast ((data_size + ucast cs - 1) div ucast cs) :: u32) = data_clusters cs data_size"
    "unat data_size \<le> data_clusters cs data_size * unat cs"
proof -
  have cs: "unat (ucast cs :: u64) = unat cs" "unat cs < 2 ^ 16"
    using unsigned_less [of cs, where ?'a = nat] by (simp_all add: unat_ucast_upcast)
  have "unat (data_size + ucast cs) = unat data_size + unat cs"
    using assms(2) cs word_add_nat [of data_size "ucast cs"] by simp
  then have "unat (data_size + ucast cs - 1) = unat data_size + unat cs - 1"
    using assms(1) by (subst unat_sub) (simp_all add: word_le_nat_alt)
  then have "unat ((data_size + ucast cs - 1) div ucast cs) = data_clusters cs data_size"
    using cs by (simp add: unat_div_distrib data_clusters_def)
  then show "unat (ucast ((data_size + ucast cs - 1) div ucast cs) :: u32) = data_clusters cs data_size"
    using assms(3) by (simp add: unsigned_ucast_eq unsigned_take_bit_eq take_bit_nat_eq_self_iff)
  show "unat data_size \<le> data_clusters cs data_size * unat cs"
    unfolding data_clusters_def using assms(1) ceiling_div_bounds(1) [of "unat cs" "unat data_size"] by (simp add: mult.commute)
qed

lemma fat_sectors_word:
  assumes "unat d + 2 \<le> 0x0FFFFFF7"
  defines "n \<equiv> (unat d + 129) div 128" and "w \<equiv> ucast ((d + 2 + 128 - 1) div 128 :: u32) :: u64"
  shows "unat w = n" "n \<le> 2 ^ 21 + 1" "4 * (unat d + 2) \<le> 512 * n" "unat (w * 512) = n * 512" "unat ((3 + w) * 512) = (3 + n) * 512"
    "sz (w * 512) = n * 512" "0 < n"
proof -
  have "unat (129 + d) = unat d + 129" using assms(1) unat_add_lem [of 129 d] by simp
  then show w: "unat w = n" by (simp add: w_def n_def unat_ucast_upcast unat_div_distrib)
  show n: "n \<le> 2 ^ 21 + 1" "0 < n" using assms(1) by (auto simp: n_def div_greater_zero_iff)
  show "4 * (unat d + 2) \<le> 512 * n" using ceiling_div_bounds(1) [of 128 "unat d + 2"] by (simp add: n_def)
  show m: "unat (w * 512) = n * 512" using w n unat_mult_lem [of w 512] by simp
  have "unat (3 + w) = 3 + n" using w n word_add_nat [of 3 w] by simp
  then show "unat ((3 + w) * 512) = (3 + n) * 512" using n unat_mult_lem [of "3 + w" 512] by simp
  show "sz (w * 512) = n * 512" using m n sz_small [of "w * 512"] by simp
qed

lemma volume_size:
  assumes cs: "512 \<le> unat cs" "unat cs mod 512 = 0" and w: "unat w + 2 \<le> 0x0FFFFFF7" and fsec: "unat fsec = n" "n \<le> 2 ^ 21 + 1"
  defines "spc \<equiv> ucast (cs div DEFAULT_SECTOR_SIZE) :: u64"
  shows "unat spc * 512 = unat cs" "unat (ucast spc :: u8) = unat spc"
    "unat ((3 + fsec + ucast (w :: u32) * spc) * 512) = (3 + n) * 512 + unat w * unat cs" "unat w * unat cs < 2 ^ 44"
proof -
  have u: "unat spc = unat cs div 512" by (simp add: spc_def unat_ucast_upcast unat_div_distrib DEFAULT_SECTOR_SIZE_def)
  then show spc: "unat spc * 512 = unat cs" using cs(2) by (simp add: mod_0_imp_dvd)
  have small: "unat spc < 128" using u unsigned_less [of cs, where ?'a = nat] by simp
  then show "unat (ucast spc :: u8) = unat spc"
    by (simp add: unsigned_ucast_eq unsigned_take_bit_eq take_bit_nat_eq_self_iff)
  show "unat w * unat cs < 2 ^ 44"
    using mult_strict_mono' [of "unat w" "2 ^ 28" "unat cs" "2 ^ 16"] w unsigned_less [of cs, where ?'a = nat] by simp
  have m: "unat w * unat spc < 2 ^ 36"
    using mult_strict_mono' [of "unat w" "2 ^ 28" "unat spc" "2 ^ 8"] w small by simp
  then have "unat (ucast w * spc) = unat w * unat spc"
    using unat_mult_lem [of "ucast w :: u64" spc] by (simp add: unat_ucast_upcast)
  moreover have "unat (3 + fsec) = 3 + n" using fsec word_add_nat [of 3 fsec] by simp
  ultimately have "unat (3 + fsec + ucast w * spc) = 3 + n + unat w * unat spc"
    using m fsec(2) word_add_nat [of "3 + fsec" "ucast w * spc"] by simp
  then have "unat ((3 + fsec + ucast w * spc) * 512) = (3 + n + unat w * unat spc) * 512"
    using m fsec(2) unat_mult_lem [of "3 + fsec + ucast w * spc" 512] by simp
  then show "unat ((3 + fsec + ucast w * spc) * 512) = (3 + n) * 512 + unat w * unat cs"
    using spc by (simp add: distrib_right mult.assoc)
qed

text \<open>
  What a driver reads from the boot sector: bytes per sector, sectors per cluster, reserved sectors,
  number of tables and sectors per table give the place of the first cluster.
\<close>

definition boot_data_start :: "bytes \<Rightarrow> nat" where
  "boot_data_start bs = unat (le16 bs 11) * (unat (le16 bs 14) + unat (bs ! 16) * unat (le32 bs 36))"

definition boot_cluster_size :: "bytes \<Rightarrow> nat" where
  "boot_cluster_size bs = unat (le16 bs 11) * unat (bs ! 13)"

lemma fs_init_layout:
  assumes cs: "512 \<le> unat cs" "unat cs mod 512 = 0" and size: "unat data_size < 2 ^ 63"
    and d: "data_clusters cs data_size + 2 \<le> 0x0FFFFFF7"
  shows "\<exists>f' tot. fs_init True cs data_size f = Inr (0, Some tot, f') \<and> fs_ok f' \<and>
    cluster_size f' = cs \<and> next_cluster f' = 2 \<and> unat (num_clusters f') = data_clusters cs data_size + 2 \<and>
    unat data_size \<le> data_clusters cs data_size * unat cs \<and>
    unat tot = unat (data_offset f') + data_clusters cs data_size * unat cs \<and>
    boot_data_start (boot f') = unat (data_offset f') \<and> boot_cluster_size (boot f') = unat cs \<and>
    (\<forall>p < unat (data_offset f'). \<exists>e \<in> set (extents f'). covers p e)"
proof -
  define w where "w = (ucast ((data_size + ucast cs - 1) div ucast cs) :: u32)"
  have pos: "0 < unat cs" "data_clusters cs data_size < 2 ^ 32" using cs(1) d by simp_all
  note dw = data_clusters_word [OF pos(1) size pos(2), folded w_def]
  have wd: "unat w + 2 \<le> 0x0FFFFFF7" using d dw(1) by simp
  define n where "n = (unat w + 129) div 128"
  define fsec where "fsec = (ucast ((w + 2 + 128 - 1) div 128 :: u32) :: u64)"
  note fw = fat_sectors_word [OF wd, folded n_def fsec_def]
  define spc where "spc = (ucast (cs div DEFAULT_SECTOR_SIZE) :: u64)"
  define tots where "tots = 3 + fsec + ucast w * spc"
  note vs = volume_size [OF cs wd fw(1,2), folded spc_def tots_def]
  obtain bs where bs: "put_all (boot_stores spc tots fsec) (replicate 512 0) = Inr bs" "length bs = 512"
    "le16 bs 11 = 512" "bs ! 13 = ucast spc" "le16 bs 14 = 3" "bs ! 16 = 1" "le32 bs 36 = ucast fsec"
    using boot_reads [of spc tots fsec] by metis
  obtain is' where is': "put_all info_stores (replicate 512 0) = Inr is'" "length is' = 512"
    using put_all_ok [of "replicate 512 0" info_stores] put_all_length by (fastforce simp: info_stores_def)
  define es where "es = [\<lparr>e_start = 3 * 512, e_len = fsec * 512, e_type = EXTENT_TYPE_FAT, e_obj = 0\<rparr>,
    \<lparr>e_start = 2 * 512, e_len = 512, e_type = EXTENT_TYPE_BOOT, e_obj = 0\<rparr>,
    \<lparr>e_start = 512, e_len = 512, e_type = EXTENT_TYPE_INFO, e_obj = 0\<rparr>,
    \<lparr>e_start = 0, e_len = 512, e_type = EXTENT_TYPE_BOOT, e_obj = 0\<rparr>]"
  define f' where "f' = f\<lparr>cluster_size := cs, boot := bs, fs_info := is', num_clusters := 2 + w, next_cluster := 2,
    fat_size := fsec * 512, fat := replicate (n * 512) 0, data_offset := (3 + fsec) * 512, extents := es\<rparr>"
  have fsec': "ucast ((129 + w) div 128) = fsec" by (simp add: fsec_def)
  have "cs \<noteq> 0" using pos(1) by auto
  then have run: "fs_init True cs data_size f = Inr (0, Some (tots * 512), f')"
    using bs(1) [unfolded tots_def] is'(1) fw(6) fsec'
    by (simp add: fs_init_def Let_def fs_add_extent_def f'_def es_def FAT_CLUSTER_ZERO_def DEFAULT_SECTOR_SIZE_def tots_def
        flip: w_def spc_def [unfolded DEFAULT_SECTOR_SIZE_def])
  have off: "unat ((3 + fsec) * 512) = 1536 + n * 512" "unat (3 * 512 :: u64) = 1536" using fw(5) by simp_all
  have los: "map lo es = [1536, 1024, 512, 0]" "map hi es = [1536 + n * 512, 1536, 1024, 512]"
    using fw(4) by (simp_all add: es_def lo_def hi_def)
  have w2: "unat (2 + w) = unat w + 2" using wd unat_add_lem [of 2 w] by simp
  have "fs_ok f'"
    using cs(1) w2 wd fw(2-4,7) vs(4) off los bs(2) is'(2)
    by (simp add: fs_ok_def f'_def es_def extent_ok_def disjoint_extents_def)
  moreover have "unat (le32 bs 36) = n"
    using bs(7) fw(1,2) by (simp add: unsigned_ucast_eq unsigned_take_bit_eq take_bit_nat_eq_self_iff)
  then have "boot_data_start bs = 1536 + n * 512" using bs(3,5,6) by (simp add: boot_data_start_def)
  moreover have "boot_cluster_size bs = unat cs"
    using bs(3,4) vs(1,2) by (simp add: boot_cluster_size_def)
  moreover have "\<exists>e \<in> set es. covers p e" if "p < 1536 + n * 512" for p
    using that los by (auto simp: es_def covers_def)
  ultimately show ?thesis
    using run w2 dw off vs(3) by (auto simp: f'_def tots_def)
qed

section \<open>Properties\<close>

text \<open>
  C38. \<^verbatim>\<open>fs_init\<close> with a cluster size of whole sectors lays out a volume of \<open>d\<close> clusters that hold the
  data: the allocator's invariant holds, the sectors before the first cluster are covered by the boot
  sector, the information sector, the backup boot sector and the table, the size of the device ends with
  the last cluster, and a driver that reads the boot sector finds the first cluster and the cluster size
  where the code puts them.
\<close>

theorem volume_layout:
  assumes "512 \<le> unat cs" "unat cs mod 512 = 0" "unat data_size < 2 ^ 63" "data_clusters cs data_size + 2 \<le> 0x0FFFFFF7"
  shows "\<exists>f' tot. fs_init True cs data_size f = Inr (0, Some tot, f') \<and> fs_ok f' \<and>
    cluster_size f' = cs \<and> next_cluster f' = 2 \<and> unat (num_clusters f') = data_clusters cs data_size + 2 \<and>
    unat data_size \<le> data_clusters cs data_size * unat cs \<and>
    unat tot = unat (data_offset f') + data_clusters cs data_size * unat cs \<and>
    boot_data_start (boot f') = unat (data_offset f') \<and> boot_cluster_size (boot f') = unat cs \<and>
    (\<forall>p < unat (data_offset f'). \<exists>e \<in> set (extents f'). covers p e)"
  by (rule fs_init_layout [OF assms])

definition small_fs :: fs where
  "small_fs = \<lparr>cluster_size = 512, num_clusters = 4, next_cluster = 2,
     extents = [\<lparr>e_start = 0, e_len = 512, e_type = EXTENT_TYPE_BOOT, e_obj = 0\<rparr>],
     boot = replicate 512 7, fs_info = replicate 512 0, fat = replicate 16 0, fat_size = 16, data_offset = 1024\<rparr>"

lemma small_fs_ok: "fs_ok small_fs"
  by (simp add: fs_ok_def small_fs_def extent_ok_def disjoint_extents_def hi_def lo_def)

theorem volume_layout_witness:
  "\<exists>f' tot. fs_init True 32768 104857600 small_fs = Inr (0, Some tot, f') \<and> fs_ok f' \<and> unat (num_clusters f') = 3202"
  using volume_layout [of 32768 104857600 small_fs] by (auto simp: data_clusters_def)

text \<open>
  C23. \<^verbatim>\<open>fs_alloc_extent\<close> gives a file or directory of \<open>len\<close> bytes the next \<open>n\<close> clusters, or reports a
  full volume and changes nothing. The new extent lies at the bytes of those clusters and is disjoint from
  all others, the allocation table chains exactly those clusters from the returned first one to the end
  mark, the entries of clusters given out before do not change, and the invariant is kept.
\<close>

theorem cluster_allocation:
  assumes "fs_ok f" "0 < unat len" "unat len < 2 ^ 32"
  shows "(unat (next_cluster f) + clusters_for f len \<le> unat (num_clusters f) \<and>
      (\<exists>f'. fs_alloc_extent obj len type f = Inr (0, Some (next_cluster f), f') \<and>
        allocated obj type (clusters_for f len) f f' \<and> fs_ok f')) \<or>
    (unat (num_clusters f) < unat (next_cluster f) + clusters_for f len \<and> fs_alloc_extent obj len type f = Inr (-1, None, f))"
proof (cases "unat (next_cluster f) + clusters_for f len \<le> unat (num_clusters f)")
  case True
  then show ?thesis using fs_alloc_extent_fits [OF assms True, of obj type] by simp
next
  case False
  then show ?thesis using fs_alloc_extent_full [OF assms, of obj type] by simp
qed

theorem cluster_allocation_witness:
  "\<exists>f'. fs_alloc_extent 1 600 EXTENT_TYPE_FILE small_fs = Inr (0, Some 2, f') \<and> allocated 1 EXTENT_TYPE_FILE 2 small_fs f' \<and> fs_ok f'"
  using cluster_allocation [OF small_fs_ok, of 600 1 EXTENT_TYPE_FILE] by (simp add: clusters_for_def small_fs_def)

text \<open>
  C21. A read of the block device that touches no file returns the bytes of the image: those of the boot
  sector, the information sector, the table and the directories where their extents lie, padded with
  zeros, and zeros elsewhere. It changes nothing else and leaves the rest of the caller's buffer alone.
\<close>

theorem fs_read_image:
  assumes "fs_ok (vol s)"
    and "\<forall>e \<in> set (extents (vol s)). e_type e = EXTENT_TYPE_DIR \<longrightarrow>
      unat (d_size (dirs s (e_obj e))) \<le> length (d_entries (dirs s (e_obj e)))"
    and "unat start + unat len < 2 ^ 64" "0 < unat len" "unat len < 2 ^ 32" "unat len \<le> length buf"
    and "\<forall>e \<in> set (extents (vol s)). overlaps (unat start) (unat start + unat len) e \<longrightarrow> e_type e \<noteq> EXTENT_TYPE_FILE"
  shows "fs_read h buf start len s =
    Inr (0, map (image_byte s) [unat start..<unat start + unat len] @ drop (unat len) buf, s)"
proof -
  have "buffers_ok s"
    unfolding buffers_ok_def
  proof
    fix e assume "e \<in> set (extents (vol s))"
    then show "unat (snd (extent_buf s e)) \<le> length (fst (extent_buf s e))"
      using assms(1,2) by (cases "e_type e") (auto simp: extent_buf_def fs_ok_def unat_ucast_upcast)
  qed
  then show ?thesis using assms by (intro fs_read_ok) (auto simp: fs_ok_def)
qed

definition small_st :: fat_st where
  "small_st = \<lparr>vol = small_fs, files = (\<lambda>_. \<lparr>f_path = [], f_size = 0, f_dev = 0, f_ino = 0, f_mtime = 0, f_pfd = 1\<rparr>),
     dirs = (\<lambda>_. \<lparr>d_path = [], d_size = 0, d_entries = []\<rparr>), pool = pool_start some_nodes\<rparr>"

definition quiet_host :: host where
  "quiet_host = \<lparr>h_stat = (\<lambda>_. None), h_open = (\<lambda>_ _. -1), h_lseek = (\<lambda>_ o'. o'), h_read = (\<lambda>_ _ _. None)\<rparr>"

theorem fs_read_image_witness:
  "fs_read quiet_host [1, 1, 1, 1, 1] 510 4 small_st = Inr (0, [7, 7, 0, 0, 1], small_st)"
proof -
  have "fs_read quiet_host [1, 1, 1, 1, 1] 510 4 small_st =
      Inr (0, map (image_byte small_st) [unat (510 :: u64)..<unat (510 :: u64) + unat (4 :: u64)] @ drop (unat (4 :: u64)) [1, 1, 1, 1, 1], small_st)"
    by (rule fs_read_image) (simp_all add: small_st_def small_fs_ok, simp_all add: small_fs_def)
  then show ?thesis
    by (simp add: upt_rec image_byte_def small_st_def small_fs_def covers_def lo_def hi_def padded_def extent_buf_def)
qed




end
