(* ===== verification/Fat_Import.thy ===== *)
theory Fat_Import
  imports Fat_Fs
begin

text \<open>
  \<^verbatim>\<open>fatblock/import.c\<close> and \<^verbatim>\<open>fat.c\<close>: copying a directory tree of the host into the volume. The
  \<^verbatim>\<open>struct item\<close> objects that hold the entries of the directories being read live in a store, because the
  code recycles them through a free list and links them destructively. An object is named by the number
  of the allocation that made it, and a file's \<^verbatim>\<open>struct pooled_fd\<close> is the pool node of that number.
  Memory given back to \<^verbatim>\<open>free\<close> is not reused. The nesting of directories is bounded by an argument.
\<close>

section \<open>Short names\<close>

definition isalnum :: "u8 \<Rightarrow> bool" where
  "isalnum c \<longleftrightarrow> (0x30 \<le> c \<and> c \<le> 0x39) \<or> (0x41 \<le> c \<and> c \<le> 0x5A) \<or> (0x61 \<le> c \<and> c \<le> 0x7A)"

definition toupper :: "u8 \<Rightarrow> u8" where
  "toupper c = (if 0x61 \<le> c \<and> c \<le> 0x7A then c - 0x20 else c)"

text \<open>The string is \<^verbatim>\<open>!#$%'()-@^_`{}~\<close>.\<close>

definition valid_char :: "u8 \<Rightarrow> bool" where
  "valid_char c \<longleftrightarrow> isalnum c \<or>
     c \<in> set [0x21, 0x23, 0x24, 0x25, 0x27, 0x28, 0x29, 0x2D, 0x40, 0x5E, 0x5F, 0x60, 0x7B, 0x7D, 0x7E] \<or> 128 \<le> c"

text \<open>The position of the dot, if any; \<open>None\<close> when the name is refused.\<close>

fun scan_name :: "bytes \<Rightarrow> nat \<Rightarrow> nat option \<Rightarrow> nat option option" where
  "scan_name [] i dot = Some dot"
| "scan_name (c # s) i dot =
     (if c = 0x2E then (if dot \<noteq> None then None else scan_name s (i + 1) (Some i))
      else if \<not> valid_char c then None
      else scan_name s (i + 1) dot)"

text \<open>
  \<open>short_name\<close> is the name of an item with the padding byte behind it. The difference of a null
  \<^verbatim>\<open>dot\<close> and the name is negative, so the first length test passes when there is no dot.
\<close>

definition convert_name :: "bytes \<Rightarrow> bytes \<Rightarrow> (int \<times> bytes) res" where
  "convert_name short_name long_name =
     (case scan_name long_name 0 None of
        None \<Rightarrow> Inr (1, short_name)
      | Some dot \<Rightarrow>
          if (case dot of None \<Rightarrow> False | Some d \<Rightarrow> 8 < d) then Inr (1, short_name)
          else if (case dot of None \<Rightarrow> False | Some d \<Rightarrow> 3 < length long_name - (d + 1)) then Inr (1, short_name)
          else
            let d = (case dot of None \<Rightarrow> length long_name | Some d \<Rightarrow> d) in
            bnd (put_bytes short_name 0 (replicate 11 0x20)) (\<lambda>b.
            bnd (for_each (\<lambda>i b. put8 b i (toupper (long_name ! i))) [0..<d] b) (\<lambda>b.
            bnd (for_each (\<lambda>i b. put8 b (8 + i) (toupper ((long_name @ [0]) ! (d + 1 + i)))) [0..<length long_name - d] b) (\<lambda>b.
            Inr (0, b)))))"

section \<open>Directory entries\<close>

text \<open>\<open>base\<close> is the offset of the entry in the table.\<close>

definition fat_dirent_set_first_cluster :: "nat \<Rightarrow> u32 \<Rightarrow> bytes \<Rightarrow> bytes res" where
  "fat_dirent_set_first_cluster base cluster b =
     bnd (put16 b (base + 20) (ucast (drop_bit 16 cluster))) (\<lambda>b. put16 b (base + 26) (ucast cluster))"

definition fat_dirent_set :: "nat \<Rightarrow> bytes \<Rightarrow> u8 \<Rightarrow> u32 \<Rightarrow> u32 \<Rightarrow> bytes \<Rightarrow> bytes res" where
  "fat_dirent_set base name attr first_cluster size' b =
     bnd (put_bytes b base (replicate 32 0)) (\<lambda>b.
     bnd (put_bytes b base (take 11 name)) (\<lambda>b.
     bnd (put8 b (base + 11) attr) (\<lambda>b.
     bnd (fat_dirent_set_first_cluster base first_cluster b) (\<lambda>b.
     put32 b (base + 28) size'))))"

definition FAT_ATTR_SUBDIR :: u8 where "FAT_ATTR_SUBDIR = 0x10"

section \<open>State\<close>

text \<open>\<open>imp_dot_dot\<close> points to the first entry of a directory's table.\<close>

record imported =
  imp_first_cluster :: u32
  imp_size :: u32
  imp_dot_dot :: "nat option"

text \<open>\<open>it_imp\<close> is \<open>None\<close> as long as nothing was stored there since the item came from \<^verbatim>\<open>malloc\<close>.\<close>

record item =
  it_name :: bytes
  it_imp :: "imported option"
  it_next :: "nat option"
  it_is_dir :: bool

datatype d_type = DT_REG | DT_DIR | DT_OTHER

record import_host = host +
  h_readdir :: "bytes \<Rightarrow> (bytes \<times> d_type) list option"

record import_st = fat_st +
  items :: "nat \<Rightarrow> item"
  free_items_head :: "nat option"
  imp_mallocs :: nat
  imp_oom :: "nat \<Rightarrow> bool"

definition PATH_MAX :: nat where "PATH_MAX = 4096"

text \<open>The number of the next allocation, if it succeeds.\<close>

definition malloc_obj :: "import_st \<Rightarrow> nat option \<times> import_st" where
  "malloc_obj s = (if imp_oom s (imp_mallocs s) then None else Some (imp_mallocs s), s\<lparr>imp_mallocs := imp_mallocs s + 1\<rparr>)"

section \<open>Files\<close>

definition import_file :: "import_host \<Rightarrow> bytes \<Rightarrow> import_st \<Rightarrow> (int \<times> imported option \<times> import_st) res" where
  "import_file h path s =
     (case h_stat h path of
        None \<Rightarrow> Inr (-1, None, s)
      | Some st \<Rightarrow>
          let (f, s) = malloc_obj s in
          case f of None \<Rightarrow> Inr (MALLOC_FAIL, None, s)
          | Some f \<Rightarrow>
              let (path_copy, s) = malloc_obj s in
              if path_copy = None then Inr (MALLOC_FAIL, None, s)
              else
                let s = s\<lparr>files := (files s)(f := \<lparr>f_path = path, f_size = st_size st, f_dev = st_dev st,
                          f_ino = st_ino st, f_mtime = st_mtime st, f_pfd = f\<rparr>)\<rparr> in
                bnd (fdpool_init (Some f) (pool s)) (\<lambda>p.
                bnd (fs_alloc_extent f (ucast (st_size st)) EXTENT_TYPE_FILE (vol s)) (\<lambda>(ret, first, v).
                let s = s\<lparr>pool := p, vol := v\<rparr> in
                case first of None \<Rightarrow> Inr (ret, None, s)
                | Some c \<Rightarrow> Inr (0, Some \<lparr>imp_first_cluster = c, imp_size = st_size st, imp_dot_dot = None\<rparr>, s))))"

section \<open>Items\<close>

definition alloc_item :: "import_st \<Rightarrow> nat option \<times> import_st" where
  "alloc_item s =
     (case free_items_head s of
        Some a \<Rightarrow> (Some a, s\<lparr>free_items_head := it_next (items s a)\<rparr>)
      | None \<Rightarrow>
          let (a, s) = malloc_obj s in
          (a, case a of None \<Rightarrow> s
              | Some a \<Rightarrow> s\<lparr>items := (items s)(a := \<lparr>it_name = replicate 12 0, it_imp = None, it_next = None, it_is_dir = False\<rparr>)\<rparr>))"

definition item_upd :: "nat \<Rightarrow> (item \<Rightarrow> item) \<Rightarrow> import_st \<Rightarrow> import_st" where
  "item_upd a g s = s\<lparr>items := (items s)(a := g (items s a))\<rparr>"

definition free_item :: "nat \<Rightarrow> import_st \<Rightarrow> import_st" where
  "free_item a s = (item_upd a (\<lambda>i. i\<lparr>it_next := free_items_head s\<rparr>) s)\<lparr>free_items_head := Some a\<rparr>"

fun items_tail :: "nat \<Rightarrow> import_st \<Rightarrow> nat \<Rightarrow> nat res" where
  "items_tail 0 s a = Inl Diverges"
| "items_tail (Suc n) s a = (case it_next (items s a) of None \<Rightarrow> Inr a | Some b \<Rightarrow> items_tail n s b)"

definition free_items :: "nat option \<Rightarrow> import_st \<Rightarrow> import_st res" where
  "free_items head s =
     (case head of None \<Rightarrow> Inl Undefined
      | Some a \<Rightarrow>
          bnd (items_tail (Suc (imp_mallocs s)) s a) (\<lambda>t.
          Inr ((item_upd t (\<lambda>i. i\<lparr>it_next := free_items_head s\<rparr>) s)\<lparr>free_items_head := Some a\<rparr>)))"

section \<open>Directories\<close>

text \<open>One entry of the host's directory; the result tells whether it was linked in or skipped.\<close>

definition store_imp :: "nat \<Rightarrow> bool \<Rightarrow> imported option \<Rightarrow> import_st \<Rightarrow> import_st" where
  "store_imp a is_dir imp s =
     item_upd a (\<lambda>i. i\<lparr>it_imp := (case imp of None \<Rightarrow> it_imp i | Some x \<Rightarrow> Some x), it_is_dir := is_dir\<rparr>) s"

definition import_item ::
  "(bytes \<Rightarrow> import_st \<Rightarrow> (int \<times> imported option \<times> import_st) res) \<Rightarrow> import_host \<Rightarrow> bytes \<Rightarrow> d_type \<Rightarrow> nat \<Rightarrow> import_st \<Rightarrow>
     (bool \<times> import_st) res" where
  "import_item subdir h ch_path type a s =
     (case type of
        DT_REG \<Rightarrow> bnd (import_file h ch_path s) (\<lambda>(_, imp, s). Inr (True, store_imp a False imp s))
      | DT_DIR \<Rightarrow> bnd (subdir ch_path s) (\<lambda>(_, imp, s). Inr (True, store_imp a True imp s))
      | DT_OTHER \<Rightarrow> Inr (False, s))"

definition skip_item :: "nat option \<Rightarrow> import_st \<Rightarrow> import_st" where
  "skip_item item s = (case item of None \<Rightarrow> s | Some a \<Rightarrow> free_item a s)"

text \<open>
  The \<^verbatim>\<open>readdir\<close> loop. \<open>item\<close> survives from a skipped entry to the next one, as in the code. The result is
  the list of items with its length, or \<open>None\<close> with the list when an item could not be allocated.
\<close>

fun scan_dir ::
  "(bytes \<Rightarrow> import_st \<Rightarrow> (int \<times> imported option \<times> import_st) res) \<Rightarrow> import_host \<Rightarrow> bytes \<Rightarrow> (bytes \<times> d_type) list \<Rightarrow>
     nat option \<Rightarrow> nat option \<Rightarrow> nat \<Rightarrow> import_st \<Rightarrow> (nat option \<times> nat option \<times> import_st) res" where
  "scan_dir subdir h path [] item its cnt s = Inr (its, Some cnt, s)"
| "scan_dir subdir h path ((name, type) # des) item its cnt s =
     (if take 1 name = [0x2E] \<or> PATH_MAX \<le> length path + 1 + length name
      then scan_dir subdir h path des item its cnt (skip_item item s)
      else
        let (item, s) = alloc_item s in
        case item of None \<Rightarrow> Inr (its, None, s)
        | Some a \<Rightarrow>
            bnd (convert_name (it_name (items s a)) name) (\<lambda>(r, nm).
            let s = item_upd a (\<lambda>i. i\<lparr>it_name := nm\<rparr>) s in
            if r \<noteq> 0 then scan_dir subdir h path des item its cnt (skip_item item s)
            else
              bnd (import_item subdir h (path @ [0x2F] @ name) type a s) (\<lambda>(linked, s).
              if \<not> linked then scan_dir subdir h path des item its cnt (skip_item item s)
              else scan_dir subdir h path des None (Some a) (cnt + 1)
                     (item_upd a (\<lambda>i. i\<lparr>it_next := its\<rparr>) s))))"

definition dir_upd :: "nat \<Rightarrow> (bytes \<Rightarrow> bytes res) \<Rightarrow> import_st \<Rightarrow> import_st res" where
  "dir_upd d g s = bnd (g (d_entries (dirs s d))) (\<lambda>b. Inr (s\<lparr>dirs := (dirs s)(d := (dirs s d)\<lparr>d_entries := b\<rparr>)\<rparr>))"

text \<open>The loop that fills in the table from its end; \<open>n\<close> entries are left and \<open>skip\<close> slots precede them.\<close>

fun fill_entries :: "nat \<Rightarrow> nat \<Rightarrow> u32 \<Rightarrow> nat \<Rightarrow> nat option \<Rightarrow> import_st \<Rightarrow> import_st res" where
  "fill_entries d skip my_first_cluster 0 its s = Inr s"
| "fill_entries d skip my_first_cluster (Suc n) its s =
     (case its of None \<Rightarrow> Inl Undefined
      | Some a \<Rightarrow>
          let it = items s a in
          case it_imp it of None \<Rightarrow> Inl Undefined
          | Some imp \<Rightarrow>
              bnd (dir_upd d (fat_dirent_set (32 * (n + skip)) (it_name it) (if it_is_dir it then FAT_ATTR_SUBDIR else 0)
                     (imp_first_cluster imp) (imp_size imp)) s) (\<lambda>s.
              bnd (case imp_dot_dot imp of None \<Rightarrow> Inr s
                   | Some d' \<Rightarrow> dir_upd d' (fat_dirent_set_first_cluster 0 my_first_cluster) s) (\<lambda>s.
              fill_entries d skip my_first_cluster n (it_next it) (free_item a s))))"

definition dot_entries :: "nat \<Rightarrow> u32 \<Rightarrow> bytes \<Rightarrow> bytes res" where
  "dot_entries d my_first_cluster b =
     bnd (fat_dirent_set 0 [0x2E, 0x2E, 0x20, 0x20, 0x20, 0x20, 0x20, 0x20, 0x20, 0x20, 0x20] FAT_ATTR_SUBDIR (-1) 0 b) (\<lambda>b.
     fat_dirent_set 32 [0x2E, 0x20, 0x20, 0x20, 0x20, 0x20, 0x20, 0x20, 0x20, 0x20, 0x20] FAT_ATTR_SUBDIR my_first_cluster 0 b)"

text \<open>What follows the \<^verbatim>\<open>readdir\<close> loop, for the directory object \<open>d\<close>.\<close>

definition build_table :: "nat \<Rightarrow> bool \<Rightarrow> nat option \<Rightarrow> nat \<Rightarrow> import_st \<Rightarrow> (int \<times> imported option \<times> import_st) res" where
  "build_table d is_root its cnt s =
     (let slots = cnt + (if is_root then 0 else 2);
          s = s\<lparr>dirs := (dirs s)(d := (dirs s d)\<lparr>d_size := of_nat (32 * slots)\<rparr>)\<rparr> in
      bnd (fs_alloc_extent d (ucast (d_size (dirs s d))) EXTENT_TYPE_DIR (vol s)) (\<lambda>(ret, first, v).
      let s = s\<lparr>vol := v\<rparr> in
      case first of
        None \<Rightarrow> bnd (free_items its s) (\<lambda>s. Inr (ret, None, s))
      | Some c \<Rightarrow>
          let first_cluster = (if is_root then 0 else c);
              (mem, s) = malloc_obj s in
          if mem = None then Inl Undefined
          else
            let s = s\<lparr>dirs := (dirs s)(d := (dirs s d)\<lparr>d_entries := replicate (32 * slots) 0\<rparr>)\<rparr> in
            bnd (fill_entries d (if is_root then 0 else 2) first_cluster cnt its s) (\<lambda>s.
            bnd (if is_root then Inr s else dir_upd d (dot_entries d first_cluster) s) (\<lambda>s.
            Inr (0, Some \<lparr>imp_first_cluster = first_cluster, imp_size = 0,
                          imp_dot_dot = (if is_root then None else Some d)\<rparr>, s)))))"

fun import_dir :: "nat \<Rightarrow> import_host \<Rightarrow> bool \<Rightarrow> bytes \<Rightarrow> import_st \<Rightarrow> (int \<times> imported option \<times> import_st) res" where
  "import_dir 0 h is_root path s = Inl Diverges"
| "import_dir (Suc depth) h is_root path s =
     (case h_readdir h path of
        None \<Rightarrow> Inr (-1, None, s)
      | Some des \<Rightarrow>
          let (d, s) = malloc_obj s in
          case d of None \<Rightarrow> Inr (MALLOC_FAIL, None, s)
          | Some d \<Rightarrow>
              let (p, s) = malloc_obj s in
              if p = None then Inr (MALLOC_FAIL, None, s)
              else
                let s = s\<lparr>dirs := (dirs s)(d := (dirs s d)\<lparr>d_path := path\<rparr>)\<rparr> in
                bnd (scan_dir (import_dir depth h False) h path des None None 0 s) (\<lambda>(its, cnt, s).
                case cnt of
                  None \<Rightarrow> bnd (free_items its s) (\<lambda>s. Inr (MALLOC_FAIL, None, s))
                | Some cnt \<Rightarrow> build_table d is_root its cnt s))"

definition import_tree :: "nat \<Rightarrow> import_host \<Rightarrow> bytes \<Rightarrow> import_st \<Rightarrow> (int \<times> import_st) res" where
  "import_tree depth h path s =
     bnd (import_dir depth h False path s) (\<lambda>(ret, imp, s).
     case imp of None \<Rightarrow> Inr (ret, s)
     | Some imp \<Rightarrow>
         Inr (0, s\<lparr>vol := fs_update_free_clusters (fs_set_rootdir_start (imp_first_cluster imp) (vol s))\<rparr>))"

text \<open>\<^verbatim>\<open>fs_import\<close> of \<^verbatim>\<open>fatblock.c\<close>: a volume for the tree at \<^verbatim>\<open>.\<close>, and the size of the device.\<close>

definition fs_import :: "nat \<Rightarrow> import_host \<Rightarrow> u16 \<Rightarrow> u64 \<Rightarrow> import_st \<Rightarrow> (int \<times> u64 option \<times> import_st) res" where
  "fs_import depth h cs data_size s =
     (let (mem, s) = malloc_obj s in
      bnd (fs_init (mem \<noteq> None) cs data_size (vol s)) (\<lambda>(ret, tot, v).
      let s = s\<lparr>vol := v\<rparr> in
      if ret \<noteq> 0 then Inr (ret, tot, s)
      else bnd (import_tree depth h [0x2E] s) (\<lambda>(ret, s). Inr (ret, tot, s))))"

text \<open>The callbacks of the block device: the result and whether the device is stopped.\<close>

definition read_callback :: "host \<Rightarrow> bytes \<Rightarrow> u64 \<Rightarrow> u64 \<Rightarrow> fat_st \<Rightarrow> (int \<times> bool \<times> bytes \<times> fat_st) res" where
  "read_callback h buf len offset s =
     bnd (fs_read h buf offset len s) (\<lambda>(result, buf, s).
     Inr (if result \<noteq> 0 then -22 else 0, result = SKY_IS_FALLING, buf, s))"

definition write_callback :: "bytes \<Rightarrow> u64 \<Rightarrow> u64 \<Rightarrow> int" where
  "write_callback buf len offset = -22"

section \<open>The names that are accepted\<close>

lemma scan_name_plain: "list_all valid_char xs \<Longrightarrow> scan_name xs i dot = Some dot"
  by (induction xs arbitrary: i) (auto simp: valid_char_def isalnum_def)

lemma scan_name_dot:
  "list_all valid_char xs \<Longrightarrow> list_all valid_char ys \<Longrightarrow> scan_name (xs @ 0x2E # ys) i None = Some (Some (i + length xs))"
  by (induction xs arbitrary: i) (auto simp: scan_name_plain valid_char_def isalnum_def)

lemma scan_name_refused:
  "scan_name xs i dot = None \<longleftrightarrow> (\<exists>c \<in> set xs. c \<noteq> 0x2E \<and> \<not> valid_char c) \<or> (if dot = None then 2 else 1) \<le> length (filter (\<lambda>c. c = 0x2E) xs)"
  by (induction xs arbitrary: i dot) auto

lemma put8_run:
  "k + n \<le> length b \<Longrightarrow> for_each (\<lambda>i b. put8 b (k + i) (g i)) [0..<n] b = Inr (blit b k (map g [0..<n]))"
proof (induction n)
  case 0
  then show ?case by (simp add: blit_def)
next
  case (Suc n)
  then show ?case
    using blit_blit_adjacent [of k "map g [0..<n]" "[g n]" b]
    by (simp add: for_each_append put8_def put_bytes_def length_blit)
qed

definition upper :: "bytes \<Rightarrow> bytes" where "upper = map toupper"

lemma map_nth_upper: "map (\<lambda>i. toupper ((xs @ ys) ! i)) [0..<length xs] = upper xs"
  by (rule nth_equalityI) (simp_all add: upper_def nth_append)

text \<open>A name without a dot is padded to eleven bytes, even where its ninth byte lands in the extension.\<close>

lemma convert_name_plain:
  assumes "list_all valid_char xs" "length xs \<le> 11" "length b = 12"
  shows "convert_name b xs = Inr (0, upper xs @ replicate (11 - length xs) 0x20 @ [b ! 11])"
proof -
  have b: "drop 11 b = [b ! 11]" using assms(3) by (simp add: Cons_nth_drop_Suc [symmetric])
  have "for_each (\<lambda>i b. put8 b i (toupper (xs ! i))) [0..<length xs] (replicate 11 0x20 @ [b ! 11]) =
      Inr (blit (replicate 11 0x20 @ [b ! 11]) 0 (upper xs))"
    using put8_run [of 0 "length xs" "replicate 11 0x20 @ [b ! 11]" "\<lambda>i. toupper (xs ! i)"] assms(2) map_nth_upper [of xs "[]"] by simp
  then show ?thesis
    using assms b by (simp add: convert_name_def scan_name_plain put_bytes_def blit_def upper_def)
qed

text \<open>A name with a dot: base and extension in their places, and the terminating zero behind the extension.\<close>

lemma convert_name_dot:
  assumes "list_all valid_char xs" "list_all valid_char ys" "length xs \<le> 8" "length ys \<le> 3" "length b = 12"
  shows "convert_name b (xs @ 0x2E # ys) =
    Inr (0, upper xs @ replicate (8 - length xs) 0x20 @ upper ys @ [0] @ drop (9 + length ys) (replicate 11 0x20 @ [b ! 11]))"
proof -
  define b0 where "b0 = replicate 11 0x20 @ [b ! 11]"
  have b: "drop 11 b = [b ! 11]" using assms(5) by (simp add: Cons_nth_drop_Suc [symmetric])
  have l1: "for_each (\<lambda>i b. put8 b i (toupper ((xs @ 0x2E # ys) ! i))) [0..<length xs] b0 = Inr (blit b0 0 (upper xs))"
    using put8_run [of 0 "length xs" b0 "\<lambda>i. toupper ((xs @ 0x2E # ys) ! i)"] assms(3) map_nth_upper [of xs "0x2E # ys"]
    by (simp add: b0_def)
  have "map (\<lambda>i. toupper (((xs @ 0x2E # ys) @ [0]) ! (length xs + 1 + i))) [0..<length ys + 1] = upper (ys @ [0])"
    by (rule nth_equalityI) (simp_all add: upper_def nth_append del: upt_Suc)
  then have l2: "for_each (\<lambda>i b. put8 b (8 + i) (toupper (((xs @ 0x2E # ys) @ [0]) ! (length xs + 1 + i))))
      [0..<length ys + 1] (blit b0 0 (upper xs)) = Inr (blit (blit b0 0 (upper xs)) 8 (upper (ys @ [0])))"
    using put8_run [of 8 "length ys + 1" "blit b0 0 (upper xs)" "\<lambda>i. toupper (((xs @ 0x2E # ys) @ [0]) ! (length xs + 1 + i))"] assms(3,4)
    by (simp add: b0_def length_blit upper_def del: upt_Suc)
  have "blit (blit b0 0 (upper xs)) 8 (upper (ys @ [0])) =
      upper xs @ replicate (8 - length xs) 0x20 @ upper ys @ [0] @ drop (9 + length ys) b0"
    using assms(3,4) by (simp add: blit_def b0_def upper_def toupper_def)
  then show ?thesis
    using assms b l1 l2 by (simp add: convert_name_def scan_name_dot put_bytes_def blit_def [of b 0] flip: b0_def)
qed

lemma convert_name_overrun:
  assumes "list_all valid_char xs" "12 < length xs" "length b = 12"
  shows "convert_name b xs = Inl Undefined"
proof -
  define b0 where "b0 = replicate 11 0x20 @ [b ! 11]"
  have b: "drop 11 b = [b ! 11]" using assms(3) by (simp add: Cons_nth_drop_Suc [symmetric])
  have "[0..<length xs] = [0..<12] @ 12 # [13..<length xs]"
    using assms(2) upt_add_eq_append [of 0 12 "length xs - 12"] by (simp add: upt_conv_Cons [of 12])
  then have "for_each (\<lambda>i b. put8 b i (toupper (xs ! i))) [0..<length xs] b0 = Inl Undefined"
    using put8_run [of 0 12 b0 "\<lambda>i. toupper (xs ! i)"]
    by (simp add: for_each_append put8_def put_bytes_def length_blit b0_def del: upt_Suc)
  then show ?thesis
    using assms b by (simp add: convert_name_def scan_name_plain put_bytes_def blit_def flip: b0_def)
qed

lemma convert_name_refused:
  assumes "list_all valid_char xs" "list_all valid_char ys" "8 < length xs \<or> 3 < length ys"
  shows "convert_name b (xs @ 0x2E # ys) = Inr (1, b)"
  using assms by (auto simp: convert_name_def scan_name_dot)

section \<open>Directory entries read back\<close>

definition dirent_bytes :: "bytes \<Rightarrow> u8 \<Rightarrow> u32 \<Rightarrow> u32 \<Rightarrow> bytes" where
  "dirent_bytes name attr c n =
     blit (blit (blit (blit (blit (replicate 32 0) 0 (take 11 name)) 11 [attr])
       20 (le16_bytes (ucast (drop_bit 16 c)))) 26 (le16_bytes (ucast c))) 28 (le32_bytes n)"

lemma blit_in_blit:
  "k + length x \<le> length y \<Longrightarrow> base + length y \<le> length b \<Longrightarrow> blit (blit b base y) (base + k) x = blit b base (blit y k x)"
  by (simp add: blit_def ac_simps)

lemma length_dirent_bytes [simp]: "length name \<le> 12 \<Longrightarrow> length (dirent_bytes name attr c n) = 32"
  by (simp add: dirent_bytes_def length_blit)

lemma fat_dirent_set_ok:
  assumes "base + 32 \<le> length b" "length name \<le> 12"
  shows "fat_dirent_set base name attr c n b = Inr (blit b base (dirent_bytes name attr c n))"
proof -
  note ib = blit_in_blit [of _ _ _ base b]
  show ?thesis
    using assms ib [of 0] ib [of 11] ib [of 20] ib [of 26] ib [of 28]
    by (simp add: fat_dirent_set_def fat_dirent_set_first_cluster_def put_bytes_def put8_def put16_def put32_def length_blit
        dirent_bytes_def)
qed

text \<open>What a driver reads from slot \<open>i\<close> of a table.\<close>

record dirent =
  de_name :: bytes
  de_attr :: u8
  de_first_cluster :: u32
  de_size :: u32

definition dirent_at :: "bytes \<Rightarrow> nat \<Rightarrow> dirent" where
  "dirent_at b i = (let e = take 32 (drop (32 * i) b) in
     \<lparr>de_name = take 11 e, de_attr = e ! 11,
      de_first_cluster = push_bit 16 (ucast (le16 e 20)) OR ucast (le16 e 26), de_size = le32 e 28\<rparr>)"

lemma cluster_halves: "push_bit 16 (ucast (ucast (drop_bit 16 c) :: u16)) OR ucast (ucast c :: u16) = (c :: u32)"
  by (rule bit_word_eqI) (auto simp: bit_or_iff bit_push_bit_iff bit_ucast_iff bit_drop_bit_eq)

lemma dirent_at_set:
  assumes "32 * i + 32 \<le> length b" "11 \<le> length name" "length name \<le> 12"
  shows "dirent_at (blit b (32 * i) (dirent_bytes name attr c n)) i =
    \<lparr>de_name = take 11 name, de_attr = attr, de_first_cluster = c, de_size = n\<rparr>"
proof -
  have e: "take 32 (drop (32 * i) (blit b (32 * i) (dirent_bytes name attr c n))) = dirent_bytes name attr c n"
    using assms blit_inside [of "32 * i" "dirent_bytes name attr c n" b] by simp
  have "take 11 (dirent_bytes name attr c n) = take 11 name"
    using assms(2) by (intro nth_equalityI) (simp_all add: dirent_bytes_def nth_blit length_blit)
  moreover have "dirent_bytes name attr c n ! 11 = attr"
    using assms(2) by (simp add: dirent_bytes_def nth_blit length_blit)
  moreover have "le16 (dirent_bytes name attr c n) 20 = ucast (drop_bit 16 c)" "le16 (dirent_bytes name attr c n) 26 = ucast c"
    "le32 (dirent_bytes name attr c n) 28 = n"
    using assms(2) by (simp_all add: dirent_bytes_def length_blit le16_blit_same le16_blit_other le32_blit_same)
  ultimately show ?thesis by (simp add: dirent_at_def e cluster_halves)
qed

lemma dirent_at_other:
  assumes "32 * i + 32 \<le> length b" "32 * j + 32 \<le> length b" "i \<noteq> j" "length e = 32"
  shows "dirent_at (blit b (32 * i) e) j = dirent_at b j"
proof -
  have "take 32 (drop (32 * j) (blit b (32 * i) e)) = take 32 (drop (32 * j) b)"
    using assms by (intro nth_equalityI) (auto simp: nth_blit length_blit)
  then show ?thesis by (simp add: dirent_at_def)
qed

section \<open>Placing files\<close>

text \<open>The allocations for files of given sizes, one after the other; object numbers advance by three.\<close>

fun place :: "nat \<Rightarrow> u32 list \<Rightarrow> fs \<Rightarrow> (u32 list \<times> fs) res" where
  "place m [] f = Inr ([], f)"
| "place m (n # ns) f =
     bnd (fs_alloc_extent (m + 1) (ucast n) EXTENT_TYPE_FILE f) (\<lambda>(r, c, f).
     case c of None \<Rightarrow> Inl Undefined | Some c \<Rightarrow> bnd (place (m + 3) ns f) (\<lambda>(cs, f). Inr (c # cs, f)))"

definition size_clusters :: "fs \<Rightarrow> u32 \<Rightarrow> nat" where
  "size_clusters f n = (if n = 0 then 0 else clusters_for f (ucast n))"

text \<open>An object of \<open>k\<close> clusters from \<open>c\<close> on: its chain, and its extent over the bytes of the clusters.\<close>

definition placed :: "fs \<Rightarrow> nat \<Rightarrow> extent_type \<Rightarrow> u32 \<Rightarrow> nat \<Rightarrow> bool" where
  "placed f obj type c k \<longleftrightarrow>
     (if k = 0 then c = 0
      else 2 \<le> unat c \<and> unat c + k \<le> unat (next_cluster f) \<and>
        fat_chain (length (fat f) div 4) (fat f) c = map of_nat [unat c..<unat c + k] \<and>
        (\<exists>e \<in> set (extents f). e_obj e = obj \<and> e_type e = type \<and>
           lo e = unat (data_offset f) + (unat c - 2) * unat (cluster_size f) \<and> hi e = lo e + k * unat (cluster_size f)))"

lemma fat_chain_agree:
  "(\<And>j. j \<in> set (fat_chain n b c) \<Longrightarrow> fat_entry b' (unat j) = fat_entry b (unat j)) \<Longrightarrow> length b' = length b \<Longrightarrow>
    fat_chain n b' c = fat_chain n b c"
  by (induction n b c rule: fat_chain.induct) auto

definition extends :: "fs \<Rightarrow> fs \<Rightarrow> bool" where
  "extends f f' \<longleftrightarrow> (\<forall>c < unat (next_cluster f). fat_entry (fat f') c = fat_entry (fat f) c) \<and>
     unat (next_cluster f) \<le> unat (next_cluster f') \<and> set (extents f) \<subseteq> set (extents f') \<and>
     length (fat f') = length (fat f) \<and> cluster_size f' = cluster_size f \<and> num_clusters f' = num_clusters f \<and>
     data_offset f' = data_offset f"

lemma extends_refl: "extends f f" by (simp add: extends_def)

lemma extends_trans: "extends f g \<Longrightarrow> extends g k \<Longrightarrow> extends f k"
  unfolding extends_def by (metis order.trans less_le_trans)

lemma placed_extends:
  assumes "placed f obj type c k" "extends f f'" "fs_ok f"
  shows "placed f' obj type c k"
proof (cases "k = 0")
  case True
  then show ?thesis using assms(1) by (simp add: placed_def)
next
  case False
  then have c: "unat c + k \<le> unat (next_cluster f)" "unat (next_cluster f) < 2 ^ 32"
    "fat_chain (length (fat f) div 4) (fat f) c = map of_nat [unat c..<unat c + k]"
    using assms(1,3) by (auto simp: placed_def fs_ok_def)
  have "fat_chain (length (fat f) div 4) (fat f') c = fat_chain (length (fat f) div 4) (fat f) c"
  proof (rule fat_chain_agree)
    fix j assume "j \<in> set (fat_chain (length (fat f) div 4) (fat f) c)"
    then obtain i where "j = of_nat i" "i < unat c + k" using c(3) by auto
    then have "unat j < unat (next_cluster f)" using c(1,2) unat_of_nat_u32 [of i] by simp
    then show "fat_entry (fat f') (unat j) = fat_entry (fat f) (unat j)" using assms(2) by (simp add: extends_def)
  qed (use assms(2) in \<open>simp add: extends_def\<close>)
  then show ?thesis using assms(1,2) False by (auto simp: placed_def extends_def)
qed

lemma allocated_extends: "allocated obj type k f f' \<Longrightarrow> fs_ok f \<Longrightarrow> fs_ok f' \<Longrightarrow> extends f f'"
  by (auto simp: allocated_def extends_def fs_ok_def)

lemma allocated_placed: "allocated obj type k f f' \<Longrightarrow> 0 < k \<Longrightarrow> fs_ok f \<Longrightarrow> placed f' obj type (next_cluster f) k"
  by (auto simp: allocated_def placed_def fs_ok_def)

lemma alloc_placed:
  assumes ok: "fs_ok f" and room: "unat (next_cluster f) + size_clusters f n \<le> unat (num_clusters f)"
  shows "\<exists>c f'. fs_alloc_extent obj (ucast n) type f = Inr (0, Some c, f') \<and> fs_ok f' \<and> extends f f' \<and>
    unat (next_cluster f') = unat (next_cluster f) + size_clusters f n \<and> placed f' obj type c (size_clusters f n)"
proof (cases "n = 0")
  case True
  then show ?thesis using ok extends_refl by (auto simp: fs_alloc_extent_def size_clusters_def placed_def)
next
  case False
  have n: "0 < unat (ucast n :: u64)" "unat (ucast n :: u64) < 2 ^ 32"
    using False unsigned_less [of n, where ?'a = nat] by (simp_all add: unat_ucast_upcast unat_gt_0)
  have cf: "0 < clusters_for f (ucast n)" using ok clusters_needed(2) [OF _ n] by (simp add: fs_ok_def)
  obtain f' where f': "fs_alloc_extent obj (ucast n) type f = Inr (0, Some (next_cluster f), f')"
    "allocated obj type (clusters_for f (ucast n)) f f'" "fs_ok f'"
    using fs_alloc_extent_fits [OF ok n, of obj type] room False by (auto simp: size_clusters_def)
  then show ?thesis
    using allocated_extends [OF f'(2) ok f'(3)] allocated_placed [OF f'(2) cf ok] False
    by (auto simp: size_clusters_def allocated_def)
qed

lemma place_ok:
  assumes "fs_ok f" "unat (next_cluster f) + sum_list (map (size_clusters f) ns) \<le> unat (num_clusters f)"
  shows "\<exists>cs f'. place m ns f = Inr (cs, f') \<and> fs_ok f' \<and> extends f f' \<and> length cs = length ns \<and>
    unat (next_cluster f') = unat (next_cluster f) + sum_list (map (size_clusters f) ns) \<and>
    (\<forall>i < length ns. placed f' (m + 3 * i + 1) EXTENT_TYPE_FILE (cs ! i) (size_clusters f (ns ! i)))"
  using assms
proof (induction ns arbitrary: f m)
  case Nil
  then show ?case using extends_refl by simp
next
  case (Cons n ns)
  have r: "unat (next_cluster f) + size_clusters f n \<le> unat (num_clusters f)" using Cons.prems(2) by simp
  obtain c f1 where f1: "fs_alloc_extent (m + 1) (ucast n) EXTENT_TYPE_FILE f = Inr (0, Some c, f1)" "fs_ok f1" "extends f f1"
    "unat (next_cluster f1) = unat (next_cluster f) + size_clusters f n" "placed f1 (m + 1) EXTENT_TYPE_FILE c (size_clusters f n)"
    using alloc_placed [OF Cons.prems(1) r] by blast
  have sc: "size_clusters f1 = size_clusters f" "num_clusters f1 = num_clusters f"
    using f1(3) by (auto simp: extends_def size_clusters_def clusters_for_def fun_eq_iff)
  obtain cs f2 where f2: "place (m + 3) ns f1 = Inr (cs, f2)" "fs_ok f2" "extends f1 f2" "length cs = length ns"
    "unat (next_cluster f2) = unat (next_cluster f1) + sum_list (map (size_clusters f) ns)"
    "\<forall>i < length ns. placed f2 (m + 3 + 3 * i + 1) EXTENT_TYPE_FILE (cs ! i) (size_clusters f (ns ! i))"
    using Cons.IH [OF f1(2), of "m + 3"] Cons.prems(2) f1(4) sc by auto
  have "placed f2 (m + 3 * i + 1) EXTENT_TYPE_FILE ((c # cs) ! i) (size_clusters f ((n # ns) ! i))" if "i < Suc (length ns)" for i
    using that f2(6) placed_extends [OF f1(5) f2(3) f1(2)] by (cases i) (auto simp: algebra_simps)
  then show ?case
    using f1(1,4) f2 extends_trans [OF f1(3) f2(3)] by (intro exI [of _ "c # cs"] exI [of _ f2]) (auto simp: less_Suc_eq_0_disj)
qed

section \<open>Reading a directory of files\<close>

definition good_name :: "bytes \<Rightarrow> bool" where
  "good_name name \<longleftrightarrow> list_all valid_char (takeWhile (\<lambda>c. c \<noteq> 0x2E) name) \<and>
     (case dropWhile (\<lambda>c. c \<noteq> 0x2E) name of
        [] \<Rightarrow> length name \<le> 11
      | _ # ys \<Rightarrow> list_all valid_char ys \<and> length (takeWhile (\<lambda>c. c \<noteq> 0x2E) name) \<le> 8 \<and> length ys \<le> 3)"

definition short_of :: "bytes \<Rightarrow> bytes" where
  "short_of name = (let xs = takeWhile (\<lambda>c. c \<noteq> 0x2E) name in
     take 11 (case dropWhile (\<lambda>c. c \<noteq> 0x2E) name of
        [] \<Rightarrow> upper xs @ replicate (11 - length xs) 0x20
      | _ # ys \<Rightarrow> upper xs @ replicate (8 - length xs) 0x20 @ upper ys @ [0] @ replicate (2 - length ys) 0x20))"

lemma convert_name_good:
  assumes "good_name name" "length b = 12"
  shows "\<exists>b'. convert_name b name = Inr (0, b') \<and> length b' = 12 \<and> take 11 b' = short_of name"
proof (cases "dropWhile (\<lambda>c. c \<noteq> 0x2E) name")
  case Nil
  then have t: "takeWhile (\<lambda>c. c \<noteq> 0x2E) name = name" by (metis append_Nil2 takeWhile_dropWhile_id)
  have g: "list_all valid_char name" "length name \<le> 11" "short_of name = upper name @ replicate (11 - length name) 0x20"
    using assms(1) unfolding good_name_def short_of_def Nil t by (simp_all add: upper_def)
  then show ?thesis using convert_name_plain [OF g(1,2) assms(2)] by (simp add: upper_def)
next
  case (Cons c ys)
  define xs where "xs = takeWhile (\<lambda>c. c \<noteq> 0x2E) name"
  have "c = 0x2E" using hd_dropWhile [of "\<lambda>c. c \<noteq> 0x2E" name] Cons by simp
  then have name: "name = xs @ 0x2E # ys" using Cons takeWhile_dropWhile_id [of "\<lambda>c. c \<noteq> 0x2E" name] by (simp add: xs_def)
  have g: "list_all valid_char xs" "list_all valid_char ys" "length xs \<le> 8" "length ys \<le> 3"
    using assms(1) Cons by (auto simp: good_name_def xs_def)
  have "drop (9 + length ys) (replicate 11 0x20 @ [b ! 11]) = replicate (2 - length ys) 0x20 @ drop (length ys - 2) [b ! 11]"
    using g(4) by simp
  moreover have "short_of name = take 11 (upper xs @ replicate (8 - length xs) 0x20 @ upper ys @ [0] @ replicate (2 - length ys) 0x20)"
    unfolding short_of_def Cons by (simp add: Let_def flip: xs_def)
  moreover have "length ys = 0 \<or> length ys = 1 \<or> length ys = 2 \<or> length ys = 3" using g(4) by linarith
  ultimately show ?thesis
    using convert_name_dot [OF g assms(2)] g(3) name by (auto simp: upper_def numeral_eq_Suc)
qed

text \<open>The list of items linked from \<open>its\<close>, newest first; addresses go down, so no item occurs twice.\<close>

fun item_chain :: "import_st \<Rightarrow> nat \<Rightarrow> nat option \<Rightarrow> (bytes \<times> u32 \<times> u32) list \<Rightarrow> bool" where
  "item_chain s m its [] \<longleftrightarrow> its = None"
| "item_chain s m its ((nm, c, n) # xs) \<longleftrightarrow>
     (case its of None \<Rightarrow> False
      | Some a \<Rightarrow> a < m \<and> length (it_name (items s a)) = 12 \<and> take 11 (it_name (items s a)) = nm \<and> \<not> it_is_dir (items s a) \<and>
          it_imp (items s a) = Some \<lparr>imp_first_cluster = c, imp_size = n, imp_dot_dot = None\<rparr> \<and>
          item_chain s a (it_next (items s a)) xs)"

lemma item_chain_cong:
  "(\<And>a. a < m \<Longrightarrow> items s' a = items s a) \<Longrightarrow> item_chain s' m its xs \<longleftrightarrow> item_chain s m its xs"
  by (induction s m its xs rule: item_chain.induct) (auto split: option.splits)

lemma item_chain_mono: "item_chain s m its xs \<Longrightarrow> m \<le> m' \<Longrightarrow> item_chain s m' its xs"
  by (induction s m its xs rule: item_chain.induct) (auto split: option.splits)

text \<open>The file object \<open>obj\<close> stands for the file \<open>path\<close> of the host, with what \<^verbatim>\<open>stat\<close> told of it.\<close>

definition backed :: "import_host \<Rightarrow> bytes \<Rightarrow> import_st \<Rightarrow> nat \<Rightarrow> bool" where
  "backed h path s obj \<longleftrightarrow> (case h_stat h path of None \<Rightarrow> False
     | Some st \<Rightarrow> files s obj = \<lparr>f_path = path, f_size = st_size st, f_dev = st_dev st, f_ino = st_ino st,
                    f_mtime = st_mtime st, f_pfd = obj\<rparr>)"

lemma backed_cong: "files s' obj = files s obj \<Longrightarrow> backed h path s' obj = backed h path s obj"
  by (simp add: backed_def split: option.splits)

lemma import_file_ok:
  assumes "h_stat h path = Some st" "\<forall>n. \<not> imp_oom s n"
    and "fs_alloc_extent (imp_mallocs s) (ucast (st_size st)) EXTENT_TYPE_FILE (vol s) = Inr (0, Some c, v)"
  shows "\<exists>s'. import_file h path s = Inr (0, Some \<lparr>imp_first_cluster = c, imp_size = st_size st, imp_dot_dot = None\<rparr>, s') \<and>
    vol s' = v \<and> dirs s' = dirs s \<and> items s' = items s \<and> free_items_head s' = free_items_head s \<and>
    imp_mallocs s' = imp_mallocs s + 2 \<and> imp_oom s' = imp_oom s \<and>
    (\<forall>a. a \<noteq> imp_mallocs s \<longrightarrow> files s' a = files s a) \<and> backed h path s' (imp_mallocs s)"
  using assms by (simp add: backed_def import_file_def malloc_obj_def fdpool_init_def fdpool_clear_def node_upd_def)

text \<open>One regular file of the listing.\<close>

lemma scan_file:
  assumes name: "good_name name" "take 1 name \<noteq> [0x2E]" "length path + 1 + length name < PATH_MAX"
    and st: "h_stat h (path @ [0x2F] @ name) = Some st" "\<forall>n. \<not> imp_oom s n" "free_items_head s = None"
    and al: "fs_alloc_extent (imp_mallocs s + 1) (ucast (st_size st)) EXTENT_TYPE_FILE (vol s) = Inr (0, Some c, v)"
    and ch: "item_chain s (imp_mallocs s) its xs"
  shows "\<exists>s'. scan_dir sub h path ((name, DT_REG) # des) None its k s = scan_dir sub h path des None (Some (imp_mallocs s)) (k + 1) s' \<and>
    vol s' = v \<and> dirs s' = dirs s \<and> free_items_head s' = None \<and> imp_mallocs s' = imp_mallocs s + 3 \<and> imp_oom s' = imp_oom s \<and>
    item_chain s' (imp_mallocs s') (Some (imp_mallocs s)) ((short_of name, c, st_size st) # xs) \<and>
    (\<forall>a \<le> imp_mallocs s. files s' a = files s a) \<and> backed h (path @ [0x2F] @ name) s' (imp_mallocs s + 1)"
proof -
  define m where "m = imp_mallocs s"
  define s1 where "s1 = s\<lparr>imp_mallocs := m + 1,
    items := (items s)(m := \<lparr>it_name = replicate 12 0, it_imp = None, it_next = None, it_is_dir = False\<rparr>)\<rparr>"
  have al1: "alloc_item s = (Some m, s1)"
    using st(2,3) by (simp add: alloc_item_def malloc_obj_def m_def s1_def)
  obtain nm where nm: "convert_name (it_name (items s1 m)) name = Inr (0, nm)" "length nm = 12" "take 11 nm = short_of name"
    using convert_name_good [OF name(1), of "replicate 12 0"] by (auto simp: s1_def)
  define s2 where "s2 = item_upd m (\<lambda>i. i\<lparr>it_name := nm\<rparr>) s1"
  have "imp_mallocs s2 = m + 1" "vol s2 = vol s" "imp_oom s2 = imp_oom s" by (simp_all add: s2_def s1_def item_upd_def)
  then obtain s3 where s3: "import_file h (path @ [0x2F] @ name) s2 =
      Inr (0, Some \<lparr>imp_first_cluster = c, imp_size = st_size st, imp_dot_dot = None\<rparr>, s3)"
    "vol s3 = v" "dirs s3 = dirs s2" "items s3 = items s2" "free_items_head s3 = free_items_head s2" "imp_mallocs s3 = m + 3" "imp_oom s3 = imp_oom s"
    "\<forall>a. a \<noteq> m + 1 \<longrightarrow> files s3 a = files s2 a" "backed h (path @ [0x2F] @ name) s3 (m + 1)"
    using import_file_ok [of h "path @ [0x2F] @ name" st s2 c v] st al by (auto simp: m_def)
  define s4 where "s4 = item_upd m (\<lambda>i. i\<lparr>it_next := its\<rparr>)
    (store_imp m False (Some \<lparr>imp_first_cluster = c, imp_size = st_size st, imp_dot_dot = None\<rparr>) s3)"
  have run: "scan_dir sub h path ((name, DT_REG) # des) None its k s = scan_dir sub h path des None (Some m) (k + 1) s4"
    using name(2,3) al1 nm(1) s3(1) by (simp add: import_item_def s4_def flip: s2_def)
  have low: "items s4 a = items s a" if "a < m" for a
    using that s3(4) by (simp add: s4_def store_imp_def item_upd_def s2_def s1_def)
  have "item_chain s4 m its xs" using ch item_chain_cong [of m s4 s its xs] low by (simp add: m_def)
  then have "item_chain s4 (m + 3) (Some m) ((short_of name, c, st_size st) # xs)"
    using nm s3(4) by (simp add: s4_def store_imp_def item_upd_def s2_def s1_def)
  moreover have "backed h (path @ [0x2F] @ name) s4 (m + 1)" "\<forall>a \<le> m. files s4 a = files s a"
    using s3(8,9) by (simp_all add: backed_def s4_def store_imp_def item_upd_def s2_def s1_def split: option.splits)
  ultimately show ?thesis
    using run s3 st(3) by (intro exI [of _ s4]) (simp add: m_def s4_def store_imp_def item_upd_def s2_def s1_def)
qed

text \<open>
  What \<^verbatim>\<open>readdir\<close> returns for a directory of regular files: entries whose name starts with a dot
  (\<^verbatim>\<open>.\<close>, \<^verbatim>\<open>..\<close> and hidden ones, of any type), which the code skips, and regular files, in any order.
\<close>

definition is_dot :: "bytes \<Rightarrow> bool" where "is_dot name \<longleftrightarrow> take 1 name = [0x2E]"

definition visible :: "(bytes \<times> d_type) list \<Rightarrow> bytes list" where
  "visible des = map fst (filter (\<lambda>de. \<not> is_dot (fst de)) des)"

definition file_size :: "import_host \<Rightarrow> bytes \<Rightarrow> bytes \<Rightarrow> u32" where
  "file_size h path name = (case h_stat h (path @ [0x2F] @ name) of None \<Rightarrow> 0 | Some st \<Rightarrow> st_size st)"

definition importable :: "import_host \<Rightarrow> bytes \<Rightarrow> bytes \<Rightarrow> bool" where
  "importable h path name \<longleftrightarrow> good_name name \<and> take 1 name \<noteq> [0x2E] \<and> length path + 1 + length name < PATH_MAX \<and>
     h_stat h (path @ [0x2F] @ name) \<noteq> None"

definition flat_dir :: "import_host \<Rightarrow> bytes \<Rightarrow> (bytes \<times> d_type) list \<Rightarrow> bool" where
  "flat_dir h path des \<longleftrightarrow> list_all (\<lambda>(name, type). is_dot name \<or> type = DT_REG \<and> importable h path name) des"

definition table :: "import_host \<Rightarrow> bytes \<Rightarrow> bytes list \<Rightarrow> u32 list \<Rightarrow> (bytes \<times> u32 \<times> u32) list" where
  "table h path names cs = map2 (\<lambda>n c. (short_of n, c, file_size h path n)) names cs"

lemma scan_files:
  assumes "flat_dir h path des" "\<forall>n. \<not> imp_oom s n" "free_items_head s = None"
    and "place (imp_mallocs s) (map (file_size h path) (visible des)) (vol s) = Inr (cs, v)" "item_chain s (imp_mallocs s) its xs"
  shows "\<exists>its' s'. scan_dir sub h path des None its k s = Inr (its', Some (k + length (visible des)), s') \<and>
    vol s' = v \<and> dirs s' = dirs s \<and> free_items_head s' = None \<and> imp_oom s' = imp_oom s \<and>
    item_chain s' (imp_mallocs s') its' (rev (table h path (visible des) cs) @ xs) \<and>
    (\<forall>a < imp_mallocs s. files s' a = files s a) \<and>
    (\<forall>i < length (visible des). backed h (path @ [0x2F] @ visible des ! i) s' (imp_mallocs s + 3 * i + 1))"
  using assms
proof (induction des arbitrary: s its xs k cs)
  case Nil
  then show ?case by (auto simp: visible_def table_def)
next
  case (Cons de des)
  obtain n type where de: "de = (n, type)" by (cases de)
  have rest: "flat_dir h path des" using Cons.prems(1) by (simp add: flat_dir_def)
  show ?case
  proof (cases "is_dot n")
    case True
    then have v: "visible (de # des) = visible des" by (simp add: visible_def de)
    have "scan_dir sub h path (de # des) None its k s = scan_dir sub h path des None its k s"
      using True by (simp add: de is_dot_def skip_item_def)
    then show ?thesis unfolding v using Cons.IH [OF rest Cons.prems(2,3) Cons.prems(4) [unfolded v] Cons.prems(5)] by simp
  next
    case False
    then have v: "visible (de # des) = n # visible des" by (simp add: visible_def de)
    have n: "importable h path n" "type = DT_REG" using Cons.prems(1) False by (auto simp: flat_dir_def de)
    obtain st where st: "h_stat h (path @ [0x2F] @ n) = Some st" using n by (auto simp: importable_def)
    then have fsz: "file_size h path n = st_size st" by (simp add: file_size_def)
    obtain r c v1 cs' where al: "fs_alloc_extent (imp_mallocs s + 1) (ucast (st_size st)) EXTENT_TYPE_FILE (vol s) = Inr (r, Some c, v1)"
      "place (imp_mallocs s + 3) (map (file_size h path) (visible des)) v1 = Inr (cs', v)" "cs = c # cs'"
      using Cons.prems(4) fsz unfolding v by (auto simp: outcome_simps split: option.splits)
    have "r = 0" using al(1) by (auto simp: fs_alloc_extent_def Let_def outcome_simps split: if_splits)
    note al0 = al(1) [unfolded this]
    have p: "good_name n" "take 1 n \<noteq> [0x2E]" "length path + 1 + length n < PATH_MAX"
      using n by (simp_all add: importable_def)
    obtain s1 where s1: "scan_dir sub h path ((n, DT_REG) # des) None its k s =
        scan_dir sub h path des None (Some (imp_mallocs s)) (k + 1) s1"
      "vol s1 = v1" "dirs s1 = dirs s" "free_items_head s1 = None" "imp_mallocs s1 = imp_mallocs s + 3" "imp_oom s1 = imp_oom s"
      "item_chain s1 (imp_mallocs s1) (Some (imp_mallocs s)) ((short_of n, c, st_size st) # xs)"
      "\<forall>a \<le> imp_mallocs s. files s1 a = files s a" "backed h (path @ [0x2F] @ n) s1 (imp_mallocs s + 1)"
      using scan_file [OF p st Cons.prems(2,3) al0 Cons.prems(5), of sub des k] by blast
    have oom1: "\<forall>n. \<not> imp_oom s1 n"
      and pl: "place (imp_mallocs s1) (map (file_size h path) (visible des)) (vol s1) = Inr (cs', v)"
      using Cons.prems(2) s1(2,5,6) al(2) by simp_all
    obtain its' s' where s': "scan_dir sub h path des None (Some (imp_mallocs s)) (k + 1) s1 = Inr (its', Some (k + 1 + length (visible des)), s')"
      "vol s' = v" "dirs s' = dirs s1" "free_items_head s' = None" "imp_oom s' = imp_oom s1"
      "item_chain s' (imp_mallocs s') its' (rev (table h path (visible des) cs') @ (short_of n, c, st_size st) # xs)"
      "\<forall>a < imp_mallocs s1. files s' a = files s1 a"
      "\<forall>i < length (visible des). backed h (path @ [0x2F] @ visible des ! i) s' (imp_mallocs s1 + 3 * i + 1)"
      using Cons.IH [OF rest oom1 s1(4) pl s1(7), of "k + 1"] by blast
    have "backed h (path @ [0x2F] @ n) s' (imp_mallocs s + 1)"
      using s1(5,9) s'(7) by (simp add: backed_def split: option.splits)
    then have "backed h (path @ [0x2F] @ (n # visible des) ! i) s' (imp_mallocs s + 3 * i + 1)" if "i < Suc (length (visible des))" for i
      using that s'(8) s1(5) by (cases i) (auto simp: algebra_simps)
    then show ?thesis
      unfolding v using s1 s' al(3) fsz n(2) de by (intro exI [of _ its'] exI [of _ s']) (simp add: table_def)
  qed
qed

section \<open>The table of a directory\<close>

lemma fill_entries_ok:
  assumes "item_chain s m its (rev es)" "n = length es" "32 * (n + skip) \<le> length (d_entries (dirs s d))"
  shows "\<exists>b s'. fill_entries d skip my n its s = Inr s' \<and> dirs s' = (dirs s)(d := (dirs s d)\<lparr>d_entries := b\<rparr>) \<and>
    vol s' = vol s \<and> files s' = files s \<and> length b = length (d_entries (dirs s d)) \<and>
    (\<forall>i < n. dirent_at b (i + skip) =
      \<lparr>de_name = fst (es ! i), de_attr = 0, de_first_cluster = fst (snd (es ! i)), de_size = snd (snd (es ! i))\<rparr>) \<and>
    (\<forall>j. 32 * j + 32 \<le> length b \<longrightarrow> j < skip \<or> n + skip \<le> j \<longrightarrow> dirent_at b j = dirent_at (d_entries (dirs s d)) j)"
  using assms
proof (induction n arbitrary: es s m its)
  case 0
  then show ?case by (intro exI [of _ "d_entries (dirs s d)"] exI [of _ s]) simp
next
  case (Suc n)
  obtain es' e where es0: "es = es' @ [e]" "n = length es'" using Suc.prems(2) by (cases es rule: rev_cases) auto
  obtain nm c z where es: "es = es' @ [(nm, c, z)]" "n = length es'" using es0 by (cases e) auto
  obtain a where a: "its = Some a" "length (it_name (items s a)) = 12" "take 11 (it_name (items s a)) = nm"
    "\<not> it_is_dir (items s a)" "it_imp (items s a) = Some \<lparr>imp_first_cluster = c, imp_size = z, imp_dot_dot = None\<rparr>"
    "item_chain s a (it_next (items s a)) (rev es')"
    using Suc.prems(1) es(1) by (auto split: option.splits)
  define b1 where "b1 = blit (d_entries (dirs s d)) (32 * (n + skip)) (dirent_bytes (it_name (items s a)) 0 c z)"
  define s1 where "s1 = free_item a (s\<lparr>dirs := (dirs s)(d := (dirs s d)\<lparr>d_entries := b1\<rparr>)\<rparr>)"
  have run: "fill_entries d skip my (Suc n) its s = fill_entries d skip my n (it_next (items s a)) s1"
    using a Suc.prems(3) fat_dirent_set_ok [of "32 * (n + skip)" "d_entries (dirs s d)" "it_name (items s a)" 0 c z]
    by (simp add: dir_upd_def b1_def s1_def Let_def)
  have ch: "item_chain s1 a (it_next (items s a)) (rev es')"
    using a(6) item_chain_cong [of a s1 s] by (simp add: s1_def free_item_def item_upd_def)
  have d1: "dirs s1 d = (dirs s d)\<lparr>d_entries := b1\<rparr>" "length b1 = length (d_entries (dirs s d))" "vol s1 = vol s"
    "dirs s1 = (dirs s)(d := (dirs s d)\<lparr>d_entries := b1\<rparr>)" "files s1 = files s"
    using a(2) Suc.prems(3) by (simp_all add: s1_def free_item_def item_upd_def b1_def length_blit)
  have e1: "d_entries (dirs s1 d) = b1" and len: "32 * (n + skip) \<le> length (d_entries (dirs s1 d))"
    using d1 Suc.prems(3) by simp_all
  obtain b s' where b: "fill_entries d skip my n (it_next (items s a)) s1 = Inr s'"
    "dirs s' = (dirs s1)(d := (dirs s1 d)\<lparr>d_entries := b\<rparr>)" "vol s' = vol s1 \<and> files s' = files s1" "length b = length b1"
    "\<forall>i < n. dirent_at b (i + skip) =
      \<lparr>de_name = fst (es' ! i), de_attr = 0, de_first_cluster = fst (snd (es' ! i)), de_size = snd (snd (es' ! i))\<rparr>"
    "\<forall>j. 32 * j + 32 \<le> length b \<longrightarrow> j < skip \<or> n + skip \<le> j \<longrightarrow> dirent_at b j = dirent_at b1 j"
    using Suc.IH [OF ch es(2) len] unfolding e1 by blast
  have "dirent_at b (n + skip) = \<lparr>de_name = nm, de_attr = 0, de_first_cluster = c, de_size = z\<rparr>"
    using b(4,6) a(2,3) d1(2) Suc.prems(3) dirent_at_set [of "n + skip" "d_entries (dirs s d)" "it_name (items s a)" 0 c z]
    by (simp add: b1_def)
  moreover have "dirent_at b1 j = dirent_at (d_entries (dirs s d)) j" if "32 * j + 32 \<le> length b" "j \<noteq> n + skip" for j
    unfolding b1_def using that b(4) d1(2) Suc.prems(3) a(2) by (intro dirent_at_other) auto
  ultimately show ?case
    using run b d1 es by (intro exI [of _ b] exI [of _ s']) (auto simp: nth_append less_Suc_eq)
qed

definition dot_name :: bytes where "dot_name = 0x2E # replicate 10 0x20"
definition dot_dot_name :: bytes where "dot_dot_name = 0x2E # 0x2E # replicate 9 0x20"

lemma dot_entries_ok:
  assumes "64 \<le> length b"
  shows "\<exists>b'. dot_entries d c b = Inr b' \<and> length b' = length b \<and>
    dirent_at b' 0 = \<lparr>de_name = dot_dot_name, de_attr = FAT_ATTR_SUBDIR, de_first_cluster = -1, de_size = 0\<rparr> \<and>
    dirent_at b' 1 = \<lparr>de_name = dot_name, de_attr = FAT_ATTR_SUBDIR, de_first_cluster = c, de_size = 0\<rparr> \<and>
    (\<forall>j. 2 \<le> j \<longrightarrow> 32 * j + 32 \<le> length b \<longrightarrow> dirent_at b' j = dirent_at b j)"
proof -
  define b1 where "b1 = blit b 0 (dirent_bytes dot_dot_name FAT_ATTR_SUBDIR (-1) 0)"
  define b2 where "b2 = blit b1 32 (dirent_bytes dot_name FAT_ATTR_SUBDIR c 0)"
  have l: "length b1 = length b" "length b2 = length b"
    using assms by (simp_all add: b1_def b2_def length_blit dot_name_def dot_dot_name_def)
  have "dot_entries d c b = Inr b2"
    using assms l(1) fat_dirent_set_ok [of 0 b dot_dot_name] fat_dirent_set_ok [of 32 b1 dot_name]
    by (simp add: dot_entries_def b1_def b2_def dot_name_def dot_dot_name_def numeral_eq_Suc)
  moreover have "dirent_at b1 0 = \<lparr>de_name = dot_dot_name, de_attr = FAT_ATTR_SUBDIR, de_first_cluster = -1, de_size = 0\<rparr>"
    using assms dirent_at_set [of 0 b dot_dot_name] by (simp add: b1_def dot_dot_name_def)
  moreover have "dirent_at b2 1 = \<lparr>de_name = dot_name, de_attr = FAT_ATTR_SUBDIR, de_first_cluster = c, de_size = 0\<rparr>"
    using assms l dirent_at_set [of 1 b1 dot_name] by (simp add: b2_def dot_name_def)
  moreover have "dirent_at b2 j = dirent_at b1 j" if "32 * j + 32 \<le> length b" "j \<noteq> 1" for j
    using that assms l dirent_at_other [of 1 b1 j] by (simp add: b2_def dot_name_def)
  moreover have "dirent_at b1 j = dirent_at b j" if "32 * j + 32 \<le> length b" "j \<noteq> 0" for j
    using that assms l dirent_at_other [of 0 b j] by (simp add: b1_def dot_dot_name_def)
  ultimately show ?thesis using l assms by (intro exI [of _ b2]) simp
qed

definition dir_table_ok :: "bytes \<Rightarrow> u32 \<Rightarrow> (bytes \<times> u32 \<times> u32) list \<Rightarrow> bool" where
  "dir_table_ok b c es \<longleftrightarrow> length b = 32 * (length es + 2) \<and>
     dirent_at b 0 = \<lparr>de_name = dot_dot_name, de_attr = FAT_ATTR_SUBDIR, de_first_cluster = -1, de_size = 0\<rparr> \<and>
     dirent_at b 1 = \<lparr>de_name = dot_name, de_attr = FAT_ATTR_SUBDIR, de_first_cluster = c, de_size = 0\<rparr> \<and>
     (\<forall>i < length es. dirent_at b (i + 2) =
       \<lparr>de_name = fst (es ! i), de_attr = 0, de_first_cluster = fst (snd (es ! i)), de_size = snd (snd (es ! i))\<rparr>)"

lemma build_table_ok:
  assumes ok: "fs_ok (vol s)" and imp_oom: "\<forall>n. \<not> imp_oom s n" and ch: "item_chain s m its (rev es)"
    and small: "32 * (length es + 2) < 2 ^ 32"
    and room: "unat (next_cluster (vol s)) + size_clusters (vol s) (of_nat (32 * (length es + 2))) \<le> unat (num_clusters (vol s))"
  shows "\<exists>c s'. build_table d False its (length es) s = Inr (0, Some \<lparr>imp_first_cluster = c, imp_size = 0, imp_dot_dot = Some d\<rparr>, s') \<and>
    fs_ok (vol s') \<and> extends (vol s) (vol s') \<and>
    placed (vol s') d EXTENT_TYPE_DIR c (size_clusters (vol s) (of_nat (32 * (length es + 2)))) \<and>
    unat (d_size (dirs s' d)) = 32 * (length es + 2) \<and> dir_table_ok (d_entries (dirs s' d)) c es \<and> files s' = files s"
proof -
  define sz' where "sz' = (of_nat (32 * (length es + 2)) :: u32)"
  have usz: "unat sz' = 32 * (length es + 2)" using small by (simp only: sz'_def unat_of_nat_u32)
  obtain c v where v: "fs_alloc_extent d (ucast sz') EXTENT_TYPE_DIR (vol s) = Inr (0, Some c, v)" "fs_ok v" "extends (vol s) v"
    "placed v d EXTENT_TYPE_DIR c (size_clusters (vol s) sz')"
    using alloc_placed [OF ok room [folded sz'_def], of d EXTENT_TYPE_DIR] by blast
  define s1 where "s1 = s\<lparr>vol := v, imp_mallocs := imp_mallocs s + 1,
    dirs := (dirs s)(d := (dirs s d)\<lparr>d_size := sz', d_entries := replicate (32 * (length es + 2)) 0\<rparr>)\<rparr>"
  have ch1: "item_chain s1 m its (rev es)" using ch item_chain_cong [of m s1 s] by (simp add: s1_def)
  have len1: "32 * (length es + 2) \<le> length (d_entries (dirs s1 d))" by (simp add: s1_def)
  obtain b s2 where b: "fill_entries d 2 c (length es) its s1 = Inr s2"
    "dirs s2 = (dirs s1)(d := (dirs s1 d)\<lparr>d_entries := b\<rparr>)" "vol s2 = vol s1 \<and> files s2 = files s1" "length b = length (d_entries (dirs s1 d))"
    "\<forall>i < length es. dirent_at b (i + 2) =
      \<lparr>de_name = fst (es ! i), de_attr = 0, de_first_cluster = fst (snd (es ! i)), de_size = snd (snd (es ! i))\<rparr>"
    using fill_entries_ok [OF ch1 refl len1, of c] by blast
  have lb: "length b = 32 * (length es + 2)" using b(4) by (simp add: s1_def)
  then have "64 \<le> length b" by simp
  from dot_entries_ok [OF this, of d c] obtain b' where b': "dot_entries d c b = Inr b'" "length b' = length b"
    "dirent_at b' 0 = \<lparr>de_name = dot_dot_name, de_attr = FAT_ATTR_SUBDIR, de_first_cluster = -1, de_size = 0\<rparr>"
    "dirent_at b' 1 = \<lparr>de_name = dot_name, de_attr = FAT_ATTR_SUBDIR, de_first_cluster = c, de_size = 0\<rparr>"
    "\<forall>j. 2 \<le> j \<longrightarrow> 32 * j + 32 \<le> length b \<longrightarrow> dirent_at b' j = dirent_at b j" by blast
  define s3 where "s3 = s2\<lparr>dirs := (dirs s2)(d := (dirs s2 d)\<lparr>d_entries := b'\<rparr>)\<rparr>"
  have "dir_table_ok b' c es" using b(5) b' lb by (simp add: dir_table_ok_def)
  moreover have "build_table d False its (length es) s = Inr (0, Some \<lparr>imp_first_cluster = c, imp_size = 0, imp_dot_dot = Some d\<rparr>, s3)"
    using v(1) imp_oom b(1,2) b'(1)
    by (simp add: build_table_def malloc_obj_def dir_upd_def Let_def s3_def s1_def sz'_def)
  ultimately show ?thesis
    unfolding sz'_def [symmetric] using v usz b(2,3) by (intro exI [of _ c] exI [of _ s3]) (simp add: s3_def s1_def)
qed

text \<open>Enough free clusters for the files and the table.\<close>

definition room_for :: "import_host \<Rightarrow> bytes \<Rightarrow> bytes list \<Rightarrow> fs \<Rightarrow> bool" where
  "room_for h path names f \<longleftrightarrow> 32 * (length names + 2) < 2 ^ 32 \<and>
     unat (next_cluster f) + sum_list (map (\<lambda>n. size_clusters f (file_size h path n)) names) +
       size_clusters f (of_nat (32 * (length names + 2))) \<le> unat (num_clusters f)"

text \<open>
  A directory of regular files in the volume: the object \<open>d\<close> holds its table, the table is the
  extent and the chain at cluster \<open>c\<close>, and file \<open>i\<close> has its extent and its chain at the cluster its
  entry names; the object of the extent is the host's file of that path.
\<close>

definition dir_imported :: "import_host \<Rightarrow> bytes \<Rightarrow> bytes list \<Rightarrow> nat \<Rightarrow> fs \<Rightarrow> u32 \<Rightarrow> import_st \<Rightarrow> bool" where
  "dir_imported h path names d f c s \<longleftrightarrow>
     placed (vol s) d EXTENT_TYPE_DIR c (size_clusters f (of_nat (32 * (length names + 2)))) \<and>
     unat (d_size (dirs s d)) = 32 * (length names + 2) \<and>
     (\<exists>cs. length cs = length names \<and> dir_table_ok (d_entries (dirs s d)) c (table h path names cs) \<and>
        (\<forall>i < length names. placed (vol s) (d + 3 * i + 3) EXTENT_TYPE_FILE (cs ! i) (size_clusters f (file_size h path (names ! i))) \<and>
           backed h (path @ [0x2F] @ names ! i) s (d + 3 * i + 3)))"

lemma import_dir_files:
  assumes ok: "fs_ok (vol s)" and imp_oom: "\<forall>n. \<not> imp_oom s n" and fr: "free_items_head s = None"
    and rd: "h_readdir h path = Some des" and flat: "flat_dir h path des" and names: "names = visible des"
    and room: "room_for h path names (vol s)"
  shows "\<exists>c s'. import_dir (Suc depth) h False path s =
      Inr (0, Some \<lparr>imp_first_cluster = c, imp_size = 0, imp_dot_dot = Some (imp_mallocs s)\<rparr>, s') \<and>
    fs_ok (vol s') \<and> extends (vol s) (vol s') \<and> dir_imported h path names (imp_mallocs s) (vol s) c s'"
proof -
  define d where "d = imp_mallocs s"
  define s1 where "s1 = s\<lparr>imp_mallocs := d + 2, dirs := (dirs s)(d := (dirs s d)\<lparr>d_path := path\<rparr>)\<rparr>"
  have "unat (next_cluster (vol s)) + sum_list (map (size_clusters (vol s)) (map (file_size h path) names)) \<le> unat (num_clusters (vol s))"
    using room by (simp add: room_for_def comp_def)
  from place_ok [OF ok this, of "d + 2"] obtain cs f1 where f1: "place (d + 2) (map (file_size h path) names) (vol s) = Inr (cs, f1)"
    "fs_ok f1" "extends (vol s) f1" "length cs = length names"
    "unat (next_cluster f1) = unat (next_cluster (vol s)) + sum_list (map (\<lambda>n. size_clusters (vol s) (file_size h path n)) names)"
    "\<forall>i < length names. placed f1 (d + 2 + 3 * i + 1) EXTENT_TYPE_FILE (cs ! i) (size_clusters (vol s) (file_size h path (names ! i)))"
    by (auto simp: comp_def)
  have s1: "\<forall>n. \<not> imp_oom s1 n" "free_items_head s1 = None" "place (imp_mallocs s1) (map (file_size h path) names) (vol s1) = Inr (cs, f1)"
    "item_chain s1 (imp_mallocs s1) None []"
    using imp_oom fr f1(1) by (simp_all add: s1_def)
  obtain its s2 where s2: "scan_dir (import_dir depth h False) h path des None None 0 s1 = Inr (its, Some (0 + length names), s2)"
    "vol s2 = f1" "imp_oom s2 = imp_oom s1" "item_chain s2 (imp_mallocs s2) its (rev (table h path names cs) @ [])"
    "\<forall>i < length names. backed h (path @ [0x2F] @ names ! i) s2 (imp_mallocs s1 + 3 * i + 1)"
    using scan_files [OF flat s1 [unfolded names]] unfolding names by blast
  have lt: "length (table h path names cs) = length names" using f1(4) by (simp add: table_def)
  have sc: "size_clusters f1 = size_clusters (vol s)" "num_clusters f1 = num_clusters (vol s)"
    using f1(3) by (auto simp: extends_def size_clusters_def clusters_for_def fun_eq_iff)
  have r2: "fs_ok (vol s2)" "\<forall>n. \<not> imp_oom s2 n" "item_chain s2 (imp_mallocs s2) its (rev (table h path names cs))"
    "32 * (length (table h path names cs) + 2) < 2 ^ 32"
    "unat (next_cluster (vol s2)) + size_clusters (vol s2) (of_nat (32 * (length (table h path names cs) + 2))) \<le> unat (num_clusters (vol s2))"
    using f1(2,5) s1(1) s2 lt sc room by (simp_all add: room_for_def)
  obtain c s3 where s3: "build_table d False its (length names) s2 =
      Inr (0, Some \<lparr>imp_first_cluster = c, imp_size = 0, imp_dot_dot = Some d\<rparr>, s3)"
    "fs_ok (vol s3)" "extends f1 (vol s3)"
    "placed (vol s3) d EXTENT_TYPE_DIR c (size_clusters (vol s) (of_nat (32 * (length names + 2))))"
    "unat (d_size (dirs s3 d)) = 32 * (length names + 2)" "dir_table_ok (d_entries (dirs s3 d)) c (table h path names cs)"
    "files s3 = files s2"
    using build_table_ok [OF r2, of d] unfolding lt s2(2) sc by blast
  have "import_dir (Suc depth) h False path s = Inr (0, Some \<lparr>imp_first_cluster = c, imp_size = 0, imp_dot_dot = Some d\<rparr>, s3)"
    using rd imp_oom s2(1) s3(1) by (simp add: malloc_obj_def d_def s1_def)
  moreover have "\<forall>i < length names. placed (vol s3) (d + 3 * i + 3) EXTENT_TYPE_FILE (cs ! i) (size_clusters (vol s) (file_size h path (names ! i)))"
    using f1(6) placed_extends [OF _ s3(3) f1(2)] by (simp add: numeral_3_eq_3)
  moreover have "\<forall>i < length names. backed h (path @ [0x2F] @ names ! i) s3 (d + 3 * i + 3)"
    using s2(5) backed_cong [of s3 _ s2] s3(7) by (simp add: s1_def numeral_3_eq_3)
  ultimately show ?thesis
    using s3 f1(4) extends_trans [OF f1(3) s3(3)] by (auto simp: dir_imported_def d_def)
qed

section \<open>Properties\<close>

text \<open>
  C10. Importing a tree that is one directory of regular files with names the converter accepts, into a
  volume with room for them, whatever dot entries \<^verbatim>\<open>readdir\<close> returns among them: the call succeeds, the boot
  sector names the cluster of the root directory and the information sector the number of free clusters, the
  root's chain in the allocation table covers an extent backed by its table, the table lists the volume's own
  dot entries and then exactly the files in order with short name, size and first cluster, and the chain of
  each file covers an extent whose object records the path, the size and the identity of that file.
\<close>

theorem files_imported:
  assumes "fs_ok (vol s)" "\<forall>n. \<not> imp_oom s n" "free_items_head s = None" "h_readdir h path = Some des"
    and "flat_dir h path des" "names = visible des" "room_for h path names (vol s)"
  shows "\<exists>c s'. import_tree (Suc depth) h path s = Inr (0, s') \<and> fs_ok (vol s') \<and>
    le32 (boot (vol s')) 44 = c \<and> le32 (fs_info (vol s')) 488 = num_clusters (vol s') - next_cluster (vol s') \<and>
    dir_imported h path names (imp_mallocs s) (vol s) c s'"
proof -
  obtain c s1 where s1: "import_dir (Suc depth) h False path s =
      Inr (0, Some \<lparr>imp_first_cluster = c, imp_size = 0, imp_dot_dot = Some (imp_mallocs s)\<rparr>, s1)"
    "fs_ok (vol s1)" "dir_imported h path names (imp_mallocs s) (vol s) c s1"
    using import_dir_files [OF assms] by blast
  define s' where "s' = s1\<lparr>vol := fs_update_free_clusters (fs_set_rootdir_start c (vol s1))\<rparr>"
  have same: "fat (vol s') = fat (vol s1)" "next_cluster (vol s') = next_cluster (vol s1)" "extents (vol s') = extents (vol s1)"
    "data_offset (vol s') = data_offset (vol s1)" "cluster_size (vol s') = cluster_size (vol s1)" "dirs s' = dirs s1"
    "files s' = files s1" "num_clusters (vol s') = num_clusters (vol s1)"
    by (simp_all add: s'_def fs_update_free_clusters_def fs_set_rootdir_start_def)
  have "placed (vol s') = placed (vol s1)" using same by (simp add: placed_def fun_eq_iff)
  then have "dir_imported h path names (imp_mallocs s) (vol s) c s'" using s1(3) same(6) backed_cong [of s' _ s1] same(7) by (simp add: dir_imported_def)
  moreover have "fs_ok (vol s')"
    using s1(2) by (simp add: fs_ok_def s'_def fs_update_free_clusters_def fs_set_rootdir_start_def length_blit)
  moreover have "le32 (boot (vol s')) 44 = c" "le32 (fs_info (vol s')) 488 = num_clusters (vol s') - next_cluster (vol s')"
    using s1(2) by (simp_all add: fs_ok_def s'_def fs_update_free_clusters_def fs_set_rootdir_start_def le32_blit_same)
  moreover have "import_tree (Suc depth) h path s = Inr (0, s')"
    using s1(1) by (simp add: import_tree_def s'_def del: import_dir.simps)
  ultimately show ?thesis by blast
qed

definition sample_import :: import_st where
  "sample_import = \<lparr>vol = small_fs\<lparr>num_clusters := 10, fat := replicate 40 0, fat_size := 40\<rparr>, files = files small_st,
     dirs = dirs small_st, pool = pool_start some_nodes,
     items = (\<lambda>_. \<lparr>it_name = [], it_imp = None, it_next = None, it_is_dir = False\<rparr>), free_items_head = None,
     imp_mallocs = 1, imp_oom = (\<lambda>_. False)\<rparr>"

definition sample_host :: "(bytes \<times> d_type) list \<Rightarrow> import_host" where
  "sample_host des = \<lparr>h_stat = (\<lambda>_. Some \<lparr>st_size = 600, st_dev = 0, st_ino = 0, st_mtime = 0\<rparr>), h_open = (\<lambda>_ _. 3),
     h_lseek = (\<lambda>_ o'. o'), h_read = (\<lambda>_ pos n. None), h_readdir = (\<lambda>_. Some des)\<rparr>"

lemma sample_import_ok: "fs_ok (vol sample_import)"
  by (simp add: fs_ok_def sample_import_def small_fs_def extent_ok_def disjoint_extents_def hi_def lo_def)

text \<open>The dot entries and two files, \<^verbatim>\<open>F\<close> and \<^verbatim>\<open>G.TXT\<close>.\<close>

definition sample_listing :: "(bytes \<times> d_type) list" where
  "sample_listing = [([0x2E], DT_DIR), ([0x46], DT_REG), ([0x2E, 0x2E], DT_DIR), ([0x47, 0x2E, 0x54, 0x58, 0x54], DT_REG)]"

lemma sample_visible: "[[0x46], [0x47, 0x2E, 0x54, 0x58, 0x54]] = visible sample_listing"
  by (simp add: visible_def sample_listing_def is_dot_def)

theorem files_imported_witness:
  "\<exists>c s'. import_tree 1 (sample_host sample_listing) [0x2E] sample_import = Inr (0, s') \<and> le32 (boot (vol s')) 44 = c \<and>
    dir_imported (sample_host sample_listing) [0x2E] [[0x46], [0x47, 0x2E, 0x54, 0x58, 0x54]] 1 (vol sample_import) c s'"
proof -
  have flat: "flat_dir (sample_host sample_listing) [0x2E] sample_listing"
    by (simp add: flat_dir_def sample_listing_def is_dot_def importable_def good_name_def valid_char_def isalnum_def PATH_MAX_def
        sample_host_def)
  have room: "room_for (sample_host sample_listing) [0x2E] [[0x46], [0x47, 0x2E, 0x54, 0x58, 0x54]] (vol sample_import)"
    by (simp add: room_for_def sample_import_def small_fs_def size_clusters_def clusters_for_def file_size_def sample_host_def)
  have env: "\<forall>n. \<not> imp_oom sample_import n" "free_items_head sample_import = None" "imp_mallocs sample_import = 1"
    "h_readdir (sample_host sample_listing) [0x2E] = Some sample_listing"
    by (simp_all add: sample_import_def sample_host_def)
  show ?thesis
    using files_imported [OF sample_import_ok env(1,2,4) flat sample_visible room, of 0] unfolding env(3) One_nat_def by blast
qed

text \<open>
  The short names: a name with a dot is accepted exactly when its two parts have at most eight and three
  bytes, and becomes both parts in upper case, each padded, with the terminating zero of the name left
  behind the extension. A name without a dot is padded up to eleven bytes without a test of its length, and
  one of more than twelve bytes is written past the name and its padding.
\<close>

theorem short_names:
  assumes "list_all valid_char xs" "list_all valid_char ys" "length b = 12"
  shows "convert_name b (xs @ 0x2E # ys) =
      (if length xs \<le> 8 \<and> length ys \<le> 3
       then Inr (0, upper xs @ replicate (8 - length xs) 0x20 @ upper ys @ [0] @ drop (9 + length ys) (replicate 11 0x20 @ [b ! 11]))
       else Inr (1, b)) \<and>
    (length xs \<le> 11 \<longrightarrow> convert_name b xs = Inr (0, upper xs @ replicate (11 - length xs) 0x20 @ [b ! 11])) \<and>
    (12 < length xs \<longrightarrow> convert_name b xs = Inl Undefined)"
  using convert_name_dot [OF assms(1,2) _ _ assms(3)] convert_name_refused [OF assms(1,2)] convert_name_plain [OF assms(1) _ assms(3)]
    convert_name_overrun [OF assms(1) _ assms(3)]
  by auto

theorem short_names_witness:
  "convert_name (replicate 12 0) [0x61, 0x2E, 0x63] = Inr (0, [0x41] @ replicate 7 0x20 @ [0x43, 0, 0x20, 0])"
proof -
  have "list_all valid_char [0x61]" "list_all valid_char [0x63]" by (simp_all add: valid_char_def isalnum_def)
  from short_names [OF this, of "replicate 12 0"] show ?thesis by (simp add: upper_def toupper_def)
qed

definition shared_listing :: "(bytes \<times> d_type) list" where
  "shared_listing = [([0x41, 0x2B], DT_REG), ([0x2E], DT_DIR), ([0x46], DT_REG), ([0x47], DT_REG)]"

definition empty_files :: import_host where
  "empty_files = (sample_host shared_listing)\<lparr>h_stat := \<lambda>_. Some \<lparr>st_size = 0, st_dev = 0, st_ino = 0, st_mtime = 0\<rparr>\<rparr>"

lemma convert_refused: "convert_name b [0x41, 0x2B] = Inr (1, b)"
  by (simp add: convert_name_def valid_char_def isalnum_def)

lemma convert_single: "length b = 12 \<Longrightarrow> valid_char c \<Longrightarrow> convert_name b [c] = Inr (0, toupper c # replicate 10 0x20 @ [b ! 11])"
  using convert_name_plain [of "[c]" b] by (simp add: upper_def)

text \<open>
  An entry whose name is refused followed by one whose name starts with a dot puts the same item on the
  free list twice, and the files that follow share it. For a directory with the entries \<^verbatim>\<open>A+\<close>,
  \<^verbatim>\<open>.\<close>, \<^verbatim>\<open>F\<close>, \<^verbatim>\<open>G\<close> the code counts two files, but its list is the one item of \<^verbatim>\<open>G\<close> linked
  to itself: the table lists \<^verbatim>\<open>G\<close> twice and \<^verbatim>\<open>F\<close> not at all.
\<close>

theorem shared_items_lose_files:
  "\<exists>s' a. scan_dir sub empty_files [0x2E] shared_listing None None 0 sample_import = Inr (Some a, Some 2, s') \<and>
     it_next (items s' a) = Some a \<and> take 11 (it_name (items s' a)) = 0x47 # replicate 10 0x20"
  by (simp add: shared_listing_def sample_import_def sample_host_def empty_files_def alloc_item_def malloc_obj_def skip_item_def
      free_item_def item_upd_def convert_refused convert_single PATH_MAX_def import_item_def import_file_def fdpool_init_def
      fdpool_clear_def node_upd_def fs_alloc_extent_def store_imp_def Let_def valid_char_def isalnum_def toupper_def)

end
