(* ===== verification/Ublock.thy ===== *)
theory Ublock
  imports Bytes
begin

text \<open>
  \<^verbatim>\<open>libublock\<close>: a block device in user space. The library reads requests of the kernel from a device
  file, calls the client's \<^verbatim>\<open>read\<close> and \<^verbatim>\<open>write\<close> and writes the replies.

  The message structures are declared in a kernel header that is not part of the repository: their sizes,
  field accessors and operation codes are the parameter \<open>ublock_abi\<close>, and \<open>abi_ok\<close> says what
  the code relies on. The kernel is a parameter too: the \<open>n\<close>-th request, how much of a reply it takes, and
  which allocations fail. The client's operations work on a state of their own and tell whether they called
  \<^verbatim>\<open>ublock_stop\<close>; an operation that is handed a length may use that many bytes of the buffer.
  A failed assertion, a variable used before it is set and an access outside a buffer are \<open>Undefined\<close>.
\<close>

section \<open>Parameters\<close>

record ublock_abi =
  in_header_size :: nat
  out_header_size :: nat
  init_in_size :: nat
  init_out_size :: nat
  ready_in_size :: nat
  ready_out_size :: nat
  read_in_size :: nat
  read_out_size :: nat
  write_in_size :: nat
  write_out_size :: nat
  UBLOCK_INIT_IN :: int
  UBLOCK_INIT_OUT :: int
  UBLOCK_READY_IN :: int
  UBLOCK_READY_OUT :: int
  UBLOCK_READ_IN :: int
  UBLOCK_READ_OUT :: int
  UBLOCK_WRITE_IN :: int
  UBLOCK_WRITE_OUT :: int
  in_opcode :: "bytes \<Rightarrow> int"
  in_seq :: "bytes \<Rightarrow> int"
  init_version :: "bytes \<Rightarrow> int"
  init_max_buf :: "bytes \<Rightarrow> nat"
  init_index :: "bytes \<Rightarrow> u32"
  read_length :: "bytes \<Rightarrow> u64"
  read_offset :: "bytes \<Rightarrow> u64"
  write_length :: "bytes \<Rightarrow> u64"
  write_offset :: "bytes \<Rightarrow> u64"
  out_header :: "int \<Rightarrow> int \<Rightarrow> bytes"
  init_out :: "int \<Rightarrow> u64 \<Rightarrow> nat \<Rightarrow> bytes"
  read_out :: "int \<Rightarrow> bytes"
  write_out :: "int \<Rightarrow> bytes"

definition abi_ok :: "ublock_abi \<Rightarrow> bool" where
  "abi_ok abi \<longleftrightarrow>
     distinct [UBLOCK_INIT_IN abi, UBLOCK_READY_IN abi, UBLOCK_READ_IN abi, UBLOCK_WRITE_IN abi] \<and>
     (\<forall>op sq. length (out_header abi op sq) = out_header_size abi) \<and>
     (\<forall>v n m. length (init_out abi v n m) = init_out_size abi) \<and>
     (\<forall>st. length (read_out abi st) = read_out_size abi \<and> length (write_out abi st) = write_out_size abi)"

record kernel =
  k_open :: "int option"
  k_read :: "nat \<Rightarrow> bytes option"
  k_write :: "nat \<Rightarrow> bytes \<Rightarrow> int"
  k_oom :: "nat \<Rightarrow> bool"
  k_junk :: "nat \<Rightarrow> u8"

record 'u ublock_ops =
  op_read :: "bytes \<Rightarrow> u64 \<Rightarrow> u64 \<Rightarrow> 'u \<Rightarrow> (int \<times> bool \<times> bytes \<times> 'u) res"
  op_write :: "bytes \<Rightarrow> u64 \<Rightarrow> u64 \<Rightarrow> 'u \<Rightarrow> (int \<times> bool \<times> 'u) res"

section \<open>Context\<close>

text \<open>\<open>ub_seen\<close> counts the requests read, \<open>ub_sent\<close> holds the replies, the last one first.\<close>

record 'u ublock_ctx =
  ub_index :: u32
  ub_size :: u64
  ub_max_buf :: nat
  ub_flags :: u32
  ub_fd :: int
  ub_fails :: "int option"
  ub_in :: bytes
  ub_out :: bytes
  ub_user :: 'u
  ub_seen :: nat
  ub_sent :: "bytes list"

abbreviation (input) CTX_INITED :: u32 where "CTX_INITED \<equiv> 1"
abbreviation (input) CTX_READY :: u32 where "CTX_READY \<equiv> 2"
abbreviation (input) CTX_RUNNING :: u32 where "CTX_RUNNING \<equiv> 4"
abbreviation (input) MAX_BUF :: nat where "MAX_BUF \<equiv> 65536"
abbreviation (input) MAX_FAILURES :: int where "MAX_FAILURES \<equiv> 10"
abbreviation (input) EPROTO :: int where "EPROTO \<equiv> 71"
abbreviation (input) EFAULT :: int where "EFAULT \<equiv> 14"
abbreviation (input) EINVAL :: int where "EINVAL \<equiv> 22"
abbreviation (input) ENOMEM :: int where "ENOMEM \<equiv> 12"
abbreviation (input) ENOENT :: int where "ENOENT \<equiv> 2"

definition UBLOCK_VERSION :: int where "UBLOCK_VERSION = 0"

definition ublock_stop :: "'u ublock_ctx \<Rightarrow> 'u ublock_ctx" where
  "ublock_stop s =
     (if ub_flags s AND CTX_INITED = 0 then s else s\<lparr>ub_flags := ub_flags s AND NOT CTX_RUNNING\<rparr>)"

definition ublock_succeed :: "'u ublock_ctx \<Rightarrow> 'u ublock_ctx" where
  "ublock_succeed s = s\<lparr>ub_fails := Some 0\<rparr>"

definition ublock_fail :: "'u ublock_ctx \<Rightarrow> 'u ublock_ctx res" where
  "ublock_fail s =
     (case ub_fails s of None \<Rightarrow> Inl Undefined
      | Some n \<Rightarrow>
          let s = s\<lparr>ub_fails := Some (n + 1)\<rparr> in Inr (if MAX_FAILURES < n + 1 then ublock_stop s else s))"

section \<open>Handlers\<close>

text \<open>
  A handler gets the received bytes behind the header. Its result is the return value, the value of
  \<^verbatim>\<open>*out_len\<close> if it was set, and the context.
\<close>

type_synonym 'u handler = "bytes \<Rightarrow> 'u ublock_ctx \<Rightarrow> (int \<times> nat option \<times> 'u ublock_ctx) res"

definition ublock_handle_init :: "ublock_abi \<Rightarrow> 'u handler" where
  "ublock_handle_init abi inb s =
     (if length inb \<noteq> init_in_size abi then Inr (- EPROTO, None, s)
      else if init_version abi inb \<noteq> UBLOCK_VERSION then Inr (- EPROTO, None, s)
      else
        let m = (if init_max_buf abi inb < MAX_BUF then init_max_buf abi inb else MAX_BUF) in
        bnd (put_bytes (ub_out s) (out_header_size abi) (init_out abi UBLOCK_VERSION (ub_size s) m)) (\<lambda>b.
        Inr (0, Some (init_out_size abi),
             s\<lparr>ub_out := b, ub_max_buf := m, ub_index := init_index abi inb, ub_flags := ub_flags s OR CTX_INITED\<rparr>)))"

definition ublock_handle_ready :: "ublock_abi \<Rightarrow> 'u handler" where
  "ublock_handle_ready abi inb s =
     (if length inb \<noteq> ready_in_size abi then Inr (- EPROTO, None, s)
      else Inr (0, Some (ready_out_size abi), s\<lparr>ub_flags := ub_flags s OR CTX_READY\<rparr>))"

definition stop_if :: "bool \<Rightarrow> 'u ublock_ctx \<Rightarrow> 'u ublock_ctx" where
  "stop_if stop s = (if stop then ublock_stop s else s)"

definition ublock_handle_read :: "ublock_abi \<Rightarrow> 'u ublock_ops \<Rightarrow> 'u handler" where
  "ublock_handle_read abi ops inb s =
     (if length inb \<noteq> read_in_size abi then Inr (- EPROTO, None, s)
      else
        let at = out_header_size abi + read_out_size abi; len = read_length abi inb in
        if length (ub_out s) < at + unat len then Inl Undefined
        else
          bnd (op_read ops (take (unat len) (drop at (ub_out s))) len (read_offset abi inb) (ub_user s)) (\<lambda>(st, stop, buf, u).
          bnd (put_bytes (ub_out s) at buf) (\<lambda>b.
          bnd (put_bytes b (out_header_size abi) (read_out abi st)) (\<lambda>b.
          Inr (0, Some (if 0 \<le> st then read_out_size abi + unat len else read_out_size abi),
               stop_if stop (s\<lparr>ub_out := b, ub_user := u\<rparr>))))))"

text \<open>The length in the request is not compared with the bytes received: the operation is handed what the
  buffer holds.\<close>

definition ublock_handle_write :: "ublock_abi \<Rightarrow> 'u ublock_ops \<Rightarrow> 'u handler" where
  "ublock_handle_write abi ops inb s =
     (if length inb < write_in_size abi then Inr (- EPROTO, None, s)
      else
        let at = in_header_size abi + write_in_size abi; len = write_length abi inb in
        if length (ub_in s) < at + unat len then Inl Undefined
        else
          bnd (op_write ops (take (unat len) (drop at (ub_in s))) len (write_offset abi inb) (ub_user s)) (\<lambda>(st, stop, u).
          bnd (put_bytes (ub_out s) (out_header_size abi) (write_out abi st)) (\<lambda>b.
          Inr (0, Some (write_out_size abi), stop_if stop (s\<lparr>ub_out := b, ub_user := u\<rparr>)))))"

text \<open>The switch over the operation code: the code of the reply and the handler.\<close>

definition handle_fn :: "ublock_abi \<Rightarrow> 'u ublock_ops \<Rightarrow> int \<Rightarrow> (int \<times> 'u handler) option" where
  "handle_fn abi ops op =
     (if op = UBLOCK_INIT_IN abi then Some (UBLOCK_INIT_OUT abi, ublock_handle_init abi)
      else if op = UBLOCK_READY_IN abi then Some (UBLOCK_READY_OUT abi, ublock_handle_ready abi)
      else if op = UBLOCK_READ_IN abi then Some (UBLOCK_READ_OUT abi, ublock_handle_read abi ops)
      else if op = UBLOCK_WRITE_IN abi then Some (UBLOCK_WRITE_OUT abi, ublock_handle_write abi ops)
      else None)"

definition ublock_handle_request :: "ublock_abi \<Rightarrow> 'u ublock_ops \<Rightarrow> 'u handler" where
  "ublock_handle_request abi ops inb s =
     (if length inb < in_header_size abi then Inr (- EPROTO, None, s)
      else
        (case handle_fn abi ops (in_opcode abi inb) of
           None \<Rightarrow> Inr (- EPROTO, None, s)
         | Some (op, fn) \<Rightarrow>
             bnd (put_bytes (ub_out s) 0 (out_header abi op (in_seq abi inb))) (\<lambda>b.
             bnd (fn (drop (in_header_size abi) inb) (s\<lparr>ub_out := b\<rparr>)) (\<lambda>(result, out_len, s).
             Inr (result, map_option (\<lambda>n. out_header_size abi + n) out_len, s)))))"

text \<open>The number of bytes written is compared as an unsigned number, so an error looks like success.\<close>

definition ublock_do_request ::
  "ublock_abi \<Rightarrow> 'u ublock_ops \<Rightarrow> kernel \<Rightarrow> nat \<Rightarrow> nat \<Rightarrow> 'u ublock_ctx \<Rightarrow> (int \<times> 'u ublock_ctx) res" where
  "ublock_do_request abi ops k in_size out_size s =
     (let n = ub_seen s; s = s\<lparr>ub_seen := n + 1\<rparr> in
      case k_read k n of
        None \<Rightarrow> Inr (- EPROTO, s)
      | Some msg \<Rightarrow>
          bnd (put_bytes (ub_in s) 0 (take in_size msg)) (\<lambda>b.
          bnd (ublock_handle_request abi ops (take in_size msg) (s\<lparr>ub_in := b\<rparr>)) (\<lambda>(result, out_len, s).
          case out_len of
            None \<Rightarrow> Inl Undefined
          | Some len \<Rightarrow>
              if out_size < len \<or> length (ub_out s) < len then Inl Undefined
              else
                let reply = take len (ub_out s); s = s\<lparr>ub_sent := reply # ub_sent s\<rparr> in
                if unat (word_of_int (k_write k n reply) :: u32) < len then Inr (- EPROTO, s)
                else if result \<noteq> 0 then bnd (ublock_fail s) (\<lambda>s. Inr (result, s))
                else Inr (result, ublock_succeed s))))"

section \<open>Loop and interface\<close>

abbreviation (input) EXIT_READY :: u32 where "EXIT_READY \<equiv> 1"
abbreviation (input) EXIT_STOPPED :: u32 where "EXIT_STOPPED \<equiv> 2"

text \<open>The third disjunct of the condition tests the result of the last request, which is 0 here.\<close>

definition goes_on :: "u32 \<Rightarrow> 'u ublock_ctx \<Rightarrow> bool" where
  "goes_on exit_cond s \<longleftrightarrow>
     exit_cond AND EXIT_READY \<noteq> 0 \<and> ub_flags s AND CTX_READY = 0 \<or>
     exit_cond AND EXIT_STOPPED \<noteq> 0 \<and> ub_flags s AND CTX_RUNNING \<noteq> 0"

fun ublock_loop ::
  "nat \<Rightarrow> ublock_abi \<Rightarrow> 'u ublock_ops \<Rightarrow> kernel \<Rightarrow> u32 \<Rightarrow> 'u ublock_ctx \<Rightarrow> (int \<times> 'u ublock_ctx) res" where
  "ublock_loop fuel abi ops k exit_cond s =
     (if \<not> goes_on exit_cond s then Inr (0, s)
      else (case fuel of
          0 \<Rightarrow> Inl Diverges
        | Suc fuel \<Rightarrow>
            bnd (ublock_do_request abi ops k (ub_max_buf s) (ub_max_buf s) s) (\<lambda>(result, s).
            if result \<noteq> 0 then Inr (result, s) else ublock_loop fuel abi ops k exit_cond s)))"

declare ublock_loop.simps [simp del]

definition ublock_run ::
  "nat \<Rightarrow> ublock_abi \<Rightarrow> 'u ublock_ops \<Rightarrow> kernel \<Rightarrow> 'u ublock_ctx option \<Rightarrow> (int \<times> 'u ublock_ctx option) res" where
  "ublock_run fuel abi ops k ub =
     (case ub of None \<Rightarrow> Inr (- EFAULT, None)
      | Some s \<Rightarrow>
          if ub_flags s AND CTX_INITED = 0 then Inr (- EINVAL, Some s)
          else
            bnd (ublock_loop fuel abi ops k EXIT_STOPPED (s\<lparr>ub_flags := ub_flags s OR CTX_RUNNING\<rparr>)) (\<lambda>(_, s).
            Inr (0, Some s)))"

definition ublock_index :: "'u ublock_ctx option \<Rightarrow> int" where
  "ublock_index ub =
     (case ub of None \<Rightarrow> - EFAULT
      | Some s \<Rightarrow> if ub_flags s AND CTX_INITED = 0 then - EINVAL else sint (ub_index s))"

definition ublock_init_buf_size :: "ublock_abi \<Rightarrow> nat" where
  "ublock_init_buf_size abi =
     (let in_size = in_header_size abi + init_in_size abi; out_size = out_header_size abi + init_out_size abi in
      if out_size < in_size then in_size else out_size)"

definition fresh_buf :: "kernel \<Rightarrow> nat \<Rightarrow> bytes" where
  "fresh_buf k n = map (k_junk k) [0..<n]"

text \<open>
  The label \<^verbatim>\<open>error\<close> frees \<^verbatim>\<open>ub_ctx->in_buf\<close>, which is not set before the second pair of
  allocations: an error until then uses it uninitialised.
\<close>

definition ublock_init ::
  "nat \<Rightarrow> ublock_abi \<Rightarrow> 'u ublock_ops option \<Rightarrow> kernel \<Rightarrow> bool \<Rightarrow> u64 \<Rightarrow> 'u \<Rightarrow> (int \<times> 'u ublock_ctx option) res" where
  "ublock_init fuel abi ops k ub_ctx_out dev_size u =
     (case ops of None \<Rightarrow> Inr (- EFAULT, None)
      | Some ops \<Rightarrow>
          if \<not> ub_ctx_out then Inr (- EFAULT, None)
          else if k_oom k 0 then Inr (- ENOMEM, None)
          else if k_oom k 1 \<or> k_oom k 2 then Inl Undefined
          else
            (case k_open k of
               None \<Rightarrow> Inl Undefined
             | Some fd \<Rightarrow>
                 let n = ublock_init_buf_size abi in
                 bnd (ublock_do_request abi ops k n n
                        \<lparr>ub_index = 0, ub_size = dev_size, ub_max_buf = 0, ub_flags = 0, ub_fd = fd, ub_fails = None,
                          ub_in = fresh_buf k n, ub_out = fresh_buf k n, ub_user = u, ub_seen = 0, ub_sent = []\<rparr>)
                   (\<lambda>(result, s).
                 if result \<noteq> 0 \<or> ub_flags s = 0 then Inl Undefined
                 else if k_oom k 3 \<or> k_oom k 4 then Inr (- ENOMEM, None)
                 else
                   bnd (ublock_loop fuel abi ops k EXIT_READY
                          (s\<lparr>ub_in := fresh_buf k (ub_max_buf s), ub_out := fresh_buf k (ub_max_buf s)\<rparr>)) (\<lambda>(_, s).
                   Inr (0, Some s)))))"

text \<open>The descriptors that are closed; the buffers of the context are not freed.\<close>

definition ublock_destroy :: "'u ublock_ctx option \<Rightarrow> int list" where
  "ublock_destroy ub = (case ub of None \<Rightarrow> [] | Some s \<Rightarrow> [ub_fd s])"

section \<open>Requests outside the protocol\<close>

definition well_formed :: "ublock_abi \<Rightarrow> bytes \<Rightarrow> bool" where
  "well_formed abi m \<longleftrightarrow>
     in_header_size abi \<le> length m \<and>
     (let op = in_opcode abi m; n = length m - in_header_size abi in
      if op = UBLOCK_INIT_IN abi
      then n = init_in_size abi \<and> init_version abi (drop (in_header_size abi) m) = UBLOCK_VERSION
      else if op = UBLOCK_READY_IN abi then n = ready_in_size abi
      else if op = UBLOCK_READ_IN abi then n = read_in_size abi
      else op = UBLOCK_WRITE_IN abi \<and> write_in_size abi \<le> n)"

lemma put_bytes_Inl: "put_bytes b i x = Inl e \<Longrightarrow> e = Undefined"
  by (auto simp: put_bytes_def split: if_splits)

lemma bnd_put_bytes_undefined: "(\<And>b'. f b' = Inl Undefined) \<Longrightarrow> bnd (put_bytes b i x) f = Inl Undefined"
  by (simp add: put_bytes_def)

lemma handler_rejects:
  assumes "\<not> well_formed abi m" "in_header_size abi \<le> length m" "handle_fn abi ops (in_opcode abi m) = Some (op, fn)"
  shows "fn (drop (in_header_size abi) m) s = Inr (- EPROTO, None, s)"
proof -
  let ?op = "in_opcode abi m"
  consider "?op = UBLOCK_INIT_IN abi" | "?op \<noteq> UBLOCK_INIT_IN abi" "?op = UBLOCK_READY_IN abi"
    | "?op \<noteq> UBLOCK_INIT_IN abi" "?op \<noteq> UBLOCK_READY_IN abi" "?op = UBLOCK_READ_IN abi"
    | "?op \<noteq> UBLOCK_INIT_IN abi" "?op \<noteq> UBLOCK_READY_IN abi" "?op \<noteq> UBLOCK_READ_IN abi" by blast
  then show ?thesis
  proof cases
    case 1
    then show ?thesis using assms by (auto simp: handle_fn_def well_formed_def ublock_handle_init_def)
  next
    case 2
    then show ?thesis using assms by (auto simp: handle_fn_def well_formed_def ublock_handle_ready_def)
  next
    case 3
    then show ?thesis using assms by (auto simp: handle_fn_def well_formed_def ublock_handle_read_def)
  next
    case 4
    then show ?thesis using assms by (auto simp: handle_fn_def well_formed_def ublock_handle_write_def split: if_splits)
  qed
qed

text \<open>
  C40. A request that does not follow the protocol is not rejected as intended: the length of the reply is
  then never set, and \<^verbatim>\<open>ublock_do_request\<close> uses it before it comes to counting the failure.
\<close>

theorem protocol_error_undefined:
  assumes "k_read k (ub_seen s) = Some m" and "\<not> well_formed abi (take n m)"
  shows "ublock_do_request abi ops k n n' s = Inl Undefined"
proof -
  have h: "ublock_handle_request abi ops (take n m) t = Inl Undefined \<or>
      (\<exists>r t'. ublock_handle_request abi ops (take n m) t = Inr (r, None, t'))" for t :: "'a ublock_ctx"
  proof (cases "length (take n m) < in_header_size abi")
    case False
    then show ?thesis
    proof (cases "handle_fn abi ops (in_opcode abi (take n m))")
      case (Some f)
      then obtain op fn where f: "handle_fn abi ops (in_opcode abi (take n m)) = Some (op, fn)" by (cases f) simp
      then have "fn (drop (in_header_size abi) (take n m)) t' = Inr (- EPROTO, None, t')" for t'
        using handler_rejects [OF assms(2)] False by (metis not_le)
      then show ?thesis using False f by (simp add: ublock_handle_request_def put_bytes_def)
    qed (simp add: ublock_handle_request_def)
  qed (simp add: ublock_handle_request_def)
  have "bnd (ublock_handle_request abi ops (take n m) t) (\<lambda>(result, out_len, s). case out_len of
      None \<Rightarrow> Inl Undefined | Some len \<Rightarrow> g result len s) = Inl Undefined" for t :: "'a ublock_ctx" and g :: "_ \<Rightarrow> _ \<Rightarrow> _ \<Rightarrow> (int \<times> 'a ublock_ctx) res"
    using h [of t] by (elim disjE exE) simp_all
  then show ?thesis
    using assms(1) by (simp add: ublock_do_request_def Let_def bnd_put_bytes_undefined)
qed

text \<open>A protocol of small messages, and a kernel that sends an unknown operation code.\<close>

definition sample_abi :: ublock_abi where
  "sample_abi = \<lparr>in_header_size = 2, out_header_size = 2, init_in_size = 3, init_out_size = 3, ready_in_size = 0,
     ready_out_size = 0, read_in_size = 2, read_out_size = 1, write_in_size = 2, write_out_size = 1,
     UBLOCK_INIT_IN = 1, UBLOCK_INIT_OUT = 2, UBLOCK_READY_IN = 3, UBLOCK_READY_OUT = 4, UBLOCK_READ_IN = 5, UBLOCK_READ_OUT = 6,
     UBLOCK_WRITE_IN = 7, UBLOCK_WRITE_OUT = 8, in_opcode = (\<lambda>b. uint (b ! 0)), in_seq = (\<lambda>b. uint (b ! 1)),
     init_version = (\<lambda>b. uint (b ! 0)), init_max_buf = (\<lambda>b. unat (b ! 1)), init_index = (\<lambda>b. ucast (b ! 2)),
     read_length = (\<lambda>b. ucast (b ! 0)), read_offset = (\<lambda>b. 16 * ucast (b ! 1)),
     write_length = (\<lambda>b. ucast (b ! 0)), write_offset = (\<lambda>b. 16 * ucast (b ! 1)),
     out_header = (\<lambda>op sq. [word_of_int op, word_of_int sq]), init_out = (\<lambda>v n m. [word_of_int v, ucast n, of_nat m]),
     read_out = (\<lambda>st. [word_of_int st]), write_out = (\<lambda>st. [word_of_int st])\<rparr>"

theorem protocol_error_undefined_witness:
  "ublock_do_request sample_abi \<lparr>op_read = (\<lambda>b _ _ u. Inr (0, False, b, u)), op_write = (\<lambda>_ _ _ u. Inr (0, False, u))\<rparr>
     \<lparr>k_open = Some 5, k_read = (\<lambda>_. Some [99, 1]), k_write = (\<lambda>_ r. int (length r)), k_oom = (\<lambda>_. False), k_junk = (\<lambda>_. 0)\<rparr> 16 16
     \<lparr>ub_index = 0, ub_size = 0, ub_max_buf = 16, ub_flags = 3, ub_fd = 5, ub_fails = Some 0,
       ub_in = replicate 16 0, ub_out = replicate 16 0, ub_user = (), ub_seen = 0, ub_sent = []\<rparr> = Inl Undefined"
  by (rule protocol_error_undefined [of _ _ "[99, 1]"]) (simp_all add: well_formed_def sample_abi_def)

section \<open>Reading\<close>

definition read_request :: "ublock_abi \<Rightarrow> nat \<Rightarrow> bytes \<Rightarrow> bool" where
  "read_request abi lim m \<longleftrightarrow>
     length m = in_header_size abi + read_in_size abi \<and> length m \<le> lim \<and> in_opcode abi m = UBLOCK_READ_IN abi \<and>
     out_header_size abi + read_out_size abi + unat (read_length abi (drop (in_header_size abi) m)) \<le> lim"

definition req_length :: "ublock_abi \<Rightarrow> bytes \<Rightarrow> u64" where
  "req_length abi m = read_length abi (drop (in_header_size abi) m)"

definition req_offset :: "ublock_abi \<Rightarrow> bytes \<Rightarrow> u64" where
  "req_offset abi m = read_offset abi (drop (in_header_size abi) m)"

definition read_reply :: "ublock_abi \<Rightarrow> bytes \<Rightarrow> int \<Rightarrow> bytes \<Rightarrow> bytes" where
  "read_reply abi m st buf =
     out_header abi (UBLOCK_READ_OUT abi) (in_seq abi m) @ read_out abi st @ (if 0 \<le> st then buf else [])"

text \<open>What the kernel does with a reply: it takes all of it, or reports an error.\<close>

definition takes_replies :: "kernel \<Rightarrow> bool" where
  "takes_replies k \<longleftrightarrow> (\<forall>n r. length r < 2 ^ 31 \<longrightarrow> k_write k n r = int (length r) \<or> k_write k n r = - 1)"

lemma reply_taken:
  assumes "takes_replies k" "length r < 2 ^ 31"
  shows "\<not> unat (word_of_int (k_write k n r) :: u32) < length r"
proof (cases "k_write k n r = - 1")
  case True
  have "unat (- 1 :: u32) = 2 ^ 32 - 1" by (simp add: unsigned_minus_1_eq_mask mask_eq_exp_minus_1)
  then show ?thesis using True assms(2) by simp
next
  case False
  then have "k_write k n r = int (length r)" using assms by (auto simp: takes_replies_def)
  then show ?thesis using assms(2) by (simp add: unat_of_nat_u32)
qed

definition buffers :: "'u ublock_ctx \<Rightarrow> bool" where
  "buffers s \<longleftrightarrow> length (ub_in s) = ub_max_buf s \<and> length (ub_out s) = ub_max_buf s \<and> ub_max_buf s \<le> MAX_BUF"

lemma reply_in_buffer:
  assumes "length h = hs" "length r = rs" "length d = n" "hs + rs + n \<le> length b"
  shows "blit (blit (blit b 0 h) (hs + rs) d) hs r = h @ r @ d @ drop (hs + rs + n) b"
  using assms by (simp add: blit_def ac_simps)

lemma read_answered:
  assumes abi: "abi_ok abi" and bufs: "buffers s" and msg: "k_read k (ub_seen s) = Some m" and req: "read_request abi (ub_max_buf s) m"
    and kw: "takes_replies k"
    and op: "\<And>b. length b = unat (req_length abi m) \<Longrightarrow>
      \<exists>buf. op_read ops b (req_length abi m) (req_offset abi m) (ub_user s) = Inr (st, stop, buf, u') \<and>
        length buf = unat (req_length abi m) \<and> (0 \<le> st \<longrightarrow> buf = data)"
  shows "\<exists>s'. ublock_do_request abi ops k (ub_max_buf s) (ub_max_buf s) s = Inr (0, s') \<and>
    ub_sent s' = read_reply abi m st data # ub_sent s \<and> ub_user s' = u' \<and> ub_seen s' = ub_seen s + 1 \<and>
    ub_flags s' = (if stop \<and> ub_flags s AND CTX_INITED \<noteq> 0 then ub_flags s AND NOT CTX_RUNNING else ub_flags s) \<and>
    ub_fails s' = Some 0 \<and> ub_max_buf s' = ub_max_buf s \<and> buffers s'"
proof -
  let ?hs = "out_header_size abi" and ?rs = "read_out_size abi" and ?n = "unat (req_length abi m)" and ?M = "ub_max_buf s"
  let ?h = "out_header abi (UBLOCK_READ_OUT abi) (in_seq abi m)"
  have len: "length ?h = ?hs" "length (read_out abi st) = ?rs" using abi by (simp_all add: abi_ok_def)
  have fit: "?hs + ?rs + ?n \<le> ?M" "length m \<le> ?M" "in_opcode abi m = UBLOCK_READ_IN abi"
    "length m = in_header_size abi + read_in_size abi"
    using req by (simp_all add: read_request_def req_length_def)
  have lb: "length (ub_in s) = ?M" "length (ub_out s) = ?M" "?M \<le> MAX_BUF" using bufs by (simp_all add: buffers_def)
  let ?b0 = "blit (ub_out s) 0 ?h"
  have lb0: "length ?b0 = ?M" using fit len lb by (simp add: blit_def)
  obtain buf where buf: "op_read ops (take ?n (drop (?hs + ?rs) ?b0)) (req_length abi m) (req_offset abi m) (ub_user s) = Inr (st, stop, buf, u')"
    "length buf = ?n" "0 \<le> st \<longrightarrow> buf = data"
    using op [of "take ?n (drop (?hs + ?rs) ?b0)"] fit lb0 by auto
  define b2 where "b2 = ?h @ read_out abi st @ buf @ drop (?hs + ?rs + ?n) (ub_out s)"
  define l where "l = (if 0 \<le> st then ?rs + ?n else ?rs)"
  have b2: "blit (blit ?b0 (?hs + ?rs) buf) ?hs (read_out abi st) = b2"
    unfolding b2_def using len buf(2) fit lb by (intro reply_in_buffer) simp_all
  have lb2: "length b2 = ?M" using len buf(2) fit lb by (simp add: b2_def)
  have ll: "l \<le> ?rs + ?n" by (simp add: l_def)
  have fn: "handle_fn abi ops (in_opcode abi m) = Some (UBLOCK_READ_OUT abi, ublock_handle_read abi ops)"
    using abi fit(3) by (simp add: handle_fn_def abi_ok_def)
  define s1 where "s1 = s\<lparr>ub_seen := ub_seen s + 1, ub_in := blit (ub_in s) 0 m\<rparr>"
  have rd: "ublock_handle_read abi ops (drop (in_header_size abi) m) (s1\<lparr>ub_out := ?b0\<rparr>) =
      Inr (0, Some l, stop_if stop (s1\<lparr>ub_out := b2, ub_user := u'\<rparr>))"
    using fit lb0 buf len b2
    by (simp add: ublock_handle_read_def Let_def put_bytes_def length_blit s1_def l_def req_length_def [symmetric] req_offset_def [symmetric])
  have hr: "ublock_handle_request abi ops m s1 = Inr (0, Some (?hs + l), stop_if stop (s1\<lparr>ub_out := b2, ub_user := u'\<rparr>))"
  proof -
    have "put_bytes (ub_out s1) 0 ?h = Inr ?b0" using fit len lb by (simp add: put_bytes_def s1_def)
    moreover have "\<not> length m < in_header_size abi" using fit by simp
    ultimately show ?thesis unfolding ublock_handle_request_def fn by (simp add: rd split del: if_split)
  qed
  have reply: "take (?hs + l) b2 = read_reply abi m st data"
    using buf len by (cases "0 \<le> st") (simp_all add: read_reply_def b2_def l_def)
  have lr: "length (read_reply abi m st data) = ?hs + l" unfolding reply [symmetric] length_take lb2 using fit ll by simp
  let ?s2 = "stop_if stop (s1\<lparr>ub_out := b2, ub_user := u'\<rparr>)"
  have s2: "ub_out ?s2 = b2" "ub_in ?s2 = blit (ub_in s) 0 m" "ub_sent ?s2 = ub_sent s" "ub_user ?s2 = u'" "ub_seen ?s2 = ub_seen s + 1"
    "ub_max_buf ?s2 = ?M"
    "ub_flags ?s2 = (if stop \<and> ub_flags s AND CTX_INITED \<noteq> 0 then ub_flags s AND NOT CTX_RUNNING else ub_flags s)"
    by (simp_all add: stop_if_def ublock_stop_def s1_def)
  have "\<not> unat (word_of_int (k_write k (ub_seen s) (read_reply abi m st data)) :: u32) < ?hs + l"
    using reply_taken [OF kw, of "read_reply abi m st data"] lr fit ll lb(3) by simp
  moreover have "put_bytes (ub_in s) 0 m = Inr (blit (ub_in s) 0 m)" using fit lb by (simp add: put_bytes_def)
  ultimately have run: "ublock_do_request abi ops k ?M ?M s =
      Inr (0, ublock_succeed (?s2\<lparr>ub_sent := read_reply abi m st data # ub_sent s\<rparr>))"
  proof -
    assume w: "\<not> unat (word_of_int (k_write k (ub_seen s) (read_reply abi m st data)) :: u32) < ?hs + l"
      and p: "put_bytes (ub_in s) 0 m = Inr (blit (ub_in s) 0 m)"
    have "s\<lparr>ub_seen := ub_seen s + 1, ub_in := blit (ub_in s) 0 m\<rparr> = s1" by (simp add: s1_def)
    moreover have "take ?M m = m" "\<not> (?M < ?hs + l \<or> length b2 < ?hs + l)" using fit ll unfolding lb2 by auto
    ultimately show ?thesis using w p
      unfolding ublock_do_request_def Let_def msg option.case
      by (simp add: hr reply s2 split del: if_split)
  qed
  have "length (blit (ub_in s) 0 m) = ?M" using fit lb by (simp add: length_blit)
  then show ?thesis unfolding run using s2 lb lb2 by (simp add: ublock_succeed_def buffers_def)
qed

section \<open>Clients\<close>

text \<open>What a client answers to read requests: replies, its final state, and whether it stopped the device.\<close>

fun serve ::
  "ublock_abi \<Rightarrow> (u64 \<Rightarrow> u64 \<Rightarrow> 'u \<Rightarrow> int \<times> bool \<times> bytes \<times> 'u) \<Rightarrow> bytes list \<Rightarrow> 'u \<Rightarrow> bytes list \<times> 'u \<times> bool" where
  "serve abi spec [] u = ([], u, False)"
| "serve abi spec (m # ms) u =
     (case spec (req_length abi m) (req_offset abi m) u of (st, stop, data, u') \<Rightarrow>
        if stop then ([read_reply abi m st data], u', True)
        else (case serve abi spec ms u' of (rs, u'', b) \<Rightarrow> (read_reply abi m st data # rs, u'', b)))"

fun all_allowed ::
  "ublock_abi \<Rightarrow> (u64 \<Rightarrow> u64 \<Rightarrow> 'u \<Rightarrow> bool) \<Rightarrow> (u64 \<Rightarrow> u64 \<Rightarrow> 'u \<Rightarrow> int \<times> bool \<times> bytes \<times> 'u) \<Rightarrow> bytes list \<Rightarrow> 'u \<Rightarrow> bool" where
  "all_allowed abi allowed spec [] u \<longleftrightarrow> True"
| "all_allowed abi allowed spec (m # ms) u \<longleftrightarrow>
     allowed (req_length abi m) (req_offset abi m) u \<and>
     (case spec (req_length abi m) (req_offset abi m) u of (st, stop, data, u') \<Rightarrow> stop \<or> all_allowed abi allowed spec ms u')"

text \<open>
  The contract of a client's \<^verbatim>\<open>read\<close>: on requests that are allowed in its state it fills in the bytes
  of \<open>spec\<close> whatever the buffer held, and keeps its invariant.
\<close>

locale read_client =
  fixes ops :: "'u ublock_ops" and inv :: "'u \<Rightarrow> bool" and allowed :: "u64 \<Rightarrow> u64 \<Rightarrow> 'u \<Rightarrow> bool"
    and spec :: "u64 \<Rightarrow> u64 \<Rightarrow> 'u \<Rightarrow> int \<times> bool \<times> bytes \<times> 'u"
  assumes read_law: "inv u \<Longrightarrow> allowed len off u \<Longrightarrow> spec len off u = (st, stop, data, u') \<Longrightarrow> length b = unat len \<Longrightarrow>
      \<exists>buf. op_read ops b len off u = Inr (st, stop, buf, u') \<and> length buf = unat len \<and> (0 \<le> st \<longrightarrow> buf = data)"
    and inv_law: "inv u \<Longrightarrow> allowed len off u \<Longrightarrow> spec len off u = (st, stop, data, u') \<Longrightarrow> inv u'"
begin

lemma serve_step:
  assumes "abi_ok abi" "takes_replies k" "buffers s" "k_read k (ub_seen s) = Some m" "read_request abi (ub_max_buf s) m"
    and "inv (ub_user s)" "allowed (req_length abi m) (req_offset abi m) (ub_user s)"
    and "spec (req_length abi m) (req_offset abi m) (ub_user s) = (st, stop, data, u')"
  obtains s' where "ublock_do_request abi ops k (ub_max_buf s) (ub_max_buf s) s = Inr (0, s')"
    and "ub_sent s' = read_reply abi m st data # ub_sent s" "ub_user s' = u'" "ub_seen s' = ub_seen s + 1"
    and "ub_flags s' = (if stop \<and> ub_flags s AND CTX_INITED \<noteq> 0 then ub_flags s AND NOT CTX_RUNNING else ub_flags s)"
    and "ub_max_buf s' = ub_max_buf s" "buffers s'"
  using read_answered [OF assms(1,3,4,5,2), of ops st stop u' data] read_law [OF assms(6-8)] by blast

text \<open>The loop answers the requests one by one until the client stops it or the kernel closes the device.\<close>

lemma serve_loop:
  assumes "abi_ok abi" "takes_replies k" and "buffers s" "\<forall>m \<in> set ms. read_request abi (ub_max_buf s) m"
    and "\<forall>i < length ms. k_read k (ub_seen s + i) = Some (ms ! i)"
    and "ub_flags s AND CTX_INITED \<noteq> 0" "ub_flags s AND CTX_RUNNING \<noteq> 0"
    and "inv (ub_user s)" "all_allowed abi allowed spec ms (ub_user s)" and "serve abi spec ms (ub_user s) = (rs, u', stopped)"
    and "length ms \<le> fuel" "\<not> stopped \<Longrightarrow> k_read k (ub_seen s + length ms) = None \<and> length ms < fuel"
  shows "\<exists>s'. ublock_loop fuel abi ops k EXIT_STOPPED s = Inr (if stopped then 0 else - EPROTO, s') \<and>
    ub_sent s' = rev rs @ ub_sent s \<and> ub_user s' = u'"
  using assms(3-)
proof (induction ms arbitrary: s rs fuel)
  case Nil
  then obtain f where f: "fuel = Suc f" by (cases fuel) auto
  have "ublock_do_request abi ops k (ub_max_buf s) (ub_max_buf s) s = Inr (- EPROTO, s\<lparr>ub_seen := ub_seen s + 1\<rparr>)"
    using Nil by (auto simp: ublock_do_request_def)
  then show ?case using Nil f by (subst ublock_loop.simps) (auto simp: goes_on_def)
next
  case (Cons m ms)
  obtain f where f: "fuel = Suc f" using Cons.prems(9) by (cases fuel) auto
  obtain st stop data u1 where sp: "spec (req_length abi m) (req_offset abi m) (ub_user s) = (st, stop, data, u1)"
    by (cases "spec (req_length abi m) (req_offset abi m) (ub_user s)")
  have m: "k_read k (ub_seen s) = Some m" "read_request abi (ub_max_buf s) m" "allowed (req_length abi m) (req_offset abi m) (ub_user s)"
    using Cons.prems(2,3,7) by auto
  obtain s1 where s1: "ublock_do_request abi ops k (ub_max_buf s) (ub_max_buf s) s = Inr (0, s1)"
    and r1: "ub_sent s1 = read_reply abi m st data # ub_sent s" "ub_user s1 = u1" "ub_seen s1 = ub_seen s + 1"
      "ub_flags s1 = (if stop \<and> ub_flags s AND CTX_INITED \<noteq> 0 then ub_flags s AND NOT CTX_RUNNING else ub_flags s)"
      "ub_max_buf s1 = ub_max_buf s" "buffers s1"
    using serve_step [OF assms(1,2) Cons.prems(1) m(1,2) Cons.prems(6) m(3) sp] .
  have step: "ublock_loop fuel abi ops k EXIT_STOPPED s = ublock_loop f abi ops k EXIT_STOPPED s1"
    using Cons.prems(5) s1 f by (subst ublock_loop.simps) (simp add: goes_on_def)
  show ?case
  proof (cases stop)
    case True
    then have "\<not> goes_on EXIT_STOPPED s1" using Cons.prems(4) r1(4) by (simp add: goes_on_def and.assoc)
    moreover have "rs = [read_reply abi m st data]" "u' = u1" "stopped" using Cons.prems(8) sp True by simp_all
    ultimately show ?thesis using step r1 by (subst (asm) (2) ublock_loop.simps) simp
  next
    case False
    obtain rs1 where rs1: "serve abi spec ms u1 = (rs1, u', stopped)" "rs = read_reply abi m st data # rs1"
      using Cons.prems(8) sp False by (cases "serve abi spec ms u1") auto
    have "inv u1" using inv_law [OF Cons.prems(6) m(3) sp] .
    moreover have "\<forall>i < length ms. k_read k (ub_seen s1 + i) = Some (ms ! i)"
      using Cons.prems(3) r1(3) by (metis Suc_less_eq add_Suc_right add_Suc_shift length_Cons nth_Cons_Suc Suc_eq_plus1)
    moreover have "all_allowed abi allowed spec ms u1" using Cons.prems(7) sp False by simp
    ultimately have "\<exists>s'. ublock_loop f abi ops k EXIT_STOPPED s1 = Inr (if stopped then 0 else - EPROTO, s') \<and>
        ub_sent s' = rev rs1 @ ub_sent s1 \<and> ub_user s' = u'"
      using Cons.prems(2,4,5,9,10) r1 rs1(1) False f by (intro Cons.IH) auto
    then show ?thesis using step rs1(2) r1(1) by auto
  qed
qed

end

end
