(* ===== verification/Fat_Device.thy ===== *)
theory Fat_Device
  imports Ublock Fat_Import
begin

text \<open>
  \<^verbatim>\<open>fatblock.c\<close>: the program that imports a directory tree into a FAT volume and serves it as a block
  device. The volume is a client of the block device library; the theory shows what a kernel gets that reads
  parts of the device no file is in (boot sector, allocation tables, directories, free space), from the
  request through the library and the volume to the reply, and what ends the service. Reads of the data of
  files are not covered: \<^verbatim>\<open>file_read\<close> seeks to the length of the request instead of its offset.
\<close>

section \<open>The program\<close>

definition fat_ops :: "host \<Rightarrow> fat_st ublock_ops" where
  "fat_ops h = \<lparr>op_read = read_callback h, op_write = (\<lambda>buf len offset s. Inr (write_callback buf len offset, False, s))\<rparr>"

text \<open>The attempts to write the file of the USB driver, and the block device as the pointer \<^verbatim>\<open>ub\<close> with whether it was freed.\<close>

datatype ums_write = Set_Ums int | Clear_Ums

record fatblock_st =
  fb_ub :: "fat_st ublock_ctx option"
  fb_freed :: bool
  fb_ums :: "ums_write list"

definition set_ums_file :: "int \<Rightarrow> fatblock_st \<Rightarrow> fatblock_st" where
  "set_ums_file index s = s\<lparr>fb_ums := fb_ums s @ [Set_Ums index]\<rparr>"

definition clear_ums_file :: "fatblock_st \<Rightarrow> fatblock_st" where
  "clear_ums_file s = s\<lparr>fb_ums := fb_ums s @ [Clear_Ums]\<rparr>"

definition destroy_ub :: "fatblock_st \<Rightarrow> fatblock_st res" where
  "destroy_ub s =
     (if fb_ub s = None then Inr s else if fb_freed s then Inl Undefined else Inr (s\<lparr>fb_freed := True\<rparr>))"

definition cleanup :: "fatblock_st \<Rightarrow> fatblock_st res" where
  "cleanup s = destroy_ub (clear_ums_file s)"

definition atexit_handler :: "bool \<Rightarrow> fatblock_st \<Rightarrow> fatblock_st res" where
  "atexit_handler normal_exit s = (if normal_exit then Inr s else cleanup s)"

text \<open>\<^verbatim>\<open>exit\<close> runs the handler; the handler of a signal cleans up itself before it exits.\<close>

definition exit_with :: "int \<Rightarrow> fatblock_st \<Rightarrow> (int \<times> fatblock_st) res" where
  "exit_with code s = bnd (atexit_handler False s) (\<lambda>s. Inr (code, s))"

definition signal_handler :: "fatblock_st \<Rightarrow> (int \<times> fatblock_st) res" where
  "signal_handler s = bnd (cleanup s) (exit_with 0)"

abbreviation (input) no_device :: fatblock_st where
  "no_device \<equiv> \<lparr>fb_ub = None, fb_freed = False, fb_ums = []\<rparr>"

text \<open>\<^verbatim>\<open>main\<close> with two arguments; \<open>DIE\<close> exits with \<^verbatim>\<open>EXIT_FAILURE\<close>.\<close>

definition fatblock_main ::
  "nat \<Rightarrow> nat \<Rightarrow> ublock_abi \<Rightarrow> import_host \<Rightarrow> kernel \<Rightarrow> bool \<Rightarrow> int \<Rightarrow> import_st \<Rightarrow> (int \<times> fatblock_st) res" where
  "fatblock_main depth fuel abi h k chdir_ok mb s =
     (if \<not> chdir_ok then exit_with 1 no_device
      else
        bnd (fs_import depth h 32768 (1048576 * word_of_int mb) s) (\<lambda>(ret, total_size, s).
        if ret \<noteq> 0 then exit_with 1 no_device
        else (case total_size of
            None \<Rightarrow> Inl Undefined
          | Some total_size \<Rightarrow>
              let ops = fat_ops (host.truncate h) in
              bnd (ublock_init fuel abi (Some ops) k True total_size (fat_st.truncate s)) (\<lambda>(ret, ub).
              if ret \<noteq> 0 then exit_with 1 no_device
              else
                let fb = no_device\<lparr>fb_ub := ub\<rparr>; index = ublock_index ub in
                if index < 0 then exit_with 1 fb
                else
                  let fb = set_ums_file index fb in
                  bnd (ublock_run fuel abi ops k (fb_ub fb)) (\<lambda>(_, ub).
                  bnd (destroy_ub (clear_ums_file (fb\<lparr>fb_ub := ub\<rparr>))) (\<lambda>fb.
                  bnd (atexit_handler True fb) (\<lambda>fb. Inr (0, fb))))))))"

section \<open>The volume as a client\<close>

text \<open>The first extent that a request touches is a file that changed on the host.\<close>

definition touches_changed_file :: "host \<Rightarrow> u64 \<Rightarrow> u64 \<Rightarrow> fat_st \<Rightarrow> bool" where
  "touches_changed_file h len off s \<longleftrightarrow>
     (case find (overlaps (unat off) (unat off + unat len)) (extents (vol s)) of
        None \<Rightarrow> False
      | Some e \<Rightarrow> e_type e = EXTENT_TYPE_FILE \<and> unat (e_len e) < 2 ^ 32 \<and> file_check_metadata h (files s (e_obj e)) \<noteq> 0)"

definition touches_no_file :: "u64 \<Rightarrow> u64 \<Rightarrow> fat_st \<Rightarrow> bool" where
  "touches_no_file len off s \<longleftrightarrow>
     (\<forall>e \<in> set (extents (vol s)). overlaps (unat off) (unat off + unat len) e \<longrightarrow> e_type e \<noteq> EXTENT_TYPE_FILE)"

definition fat_inv :: "fat_st \<Rightarrow> bool" where
  "fat_inv s \<longleftrightarrow> fs_ok (vol s) \<and> buffers_ok s"

definition fat_allowed :: "host \<Rightarrow> u64 \<Rightarrow> u64 \<Rightarrow> fat_st \<Rightarrow> bool" where
  "fat_allowed h len off s \<longleftrightarrow>
     0 < unat len \<and> unat len < 2 ^ 32 \<and> unat off + unat len < 2 ^ 64 \<and>
     (touches_no_file len off s \<or> touches_changed_file h len off s)"

definition fat_spec :: "host \<Rightarrow> u64 \<Rightarrow> u64 \<Rightarrow> fat_st \<Rightarrow> int \<times> bool \<times> bytes \<times> fat_st" where
  "fat_spec h len off s =
     (if touches_changed_file h len off s then (-22, True, [], s)
      else (0, False, map (image_byte s) [unat off..<unat off + unat len], s))"

lemma find_first: "(\<forall>x \<in> set xs. \<not> P x) \<Longrightarrow> P y \<Longrightarrow> find P (xs @ y # zs) = Some y"
  by (induction xs) auto

lemma fs_read_changed:
  assumes inv: "fat_inv s" and len: "0 < unat len" "unat len < 2 ^ 32" "unat off + unat len < 2 ^ 64" "length b = unat len"
    and ch: "touches_changed_file h len off s"
  shows "fs_read h b off len s = Inr (SKY_IS_FALLING, replicate (unat len) 0, s)"
proof -
  have ok: "list_all extent_ok (extents (vol s))" using inv by (simp add: fat_inv_def fs_ok_def)
  have zero: "mem_zero b 0 len = Inr (replicate (unat len) 0)"
    using len by (simp add: mem_zero_def put_bytes_def sz_small blit_def)
  obtain e0 where e0: "find (overlaps (unat off) (unat off + unat len)) (extents (vol s)) = Some e0"
    and fl: "e_type e0 = EXTENT_TYPE_FILE" "unat (e_len e0) < 2 ^ 32" "file_check_metadata h (files s (e_obj e0)) \<noteq> 0"
    using ch by (auto simp: touches_changed_file_def split: option.splits)
  show ?thesis
    using ok len(3,1)
  proof (cases rule: fs_find_extent_cases)
    case none
    then show ?thesis using e0 by (auto simp: find_Some_iff)
  next
    case (hit before e rest r o' n)
    have "e = e0" using e0 find_first [of before "overlaps (unat off) (unat off + unat len)" e rest] hit(1,3,4) by simp
    have "extent_ok e" using ok hit(1) by simp
    then have "unat o' < unat (e_len e)"
      using hit(4,6) by (auto simp: extent_ok_def overlaps_def lo_def hi_def max_def split: if_splits)
    then have "\<not> UINT32_MAX \<le> o'" using fl(2) \<open>e = e0\<close> by (simp add: UINT32_MAX_def word_le_nat_alt)
    then have "extent_read h e (replicate (unat len) 0) (unat r) o' n s = Inr (SKY_IS_FALLING, replicate (unat len) 0, s)"
      using fl \<open>e = e0\<close> by (simp add: extent_read_def file_read_def)
    then show ?thesis using hit(2) zero by (simp add: fs_read_def) (subst read_loop.simps, simp)
  qed
qed

text \<open>The callbacks of the program keep the contract of a client.\<close>

interpretation fat_client: read_client "fat_ops h" fat_inv "fat_allowed h" "fat_spec h" for h
proof
  fix u u' :: fat_st and len off :: u64 and st :: int and stop :: bool and data b :: bytes
  assume inv: "fat_inv u" and al: "fat_allowed h len off u" and sp: "fat_spec h len off u = (st, stop, data, u')"
  show "fat_inv u'" using inv sp by (auto simp: fat_spec_def split: if_splits)
  assume lb: "length b = unat len"
  have len: "0 < unat len" "unat len < 2 ^ 32" "unat off + unat len < 2 ^ 64" using al by (simp_all add: fat_allowed_def)
  show "\<exists>buf. op_read (fat_ops h) b len off u = Inr (st, stop, buf, u') \<and> length buf = unat len \<and> (0 \<le> st \<longrightarrow> buf = data)"
  proof (cases "touches_changed_file h len off u")
    case True
    then show ?thesis using fs_read_changed [OF inv len lb True] sp
      by (auto simp: fat_ops_def read_callback_def fat_spec_def SKY_IS_FALLING_def)
  next
    case False
    then have "touches_no_file len off u" using al by (simp add: fat_allowed_def)
    then have "fs_read h b off len u = Inr (0, map (image_byte u) [unat off..<unat off + unat len], u)"
      using fs_read_ok [of u off len b h] inv len lb by (simp add: fat_inv_def fs_ok_def touches_no_file_def)
    then show ?thesis using False sp by (auto simp: fat_ops_def read_callback_def fat_spec_def SKY_IS_FALLING_def)
  qed
qed

section \<open>What the kernel reads\<close>

lemma serve_image:
  assumes "\<forall>m \<in> set ms. \<not> touches_changed_file h (req_length abi m) (req_offset abi m) u"
  shows "serve abi (fat_spec h) ms u =
    (map (\<lambda>m. read_reply abi m 0 (map (image_byte u) [unat (req_offset abi m)..<unat (req_offset abi m) + unat (req_length abi m)])) ms, u, False)"
  using assms by (induction ms) (simp_all add: fat_spec_def)

lemma serve_until_changed:
  assumes "\<forall>m \<in> set ms. \<not> touches_changed_file h (req_length abi m) (req_offset abi m) u"
    and "touches_changed_file h (req_length abi m') (req_offset abi m') u"
  shows "serve abi (fat_spec h) (ms @ [m']) u =
    (map (\<lambda>m. read_reply abi m 0 (map (image_byte u) [unat (req_offset abi m)..<unat (req_offset abi m) + unat (req_length abi m)])) ms
       @ [read_reply abi m' (-22) []], u, True)"
  using assms by (induction ms) (simp_all add: fat_spec_def)

lemma all_allowed_fat:
  "\<forall>m \<in> set ms. fat_allowed h (req_length abi m) (req_offset abi m) u \<Longrightarrow> all_allowed abi (fat_allowed h) (fat_spec h) ms u"
  by (induction ms) (simp_all add: fat_spec_def)

lemma running_flags: "(f OR 4) AND 4 \<noteq> (0 :: u32)" "f AND 1 \<noteq> 0 \<Longrightarrow> (f OR 4) AND 1 \<noteq> (0 :: u32)"
proof -
  have "bit ((f OR 4) AND 4) 2" by (simp add: bit_simps)
  then show "(f OR 4) AND 4 \<noteq> (0 :: u32)" by (metis bit_0_eq bot_apply bot_bool_def)
  show "f AND 1 \<noteq> 0 \<Longrightarrow> (f OR 4) AND 1 \<noteq> (0 :: u32)" by (simp add: bit.conj_disj_distrib2)
qed

text \<open>
  C12. The device from the kernel's side. On a volume in its invariant, \<^verbatim>\<open>ublock_run\<close> answers any number
  of read requests that touch no file, in order, each with its own sequence number, status 0 and the bytes
  of the FAT image; and it returns 0 when a request then touches a file that changed on the host, which it
  answers with \<^verbatim>\<open>-EINVAL\<close>. One step of fuel for each request suffices.
\<close>

theorem fat_device_serves_image:
  assumes abi: "abi_ok abi" and kernel: "takes_replies k" and ctx: "buffers s" "ub_flags s AND CTX_INITED \<noteq> 0"
    and vol: "fat_inv (ub_user s)"
    and requests: "\<forall>m \<in> set (ms @ [m']). read_request abi (ub_max_buf s) m \<and> fat_allowed h (req_length abi m) (req_offset abi m) (ub_user s)"
    and image: "\<forall>m \<in> set ms. touches_no_file (req_length abi m) (req_offset abi m) (ub_user s)"
    and changed: "touches_changed_file h (req_length abi m') (req_offset abi m') (ub_user s)"
    and sent: "\<forall>i < length (ms @ [m']). k_read k (ub_seen s + i) = Some ((ms @ [m']) ! i)"
    and fuel: "length ms < fuel"
  shows "\<exists>s'. ublock_run fuel abi (fat_ops h) k (Some s) = Inr (0, Some s') \<and> ub_user s' = ub_user s \<and>
    rev (ub_sent s') = rev (ub_sent s) @
      map (\<lambda>m. read_reply abi m 0 (map (image_byte (ub_user s)) [unat (req_offset abi m)..<unat (req_offset abi m) + unat (req_length abi m)])) ms
      @ [read_reply abi m' (-22) []]"
proof -
  let ?s = "s\<lparr>ub_flags := ub_flags s OR CTX_RUNNING\<rparr>"
  have "\<not> touches_changed_file h (req_length abi m) (req_offset abi m) (ub_user s)" if "m \<in> set ms" for m
    using image that by (auto simp: touches_changed_file_def touches_no_file_def find_Some_iff split: option.splits)
  then have srv: "serve abi (fat_spec h) (ms @ [m']) (ub_user ?s) = (map (\<lambda>m. read_reply abi m 0 (map (image_byte (ub_user s))
      [unat (req_offset abi m)..<unat (req_offset abi m) + unat (req_length abi m)])) ms @ [read_reply abi m' (-22) []], ub_user s, True)"
    using serve_until_changed [OF _ changed, of ms] by simp
  have pre: "buffers ?s" "\<forall>m \<in> set (ms @ [m']). read_request abi (ub_max_buf ?s) m"
    "\<forall>i < length (ms @ [m']). k_read k (ub_seen ?s + i) = Some ((ms @ [m']) ! i)"
    "ub_flags ?s AND CTX_INITED \<noteq> 0" "ub_flags ?s AND CTX_RUNNING \<noteq> 0" "fat_inv (ub_user ?s)"
    "all_allowed abi (fat_allowed h) (fat_spec h) (ms @ [m']) (ub_user ?s)" "length (ms @ [m']) \<le> fuel"
    using ctx requests sent vol fuel running_flags by (auto simp: buffers_def intro!: all_allowed_fat)
  obtain s' where "ublock_loop fuel abi (fat_ops h) k EXIT_STOPPED ?s = Inr (0, s')"
    "ub_sent s' = rev (map (\<lambda>m. read_reply abi m 0 (map (image_byte (ub_user s))
      [unat (req_offset abi m)..<unat (req_offset abi m) + unat (req_length abi m)])) ms @ [read_reply abi m' (-22) []]) @ ub_sent ?s"
    "ub_user s' = ub_user s"
    using fat_client.serve_loop [OF abi kernel pre(1-7) srv pre(8)] by auto
  then show ?thesis using ctx(2) by (simp add: ublock_run_def)
qed

text \<open>A volume with a boot sector and one file, and a host without that file.\<close>

definition sample_fat :: fat_st where
  "sample_fat = small_st\<lparr>vol := small_fs\<lparr>next_cluster := 3, extents :=
     [\<lparr>e_start = 0, e_len = 512, e_type = EXTENT_TYPE_BOOT, e_obj = 0\<rparr>,
      \<lparr>e_start = 1024, e_len = 512, e_type = EXTENT_TYPE_FILE, e_obj = 1\<rparr>]\<rparr>\<rparr>"

definition sample_ctx :: "fat_st ublock_ctx" where
  "sample_ctx = \<lparr>ub_index = 0, ub_size = 1536, ub_max_buf = 16, ub_flags = 3, ub_fd = 5, ub_fails = Some 0,
     ub_in = replicate 16 0, ub_out = replicate 16 0, ub_user = sample_fat, ub_seen = 0, ub_sent = []\<rparr>"

definition sample_kernel :: kernel where
  "sample_kernel = \<lparr>k_open = Some 5, k_read = (\<lambda>n. if n = 0 then Some [5, 9, 2, 31] else if n = 1 then Some [5, 10, 4, 64] else None),
     k_write = (\<lambda>_ r. int (length r)), k_oom = (\<lambda>_. False), k_junk = (\<lambda>_. 0)\<rparr>"

theorem fat_device_serves_image_witness:
  "\<exists>s'. ublock_run 2 sample_abi (fat_ops quiet_host) sample_kernel (Some sample_ctx) = Inr (0, Some s') \<and>
     rev (ub_sent s') = [[6, 9, 0, 7, 7], [6, 10, 0xEA]]"
proof -
  let ?m = "[5, 9, 2, 31] :: bytes" and ?m' = "[5, 10, 4, 64] :: bytes"
  have user: "ub_user sample_ctx = sample_fat" by (simp add: sample_ctx_def)
  have r: "req_length sample_abi ?m = 2" "req_offset sample_abi ?m = 496" "req_length sample_abi ?m' = 4" "req_offset sample_abi ?m' = 1024"
    by (simp_all add: req_length_def req_offset_def sample_abi_def)
  have abi: "abi_ok sample_abi" by (simp add: abi_ok_def sample_abi_def)
  have k: "takes_replies sample_kernel" by (simp add: takes_replies_def sample_kernel_def)
  have ctx: "buffers sample_ctx" "ub_flags sample_ctx AND CTX_INITED \<noteq> 0" by (simp_all add: buffers_def sample_ctx_def)
  have inv: "fat_inv (ub_user sample_ctx)"
    by (simp add: user fat_inv_def fs_ok_def buffers_ok_def extent_buf_def sample_fat_def small_st_def small_fs_def extent_ok_def
        disjoint_extents_def hi_def lo_def)
  have nf: "touches_no_file 2 496 sample_fat"
    by (simp add: touches_no_file_def sample_fat_def small_st_def small_fs_def overlaps_def hi_def lo_def)
  have ch: "touches_changed_file quiet_host 4 1024 sample_fat"
    by (simp add: touches_changed_file_def sample_fat_def small_st_def small_fs_def overlaps_def hi_def lo_def
        file_check_metadata_def quiet_host_def)
  have al: "\<forall>m \<in> set ([?m] @ [?m']). read_request sample_abi (ub_max_buf sample_ctx) m \<and>
      fat_allowed quiet_host (req_length sample_abi m) (req_offset sample_abi m) (ub_user sample_ctx)"
    using nf ch by (simp add: r fat_allowed_def user) (simp add: read_request_def sample_abi_def sample_ctx_def)
  have nf': "\<forall>m \<in> set [?m]. touches_no_file (req_length sample_abi m) (req_offset sample_abi m) (ub_user sample_ctx)"
    using nf by (simp add: r user)
  have ch': "touches_changed_file quiet_host (req_length sample_abi ?m') (req_offset sample_abi ?m') (ub_user sample_ctx)"
    using ch by (simp add: r user)
  have sent: "\<forall>i < length ([?m] @ [?m']). k_read sample_kernel (ub_seen sample_ctx + i) = Some (([?m] @ [?m']) ! i)"
    by (simp add: sample_kernel_def sample_ctx_def less_Suc_eq)
  have img: "map (image_byte sample_fat) [496..<498] = [7, 7]"
    by (simp add: upt_rec image_byte_def sample_fat_def small_st_def small_fs_def covers_def lo_def hi_def padded_def extent_buf_def)
  have rep: "read_reply sample_abi ?m 0 [7, 7] = [6, 9, 0, 7, 7]" "read_reply sample_abi ?m' (-22) [] = [6, 10, 0xEA]"
    by (simp_all add: read_reply_def sample_abi_def)
  have "ub_sent sample_ctx = []" by (simp add: sample_ctx_def)
  then show ?thesis
    using fat_device_serves_image [OF abi k ctx inv al nf' ch' sent, of 2] img by (auto simp: r user rep)
qed

text \<open>A signal while the device exists frees it twice: once in the handler and once at exit.\<close>

theorem signal_frees_twice:
  assumes "fb_ub s = Some ub" "\<not> fb_freed s"
  shows "signal_handler s = Inl Undefined"
  using assms by (simp add: signal_handler_def cleanup_def clear_ums_file_def destroy_ub_def exit_with_def atexit_handler_def)

end
