(* ===== verification/Showmap.thy ===== *)
theory Showmap
  imports Pagemap "HOL-Library.List_Lexorder" "HOL-Library.Product_Lexorder" "HOL-Library.Multiset"
begin

text \<open>
  \<^verbatim>\<open>showmap\<close>: the memory map of a process with the sizes of \<^verbatim>\<open>/proc/<pid>/smaps\<close>, listed by
  address, by name, or with the mappings of one name added up. The file and the allocations that fail are
  parameters. The linked list is a list; what the program prints is a byte string for the standard output and
  one value per message for the standard error. \<^verbatim>\<open>long\<close> has 32 bits. The counter of mappings is an
  unbounded integer: an address space of 32 bits has fewer mappings than it could count.
\<close>

section \<open>Mappings\<close>

record mapinfo =
  sm_start :: u32
  sm_end :: u32
  sm_size :: u32
  sm_rss :: u32
  sm_pss :: u32
  sm_shared_clean :: u32
  sm_shared_dirty :: u32
  sm_private_clean :: u32
  sm_private_dirty :: u32
  sm_is_bss :: bool
  sm_count :: int
  sm_name :: bytes

definition is_library :: "bytes \<Rightarrow> bool" where
  "is_library name = (let len = length name in
     4 \<le> len \<and> name ! 0 = 47 \<and> name ! (len - 3) = 46 \<and> name ! (len - 2) = 115 \<and> name ! (len - 1) = 111)"

text \<open>The file behind a path, and whether the \<open>n\<close>-th allocation fails.\<close>

record sm_os =
  sm_fopen :: "bytes \<Rightarrow> int + bytes"
  sm_oom :: "nat \<Rightarrow> bool"

datatype header = Not_header | Header mapinfo | No_memory

text \<open>
  The directives after the second number of \<^verbatim>\<open>"%lx-%lx %*s %*x %*x:%*x %*d%n"\<close> store nothing but the
  position behind them: \<open>None\<close> when one of them fails, which the return value does not tell.
\<close>

definition scan_name_pos :: "bytes \<Rightarrow> bytes option" where
  "scan_name_pos r =
     (case scan_str None r of None \<Rightarrow> None | Some (_, r) \<Rightarrow>
     (case scan_hex r of None \<Rightarrow> None | Some (_, r) \<Rightarrow>
     (case scan_hex r of None \<Rightarrow> None | Some (_, r) \<Rightarrow>
     (case r of [] \<Rightarrow> None | c # r \<Rightarrow> if c \<noteq> 58 then None else
     (case scan_hex r of None \<Rightarrow> None | Some (_, r) \<Rightarrow>
     (case scan_dec r of None \<Rightarrow> None | Some (_, r) \<Rightarrow> Some r))))))"

definition header_name :: "bytes \<Rightarrow> u32 \<Rightarrow> mapinfo option \<Rightarrow> bytes \<times> bool" where
  "header_name r start prev =
     (let r = skip_space r in
      if r \<noteq> [] then (take 127 r, False)
      else (case prev of
          Some p \<Rightarrow> if start = sm_end p \<and> is_library (sm_name p) then (take 127 (sm_name p), True) else (pm_str ''[anon]'', False)
        | None \<Rightarrow> (pm_str ''[anon]'', False)))"

definition parse_header :: "sm_os \<Rightarrow> nat \<Rightarrow> bytes \<Rightarrow> mapinfo option \<Rightarrow> header res" where
  "parse_header os n line prev =
     (case scan_hex line of None \<Rightarrow> Inr Not_header | Some (v, r) \<Rightarrow>
      bnd (store_ulong v) (\<lambda>start.
     (case r of [] \<Rightarrow> Inr Not_header | c # r \<Rightarrow> if c \<noteq> 45 then Inr Not_header else
     (case scan_hex r of None \<Rightarrow> Inr Not_header | Some (v, r) \<Rightarrow>
      bnd (store_ulong v) (\<lambda>end.
     (case scan_name_pos r of None \<Rightarrow> Inl Undefined | Some r \<Rightarrow>
        (let (name, is_bss) = header_name r start prev in
         if sm_oom os n then Inr No_memory
         else Inr (Header \<lparr>sm_start = start, sm_end = end, sm_size = 0, sm_rss = 0, sm_pss = 0, sm_shared_clean = 0,
            sm_shared_dirty = 0, sm_private_clean = 0, sm_private_dirty = 0, sm_is_bss = is_bss, sm_count = 1,
            sm_name = name\<rparr>))))))))"

definition set_field :: "bytes \<Rightarrow> u32 \<Rightarrow> mapinfo \<Rightarrow> mapinfo" where
  "set_field field v mi =
     (if field = pm_str ''Size:'' then mi\<lparr>sm_size := v\<rparr>
      else if field = pm_str ''Rss:'' then mi\<lparr>sm_rss := v\<rparr>
      else if field = pm_str ''Pss:'' then mi\<lparr>sm_pss := v\<rparr>
      else if field = pm_str ''Shared_Clean:'' then mi\<lparr>sm_shared_clean := v\<rparr>
      else if field = pm_str ''Shared_Dirty:'' then mi\<lparr>sm_shared_dirty := v\<rparr>
      else if field = pm_str ''Private_Clean:'' then mi\<lparr>sm_private_clean := v\<rparr>
      else if field = pm_str ''Private_Dirty:'' then mi\<lparr>sm_private_dirty := v\<rparr>
      else mi)"

text \<open>\<open>None\<close> is the return value -1.\<close>

definition parse_field :: "mapinfo \<Rightarrow> bytes \<Rightarrow> mapinfo option res" where
  "parse_field mi line =
     (case scan_str (Some 63) line of None \<Rightarrow> Inr None | Some (field, r) \<Rightarrow>
     (case scan_dec r of None \<Rightarrow> Inr None | Some (v, _) \<Rightarrow>
      bnd (store_int v) (\<lambda>size. Inr (Some (set_field field (of_int size) mi)))))"

section \<open>The list\<close>

text \<open>\<^verbatim>\<open>strcmp(a, b)\<close> on the characters before the terminator.\<close>

fun strcmp :: "bytes \<Rightarrow> bytes \<Rightarrow> int" where
  "strcmp [] [] = 0"
| "strcmp [] (b # _) = -1"
| "strcmp (a # _) [] = 1"
| "strcmp (a # as) (b # bs) = (if a = b then strcmp as bs else uint a - uint b)"

definition order_before :: "mapinfo \<Rightarrow> mapinfo \<Rightarrow> bool \<Rightarrow> bool" where
  "order_before a b sort_by_address =
     (if sort_by_address then sm_start a < sm_start b \<or> sm_start a = sm_start b \<and> sm_end a < sm_end b
      else strcmp (sm_name a) (sm_name b) < 0)"

definition add_map :: "mapinfo \<Rightarrow> mapinfo \<Rightarrow> mapinfo" where
  "add_map current m =
     current\<lparr>sm_size := sm_size current + sm_size m, sm_rss := sm_rss current + sm_rss m,
       sm_pss := sm_pss current + sm_pss m, sm_shared_clean := sm_shared_clean current + sm_shared_clean m,
       sm_shared_dirty := sm_shared_dirty current + sm_shared_dirty m,
       sm_private_clean := sm_private_clean current + sm_private_clean m,
       sm_private_dirty := sm_private_dirty current + sm_private_dirty m,
       sm_is_bss := (sm_is_bss current \<and> sm_is_bss m), sm_count := sm_count current + 1\<rparr>"

fun enqueue :: "bool \<Rightarrow> bool \<Rightarrow> mapinfo \<Rightarrow> mapinfo list \<Rightarrow> mapinfo list" where
  "enqueue sort_by_address coalesce m [] = [m]"
| "enqueue sort_by_address coalesce m (current # l) =
     (if coalesce \<and> strcmp (sm_name m) (sm_name current) = 0 then add_map current m # l
      else if order_before m current sort_by_address then m # current # l
      else current # enqueue sort_by_address coalesce m l)"

definition enqueue_map :: "bool \<Rightarrow> bool \<Rightarrow> mapinfo option \<Rightarrow> mapinfo list \<Rightarrow> mapinfo list" where
  "enqueue_map sort_by_address coalesce m l =
     (case m of None \<Rightarrow> l | Some m \<Rightarrow> enqueue sort_by_address coalesce m l)"

section \<open>Reading the file\<close>

datatype sm_diag = Cannot_open int int | Bad_line bytes | Could_not_read int | Out_of_memory
  | Too_many_arguments | Unrecognized bytes | Sm_usage

text \<open>\<open>Sm_exit\<close> is \<^verbatim>\<open>exit(1)\<close>, \<open>Sm_null\<close> the NULL that is returned.\<close>

datatype loaded = Sm_exit | Sm_null | Sm_maps "mapinfo list"

text \<open>A line as \<^verbatim>\<open>fgets\<close> leaves it, without its newline; an empty string is read before its start.\<close>

definition chop_newline :: "bytes \<Rightarrow> bytes res" where
  "chop_newline line = (let l = takeWhile (\<lambda>c. c \<noteq> 0) line in
     if l = [] then Inl Undefined else Inr (if last l = 10 then butlast l else l))"

fun load_loop :: "sm_os \<Rightarrow> bool \<Rightarrow> bool \<Rightarrow> bytes list \<Rightarrow> nat \<Rightarrow> mapinfo list \<Rightarrow> mapinfo option \<Rightarrow> sm_diag list \<Rightarrow>
    (mapinfo list option \<times> sm_diag list) res" where
  "load_loop os adr coalesce [] n head current err = Inr (Some (enqueue_map adr coalesce current head), err)"
| "load_loop os adr coalesce (line # ls) n head current err =
     bnd (chop_newline line) (\<lambda>line.
     bnd (case current of None \<Rightarrow> Inr None | Some mi \<Rightarrow> parse_field mi line) (\<lambda>parsed.
     case parsed of
       Some mi \<Rightarrow> load_loop os adr coalesce ls n head (Some mi) err
     | None \<Rightarrow>
         bnd (parse_header os n line current) (\<lambda>h. case h of
           Header next \<Rightarrow> load_loop os adr coalesce ls (n + 1) (enqueue_map adr coalesce current head) (Some next) err
         | No_memory \<Rightarrow> Inr (None, err @ [Out_of_memory])
         | Not_header \<Rightarrow> load_loop os adr coalesce ls n head current (err @ [Bad_line line]))))"

definition load_maps :: "sm_os \<Rightarrow> int \<Rightarrow> bool \<Rightarrow> bool \<Rightarrow> (loaded \<times> sm_diag list) res" where
  "load_maps os pid sort_by_address coalesce =
     (case sm_fopen os (proc_path pid ''/smaps'') of
        Inl e \<Rightarrow> Inr (Sm_null, [Cannot_open pid e])
      | Inr text \<Rightarrow>
          bnd (load_loop os sort_by_address coalesce (fgets_lines 1022 text) 0 [] None []) (\<lambda>(r, err).
          case r of None \<Rightarrow> Inr (Sm_exit, err)
          | Some l \<Rightarrow> if l = [] then Inr (Sm_null, err @ [Could_not_read pid]) else Inr (Sm_maps l, err)))"

section \<open>The report\<close>

record sm_opts =
  verbose :: bool
  terse :: bool
  addresses :: bool

definition pad_left :: "nat \<Rightarrow> bytes \<Rightarrow> bytes" where
  "pad_left w t = replicate (w - length t) 32 @ t"

text \<open>\<^verbatim>\<open>%<w>d\<close> of an unsigned value.\<close>

definition fmt_d :: "nat \<Rightarrow> u32 \<Rightarrow> bytes" where
  "fmt_d w v = pad_left w (print_int (sint v))"

definition print_header :: "sm_opts \<Rightarrow> bytes" where
  "print_header opt =
     (if addresses opt then pm_str ''   start      end '' else []) @
     pm_str '' virtual                     shared   shared  private  private'' @ [10] @
     (if addresses opt then pm_str ''    addr     addr '' else []) @
     pm_str ''    size      RSS      PSS    clean    dirty    clean    dirty '' @
     (if \<not> verbose opt \<and> \<not> addresses opt then pm_str ''   # '' else []) @
     pm_str ''object'' @ [10]"

definition print_divider :: "sm_opts \<Rightarrow> bytes" where
  "print_divider opt =
     (if addresses opt then pm_str ''-------- -------- '' else []) @
     pm_str ''-------- -------- -------- -------- -------- -------- -------- '' @
     (if \<not> verbose opt \<and> \<not> addresses opt then pm_str ''---- '' else []) @
     pm_str ''------------------------------'' @ [10]"

text \<open>The sums that \<^verbatim>\<open>show_map\<close> keeps.\<close>

record sm_total =
  tot_size :: u32
  tot_rss :: u32
  tot_pss :: u32
  tot_shared_clean :: u32
  tot_shared_dirty :: u32
  tot_private_clean :: u32
  tot_private_dirty :: u32
  tot_count :: u32

definition zero_total :: sm_total where
  "zero_total = \<lparr>tot_size = 0, tot_rss = 0, tot_pss = 0, tot_shared_clean = 0, tot_shared_dirty = 0,
     tot_private_clean = 0, tot_private_dirty = 0, tot_count = 0\<rparr>"

definition add_total :: "sm_total \<Rightarrow> mapinfo \<Rightarrow> sm_total" where
  "add_total t mi = \<lparr>tot_size = tot_size t + sm_size mi, tot_rss = tot_rss t + sm_rss mi, tot_pss = tot_pss t + sm_pss mi,
     tot_shared_clean = tot_shared_clean t + sm_shared_clean mi, tot_shared_dirty = tot_shared_dirty t + sm_shared_dirty mi,
     tot_private_clean = tot_private_clean t + sm_private_clean mi,
     tot_private_dirty = tot_private_dirty t + sm_private_dirty mi, tot_count = tot_count t + of_int (sm_count mi)\<rparr>"

definition print_map :: "sm_opts \<Rightarrow> mapinfo \<Rightarrow> bytes" where
  "print_map opt mi =
     (if terse opt \<and> sm_private_dirty mi = 0 then []
      else
        (if addresses opt then hex_padded 8 (unat (sm_start mi)) @ [32] @ hex_padded 8 (unat (sm_end mi)) @ [32] else []) @
        concat (map (\<lambda>v. fmt_d 8 v @ [32]) [sm_size mi, sm_rss mi, sm_pss mi, sm_shared_clean mi, sm_shared_dirty mi,
          sm_private_clean mi, sm_private_dirty mi]) @
        (if \<not> verbose opt \<and> \<not> addresses opt then pad_left 4 (print_int (sm_count mi)) @ [32] else []) @
        sm_name mi @ (if sm_is_bss mi then pm_str '' [bss]'' else []) @ [10])"

definition print_total :: "sm_opts \<Rightarrow> sm_total \<Rightarrow> bytes" where
  "print_total opt t =
     (if addresses opt then replicate 18 32 else []) @
     concat (map (\<lambda>v. fmt_d 8 v @ [32]) [tot_size t, tot_rss t, tot_pss t, tot_shared_clean t, tot_shared_dirty t,
       tot_private_clean t, tot_private_dirty t]) @
     (if \<not> verbose opt \<and> \<not> addresses opt then fmt_d 4 (tot_count t) @ [32] else []) @ pm_str ''TOTAL'' @ [10]"

fun show_loop :: "sm_opts \<Rightarrow> mapinfo list \<Rightarrow> sm_total \<Rightarrow> bytes \<Rightarrow> sm_total \<times> bytes" where
  "show_loop opt [] t out = (t, out)"
| "show_loop opt (mi # l) t out = show_loop opt l (add_total t mi) (out @ print_map opt mi)"

text \<open>Exit status, standard output, standard error. \<^verbatim>\<open>exit(1)\<close> gives the same as returning 1.\<close>

type_synonym sm_run = "int \<times> bytes \<times> sm_diag list"

definition show_map :: "sm_os \<Rightarrow> sm_opts \<Rightarrow> int \<Rightarrow> sm_run res" where
  "show_map os opt pid =
     bnd (load_maps os pid (addresses opt) (\<not> verbose opt \<and> \<not> addresses opt)) (\<lambda>(r, err).
     case r of
       Sm_maps milist \<Rightarrow>
         (let (t, out) = show_loop opt milist zero_total (print_header opt @ print_divider opt) in
          Inr (0, out @ print_divider opt @ print_header opt @ print_divider opt @ print_total opt t, err))
     | _ \<Rightarrow> Inr (1, [], err))"

text \<open>\<^verbatim>\<open>strtol(arg, &argend, 10)\<close>: the value, cut to the range of the type, and the rest.\<close>

definition strtol10 :: "bytes \<Rightarrow> int \<times> bytes" where
  "strtol10 b =
     (case scan_dec b of None \<Rightarrow> (0, b)
      | Some ((neg, v), r) \<Rightarrow> (if neg then max (- (2 ^ 31)) (- int v) else min (2 ^ 31 - 1) (int v), r))"

fun showmap_main :: "sm_os \<Rightarrow> sm_opts \<Rightarrow> bytes list \<Rightarrow> sm_run res" where
  "showmap_main os opt [] = Inr (1, [], [Sm_usage])"
| "showmap_main os opt (arg # args) =
     (if arg = pm_str ''-v'' then showmap_main os (opt\<lparr>verbose := True\<rparr>) args
      else if arg = pm_str ''-t'' then showmap_main os (opt\<lparr>terse := True\<rparr>) args
      else if arg = pm_str ''-a'' then showmap_main os (opt\<lparr>addresses := True\<rparr>) args
      else if args \<noteq> [] then Inr (1, [], [Too_many_arguments, Sm_usage])
      else
        (let (pid, argend) = strtol10 arg in
         if arg \<noteq> [] \<and> argend = [] then
           bnd (show_map os opt pid) (\<lambda>(st, out, err). Inr (if st \<noteq> 0 then 1 else 0, out, err))
         else Inr (1, [], [Unrecognized arg, Sm_usage])))"

section \<open>Insertion by a key\<close>

text \<open>Inserting elements one after the other, each behind those whose key is not greater, is a stable sort.\<close>

locale key_insertion =
  fixes key :: "'a \<Rightarrow> 'k :: linorder" and ins :: "'a \<Rightarrow> 'a list \<Rightarrow> 'a list"
  assumes ins_Nil: "ins m [] = [m]"
    and ins_Cons: "ins m (c # l) = (if key m < key c then m # c # l else c # ins m l)"
begin

lemma mset_ins: "mset (ins m l) = add_mset m (mset l)"
  by (induction l) (simp_all add: ins_Nil ins_Cons)

lemma set_ins: "set (ins m l) = insert m (set l)"
  using mset_ins [of m l] by (metis set_mset_add_mset_insert set_mset_mset)

lemma sorted_ins: "sorted (map key l) \<Longrightarrow> sorted (map key (ins m l))"
proof (induction l)
  case (Cons c l)
  then show ?case by (auto simp: ins_Cons set_ins not_less intro: less_imp_le order_trans)
qed (simp add: ins_Nil)

lemma filter_ins:
  "sorted (map key l) \<Longrightarrow>
   filter (\<lambda>x. k = key x) (ins m l) = filter (\<lambda>x. k = key x) l @ (if k = key m then [m] else [])"
proof (induction l)
  case (Cons c l)
  have "filter (\<lambda>x. key m = key x) (c # l) = []" if "key m < key c"
    using Cons.prems that by (auto simp: filter_empty_conv)
  then show ?case using Cons by (auto simp: ins_Cons)
qed (simp add: ins_Nil)

lemma fold_ins: "fold ins ms [] = sort_key key ms"
proof -
  have "mset (fold ins ms []) = mset ms \<and> sorted (map key (fold ins ms [])) \<and>
      (\<forall>k. filter (\<lambda>x. k = key x) (fold ins ms []) = filter (\<lambda>x. k = key x) ms)"
    by (induction ms rule: rev_induct) (simp_all add: mset_ins sorted_ins filter_ins)
  then show ?thesis by (intro properties_for_sort_key [symmetric]) simp_all
qed

end

lemma strcmp_order: "strcmp a b < 0 \<longleftrightarrow> a < b" "strcmp a b = 0 \<longleftrightarrow> a = b"
  by (induction a b rule: strcmp.induct) (simp_all add: word_less_def word_uint_eq_iff)

interpretation by_address: key_insertion "\<lambda>m. (sm_start m, sm_end m)" "enqueue True False"
  by unfold_locales (auto simp: order_before_def)

interpretation by_name: key_insertion sm_name "enqueue False False"
  by unfold_locales (simp_all add: order_before_def strcmp_order)

section \<open>Adding up by name\<close>

text \<open>The line for the mappings of one name.\<close>

definition coalesced :: "mapinfo list \<Rightarrow> mapinfo" where
  "coalesced g = (hd g)\<lparr>sm_size := sum_list (map sm_size g), sm_rss := sum_list (map sm_rss g),
     sm_pss := sum_list (map sm_pss g), sm_shared_clean := sum_list (map sm_shared_clean g),
     sm_shared_dirty := sum_list (map sm_shared_dirty g), sm_private_clean := sum_list (map sm_private_clean g),
     sm_private_dirty := sum_list (map sm_private_dirty g), sm_is_bss := list_all sm_is_bss g, sm_count := int (length g)\<rparr>"

definition by_names :: "mapinfo list \<Rightarrow> mapinfo list" where
  "by_names ms = map (\<lambda>nm. coalesced (filter (\<lambda>m. sm_name m = nm) ms)) (sorted_list_of_set (sm_name ` set ms))"

lemma coalesced_one: "sm_count m = 1 \<Longrightarrow> coalesced [m] = m"
  by (simp add: coalesced_def)

lemma coalesced_more: "g \<noteq> [] \<Longrightarrow> coalesced (g @ [m]) = add_map (coalesced g) m"
  by (simp add: coalesced_def add_map_def)

lemma coalesced_name: "g \<noteq> [] \<Longrightarrow> sm_name (coalesced g) = sm_name (hd g)"
  by (simp add: coalesced_def)

lemma enqueue_names:
  assumes "sorted ns" "distinct ns" "\<forall>x \<in> set ns. sm_name (g x) = x"
  shows "enqueue False True m (map g ns) =
    map (g(sm_name m := if sm_name m \<in> set ns then add_map (g (sm_name m)) m else m)) (insort_insert (sm_name m) ns)"
  using assms
proof (induction ns)
  case (Cons x ns)
  consider "sm_name m = x" | "sm_name m < x" | "x < sm_name m" by force
  then show ?case
  proof cases
    case 1
    then show ?thesis using Cons.prems by (auto simp: strcmp_order insort_insert_key_def)
  next
    case 2
    then have "sm_name m \<notin> set (x # ns)" using Cons.prems(1) by auto
    then show ?thesis using 2 Cons.prems
      by (auto simp: strcmp_order order_before_def insort_insert_key_def insort_is_Cons less_imp_le)
  next
    case 3
    then show ?thesis using Cons
      by (auto simp: strcmp_order order_before_def insort_insert_key_def)
  qed
qed (simp add: insort_insert_key_def)

lemma fold_coalesce:
  assumes "\<forall>m \<in> set ms. sm_count m = 1"
  shows "fold (enqueue False True) ms [] = by_names ms"
  using assms
proof (induction ms rule: rev_induct)
  case (snoc m ms)
  let ?N = "sorted_list_of_set (sm_name ` set ms)" and ?f = "\<lambda>l nm. filter (\<lambda>m. sm_name m = nm) l"
  have ne: "?f ms x \<noteq> []" if "x \<in> sm_name ` set ms" for x using that by (auto simp: filter_empty_conv)
  have name: "\<forall>x \<in> set ?N. sm_name (coalesced (?f ms x)) = x"
  proof
    fix x assume "x \<in> set ?N"
    then have "?f ms x \<noteq> []" using ne by simp
    then show "sm_name (coalesced (?f ms x)) = x" using hd_in_set [of "?f ms x"] by (simp add: coalesced_name)
  qed
  have "sorted_list_of_set (sm_name ` set (ms @ [m])) = insort_insert (sm_name m) ?N"
    by (rule sorted_distinct_set_unique) (auto simp: sorted_insort_insert distinct_insort_insert set_insort_insert set_insort_key sorted_insort distinct_insort)
  moreover have "?f (ms @ [m]) x = ?f ms x" if "x \<noteq> sm_name m" for x using that by simp
  moreover have "coalesced (?f (ms @ [m]) (sm_name m)) =
      (if sm_name m \<in> set ?N then add_map (coalesced (?f ms (sm_name m))) m else m)"
  proof (cases "sm_name m \<in> set ?N")
    case True
    then show ?thesis using ne [of "sm_name m"] by (simp add: coalesced_more)
  next
    case False
    then have "sm_name m \<notin> sm_name ` set ms" by simp
    then have "?f ms (sm_name m) = []" by (auto simp: filter_empty_conv image_iff)
    then show ?thesis using False snoc.prems by (simp add: coalesced_one)
  qed
  ultimately show ?case
    using snoc enqueue_names [OF _ _ name, of m]
    by (simp add: by_names_def)
qed (simp add: by_names_def)

section \<open>Sums\<close>

definition sums :: "mapinfo list \<Rightarrow> sm_total" where
  "sums ms = \<lparr>tot_size = sum_list (map sm_size ms), tot_rss = sum_list (map sm_rss ms), tot_pss = sum_list (map sm_pss ms),
     tot_shared_clean = sum_list (map sm_shared_clean ms), tot_shared_dirty = sum_list (map sm_shared_dirty ms),
     tot_private_clean = sum_list (map sm_private_clean ms), tot_private_dirty = sum_list (map sm_private_dirty ms),
     tot_count = of_int (sum_list (map sm_count ms))\<rparr>"

lemma show_loop_result:
  "show_loop opt l (sums ms) out = (sums (ms @ l), out @ concat (map (print_map opt) l))"
proof (induction l arbitrary: ms out)
  case (Cons m l)
  have "add_total (sums ms) m = sums (ms @ [m])" by (simp add: add_total_def sums_def)
  then show ?case using Cons [of "ms @ [m]"] by simp
qed simp

lemma sum_enqueue:
  fixes f :: "mapinfo \<Rightarrow> 'b :: comm_monoid_add"
  assumes "\<And>c. f (add_map c m) = f c + f m"
  shows "sum_list (map f (enqueue a c m l)) = sum_list (map f l) + f m"
  by (induction l) (auto simp: assms ac_simps)

lemma sum_fold:
  fixes f :: "mapinfo \<Rightarrow> 'b :: comm_monoid_add"
  assumes "\<forall>m \<in> set ms. \<forall>c. f (add_map c m) = f c + f m"
  shows "sum_list (map f (fold (enqueue a c) ms [])) = sum_list (map f ms)"
  using assms by (induction ms rule: rev_induct) (simp_all add: sum_enqueue)

lemma sums_fold:
  assumes "\<forall>m \<in> set ms. sm_count m = 1"
  shows "sums (fold (enqueue a c) ms []) = sums ms"
  using assms by (simp add: sums_def sum_fold add_map_def)

section \<open>The format of the file\<close>

text \<open>An entry as the kernel prints it: the line of the maps file, then lines with a tag and a number of
  kilobytes.\<close>

record smaps_entry =
  se_map :: maps_entry
  se_fields :: "(bytes \<times> nat \<times> nat) list"

definition field_line :: "bytes \<times> nat \<times> nat \<Rightarrow> bytes" where
  "field_line f = (case f of (tag, pad, v) \<Rightarrow> tag @ replicate pad 32 @ 32 # decimal v @ [32, 107, 66])"

definition smaps_lines :: "smaps_entry \<Rightarrow> bytes list" where
  "smaps_lines e = maps_line (se_map e) # map field_line (se_fields e)"

definition smaps_text :: "smaps_entry list \<Rightarrow> bytes" where
  "smaps_text es = concat (map (\<lambda>l. l @ [10]) (concat (map smaps_lines es)))"

definition field_ok :: "bytes \<times> nat \<times> nat \<Rightarrow> bool" where
  "field_ok f = (case f of (tag, pad, v) \<Rightarrow> word_ok tag \<and> length tag \<le> 63 \<and> v < 2 ^ 31 \<and> length (field_line f) \<le> 1022)"

text \<open>The access rights begin with a letter or a dash, and a dash is not followed by a digit.\<close>

definition smaps_entry_ok :: "smaps_entry \<Rightarrow> bool" where
  "smaps_entry_ok e \<longleftrightarrow>
     maps_entry_ok (se_map e) \<and> me_perms (se_map e) ! 0 \<in> {114, 45} \<and> me_perms (se_map e) ! 1 \<in> {119, 45} \<and>
     (\<forall>f \<in> set (se_fields e). field_ok f)"

text \<open>The name of a mapping: its own, that of the library right before it, or none.\<close>

definition entry_name :: "mapinfo option \<Rightarrow> maps_entry \<Rightarrow> bytes \<times> bool" where
  "entry_name prev e =
     (case me_name e of
        Some nm \<Rightarrow> (take 127 nm, False)
      | None \<Rightarrow>
          (case prev of
             Some p \<Rightarrow> if me_start e = sm_end p \<and> is_library (sm_name p) then (sm_name p, True) else (pm_str ''[anon]'', False)
           | None \<Rightarrow> (pm_str ''[anon]'', False)))"

definition entry_head :: "mapinfo option \<Rightarrow> maps_entry \<Rightarrow> mapinfo" where
  "entry_head prev e =
     \<lparr>sm_start = me_start e, sm_end = me_end e, sm_size = 0, sm_rss = 0, sm_pss = 0, sm_shared_clean = 0, sm_shared_dirty = 0,
      sm_private_clean = 0, sm_private_dirty = 0, sm_is_bss = snd (entry_name prev e), sm_count = 1,
      sm_name = fst (entry_name prev e)\<rparr>"

definition entry_info :: "mapinfo option \<Rightarrow> smaps_entry \<Rightarrow> mapinfo" where
  "entry_info prev e = foldl (\<lambda>mi (tag, _, v). set_field tag (of_nat v) mi) (entry_head prev (se_map e)) (se_fields e)"

fun smaps_infos :: "mapinfo option \<Rightarrow> smaps_entry list \<Rightarrow> mapinfo list" where
  "smaps_infos prev [] = []"
| "smaps_infos prev (e # es) = entry_info prev e # smaps_infos (Some (entry_info prev e)) es"

lemma is_library_spec: "is_library nm \<longleftrightarrow> (\<exists>p. nm = 47 # p @ pm_str ''.so'')"
proof
  assume lib: "is_library nm"
  then have len: "4 \<le> length nm" by (simp add: is_library_def Let_def)
  then obtain c r where nm: "nm = c # r" by (cases nm) auto
  define q where "q = drop (length r - 3) r"
  have "length q = 3" using len nm by (simp add: q_def)
  then obtain x y z where q: "q = [x, y, z]" by (auto simp: numeral_3_eq_3 length_Suc_conv)
  have r: "r = take (length r - 3) r @ [x, y, z]" using q by (metis append_take_drop_id q_def)
  define t where "t = take (length r - 3) r"
  have "nm = c # t @ [x, y, z]" using nm r by (simp add: t_def)
  then show "\<exists>p. nm = 47 # p @ pm_str ''.so''"
    using lib by (auto simp: is_library_def Let_def nth_append nth_Cons' pm_str_def)
next
  assume "\<exists>p. nm = 47 # p @ pm_str ''.so''"
  then show "is_library nm" by (auto simp: is_library_def Let_def nth_append nth_Cons' pm_str_def)
qed

lemma set_field_keeps [simp]:
  "sm_name (set_field t v mi) = sm_name mi" "sm_count (set_field t v mi) = sm_count mi" "sm_end (set_field t v mi) = sm_end mi"
  by (simp_all add: set_field_def)

lemma entry_info_keeps:
  "sm_name (entry_info prev e) = fst (entry_name prev (se_map e))" "sm_count (entry_info prev e) = 1"
proof -
  have "sm_name (foldl (\<lambda>mi (tag, _, v). set_field tag (of_nat v) mi) h fs) = sm_name h \<and>
      sm_count (foldl (\<lambda>mi (tag, _, v). set_field tag (of_nat v) mi) h fs) = sm_count h" for h and fs :: "(bytes \<times> nat \<times> nat) list"
    by (induction fs arbitrary: h) auto
  then show "sm_name (entry_info prev e) = fst (entry_name prev (se_map e))" "sm_count (entry_info prev e) = 1"
    by (simp_all add: entry_info_def entry_head_def)
qed

lemma smaps_infos_count: "\<forall>m \<in> set (smaps_infos prev es). sm_count m = 1"
  by (induction es arbitrary: prev) (simp_all add: entry_info_keeps)

definition short_name :: "mapinfo option \<Rightarrow> bool" where
  "short_name prev = (case prev of None \<Rightarrow> True | Some p \<Rightarrow> length (sm_name p) \<le> 127)"

lemma entry_info_short: "short_name prev \<Longrightarrow> short_name (Some (entry_info prev e))"
  by (auto simp: short_name_def entry_info_keeps entry_name_def pm_str_def split: option.splits)

subsection \<open>Header lines\<close>

lemma header_name_back:
  assumes e: "case me_name e of None \<Rightarrow> True | Some nm \<Rightarrow> name_ok nm" and prev: "short_name prev"
  shows "header_name (32 # (case me_name e of None \<Rightarrow> [] | Some nm \<Rightarrow> replicate k 32 @ nm)) (me_start e) prev = entry_name prev e"
proof (cases "me_name e")
  case None
  then show ?thesis using prev
    by (auto simp: header_name_def entry_name_def skip_space_def is_space_def short_name_def split: option.splits)
next
  case (Some nm)
  then have "nm \<noteq> []" "\<not> is_space (hd nm)" using e by (auto simp: name_ok_def)
  moreover have "is_space 32" by (simp add: is_space_def)
  ultimately have "skip_space (32 # replicate k 32 @ nm) = nm"
    by (cases nm; induction k) (simp_all add: skip_space_def)
  then show ?thesis using Some \<open>nm \<noteq> []\<close> by (simp add: header_name_def entry_name_def Let_def)
qed

lemma parse_header_back:
  assumes e: "maps_entry_ok e" and prev: "short_name prev" and mem: "\<not> sm_oom os n"
  shows "parse_header os n (maps_line e) prev = Inr (Header (entry_head prev e))"
proof -
  have sp: "is_space 32" "\<not> is_hex 45" "\<not> is_hex 32" "\<not> is_hex 58" "\<not> is_digit 32" by code_simp+
  have dec: "scan_dec (decimal n @ 32 # r) = Some ((False, n), 32 # r)" for n r
    using scan_dec_decimal [of "32 # r" n] sp by simp
  have ok: "word_ok (me_perms e)" "case me_name e of None \<Rightarrow> True | Some nm \<Rightarrow> name_ok nm"
    using e by (simp_all add: maps_entry_ok_def)
  let ?r = "case me_name e of None \<Rightarrow> [] | Some nm \<Rightarrow> replicate (me_pad e) 32 @ nm"
  have pos: "scan_name_pos (32 # me_perms e @ 32 # hex_padded 8 (unat (me_off e)) @ 32 # hex_padded 2 (me_major e) @ 58 #
      hex_padded 2 (me_minor e) @ 32 # decimal (me_inode e) @ 32 # ?r) = Some (32 # ?r)"
    by (simp add: scan_name_pos_def scan_padded scan_word sp ok(1) dec)
  have "parse_header os n (maps_line e) prev = (case entry_name prev e of (name, is_bss) \<Rightarrow>
      Inr (Header \<lparr>sm_start = me_start e, sm_end = me_end e, sm_size = 0, sm_rss = 0, sm_pss = 0, sm_shared_clean = 0,
            sm_shared_dirty = 0, sm_private_clean = 0, sm_private_dirty = 0, sm_is_bss = is_bss, sm_count = 1,
            sm_name = name\<rparr>))"
    unfolding parse_header_def maps_line_def append_assoc append_Cons
    by (simp add: scan_padded sp hex_store pos header_name_back [OF ok(2) prev] mem Let_def)
  then show ?thesis by (simp add: entry_head_def split_beta)
qed

lemma hexadecimal_length: "n < 16 ^ k \<Longrightarrow> 0 < k \<Longrightarrow> length (hexadecimal n) \<le> k"
proof (induction n arbitrary: k rule: hexadecimal.induct)
  case (1 n)
  show ?case
  proof (cases "n < 16")
    case False
    then obtain j where j: "k = Suc j" "0 < j" using 1(2,3) by (cases k; cases "k - 1") auto
    then have "n div 16 < 16 ^ j" using 1(2) by (simp add: less_mult_imp_div_less mult.commute)
    then show ?thesis using 1(1) [OF False _ j(2)] False j(1) by (subst hexadecimal.simps) simp
  qed (use 1 in \<open>subst hexadecimal.simps, simp\<close>)
qed

lemma header_not_field:
  assumes e: "maps_entry_ok e" and perms: "me_perms e ! 0 \<in> {114, 45}" "me_perms e ! 1 \<in> {119, 45}"
  shows "parse_field mi (maps_line e) = Inr None"
proof -
  let ?t = "hex_padded 8 (unat (me_start e)) @ 45 # hex_padded 8 (unat (me_end e))"
  obtain r where line: "maps_line e = ?t @ 32 # me_perms e @ 32 # r" by (simp add: maps_line_def)
  have h: "length (hex_padded 8 (unat w)) = 8" for w :: u32
    using hexadecimal_length [of "unat w" 8] unat_u32 [of w] by (simp add: hex_padded_def)
  have "\<forall>c \<in> set ?t. \<not> is_space c"
    using hex_padded_spec(2) is_hex_plain by (auto simp: is_space_def)
  then have s: "scan_str (Some 63) (?t @ 32 # me_perms e @ 32 # r) = Some (?t, 32 # me_perms e @ 32 # r)"
    by (intro scan_str_word) (simp_all add: h is_space_def)
  have "length (me_perms e) = 4" using e by (simp add: maps_entry_ok_def)
  then obtain a b c where p: "me_perms e = a # b # c" by (cases "me_perms e"; cases "tl (me_perms e)") auto
  have d: "\<not> is_space 114" "\<not> is_space 45" "\<not> is_digit 114" "\<not> is_digit 45" "\<not> is_digit 119" "is_space 32" by code_simp+
  have "scan_dec (me_perms e @ 32 # r) = None"
    using perms by (auto simp: p scan_dec_def skip_space_def scan_sign_def d)
  then show ?thesis using d(6) by (simp only: parse_field_def line s) simp
qed

subsection \<open>Field lines\<close>

lemma parse_field_back:
  assumes "field_ok (tag, pad, v)"
  shows "parse_field mi (field_line (tag, pad, v)) = Inr (Some (set_field tag (of_nat v) mi))"
proof -
  have ok: "word_ok tag" "length tag \<le> 63" "v < 2 ^ 31" using assms by (simp_all add: field_ok_def)
  have sp: "is_space 32" "\<not> is_digit 32" by code_simp+
  let ?r = "32 # decimal v @ [32, 107, 66]"
  have "is_space (hd (replicate pad 32 @ ?r))" using sp by (cases pad) simp_all
  then have s: "scan_str (Some 63) (tag @ replicate pad 32 @ ?r) = Some (tag, replicate pad 32 @ ?r)"
    using ok by (intro scan_str_word) (auto simp: word_ok_def)
  have "scan_dec (decimal v @ [32, 107, 66]) = Some ((False, v), [32, 107, 66])" using sp by (intro scan_dec_decimal) simp
  then have d: "scan_dec (replicate pad 32 @ ?r) = Some ((False, v), [32, 107, 66])" using sp by (induction pad) simp_all
  have "store_int (False, v) = Inr (int v)" using ok(3) by (simp add: store_int_def)
  then show ?thesis by (simp add: parse_field_def field_line_def s d)
qed

lemma field_line_chars:
  assumes "field_ok f"
  shows "\<forall>c \<in> set (field_line f). c \<noteq> 0 \<and> c \<noteq> 10"
proof -
  obtain tag pad v where f: "f = (tag, pad, v)" by (cases f)
  have "\<not> is_digit 0" "\<not> is_digit 10" by code_simp+
  then have "\<forall>c \<in> set (decimal v). c \<noteq> 0 \<and> c \<noteq> 10" using decimal_spec [of v] by metis
  moreover have "is_space 10" by code_simp
  then have "\<forall>c \<in> set tag. c \<noteq> 0 \<and> c \<noteq> 10" using assms by (auto simp: field_ok_def f word_ok_def)
  ultimately show ?thesis unfolding field_line_def f prod.case set_append list.set ball_Un ball_simps by simp
qed

lemma smaps_lines_ok:
  assumes "smaps_entry_ok e" "l \<in> set (smaps_lines e)"
  shows "10 \<notin> set l" "0 \<notin> set l" "length l \<le> 1022"
proof -
  have e: "maps_entry_ok (se_map e)" "\<forall>f \<in> set (se_fields e). field_ok f" using assms(1) by (simp_all add: smaps_entry_ok_def)
  have "(\<forall>c \<in> set l. c \<noteq> 0 \<and> c \<noteq> 10) \<and> length l \<le> 1022"
  proof (cases "l = maps_line (se_map e)")
    case True
    then show ?thesis using maps_line_chars [OF e(1)] e(1) by (simp add: maps_entry_ok_def)
  next
    case False
    then obtain f where "f \<in> set (se_fields e)" "l = field_line f" using assms(2) by (auto simp: smaps_lines_def)
    then show ?thesis using field_line_chars [of f] e(2) by (auto simp: field_ok_def)
  qed
  then show "10 \<notin> set l" "0 \<notin> set l" "length l \<le> 1022" by blast+
qed

lemma chop_line: "10 \<notin> set l \<Longrightarrow> 0 \<notin> set l \<Longrightarrow> chop_newline (l @ [10]) = Inr l"
proof -
  assume "0 \<notin> set l"
  then have "takeWhile (\<lambda>c. c \<noteq> 0) (l @ [10]) = l @ [10]" by (auto simp: takeWhile_eq_all_conv)
  then show ?thesis by (simp add: chop_newline_def)
qed

subsection \<open>The loop\<close>

lemma load_fields:
  assumes "\<forall>f \<in> set fs. field_ok f"
  shows "load_loop os a c (map (\<lambda>l. l @ [10]) (map field_line fs) @ ls) n head (Some mi) err =
    load_loop os a c ls n head (Some (foldl (\<lambda>mi (tag, _, v). set_field tag (of_nat v) mi) mi fs)) err"
  using assms
proof (induction fs arbitrary: mi)
  case (Cons f fs)
  obtain tag pad v where f: "f = (tag, pad, v)" by (cases f)
  have "chop_newline (field_line f @ [10]) = Inr (field_line f)" using field_line_chars [of f] Cons.prems by (intro chop_line) auto
  moreover have "parse_field mi (field_line f) = Inr (Some (set_field tag (of_nat v) mi))"
    using parse_field_back [of tag pad v mi] Cons.prems f by simp
  ultimately show ?case using Cons f by simp
qed simp

lemma load_entries:
  assumes "\<forall>e \<in> set es. smaps_entry_ok e" and mem: "\<forall>n. \<not> sm_oom os n" and "short_name prev"
  shows "load_loop os a c (map (\<lambda>l. l @ [10]) (concat (map smaps_lines es))) n head prev err =
    Inr (Some (fold (enqueue a c) (smaps_infos prev es) (enqueue_map a c prev head)), err)"
  using assms(1,3)
proof (induction es arbitrary: n head prev)
  case (Cons e es)
  let ?ls = "map (\<lambda>l. l @ [10]) (concat (map smaps_lines es))" and ?h = "maps_line (se_map e)"
  have e: "maps_entry_ok (se_map e)" "\<forall>f \<in> set (se_fields e). field_ok f" using Cons.prems by (auto simp: smaps_entry_ok_def)
  have "chop_newline (?h @ [10]) = Inr ?h" using smaps_lines_ok [of e ?h] Cons.prems(1) by (intro chop_line) (auto simp: smaps_lines_def)
  moreover have "(case prev of None \<Rightarrow> Inr None | Some mi \<Rightarrow> parse_field mi ?h) = Inr None"
    using header_not_field [OF e(1)] Cons.prems(1) by (auto simp: smaps_entry_ok_def split: option.splits)
  moreover have "parse_header os n ?h prev = Inr (Header (entry_head prev (se_map e)))"
    using parse_header_back [OF e(1) Cons.prems(2)] mem by simp
  ultimately have "load_loop os a c (map (\<lambda>l. l @ [10]) (concat (map smaps_lines (e # es)))) n head prev err =
      load_loop os a c (map (\<lambda>l. l @ [10]) (map field_line (se_fields e)) @ ?ls) (n + 1) (enqueue_map a c prev head)
        (Some (entry_head prev (se_map e))) err"
    by (simp add: smaps_lines_def)
  also have "\<dots> = load_loop os a c ?ls (n + 1) (enqueue_map a c prev head) (Some (entry_info prev e)) err"
    using load_fields [OF e(2)] by (simp add: entry_info_def)
  also have "\<dots> = Inr (Some (fold (enqueue a c) (smaps_infos prev (e # es)) (enqueue_map a c prev head)), err)"
    using Cons entry_info_short by (simp add: enqueue_map_def)
  finally show ?case .
qed simp

lemma load_maps_fold:
  assumes es: "\<forall>e \<in> set es. smaps_entry_ok e" and mem: "\<forall>n. \<not> sm_oom os n"
    and content: "sm_fopen os (proc_path pid ''/smaps'') = Inr (smaps_text es)"
  shows "load_maps os pid a c = Inr (if es = [] then (Sm_null, [Could_not_read pid])
    else (Sm_maps (fold (enqueue a c) (smaps_infos None es) []), []))"
proof -
  have "\<forall>l \<in> set (concat (map smaps_lines es)). 10 \<notin> set l \<and> length l \<le> 1022" using es smaps_lines_ok by fastforce
  then have lines: "fgets_lines 1022 (smaps_text es) = map (\<lambda>l. l @ [10]) (concat (map smaps_lines es))"
    unfolding smaps_text_def by (rule fgets_lines_lines)
  have "enqueue a c m l \<noteq> []" for m l by (cases l) simp_all
  then have "fold (enqueue a c) ms l = [] \<longleftrightarrow> ms = [] \<and> l = []" for ms l by (induction ms arbitrary: l) simp_all
  moreover have "smaps_infos None es = [] \<longleftrightarrow> es = []" by (cases es) simp_all
  ultimately show ?thesis
    using load_entries [OF es mem, of None a c 0 "[]" "[]"]
    by (simp add: load_maps_def content lines short_name_def enqueue_map_def)
qed

text \<open>A library and the anonymous mapping behind it.\<close>

definition sample_smaps :: "smaps_entry list" where
  "sample_smaps =
     [\<lparr>se_map = \<lparr>me_start = 0x8000, me_end = 0x9000, me_perms = [114, 45, 120, 112], me_off = 0, me_major = 31, me_minor = 1,
        me_inode = 7, me_pad = 3, me_name = Some (pm_str ''/l.so'')\<rparr>,
       se_fields = [(pm_str ''Size:'', 4, 4), (pm_str ''Swap:'', 4, 1), (pm_str ''Pss:'', 5, 2)]\<rparr>,
      \<lparr>se_map = \<lparr>me_start = 0x9000, me_end = 0xB000, me_perms = [114, 119, 45, 112], me_off = 0, me_major = 0, me_minor = 0,
        me_inode = 0, me_pad = 0, me_name = None\<rparr>,
       se_fields = [(pm_str ''Size:'', 4, 8), (pm_str ''Pss:'', 5, 8), (pm_str ''Private_Dirty:'', 1, 8)]\<rparr>]"

definition sample_sm_os :: sm_os where
  "sample_sm_os = \<lparr>sm_fopen = (\<lambda>_. Inr (smaps_text sample_smaps)), sm_oom = (\<lambda>_. False)\<rparr>"

lemma sample_smaps_ok: "\<forall>e \<in> set sample_smaps. smaps_entry_ok e"
  unfolding sample_smaps_def list.set ball_simps
  by (simp add: smaps_entry_ok_def maps_entry_ok_def maps_line_def hex_padded_def hexadecimal.simps decimal.simps word_ok_def name_ok_def
      is_space_def field_ok_def field_line_def pm_str_def)

lemma sample_infos:
  "smaps_infos None sample_smaps =
     [\<lparr>sm_start = 0x8000, sm_end = 0x9000, sm_size = 4, sm_rss = 0, sm_pss = 2, sm_shared_clean = 0, sm_shared_dirty = 0,
       sm_private_clean = 0, sm_private_dirty = 0, sm_is_bss = False, sm_count = 1, sm_name = pm_str ''/l.so''\<rparr>,
      \<lparr>sm_start = 0x9000, sm_end = 0xB000, sm_size = 8, sm_rss = 0, sm_pss = 8, sm_shared_clean = 0, sm_shared_dirty = 0,
       sm_private_clean = 0, sm_private_dirty = 8, sm_is_bss = True, sm_count = 1, sm_name = pm_str ''/l.so''\<rparr>]"
  by (simp add: sample_smaps_def entry_info_def entry_head_def entry_name_def set_field_def is_library_def pm_str_def Let_def)

lemma sample_os_facts: "\<forall>n. \<not> sm_oom sample_sm_os n" "sm_fopen sample_sm_os (proc_path pid ''/smaps'') = Inr (smaps_text sample_smaps)"
  "sample_smaps \<noteq> []"
  by (simp_all add: sample_sm_os_def) (simp add: sample_smaps_def)

section \<open>Properties\<close>

text \<open>
  C17. What the three listings hold. For the file that the kernel prints for a list of mappings, the list by
  address and the verbose list by name are the mappings in a stable sort of the library, and the default
  list has one line for each name, in the order of the names, with the sums over the mappings of that
  name. An anonymous mapping right behind a library counts as that library's. No message is printed; an
  empty file is reported.
\<close>

theorem showmap_lists_maps:
  assumes es: "\<forall>e \<in> set es. smaps_entry_ok e" and mem: "\<forall>n. \<not> sm_oom os n"
    and content: "sm_fopen os (proc_path pid ''/smaps'') = Inr (smaps_text es)"
  shows "load_maps os pid (addresses opt) (\<not> verbose opt \<and> \<not> addresses opt) =
    Inr (if es = [] then (Sm_null, [Could_not_read pid])
      else (Sm_maps
        (if addresses opt then sort_key (\<lambda>m. (sm_start m, sm_end m)) (smaps_infos None es)
         else if verbose opt then sort_key sm_name (smaps_infos None es)
         else by_names (smaps_infos None es)), []))"
  using load_maps_fold [OF es mem content] by_address.fold_ins by_name.fold_ins fold_coalesce [OF smaps_infos_count]
  by simp

theorem showmap_lists_maps_witness:
  "load_maps sample_sm_os 1 False True =
     Inr (Sm_maps [\<lparr>sm_start = 0x8000, sm_end = 0x9000, sm_size = 12, sm_rss = 0, sm_pss = 10, sm_shared_clean = 0,
       sm_shared_dirty = 0, sm_private_clean = 0, sm_private_dirty = 8, sm_is_bss = False, sm_count = 2,
       sm_name = pm_str ''/l.so''\<rparr>], [])"
  using showmap_lists_maps [OF sample_smaps_ok sample_os_facts(1,2), of 1 "\<lparr>verbose = False, terse = False, addresses = False\<rparr>"]
    sample_os_facts(3)
  by (simp add: sample_infos by_names_def coalesced_def)

text \<open>The list that the options ask for.\<close>

definition shown_list :: "sm_opts \<Rightarrow> mapinfo list \<Rightarrow> mapinfo list" where
  "shown_list opt ms =
     (if addresses opt then sort_key (\<lambda>m. (sm_start m, sm_end m)) ms else if verbose opt then sort_key sm_name ms else by_names ms)"

lemma terse_rows:
  "concat (map (print_map opt) l) =
   concat (map (print_map (opt\<lparr>terse := False\<rparr>)) (if terse opt then filter (\<lambda>m. sm_private_dirty m \<noteq> 0) l else l))"
  by (induction l) (auto simp: print_map_def)

text \<open>
  C19. The report. Between its headings it has one line for each entry of the list that the options ask for,
  or, with \<^verbatim>\<open>-t\<close>, for each entry with dirty private pages. Its last line has the sums of the seven sizes over
  all mappings of the process, also over those whose lines \<^verbatim>\<open>-t\<close> leaves out, and, only in the default
  report (with neither \<^verbatim>\<open>-v\<close> nor \<^verbatim>\<open>-a\<close>), the number of the mappings.
\<close>

theorem showmap_totals:
  assumes es: "\<forall>e \<in> set es. smaps_entry_ok e" "es \<noteq> []" and mem: "\<forall>n. \<not> sm_oom os n"
    and content: "sm_fopen os (proc_path pid ''/smaps'') = Inr (smaps_text es)"
    and ms: "ms = smaps_infos None es"
  shows "show_map os opt pid = Inr (0, print_header opt @ print_divider opt @
      concat (map (print_map (opt\<lparr>terse := False\<rparr>))
        (if terse opt then filter (\<lambda>m. sm_private_dirty m \<noteq> 0) (shown_list opt ms) else shown_list opt ms)) @
      print_divider opt @ print_header opt @ print_divider opt @
      (if addresses opt then replicate 18 32 else []) @
      concat (map (\<lambda>field. fmt_d 8 (sum_list (map field ms)) @ [32])
        [sm_size, sm_rss, sm_pss, sm_shared_clean, sm_shared_dirty, sm_private_clean, sm_private_dirty]) @
      (if \<not> verbose opt \<and> \<not> addresses opt then fmt_d 4 (of_nat (length es)) @ [32] else []) @
      pm_str ''TOTAL'' @ [10], [])"
proof -
  let ?l = "fold (enqueue (addresses opt) (\<not> verbose opt \<and> \<not> addresses opt)) ms []"
  have load: "load_maps os pid (addresses opt) (\<not> verbose opt \<and> \<not> addresses opt) = Inr (Sm_maps ?l, [])"
    using load_maps_fold [OF es(1) mem content] es(2) by (simp add: ms)
  have shown: "?l = shown_list opt ms"
    using by_address.fold_ins by_name.fold_ins fold_coalesce [OF smaps_infos_count] by (simp add: shown_list_def ms)
  have "sum_list (map sm_count (smaps_infos prev es)) = int (length es)" for prev
    by (induction es arbitrary: prev) (simp_all add: entry_info_keeps)
  then have "tot_count (sums ms) = of_nat (length es)" by (simp add: sums_def ms)
  then have last_line: "print_total opt (sums ms) = (if addresses opt then replicate 18 32 else []) @
      concat (map (\<lambda>field. fmt_d 8 (sum_list (map field ms)) @ [32])
        [sm_size, sm_rss, sm_pss, sm_shared_clean, sm_shared_dirty, sm_private_clean, sm_private_dirty]) @
      (if \<not> verbose opt \<and> \<not> addresses opt then fmt_d 4 (of_nat (length es)) @ [32] else []) @ pm_str ''TOTAL'' @ [10]"
    by (simp add: print_total_def) (simp add: sums_def)
  have "zero_total = sums []" by (simp add: zero_total_def sums_def)
  then have "show_loop opt ?l zero_total out = (sums ms, out @ concat (map (print_map opt) ?l))" for out
    using show_loop_result [of opt ?l "[]" out] sums_fold [OF smaps_infos_count, of _ _ None es] by (simp add: ms)
  then show ?thesis
    unfolding last_line [symmetric] terse_rows [of opt, symmetric] shown [symmetric] using load by (simp add: show_map_def)
qed

text \<open>The terse report of the two mappings, of which the list by address shows the one with dirty pages.\<close>

theorem showmap_totals_witness:
  "\<exists>m. filter (\<lambda>m. sm_private_dirty m \<noteq> 0) (shown_list \<lparr>verbose = False, terse = True, addresses = True\<rparr> (smaps_infos None sample_smaps)) = [m] \<and>
   sm_start m = 0x9000 \<and>
   show_map sample_sm_os \<lparr>verbose = False, terse = True, addresses = True\<rparr> 1 =
     Inr (0, print_header \<lparr>verbose = False, terse = True, addresses = True\<rparr> @ print_divider \<lparr>verbose = False, terse = True, addresses = True\<rparr> @
       print_map \<lparr>verbose = False, terse = False, addresses = True\<rparr> m @
       print_divider \<lparr>verbose = False, terse = True, addresses = True\<rparr> @ print_header \<lparr>verbose = False, terse = True, addresses = True\<rparr> @
       print_divider \<lparr>verbose = False, terse = True, addresses = True\<rparr> @ replicate 18 32 @
       pm_str ''      12        0       10        0        0        0        8 TOTAL'' @ [10], [])"
proof -
  let ?opt = "\<lparr>verbose = False, terse = True, addresses = True\<rparr>" and ?ms = "smaps_infos None sample_smaps"
  have d: "decimal 0 = [48]" "decimal 2 = [50]" "decimal 8 = [56]" "decimal 10 = [49, 48]" "decimal 12 = [49, 50]"
    by (simp_all add: decimal.simps)
  have tot: "concat (map (\<lambda>field. fmt_d 8 (sum_list (map field ?ms)) @ [32])
        [sm_size, sm_rss, sm_pss, sm_shared_clean, sm_shared_dirty, sm_private_clean, sm_private_dirty]) @ pm_str ''TOTAL'' @ [10] =
      pm_str ''      12        0       10        0        0        0        8 TOTAL'' @ [10]"
    by (simp add: sample_infos d fmt_d_def pad_left_def print_int_def pm_str_def) (simp add: numeral_eq_Suc)
  obtain m where m: "filter (\<lambda>m. sm_private_dirty m \<noteq> 0) (shown_list ?opt ?ms) = [m]" "sm_start m = 0x9000"
    by (simp add: shown_list_def sample_infos)
  show ?thesis
    using showmap_totals [OF sample_smaps_ok sample_os_facts(3,1,2) refl, of ?opt 1] m
    by (intro exI [of _ m]) (simp add: tot [simplified])
qed

end
