(* ===== verification/Qsort.thy ===== *)
theory Qsort
  imports Main "HOL-Library.Multiset"
begin

text \<open>
  \<^verbatim>\<open>qsort\<close> as the C standard promises it: for a comparison function that orders the elements, the array
  is permuted so that none comes before a smaller one. The order of equal elements is open, so the programs
  that sort take it as a parameter, and their lemmas are proved from this contract.
\<close>

text \<open>The comparison of numbers that the reports share.\<close>

definition numcmp :: "int \<Rightarrow> int \<Rightarrow> int" where
  "numcmp a b = (if a < b then -1 else if b < a then 1 else 0)"

definition consistent :: "('a \<Rightarrow> 'a \<Rightarrow> int) \<Rightarrow> bool" where
  "consistent cmp \<longleftrightarrow> (\<forall>a b. cmp a b \<le> 0 \<longleftrightarrow> 0 \<le> cmp b a) \<and> (\<forall>a b c. cmp a b \<le> 0 \<longrightarrow> cmp b c \<le> 0 \<longrightarrow> cmp a c \<le> 0)"

lemma consistent_numcmp: "consistent (\<lambda>a b. numcmp (f a) (f b))"
  by (auto simp: consistent_def numcmp_def split: if_splits)

lemma consistent_reverse:
  assumes "consistent cmp"
  shows "consistent (\<lambda>a b. - cmp a b)"
  using assms unfolding consistent_def by (simp, blast)

locale qsort_law =
  fixes qs :: "('a \<Rightarrow> 'a \<Rightarrow> int) \<Rightarrow> 'a list \<Rightarrow> 'a list"
  assumes qs_mset: "consistent cmp \<Longrightarrow> mset (qs cmp l) = mset l"
    and qs_sorted: "consistent cmp \<Longrightarrow> sorted_wrt (\<lambda>a b. cmp a b \<le> 0) (qs cmp l)"
begin

lemma qs_set: "consistent cmp \<Longrightarrow> set (qs cmp l) = set l"
  using qs_mset mset_eq_setD by blast

lemma qs_length: "consistent cmp \<Longrightarrow> length (qs cmp l) = length l"
  using qs_mset mset_eq_length by blast

text \<open>Sorting by a number, up and down.\<close>

lemma ascending: "sorted (map f (qs (\<lambda>a b. numcmp (f a) (f b)) l))"
  using qs_sorted [OF consistent_numcmp [of f], of l] unfolding sorted_map
  by (rule sorted_wrt_mono_rel [rotated]) (simp add: numcmp_def split: if_splits)

lemma descending: "sorted (map f (rev (qs (\<lambda>a b. - numcmp (f a) (f b)) l)))"
proof -
  have "sorted_wrt (\<lambda>a b. f b \<le> f a) (qs (\<lambda>a b. - numcmp (f a) (f b)) l)"
    using qs_sorted [OF consistent_reverse [OF consistent_numcmp [of f]], of l]
    by (rule sorted_wrt_mono_rel [rotated]) (simp add: numcmp_def split: if_splits)
  then show ?thesis unfolding sorted_map sorted_wrt_rev .
qed

end

text \<open>Insertion sort meets the contract.\<close>

fun isort_insert :: "('a \<Rightarrow> 'a \<Rightarrow> int) \<Rightarrow> 'a \<Rightarrow> 'a list \<Rightarrow> 'a list" where
  "isort_insert cmp x [] = [x]"
| "isort_insert cmp x (y # ys) = (if cmp x y \<le> 0 then x # y # ys else y # isort_insert cmp x ys)"

fun isort :: "('a \<Rightarrow> 'a \<Rightarrow> int) \<Rightarrow> 'a list \<Rightarrow> 'a list" where
  "isort cmp [] = []"
| "isort cmp (x # xs) = isort_insert cmp x (isort cmp xs)"

lemma mset_isort_insert: "mset (isort_insert cmp x l) = add_mset x (mset l)"
  by (induction l) simp_all

lemma sorted_isort_insert:
  assumes "consistent cmp" "sorted_wrt (\<lambda>a b. cmp a b \<le> 0) l"
  shows "sorted_wrt (\<lambda>a b. cmp a b \<le> 0) (isort_insert cmp x l)"
proof -
  have tr: "cmp a b \<le> 0 \<Longrightarrow> cmp b c \<le> 0 \<Longrightarrow> cmp a c \<le> 0" for a b c using assms(1) unfolding consistent_def by blast
  have le: "cmp b a \<le> 0" if "\<not> cmp a b \<le> 0" for a b
    using assms(1) that unfolding consistent_def by (meson nle_le)
  have st: "set (isort_insert cmp x l) = insert x (set l)" for l
    using mset_isort_insert [of cmp x l] by (metis set_mset_add_mset_insert set_mset_mset)
  show ?thesis using assms(2) by (induction l) (auto simp: st le intro: tr)
qed

interpretation isort: qsort_law isort
proof unfold_locales
  fix cmp :: "'a \<Rightarrow> 'a \<Rightarrow> int" and l assume c: "consistent cmp"
  show "mset (isort cmp l) = mset l" by (induction l) (simp_all add: mset_isort_insert)
  show "sorted_wrt (\<lambda>a b. cmp a b \<le> 0) (isort cmp l)" by (induction l) (simp_all add: sorted_isort_insert [OF c])
qed

end
