(* ===== verification/Latencytop.thy ===== *)
theory Latencytop
  imports Pagemap Qsort
begin

text \<open>
  \<^verbatim>\<open>latencytop\<close>: what the kernel's latency statistics say about the system, a process or a thread.
  The environment answers every request from the history of the run: which files open and what they hold, which
  directories there are, whether an allocation fails, whether a signal ends a sleep. \<^verbatim>\<open>long\<close> has 32 bits.
  A step ends the process with an exit status (\<open>Inl\<close>) or goes on (\<open>Inr\<close>). Signals are taken while the
  program sleeps. \<^verbatim>\<open>qsort\<close> is a parameter: the C standard leaves the order of equal elements open.
\<close>

section \<open>Environment\<close>

datatype lt_message = Option_argument bytes | Invalid_argument bytes | Thread_without_process | No_global_file
  | No_task_dir int | No_thread_file bytes | No_memory_entry | No_memory_array | No_sysctl | No_version
  | Other_version bytes | Lt_usage

datatype lt_event = Ev_write bytes bytes | Ev_read bytes | Ev_dir bytes | Ev_alloc | Ev_sleep int | Ev_print bytes
  | Ev_message lt_message

record latency_entry =
  le_count :: u32
  le_max :: u32
  le_total :: u32
  le_reason :: bytes

text \<open>The history, latest event first, and the list \<^verbatim>\<open>free_entries\<close>.\<close>

record lt_st =
  lt_hist :: "lt_event list"
  lt_free :: "latency_entry list"

record lt_env =
  env_writable :: "lt_event list \<Rightarrow> bytes \<Rightarrow> bool"
  env_read :: "lt_event list \<Rightarrow> bytes \<Rightarrow> bytes option"
  env_dir :: "lt_event list \<Rightarrow> bytes \<Rightarrow> bytes list option"
  env_oom :: "lt_event list \<Rightarrow> bool"
  env_signal :: "lt_event list \<Rightarrow> bool"
  env_zero_alloc :: bool
  env_qsort :: "(latency_entry \<Rightarrow> latency_entry \<Rightarrow> int) \<Rightarrow> latency_entry list \<Rightarrow> latency_entry list"

type_synonym 'a lt = "lt_st \<Rightarrow> ((int + 'a) \<times> lt_st) res"

definition lret :: "'a \<Rightarrow> 'a lt" where
  "lret x s = Inr (Inr x, s)"

definition lexit :: "int \<Rightarrow> 'a lt" where
  "lexit c s = Inr (Inl c, s)"

definition lbnd :: "'a lt \<Rightarrow> ('a \<Rightarrow> 'b lt) \<Rightarrow> 'b lt" where
  "lbnd m f s = bnd (m s) (\<lambda>(r, s). case r of Inl c \<Rightarrow> Inr (Inl c, s) | Inr x \<Rightarrow> f x s)"

definition llift :: "'a res \<Rightarrow> 'a lt" where
  "llift r s = bnd r (\<lambda>x. Inr (Inr x, s))"

definition emit :: "lt_event \<Rightarrow> unit lt" where
  "emit e s = Inr (Inr (), s\<lparr>lt_hist := e # lt_hist s\<rparr>)"

text \<open>Print a message and \<^verbatim>\<open>exit(EXIT_FAILURE)\<close>.\<close>

definition lfail :: "lt_message \<Rightarrow> 'a lt" where
  "lfail m = lbnd (emit (Ev_message m)) (\<lambda>_. lexit 1)"

text \<open>Open a file and write to it, open a file and read it; \<open>None\<close> and \<open>False\<close> when it does not open.\<close>

definition write_file :: "lt_env \<Rightarrow> bytes \<Rightarrow> bytes \<Rightarrow> bool lt" where
  "write_file env path data s =
     (if env_writable env (lt_hist s) path then lbnd (emit (Ev_write path data)) (\<lambda>_. lret True) s else lret False s)"

definition open_file :: "lt_env \<Rightarrow> bytes \<Rightarrow> bytes option lt" where
  "open_file env path s =
     (case env_read env (lt_hist s) path of None \<Rightarrow> lret None s | Some text \<Rightarrow> lbnd (emit (Ev_read path)) (\<lambda>_. lret (Some text)) s)"

definition open_dir :: "lt_env \<Rightarrow> bytes \<Rightarrow> bytes list option lt" where
  "open_dir env path s =
     (case env_dir env (lt_hist s) path of None \<Rightarrow> lret None s | Some names \<Rightarrow> lbnd (emit (Ev_dir path)) (\<lambda>_. lret (Some names)) s)"

definition lt_alloc :: "lt_env \<Rightarrow> bool lt" where
  "lt_alloc env s = lbnd (emit Ev_alloc) (\<lambda>_. lret (\<not> env_oom env (lt_hist s))) s"

lemmas lt_simps = lret_def lexit_def lbnd_def llift_def emit_def lfail_def

definition EXPECTED_VERSION :: bytes where "EXPECTED_VERSION = pm_str ''Latency Top version : v0.1'' @ [10]"
definition SYSCTL_FILE :: bytes where "SYSCTL_FILE = pm_str ''/proc/sys/kernel/latencytop''"
definition GLOBAL_STATS_FILE :: bytes where "GLOBAL_STATS_FILE = pm_str ''/proc/latency_stats''"

definition THREAD_STATS_FILE :: "int \<Rightarrow> int \<Rightarrow> bytes" where
  "THREAD_STATS_FILE pid tid = pm_str ''/proc/'' @ print_int pid @ pm_str ''/task/'' @ print_int tid @ pm_str ''/latency''"

definition set_latencytop :: "lt_env \<Rightarrow> int \<Rightarrow> unit lt" where
  "set_latencytop env on =
     lbnd (write_file env SYSCTL_FILE (print_int on @ [10])) (\<lambda>ok. if ok then lret () else lfail No_sysctl)"

section \<open>Entries\<close>

definition alloc_latency_entry :: "lt_env \<Rightarrow> unit lt" where
  "alloc_latency_entry env s =
     (case lt_free s of
        e # l \<Rightarrow> lret () (s\<lparr>lt_free := l\<rparr>)
      | [] \<Rightarrow> lbnd (lt_alloc env) (\<lambda>ok. if ok then lret () else lfail No_memory_entry) s)"

text \<open>Nothing calls it.\<close>

definition free_latency_entry :: "latency_entry \<Rightarrow> unit lt" where
  "free_latency_entry e s = lret () (s\<lparr>lt_free := e # lt_free s\<rparr>)"

definition find_latency_entry :: "latency_entry list \<Rightarrow> bytes \<Rightarrow> latency_entry option" where
  "find_latency_entry l reason = find (\<lambda>e. le_reason e = reason) l"

definition add_sample :: "u32 \<Rightarrow> u32 \<Rightarrow> u32 \<Rightarrow> latency_entry \<Rightarrow> latency_entry" where
  "add_sample cnt mx tot e =
     e\<lparr>le_count := le_count e + cnt, le_max := (if le_max e < mx then mx else le_max e), le_total := le_total e + tot\<rparr>"

text \<open>The entry that \<^verbatim>\<open>find_latency_entry\<close> returned changes in place.\<close>

fun update_entry :: "bytes \<Rightarrow> (latency_entry \<Rightarrow> latency_entry) \<Rightarrow> latency_entry list \<Rightarrow> latency_entry list" where
  "update_entry reason f [] = []"
| "update_entry reason f (e # l) = (if le_reason e = reason then f e # l else e # update_entry reason f l)"

section \<open>Reading a file\<close>

text \<open>The local variables; a line that does not match leaves them as they were.\<close>

record lt_vars =
  rv_count :: "u32 option"
  rv_total :: "u32 option"
  rv_max :: "u32 option"
  rv_reason :: "bytes option"

text \<open>\<^verbatim>\<open>"%ld %ld %ld %s"\<close> on a line shorter than the buffer for the reason.\<close>

definition scan_latency_line :: "bytes \<Rightarrow> lt_vars \<Rightarrow> lt_vars res" where
  "scan_latency_line line v =
     (case scan_dec line of None \<Rightarrow> Inr v | Some (n, r) \<Rightarrow>
      bnd (store_int n) (\<lambda>x. let v = v\<lparr>rv_count := Some (of_int x)\<rparr> in
     (case scan_dec r of None \<Rightarrow> Inr v | Some (n, r) \<Rightarrow>
      bnd (store_int n) (\<lambda>x. let v = v\<lparr>rv_total := Some (of_int x)\<rparr> in
     (case scan_dec r of None \<Rightarrow> Inr v | Some (n, r) \<Rightarrow>
      bnd (store_int n) (\<lambda>x. let v = v\<lparr>rv_max := Some (of_int x)\<rparr> in
     (case scan_str None r of None \<Rightarrow> Inr v | Some (t, _) \<Rightarrow> Inr (v\<lparr>rv_reason := Some t\<rparr>))))))))"

definition defined :: "'a option \<Rightarrow> 'a res" where
  "defined x = (case x of None \<Rightarrow> Inl Undefined | Some x \<Rightarrow> Inr x)"

definition use_sample :: "lt_env \<Rightarrow> lt_vars \<Rightarrow> latency_entry list \<Rightarrow> latency_entry list lt" where
  "use_sample env v head =
     lbnd (llift (defined (rv_max v))) (\<lambda>mx.
     lbnd (llift (if 0 < mx then Inr True else bnd (defined (rv_total v)) (\<lambda>total. Inr (0 < total)))) (\<lambda>go.
     if \<not> go then lret head
     else
       lbnd (llift (defined (rv_count v))) (\<lambda>cnt.
       lbnd (llift (defined (rv_total v))) (\<lambda>total.
       lbnd (llift (defined (rv_reason v))) (\<lambda>reason.
       case find_latency_entry head reason of
         Some _ \<Rightarrow> lret (update_entry reason (add_sample cnt mx total) head)
       | None \<Rightarrow>
           lbnd (alloc_latency_entry env) (\<lambda>_.
           lret (\<lparr>le_count = cnt, le_max = mx, le_total = total, le_reason = reason\<rparr> # head)))))))"

fun latency_lines :: "lt_env \<Rightarrow> bytes list \<Rightarrow> lt_vars \<Rightarrow> latency_entry list \<Rightarrow> latency_entry list lt" where
  "latency_lines env [] v head = lret head"
| "latency_lines env (line # ls) v head =
     lbnd (llift (scan_latency_line (takeWhile (\<lambda>c. c \<noteq> 0) line) v)) (\<lambda>v.
     lbnd (use_sample env v head) (\<lambda>head. latency_lines env ls v head))"

definition no_vars :: lt_vars where
  "no_vars = \<lparr>rv_count = None, rv_total = None, rv_max = None, rv_reason = None\<rparr>"

definition read_latency_file :: "lt_env \<Rightarrow> bytes \<Rightarrow> latency_entry list \<Rightarrow> latency_entry list lt" where
  "read_latency_file env text head =
     (case fgets_lines 510 text of
        [] \<Rightarrow> lfail No_version
      | line # ls \<Rightarrow>
          (let line = takeWhile (\<lambda>c. c \<noteq> 0) line in
           if line \<noteq> EXPECTED_VERSION then lfail (Other_version line)
           else latency_lines env ls no_vars head))"

section \<open>Statistics\<close>

definition erase_text :: bytes where "erase_text = pm_str ''erase'' @ [10]"

definition read_global_stats :: "lt_env \<Rightarrow> latency_entry list \<Rightarrow> bool \<Rightarrow> latency_entry list lt" where
  "read_global_stats env l erase =
     lbnd (if erase then write_file env GLOBAL_STATS_FILE erase_text else lret True) (\<lambda>ok.
     if \<not> ok then lfail No_global_file
     else
       lbnd (open_file env GLOBAL_STATS_FILE) (\<lambda>f. case f of
         None \<Rightarrow> lfail No_global_file
       | Some text \<Rightarrow> read_latency_file env text l))"

text \<open>The statistics are read from the global file.\<close>

definition read_thread_stats :: "lt_env \<Rightarrow> latency_entry list \<Rightarrow> bool \<Rightarrow> int \<Rightarrow> int \<Rightarrow> bool \<Rightarrow> latency_entry list lt" where
  "read_thread_stats env l erase pid tid fatal =
     (let filename = THREAD_STATS_FILE pid tid in
      lbnd (if erase then write_file env filename erase_text else lret True) (\<lambda>ok.
      if \<not> ok then (if fatal then lfail (No_thread_file filename) else lret l)
      else
        lbnd (open_file env GLOBAL_STATS_FILE) (\<lambda>f. case f of
          None \<Rightarrow> if fatal then lfail (No_thread_file filename) else lret l
        | Some text \<Rightarrow> read_latency_file env text l)))"

text \<open>\<^verbatim>\<open>atoi\<close>: a number that does not fit is undefined behaviour.\<close>

definition atoi :: "bytes \<Rightarrow> int res" where
  "atoi b = (case scan_dec b of None \<Rightarrow> Inr 0 | Some (n, _) \<Rightarrow> store_int n)"

fun task_loop :: "lt_env \<Rightarrow> bool \<Rightarrow> int \<Rightarrow> bytes list \<Rightarrow> latency_entry list \<Rightarrow> latency_entry list lt" where
  "task_loop env erase pid [] e = lret e"
| "task_loop env erase pid (name # names) e =
     (if name = [] \<or> \<not> is_digit (hd name) then task_loop env erase pid names e
      else
        lbnd (llift (atoi name)) (\<lambda>tid.
        lbnd (read_thread_stats env e erase pid tid False) (\<lambda>e. task_loop env erase pid names e)))"

definition read_process_stats :: "lt_env \<Rightarrow> latency_entry list \<Rightarrow> bool \<Rightarrow> int \<Rightarrow> latency_entry list lt" where
  "read_process_stats env l erase pid =
     lbnd (open_dir env (proc_path pid ''/task'')) (\<lambda>d. case d of
       None \<Rightarrow> lfail (No_task_dir pid)
     | Some names \<Rightarrow> task_loop env erase pid names l)"

section \<open>The report\<close>

definition lat_cmp :: "latency_entry \<Rightarrow> latency_entry \<Rightarrow> int" where
  "lat_cmp a b = numcmp (uint (le_max b)) (uint (le_max a))"

definition pad_to :: "nat \<Rightarrow> u8 \<Rightarrow> bytes \<Rightarrow> bytes" where
  "pad_to w c t = replicate (w - length t) c @ t"

text \<open>\<^verbatim>\<open>%4lu.%02lu ms\<close> of microseconds.\<close>

definition print_ms :: "u32 \<Rightarrow> bytes" where
  "print_ms us = pad_to 4 32 (decimal (unat (us div 1000))) @ [46] @
     pad_to 2 48 (decimal (unat (us mod 1000 div 10))) @ pm_str '' ms''"

definition print_entry :: "latency_entry \<Rightarrow> bytes res" where
  "print_entry e =
     (if le_count e = 0 then Inl Undefined
      else Inr (print_ms (le_max e) @ [32, 32] @ print_ms (le_total e div le_count e) @ [32, 32] @
        pad_to 7 32 (print_int (sint (le_count e))) @ [32, 32] @ le_reason e @ [10]))"

fun print_loop :: "latency_entry list \<Rightarrow> unit lt" where
  "print_loop [] = lret ()"
| "print_loop (e # l) = lbnd (llift (print_entry e)) (\<lambda>t. lbnd (emit (Ev_print t)) (\<lambda>_. print_loop l))"

definition report_head :: bytes where
  "report_head = pm_str ''   Maximum     Average    Count  Reason'' @ [10]"

definition print_latency_entries :: "lt_env \<Rightarrow> latency_entry list \<Rightarrow> unit lt" where
  "print_latency_entries env head =
     lbnd (if head = [] \<and> \<not> env_zero_alloc env then lret False else lt_alloc env) (\<lambda>ok.
     if \<not> ok then lfail No_memory_array
     else lbnd (emit (Ev_print report_head)) (\<lambda>_. print_loop (env_qsort env lat_cmp head)))"

section \<open>The program\<close>

record lt_opts =
  opt_delay :: int
  opt_iterations :: int
  opt_pid :: int
  opt_tid :: int

definition read_stats :: "lt_env \<Rightarrow> lt_opts \<Rightarrow> bool \<Rightarrow> latency_entry list lt" where
  "read_stats env opt erase =
     (if opt_pid opt \<noteq> 0 then
        if opt_tid opt \<noteq> 0 then read_thread_stats env [] erase (opt_pid opt) (opt_tid opt) True
        else read_process_stats env [] erase (opt_pid opt)
      else read_global_stats env [] erase)"

definition print_title :: "lt_opts \<Rightarrow> bytes" where
  "print_title opt =
     (if opt_pid opt \<noteq> 0 then
        if opt_tid opt \<noteq> 0 then
          pm_str ''Latencies for thread '' @ print_int (opt_tid opt) @ pm_str '' in process '' @ print_int (opt_pid opt) @ [58, 10]
        else pm_str ''Latencies for process '' @ print_int (opt_pid opt) @ [58, 10]
      else pm_str ''Latencies across all processes:'' @ [10])"

text \<open>A signal ends the sleep with \<^verbatim>\<open>exit(EXIT_SUCCESS)\<close>.\<close>

definition lt_sleep :: "lt_env \<Rightarrow> int \<Rightarrow> unit lt" where
  "lt_sleep env delay =
     lbnd (emit (Ev_sleep delay)) (\<lambda>_ s. if env_signal env (lt_hist s) then lexit 0 s else lret () s)"

definition lt_round :: "lt_env \<Rightarrow> lt_opts \<Rightarrow> bool \<Rightarrow> unit lt" where
  "lt_round env opt erase =
     lbnd (lt_sleep env (opt_delay opt)) (\<lambda>_.
     lbnd (read_stats env opt erase) (\<lambda>e.
     lbnd (emit (Ev_print [10, 10])) (\<lambda>_.
     lbnd (emit (Ev_print (print_title opt))) (\<lambda>_. print_latency_entries env e))))"

text \<open>\<open>n\<close> rounds are left; when \<open>forever\<close> holds, running out of them is not returning.\<close>

fun lt_rounds :: "lt_env \<Rightarrow> lt_opts \<Rightarrow> bool \<Rightarrow> nat \<Rightarrow> bool \<Rightarrow> unit lt" where
  "lt_rounds env opt forever 0 erase = (if forever then llift (Inl Diverges) else lret ())"
| "lt_rounds env opt forever (Suc n) erase = lbnd (lt_round env opt erase) (\<lambda>_. lt_rounds env opt forever n False)"

fun parse_options :: "bytes list \<Rightarrow> lt_opts \<Rightarrow> lt_opts lt" where
  "parse_options [] opt = lret opt"
| "parse_options (arg # args) opt =
     (if arg \<in> {pm_str ''-d'', pm_str ''-n'', pm_str ''-p'', pm_str ''-t''} then
        (case args of
           [] \<Rightarrow> lfail (Option_argument arg)
         | v # args \<Rightarrow>
             lbnd (llift (atoi v)) (\<lambda>v. parse_options args
               (if arg = pm_str ''-d'' then opt\<lparr>opt_delay := v\<rparr>
                else if arg = pm_str ''-n'' then opt\<lparr>opt_iterations := v\<rparr>
                else if arg = pm_str ''-p'' then opt\<lparr>opt_pid := v\<rparr>
                else opt\<lparr>opt_tid := v\<rparr>)))
      else if arg = pm_str ''-h'' then lbnd (emit (Ev_message Lt_usage)) (\<lambda>_. lexit 0)
      else lbnd (emit (Ev_message (Invalid_argument arg))) (\<lambda>_. lbnd (emit (Ev_message Lt_usage)) (\<lambda>_. lexit 1)))"

text \<open>
  Leaving the process runs \<^verbatim>\<open>disable_latencytop\<close>. When that fails it calls \<^verbatim>\<open>exit\<close> once more, inside a
  handler of \<^verbatim>\<open>exit\<close>, which is undefined behaviour.
\<close>

definition with_atexit :: "lt_env \<Rightarrow> int lt \<Rightarrow> int lt" where
  "with_atexit env m s =
     bnd (m s) (\<lambda>(r, s). bnd (set_latencytop env 0 s) (\<lambda>(q, s). case q of
       Inl _ \<Rightarrow> Inl Undefined
     | Inr _ \<Rightarrow> Inr (Inl (case r of Inl c \<Rightarrow> c | Inr c \<Rightarrow> c), s)))"

text \<open>\<open>fuel\<close> bounds the rounds when the number of iterations is 0, which means no limit.\<close>

definition lt_body :: "lt_env \<Rightarrow> nat \<Rightarrow> lt_opts \<Rightarrow> int lt" where
  "lt_body env fuel opt =
     lbnd (set_latencytop env 1) (\<lambda>_.
     lbnd (lt_rounds env opt (opt_iterations opt = 0)
       (if opt_iterations opt = 0 then fuel else nat (opt_iterations opt)) True) (\<lambda>_.
     lbnd (set_latencytop env 0) (\<lambda>_. lret 0)))"

definition latencytop_main :: "lt_env \<Rightarrow> nat \<Rightarrow> bytes list \<Rightarrow> int lt" where
  "latencytop_main env fuel args =
     lbnd (parse_options args \<lparr>opt_delay = 1, opt_iterations = 0, opt_pid = 0, opt_tid = 0\<rparr>) (\<lambda>opt.
     if opt_tid opt \<noteq> 0 \<and> opt_pid opt = 0 then lfail Thread_without_process
     else with_atexit env (lt_body env fuel opt))"

section \<open>Leaving the program\<close>

lemma set_latencytop_event:
  "set_latencytop env on s = Inr (Inr u, s') \<Longrightarrow> lt_hist s' = Ev_write SYSCTL_FILE (print_int on @ [10]) # lt_hist s"
  by (auto simp: set_latencytop_def write_file_def lt_simps split: if_splits)

text \<open>What a run appends to the history, and what parsing the options may append.\<close>

definition no_write :: "lt_event \<Rightarrow> bool" where
  "no_write e = (case e of Ev_write _ _ \<Rightarrow> False | _ \<Rightarrow> True)"

lemma parse_options_events:
  "parse_options args opt s = Inr (r, s') \<Longrightarrow> \<exists>es. lt_hist s' = es @ lt_hist s \<and> list_all no_write es"
proof (induction args opt arbitrary: s rule: parse_options.induct)
  case (1 opt)
  then show ?case by (auto simp: lt_simps)
next
  case (2 arg args opt)
  show ?case
  proof (cases "arg \<in> {pm_str ''-d'', pm_str ''-n'', pm_str ''-p'', pm_str ''-t''}")
    case False
    then show ?thesis using 2(2) by (auto simp: lt_simps no_write_def split: if_splits)
  next
    case True
    show ?thesis
    proof (cases args)
      case Nil
      then show ?thesis using True 2(2) by (auto simp: lt_simps no_write_def)
    next
      case (Cons v args')
      then obtain x opt' where "parse_options args' opt' s = Inr (r, s')"
          "opt' = (if arg = pm_str ''-d'' then opt\<lparr>opt_delay := x\<rparr> else if arg = pm_str ''-n'' then opt\<lparr>opt_iterations := x\<rparr>
             else if arg = pm_str ''-p'' then opt\<lparr>opt_pid := x\<rparr> else opt\<lparr>opt_tid := x\<rparr>)"
        using True 2(2) by (cases "atoi v") (auto simp: lbnd_def llift_def simp del: insert_iff)
      then show ?thesis using 2(1) [OF True Cons] by blast
    qed
  qed
qed

lemma with_atexit_last:
  assumes "with_atexit env m s = Inr (r, s')"
  shows "\<exists>h. lt_hist s' = Ev_write SYSCTL_FILE [48, 10] # h"
proof -
  obtain q s1 where m: "m s = Inr (q, s1)" using assms by (auto simp: with_atexit_def outcome_simps)
  then obtain u where u: "set_latencytop env 0 s1 = Inr (Inr u, s')"
    using assms by (cases "set_latencytop env 0 s1") (auto simp: with_atexit_def split: sum.splits)
  have "print_int 0 = [48]" by (simp add: print_int_def decimal.simps)
  then show ?thesis using set_latencytop_event [OF u] by simp
qed

text \<open>
  C18. Whenever the program ends, because its rounds are done, with an error, or by a signal, it has either
  written to no file at all or the last thing it did was to write 0 to the switch of the kernel's latency
  accounting.
\<close>

theorem latencytop_turns_off:
  assumes run: "latencytop_main env fuel args s = Inr (r, s')"
  shows "(\<exists>h. lt_hist s' = Ev_write SYSCTL_FILE [48, 10] # h) \<or> (\<exists>es. lt_hist s' = es @ lt_hist s \<and> list_all no_write es)"
proof -
  obtain q s1 where p: "parse_options args \<lparr>opt_delay = 1, opt_iterations = 0, opt_pid = 0, opt_tid = 0\<rparr> s = Inr (q, s1)"
    using run by (auto simp: latencytop_main_def lbnd_def outcome_simps)
  obtain es where es: "lt_hist s1 = es @ lt_hist s" "list_all no_write es" using parse_options_events [OF p] by blast
  show ?thesis
  proof (cases q)
    case (Inl c)
    then show ?thesis using run p es by (auto simp: latencytop_main_def lbnd_def)
  next
    case (Inr opt)
    show ?thesis
    proof (cases "opt_tid opt \<noteq> 0 \<and> opt_pid opt = 0")
      case True
      then have "lt_hist s' = (Ev_message Thread_without_process # es) @ lt_hist s"
        using run p es Inr by (auto simp: latencytop_main_def lt_simps)
      then show ?thesis using es by (intro disjI2 exI [of _ "Ev_message Thread_without_process # es"]) (simp add: no_write_def)
    next
      case False
      then have "with_atexit env (lt_body env fuel opt) s1 = Inr (r, s')" using run p Inr by (auto simp: latencytop_main_def lbnd_def)
      then show ?thesis using with_atexit_last by blast
    qed
  qed
qed

section \<open>Reading statistics\<close>

text \<open>A line of the kernel: count, total and maximum of the times, and the symbols where the time was spent,
  of which the first one is the reason.\<close>

record lat_sample =
  ls_count :: u32
  ls_total :: u32
  ls_max :: u32
  ls_reason :: bytes
  ls_more :: bytes

definition sample_line :: "lat_sample \<Rightarrow> bytes" where
  "sample_line x = decimal (unat (ls_count x)) @ 32 # decimal (unat (ls_total x)) @ 32 # decimal (unat (ls_max x)) @
     32 # ls_reason x @ 32 # ls_more x"

definition stats_text :: "lat_sample list \<Rightarrow> bytes" where
  "stats_text xs = concat (map (\<lambda>l. l @ [10]) (butlast EXPECTED_VERSION # map sample_line xs))"

definition lat_sample_ok :: "lat_sample \<Rightarrow> bool" where
  "lat_sample_ok x \<longleftrightarrow> ls_count x < 2 ^ 31 \<and> ls_total x < 2 ^ 31 \<and> ls_max x < 2 ^ 31 \<and> word_ok (ls_reason x) \<and>
     (\<forall>c \<in> set (ls_more x). c \<noteq> 0 \<and> c \<noteq> 10) \<and> length (sample_line x) \<le> 510"

definition counts_in :: "lat_sample \<Rightarrow> bool" where
  "counts_in x \<longleftrightarrow> 0 < ls_max x \<or> 0 < ls_total x"

text \<open>The entries as a map from reasons to count, maximum and total.\<close>

definition lat_of :: "latency_entry list \<Rightarrow> bytes \<Rightarrow> (u32 \<times> u32 \<times> u32) option" where
  "lat_of l reason = map_option (\<lambda>e. (le_count e, le_max e, le_total e)) (find_latency_entry l reason)"

definition add_to :: "lat_sample \<Rightarrow> (u32 \<times> u32 \<times> u32) option \<Rightarrow> u32 \<times> u32 \<times> u32" where
  "add_to x old = (case old of
     None \<Rightarrow> (ls_count x, ls_max x, ls_total x)
   | Some (c, m, t) \<Rightarrow> (c + ls_count x, max m (ls_max x), t + ls_total x))"

definition tally :: "lat_sample \<Rightarrow> (bytes \<Rightarrow> (u32 \<times> u32 \<times> u32) option) \<Rightarrow> bytes \<Rightarrow> (u32 \<times> u32 \<times> u32) option" where
  "tally x f = (if counts_in x then f(ls_reason x \<mapsto> add_to x (f (ls_reason x))) else f)"

text \<open>What the samples of a reason amount to.\<close>

definition summary :: "lat_sample list \<Rightarrow> bytes \<Rightarrow> (u32 \<times> u32 \<times> u32) option" where
  "summary xs reason =
     (let g = filter (\<lambda>x. ls_reason x = reason \<and> counts_in x) xs in
      if g = [] then None
      else Some (sum_list (map ls_count g), Max (ls_max ` set g), sum_list (map ls_total g)))"

lemma tally_summary: "fold tally xs Map.empty = summary xs"
proof (induction xs rule: rev_induct)
  case Nil
  then show ?case by (simp add: summary_def fun_eq_iff)
next
  case (snoc x xs)
  have "tally x (summary xs) r = summary (xs @ [x]) r" for r
  proof (cases "ls_reason x = r \<and> counts_in x")
    case True
    let ?g = "filter (\<lambda>x. ls_reason x = r \<and> counts_in x) xs"
    have "Max (insert (ls_max x) (ls_max ` set ?g)) = max (Max (ls_max ` set ?g)) (ls_max x)" if "?g \<noteq> []"
    proof -
      have "ls_max ` set ?g \<noteq> {}" using that unfolding image_is_empty set_empty .
      from Max_insert [OF _ this, of "ls_max x"] show ?thesis by (simp only: max.commute finite_imageI List.finite_set)
    qed
    then show ?thesis using True by (auto simp: tally_def summary_def add_to_def Let_def simp del: set_filter)
  next
    case False
    then show ?thesis by (auto simp: tally_def summary_def Let_def)
  qed
  then have "tally x (summary xs) = summary (xs @ [x])" by (rule ext)
  then show ?case using snoc by simp
qed

lemma summary_repeat:
  assumes "0 < k"
  shows "summary (concat (replicate k xs)) r = map_option (\<lambda>(c, m, t). (of_nat k * c, m, of_nat k * t)) (summary xs r)"
proof -
  let ?P = "\<lambda>x. ls_reason x = r \<and> counts_in x"
  have f: "filter ?P (concat (replicate k xs)) = concat (replicate k (filter ?P xs))" by (simp add: filter_concat)
  have sum: "sum_list (map h (concat (replicate k ys))) = of_nat k * sum_list (map h ys)" for h :: "lat_sample \<Rightarrow> u32" and ys
    by (induction k) (simp_all add: distrib_right)
  have "set (concat (replicate k ys)) = set ys" for ys :: "lat_sample list" using assms by (induction k) auto
  moreover have "concat (replicate k ys) = [] \<longleftrightarrow> ys = []" for ys :: "lat_sample list" using assms by (cases k) auto
  ultimately show ?thesis unfolding summary_def f Let_def sum by (simp only: split: if_split) simp
qed

lemma store_u32: "w < 2 ^ 31 \<Longrightarrow> store_int (False, unat (w :: u32)) = Inr (int (unat w))"
  by (simp add: store_int_def word_less_nat_alt)

lemma scan_latency_line_back:
  assumes ok: "lat_sample_ok x"
  shows "scan_latency_line (sample_line x @ [10]) v =
    Inr (v\<lparr>rv_count := Some (ls_count x), rv_total := Some (ls_total x), rv_max := Some (ls_max x), rv_reason := Some (ls_reason x)\<rparr>)"
proof -
  have sp: "is_space 32" "\<not> is_digit 32" by code_simp+
  have dec: "scan_dec (decimal n @ 32 # r) = Some ((False, n), 32 # r)" for n r
    using scan_dec_decimal [of "32 # r" n] sp by simp
  have lt: "ls_count x < 2 ^ 31" "ls_total x < 2 ^ 31" "ls_max x < 2 ^ 31" "word_ok (ls_reason x)"
    using ok by (simp_all add: lat_sample_ok_def)
  note st = store_u32 [OF lt(1)] store_u32 [OF lt(2)] store_u32 [OF lt(3)]
  show ?thesis
    unfolding scan_latency_line_def sample_line_def append_assoc append_Cons
    by (simp add: dec sp lt(4) st scan_word Let_def)
qed

lemma sample_line_chars:
  assumes ok: "lat_sample_ok x"
  shows "10 \<notin> set (sample_line x)" "0 \<notin> set (sample_line x)"
proof -
  have "\<not> is_digit 0" "\<not> is_digit 10" "is_space 10" by code_simp+
  then have d: "0 \<notin> set (decimal n) \<and> 10 \<notin> set (decimal n)" for n using decimal_spec [of n] by metis
  have w: "0 \<notin> set (ls_reason x) \<and> 10 \<notin> set (ls_reason x)" "0 \<notin> set (ls_more x) \<and> 10 \<notin> set (ls_more x)"
    using ok \<open>is_space 10\<close> by (auto simp: lat_sample_ok_def word_ok_def)
  show "10 \<notin> set (sample_line x)" "0 \<notin> set (sample_line x)"
    unfolding sample_line_def set_append list.set using d w by auto
qed

lemma lat_of_Cons: "lat_of (e # l) r = (if le_reason e = r then Some (le_count e, le_max e, le_total e) else lat_of l r)"
  by (simp add: lat_of_def find_latency_entry_def)

lemma lat_of_Nil: "lat_of [] = Map.empty"
  by (simp add: lat_of_def find_latency_entry_def fun_eq_iff)

lemma lat_of_update:
  "find_latency_entry l reason = Some e \<Longrightarrow>
   lat_of (update_entry reason (add_sample c m t) l) =
     (lat_of l)(reason \<mapsto> (le_count e + c, max (le_max e) m, le_total e + t))"
proof (induction l)
  case (Cons a l)
  then show ?case
    by (cases "le_reason a = reason") (auto simp: lat_of_Cons find_latency_entry_def add_sample_def fun_eq_iff max_def)
qed (simp add: find_latency_entry_def)

lemma alloc_latency_entry_ok: "\<forall>h. \<not> env_oom env h \<Longrightarrow> \<exists>s'. alloc_latency_entry env s = Inr (Inr (), s')"
  by (cases "lt_free s") (simp_all add: alloc_latency_entry_def lt_alloc_def lt_simps)

definition vars_of :: "lat_sample \<Rightarrow> lt_vars" where
  "vars_of x = \<lparr>rv_count = Some (ls_count x), rv_total = Some (ls_total x), rv_max = Some (ls_max x), rv_reason = Some (ls_reason x)\<rparr>"

lemma use_sample_ok:
  assumes mem: "\<forall>h. \<not> env_oom env h"
  shows "\<exists>l' s'. use_sample env (vars_of x) l s = Inr (Inr l', s') \<and> lat_of l' = tally x (lat_of l)"
proof (cases "counts_in x")
  case False
  then show ?thesis by (simp add: use_sample_def vars_of_def defined_def counts_in_def tally_def lt_simps)
next
  case True
  then have go: "\<not> 0 < ls_total x \<longrightarrow> 0 < ls_max x" by (auto simp: counts_in_def)
  show ?thesis
  proof (cases "find_latency_entry l (ls_reason x)")
    case None
    obtain s1 where "alloc_latency_entry env s = Inr (Inr (), s1)" using alloc_latency_entry_ok [OF mem] by blast
    moreover have "lat_of l (ls_reason x) = None" using None by (simp add: lat_of_def)
    ultimately show ?thesis using None True go
      by (simp add: use_sample_def vars_of_def defined_def lt_simps tally_def)
        (simp add: lat_of_Cons add_to_def fun_eq_iff)
  next
    case (Some e)
    then show ?thesis using True go lat_of_update [OF Some]
      by (simp add: use_sample_def vars_of_def defined_def lt_simps tally_def) (simp add: lat_of_def add_to_def)
  qed
qed

lemma latency_lines_ok:
  assumes "\<forall>x \<in> set xs. lat_sample_ok x" and mem: "\<forall>h. \<not> env_oom env h"
  shows "\<exists>l' s'. latency_lines env (map (\<lambda>x. sample_line x @ [10]) xs) v l s = Inr (Inr l', s') \<and>
    lat_of l' = fold tally xs (lat_of l)"
  using assms(1)
proof (induction xs arbitrary: v l s)
  case Nil
  then show ?case by (simp add: lt_simps)
next
  case (Cons x xs)
  have x: "lat_sample_ok x" using Cons.prems by simp
  have "takeWhile (\<lambda>c. c \<noteq> 0) (sample_line x @ [10]) = sample_line x @ [10]"
    using sample_line_chars(2) [OF x] by (auto simp: takeWhile_eq_all_conv)
  then have scan: "scan_latency_line (takeWhile (\<lambda>c. c \<noteq> 0) (sample_line x @ [10])) v = Inr (vars_of x)"
    using scan_latency_line_back [OF x, of v] by (simp add: vars_of_def)
  obtain l1 s1 where u: "use_sample env (vars_of x) l s = Inr (Inr l1, s1)" "lat_of l1 = tally x (lat_of l)"
    using use_sample_ok [OF mem] by blast
  obtain l' s' where "latency_lines env (map (\<lambda>x. sample_line x @ [10]) xs) (vars_of x) l1 s1 = Inr (Inr l', s')"
    "lat_of l' = fold tally xs (lat_of l1)"
    using Cons by (metis list.set_intros(2))
  then show ?case using scan u by (simp add: lbnd_def llift_def)
qed

lemma read_latency_file_ok:
  assumes xs: "\<forall>x \<in> set xs. lat_sample_ok x" and mem: "\<forall>h. \<not> env_oom env h"
  shows "\<exists>l' s'. read_latency_file env (stats_text xs) l s = Inr (Inr l', s') \<and> lat_of l' = fold tally xs (lat_of l)"
proof -
  have ver: "10 \<notin> set (butlast EXPECTED_VERSION)" "0 \<notin> set EXPECTED_VERSION" "length (butlast EXPECTED_VERSION) \<le> 510"
    "butlast EXPECTED_VERSION @ [10] = EXPECTED_VERSION"
    by (simp_all add: EXPECTED_VERSION_def pm_str_def)
  have "\<forall>l \<in> set (butlast EXPECTED_VERSION # map sample_line xs). 10 \<notin> set l \<and> length l \<le> 510"
    using ver xs sample_line_chars(1) by (auto simp: lat_sample_ok_def)
  from fgets_lines_lines [OF this]
  have lines: "fgets_lines 510 (stats_text xs) = EXPECTED_VERSION # map (\<lambda>x. sample_line x @ [10]) xs"
    unfolding stats_text_def by (simp add: ver(4) comp_def)
  have "takeWhile (\<lambda>c. c \<noteq> 0) EXPECTED_VERSION = EXPECTED_VERSION" using ver(2) by (auto simp: takeWhile_eq_all_conv)
  then show ?thesis using latency_lines_ok [OF xs mem] by (simp add: read_latency_file_def lines)
qed

text \<open>An environment with three samples, two of them for the same reason, and a process with two threads, whose
  numbers \<^verbatim>\<open>readdir\<close> returns after the dot entries.\<close>

definition sample_stats :: "lat_sample list" where
  "sample_stats =
     [\<lparr>ls_count = 2, ls_total = 90, ls_max = 60, ls_reason = [102], ls_more = []\<rparr>,
      \<lparr>ls_count = 7, ls_total = 0, ls_max = 0, ls_reason = [103], ls_more = []\<rparr>,
      \<lparr>ls_count = 1, ls_total = 10, ls_max = 10, ls_reason = [102], ls_more = [104, 32, 105]\<rparr>]"

definition sample_env :: lt_env where
  "sample_env = \<lparr>env_writable = (\<lambda>_ _. True), env_read = (\<lambda>_ _. Some (stats_text sample_stats)),
     env_dir = (\<lambda>_ _. Some [[46], [46, 46], decimal 7, decimal 12]), env_oom = (\<lambda>_. False), env_signal = (\<lambda>_. True), env_zero_alloc = True,
     env_qsort = isort\<rparr>"

definition sample_st :: lt_st where
  "sample_st = \<lparr>lt_hist = [], lt_free = []\<rparr>"

lemma sample_stats_ok: "\<forall>x \<in> set sample_stats. lat_sample_ok x"
  unfolding sample_stats_def list.set ball_simps
  by (simp add: lat_sample_ok_def sample_line_def decimal.simps word_ok_def is_space_def)

lemma sample_env_facts: "\<forall>h. \<not> env_oom sample_env h" "\<forall>h. env_read sample_env h GLOBAL_STATS_FILE = Some (stats_text sample_stats)"
  "\<forall>h. env_dir sample_env h (proc_path 7 ''/task'') = Some [[46], [46, 46], decimal 7, decimal 12]"
  by (simp_all add: sample_env_def)

lemma sample_summary: "summary sample_stats [102] = Some (3, 60, 100)" "summary sample_stats [103] = None"
  by (simp_all add: summary_def sample_stats_def counts_in_def)

text \<open>
  Reading the statistics of the system. From the file that the kernel prints for its samples, one entry is
  made for each reason of a sample with a time, with the sums of counts and times and the largest of the
  maxima.
\<close>

theorem global_stats_summarised:
  assumes xs: "\<forall>x \<in> set xs. lat_sample_ok x" and mem: "\<forall>h. \<not> env_oom env h"
    and content: "\<forall>h. env_read env h GLOBAL_STATS_FILE = Some (stats_text xs)"
  shows "\<exists>e s'. read_global_stats env [] False s = Inr (Inr e, s') \<and> (\<forall>reason. lat_of e reason = summary xs reason)"
proof -
  let ?s = "s\<lparr>lt_hist := Ev_read GLOBAL_STATS_FILE # lt_hist s\<rparr>"
  obtain e s' where "read_latency_file env (stats_text xs) [] ?s = Inr (Inr e, s')" "lat_of e = summary xs"
    using read_latency_file_ok [OF xs mem, of "[]" ?s] by (auto simp: lat_of_Nil tally_summary)
  then show ?thesis using content by (simp add: read_global_stats_def open_file_def lt_simps)
qed

theorem global_stats_summarised_witness:
  "\<exists>e s'. read_global_stats sample_env [] False sample_st = Inr (Inr e, s') \<and>
     lat_of e [102] = Some (3, 60, 100) \<and> lat_of e [103] = None"
  using global_stats_summarised [OF sample_stats_ok sample_env_facts(1,2), of sample_st] sample_summary by metis

text \<open>An entry of the task directory that \<^verbatim>\<open>read_process_stats\<close> takes for a thread.\<close>

definition is_task :: "bytes \<Rightarrow> bool" where
  "is_task name \<longleftrightarrow> name \<noteq> [] \<and> is_digit (hd name)"

lemma thread_stats_ok:
  assumes xs: "\<forall>x \<in> set xs. lat_sample_ok x" and mem: "\<forall>h. \<not> env_oom env h"
    and content: "\<forall>h. env_read env h GLOBAL_STATS_FILE = Some (stats_text xs)"
    and erase: "erase \<longrightarrow> (\<forall>h. env_writable env h (THREAD_STATS_FILE pid tid))"
  shows "\<exists>e s'. read_thread_stats env l erase pid tid fatal s = Inr (Inr e, s') \<and> lat_of e = fold tally xs (lat_of l)"
proof -
  have rd: "\<exists>e s'. lbnd (open_file env GLOBAL_STATS_FILE) (\<lambda>f. case f of
      None \<Rightarrow> if fatal then lfail (No_thread_file (THREAD_STATS_FILE pid tid)) else lret l
    | Some text \<Rightarrow> read_latency_file env text l) s1 = Inr (Inr e, s') \<and> lat_of e = fold tally xs (lat_of l)" for s1
    using read_latency_file_ok [OF xs mem, of l "s1\<lparr>lt_hist := Ev_read GLOBAL_STATS_FILE # lt_hist s1\<rparr>"] content
    by (simp add: open_file_def lt_simps)
  obtain s1 where s1: "(if erase then write_file env (THREAD_STATS_FILE pid tid) erase_text else lret True) s = Inr (Inr True, s1)"
    using erase by (cases erase) (simp_all add: write_file_def lt_simps)
  have "read_thread_stats env l erase pid tid fatal s = lbnd (open_file env GLOBAL_STATS_FILE) (\<lambda>f. case f of
      None \<Rightarrow> if fatal then lfail (No_thread_file (THREAD_STATS_FILE pid tid)) else lret l
    | Some text \<Rightarrow> read_latency_file env text l) s1"
    using s1 unfolding read_thread_stats_def Let_def by (subst lbnd_def) simp
  then show ?thesis using rd [of s1] by simp
qed

lemma task_loop_global:
  assumes xs: "\<forall>x \<in> set xs. lat_sample_ok x" and mem: "\<forall>h. \<not> env_oom env h"
    and content: "\<forall>h. env_read env h GLOBAL_STATS_FILE = Some (stats_text xs)"
    and erase: "erase \<longrightarrow> (\<forall>h tid. env_writable env h (THREAD_STATS_FILE pid tid))"
    and names: "\<forall>name \<in> set names. is_task name \<longrightarrow> (\<exists>tid < 2 ^ 31. name = decimal tid)"
  shows "\<exists>e s'. task_loop env erase pid names l s = Inr (Inr e, s') \<and>
    lat_of e = fold tally (concat (replicate (length (filter is_task names)) xs)) (lat_of l)"
  using names
proof (induction names arbitrary: l s)
  case Nil
  then show ?case by (simp add: lt_simps)
next
  case (Cons name names)
  show ?case
  proof (cases "is_task name")
    case False
    then have "task_loop env erase pid (name # names) l s = task_loop env erase pid names l s" by (auto simp: is_task_def)
    then show ?thesis using Cons False by simp
  next
    case True
    then obtain t where t: "t < 2 ^ 31" "name = decimal t" using Cons.prems by auto
    have d: "name \<noteq> []" "is_digit (hd name)" using True by (simp_all add: is_task_def)
    have "atoi name = Inr (int t)" using scan_dec_decimal [of "[]" t] t by (simp add: atoi_def store_int_def)
    moreover have "erase \<longrightarrow> (\<forall>h. env_writable env h (THREAD_STATS_FILE pid (int t)))" using erase by blast
    then obtain e1 s1 where "read_thread_stats env l erase pid (int t) False s = Inr (Inr e1, s1)" "lat_of e1 = fold tally xs (lat_of l)"
      using thread_stats_ok [OF xs mem content] by blast
    moreover obtain e s' where "task_loop env erase pid names e1 s1 = Inr (Inr e, s')"
        "lat_of e = fold tally (concat (replicate (length (filter is_task names)) xs)) (lat_of e1)"
      using Cons by (metis list.set_intros(2))
    ultimately show ?thesis using d True by (simp add: lbnd_def llift_def)
  qed
qed

text \<open>
  C20. The report on a process is not about the process: it holds the statistics of the whole system, whatever the
  files of the threads say, with counts and total times multiplied by the number of its threads. This is so
  with the erasing of the first round and without it; the other entries that \<^verbatim>\<open>readdir\<close> returns for the task
  directory, such as \<^verbatim>\<open>.\<close> and \<^verbatim>\<open>..\<close>, do not count.
\<close>

theorem process_stats_are_global:
  assumes xs: "\<forall>x \<in> set xs. lat_sample_ok x" and mem: "\<forall>h. \<not> env_oom env h"
    and content: "\<forall>h. env_read env h GLOBAL_STATS_FILE = Some (stats_text xs)"
    and tasks: "\<forall>h. env_dir env h (proc_path pid ''/task'') = Some names"
      "\<forall>name \<in> set names. is_task name \<longrightarrow> (\<exists>tid < 2 ^ 31. name = decimal tid)"
    and threads: "k = length (filter is_task names)" "0 < k"
    and erase: "erase \<longrightarrow> (\<forall>h tid. env_writable env h (THREAD_STATS_FILE pid tid))"
  shows "\<exists>e s'. read_process_stats env [] erase pid s = Inr (Inr e, s') \<and>
    (\<forall>reason. lat_of e reason = map_option (\<lambda>(c, m, t). (of_nat k * c, m, of_nat k * t)) (summary xs reason))"
proof -
  let ?s = "s\<lparr>lt_hist := Ev_dir (proc_path pid ''/task'') # lt_hist s\<rparr>"
  obtain e s' where "task_loop env erase pid names [] ?s = Inr (Inr e, s')" and e: "lat_of e = summary (concat (replicate k xs))"
    using task_loop_global [OF xs mem content erase tasks(2), of "[]" ?s] by (auto simp only: lat_of_Nil tally_summary threads(1))
  then have "read_process_stats env [] erase pid s = Inr (Inr e, s')"
    using tasks(1) by (simp add: read_process_stats_def open_dir_def lt_simps)
  then show ?thesis using summary_repeat [OF threads(2), of xs] e by metis
qed

lemma sample_tasks:
  "\<forall>name \<in> set [[46], [46, 46], decimal 7, decimal 12]. is_task name \<longrightarrow> (\<exists>tid < 2 ^ 31. name = decimal tid)"
  "2 = length (filter is_task [[46], [46, 46], decimal 7, decimal 12])"
proof -
  have dots: "\<not> is_task [46]" "\<not> is_task [46, 46]" by code_simp+
  have seven: "is_task (decimal 7)" "is_task (decimal 12)" using decimal_spec [of 7] decimal_spec [of 12] by (simp_all add: is_task_def)
  show "2 = length (filter is_task [[46], [46, 46], decimal 7, decimal 12])" using dots seven by simp
  have "\<exists>tid < 2 ^ 31. decimal 7 = decimal tid" "\<exists>tid < 2 ^ 31. decimal 12 = decimal tid"
    by (rule exI [of _ 7], simp, rule exI [of _ 12], simp)
  then show "\<forall>name \<in> set [[46], [46, 46], decimal 7, decimal 12]. is_task name \<longrightarrow> (\<exists>tid < 2 ^ 31. name = decimal tid)"
    using dots by simp
qed

theorem process_stats_are_global_witness:
  "\<exists>e s'. read_process_stats sample_env [] True 7 sample_st = Inr (Inr e, s') \<and>
     lat_of e [102] = Some (6, 60, 200) \<and> lat_of e [103] = None"
proof -
  have er: "True \<longrightarrow> (\<forall>h tid. env_writable sample_env h (THREAD_STATS_FILE 7 tid))" by (simp add: sample_env_def)
  obtain e s' where r: "read_process_stats sample_env [] True 7 sample_st = Inr (Inr e, s')"
    and l: "\<forall>reason. lat_of e reason = map_option (\<lambda>(c, m, t). (of_nat 2 * c, m, of_nat 2 * t)) (summary sample_stats reason)"
    using process_stats_are_global [OF sample_stats_ok sample_env_facts(1,2,3) sample_tasks _ er, of sample_st] by auto
  have "lat_of e [102] = Some (6, 60, 200)" "lat_of e [103] = None" using l by (simp_all add: sample_summary)
  then show ?thesis using r by blast
qed

lemma print_loop_rows:
  assumes "\<forall>e \<in> set l. le_count e \<noteq> 0"
  shows "\<exists>s'. print_loop l s = Inr (Inr (), s') \<and> lt_hist s' = rev (map (\<lambda>e. Ev_print (projr (print_entry e))) l) @ lt_hist s"
  using assms
proof (induction l arbitrary: s)
  case (Cons e l)
  obtain t where t: "print_entry e = Inr t" using Cons.prems by (simp add: print_entry_def)
  then have "print_loop (e # l) s = print_loop l (s\<lparr>lt_hist := Ev_print t # lt_hist s\<rparr>)"
    by (simp add: lbnd_def llift_def emit_def)
  then show ?case using Cons.IH [of "s\<lparr>lt_hist := Ev_print t # lt_hist s\<rparr>"] Cons.prems t by auto
qed (simp add: lt_simps)

text \<open>
  The rows of the report are in the order of falling maxima and are those of the entries, for every
  \<^verbatim>\<open>qsort\<close> that meets its contract.
\<close>

theorem report_order:
  assumes law: "qsort_law (env_qsort env)" and mem: "\<not> env_oom env (lt_hist s)" "head \<noteq> [] \<or> env_zero_alloc env"
    and count: "\<forall>e \<in> set head. le_count e \<noteq> 0"
  shows "\<exists>rows s'. print_latency_entries env head s = Inr (Inr (), s') \<and> mset rows = mset head \<and>
    sorted (rev (map le_max rows)) \<and>
    lt_hist s' = rev (map (\<lambda>e. Ev_print (projr (print_entry e))) rows) @ Ev_print report_head # Ev_alloc # lt_hist s"
proof -
  let ?rows = "env_qsort env lat_cmp head"
  have cmp: "lat_cmp = (\<lambda>a b. - numcmp (uint (le_max a)) (uint (le_max b)))"
    by (auto simp: lat_cmp_def numcmp_def fun_eq_iff)
  have con: "consistent lat_cmp" unfolding cmp by (intro consistent_reverse consistent_numcmp)
  have "sorted (map (\<lambda>e. uint (le_max e)) (rev ?rows))" unfolding cmp by (rule qsort_law.descending [OF law])
  then have "sorted (map le_max (rev ?rows))" by (simp add: sorted_map word_le_def)
  then have sorted: "sorted (rev (map le_max ?rows))" by (simp add: rev_map)
  have "\<forall>e \<in> set ?rows. le_count e \<noteq> 0" using count qsort_law.qs_set [OF law con] by simp
  from print_loop_rows [OF this, of "s\<lparr>lt_hist := Ev_print report_head # Ev_alloc # lt_hist s\<rparr>"] obtain s' where
    "print_loop ?rows (s\<lparr>lt_hist := Ev_print report_head # Ev_alloc # lt_hist s\<rparr>) = Inr (Inr (), s')"
    "lt_hist s' = rev (map (\<lambda>e. Ev_print (projr (print_entry e))) ?rows) @ Ev_print report_head # Ev_alloc # lt_hist s"
    by auto
  moreover have "print_latency_entries env head s = print_loop ?rows (s\<lparr>lt_hist := Ev_print report_head # Ev_alloc # lt_hist s\<rparr>)"
    using mem by (auto simp: print_latency_entries_def lt_alloc_def lt_simps)
  ultimately show ?thesis using sorted qsort_law.qs_mset [OF law con] by metis
qed

theorem report_order_witness:
  "\<exists>(rows :: latency_entry list) s'. print_latency_entries sample_env
      [\<lparr>le_count = 1, le_max = 5, le_total = 5, le_reason = [97]\<rparr>, \<lparr>le_count = 2, le_max = 9, le_total = 12, le_reason = [98]\<rparr>]
      sample_st = Inr (Inr (), s') \<and> length rows = 2 \<and> sorted (rev (map le_max rows))"
proof -
  let ?l = "[\<lparr>le_count = 1, le_max = 5, le_total = 5, le_reason = [97]\<rparr>, \<lparr>le_count = 2, le_max = 9, le_total = 12, le_reason = [98]\<rparr>]
    :: latency_entry list"
  have "qsort_law (env_qsort sample_env)" by (simp add: sample_env_def isort.qsort_law_axioms)
  moreover have "\<not> env_oom sample_env (lt_hist sample_st)" "?l \<noteq> [] \<or> env_zero_alloc sample_env" "\<forall>e \<in> set ?l. le_count e \<noteq> 0"
    by (simp_all add: sample_env_def)
  ultimately obtain rows s' where "print_latency_entries sample_env ?l sample_st = Inr (Inr (), s')" "mset rows = mset ?l"
      "sorted (rev (map le_max rows))"
    using report_order [of sample_env sample_st ?l] by blast
  moreover have "length rows = 2" using mset_eq_length [OF calculation(2)] by simp
  ultimately show ?thesis by blast
qed

text \<open>A signal during the first sleep.\<close>

theorem latencytop_turns_off_witness:
  "\<exists>s'. latencytop_main sample_env 1 [] sample_st = Inr (Inl 0, s') \<and>
     ((\<exists>h. lt_hist s' = Ev_write SYSCTL_FILE [48, 10] # h) \<or> (\<exists>es. lt_hist s' = es @ lt_hist sample_st \<and> list_all no_write es))"
proof -
  have set: "set_latencytop sample_env n s = Inr (Inr (), s\<lparr>lt_hist := Ev_write SYSCTL_FILE (print_int n @ [10]) # lt_hist s\<rparr>)" for n s
    by (simp add: set_latencytop_def write_file_def sample_env_def lt_simps)
  have round: "lt_round sample_env opt b s = Inr (Inl 0, s\<lparr>lt_hist := Ev_sleep (opt_delay opt) # lt_hist s\<rparr>)" for opt b s
    by (simp add: lt_round_def lt_sleep_def sample_env_def lbnd_def emit_def lexit_def)
  obtain s' where run: "latencytop_main sample_env 1 [] sample_st = Inr (Inl 0, s')"
    by (simp add: latencytop_main_def with_atexit_def lt_body_def set round lbnd_def lret_def)
  show ?thesis using latencytop_turns_off [OF run] run by (intro exI [of _ s'] conjI)
qed

end
