(* ===== verification/Ranking.thy ===== *)
theory Ranking
  imports Pagemap Qsort
begin

text \<open>
  \<^verbatim>\<open>procrank\<close> and \<^verbatim>\<open>librank\<close>: clients of \<^verbatim>\<open>libpagemap\<close> that rank the processes by their memory,
  and the libraries by what all processes use of them. The operating system is that of \<^verbatim>\<open>libpagemap\<close>;
  \<^verbatim>\<open>qsort\<close>, \<^verbatim>\<open>strerror\<close> and the file \<^verbatim>\<open>/proc/meminfo\<close> are parameters too. The result is the
  exit status and the standard output; messages on the standard error are left out.
\<close>

section \<open>Programs that may exit\<close>

type_synonym 'a px = "(int + 'a) pm"

definition xret :: "'a \<Rightarrow> 'a px" where
  "xret x = pret (Inr x)"

definition xexit :: "int \<Rightarrow> 'a px" where
  "xexit c = pret (Inl c)"

definition xbnd :: "'a px \<Rightarrow> ('a \<Rightarrow> 'b px) \<Rightarrow> 'b px" where
  "xbnd m f = pbnd m (\<lambda>r. case r of Inl c \<Rightarrow> xexit c | Inr x \<Rightarrow> f x)"

definition xlift :: "'a pm \<Rightarrow> 'a px" where
  "xlift m = pbnd m (\<lambda>x. pret (Inr x))"

definition need :: "'a option \<Rightarrow> 'a px" where
  "need x = (case x of None \<Rightarrow> plift (Inl Undefined) | Some x \<Rightarrow> xret x)"

lemmas px_simps = xret_def xexit_def xbnd_def xlift_def need_def

text \<open>An allocation that ends the program when it fails.\<close>

definition must_alloc :: "pm_os \<Rightarrow> unit px" where
  "must_alloc os = xbnd (xlift (pm_alloc os)) (\<lambda>ok. if ok then xret () else xexit 1)"

section \<open>Sorting\<close>

datatype usage_field = Vss | Rss | Pss | Uss

fun field_of :: "usage_field \<Rightarrow> pm_memusage \<Rightarrow> u32" where
  "field_of Vss u = vss u" | "field_of Rss u = rss u" | "field_of Pss u = pss u" | "field_of Uss u = uss u"

definition sort_by :: "usage_field \<Rightarrow> int \<Rightarrow> ('a \<Rightarrow> pm_memusage) \<Rightarrow> 'a \<Rightarrow> 'a \<Rightarrow> int" where
  "sort_by f order usage a b = order * numcmp (uint (field_of f (usage a))) (uint (field_of f (usage b)))"

record proc_info =
  pr_pid :: int
  pr_usage :: pm_memusage

record process_info =
  pi_id :: nat
  pi_pid :: int
  pi_cmdline :: bytes

record mapping_info =
  mp_proc :: process_info
  mp_usage :: pm_memusage

record library_info =
  lib_name :: bytes
  lib_mappings :: "mapping_info list"
  lib_size :: nat
  lib_total :: pm_memusage

record rank_env =
  rk_os :: pm_os
  rk_meminfo :: "int + bytes option"
  rk_strerror :: "int \<Rightarrow> bytes"
  rk_sort_procs :: "(proc_info \<Rightarrow> proc_info \<Rightarrow> int) \<Rightarrow> proc_info list \<Rightarrow> proc_info list"
  rk_sort_libs :: "(library_info \<Rightarrow> library_info \<Rightarrow> int) \<Rightarrow> library_info list \<Rightarrow> library_info list"
  rk_sort_maps :: "(mapping_info \<Rightarrow> mapping_info \<Rightarrow> int) \<Rightarrow> mapping_info list \<Rightarrow> mapping_info list"

section \<open>Text\<close>

definition padded :: "nat \<Rightarrow> bytes \<Rightarrow> bytes" where
  "padded w t = replicate (w - length t) 32 @ t"

text \<open>\<^verbatim>\<open>  %6dK\<close> of a number of bytes in kilobytes.\<close>

definition kilo :: "u32 \<Rightarrow> bytes" where
  "kilo v = [32, 32] @ padded 6 (print_int (sint (v div 1024))) @ [75]"

section \<open>\<^verbatim>\<open>print_mem_info\<close>\<close>

definition mem_tags :: "bytes list" where
  "mem_tags = map pm_str [''MemTotal:'', ''MemFree:'', ''Buffers:'', ''Cached:'', ''Shmem:'', ''Slab:'']"

fun tag_index :: "bytes \<Rightarrow> bytes list \<Rightarrow> nat option" where
  "tag_index p [] = None"
| "tag_index p (t # ts) = (if take (length t) p = t then Some 0 else map_option Suc (tag_index p ts))"

text \<open>\<^verbatim>\<open>atoll\<close> of digits.\<close>

definition atoll_digits :: "bytes \<Rightarrow> u32 res" where
  "atoll_digits ds = (if digits_value ds < 2 ^ 63 then Inr (of_nat (digits_value ds)) else Inl Undefined)"

definition next_line :: "bytes \<Rightarrow> bytes" where
  "next_line p = tl (dropWhile (\<lambda>c. c \<noteq> 10) p)"

text \<open>\<open>p\<close> is the rest of the buffer up to its terminator. The character behind a number is overwritten by
  one and not looked at again.\<close>

definition after_number :: "bytes \<Rightarrow> bytes \<times> bytes" where
  "after_number p = (let p = dropWhile (\<lambda>c. c = 32) p in (takeWhile is_digit p, tl (dropWhile is_digit p)))"

lemma next_line_shorter: "p \<noteq> [] \<Longrightarrow> length (next_line p) < length p"
proof -
  assume "p \<noteq> []"
  then have "0 < length p" by simp
  moreover have "length (dropWhile (\<lambda>c. c \<noteq> 10) p) \<le> length p" by (rule length_dropWhile_le)
  ultimately show ?thesis unfolding next_line_def length_tl by linarith
qed

lemma after_number_shorter: "length (snd (after_number p)) \<le> length p"
  using length_dropWhile_le [of "\<lambda>c. c = 32" p] length_dropWhile_le [of is_digit "dropWhile (\<lambda>c. c = 32) p"]
  by (simp add: after_number_def Let_def)

lemma tag_index_tag: "tag_index p ts = Some i \<Longrightarrow> i < length ts \<and> take (length (ts ! i)) p = ts ! i"
  by (induction ts arbitrary: i) (auto split: if_splits)

lemma tagged_line_shorter:
  assumes p: "p \<noteq> []" and i: "tag_index p mem_tags = Some i"
  shows "length (next_line (snd (after_number (drop (length (mem_tags ! i)) p)))) < length p"
proof -
  let ?r = "snd (after_number (drop (length (mem_tags ! i)) p))"
  have "\<forall>t \<in> set mem_tags. 0 < length t" by (simp add: mem_tags_def pm_str_def)
  then have "0 < length (mem_tags ! i)" using tag_index_tag [OF i] by simp
  moreover have "length ?r \<le> length p - length (mem_tags ! i)" using after_number_shorter [of "drop (length (mem_tags ! i)) p"] by simp
  moreover have "length (next_line ?r) \<le> length ?r" using next_line_shorter [of ?r] by (cases "?r = []") (auto simp: next_line_def)
  moreover have "0 < length p" using p by simp
  ultimately show ?thesis by linarith
qed

function mem_loop :: "bytes \<Rightarrow> nat \<Rightarrow> u32 list \<Rightarrow> u32 list res" where
  "mem_loop p found vals =
     (if p = [] \<or> 6 \<le> found then Inr vals
      else
        (case tag_index p mem_tags of
           None \<Rightarrow> mem_loop (next_line p) found vals
         | Some i \<Rightarrow>
             let q = after_number (drop (length (mem_tags ! i)) p) in
             bnd (atoll_digits (fst q)) (\<lambda>v. mem_loop (next_line (snd q)) (found + 1) (vals[i := v]))))"
  by pat_completeness auto
termination
  by (relation "measure (\<lambda>(p, _). length p)") (auto simp: next_line_shorter tagged_line_shorter)

declare mem_loop.simps [simp del]

definition print_mem_info :: "rank_env \<Rightarrow> bytes res" where
  "print_mem_info env =
     (case rk_meminfo env of
        Inl e \<Rightarrow> Inr (pm_str ''Unable to open /proc/meminfo: '' @ rk_strerror env e @ [10])
      | Inr None \<Rightarrow> Inr (pm_str ''Empty /proc/meminfo'')
      | Inr (Some text) \<Rightarrow>
          bnd (mem_loop (takeWhile (\<lambda>c. c \<noteq> 0) (take 1023 text)) 0 (replicate 6 0)) (\<lambda>vals.
          Inr (pm_str ''RAM: '' @ print_int (sint (vals ! 0)) @ pm_str ''K total, '' @ print_int (sint (vals ! 1)) @ pm_str ''K free, '' @
            print_int (sint (vals ! 2)) @ pm_str ''K buffers, '' @ print_int (sint (vals ! 3)) @ pm_str ''K cached, '' @
            print_int (sint (vals ! 4)) @ pm_str ''K shmem, '' @ print_int (sint (vals ! 5)) @ pm_str ''K slab'' @ [10])))"

section \<open>\<^verbatim>\<open>procrank\<close>\<close>

datatype ws_mode = Ws_off | Ws_only | Ws_reset

record rank_opts =
  ro_field :: usage_field
  ro_order :: int
  ro_ws :: ws_mode

fun procrank_args :: "bytes list \<Rightarrow> rank_opts \<Rightarrow> int + rank_opts" where
  "procrank_args [] opt = Inr opt"
| "procrank_args (arg # args) opt =
     (if arg = pm_str ''-v'' then procrank_args args (opt\<lparr>ro_field := Vss\<rparr>)
      else if arg = pm_str ''-r'' then procrank_args args (opt\<lparr>ro_field := Rss\<rparr>)
      else if arg = pm_str ''-p'' then procrank_args args (opt\<lparr>ro_field := Pss\<rparr>)
      else if arg = pm_str ''-u'' then procrank_args args (opt\<lparr>ro_field := Uss\<rparr>)
      else if arg = pm_str ''-w'' then procrank_args args (opt\<lparr>ro_ws := Ws_only\<rparr>)
      else if arg = pm_str ''-W'' then procrank_args args (opt\<lparr>ro_ws := Ws_reset\<rparr>)
      else if arg = pm_str ''-R'' then procrank_args args (opt\<lparr>ro_order := ro_order opt * -1\<rparr>)
      else if arg = pm_str ''-h'' then Inl 0
      else Inl 1)"

definition measure_proc :: "pm_os \<Rightarrow> ws_mode \<Rightarrow> pm_process \<Rightarrow> (int \<times> pm_memusage option) pm" where
  "measure_proc os ws proc = (case ws of
     Ws_off \<Rightarrow> pm_process_usage os (Some proc) True
   | Ws_only \<Rightarrow> pm_process_workingset os (Some proc) True False
   | Ws_reset \<Rightarrow> pm_process_workingset os (Some proc) False True)"

text \<open>A process that cannot be measured keeps a use of zero.\<close>

definition rank_proc :: "pm_os \<Rightarrow> pm_kernel \<Rightarrow> ws_mode \<Rightarrow> int \<Rightarrow> proc_info px" where
  "rank_proc os ker ws pid =
     xbnd (must_alloc os) (\<lambda>_.
     xbnd (xlift (pm_process_create os (Some ker) pid True)) (\<lambda>(err, proc).
     if err \<noteq> 0 then xret \<lparr>pr_pid = pid, pr_usage = pm_memusage_zero\<rparr>
     else
       xbnd (need proc) (\<lambda>proc.
       xbnd (xlift (measure_proc os ws proc)) (\<lambda>(err, u).
       xbnd (xlift (pm_process_destroy (Some proc))) (\<lambda>_.
       xret \<lparr>pr_pid = pid, pr_usage = (case u of Some u \<Rightarrow> u | None \<Rightarrow> pm_memusage_zero)\<rparr>)))))"

fun rank_procs :: "pm_os \<Rightarrow> pm_kernel \<Rightarrow> ws_mode \<Rightarrow> int list \<Rightarrow> proc_info list px" where
  "rank_procs os ker ws [] = xret []"
| "rank_procs os ker ws (pid # pids) =
     xbnd (rank_proc os ker ws pid) (\<lambda>p. xbnd (rank_procs os ker ws pids) (\<lambda>ps. xret (p # ps)))"

text \<open>\<^verbatim>\<open>getprocname\<close> with a buffer of 256 bytes, which never returns a negative number.\<close>

definition getprocname :: "pm_os \<Rightarrow> int \<Rightarrow> bytes pm" where
  "getprocname os pid =
     pbnd (pm_alloc os) (\<lambda>ok.
     if \<not> ok then pret (pm_str ''<unknown>'')
     else (case os_fopen os (proc_path pid ''/cmdline'') of
         Inl e \<Rightarrow> pbnd (set_errno e) (\<lambda>_. pret (pm_str ''<unknown>''))
       | Inr text \<Rightarrow> pret (if text = [] then pm_str ''<unknown>'' else takeWhile (\<lambda>c. c \<noteq> 0) (fgets_take 255 text))))"

definition proc_row :: "bool \<Rightarrow> proc_info \<Rightarrow> bytes \<Rightarrow> bytes" where
  "proc_row ws p cmdline =
     padded 5 (print_int (pr_pid p)) @ (if ws then [] else kilo (vss (pr_usage p))) @ kilo (rss (pr_usage p)) @
     kilo (pss (pr_usage p)) @ kilo (uss (pr_usage p)) @ [32, 32] @ cmdline @ [10]"

fun proc_rows :: "pm_os \<Rightarrow> bool \<Rightarrow> proc_info list \<Rightarrow> u32 \<Rightarrow> u32 \<Rightarrow> bytes \<Rightarrow> (u32 \<times> u32 \<times> bytes) pm" where
  "proc_rows os ws [] total_pss total_uss out = pret (total_pss, total_uss, out)"
| "proc_rows os ws (p # ps) total_pss total_uss out =
     pbnd (getprocname os (pr_pid p)) (\<lambda>cmdline.
     proc_rows os ws ps (total_pss + pss (pr_usage p)) (total_uss + uss (pr_usage p)) (out @ proc_row ws p cmdline))"

definition proc_head :: "bool \<Rightarrow> bytes" where
  "proc_head ws = pm_str (if ws then ''  PID     WRss     WPss     WUss  cmdline'' else ''  PID      Vss      Rss      Pss      Uss  cmdline'') @ [10]"

definition proc_total :: "bool \<Rightarrow> u32 \<Rightarrow> u32 \<Rightarrow> bytes" where
  "proc_total ws total_pss total_uss =
     replicate (if ws then 14 else 23) 32 @ pm_str ''   ------   ------  ------'' @ [10] @
     replicate (if ws then 14 else 23) 32 @ kilo total_pss @ kilo total_uss @ pm_str ''  TOTAL'' @ [10]"

text \<open>The array of no processes is allocated like any other.\<close>

definition procrank_main :: "rank_env \<Rightarrow> bytes list \<Rightarrow> bytes px" where
  "procrank_main env args =
     (case procrank_args args \<lparr>ro_field = Pss, ro_order = -1, ro_ws = Ws_off\<rparr> of
        Inl c \<Rightarrow> xexit c
      | Inr opt \<Rightarrow>
          let os = rk_os env; ws = (ro_ws opt \<noteq> Ws_off) in
          xbnd (xlift (pm_kernel_create os True)) (\<lambda>(err, ker).
          if err \<noteq> 0 then xexit 1
          else
            xbnd (need ker) (\<lambda>ker.
            xbnd (xlift (pm_kernel_pids os)) (\<lambda>(err, pids).
            if err \<noteq> 0 then xexit 1
            else
              xbnd (need pids) (\<lambda>pids.
              xbnd (must_alloc os) (\<lambda>_.
              xbnd (rank_procs os ker (ro_ws opt) pids) (\<lambda>procs.
              if ro_ws opt = Ws_reset then xexit 0
              else
                let procs = rk_sort_procs env (sort_by (ro_field opt) (ro_order opt) pr_usage)
                              (filter (\<lambda>p. vss (pr_usage p) \<noteq> 0) procs) in
                xbnd (xlift (proc_rows os ws procs 0 0 (proc_head ws))) (\<lambda>(tp, tu, out).
                xbnd (xlift (plift (print_mem_info env))) (\<lambda>ram.
                xret (out @ proc_total ws tp tu @ [10] @ ram))))))))))"

section \<open>\<^verbatim>\<open>librank\<close>\<close>

definition library_name_blacklist :: "bytes list" where
  "library_name_blacklist = [pm_str ''[heap]'', pm_str ''[stack]'', []]"

text \<open>The array of libraries: whether its allocation succeeded, its elements and its size.\<close>

record lib_state =
  libs_ptr :: bool
  libraries :: "library_info list"
  libraries_size :: nat

fun index_where :: "('a \<Rightarrow> bool) \<Rightarrow> 'a list \<Rightarrow> nat option" where
  "index_where P [] = None"
| "index_where P (x # xs) = (if P x then Some 0 else map_option Suc (index_where P xs))"

text \<open>The library of a name, by its position; \<open>None\<close> for a name on the blacklist.\<close>

definition get_library :: "pm_os \<Rightarrow> bytes \<Rightarrow> lib_state \<Rightarrow> (nat option \<times> lib_state) px" where
  "get_library os name st =
     (if name \<in> set library_name_blacklist then xret (None, st)
      else (case index_where (\<lambda>l. lib_name l = name) (libraries st) of
          Some i \<Rightarrow> xret (Some i, st)
        | None \<Rightarrow>
            xbnd (if libraries_size st \<le> length (libraries st)
                  then xbnd (must_alloc os) (\<lambda>_. xret (st\<lparr>libs_ptr := True, libraries_size := 2 * libraries_size st\<rparr>))
                  else xret st) (\<lambda>st.
            xbnd (must_alloc os) (\<lambda>_.
            xbnd (must_alloc os) (\<lambda>_.
            xbnd (must_alloc os) (\<lambda>_.
            if \<not> libs_ptr st then xlift (plift (Inl Undefined))
            else xret (Some (length (libraries st)), st\<lparr>libraries := libraries st @
              [\<lparr>lib_name = name, lib_mappings = [], lib_size = 4, lib_total = pm_memusage_zero\<rparr>]\<rparr>)))))))"

definition get_mapping :: "pm_os \<Rightarrow> library_info \<Rightarrow> process_info \<Rightarrow> (nat \<times> library_info) px" where
  "get_mapping os lib proc =
     (case index_where (\<lambda>m. pi_id (mp_proc m) = pi_id proc) (lib_mappings lib) of
        Some i \<Rightarrow> xret (i, lib)
      | None \<Rightarrow>
          xbnd (if lib_size lib \<le> length (lib_mappings lib)
                then xbnd (must_alloc os) (\<lambda>_. xret (lib\<lparr>lib_size := 2 * lib_size lib\<rparr>)) else xret lib) (\<lambda>lib.
          xbnd (must_alloc os) (\<lambda>_.
          xret (length (lib_mappings lib),
            lib\<lparr>lib_mappings := lib_mappings lib @ [\<lparr>mp_proc = proc, mp_usage = pm_memusage_zero\<rparr>]\<rparr>))))"

text \<open>\<^verbatim>\<open>getprocname\<close>: the path is printed into 20 bytes. \<open>n\<close> numbers the structures.\<close>

definition get_process :: "pm_os \<Rightarrow> nat \<Rightarrow> int \<Rightarrow> process_info px" where
  "get_process os n pid =
     xbnd (must_alloc os) (\<lambda>_.
     if 20 \<le> length (proc_path pid ''/cmdline'') then xlift (plift (Inl Undefined))
     else xret \<lparr>pi_id = n, pi_pid = pid, pi_cmdline =
       (case os_fopen os (proc_path pid ''/cmdline'') of
          Inl _ \<Rightarrow> [] | Inr text \<Rightarrow> takeWhile (\<lambda>c. c \<noteq> 0) (fgets_take 255 text))\<rparr>)"

definition add_usage :: "pm_memusage \<Rightarrow> nat \<Rightarrow> library_info \<Rightarrow> library_info" where
  "add_usage u j lib =
     lib\<lparr>lib_mappings := (lib_mappings lib)[j := (lib_mappings lib ! j)\<lparr>mp_usage := pm_memusage_add (mp_usage (lib_mappings lib ! j)) u\<rparr>],
         lib_total := pm_memusage_add (lib_total lib) u\<rparr>"

fun count_maps :: "pm_os \<Rightarrow> bytes option \<Rightarrow> pm_process \<Rightarrow> process_info \<Rightarrow> pm_map list \<Rightarrow> lib_state \<Rightarrow> lib_state px" where
  "count_maps os prefix proc pi [] st = xret st"
| "count_maps os prefix proc pi (m # ms) st =
     (if (case prefix of None \<Rightarrow> False | Some p \<Rightarrow> take (length p) (map_name m) \<noteq> p) then count_maps os prefix proc pi ms st
      else
        xbnd (get_library os (map_name m) st) (\<lambda>(li, st). case li of
          None \<Rightarrow> count_maps os prefix proc pi ms st
        | Some i \<Rightarrow>
            xbnd (get_mapping os (libraries st ! i) pi) (\<lambda>(j, lib).
            xbnd (xlift (pm_map_usage os (Some (proc, m)) True)) (\<lambda>(err, u).
            if err \<noteq> 0 then xexit 1
            else
              xbnd (need u) (\<lambda>u.
              count_maps os prefix proc pi ms (st\<lparr>libraries := (libraries st)[i := add_usage u j lib]\<rparr>))))))"

fun count_procs :: "pm_os \<Rightarrow> bytes option \<Rightarrow> pm_kernel \<Rightarrow> nat \<Rightarrow> int list \<Rightarrow> lib_state \<Rightarrow> lib_state px" where
  "count_procs os prefix ker n [] st = xret st"
| "count_procs os prefix ker n (pid # pids) st =
     xbnd (xlift (pm_process_create os (Some ker) pid True)) (\<lambda>(err, proc).
     if err \<noteq> 0 then count_procs os prefix ker (n + 1) pids st
     else
       xbnd (need proc) (\<lambda>proc.
       xbnd (get_process os n pid) (\<lambda>pi.
       xbnd (xlift (pm_process_maps os (Some proc) True True)) (\<lambda>(err, maps).
       if err \<noteq> 0 then xexit 1
       else
         xbnd (need maps) (\<lambda>maps.
         xbnd (count_maps os prefix proc pi maps st) (\<lambda>st. count_procs os prefix ker (n + 1) pids st))))))"

record lib_opts =
  lo_prefix :: "bytes option"
  lo_field :: usage_field
  lo_order :: int

fun librank_args :: "bytes list \<Rightarrow> lib_opts \<Rightarrow> int + lib_opts" where
  "librank_args [] opt = Inr opt"
| "librank_args (arg # args) opt =
     (if arg = pm_str ''-P'' then
        (case args of [] \<Rightarrow> Inl 1 | p # args \<Rightarrow> librank_args args (opt\<lparr>lo_prefix := Some p\<rparr>))
      else if arg = pm_str ''-v'' then librank_args args (opt\<lparr>lo_field := Vss\<rparr>)
      else if arg = pm_str ''-r'' then librank_args args (opt\<lparr>lo_field := Rss\<rparr>)
      else if arg = pm_str ''-p'' then librank_args args (opt\<lparr>lo_field := Pss\<rparr>)
      else if arg = pm_str ''-u'' then librank_args args (opt\<lparr>lo_field := Uss\<rparr>)
      else if arg = pm_str ''-R'' then librank_args args (opt\<lparr>lo_order := lo_order opt * -1\<rparr>)
      else if arg = pm_str ''-h'' then Inl 0
      else Inl 1)"

definition licmp :: "int \<Rightarrow> library_info \<Rightarrow> library_info \<Rightarrow> int" where
  "licmp order a b = order * numcmp (uint (pss (lib_total a))) (uint (pss (lib_total b)))"

definition mapping_row :: "mapping_info \<Rightarrow> bytes" where
  "mapping_row m = replicate 7 32 @ kilo (vss (mp_usage m)) @ kilo (rss (mp_usage m)) @ kilo (pss (mp_usage m)) @
     kilo (uss (mp_usage m)) @ replicate 4 32 @ pi_cmdline (mp_proc m) @ [32, 91] @ print_int (pi_pid (mp_proc m)) @ [93, 10]"

definition library_rows :: "rank_env \<Rightarrow> lib_opts \<Rightarrow> library_info \<Rightarrow> bytes" where
  "library_rows env opt li =
     padded 6 (print_int (sint (pss (lib_total li) div 1024))) @ [75] @ replicate 38 32 @ lib_name li @ [10] @
     concat (map mapping_row (rk_sort_maps env (sort_by (lo_field opt) (lo_order opt) mp_usage) (lib_mappings li))) @ [10]"

definition librank_head :: bytes where
  "librank_head = pm_str '' RSStot      VSS      RSS      PSS      USS  Name/PID'' @ [10]"

definition librank_main :: "rank_env \<Rightarrow> bytes list \<Rightarrow> bytes px" where
  "librank_main env args =
     (case librank_args args \<lparr>lo_prefix = None, lo_field = Pss, lo_order = -1\<rparr> of
        Inl c \<Rightarrow> xexit c
      | Inr opt \<Rightarrow>
          let os = rk_os env in
          xbnd (xlift (pm_alloc os)) (\<lambda>ptr.
          xbnd (xlift (pm_kernel_create os True)) (\<lambda>(err, ker).
          if err \<noteq> 0 then xexit 1
          else
            xbnd (need ker) (\<lambda>ker.
            xbnd (xlift (pm_kernel_pids os)) (\<lambda>(err, pids).
            if err \<noteq> 0 then xexit 1
            else
              xbnd (need pids) (\<lambda>pids.
              xbnd (count_procs os (lo_prefix opt) ker 0 pids \<lparr>libs_ptr = ptr, libraries = [], libraries_size = 16\<rparr>) (\<lambda>st.
              xret (librank_head @ concat (map (library_rows env opt)
                (rk_sort_libs env (licmp (lo_order opt)) (libraries st)))))))))))"

section \<open>What \<^verbatim>\<open>librank\<close> adds up\<close>

text \<open>A visit: the name of a map, the number of the process and the use.\<close>

type_synonym visit = "bytes \<times> process_info \<times> pm_memusage"

definition usage_sum :: "pm_memusage list \<Rightarrow> pm_memusage" where
  "usage_sum us = \<lparr>vss = sum_list (map vss us), rss = sum_list (map rss us), pss = sum_list (map pss us), uss = sum_list (map uss us)\<rparr>"

definition name_uses :: "visit list \<Rightarrow> bytes \<Rightarrow> pm_memusage list" where
  "name_uses vs n = map (snd \<circ> snd) (filter (\<lambda>v. fst v = n) vs)"

definition proc_uses :: "visit list \<Rightarrow> bytes \<Rightarrow> nat \<Rightarrow> pm_memusage list" where
  "proc_uses vs n i = map (snd \<circ> snd) (filter (\<lambda>v. fst v = n \<and> pi_id (fst (snd v)) = i) vs)"

definition maps_ok :: "bytes \<Rightarrow> visit list \<Rightarrow> mapping_info list \<Rightarrow> bool" where
  "maps_ok n vs ms \<longleftrightarrow>
     distinct (map (pi_id \<circ> mp_proc) ms) \<and> mp_proc ` set ms \<subseteq> (fst \<circ> snd) ` set (filter (\<lambda>v. fst v = n) vs) \<and>
     (pi_id \<circ> mp_proc) ` set ms = (pi_id \<circ> fst \<circ> snd) ` set (filter (\<lambda>v. fst v = n) vs) \<and>
     (\<forall>m \<in> set ms. mp_usage m = usage_sum (proc_uses vs n (pi_id (mp_proc m))))"

definition libs_ok :: "visit list \<Rightarrow> library_info list \<Rightarrow> bool" where
  "libs_ok vs libs \<longleftrightarrow>
     distinct (map lib_name libs) \<and> lib_name ` set libs = fst ` set vs \<and>
     (\<forall>l \<in> set libs. lib_total l = usage_sum (name_uses vs (lib_name l)) \<and> maps_ok (lib_name l) vs (lib_mappings l))"

lemma usage_sum_snoc: "usage_sum (us @ [u]) = pm_memusage_add (usage_sum us) u"
  by (simp add: usage_sum_def pm_memusage_add_def)

lemma usage_sum_Nil: "usage_sum [] = pm_memusage_zero"
  by (simp add: usage_sum_def pm_memusage_zero_def)

lemma index_where_Some: "index_where P xs = Some i \<Longrightarrow> i < length xs \<and> P (xs ! i)"
  by (induction xs arbitrary: i) (auto split: if_splits)

lemma index_where_None: "index_where P xs = None \<Longrightarrow> \<forall>x \<in> set xs. \<not> P x"
  by (induction xs) (auto split: if_splits)

text \<open>The list of mappings after \<^verbatim>\<open>get_mapping\<close>.\<close>

definition mapping_at :: "process_info \<Rightarrow> mapping_info list \<Rightarrow> nat \<Rightarrow> mapping_info list \<Rightarrow> bool" where
  "mapping_at p ms j ms' \<longleftrightarrow>
     ms' = ms \<and> j < length ms \<and> pi_id (mp_proc (ms ! j)) = pi_id p \<or>
     pi_id p \<notin> (pi_id \<circ> mp_proc) ` set ms \<and> ms' = ms @ [\<lparr>mp_proc = p, mp_usage = pm_memusage_zero\<rparr>] \<and> j = length ms"

lemma maps_step:
  assumes ok: "maps_ok n vs ms" and at: "mapping_at p ms j ms'"
  shows "maps_ok n (vs @ [(n, p, u)]) (ms'[j := (ms' ! j)\<lparr>mp_usage := pm_memusage_add (mp_usage (ms' ! j)) u\<rparr>])"
proof -
  let ?f = "\<lambda>m. m\<lparr>mp_usage := pm_memusage_add (mp_usage m) u\<rparr>"
  have j: "j < length ms'" "pi_id (mp_proc (ms' ! j)) = pi_id p" using at by (auto simp: mapping_at_def)
  have dist: "distinct (map (pi_id \<circ> mp_proc) ms')" using ok at by (auto simp: maps_ok_def mapping_at_def)
  have procs: "map mp_proc (ms'[j := ?f (ms' ! j)]) = map mp_proc ms'" using j(1) by (simp add: map_update list_update_same_conv)
  then have ids: "map (pi_id \<circ> mp_proc) (ms'[j := ?f (ms' ! j)]) = map (pi_id \<circ> mp_proc) ms'" by (metis map_map)
  have zero: "proc_uses vs n i = []" if "i \<notin> (pi_id \<circ> mp_proc) ` set ms" for i
    using ok that by (auto simp: maps_ok_def proc_uses_def filter_empty_conv image_iff) metis
  have use': "\<forall>m \<in> set ms'. mp_usage m = usage_sum (proc_uses vs n (pi_id (mp_proc m)))"
    using at ok zero usage_sum_Nil by (auto simp: mapping_at_def maps_ok_def)
  have snoc: "proc_uses (vs @ [(n, p, u)]) n i = (if i = pi_id p then proc_uses vs n i @ [u] else proc_uses vs n i)" for i
    by (simp add: proc_uses_def)
  have "mp_usage m = usage_sum (proc_uses (vs @ [(n, p, u)]) n (pi_id (mp_proc m)))" if m: "m \<in> set (ms'[j := ?f (ms' ! j)])" for m
  proof -
    obtain k where k: "k < length ms'" "m = ms'[j := ?f (ms' ! j)] ! k" using m by (auto simp: in_set_conv_nth)
    show ?thesis
    proof (cases "k = j")
      case True
      then show ?thesis using k j use' by (simp add: snoc usage_sum_snoc)
    next
      case False
      then have "pi_id (mp_proc (ms' ! k)) \<noteq> pi_id p" using nth_eq_iff_index_eq [OF dist, of k j] j k(1) by simp
      then show ?thesis using k False use' by (simp add: snoc)
    qed
  qed
  moreover have "mp_proc ` set (ms'[j := ?f (ms' ! j)]) = mp_proc ` set ms'" using procs by (metis list.set_map)
  moreover have "(pi_id \<circ> mp_proc) ` set (ms'[j := ?f (ms' ! j)]) = (pi_id \<circ> mp_proc) ` set ms'" using ids by (metis list.set_map)
  moreover have "mp_proc ` set ms' \<subseteq> (fst \<circ> snd) ` set (filter (\<lambda>v. fst v = n) (vs @ [(n, p, u)]))"
  proof -
    let ?old = "(fst \<circ> snd) ` set (filter (\<lambda>v. fst v = n) vs)"
    have "mp_proc ` set ms \<subseteq> ?old" using ok unfolding maps_ok_def by (elim conjE)
    moreover have "mp_proc ` set ms' \<subseteq> insert p (mp_proc ` set ms)" using at by (auto simp: mapping_at_def)
    moreover have "(fst \<circ> snd) ` set (filter (\<lambda>v. fst v = n) (vs @ [(n, p, u)])) = insert p ?old" by simp
    ultimately show ?thesis by (metis (no_types) insert_mono subset_trans)
  qed
  moreover have "(pi_id \<circ> mp_proc) ` set ms' = (pi_id \<circ> fst \<circ> snd) ` set (filter (\<lambda>v. fst v = n) (vs @ [(n, p, u)]))"
  proof -
    have "(pi_id \<circ> mp_proc) ` set ms' = insert (pi_id p) ((pi_id \<circ> mp_proc) ` set ms)"
    proof (cases "ms' = ms")
      case True
      then have "pi_id p \<in> (pi_id \<circ> mp_proc) ` set ms" using j nth_mem by (metis comp_apply imageI)
      then show ?thesis using True by blast
    next
      case False
      then show ?thesis using at by (auto simp: mapping_at_def)
    qed
    then show ?thesis using ok by (auto simp: maps_ok_def)
  qed
  ultimately show ?thesis using dist ids by (simp add: maps_ok_def)
qed

text \<open>The array after \<^verbatim>\<open>get_library\<close>.\<close>

definition library_at :: "bytes \<Rightarrow> library_info list \<Rightarrow> nat \<Rightarrow> library_info list \<Rightarrow> bool" where
  "library_at n libs i libs' \<longleftrightarrow>
     libs' = libs \<and> i < length libs \<and> lib_name (libs ! i) = n \<or>
     n \<notin> lib_name ` set libs \<and> i = length libs \<and>
     libs' = libs @ [\<lparr>lib_name = n, lib_mappings = [], lib_size = 4, lib_total = pm_memusage_zero\<rparr>]"

definition lib_ok :: "visit list \<Rightarrow> library_info \<Rightarrow> bool" where
  "lib_ok vs l \<longleftrightarrow> lib_total l = usage_sum (name_uses vs (lib_name l)) \<and> maps_ok (lib_name l) vs (lib_mappings l)"

lemma lib_ok_other: "lib_name l \<noteq> n \<Longrightarrow> lib_ok (vs @ [(n, p, u)]) l = lib_ok vs l"
  by (auto simp: lib_ok_def name_uses_def maps_ok_def proc_uses_def)

lemma lib_ok_step:
  assumes ok: "lib_ok vs l" and l': "lib_name l' = lib_name l" "lib_total l' = lib_total l"
    and at: "mapping_at p (lib_mappings l) j (lib_mappings l')"
  shows "lib_ok (vs @ [(lib_name l, p, u)]) (add_usage u j l')"
  using ok l' maps_step [OF _ at] by (simp add: lib_ok_def add_usage_def name_uses_def usage_sum_snoc)

lemma libs_step:
  assumes ok: "libs_ok vs libs" and at: "library_at n libs i libs'"
    and l': "lib_name l' = n" "lib_total l' = lib_total (libs' ! i)" "mapping_at p (lib_mappings (libs' ! i)) j (lib_mappings l')"
  shows "libs_ok (vs @ [(n, p, u)]) (libs'[i := add_usage u j l'])"
proof -
  have i: "i < length libs'" "lib_name (libs' ! i) = n" using at by (auto simp: library_at_def)
  have dist: "distinct (map lib_name libs')" using ok at by (auto simp: libs_ok_def library_at_def)
  have names: "map lib_name (libs'[i := add_usage u j l']) = map lib_name libs'"
    using i l'(1) by (simp add: map_update list_update_same_conv add_usage_def)
  have none: "name_uses vs n = [] \<and> maps_ok n vs []" if "n \<notin> lib_name ` set libs"
  proof -
    have "filter (\<lambda>v. fst v = n) vs = []" using ok that by (auto simp: libs_ok_def filter_empty_conv)
    then show ?thesis by (simp add: name_uses_def maps_ok_def)
  qed
  then have all: "\<forall>l \<in> set libs'. lib_ok vs l"
    using ok at usage_sum_Nil by (auto simp: library_at_def libs_ok_def lib_ok_def)
  have "lib_ok (vs @ [(n, p, u)]) l" if l: "l \<in> set (libs'[i := add_usage u j l'])" for l
  proof -
    obtain k where k: "k < length libs'" "l = libs'[i := add_usage u j l'] ! k" using l by (auto simp: in_set_conv_nth)
    show ?thesis
    proof (cases "k = i")
      case True
      have "lib_ok (vs @ [(lib_name (libs' ! i), p, u)]) (add_usage u j l')"
        using all i l' by (intro lib_ok_step) simp_all
      then show ?thesis using True k i by simp
    next
      case False
      then have "lib_name (libs' ! k) \<noteq> n" using nth_eq_iff_index_eq [OF dist, of k i] i k(1) by simp
      then show ?thesis using False k all by (simp add: lib_ok_other)
    qed
  qed
  moreover have "lib_name ` set (libs'[i := add_usage u j l']) = lib_name ` set libs'" using names by (metis list.set_map)
  moreover have "lib_name ` set libs' = fst ` set (vs @ [(n, p, u)])"
  proof (cases "libs' = libs")
    case True
    then have "n \<in> lib_name ` set libs" using i by auto
    then show ?thesis using True ok by (auto simp: libs_ok_def)
  next
    case False
    then show ?thesis using at ok by (auto simp: library_at_def libs_ok_def)
  qed
  ultimately show ?thesis using dist names by (simp add: libs_ok_def lib_ok_def)
qed

subsection \<open>The code takes these steps\<close>

lemma must_alloc_ok: "\<forall>n. \<not> os_oom os n \<Longrightarrow> must_alloc os s = Inr (Inr (), s\<lparr>pm_allocs := pm_allocs s + 1\<rparr>)"
  by (simp add: must_alloc_def px_simps pm_simps pm_alloc_ok)

lemma get_library_ok:
  assumes mem: "\<forall>n. \<not> os_oom os n" and ptr: "libs_ptr st" and n: "n \<notin> set library_name_blacklist"
  shows "\<exists>i st' s'. get_library os n st s = Inr (Inr (Some i, st'), s') \<and> libs_ptr st' \<and> library_at n (libraries st) i (libraries st')"
proof (cases "index_where (\<lambda>l. lib_name l = n) (libraries st)")
  case None
  then have "n \<notin> lib_name ` set (libraries st)" using index_where_None [OF None] by auto
  then show ?thesis using None ptr n
    by (simp add: get_library_def px_simps pm_simps must_alloc_ok [OF mem] library_at_def)
next
  case (Some i)
  then show ?thesis using index_where_Some [OF Some] ptr n
    by (simp add: get_library_def px_simps pm_simps library_at_def)
qed

lemma get_mapping_ok:
  assumes mem: "\<forall>n. \<not> os_oom os n"
  shows "\<exists>j l' s'. get_mapping os l p s = Inr (Inr (j, l'), s') \<and> lib_name l' = lib_name l \<and> lib_total l' = lib_total l \<and>
    mapping_at p (lib_mappings l) j (lib_mappings l')"
proof (cases "index_where (\<lambda>m. pi_id (mp_proc m) = pi_id p) (lib_mappings l)")
  case None
  then have "pi_id p \<notin> (pi_id \<circ> mp_proc) ` set (lib_mappings l)" using index_where_None [OF None] by auto
  then show ?thesis using None
    by (simp add: get_mapping_def px_simps pm_simps must_alloc_ok [OF mem] mapping_at_def)
next
  case (Some i)
  then show ?thesis using index_where_Some [OF Some] by (simp add: get_mapping_def px_simps pm_simps mapping_at_def)
qed

definition selected :: "bytes option \<Rightarrow> bytes \<Rightarrow> bool" where
  "selected prefix n \<longleftrightarrow>
     (case prefix of None \<Rightarrow> True | Some p \<Rightarrow> take (length p) n = p) \<and> n \<notin> {pm_str ''[heap]'', pm_str ''[stack]'', []}"

definition map_visits :: "bytes option \<Rightarrow> process_info \<Rightarrow> (pm_map \<Rightarrow> pm_memusage) \<Rightarrow> pm_map list \<Rightarrow> visit list" where
  "map_visits prefix pi U ms = map (\<lambda>m. (map_name m, pi, U m)) (filter (\<lambda>m. selected prefix (map_name m)) ms)"

lemma count_maps_ok:
  assumes mem: "\<forall>n. \<not> os_oom os n"
    and "\<forall>m \<in> set ms. selected prefix (map_name m) \<longrightarrow> (\<forall>s. \<exists>s'. pm_map_usage os (Some (proc, m)) True s = Inr ((0, Some (U m)), s'))"
    and "libs_ptr st" and "libs_ok vs (libraries st)"
  shows "\<exists>st' s'. count_maps os prefix proc pi ms st s = Inr (Inr st', s') \<and> libs_ptr st' \<and>
    libs_ok (vs @ map_visits prefix pi U ms) (libraries st')"
  using assms(2-)
proof (induction ms arbitrary: st vs s)
  case Nil
  then show ?case by (simp add: px_simps pm_simps map_visits_def)
next
  case (Cons m ms)
  have use: "\<forall>m \<in> set ms. selected prefix (map_name m) \<longrightarrow> (\<forall>s. \<exists>s'. pm_map_usage os (Some (proc, m)) True s = Inr ((0, Some (U m)), s'))"
    using Cons.prems(1) by simp
  let ?n = "map_name m"
  show ?case
  proof (cases "selected prefix ?n")
    case False
    have "count_maps os prefix proc pi (m # ms) st s = count_maps os prefix proc pi ms st s"
    proof (cases "?n \<in> set library_name_blacklist")
      case True
      then show ?thesis by (simp add: get_library_def px_simps pm_simps split: option.splits)
    next
      case black: False
      then have "case prefix of None \<Rightarrow> False | Some p \<Rightarrow> take (length p) ?n \<noteq> p"
        using False by (auto simp: selected_def library_name_blacklist_def split: option.splits)
      then show ?thesis by simp
    qed
    then show ?thesis using Cons.IH [OF use Cons.prems(2,3), of s] False by (simp add: map_visits_def)
  next
    case True
    then have black: "?n \<notin> set library_name_blacklist" and pre: "\<not> (case prefix of None \<Rightarrow> False | Some p \<Rightarrow> take (length p) ?n \<noteq> p)"
      by (auto simp: selected_def library_name_blacklist_def split: option.splits)
    obtain i st1 s1 where lib: "get_library os ?n st s = Inr (Inr (Some i, st1), s1)" "libs_ptr st1"
        "library_at ?n (libraries st) i (libraries st1)"
      using get_library_ok [OF mem Cons.prems(2) black] by blast
    obtain j l s2 where mp: "get_mapping os (libraries st1 ! i) pi s1 = Inr (Inr (j, l), s2)" "lib_name l = lib_name (libraries st1 ! i)"
        "lib_total l = lib_total (libraries st1 ! i)" "mapping_at pi (lib_mappings (libraries st1 ! i)) j (lib_mappings l)"
      using get_mapping_ok [OF mem] by blast
    obtain s3 where u: "pm_map_usage os (Some (proc, m)) True s2 = Inr ((0, Some (U m)), s3)" using Cons.prems(1) True by (meson list.set_intros(1))
    let ?st = "st1\<lparr>libraries := (libraries st1)[i := add_usage (U m) j l]\<rparr>"
    have "lib_name l = ?n" using mp(2) lib(3) by (auto simp: library_at_def)
    then have "libs_ok (vs @ [(?n, pi, U m)]) (libraries ?st)"
      using libs_step [OF Cons.prems(3) lib(3) _ mp(3,4)] by simp
    from Cons.IH [OF use _ this, of s3] lib(2)
    obtain st' s' where "count_maps os prefix proc pi ms ?st s3 = Inr (Inr st', s')" "libs_ptr st'"
      "libs_ok (vs @ map_visits prefix pi U (m # ms)) (libraries st')"
      using True by (auto simp: map_visits_def)
    moreover have "count_maps os prefix proc pi (m # ms) st s = count_maps os prefix proc pi ms ?st s3"
      using pre lib(1) mp(1) u by (simp add: px_simps pm_simps)
    ultimately show ?thesis by metis
  qed
qed

text \<open>The structure that \<^verbatim>\<open>get_process\<close> makes.\<close>

definition process_of :: "pm_os \<Rightarrow> nat \<Rightarrow> int \<Rightarrow> process_info" where
  "process_of os n pid = \<lparr>pi_id = n, pi_pid = pid, pi_cmdline =
     (case os_fopen os (proc_path pid ''/cmdline'') of
        Inl _ \<Rightarrow> [] | Inr text \<Rightarrow> takeWhile (\<lambda>c. c \<noteq> 0) (fgets_take 255 text))\<rparr>"

fun all_visits :: "pm_os \<Rightarrow> bytes option \<Rightarrow> (int \<Rightarrow> pm_process) \<Rightarrow> (int \<Rightarrow> pm_map \<Rightarrow> pm_memusage) \<Rightarrow> nat \<Rightarrow> int list \<Rightarrow> visit list" where
  "all_visits os prefix P U n [] = []"
| "all_visits os prefix P U n (pid # pids) =
     map_visits prefix (process_of os n pid) (U pid) (proc_maps (P pid)) @ all_visits os prefix P U (n + 1) pids"

lemma decimal_length: "n < 10 ^ k \<Longrightarrow> 0 < k \<Longrightarrow> length (decimal n) \<le> k"
proof (induction n arbitrary: k rule: decimal.induct)
  case (1 n)
  show ?case
  proof (cases "n < 10")
    case False
    then obtain j where j: "k = Suc j" "0 < j" using 1(2,3) by (cases k; cases "k - 1") auto
    then have "n div 10 < 10 ^ j" using 1(2) by (simp add: less_mult_imp_div_less mult.commute)
    then show ?thesis using 1(1) [OF False _ j(2)] False j(1) by (subst decimal.simps) simp
  qed (use 1 in \<open>subst decimal.simps, simp\<close>)
qed

lemma count_procs_ok:
  assumes mem: "\<forall>n. \<not> os_oom os n"
    and "\<forall>pid \<in> set pids. 0 \<le> pid \<and> pid < 100000 \<and> (\<forall>s. \<exists>s'. pm_process_create os (Some ker) pid True s = Inr ((0, Some (P pid)), s'))"
    and "\<forall>pid \<in> set pids. \<forall>m \<in> set (proc_maps (P pid)). selected prefix (map_name m) \<longrightarrow>
      (\<forall>s. \<exists>s'. pm_map_usage os (Some (P pid, m)) True s = Inr ((0, Some (U pid m)), s'))"
    and "libs_ptr st" and "libs_ok vs (libraries st)"
  shows "\<exists>st' s'. count_procs os prefix ker n pids st s = Inr (Inr st', s') \<and>
    libs_ok (vs @ all_visits os prefix P U n pids) (libraries st')"
  using assms(2-)
proof (induction pids arbitrary: n st vs s)
  case Nil
  then show ?case by (simp add: px_simps pm_simps)
next
  case (Cons pid pids)
  obtain s1 where create: "pm_process_create os (Some ker) pid True s = Inr ((0, Some (P pid)), s1)" using Cons.prems(1) by auto
  have pid: "0 \<le> pid" "pid < 100000" using Cons.prems(1) by auto
  have "length (decimal (nat pid)) \<le> 5" using pid by (intro decimal_length) auto
  then have "length (proc_path pid ''/cmdline'') < 20" using pid by (simp add: proc_path_def pm_str_def print_int_def)
  then obtain s2 where proc: "get_process os n pid s1 = Inr (Inr (process_of os n pid), s2)"
    by (simp add: get_process_def must_alloc_ok [OF mem] px_simps pm_simps process_of_def)
  have "\<exists>s3. pm_process_maps os (Some (P pid)) True True s2 = Inr ((0, Some (proc_maps (P pid))), s3)"
    by (cases "proc_maps (P pid) = []") (simp_all add: pm_process_maps_def pm_simps pm_alloc_ok [OF mem])
  then obtain s3 where maps: "pm_process_maps os (Some (P pid)) True True s2 = Inr ((0, Some (proc_maps (P pid))), s3)" by blast
  obtain st1 s4 where cm: "count_maps os prefix (P pid) (process_of os n pid) (proc_maps (P pid)) st s3 = Inr (Inr st1, s4)"
      "libs_ptr st1" "libs_ok (vs @ map_visits prefix (process_of os n pid) (U pid) (proc_maps (P pid))) (libraries st1)"
    using count_maps_ok [OF mem _ Cons.prems(3,4), of "proc_maps (P pid)" prefix "P pid" "U pid" "process_of os n pid" s3] Cons.prems(2) by auto
  have "count_procs os prefix ker n (pid # pids) st s = count_procs os prefix ker (n + 1) pids st1 s4"
    using create proc maps cm(1) by (simp add: px_simps pm_simps)
  then show ?case using Cons.IH [OF _ _ cm(2,3), of "n + 1" s4] Cons.prems(1,2) by simp
qed

text \<open>What the visits say about a name and about a process.\<close>

definition uses_in :: "(int \<Rightarrow> pm_process) \<Rightarrow> (int \<Rightarrow> pm_map \<Rightarrow> pm_memusage) \<Rightarrow> bytes \<Rightarrow> int \<Rightarrow> pm_memusage list" where
  "uses_in P U n pid = map (U pid) (filter (\<lambda>m. map_name m = n) (proc_maps (P pid)))"

lemma map_visits_named:
  assumes "selected prefix n"
  shows "map (snd \<circ> snd) (filter (\<lambda>v. fst v = n) (map_visits prefix pi U ms)) = map U (filter (\<lambda>m. map_name m = n) ms)"
proof -
  have "filter (\<lambda>m. selected prefix (map_name m) \<and> map_name m = n) ms = filter (\<lambda>m. map_name m = n) ms"
    by (rule filter_cong) (use assms in auto)
  then show ?thesis by (simp add: map_visits_def filter_map comp_def conj_commute)
qed

lemma name_uses_all: "selected prefix n \<Longrightarrow> name_uses (all_visits os prefix P U k pids) n = concat (map (uses_in P U n) pids)"
  using map_visits_named [of prefix n] by (induction pids arbitrary: k) (simp_all add: name_uses_def uses_in_def)

lemma visit_procs: "v \<in> set (all_visits os prefix P U k pids) \<Longrightarrow>
    \<exists>i < length pids. fst (snd v) = process_of os (k + i) (pids ! i)"
proof (induction pids arbitrary: k)
  case (Cons pid pids)
  show ?case
  proof (cases "v \<in> set (all_visits os prefix P U (k + 1) pids)")
    case True
    then obtain i where "i < length pids" "fst (snd v) = process_of os (k + 1 + i) (pids ! i)" using Cons.IH by blast
    then show ?thesis by (intro exI [of _ "Suc i"]) simp
  next
    case False
    then have "fst (snd v) = process_of os k pid" using Cons.prems by (auto simp: map_visits_def)
    then show ?thesis by (intro exI [of _ 0]) simp
  qed
qed simp

lemma proc_uses_all:
  assumes "selected prefix n" "i < length pids"
  shows "proc_uses (all_visits os prefix P U k pids) n (k + i) = uses_in P U n (pids ! i)"
  using assms(2)
proof (induction pids arbitrary: k i)
  case (Cons pid pids)
  have head: "filter (\<lambda>v. fst v = n \<and> pi_id (fst (snd v)) = j) (map_visits prefix (process_of os k pid) (U pid) ms) =
      (if j = k then filter (\<lambda>v. fst v = n) (map_visits prefix (process_of os k pid) (U pid) ms) else [])" for j ms
  proof -
    have "\<forall>v \<in> set (map_visits prefix (process_of os k pid) (U pid) ms). pi_id (fst (snd v)) = k"
      by (auto simp: map_visits_def process_of_def)
    then show ?thesis by (auto simp: filter_empty_conv intro!: filter_cong)
  qed
  show ?case
  proof (cases i)
    case 0
    have "filter (\<lambda>v. fst v = n \<and> pi_id (fst (snd v)) = k) (all_visits os prefix P U (k + 1) pids) = []"
    proof -
      have "pi_id (fst (snd v)) \<noteq> k" if v: "v \<in> set (all_visits os prefix P U (k + 1) pids)" for v
      proof -
        obtain i where "fst (snd v) = process_of os (k + 1 + i) (pids ! i)" using visit_procs [OF v] by blast
        then have "pi_id (fst (snd v)) = k + 1 + i" by (simp only: process_of_def process_info.simps)
        then show ?thesis by simp
      qed
      then show ?thesis by (auto simp: filter_empty_conv)
    qed
    then show ?thesis using 0 head [of k] map_visits_named [OF assms(1)] by (simp add: proc_uses_def uses_in_def)
  next
    case (Suc j)
    have "proc_uses (all_visits os prefix P U (k + 1) pids) n (k + 1 + j) = uses_in P U n (pids ! j)"
      using Cons.IH [of j "k + 1"] Cons.prems Suc by simp
    then show ?thesis using Suc head [of "k + i"] by (simp add: proc_uses_def)
  qed
qed simp

lemma visit_names:
  "n \<in> fst ` set (all_visits os prefix P U k pids) \<longleftrightarrow>
   selected prefix n \<and> (\<exists>pid \<in> set pids. n \<in> map_name ` set (proc_maps (P pid)))"
proof (induction pids arbitrary: k)
  case (Cons pid pids)
  have "n \<in> fst ` set (map_visits prefix (process_of os k pid) (U pid) (proc_maps (P pid))) \<longleftrightarrow>
      selected prefix n \<and> n \<in> map_name ` set (proc_maps (P pid))"
    by (auto simp: map_visits_def image_iff)
  then show ?case using Cons.IH [of "k + 1"] by (simp only: all_visits.simps set_append image_Un Un_iff list.set bex_simps) blast
qed simp

subsection \<open>The report\<close>

lemma sort_by_sorted:
  fixes f :: "'a \<Rightarrow> u32"
  assumes law: "qsort_law qs" and order: "order = 1 \<or> order = -1"
  shows "consistent (\<lambda>a b. order * numcmp (uint (f a)) (uint (f b)))"
    "sorted (map f (if order = 1 then qs (\<lambda>a b. order * numcmp (uint (f a)) (uint (f b))) l
       else rev (qs (\<lambda>a b. order * numcmp (uint (f a)) (uint (f b))) l)))"
proof -
  have up: "sorted (map f xs) = sorted (map (\<lambda>x. uint (f x)) xs)" for xs :: "'a list" by (simp add: sorted_map word_le_def)
  show "consistent (\<lambda>a b. order * numcmp (uint (f a)) (uint (f b)))"
    using order consistent_numcmp [of "\<lambda>x. uint (f x)"] consistent_reverse [OF consistent_numcmp [of "\<lambda>x. uint (f x)"]] by auto
  show "sorted (map f (if order = 1 then qs (\<lambda>a b. order * numcmp (uint (f a)) (uint (f b))) l
       else rev (qs (\<lambda>a b. order * numcmp (uint (f a)) (uint (f b))) l)))"
    using order qsort_law.ascending [OF law, of "\<lambda>x. uint (f x)" l] qsort_law.descending [OF law, of "\<lambda>x. uint (f x)" l]
    unfolding up by auto
qed

lemma librank_args_order: "librank_args args opt = Inr opt' \<Longrightarrow> lo_order opt = 1 \<or> lo_order opt = -1 \<Longrightarrow> lo_order opt' = 1 \<or> lo_order opt' = -1"
proof (induction args opt rule: librank_args.induct)
  case (2 arg args opt)
  then show ?case by (auto split: if_splits list.splits)
qed simp

lemma procrank_args_order: "procrank_args args opt = Inr opt' \<Longrightarrow> ro_order opt = 1 \<or> ro_order opt = -1 \<Longrightarrow> ro_order opt' = 1 \<or> ro_order opt' = -1"
proof (induction args opt rule: procrank_args.induct)
  case (2 arg args opt)
  then show ?case by (auto split: if_splits)
qed simp

text \<open>A run whose processes can be examined: the processes \<open>P\<close> of the numbers \<open>pids\<close>.\<close>

definition system_ok :: "pm_os \<Rightarrow> pm_kernel \<Rightarrow> int list \<Rightarrow> (int \<Rightarrow> pm_process) \<Rightarrow> bool" where
  "system_ok os ker pids P \<longleftrightarrow>
     (\<forall>n. \<not> os_oom os n) \<and> (\<forall>s. \<exists>s'. pm_kernel_create os True s = Inr ((0, Some ker), s')) \<and>
     (\<forall>s. \<exists>s'. pm_kernel_pids os s = Inr ((0, Some pids), s')) \<and>
     (\<forall>pid \<in> set pids. \<forall>s. \<exists>s'. pm_process_create os (Some ker) pid True s = Inr ((0, Some (P pid)), s'))"

text \<open>
  A library with the sum of what all processes use of it, and with one mapping for each process that maps
  it: the process, with its number and its command line, and the sum of what it uses of the library.
\<close>

definition library_exact :: "pm_os \<Rightarrow> int list \<Rightarrow> (int \<Rightarrow> pm_process) \<Rightarrow> (int \<Rightarrow> pm_map \<Rightarrow> pm_memusage) \<Rightarrow> library_info \<Rightarrow> bool" where
  "library_exact os pids P U l \<longleftrightarrow>
     lib_total l = usage_sum (concat (map (uses_in P U (lib_name l)) pids)) \<and>
     distinct (map (pi_id \<circ> mp_proc) (lib_mappings l)) \<and>
     (pi_id \<circ> mp_proc) ` set (lib_mappings l) = {i. i < length pids \<and> lib_name l \<in> map_name ` set (proc_maps (P (pids ! i)))} \<and>
     (\<forall>m \<in> set (lib_mappings l). mp_proc m = process_of os (pi_id (mp_proc m)) (pids ! pi_id (mp_proc m)) \<and>
        mp_usage m = usage_sum (uses_in P U (lib_name l) (pids ! pi_id (mp_proc m))))"

lemma visit_ids:
  assumes "selected prefix n"
  shows "(pi_id \<circ> fst \<circ> snd) ` set (filter (\<lambda>v. fst v = n) (all_visits os prefix P U 0 pids)) =
    {i. i < length pids \<and> n \<in> map_name ` set (proc_maps (P (pids ! i)))}" (is "?I = ?J")
proof -
  let ?vs = "all_visits os prefix P U 0 pids"
  have id: "i \<in> ?I \<longleftrightarrow> proc_uses ?vs n i \<noteq> []" for i by (auto simp: proc_uses_def filter_empty_conv)
  have low: "i < length pids" if i: "i \<in> ?I" for i
  proof -
    obtain v where v: "v \<in> set ?vs" "i = pi_id (fst (snd v))" using i by auto
    then show ?thesis using visit_procs [OF v(1)] by (auto simp: process_of_def)
  qed
  have "uses_in P U n (pids ! i) \<noteq> [] \<longleftrightarrow> n \<in> map_name ` set (proc_maps (P (pids ! i)))" for i
    by (auto simp: uses_in_def filter_empty_conv)
  then have "i \<in> ?I \<longleftrightarrow> i \<in> ?J" for i
    using id [of i] low [of i] proc_uses_all [OF assms, of i pids os P U 0] by (cases "i < length pids") auto
  then show ?thesis by blast
qed

lemma libs_exact:
  assumes ok: "libs_ok (all_visits os prefix P U 0 pids) libs" and l: "l \<in> set libs"
  shows "library_exact os pids P U l"
proof -
  let ?vs = "all_visits os prefix P U 0 pids"
  have "lib_name l \<in> fst ` set ?vs" using ok l by (auto simp: libs_ok_def)
  then have sel: "selected prefix (lib_name l)" by (simp only: visit_names)
  have lib: "lib_total l = usage_sum (name_uses ?vs (lib_name l))" "maps_ok (lib_name l) ?vs (lib_mappings l)"
    using ok l by (auto simp: libs_ok_def)
  have "mp_proc m = process_of os (pi_id (mp_proc m)) (pids ! pi_id (mp_proc m)) \<and>
      mp_usage m = usage_sum (uses_in P U (lib_name l) (pids ! pi_id (mp_proc m)))" if m: "m \<in> set (lib_mappings l)" for m
  proof -
    have "mp_proc m \<in> (fst \<circ> snd) ` set (filter (\<lambda>v. fst v = lib_name l) ?vs)" using lib(2) m unfolding maps_ok_def by blast
    then obtain v where v: "v \<in> set ?vs" "mp_proc m = fst (snd v)" by auto
    obtain i where i: "i < length pids" "mp_proc m = process_of os i (pids ! i)" using visit_procs [OF v(1)] v(2) by auto
    then have p: "pi_id (mp_proc m) = i" by (simp add: process_of_def)
    have "mp_usage m = usage_sum (proc_uses ?vs (lib_name l) i)" using lib(2) m p by (auto simp: maps_ok_def)
    then show ?thesis using p i proc_uses_all [OF sel i(1), of os P U 0] by simp
  qed
  then show ?thesis
    using lib name_uses_all [OF sel] visit_ids [OF sel, of os P U pids] by (simp add: library_exact_def maps_ok_def)
qed

text \<open>The lines that the report has for a library: one with its total and its name, one for each of the
  mappings \<open>ms\<close>, and an empty one.\<close>

definition report_lines :: "library_info \<times> mapping_info list \<Rightarrow> bytes" where
  "report_lines lm = (case lm of (l, ms) \<Rightarrow>
     padded 6 (print_int (sint (pss (lib_total l) div 1024))) @ [75] @ replicate 38 32 @ lib_name l @ [10] @
     concat (map mapping_row ms) @ [10])"

text \<open>
  C16. The report of \<^verbatim>\<open>librank\<close>. When the processes can be examined, it prints every library that the
  selected maps name exactly once, in the order of the proportional shares, with the sum of the proportional
  shares of all processes (in the column that its heading calls \<^verbatim>\<open>RSStot\<close>), and under it, in the order of
  the field asked for, one line for each process that maps the library and no other, with the process's
  number, command line and the sum of what it uses of the library.
\<close>

theorem librank_report:
  assumes law: "qsort_law (rk_sort_libs env)" and law_maps: "qsort_law (rk_sort_maps env)"
    and sys: "system_ok (rk_os env) ker pids P" and pids: "\<forall>pid \<in> set pids. 0 \<le> pid \<and> pid < 100000"
    and args: "librank_args args \<lparr>lo_prefix = None, lo_field = Pss, lo_order = -1\<rparr> = Inr opt"
    and uses: "\<forall>pid \<in> set pids. \<forall>m \<in> set (proc_maps (P pid)). selected (lo_prefix opt) (map_name m) \<longrightarrow>
      (\<forall>s. \<exists>s'. pm_map_usage (rk_os env) (Some (P pid, m)) True s = Inr ((0, Some (U pid m)), s'))"
  shows "\<exists>libs s'. librank_main env args s = Inr (Inr (librank_head @ concat (map report_lines libs)), s') \<and>
    distinct (map (lib_name \<circ> fst) libs) \<and>
    (\<forall>n. n \<in> (lib_name \<circ> fst) ` set libs \<longleftrightarrow>
       selected (lo_prefix opt) n \<and> (\<exists>pid \<in> set pids. n \<in> map_name ` set (proc_maps (P pid)))) \<and>
    sorted (map (pss \<circ> lib_total \<circ> fst) (if lo_order opt = 1 then libs else rev libs)) \<and>
    (\<forall>(l, ms) \<in> set libs. library_exact (rk_os env) pids P U l \<and> mset ms = mset (lib_mappings l) \<and>
       sorted (map (field_of (lo_field opt) \<circ> mp_usage) (if lo_order opt = 1 then ms else rev ms)))"
proof -
  let ?os = "rk_os env" and ?vs = "all_visits (rk_os env) (lo_prefix opt) P U 0 pids"
  have mem: "\<forall>n. \<not> os_oom ?os n" using sys by (simp add: system_ok_def)
  have order: "lo_order opt = 1 \<or> lo_order opt = -1" using librank_args_order [OF args] by simp
  obtain s1 where s1: "pm_alloc ?os s = Inr (True, s1)" using pm_alloc_ok [OF mem] by blast
  obtain s2 where s2: "pm_kernel_create ?os True s1 = Inr ((0, Some ker), s2)" using sys unfolding system_ok_def by blast
  obtain s3 where s3: "pm_kernel_pids ?os s2 = Inr ((0, Some pids), s3)" using sys unfolding system_ok_def by blast
  have create: "\<forall>pid \<in> set pids. 0 \<le> pid \<and> pid < 100000 \<and>
      (\<forall>s. \<exists>s'. pm_process_create ?os (Some ker) pid True s = Inr ((0, Some (P pid)), s'))"
    using sys pids by (simp add: system_ok_def)
  obtain st s4 where s4: "count_procs ?os (lo_prefix opt) ker 0 pids \<lparr>libs_ptr = True, libraries = [], libraries_size = 16\<rparr> s3 = Inr (Inr st, s4)"
      and ok: "libs_ok ?vs (libraries st)"
    using count_procs_ok [OF mem create uses, of "\<lparr>libs_ptr = True, libraries = [], libraries_size = 16\<rparr>" "[]" 0 s3] by (auto simp: libs_ok_def)
  define libs where "libs = rk_sort_libs env (licmp (lo_order opt)) (libraries st)"
  have cmp: "licmp (lo_order opt) = (\<lambda>a b. lo_order opt * numcmp (uint ((pss \<circ> lib_total) a)) (uint ((pss \<circ> lib_total) b)))"
    by (simp add: licmp_def fun_eq_iff)
  note sorted = sort_by_sorted [OF law order, of "pss \<circ> lib_total"]
  have mset: "mset libs = mset (libraries st)" unfolding libs_def cmp by (rule qsort_law.qs_mset [OF law sorted(1)])
  then have set: "set libs = set (libraries st)" by (rule mset_eq_setD)
  have "distinct (map lib_name libs)"
    using ok mset by (metis libs_ok_def mset_eq_imp_distinct_iff mset_map)
  moreover have "\<forall>n. n \<in> lib_name ` set libs \<longleftrightarrow> n \<in> fst ` set ?vs" using ok set by (simp add: libs_ok_def)
  moreover have "sorted (map (pss \<circ> lib_total) (if lo_order opt = 1 then libs else rev libs))"
    using sorted(2) [of "libraries st"] unfolding libs_def cmp .
  moreover define sm where "sm = rk_sort_maps env (sort_by (lo_field opt) (lo_order opt) mp_usage)"
  have fcmp: "sort_by (lo_field opt) (lo_order opt) mp_usage =
      (\<lambda>a b. lo_order opt * numcmp (uint ((field_of (lo_field opt) \<circ> mp_usage) a)) (uint ((field_of (lo_field opt) \<circ> mp_usage) b)))"
    by (simp add: sort_by_def fun_eq_iff)
  note fsorted = sort_by_sorted [OF law_maps order, of "field_of (lo_field opt) \<circ> mp_usage", folded fcmp, folded sm_def]
  have rows: "library_rows env opt = (\<lambda>l. report_lines (l, sm (lib_mappings l)))"
    by (simp add: fun_eq_iff library_rows_def report_lines_def sm_def)
  have "librank_main env args s = Inr (Inr (librank_head @ concat (map report_lines (map (\<lambda>l. (l, sm (lib_mappings l))) libs))), s4)"
    using s1 s2 s3 s4 by (simp add: librank_main_def args px_simps pm_simps libs_def Let_def rows comp_def)
  moreover have "\<forall>l \<in> set libs. library_exact ?os pids P U l" using libs_exact [OF ok] set by simp
  moreover have "mset (sm l) = mset l" for l unfolding sm_def by (rule qsort_law.qs_mset [OF law_maps fsorted(1)])
  moreover note fsorted(2)
  ultimately show ?thesis unfolding visit_names
    by (intro exI [of _ "map (\<lambda>l. (l, sm (lib_mappings l))) libs"] exI [of _ s4])
      (cases "lo_order opt = 1"; simp add: comp_def image_image rev_map)
qed

section \<open>What \<^verbatim>\<open>procrank\<close> reports\<close>

lemma rank_procs_ok:
  assumes mem: "\<forall>n. \<not> os_oom os n"
    and "\<forall>pid \<in> set pids. \<forall>s. \<exists>s'. pm_process_create os (Some ker) pid True s = Inr ((0, Some (P pid)), s')"
    and "\<forall>pid \<in> set pids. \<forall>s. \<exists>s'. pm_process_usage os (Some (P pid)) True s = Inr ((0, Some (U pid)), s')"
  shows "\<exists>s'. rank_procs os ker Ws_off pids s = Inr (Inr (map (\<lambda>pid. \<lparr>pr_pid = pid, pr_usage = U pid\<rparr>) pids), s')"
  using assms(2-)
proof (induction pids arbitrary: s)
  case Nil
  then show ?case by (simp add: px_simps pm_simps)
next
  case (Cons pid pids)
  let ?s = "s\<lparr>pm_allocs := pm_allocs s + 1\<rparr>"
  obtain s1 where s1: "pm_process_create os (Some ker) pid True ?s = Inr ((0, Some (P pid)), s1)"
    using Cons.prems(1) by (meson list.set_intros(1))
  obtain s2 where s2: "pm_process_usage os (Some (P pid)) True s1 = Inr ((0, Some (U pid)), s2)"
    using Cons.prems(2) by (meson list.set_intros(1))
  obtain s3 where "rank_proc os ker Ws_off pid s = Inr (Inr \<lparr>pr_pid = pid, pr_usage = U pid\<rparr>, s3)"
    using s1 s2 by (simp add: rank_proc_def must_alloc_ok [OF mem] measure_proc_def px_simps pm_simps pm_process_destroy_def pm_close_def)
  moreover obtain s4 where "rank_procs os ker Ws_off pids s3 = Inr (Inr (map (\<lambda>pid. \<lparr>pr_pid = pid, pr_usage = U pid\<rparr>) pids), s4)"
    using Cons.IH Cons.prems by (meson list.set_intros(2))
  ultimately show ?case by (simp add: px_simps pm_simps)
qed

lemma getprocname_returns: "\<exists>name s'. getprocname os pid s = Inr (name, s')"
  by (cases "os_oom os (pm_allocs s)"; cases "os_fopen os (proc_path pid ''/cmdline'')")
    (simp_all add: getprocname_def pm_alloc_def pm_simps)

lemma proc_rows_ok:
  "\<exists>names s'. proc_rows os ws ps tp tu out s =
     Inr ((tp + sum_list (map (pss \<circ> pr_usage) ps), tu + sum_list (map (uss \<circ> pr_usage) ps),
       out @ concat (map2 (proc_row ws) ps names)), s') \<and> length names = length ps"
proof (induction ps arbitrary: tp tu out s)
  case Nil
  then show ?case by (simp add: pm_simps)
next
  case (Cons p ps)
  obtain nm s1 where nm: "getprocname os (pr_pid p) s = Inr (nm, s1)" using getprocname_returns by blast
  obtain names s' where "proc_rows os ws ps (tp + pss (pr_usage p)) (tu + uss (pr_usage p)) (out @ proc_row ws p nm) s1 =
     Inr ((tp + pss (pr_usage p) + sum_list (map (pss \<circ> pr_usage) ps), tu + uss (pr_usage p) + sum_list (map (uss \<circ> pr_usage) ps),
       (out @ proc_row ws p nm) @ concat (map2 (proc_row ws) ps names)), s')" "length names = length ps"
    using Cons by blast
  then show ?case using nm by (intro exI [of _ "nm # names"] exI [of _ s']) (simp add: pbnd_def add.assoc comp_def)
qed

lemma unat_sum_list:
  fixes xs :: "u32 list"
  shows "sum_list (map unat xs) < 2 ^ 32 \<Longrightarrow> unat (sum_list xs) = sum_list (map unat xs)"
proof (induction xs)
  case (Cons x xs)
  then have "unat (sum_list xs) = sum_list (map unat xs)" by simp
  then show ?case using Cons.prems unat_add_is [of x "sum_list xs"] by simp
qed simp

text \<open>The sums over all processes.\<close>

lemma usage_sums:
  assumes "\<forall>pid \<in> set pids. usage_is p (counts os ker (F pid)) (U pid)"
  shows "sum_list (map (\<lambda>pid. unat (pss (U pid))) pids) = sum_list (map (\<lambda>c. p div c) (counts os ker (concat (map F pids))))"
    and "sum_list (map (\<lambda>pid. unat (uss (U pid))) pids) = p * length (filter (\<lambda>c. c = 1) (counts os ker (concat (map F pids))))"
  using assms by (induction pids) (simp_all add: usage_is_def distrib_left)

text \<open>Leaving out the processes without memory does not change the sums.\<close>

lemma sum_listed:
  fixes f :: "proc_info \<Rightarrow> u32"
  assumes rows: "mset rows = mset (filter (\<lambda>p. vss (pr_usage p) \<noteq> 0) ps)" and zero: "\<forall>p \<in> set ps. vss (pr_usage p) = 0 \<longrightarrow> f p = 0"
  shows "sum_list (map f rows) = sum_list (map f ps)"
proof -
  have "mset (map f rows) = mset (map f (filter (\<lambda>p. vss (pr_usage p) \<noteq> 0) ps))" unfolding mset_map rows ..
  then have "sum_list (map f rows) = sum_list (map f (filter (\<lambda>p. vss (pr_usage p) \<noteq> 0) ps))"
    unfolding sum_mset_sum_list [symmetric] by (rule arg_cong)
  also have "\<dots> = sum_list (map f ps)" using zero by (induction ps) auto
  finally show ?thesis .
qed

lemma usages_chosen:
  assumes mem: "\<forall>n. \<not> os_oom os n" and snap: "\<forall>pid \<in> set pids. proc_ker (P pid) = ker \<and> snapshot_ok os (P pid)"
  obtains U where "\<forall>pid \<in> set pids. usage_is (unat (pagesize ker)) (counts os ker (proc_frames os (P pid))) (U pid)"
    and "\<forall>pid \<in> set pids. \<forall>s. \<exists>s'. pm_process_usage os (Some (P pid)) True s = Inr ((0, Some (U pid)), s')"
proof -
  let ?p = "unat (pagesize ker)"
  have "\<forall>pid \<in> set pids. \<exists>u. usage_is ?p (counts os ker (proc_frames os (P pid))) u \<and>
      (\<forall>s. \<exists>s'. pm_process_usage os (Some (P pid)) True s = Inr ((0, Some u), s'))"
  proof
    fix pid assume "pid \<in> set pids"
    then have k: "proc_ker (P pid) = ker" "snapshot_ok os (P pid)" using snap by auto
    note r = pm_process_usage_result [OF k(2) mem, unfolded k(1)]
    obtain u where u: "usage_is ?p (counts os ker (proc_frames os (P pid))) u" using r [of undefined] by blast
    then show "\<exists>u. usage_is ?p (counts os ker (proc_frames os (P pid))) u \<and>
        (\<forall>s. \<exists>s'. pm_process_usage os (Some (P pid)) True s = Inr ((0, Some u), s'))"
      using r usage_is_unique [OF u] by blast
  qed
  from bchoice [OF this] show ?thesis using that by blast
qed

text \<open>The rows and the sums of the report, for processes whose uses are known.\<close>

lemma listed_rows:
  assumes U: "\<forall>pid \<in> set pids. usage_is p (counts os ker (F pid)) (U pid)"
    and rows: "mset rows = mset (filter (\<lambda>r. vss (pr_usage r) \<noteq> 0) (map (\<lambda>pid. \<lparr>pr_pid = pid, pr_usage = U pid\<rparr>) pids))"
  shows "mset (map pr_pid rows) = mset (filter (\<lambda>pid. 0 < p * length (F pid)) pids)"
    and "\<forall>r \<in> set rows. usage_is p (counts os ker (F (pr_pid r))) (pr_usage r)"
    and "sum_list (map (unat \<circ> pss \<circ> U) pids) < 2 ^ 32 \<Longrightarrow>
      unat (sum_list (map (pss \<circ> pr_usage) rows)) = sum_list (map (unat \<circ> pss \<circ> U) pids)"
    and "sum_list (map (unat \<circ> uss \<circ> U) pids) < 2 ^ 32 \<Longrightarrow>
      unat (sum_list (map (uss \<circ> pr_usage) rows)) = sum_list (map (unat \<circ> uss \<circ> U) pids)"
proof -
  let ?ps = "map (\<lambda>pid. \<lparr>pr_pid = pid, pr_usage = U pid\<rparr>) pids"
  have "vss (U pid) \<noteq> 0 \<longleftrightarrow> 0 < p * length (F pid)" if pid: "pid \<in> set pids" for pid
  proof -
    have "unat (vss (U pid)) = p * length (F pid)" using U pid by (simp add: usage_is_def)
    then show ?thesis by (metis neq0_conv unat_eq_zero)
  qed
  then have "map pr_pid (filter (\<lambda>r. vss (pr_usage r) \<noteq> 0) ?ps) = filter (\<lambda>pid. 0 < p * length (F pid)) pids"
    by (auto simp: filter_map comp_def intro!: filter_cong)
  then show "mset (map pr_pid rows) = mset (filter (\<lambda>pid. 0 < p * length (F pid)) pids)"
    unfolding mset_map rows unfolding mset_map [symmetric] by (rule arg_cong)
  show "\<forall>r \<in> set rows. usage_is p (counts os ker (F (pr_pid r))) (pr_usage r)"
    using mset_eq_setD [OF rows] U by auto
  have ord: "uss (U pid) \<le> pss (U pid) \<and> pss (U pid) \<le> rss (U pid) \<and> rss (U pid) \<le> vss (U pid)" if pid: "pid \<in> set pids" for pid
    using usage_is_ordered [of p "counts os ker (F pid)" "U pid"] U pid by blast
  have none: "uss (U pid) = 0 \<and> pss (U pid) = 0" if pid: "pid \<in> set pids" and "vss (U pid) = 0" for pid
    using ord [OF pid] \<open>vss (U pid) = 0\<close> by auto
  have zero: "\<forall>r \<in> set ?ps. vss (pr_usage r) = 0 \<longrightarrow> (pss \<circ> pr_usage) r = 0" "\<forall>r \<in> set ?ps. vss (pr_usage r) = 0 \<longrightarrow> (uss \<circ> pr_usage) r = 0"
    using none by auto
  show "sum_list (map (unat \<circ> pss \<circ> U) pids) < 2 ^ 32 \<Longrightarrow>
      unat (sum_list (map (pss \<circ> pr_usage) rows)) = sum_list (map (unat \<circ> pss \<circ> U) pids)"
    unfolding sum_listed [OF rows zero(1)] using unat_sum_list [of "map (pss \<circ> U) pids"] by (simp add: comp_def)
  show "sum_list (map (unat \<circ> uss \<circ> U) pids) < 2 ^ 32 \<Longrightarrow>
      unat (sum_list (map (uss \<circ> pr_usage) rows)) = sum_list (map (unat \<circ> uss \<circ> U) pids)"
    unfolding sum_listed [OF rows zero(2)] using unat_sum_list [of "map (uss \<circ> U) pids"] by (simp add: comp_def)
qed

lemma usage_sum_bounds:
  assumes U: "\<forall>pid \<in> set pids. usage_is p (counts os ker (F pid)) (U pid)"
    and cnt: "\<forall>f \<in> set (concat (map F pids)). map_option unat (frame_count os ker f) = Some (count_list (concat (map F pids)) f)"
  defines "fs \<equiv> concat (map F pids)"
  shows "sum_list (map (unat \<circ> pss \<circ> U) pids) \<le> p * card (set fs)"
    and "p * card (set fs) \<le> sum_list (map (unat \<circ> pss \<circ> U) pids) + (length fs - card (set fs))"
    and "sum_list (map (unat \<circ> uss \<circ> U) pids) = p * card {f \<in> set fs. count_list fs f = 1}"
    and "p * card {f \<in> set fs. count_list fs f = 1} \<le> p * card (set fs)"
proof -
  note sums = usage_sums [OF U]
  show "sum_list (map (unat \<circ> pss \<circ> U) pids) \<le> p * card (set fs)"
    "p * card (set fs) \<le> sum_list (map (unat \<circ> pss \<circ> U) pids) + (length fs - card (set fs))"
    using counted_shares(1,2) [OF cnt, of p] unfolding fs_def comp_def sums(1) by simp_all
  show "sum_list (map (unat \<circ> uss \<circ> U) pids) = p * card {f \<in> set fs. count_list fs f = 1}"
    using counted_shares(3) [OF cnt] unfolding fs_def comp_def sums(2) by simp
  show "p * card {f \<in> set fs. count_list fs f = 1} \<le> p * card (set fs)" by (intro mult_left_mono card_mono) auto
qed

text \<open>
  C15. The report of \<^verbatim>\<open>procrank\<close> without \<^verbatim>\<open>-w\<close> and \<^verbatim>\<open>-W\<close>. When the processes can be examined and the kernel's
  counts say how often each frame is mapped by them, it lists exactly the processes that have a frame in memory, each with its use, in
  the order asked for, and its total line accounts for the memory: the proportional shares sum up to the size
  of the mapped frames except for what the divisions round off, and the unique shares to the size of the frames
  mapped once.
\<close>

theorem procrank_report:
  fixes env ker pids P args opt ram s
  defines "fs \<equiv> concat (map (\<lambda>pid. proc_frames (rk_os env) (P pid)) pids)" and "p \<equiv> unat (pagesize ker)"
  assumes law: "qsort_law (rk_sort_procs env)" and sys: "system_ok (rk_os env) ker pids P"
    and args: "procrank_args args \<lparr>ro_field = Pss, ro_order = -1, ro_ws = Ws_off\<rparr> = Inr opt" "ro_ws opt = Ws_off"
    and ram: "print_mem_info env = Inr ram"
    and snap: "\<forall>pid \<in> set pids. proc_ker (P pid) = ker \<and> snapshot_ok (rk_os env) (P pid)"
    and cnt: "\<forall>f \<in> set fs. map_option unat (frame_count (rk_os env) ker f) = Some (count_list fs f)"
    and fits: "p * card (set fs) < 2 ^ 32"
  shows "\<exists>rows names tp tu s'. procrank_main env args s =
      Inr (Inr (proc_head False @ concat (map2 (proc_row False) rows names) @ proc_total False tp tu @ [10] @ ram), s') \<and>
    length names = length rows \<and>
    sorted (map (field_of (ro_field opt) \<circ> pr_usage) (if ro_order opt = 1 then rows else rev rows)) \<and>
    mset (map pr_pid rows) = mset (filter (\<lambda>pid. 0 < p * length (proc_frames (rk_os env) (P pid))) pids) \<and>
    (\<forall>r \<in> set rows. usage_is p (counts (rk_os env) ker (proc_frames (rk_os env) (P (pr_pid r)))) (pr_usage r)) \<and>
    unat tp \<le> p * card (set fs) \<and> p * card (set fs) \<le> unat tp + (length fs - card (set fs)) \<and>
    unat tu = p * card {f \<in> set fs. count_list fs f = 1}"
proof -
  let ?os = "rk_os env" and ?F = "\<lambda>pid. proc_frames (rk_os env) (P pid)"
  have mem: "\<forall>n. \<not> os_oom ?os n" using sys by (simp add: system_ok_def)
  have order: "ro_order opt = 1 \<or> ro_order opt = -1" using procrank_args_order [OF args(1)] by simp
  obtain U where U: "\<forall>pid \<in> set pids. usage_is p (counts ?os ker (?F pid)) (U pid)"
    and run: "\<forall>pid \<in> set pids. \<forall>s. \<exists>s'. pm_process_usage ?os (Some (P pid)) True s = Inr ((0, Some (U pid)), s')"
    using usages_chosen [OF mem snap] unfolding p_def by blast
  define ps where "ps = map (\<lambda>pid. \<lparr>pr_pid = pid, pr_usage = U pid\<rparr>) pids"
  define rows where "rows = rk_sort_procs env (sort_by (ro_field opt) (ro_order opt) pr_usage) (filter (\<lambda>p. vss (pr_usage p) \<noteq> 0) ps)"
  have cmp: "sort_by (ro_field opt) (ro_order opt) pr_usage =
      (\<lambda>a b. ro_order opt * numcmp (uint ((field_of (ro_field opt) \<circ> pr_usage) a)) (uint ((field_of (ro_field opt) \<circ> pr_usage) b)))"
    by (simp add: sort_by_def fun_eq_iff)
  note srt = sort_by_sorted [OF law order, of "field_of (ro_field opt) \<circ> pr_usage"]
  have rows: "mset rows = mset (filter (\<lambda>r. vss (pr_usage r) \<noteq> 0) (map (\<lambda>pid. \<lparr>pr_pid = pid, pr_usage = U pid\<rparr>) pids))"
    unfolding rows_def cmp ps_def by (rule qsort_law.qs_mset [OF law srt(1)])
  have sorted: "sorted (map (field_of (ro_field opt) \<circ> pr_usage) (if ro_order opt = 1 then rows else rev rows))"
    using srt(2) unfolding rows_def cmp .
  note listed = listed_rows [OF U rows] and bounds = usage_sum_bounds [OF U cnt [unfolded fs_def], folded fs_def]
  obtain s1 where s1: "pm_kernel_create ?os True s = Inr ((0, Some ker), s1)" using sys unfolding system_ok_def by blast
  obtain s2 where s2: "pm_kernel_pids ?os s1 = Inr ((0, Some pids), s2)" using sys unfolding system_ok_def by blast
  obtain s3 where s3: "must_alloc ?os s2 = Inr (Inr (), s3)" using must_alloc_ok [OF mem] by blast
  obtain s4 where s4: "rank_procs ?os ker Ws_off pids s3 = Inr (Inr ps, s4)"
    using rank_procs_ok [OF mem _ run, of ker] sys unfolding system_ok_def ps_def by blast
  obtain names s5 where out: "proc_rows ?os False rows 0 0 (proc_head False) s4 =
      Inr ((0 + sum_list (map (pss \<circ> pr_usage) rows), 0 + sum_list (map (uss \<circ> pr_usage) rows),
        proc_head False @ concat (map2 (proc_row False) rows names)), s5)" "length names = length rows"
    using proc_rows_ok by blast
  let ?tp = "sum_list (map (pss \<circ> pr_usage) rows)" and ?tu = "sum_list (map (uss \<circ> pr_usage) rows)"
  have "procrank_main env args s =
      Inr (Inr (proc_head False @ concat (map2 (proc_row False) rows names) @ proc_total False ?tp ?tu @ [10] @ ram), s5)"
    using s1 s2 s3 s4 out(1) ram by (simp add: procrank_main_def args px_simps pm_simps Let_def rows_def)
  moreover have "unat ?tp = sum_list (map (unat \<circ> pss \<circ> U) pids)" using bounds(1) fits by (intro listed(3)) (rule le_less_trans)
  moreover have "unat ?tu = sum_list (map (unat \<circ> uss \<circ> U) pids)" by (rule listed(4)) (unfold bounds(3), rule le_less_trans [OF bounds(4) fits])
  ultimately show ?thesis
    using sorted listed(1,2) out(2) bounds(1-3)
    by (intro exI [of _ rows] exI [of _ names] exI [of _ ?tp] exI [of _ ?tu] exI [of _ s5] conjI) simp_all
qed

section \<open>An example\<close>

text \<open>One process that maps one page of a library, in the frame 5.\<close>

definition rank_entry :: maps_entry where
  "rank_entry = \<lparr>me_start = 0x1000, me_end = 0x2000, me_perms = [114, 45, 120, 112], me_off = 0, me_major = 31, me_minor = 1,
     me_inode = 7, me_pad = 3, me_name = Some [47, 108]\<rparr>"

definition rank_map :: pm_map where
  "rank_map = \<lparr>map_start = 0x1000, map_end = 0x2000, map_offset = 0, map_flags = 5, map_name = [47, 108]\<rparr>"

definition rank_ker :: pm_kernel where
  "rank_ker = \<lparr>kpagecount_fd = 3, kpageflags_fd = 3, pagesize = 4096\<rparr>"

definition rank_process :: "int \<Rightarrow> pm_process" where
  "rank_process pid = \<lparr>proc_ker = rank_ker, proc_pid = pid, proc_maps = [rank_map], pagemap_fd = 3\<rparr>"

definition rank_os :: pm_os where
  "rank_os = \<lparr>os_open = (\<lambda>_. Inr 3), os_fopen = (\<lambda>_. Inr (maps_line rank_entry @ [10])), os_proc_dir = Inr [[46], [49]],
     os_lseek = (\<lambda>_ _. None), os_read = (\<lambda>fd off n. Inr (if off = 40 then [1] else [0x8000000000000005])),
     os_pagesize = 4096, os_oom = (\<lambda>_. False), os_realloc_zero = True\<rparr>"

definition rank_sample :: rank_env where
  "rank_sample = \<lparr>rk_os = rank_os, rk_meminfo = Inl 2, rk_strerror = (\<lambda>_. [63]), rk_sort_procs = isort, rk_sort_libs = isort,
     rk_sort_maps = isort\<rparr>"

lemma rank_os_facts: "\<forall>n. \<not> os_oom rank_os n" "maps_entry_ok rank_entry" "named_maps None [rank_entry] = [rank_map]"
proof -
  show "\<forall>n. \<not> os_oom rank_os n" "named_maps None [rank_entry] = [rank_map]"
    by (simp_all add: rank_os_def rank_entry_def rank_map_def first_word_def is_space_def)
  show "maps_entry_ok rank_entry"
    by (simp add: rank_entry_def maps_entry_ok_def maps_line_def hex_padded_def hexadecimal.simps decimal.simps word_ok_def name_ok_def is_space_def)
qed

lemma rank_read_maps: "\<exists>s'. read_maps rank_os pid s = Inr ((0, [rank_map]), s')"
proof -
  let ?s = "s\<lparr>pm_allocs := pm_allocs s + 1\<rparr>"
  have "10 \<notin> set (maps_line rank_entry) \<and> length (maps_line rank_entry) \<le> 1022"
    using maps_line_chars [OF rank_os_facts(2)] rank_os_facts(2) by (auto simp: maps_entry_ok_def)
  then have lines: "fgets_lines 1022 (maps_line rank_entry @ [10]) = [maps_line rank_entry @ [10]]"
    using fgets_lines_lines [of "[maps_line rank_entry]" 1022] by simp
  have v: "length (lv_perms fresh_vars) = 5" "lv_name fresh_vars = None" "lv_name (step_vars rank_entry fresh_vars) = Some [47, 108]"
    by (simp_all add: fresh_vars_def step_vars_def rank_entry_def first_word_def is_space_def)
  obtain s1 where "maps_loop rank_os [maps_line rank_entry @ [10]] 10 fresh_vars [] ?s = Inr ((0, [rank_map]), s1)"
    using maps_loop_line [OF rank_os_facts(2) v(1) rank_os_facts(1), of "[]" 10 "[]" ?s] v rank_os_facts(3) by (auto simp: pret_def)
  moreover have "os_fopen rank_os f = Inr (maps_line rank_entry @ [10])" for f by (simp add: rank_os_def)
  ultimately show ?thesis
    by (simp add: read_maps_def pm_simps pm_alloc_ok [OF rank_os_facts(1)] lines pm_shrink_def)
qed

lemma rank_system: "system_ok rank_os rank_ker [1] rank_process"
proof -
  have al: "pm_alloc rank_os s = Inr (True, s\<lparr>pm_allocs := pm_allocs s + 1\<rparr>)" for s by (rule pm_alloc_ok [OF rank_os_facts(1)])
  have op: "pm_open rank_os f s = Inr (Some 3, s\<lparr>pm_opened := 3 # pm_opened s\<rparr>)" for f s by (simp add: pm_open_def rank_os_def)
  have "\<exists>s'. pm_kernel_create rank_os True s = Inr ((0, Some rank_ker), s')" for s
    by (simp add: pm_kernel_create_def pm_simps al op rank_ker_def) (simp add: rank_os_def)
  moreover have "\<exists>s'. pm_kernel_pids rank_os s = Inr ((0, Some [1]), s')" for s
  proof -
    have "scan_dec [46] = None" "scan_dec [49] = Some ((False, 1), [])" "store_int (False, 1) = Inr 1" by code_simp+
    moreover have "os_proc_dir rank_os = Inr [[46], [49]]" by (simp add: rank_os_def)
    ultimately show ?thesis by (simp add: pm_kernel_pids_def pm_simps al pm_shrink_def)
  qed
  moreover have "\<exists>s'. pm_process_create rank_os (Some rank_ker) 1 True s = Inr ((0, Some (rank_process 1)), s')" for s
  proof -
    let ?s = "s\<lparr>pm_allocs := pm_allocs s + 1, pm_opened := 3 # pm_opened s\<rparr>"
    obtain s1 where "read_maps rank_os 1 ?s = Inr ((0, [rank_map]), s1)" using rank_read_maps by blast
    then show ?thesis by (simp add: pm_process_create_def pm_simps al op rank_process_def)
  qed
  ultimately show ?thesis using rank_os_facts(1) by (simp add: system_ok_def)
qed

lemma rank_frames: "proc_frames rank_os (rank_process 1) = [5]" "frame_count rank_os rank_ker 5 = Some 1" "snapshot_ok rank_os (rank_process 1)"
proof -
  have core: "in_core 0x8000000000000005" "frame 0x8000000000000005 = 5" by code_simp+
  show fs: "proc_frames rank_os (rank_process 1) = [5]"
    by (simp add: proc_frames_def map_frames_def map_entries_def range_pages_def range_off_def rank_process_def rank_map_def rank_ker_def
        rank_os_def core)
  show fc: "frame_count rank_os rank_ker 5 = Some 1" by (simp add: frame_count_def rank_os_def rank_ker_def)
  show "snapshot_ok rank_os (rank_process 1)"
    using fs fc by (simp add: snapshot_ok_def)
      (simp add: readable_def range_pages_def range_off_def rank_process_def rank_map_def rank_ker_def rank_os_def)
qed

definition rank_st :: pm_st where
  "rank_st = \<lparr>pm_errno = 0, pm_allocs = 0, pm_opened = [], pm_closed = [], pm_written = []\<rparr>"

theorem procrank_report_witness:
  "\<exists>rows names tp tu s'. procrank_main rank_sample [] rank_st =
      Inr (Inr (proc_head False @ concat (map2 (proc_row False) rows names) @ proc_total False tp tu @ [10] @
        pm_str ''Unable to open /proc/meminfo: ?'' @ [10]), s') \<and>
    mset (map pr_pid rows) = mset [1] \<and> unat tp = 4096 \<and> unat tu = 4096"
proof -
  let ?fs = "concat (map (\<lambda>pid. proc_frames (rk_os rank_sample) (rank_process pid)) [1])"
  have os: "rk_os rank_sample = rank_os" by (simp add: rank_sample_def)
  have fs: "?fs = [5]" by (simp add: os rank_frames)
  have law: "qsort_law (rk_sort_procs rank_sample)" by (simp add: rank_sample_def isort.qsort_law_axioms)
  have sys: "system_ok (rk_os rank_sample) rank_ker [1] rank_process" by (simp add: os rank_system)
  have ram: "print_mem_info rank_sample = Inr (pm_str ''Unable to open /proc/meminfo: ?'' @ [10])"
    by (simp add: print_mem_info_def rank_sample_def pm_str_def)
  have snap: "\<forall>pid \<in> set [1]. proc_ker (rank_process pid) = rank_ker \<and> snapshot_ok (rk_os rank_sample) (rank_process pid)"
    by (simp add: os rank_frames) (simp add: rank_process_def)
  have cnt: "\<forall>f \<in> set ?fs. map_option unat (frame_count (rk_os rank_sample) rank_ker f) = Some (count_list ?fs f)"
    unfolding fs by (simp add: os rank_frames)
  have p: "unat (pagesize rank_ker) = 4096" by (simp add: rank_ker_def)
  have fits: "unat (pagesize rank_ker) * card (set ?fs) < 2 ^ 32" unfolding fs p by simp
  have one: "{f \<in> set [5 :: u32]. count_list [5] f = 1} = {5}" by auto
  have listed: "filter (\<lambda>pid. 0 < unat (pagesize rank_ker) * length (proc_frames (rk_os rank_sample) (rank_process pid))) [1] = [1]"
    by (simp add: os rank_frames p)
  obtain rows names tp tu s' where
    "procrank_main rank_sample [] rank_st = Inr (Inr (proc_head False @ concat (map2 (proc_row False) rows names) @
       proc_total False tp tu @ [10] @ pm_str ''Unable to open /proc/meminfo: ?'' @ [10]), s')"
    "mset (map pr_pid rows) = mset [1]" "unat tp = 4096" "unat tu = 4096"
    using procrank_report [OF law sys _ _ ram snap cnt fits, of "[]" "\<lparr>ro_field = Pss, ro_order = -1, ro_ws = Ws_off\<rparr>" rank_st]
    unfolding fs p one listed [unfolded p] by auto
  then show ?thesis by blast
qed

theorem librank_report_witness:
  "\<exists>l m s'. librank_main rank_sample [] rank_st = Inr (Inr (librank_head @ report_lines (l, [m])), s') \<and>
    lib_name l = [47, 108] \<and> pss (lib_total l) = 4096 \<and> pi_pid (mp_proc m) = 1 \<and> pss (mp_usage m) = 4096"
proof -
  let ?opt = "\<lparr>lo_prefix = None, lo_field = Pss, lo_order = -1\<rparr>" and ?u = "\<lparr>vss = 4096, rss = 4096, pss = 4096, uss = 4096\<rparr>"
  have os: "rk_os rank_sample = rank_os" by (simp add: rank_sample_def)
  have law: "qsort_law (rk_sort_libs rank_sample)" by (simp add: rank_sample_def isort.qsort_law_axioms)
  have sys: "system_ok (rk_os rank_sample) rank_ker [1] rank_process" by (simp add: os rank_system)
  have maps: "proc_maps (rank_process 1) = [rank_map]" "map_name rank_map = [47, 108]" by (simp_all add: rank_process_def rank_map_def)
  have sel: "selected None [47, 108]" by (simp add: selected_def pm_str_def)
  have core: "PM_PAGEMAP_PRESENT 0x8000000000000005 = 1" "PM_PAGEMAP_SWAPPED 0x8000000000000005 = 0" "PM_PAGEMAP_PFN 0x8000000000000005 = 5"
    by code_simp+
  have "\<exists>s'. pm_map_usage rank_os (Some (rank_process 1, rank_map)) True s = Inr ((0, Some ?u), s')" for s
    by (simp add: pm_map_usage_def pm_map_pagemap_def pm_process_pagemap_range_def range_off_def range_pages_def rank_process_def
        rank_map_def rank_ker_def rank_os_def pm_simps pm_alloc_def core pm_kernel_count_def read_entry_def add_page_def add_vss_def
        pm_memusage_zero_def)
  then have uses: "\<forall>pid \<in> set [1]. \<forall>m \<in> set (proc_maps (rank_process pid)). selected (lo_prefix ?opt) (map_name m) \<longrightarrow>
      (\<forall>s. \<exists>s'. pm_map_usage (rk_os rank_sample) (Some (rank_process pid, m)) True s = Inr ((0, Some ?u), s'))"
    by (simp add: os maps)
  have laws: "qsort_law (rk_sort_maps rank_sample)" by (simp add: rank_sample_def isort.qsort_law_axioms)
  obtain libs s' where main: "librank_main rank_sample [] rank_st = Inr (Inr (librank_head @ concat (map report_lines libs)), s')"
    and dist: "distinct (map (lib_name \<circ> fst) libs)"
    and names: "\<forall>n. n \<in> (lib_name \<circ> fst) ` set libs \<longleftrightarrow>
       selected (lo_prefix ?opt) n \<and> (\<exists>pid \<in> set [1]. n \<in> map_name ` set (proc_maps (rank_process pid)))"
    and exact: "\<forall>(l, ms) \<in> set libs. library_exact (rk_os rank_sample) [1] rank_process (\<lambda>_ _. ?u) l \<and> mset ms = mset (lib_mappings l)"
    using librank_report [OF law laws sys _ _ uses, of "[]" rank_st] by (auto split: prod.splits)
  have n: "(lib_name \<circ> fst) ` set libs = {[47, 108]}" using names sel by (auto simp: maps)
  have "card (set (map (lib_name \<circ> fst) libs)) = length libs" using distinct_card [OF dist] by simp
  then have "length libs = 1" using n by simp
  then obtain l ms where libs: "libs = [(l, ms)]" by (cases libs) (auto simp: length_Suc_conv)
  have name: "lib_name l = [47, 108]" using n libs by simp
  have ex: "library_exact rank_os [1] rank_process (\<lambda>_ _. ?u) l" "mset ms = mset (lib_mappings l)"
    using exact libs os by auto
  have tot: "lib_total l = usage_sum [?u]" using ex(1) name by (simp add: library_exact_def uses_in_def maps)
  have ids: "(pi_id \<circ> mp_proc) ` set (lib_mappings l) = {0}" using ex(1) name by (auto simp: library_exact_def maps)
  have dm: "distinct (map (pi_id \<circ> mp_proc) (lib_mappings l))" using ex(1) by (simp add: library_exact_def)
  have "card (set (map (pi_id \<circ> mp_proc) (lib_mappings l))) = length (lib_mappings l)"
    using distinct_card [OF dm] by simp
  then have "length ms = 1" using ids mset_eq_length [OF ex(2)] by simp
  then obtain m where m: "ms = [m]" by (cases ms) auto
  have mem: "m \<in> set (lib_mappings l)" using mset_eq_setD [OF ex(2)] m by auto
  have "pi_id (mp_proc m) \<in> (pi_id \<circ> mp_proc) ` set (lib_mappings l)" using mem by simp
  then have id: "pi_id (mp_proc m) = 0" unfolding ids by simp
  have "mp_proc m = process_of rank_os (pi_id (mp_proc m)) ([1] ! pi_id (mp_proc m)) \<and>
      mp_usage m = usage_sum (uses_in rank_process (\<lambda>_ _. ?u) (lib_name l) ([1] ! pi_id (mp_proc m)))"
    using ex(1) mem unfolding library_exact_def by blast
  then have "mp_proc m = process_of rank_os 0 1" "mp_usage m = usage_sum [?u]"
    unfolding id by (simp_all add: uses_in_def maps name)
  then show ?thesis using main libs m name tot by (intro exI [of _ l] exI [of _ m] exI [of _ s'])
    (simp add: usage_sum_def process_of_def)
qed

end
