(* ===== verification/Spec2Isabelle.thy ===== *)
theory Spec2Isabelle
  imports Prelude Bytes Stores Crc16 Sha1 Uuid Ext4_Types Bitmap Fs_Params Block_Group Regions Allocation Inodes Extent
    Indirect Superblock Directory Contents Xattrs Make_Ext4fs Ext4fixup Ext2simg Scanf Pagemap Fdpool Fat_Fs Fat_Import
    Ublock Fat_Device Showmap Qsort Latencytop Ranking
begin

text \<open>
  \<^bold>\<open>The program.\<close> The repository \<^verbatim>\<open>system/extras\<close> of Android holds host and device tools. This
  development models five groups of them, on a 32-bit little-endian machine with unsigned \<^verbatim>\<open>char\<close>, the
  target of the device tools:
  \<^item> \<^verbatim>\<open>src/ext4_utils\<close>: a library and tools that build an ext4 file system image from a directory tree
    without the kernel (\<^verbatim>\<open>make_ext4fs\<close>), renumber the inodes of an existing file system
    (\<^verbatim>\<open>ext4fixup\<close>) and turn an image into a sparse image (\<^verbatim>\<open>ext2simg\<close>);
  \<^item> \<^verbatim>\<open>src/fatblock\<close>: a program that presents a directory tree as a FAT volume on a block device;
  \<^item> \<^verbatim>\<open>src/libublock\<close>: the library for block devices in user space that it runs on;
  \<^item> \<^verbatim>\<open>src/libpagemap\<close>: the library that computes the memory use of processes;
  \<^item> reports on memory and latency: \<^verbatim>\<open>src/procrank\<close> and \<^verbatim>\<open>src/librank\<close>, which rank processes and
    libraries by the figures of \<^verbatim>\<open>libpagemap\<close>, \<^verbatim>\<open>src/showmap\<close>, the memory map of a process, and
    \<^verbatim>\<open>src/latencytop\<close>, the kernel's latency statistics.

  \<^bold>\<open>How the parts interact.\<close> \<^verbatim>\<open>make_ext4fs_internal\<close> chooses the parameters \<^verbatim>\<open>info\<close>, derives the
  geometry \<^verbatim>\<open>aux_info\<close>, sets up the block groups, fills in the superblock and the descriptors, creates
  the special inodes, copies the directory tree, and updates the free counts and checksums. A file or a
  directory asks the extent or the block map layer for blocks, that layer asks the allocator, and the
  allocator asks the groups, whose bitmaps record which blocks and inodes are taken. Data is never
  written by this code: it is queued as chunks to \<^verbatim>\<open>libsparse\<close>, which is not in the repository.

  \<^verbatim>\<open>fatblock\<close> imports the tree into clusters of a volume, each region of which is an extent that names
  what backs it: a table in memory, a directory or a file of the host. Its \<^verbatim>\<open>read\<close> is called by
  \<^verbatim>\<open>libublock\<close> for every request of the kernel; files are opened through a pool that keeps at most four
  descriptors. \<^verbatim>\<open>libpagemap\<close> reads page tables and counts from \<^verbatim>\<open>/proc\<close>.

  \<^bold>\<open>Theories.\<close>
  \<^item> \<^verbatim>\<open>Prelude\<close>, \<^verbatim>\<open>Bytes\<close>: integer types, the outcome type, rounding macros, buffers of bytes and
    the little-endian loads and stores that stand for struct overlays.
  \<^item> \<^verbatim>\<open>Crc16\<close> (\<^verbatim>\<open>crc16.c\<close>): the table-driven checksum equals the bit-serial CRC and detects
    changes of two adjacent bytes.
  \<^item> \<^verbatim>\<open>Sha1\<close>, \<^verbatim>\<open>Uuid\<close> (\<^verbatim>\<open>sha1.c\<close>, \<^verbatim>\<open>uuid.c\<close>): the streaming code with its circular
    schedule and unrolled rounds refines FIPS 180-1; the layout of a generated UUID.
  \<^item> \<^verbatim>\<open>Ext4_Types\<close> (\<^verbatim>\<open>ext4_utils.h\<close>, \<^verbatim>\<open>allocate.c\<close>): the records for \<^verbatim>\<open>fs_info\<close>,
    \<^verbatim>\<open>fs_aux_info\<close>, \<^verbatim>\<open>block_group_info\<close>, \<^verbatim>\<open>region\<close>, \<^verbatim>\<open>block_allocation\<close>, and
    \<open>ext4_st\<close>, the whole state of the builder: the globals, the heap of regions, the buffers queued so
    far and the trace of calls to \<^verbatim>\<open>libsparse\<close>.
  \<^item> \<^verbatim>\<open>Bitmap\<close>: the bitmap macros, with the locale \<open>bit_set\<close> of what a bitmap promises.
  \<^item> \<^verbatim>\<open>Fs_Params\<close> (\<^verbatim>\<open>ext4_utils.c\<close>): backup groups, logarithm, geometry, size arguments.
  \<^item> \<^verbatim>\<open>Block_Group\<close>, \<^verbatim>\<open>Regions\<close>, \<^verbatim>\<open>Allocation\<close> (\<^verbatim>\<open>allocate.c\<close>): groups, the allocator, and
    what it guarantees. The invariant is \<open>alloc_ok\<close> (every group has bitmaps of one block whose set bits are
    the group's used blocks, and counts that agree with them), \<open>took\<close> says how a state changes when
    blocks are taken, and the locale \<open>fresh_source\<close> gives, for inodes alone and for requests for blocks and
    inodes in any order, that a sequence of requests is served with pairwise different numbers.
  \<^item> \<^verbatim>\<open>Inodes\<close>, \<^verbatim>\<open>Extent\<close>, \<^verbatim>\<open>Indirect\<close> (\<^verbatim>\<open>extent.c\<close>, \<^verbatim>\<open>indirect.c\<close>): the mapping
    from file blocks to device blocks, in extents and in block maps. The extents are judged by a reader of
    the on-disk format, \<open>read_extents\<close> and \<open>extent_lookup\<close>.
  \<^item> \<^verbatim>\<open>Superblock\<close> (\<^verbatim>\<open>ext4_utils.c\<close>): filling in, parsing, special inodes, free counts and
    descriptor checksums.
  \<^item> \<^verbatim>\<open>Directory\<close>, \<^verbatim>\<open>Contents\<close>, \<^verbatim>\<open>Xattrs\<close> (\<^verbatim>\<open>contents.c\<close>): directories, files, links,
    extended attributes; directories and attributes are judged by readers of the on-disk format.
  \<^item> \<^verbatim>\<open>Make_Ext4fs\<close> (\<^verbatim>\<open>make_ext4fs.c\<close>, \<^verbatim>\<open>wipe.c\<close>): the choice of parameters, the walk over
    the host's tree, the whole run.
  \<^item> \<^verbatim>\<open>Ext4fixup\<close> (\<^verbatim>\<open>ext4fixup.c\<close>): the renumbering tool with the phase it records on the device.
  \<^item> \<^verbatim>\<open>Ext2simg\<close> (\<^verbatim>\<open>ext2simg.c\<close>): the scan of the bitmaps for runs of used blocks.
  \<^item> \<^verbatim>\<open>Stores\<close>: lists of stores into a buffer and what is read back from them.
  \<^item> \<^verbatim>\<open>Fdpool\<close> (\<^verbatim>\<open>fdpool.c\<close>): the ring of open descriptors, with the locale \<open>simulation\<close>, in which
    it is shown to be a least-recently-used cache.
  \<^item> \<^verbatim>\<open>Fat_Fs\<close> (\<^verbatim>\<open>fs.c\<close>, \<^verbatim>\<open>read.c\<close>, \<^verbatim>\<open>utils.c\<close>): the volume, its invariant \<open>fs_ok\<close>, the
    allocation of clusters, and reading, judged by \<open>image_byte\<close>, the byte at a position of the device.
  \<^item> \<^verbatim>\<open>Fat_Import\<close> (\<^verbatim>\<open>import.c\<close>, \<^verbatim>\<open>fat.c\<close>): names, directory entries, items in a store, the tree.
  \<^item> \<^verbatim>\<open>Ublock\<close> (\<^verbatim>\<open>ublock.c\<close>): the requests of the kernel; the locale \<open>read_client\<close> is the contract
    of a client's \<^verbatim>\<open>read\<close>, under which the loop answers all requests.
  \<^item> \<^verbatim>\<open>Fat_Device\<close> (\<^verbatim>\<open>fatblock.c\<close>): the program; the volume is shown to keep that contract.
  \<^item> \<^verbatim>\<open>Scanf\<close>, \<^verbatim>\<open>Pagemap\<close> (\<^verbatim>\<open>libpagemap\<close>): \<^verbatim>\<open>fgets\<close> and \<^verbatim>\<open>sscanf\<close> as the code uses them, the
    page map, the maps file in the format of the kernel, and the accounting of memory.
  \<^item> \<^verbatim>\<open>Showmap\<close> (\<^verbatim>\<open>showmap.c\<close>): parsing of \<^verbatim>\<open>smaps\<close>, the ordered list, the report. The locale
    \<open>key_insertion\<close> shows that inserting by a key is a stable sort, for the order by address and by name.
  \<^item> \<^verbatim>\<open>Qsort\<close>: the contract \<open>qsort_law\<close> of \<^verbatim>\<open>qsort\<close>, met by an insertion sort.
  \<^item> \<^verbatim>\<open>Latencytop\<close> (\<^verbatim>\<open>latencytop.c\<close>): the program in an environment that answers from the history of the
    run; the entries are judged by \<open>summary\<close>, the sums over the samples of a reason.
  \<^item> \<^verbatim>\<open>Ranking\<close> (\<^verbatim>\<open>procrank.c\<close>, \<^verbatim>\<open>librank.c\<close>): both programs on \<^verbatim>\<open>Pagemap\<close>; \<open>libs_ok\<close> is the
    invariant of the array of libraries.
  \<^item> This theory: the properties that span components.

  \<^bold>\<open>Conventions.\<close> A function that may leave by \<^verbatim>\<open>longjmp\<close> returns a sum: \<open>Inl\<close> with
  \<open>Longjmp\<close> for \<^verbatim>\<open>critical_error\<close>, and for \<^verbatim>\<open>error\<close> unless the \<^verbatim>\<open>force\<close> flag is set,
  \<open>Undefined\<close> for behaviour C leaves undefined (an access outside a buffer, a null pointer, a division by
  zero, a freed region, an uninitialised variable), and \<open>Diverges\<close> for a loop that the code repeats forever;
  \<open>Inr\<close> carries the result and the new state. C strings are lists of bytes without the terminating zero.
  Copies of strings made with \<^verbatim>\<open>strdup\<close> and \<^verbatim>\<open>asprintf\<close> are taken to succeed, and memory that no
  claim is about (allocations as opposed to their regions, directory entries, names) is not tracked. Which
  calls of \<^verbatim>\<open>malloc\<close> fail (\<open>oom\<close>) and which calls of \<^verbatim>\<open>libsparse\<close> fail are inputs of the model,
  and so are the host's files, the SELinux labels, the devices, the layout of the kernel's messages to
  \<^verbatim>\<open>ublock\<close>, the kernel's page tables and the files of \<^verbatim>\<open>/proc\<close>: theorems hold for all of them unless they
  say otherwise. The reports are modelled to the byte on the standard output; other text printed for the
  user is left out.

  \<^bold>\<open>Bounds and fuel.\<close> Loops that C bounds are structural recursions or have a measure. Loops over linked
  regions run on fuel one larger than the number of regions ever allocated, which no acyclic list exceeds
  (\<open>dchain_fuel\<close>). The loop of \<^verbatim>\<open>ext4_allocate_multiple_contiguous_blocks\<close> runs on one
  step more than the blocks asked for: every region it links has a block, except when the first unused
  group is full, where the code repeats the same step forever. The walks over directories, on the host by
  \<open>make_ext4fs\<close> and on the device by \<open>ext4fixup\<close>, and the import of \<open>fatblock\<close>, take a depth or a number of
  steps as an argument, because a cyclic directory makes the code recurse until its stack is exhausted; the
  theorems name the fuel that suffices. The loop of \<open>ublock\<close> runs until the kernel or the client ends it; its
  fuel is the number of requests. The rounds of \<open>latencytop\<close> are counted by its option, and by fuel when
  there is no limit.

  \<^bold>\<open>What is shown.\<close> The allocator hands out every block and inode at most once, in the number asked for,
  and takes back exactly what it gave; a new file system starts in its invariant for every length from one
  block to \<open>2 ^ 43\<close> bytes; the extents of a file lead each of its blocks and bytes to the block that
  was allocated and queued for it; directories, attributes, size arguments, the parameters that are stored in the superblock and the
  recorded phase of \<open>ext4fixup\<close> are read back as they were written; descriptors carry the right counts and
  checksums; renumbering moves every entry of a directory to its new place and can be repeated after an
  interruption; a sparse image holds exactly the used blocks of its source; a FAT volume lists the files
  that were imported, and a kernel that reads a part of the device in which there is no file gets the bytes of
  its image; the proportional shares of
  all processes add up to the memory they map, also in the total line of \<open>procrank\<close>; \<open>librank\<close> and \<open>showmap\<close>
  add up what the maps of a name use and list it in order; \<open>latencytop\<close> switches the accounting of the kernel
  off when it leaves. Where the code fails its purpose a theorem pins the failure to its inputs: the allocator
  loops on full groups, three-level block maps have a period of zero, the last group of 1K-block file
  systems can be lost, resize slots collide, block maps repeat their direct blocks, an attribute can leave
  its list unterminated, a length below one block divides by zero, a file of the FAT volume is read from the
  wrong position, skipped entries lose files of an import, a request outside the protocol of \<^verbatim>\<open>ublock\<close> uses an
  uninitialised length, anonymous mappings are reported under the name of another and names with a blank are
  cut, the latencies of a process are those of the whole system.

  \<^bold>\<open>Not modelled.\<close> \<^verbatim>\<open>setup_fs.c\<close> and the \<^verbatim>\<open>main\<close> functions of the ext4 tools parse options and
  call what is modelled. \<^verbatim>\<open>libsparse\<close>, \<^verbatim>\<open>zlib\<close>, SELinux and the kernel are not in the repository and are
  parameters. The other directories are separate programs: tables of files of \<^verbatim>\<open>/proc\<close> (\<^verbatim>\<open>procmem\<close>,
  \<^verbatim>\<open>showslab\<close>, \<^verbatim>\<open>cpustats\<close>, \<^verbatim>\<open>sane_schedstat\<close>), \<^verbatim>\<open>su\<close>, the audio player \<^verbatim>\<open>sound\<close>, benchmarks and
  tests, and the C++ binder and JNI \<^verbatim>\<open>wrapper\<close>.
\<close>

section \<open>From parameters to an allocator\<close>

lemma default_geometry:
  assumes len: "4096 \<le> unat len" "unat len < 2 ^ 43" and no_oom: "\<forall>n. \<not> oom s n"
  obtains fi s1 where "choose_parameters st io (len_only len l) = Inr (Some fi)"
    and "ext4_create_fs_aux_info (s\<lparr>info := fi\<rparr>) = Inr s1" and "info s1 = fi"
    and "geometry_ok (info s1) (aux_info s1)" and "oom s1 = oom s"
proof -
  define B where "B = unat len div 4096"
  have Bb: "0 < B" "B < 2 ^ 31" using len by (simp_all add: B_def div_greater_zero_iff less_mult_imp_div_less)
  obtain fi where fi: "choose_parameters st io (len_only len l) = Inr (Some fi)"
    "block_size fi = 4096" "blocks_per_group fi = 32768" "inode_size fi = 256" "unat (info_len fi) = 4096 * B"
    "unat (inodes_per_group fi) \<le> 8192"
    "unat (bg_desc_reserve_blocks fi) = min 1024 (8 * ((B + 32767) div 32768) - (32 * ((B + 32767) div 32768) + 4095) div 4096)"
    using choose_parameters_ok [OF len B_def refl] by metis
  obtain s1 where s1: "ext4_create_fs_aux_info (s\<lparr>info := fi\<rparr>) = Inr s1"
    using create_fs_aux_info_ok [of "s\<lparr>info := fi\<rparr>"] fi no_oom by auto
  note f = aux_info_fields [OF s1, simplified]
  have oom: "oom s1 = oom s"
    using s1 by (auto simp: ext4_create_fs_aux_info_def Let_def outcome_simps split: if_splits)
  have pos: "0 < sint (info_len fi)" using fi(5) Bb by (intro sint_pos) simp_all
  have L: "unat (fs_len_blocks fi) = B"
    using unat_div_len [of "info_len fi" "block_size fi"] pos fi by (simp add: fs_len_blocks_def)
  have G: "unat (fs_groups fi) = (B + 32767) div 32768"
    using unat_fs_groups(1) [of fi] pos fi L Bb by simp
  have G': "unat (fs_groups fi) \<le> 65536" using groups_bounds(2) [OF Bb(2,1)] G by simp
  have it: "unat (fs_inode_table_blocks fi) \<le> 512"
  proof -
    have m: "unat (inodes_per_group fi * 256) = unat (inodes_per_group fi) * 256"
      using fi(6) unat_mult_small [of "inodes_per_group fi" 256] by simp
    have "unat (fs_inode_table_blocks fi) = (unat (inodes_per_group fi) * 256 + 4095) div 4096"
      using fi(2,4,6) m by (simp add: fs_inode_table_blocks_def unat_DIV_ROUND_UP)
    then show ?thesis using fi(6) by simp
  qed
  have gd: "unat (fs_bg_desc_blocks fi) \<le> 512"
  proof -
    have m: "unat (fs_groups fi * 32) = unat (fs_groups fi) * 32"
      using G' unat_mult_small [of "fs_groups fi" 32] by simp
    have "unat (fs_bg_desc_blocks fi) = (unat (fs_groups fi) * 32 + 4095) div 4096"
      using fi(2) G' m by (simp add: fs_bg_desc_blocks_def unat_DIV_ROUND_UP)
    then show ?thesis using G' by simp
  qed
  have "uint (info_len fi) = int (4096 * B)" using fi(5) by (metis uint_nat)
  moreover have rs: "unat (bg_desc_reserve_blocks fi) \<le> 1024" using fi(7) by simp
  ultimately have sane: "sane_geometry fi (aux_info s1)"
    using pos fi(2,3) it gd Bb by (simp add: sane_geometry_def f)
  have le: "unat (len_blocks (aux_info s1)) \<le> B" "unat (groups (aux_info s1)) \<le> 65536"
  proof -
    have "unat (ucast (fs_last_group_size fi) :: u64) \<le> unat (fs_len_blocks fi)"
      by (simp add: fs_last_group_size_def unsigned_ucast_eq unsigned_take_bit_eq unat_mod
          order_trans [OF take_bit_nat_less_eq_self])
    then show "unat (len_blocks (aux_info s1)) \<le> B"
      by (simp add: f L unat_sub word_le_nat_alt)
    have "0 < unat (fs_groups fi)" using groups_bounds(1) [OF Bb(2,1)] G by simp
    then show "unat (groups (aux_info s1)) \<le> 65536"
      using G' by (auto simp: f unat_minus_one unat_gt_0)
  qed
  have first: "unat (first_data_block (aux_info s1)) = 0" by (simp add: f fs_first_data_block_def fi)
  have head: "group_header fi (aux_info s1) g \<le> 32768" for g using it gd rs by (simp add: group_header_def f)
  have fit: "g * 32768 + group_header fi (aux_info s1) g \<le> unat (len_blocks (aux_info s1))"
    if "g < unat (groups (aux_info s1))" for g
    using groups_fit [OF s1 _ that] sane by (simp add: fi)
  have "geometry_ok (info s1) (aux_info s1)"
    using fi(2,3,6) le Bb first head fit by (simp add: geometry_ok_def f)
  then show ?thesis using that fi(1) s1 f oom by simp
qed

text \<open>
  C6. From a length to a working allocator: for every length from one block up to \<open>2 ^ 43\<close> bytes, the
  parameters \<^verbatim>\<open>make_ext4fs\<close> chooses give a geometry in which every block group has room for its header,
  and setting up the groups succeeds with the allocator's invariant, each group starting with exactly its header
  and the blocks past the end in use.
\<close>

theorem default_filesystem_allocates:
  assumes "4096 \<le> unat len" "unat len < 2 ^ 43" and "\<forall>n. \<not> oom s n"
  shows "\<exists>fi s1 s2. choose_parameters st io (len_only len l) = Inr (Some fi) \<and>
    ext4_create_fs_aux_info (s\<lparr>info := fi\<rparr>) = Inr s1 \<and> block_allocator_init s1 = Inr s2 \<and> alloc_ok s2 \<and> info s2 = fi \<and>
    (\<forall>g < unat (groups (aux_info s2)). bits (bgi_bitmaps (bgs (aux_info s2) ! g)) = initial_blocks fi (aux_info s1) g)"
proof -
  obtain fi s1 where p: "choose_parameters st io (len_only len l) = Inr (Some fi)"
    "ext4_create_fs_aux_info (s\<lparr>info := fi\<rparr>) = Inr s1" "info s1 = fi" "geometry_ok (info s1) (aux_info s1)" "oom s1 = oom s"
    using default_geometry [OF assms] .
  obtain s2 x where "block_allocator_init s1 = Inr s2" "alloc_ok s2" "info s2 = info s1" "aux_info s2 = (aux_info s1)\<lparr>bgs := x\<rparr>"
    "\<forall>g < unat (groups (aux_info s1)). bits (bgi_bitmaps (bgs (aux_info s2) ! g)) = initial_blocks (info s1) (aux_info s1) g"
    using block_allocator_init_all [OF p(4)] assms(3) p(5) by auto
  then show ?thesis using p(1-3) by auto
qed

theorem default_filesystem_allocates_witness:
  "\<exists>fi s1 s2. choose_parameters None None (len_only 104857600 []) = Inr (Some fi) \<and>
     ext4_create_fs_aux_info ((start_st blank_info)\<lparr>info := fi\<rparr>) = Inr s1 \<and> block_allocator_init s1 = Inr s2 \<and> alloc_ok s2"
  using default_filesystem_allocates [of 104857600 "start_st blank_info" None None "[]"] by auto

end
